(* ===== verification/Go_Prelude.thy ===== *)
theory Go_Prelude
  imports
    Main
    "HOL-Library.Char_ord"
    "HOL-Library.List_Lexorder"
    "HOL-Library.Product_Lexorder"
    "HOL-Library.AList"
    "HOL-Library.Multiset"
    "HOL-Library.Word"
begin

text \<open>
  The shared vocabulary of the development: Go's strings and byte slices, the
  errors of the packages, slices that may be nil, maps, UTF-8, hexadecimal and
  the unsigned varint of \<^verbatim>\<open>encoding/binary\<close>, with the lemmas about them that every
  component uses.

  A Go string and a \<^verbatim>\<open>[]byte\<close> are both sequences of bytes: \<open>bytes\<close> is the type of
  lists of (8-bit) characters and \<^verbatim>\<open>len\<close> is \<open>length\<close>. Go compares strings and
  \<^verbatim>\<open>bytes.Compare\<close> compares slices by unsigned lexicographic order; that is the
  order of \<open>HOL-Library.List_Lexorder\<close> over \<open>HOL-Library.Char_ord\<close>, so
  \<^verbatim>\<open>sort.Strings\<close> is \<open>sort\<close>.
\<close>

named_theorems go_defs \<open>definitions of the Go vocabulary, unfolded to evaluate a closed term\<close>
named_theorems go_ascii \<open>facts that a text is made of printable ASCII or lower-case hexadecimal\<close>

section \<open>Types\<close>

type_synonym bytes = string
type_synonym u32 = "32 word"
type_synonym u64 = "64 word"

text \<open>
  The sentinel errors of the packages. \<^verbatim>\<open>fmt.Errorf\<close> with a \<open>%w\<close> verb keeps the sentinel
  visible to \<^verbatim>\<open>errors.Is\<close>, so an error is modelled by the sentinel it wraps and the
  message text is dropped; \<open>ErrOther\<close> is an error that wraps no sentinel, and
  \<open>ErrJoin\<close> is \<^verbatim>\<open>errors.Join\<close>.
\<close>

datatype err =
    ErrUnauthorized | ErrNotFound | ErrExists | ErrConflict | ErrRevoked | ErrUnsupported | ErrTarget
  | ErrIntegrity | ErrMessageTooLarge | ErrInvalidRecord
  | ErrStateConflict | ErrStaleRevision | ErrInvalid
  | ErrInvalidRevision | ErrMissingParent | ErrInvalidReference | ErrOperationCollision
  | ErrIncompleteSnapshot | ErrResourceLimit | ErrFolderNameCollision
  | ErrSourceReduction | ErrContentVerification | ErrCanceled | ErrDeadlineExceeded
  | ErrReauthorizationRequired | ErrSnapshotVerification | EOF | ErrUnexpectedEOF
  | ErrOther bytes
  | ErrJoin err err

type_synonym 'a result = "err + 'a"

text \<open>\<^verbatim>\<open>errors.Is\<close>: the folder name collision wraps the invalid reference.\<close>

fun errors_Is :: "err \<Rightarrow> err \<Rightarrow> bool" where
  "errors_Is (ErrJoin a b) s = (errors_Is a s \<or> errors_Is b s \<or> s = ErrJoin a b)"
| "errors_Is ErrFolderNameCollision s = (s = ErrFolderNameCollision \<or> s = ErrInvalidReference)"
| "errors_Is e s = (e = s)"

text \<open>
  A slice whose nilness the code observes (a nil check, a JSON \<^verbatim>\<open>null\<close>, or
  \<^verbatim>\<open>reflect.DeepEqual\<close>) is an optional list: \<open>None\<close> is nil. Ranging over it and
  \<^verbatim>\<open>len\<close> read it as a list.
\<close>

type_synonym 'a slice = "'a list option"

definition elems :: "'a slice \<Rightarrow> 'a list" where
  "elems s = (case s of None \<Rightarrow> [] | Some xs \<Rightarrow> xs)"

lemma elems_simps [simp]: "elems None = []" "elems (Some xs) = xs"
  by (simp_all add: elems_def)

text \<open>\<^verbatim>\<open>append([]T(nil), xs...)\<close>: a copy that is nil when there is nothing to copy.\<close>

definition copy_nil :: "'a list \<Rightarrow> 'a slice" where
  "copy_nil xs = (if xs = [] then None else Some xs)"

lemma elems_copy_nil [simp]: "elems (copy_nil xs) = xs"
  by (simp add: copy_nil_def)

text \<open>
  A Go map keyed by strings is an association list with distinct keys
  (\<open>distinct (map fst m)\<close>); \<^verbatim>\<open>len\<close> is \<open>length\<close>, a read is \<open>map_of\<close>, a write is
  \<open>AList.update\<close> and \<^verbatim>\<open>delete\<close> is \<open>AList.delete\<close>. Where the code ranges over a map, the
  order of the list stands for the unspecified order of the range.
\<close>

type_synonym 'v gomap = "(bytes \<times> 'v) list"

abbreviation keys :: "'v gomap \<Rightarrow> bytes list" where
  "keys m \<equiv> map fst m"

text \<open>Reading a map of lists: a missing or nil entry reads as empty.\<close>

definition inner :: "'v list gomap \<Rightarrow> bytes \<Rightarrow> 'v list" where
  "inner m k = (case map_of m k of None \<Rightarrow> [] | Some x \<Rightarrow> x)"

lemma map_of_update [simp]: "map_of (AList.update k v m) k' = (if k' = k then Some v else map_of m k')"
  by (simp add: update_conv')

lemma map_of_delete [simp]: "map_of (AList.delete k m) k' = (if k' = k then None else map_of m k')"
  by (simp add: delete_conv')

lemma inner_update [simp]: "inner (AList.update k v m) k' = (if k' = k then v else inner m k')"
  by (simp add: inner_def)

lemma inner_Nil [simp]: "inner [] k = []"
  by (simp add: inner_def)

lemma distinct_keys_delete [simp]: "distinct (keys m) \<Longrightarrow> distinct (keys (AList.delete k m))"
  by (rule distinct_delete)

lemma distinct_keys_update [simp]: "distinct (keys m) \<Longrightarrow> distinct (keys (AList.update k v m))"
  by (rule distinct_update)

text \<open>A sum over a map changes by the entry that is replaced or removed.\<close>

lemma sum_list_update:
  fixes f :: "bytes \<times> 'v \<Rightarrow> int"
  assumes "distinct (keys m)"
  shows "(\<Sum>x\<leftarrow>AList.update k v m. f x)
    = (\<Sum>x\<leftarrow>m. f x) - (case map_of m k of None \<Rightarrow> 0 | Some w \<Rightarrow> f (k, w)) + f (k, v)"
  using assms
proof (induction m)
  case (Cons p m)
  show ?case
  proof (cases "fst p = k")
    case True
    with Cons.prems have "map_of m k = None" by (auto simp: map_of_eq_None_iff)
    with True show ?thesis by (cases p) simp
  next
    case False
    with Cons show ?thesis by (cases p) auto
  qed
qed simp

lemma sum_list_delete:
  fixes f :: "bytes \<times> 'v \<Rightarrow> int"
  assumes "distinct (keys m)"
  shows "(\<Sum>x\<leftarrow>AList.delete k m. f x)
    = (\<Sum>x\<leftarrow>m. f x) - (case map_of m k of None \<Rightarrow> 0 | Some w \<Rightarrow> f (k, w))"
  using assms
proof (induction m)
  case (Cons p m)
  show ?case
  proof (cases "fst p = k")
    case True
    with Cons.prems have "map_of m k = None" by (auto simp: map_of_eq_None_iff)
    moreover from this have "AList.delete k m = m" by (auto simp: delete_id map_of_eq_None_iff)
    ultimately show ?thesis using True by (cases p) simp
  next
    case False
    with Cons show ?thesis by (cases p) auto
  qed
qed simp

section \<open>Sequencing of fallible operations on a state\<close>

text \<open>
  An operation takes a state and returns a result and a state; \<open>after\<close> runs the next one
  unless an error was returned, which is the \<^verbatim>\<open>if err != nil { return err }\<close> of the code.
\<close>

type_synonym ('s, 'a) op = "'s \<Rightarrow> 'a result \<times> 's"

definition raise :: "err \<Rightarrow> ('s, 'a) op" where
  "raise e s = (Inl e, s)"

definition give :: "'a \<Rightarrow> ('s, 'a) op" where
  "give x s = (Inr x, s)"

definition after :: "('s, 'a) op \<Rightarrow> ('a \<Rightarrow> ('s, 'b) op) \<Rightarrow> ('s, 'b) op" where
  "after m f s = (case m s of (Inl e, s') \<Rightarrow> (Inl e, s') | (Inr x, s') \<Rightarrow> f x s')"

text \<open>\<open>attempt\<close> hands the error of an operation to the code that follows instead of returning it.\<close>

definition attempt :: "('s, 'a) op \<Rightarrow> ('s, 'a result) op" where
  "attempt m = (\<lambda>s. case m s of (x, s') \<Rightarrow> (Inr x, s'))"

definition returning :: "'a result \<Rightarrow> ('s, 'a) op" where
  "returning x = (\<lambda>s. (x, s))"

lemma returning_after [simp]:
  "after (returning (Inr x)) g s = g x s" "after (returning (Inl e)) g s = (Inl e, s)"
  by (simp_all add: after_def returning_def)

lemma give_after [simp]: "after (give x) g s = g x s"
  by (simp add: after_def give_def)

lemma attempt_eq: "m s = (x, s') \<Longrightarrow> attempt m s = (Inr x, s')"
  by (simp add: attempt_def)

lemma after_simps [simp]:
  "m s = (Inl e, s') \<Longrightarrow> after m f s = (Inl e, s')"
  "m s = (Inr x, s') \<Longrightarrow> after m f s = f x s'"
  by (simp_all add: after_def)

lemma after_InrE:
  assumes "after m f s = (Inr y, s'')"
  obtains x s' where "m s = (Inr x, s')" "f x s' = (Inr y, s'')"
  using assms by (auto simp: after_def split: prod.splits sum.splits)

section \<open>Package strings\<close>

definition has_prefix :: "bytes \<Rightarrow> bytes \<Rightarrow> bool" where
  "has_prefix s p = (take (length p) s = p)"

definition trim_prefix :: "bytes \<Rightarrow> bytes \<Rightarrow> bytes" where
  "trim_prefix s p = (if has_prefix s p then drop (length p) s else s)"

text \<open>\<^verbatim>\<open>strings.ContainsAny\<close> with a set of ASCII characters looks at single bytes.\<close>

definition contains_any :: "bytes \<Rightarrow> bytes \<Rightarrow> bool" where
  "contains_any s cs = list_ex (\<lambda>c. c \<in> set cs) s"

fun split_on :: "char \<Rightarrow> bytes \<Rightarrow> bytes list" where
  "split_on c [] = [[]]"
| "split_on c (x # xs) =
     (if x = c then [] # split_on c xs
      else (case split_on c xs of [] \<Rightarrow> [[x]] | y # ys \<Rightarrow> (x # y) # ys))"

text \<open>\<^verbatim>\<open>strings.Cut\<close> at the first occurrence of a one-byte separator.\<close>

fun cut :: "char \<Rightarrow> bytes \<Rightarrow> bytes \<times> bytes \<times> bool" where
  "cut c [] = ([], [], False)"
| "cut c (x # xs) =
     (if x = c then ([], xs, True)
      else (case cut c xs of (b, a, found) \<Rightarrow> if found then (x # b, a, True) else (x # xs, [], False)))"

text \<open>\<^verbatim>\<open>strings.ToLower\<close> on ASCII; its callers only compare texts that are hexadecimal.\<close>

definition lower_char :: "char \<Rightarrow> char" where
  "lower_char c = (let n = (of_char c :: nat) in if 65 \<le> n \<and> n \<le> 90 then char_of (n + 32) else c)"

definition to_lower :: "bytes \<Rightarrow> bytes" where
  "to_lower s = map lower_char s"

lemma has_prefix_append [simp]: "has_prefix (p @ s) p"
  by (simp add: has_prefix_def)

lemma trim_prefix_append [simp]: "trim_prefix (p @ s) p = s"
  by (simp add: trim_prefix_def)

lemma has_prefixE:
  assumes "has_prefix s p"
  obtains r where "s = p @ r"
  using assms unfolding has_prefix_def by (metis append_take_drop_id)

lemma contains_any_iff: "contains_any s cs \<longleftrightarrow> (\<exists>c \<in> set s. c \<in> set cs)"
  by (auto simp: contains_any_def list_ex_iff)

lemma contains_any_append [simp]:
  "contains_any (s @ t) cs \<longleftrightarrow> contains_any s cs \<or> contains_any t cs"
  by (auto simp: contains_any_iff)

lemma split_on_nonempty [simp]: "split_on c s \<noteq> []"
  by (induction s) (auto split: list.splits)

lemma split_on_no_sep: "c \<notin> set s \<Longrightarrow> split_on c s = [s]"
  by (induction s) auto

lemma split_on_append_sep: "c \<notin> set a \<Longrightarrow> split_on c (a @ c # b) = a # split_on c b"
  by (induction a) auto

lemma split_on_parts: "a \<in> set (split_on c s) \<Longrightarrow> c \<notin> set a"
  by (induction s arbitrary: a) (auto split: list.splits if_splits)

text \<open>A field that ends at a separator it does not contain can be read back.\<close>

lemma terminated_inj:
  "c \<notin> set a \<Longrightarrow> c \<notin> set a' \<Longrightarrow> a @ c # b = a' @ c # b' \<longleftrightarrow> a = a' \<and> b = b'"
proof (induction a arbitrary: a')
  case Nil
  then show ?case by (cases a') auto
next
  case (Cons x a)
  then show ?case by (cases a') auto
qed

section \<open>Bytes, UTF-8\<close>

definition byte :: "char \<Rightarrow> nat" where
  "byte c = of_char c"

definition cont_byte :: "char \<Rightarrow> bool" where
  "cont_byte c = (128 \<le> byte c \<and> byte c \<le> 191)"

text \<open>
  The length of the well-formed rune a byte sequence starts with, 0 where it starts
  with none (the table of \<^verbatim>\<open>unicode/utf8\<close>: no overlong forms, no surrogates, nothing
  past U+10FFFF).
\<close>

definition rune_len :: "bytes \<Rightarrow> nat" where
  "rune_len s = (case s of [] \<Rightarrow> 0 | a # t \<Rightarrow>
     (let n = byte a in
      if n < 128 then 1
      else if n < 194 then 0
      else if n < 224 then (case t of b # _ \<Rightarrow> if cont_byte b then 2 else 0 | [] \<Rightarrow> 0)
      else if n < 240 then
        (case t of b # c # _ \<Rightarrow>
           if (if n = 224 then 160 else 128) \<le> byte b \<and> byte b \<le> (if n = 237 then 159 else 191)
              \<and> cont_byte c then 3 else 0
         | _ \<Rightarrow> 0)
      else if n < 245 then
        (case t of b # c # d # _ \<Rightarrow>
           if (if n = 240 then 144 else 128) \<le> byte b \<and> byte b \<le> (if n = 244 then 143 else 191)
              \<and> cont_byte c \<and> cont_byte d then 4 else 0
         | _ \<Rightarrow> 0)
      else 0))"

function utf8_valid :: "bytes \<Rightarrow> bool" where
  "utf8_valid s = (if s = [] then True else if rune_len s = 0 then False else utf8_valid (drop (rune_len s) s))"
  by pat_completeness auto
termination
  by (relation "measure length") auto

declare utf8_valid.simps [simp del]

text \<open>What \<^verbatim>\<open>json.Marshal\<close> makes of a string: every byte that starts no rune becomes U+FFFD.\<close>

function to_valid_utf8 :: "bytes \<Rightarrow> bytes" where
  "to_valid_utf8 s =
     (if s = [] then []
      else if rune_len s = 0 then [CHR 0xEF, CHR 0xBF, CHR 0xBD] @ to_valid_utf8 (tl s)
      else take (rune_len s) s @ to_valid_utf8 (drop (rune_len s) s))"
  by pat_completeness auto
termination
  by (relation "measure length") auto

declare to_valid_utf8.simps [simp del]

lemma utf8_valid_Nil [simp]: "utf8_valid []"
  by (simp add: utf8_valid.simps)

lemma to_valid_utf8_Nil [simp]: "to_valid_utf8 [] = []"
  by (simp add: to_valid_utf8.simps)

lemma to_valid_utf8_id [simp]: "utf8_valid s \<Longrightarrow> to_valid_utf8 s = s"
proof (induction s rule: utf8_valid.induct)
  case (1 s)
  then show ?case
    by (cases "s = []"; cases "rune_len s = 0")
      (auto simp: utf8_valid.simps[of s] to_valid_utf8.simps[of s])
qed

lemma rune_len_le: "rune_len s \<le> length s"
  by (auto simp: rune_len_def Let_def split: list.splits)

lemma rune_len_append:
  assumes "rune_len s \<noteq> 0"
  shows "rune_len (take (rune_len s) s @ t) = rune_len s"
proof -
  obtain a r where s: "s = a # r" using assms by (cases s) (auto simp: rune_len_def)
  consider (one) "byte a < 128"
    | (two) b r' where "194 \<le> byte a" "byte a < 224" "r = b # r'"
    | (three) b c r' where "224 \<le> byte a" "byte a < 240" "r = b # c # r'"
    | (four) b c d r' where "240 \<le> byte a" "byte a < 245" "r = b # c # d # r'"
    using assms unfolding s rune_len_def
    by (cases r rule: list.exhaust; cases "tl r"; cases "tl (tl r)") (auto simp: Let_def split: if_splits list.splits)
  then show ?thesis
  proof cases
    case one
    then show ?thesis by (simp add: s rune_len_def)
  next
    case two
    then show ?thesis using assms by (simp add: s rune_len_def Let_def split: if_splits)
  next
    case three
    then show ?thesis using assms by (simp add: s rune_len_def Let_def split: if_split_asm)
  next
    case four
    then show ?thesis using assms by (simp add: s rune_len_def Let_def split: if_split_asm)
  qed
qed

lemma utf8_valid_rune_append:
  assumes "rune_len s \<noteq> 0"
  shows "utf8_valid (take (rune_len s) s @ t) = utf8_valid t"
  using assms rune_len_append[OF assms, of t] rune_len_le[of s]
  by (subst utf8_valid.simps) auto

lemma utf8_valid_replacement: "utf8_valid ([CHR 0xEF, CHR 0xBF, CHR 0xBD] @ t) = utf8_valid t"
  by (subst utf8_valid.simps) (simp add: rune_len_def byte_def cont_byte_def Let_def)

lemma to_valid_utf8_valid [simp]: "utf8_valid (to_valid_utf8 s)"
proof (induction s rule: to_valid_utf8.induct)
  case (1 s)
  then show ?case
    using utf8_valid_rune_append[of s] utf8_valid_replacement
    by (subst to_valid_utf8.simps) simp
qed

lemma to_valid_utf8_eq_id: "to_valid_utf8 s = s \<longleftrightarrow> utf8_valid s"
  by (metis to_valid_utf8_id to_valid_utf8_valid)

lemma to_valid_utf8_eq_Nil [simp]: "to_valid_utf8 s = [] \<longleftrightarrow> s = []"
  using rune_len_le[of s] by (subst to_valid_utf8.simps) auto

lemma utf8_valid_Cons_ascii [simp]: "byte c < 128 \<Longrightarrow> utf8_valid (c # s) = utf8_valid s"
  by (simp add: utf8_valid.simps[of "c # s"] rune_len_def)

definition ascii :: "bytes \<Rightarrow> bool" where
  "ascii s = list_all (\<lambda>c. byte c < 128) s"

lemma ascii_append [simp]: "ascii (s @ t) \<longleftrightarrow> ascii s \<and> ascii t"
  by (simp add: ascii_def)

lemma utf8_valid_ascii_append: "ascii s \<Longrightarrow> utf8_valid (s @ t) = utf8_valid t"
  by (induction s) (auto simp: ascii_def)

lemma utf8_valid_ascii: "ascii s \<Longrightarrow> utf8_valid s"
  using utf8_valid_ascii_append[of s "[]"] by simp

section \<open>Package encoding/hex\<close>

definition hex_digit :: "nat \<Rightarrow> char" where
  "hex_digit n = (if n < 10 then char_of (48 + n) else char_of (87 + n))"

definition hex_byte :: "char \<Rightarrow> bytes" where
  "hex_byte c = [hex_digit (byte c div 16), hex_digit (byte c mod 16)]"

definition hex_encode :: "bytes \<Rightarrow> bytes" where
  "hex_encode s = concat (map hex_byte s)"

definition hex_val :: "char \<Rightarrow> nat option" where
  "hex_val c = (let n = byte c in
     if 48 \<le> n \<and> n \<le> 57 then Some (n - 48)
     else if 97 \<le> n \<and> n \<le> 102 then Some (n - 87)
     else if 65 \<le> n \<and> n \<le> 70 then Some (n - 55)
     else None)"

fun hex_decode :: "bytes \<Rightarrow> bytes option" where
  "hex_decode [] = Some []"
| "hex_decode [c] = None"
| "hex_decode (a # b # s) =
     (case (hex_val a, hex_val b, hex_decode s) of
        (Some x, Some y, Some r) \<Rightarrow> Some (char_of (16 * x + y) # r)
      | _ \<Rightarrow> None)"

text \<open>A text of lower-case hexadecimal digits.\<close>

definition lower_hex :: "bytes \<Rightarrow> bool" where
  "lower_hex s = list_all (\<lambda>c. (48 \<le> byte c \<and> byte c \<le> 57) \<or> (97 \<le> byte c \<and> byte c \<le> 102)) s"

lemma byte_less [simp]: "byte c < 256"
  by (simp add: byte_def)

lemma byte_char_of [simp]: "n < 256 \<Longrightarrow> byte (char_of n) = n"
  by (simp add: byte_def)

lemma char_of_byte [simp]: "char_of (byte c) = c"
  by (simp add: byte_def)

lemma byte_inj: "byte a = byte b \<longleftrightarrow> a = b"
  by (metis char_of_byte)

lemma byte_hex_digit: "n < 16 \<Longrightarrow> byte (hex_digit n) = (if n < 10 then 48 + n else 87 + n)"
  by (simp add: hex_digit_def)

lemma hex_val_digit [simp]: "n < 16 \<Longrightarrow> hex_val (hex_digit n) = Some n"
  by (auto simp: hex_val_def byte_hex_digit Let_def)

lemma hex_encode_simps [simp]:
  "hex_encode [] = []"
  "hex_encode (c # s) = hex_digit (byte c div 16) # hex_digit (byte c mod 16) # hex_encode s"
  by (simp_all add: hex_encode_def hex_byte_def)

lemma length_hex_encode [simp]: "length (hex_encode s) = 2 * length s"
  by (induction s) auto

lemma byte_div_less [simp]: "byte c div 16 < 16"
  using byte_less[of c] by linarith

lemma byte_div_le [simp]: "byte c div 16 \<le> 15"
  using byte_div_less[of c] by linarith

lemma hex_decode_encode [simp]: "hex_decode (hex_encode s) = Some s"
  by (induction s) auto

lemma hex_encode_inj: "hex_encode s = hex_encode t \<longleftrightarrow> s = t"
  by (metis hex_decode_encode option.inject)

lemma lower_hex_encode [go_ascii]: "lower_hex (hex_encode s)"
  by (induction s) (auto simp: lower_hex_def byte_hex_digit)

lemma lower_hex_ascii [go_ascii]: "lower_hex s \<Longrightarrow> ascii s"
  by (auto simp: lower_hex_def ascii_def list_all_iff)

lemma lower_hex_to_lower: "lower_hex s \<Longrightarrow> to_lower s = s"
  by (induction s) (auto simp: lower_hex_def to_lower_def lower_char_def Let_def byte_def[symmetric])

lemma hex_decode_length: "hex_decode s = Some r \<Longrightarrow> length s = 2 * length r"
  by (induction s arbitrary: r rule: hex_decode.induct) (auto split: option.splits)

lemma lower_char_fixed: "lower_char c = c \<longleftrightarrow> \<not> (65 \<le> byte c \<and> byte c \<le> 90)"
proof
  assume eq: "lower_char c = c"
  show "\<not> (65 \<le> byte c \<and> byte c \<le> 90)"
  proof
    assume up: "65 \<le> byte c \<and> byte c \<le> 90"
    then have "lower_char c = char_of (byte c + 32)"
      by (simp add: lower_char_def Let_def byte_def)
    with eq have "byte (char_of (byte c + 32)) = byte c" by simp
    with up show False by simp
  qed
qed (auto simp: lower_char_def Let_def byte_def)

lemma hex_digit_of_val:
  assumes "hex_val c = Some x" and "lower_char c = c"
  shows "hex_digit x = c"
proof -
  have "byte c = (if x < 10 then 48 + x else 87 + x) \<and> x < 16"
    using assms by (auto simp: hex_val_def lower_char_fixed Let_def split: if_splits)
  then have "byte (hex_digit x) = byte c" by (simp add: byte_hex_digit)
  then show ?thesis by (simp add: byte_inj)
qed

lemma hex_val_less: "hex_val c = Some x \<Longrightarrow> x < 16"
  by (auto simp: hex_val_def Let_def split: if_splits)

text \<open>A decodable text in lower case is the encoding of what it decodes to.\<close>

lemma hex_decode_lower_hex:
  "hex_decode s = Some r \<Longrightarrow> to_lower s = s \<Longrightarrow> s = hex_encode r"
proof (induction s arbitrary: r rule: hex_decode.induct)
  case (3 a b s)
  from 3(2) obtain x y t where
    xy: "hex_val a = Some x" "hex_val b = Some y" and t: "hex_decode s = Some t"
    and r: "r = char_of (16 * x + y) # t"
    by (auto split: option.splits)
  from xy have small: "x < 16" "y < 16" by (auto dest: hex_val_less)
  from 3(3) have low: "lower_char a = a" "lower_char b = b" "to_lower s = s"
    by (simp_all add: to_lower_def)
  have "byte (char_of (16 * x + y)) = 16 * x + y" using small by simp
  with small have "hex_encode r = hex_digit x # hex_digit y # hex_encode t"
    by (simp add: r)
  with 3(1)[OF t low(3)] xy low show ?case by (simp add: hex_digit_of_val)
qed auto

end
