(* ===== verification/Go_SHA256.thy ===== *)
theory Go_SHA256
  imports Go_Prelude
begin

text \<open>
  The standard library's \<^verbatim>\<open>crypto/sha256\<close> (FIPS 180-4), computed on integers below
  \<open>2 ^ 32\<close> with the wrap-around written out. The code uses \<^verbatim>\<open>sha256.Sum256\<close> and the
  streaming hash only through the digest of the bytes written, so one function of
  the whole input models both. The test vector at the end fixes the definition
  against the standard.
\<close>

unbundle bit_operations_syntax

section \<open>The compression function\<close>

definition rotr32 :: "nat \<Rightarrow> int \<Rightarrow> int" where
  "rotr32 n x = x div 2 ^ n + (x mod 2 ^ n) * 2 ^ (32 - n)"

definition sha_Sigma0 :: "int \<Rightarrow> int" where
  "sha_Sigma0 x = rotr32 2 x XOR rotr32 13 x XOR rotr32 22 x"

definition sha_Sigma1 :: "int \<Rightarrow> int" where
  "sha_Sigma1 x = rotr32 6 x XOR rotr32 11 x XOR rotr32 25 x"

definition sha_sigma0 :: "int \<Rightarrow> int" where
  "sha_sigma0 x = rotr32 7 x XOR rotr32 18 x XOR (x div 8)"

definition sha_sigma1 :: "int \<Rightarrow> int" where
  "sha_sigma1 x = rotr32 17 x XOR rotr32 19 x XOR (x div 1024)"

definition sha_Ch :: "int \<Rightarrow> int \<Rightarrow> int \<Rightarrow> int" where
  "sha_Ch x y z = (x AND y) XOR (NOT x AND z)"

definition sha_Maj :: "int \<Rightarrow> int \<Rightarrow> int \<Rightarrow> int" where
  "sha_Maj x y z = (x AND y) XOR (x AND z) XOR (y AND z)"

text \<open>
  The constants of the standard are the first 32 fractional bits of the cube roots of the
  first 64 primes and of the square roots of the first eight. They are computed rather
  than listed: \<open>root_bits k p n\<close> is the \<open>k\<close>-th root of \<open>p\<close> with \<open>n\<close> fractional bits, beside \<open>p\<close> scaled to
  the same power, and each further bit is set if the power of the root still fits. All primes are below \<open>18 ^ 2\<close>.
\<close>

fun root_bits :: "nat \<Rightarrow> int \<Rightarrow> nat \<Rightarrow> int \<times> int" where
  "root_bits k p 0 = (int (length (filter (\<lambda>r. int r ^ k \<le> p) [1..<18])), p)"
| "root_bits k p (Suc n) =
     (case root_bits k p n of (r, x) \<Rightarrow>
        let r' = 2 * r + 1; x' = 2 ^ k * x in (if r' ^ k \<le> x' then r' else 2 * r, x'))"

definition frac_root :: "nat \<Rightarrow> int \<Rightarrow> int" where
  "frac_root k p = fst (root_bits k p 32) mod 4294967296"

definition is_prime :: "nat \<Rightarrow> bool" where
  "is_prime n = list_all (\<lambda>d. n mod d \<noteq> 0) (takeWhile (\<lambda>d. d * d \<le> n) [2, 3, 5, 7, 11, 13, 17])"

definition sha_K :: "int list" where
  "sha_K = map (\<lambda>n. frac_root 3 (int n)) (filter is_prime [2..<312])"

text \<open>The eight chaining values, as a tuple so that every state has exactly eight.\<close>

type_synonym sha_state = "int \<times> int \<times> int \<times> int \<times> int \<times> int \<times> int \<times> int"

definition sha_H0 :: sha_state where
  "sha_H0 = (frac_root 2 2, frac_root 2 3, frac_root 2 5, frac_root 2 7,
     frac_root 2 11, frac_root 2 13, frac_root 2 17, frac_root 2 19)"

definition sha_round :: "sha_state \<Rightarrow> int \<times> int \<Rightarrow> sha_state" where
  "sha_round s kw = (case s of (a, b, c, d, e, f, g, h) \<Rightarrow>
     (let t1 = h + sha_Sigma1 e + sha_Ch e f g + fst kw + snd kw;
          t2 = sha_Sigma0 a + sha_Maj a b c
      in ((t1 + t2) mod 4294967296, a, b, c, (d + t1) mod 4294967296, e, f, g)))"

text \<open>
  The message schedule keeps the last sixteen words and emits one word per round:
  \<open>sha_schedule n w\<close> is the next \<open>n\<close> words after the window \<open>w\<close> has been shifted out.
\<close>

fun sha_schedule :: "nat \<Rightarrow> int list \<Rightarrow> int list" where
  "sha_schedule 0 w = []"
| "sha_schedule (Suc n) w =
     (let x = (sha_sigma1 (w ! 14) + w ! 9 + sha_sigma0 (w ! 1) + w ! 0) mod 4294967296
      in w ! 0 # sha_schedule n (tl w @ [x]))"

definition sha_compress :: "sha_state \<Rightarrow> int list \<Rightarrow> sha_state" where
  "sha_compress s w =
     (case (s, foldl sha_round s (zip sha_K (sha_schedule 64 w))) of
        ((a, b, c, d, e, f, g, h), (a', b', c', d', e', f', g', h')) \<Rightarrow>
          ((a + a') mod 4294967296, (b + b') mod 4294967296, (c + c') mod 4294967296,
           (d + d') mod 4294967296, (e + e') mod 4294967296, (f + f') mod 4294967296,
           (g + g') mod 4294967296, (h + h') mod 4294967296))"

section \<open>Padding and parsing\<close>

fun big_endian :: "nat \<Rightarrow> int \<Rightarrow> bytes" where
  "big_endian 0 x = []"
| "big_endian (Suc n) x = big_endian n (x div 256) @ [char_of (nat (x mod 256))]"

definition sha_pad :: "bytes \<Rightarrow> bytes" where
  "sha_pad s = s @ CHR 0x80 # replicate ((119 - length s mod 64) mod 64) (CHR 0x00)
     @ big_endian 8 (8 * int (length s))"

fun sha_words :: "bytes \<Rightarrow> int list" where
  "sha_words (a # b # c # d # s) =
     (int (byte a) * 16777216 + int (byte b) * 65536 + int (byte c) * 256 + int (byte d)) # sha_words s"
| "sha_words _ = []"

function sha_blocks :: "sha_state \<Rightarrow> int list \<Rightarrow> sha_state" where
  "sha_blocks s w = (if w = [] then s else sha_blocks (sha_compress s (take 16 w)) (drop 16 w))"
  by pat_completeness auto
termination
  by (relation "measure (\<lambda>(s, w). length w)") auto

declare sha_blocks.simps [simp del]

definition sha_bytes :: "sha_state \<Rightarrow> bytes" where
  "sha_bytes s = (case s of (a, b, c, d, e, f, g, h) \<Rightarrow>
     concat (map (big_endian 4) [a, b, c, d, e, f, g, h]))"

definition sha256 :: "bytes \<Rightarrow> bytes" where
  "sha256 s = sha_bytes (sha_blocks sha_H0 (sha_words (sha_pad s)))"

section \<open>What the development uses of it\<close>

lemma length_big_endian [simp]: "length (big_endian n x) = n"
  by (induction n arbitrary: x) auto

text \<open>A digest is always 32 bytes, so its hexadecimal form is 64 lower-case digits.\<close>

lemma length_sha256 [simp]: "length (sha256 s) = 32"
  by (simp add: sha256_def sha_bytes_def split: prod.splits)

text \<open>There are as many constants as rounds, and every bit of a root is right.\<close>

lemma length_sha_K: "length sha_K = 64"
proof -
  have "length (filter is_prime [2..<312]) = 64" by code_simp
  then show ?thesis by (simp add: sha_K_def)
qed

lemma root_bits_step:
  assumes "root_bits k p n = (r, x)" and "r ^ k \<le> x \<and> x < (r + 1) ^ k" and "root_bits k p (Suc n) = (r', x')"
  shows "r' ^ k \<le> x' \<and> x' < (r' + 1) ^ k"
proof -
  have "2 * r + 2 = 2 * (r + 1)" by simp
  then have "(2 * r) ^ k = 2 ^ k * r ^ k" "(2 * r + 2) ^ k = 2 ^ k * (r + 1) ^ k"
    by (simp_all only: power_mult_distrib)
  with assms(2) have "(2 * r) ^ k \<le> 2 ^ k * x" "2 ^ k * x < (2 * r + 2) ^ k" by simp_all
  then show ?thesis using assms(1,3) by (auto simp: Let_def algebra_simps split: if_splits)
qed

text \<open>The first test vector of the standard.\<close>

lemma sha256_abc:
  "hex_encode (sha256 ''abc'') = ''ba7816bf8f01cfea414140de5dae2223b00361a396177a9cb410ff61f20015ad''"
  by code_simp

end
