(* ===== verification/Go_JSON.thy ===== *)
theory Go_JSON
  imports Go_Prelude
begin

text \<open>
  What the code uses of \<^verbatim>\<open>encoding/json\<close>. A JSON document is a tree; \<open>json_text\<close> is the
  text \<^verbatim>\<open>json.Marshal\<close> writes for it and the decoders below are what
  \<^verbatim>\<open>json.Unmarshal\<close> does with the tree of a document: fields are matched by name, then
  case-insensitively; a \<^verbatim>\<open>null\<close> leaves a field as it is (nil for a slice or pointer);
  a value of the wrong type is an error; an unknown field is skipped, or an error
  after \<^verbatim>\<open>DisallowUnknownFields\<close>. Documents are kept as trees everywhere, so the text
  grammar (white space, escapes, duplicate spellings of a number) is not modelled;
  all numbers of the mailbox schemas are integers.
\<close>

datatype json =
    JNull
  | JBool bool
  | JNum int
  | JStr bytes
  | JArr "json list"
  | JObj "(bytes \<times> json) list"

section \<open>Text\<close>

fun nat_dec :: "nat \<Rightarrow> bytes" where
  "nat_dec n = (if n < 10 then [char_of (48 + n)] else nat_dec (n div 10) @ [char_of (48 + n mod 10)])"

declare nat_dec.simps [simp del]

definition int_dec :: "int \<Rightarrow> bytes" where
  "int_dec i = (if i < 0 then ''-'' @ nat_dec (nat (- i)) else nat_dec (nat i))"

definition json_escape_byte :: "char \<Rightarrow> bytes" where
  "json_escape_byte c = (let n = byte c in
     if n = 92 \<or> n = 34 then [CHR 0x5C, c]
     else if n = 8 then [CHR 0x5C, CHR ''b'']
     else if n = 12 then [CHR 0x5C, CHR ''f'']
     else if n = 10 then [CHR 0x5C, CHR ''n'']
     else if n = 13 then [CHR 0x5C, CHR ''r'']
     else if n = 9 then [CHR 0x5C, CHR ''t'']
     else if n < 32 \<or> n = 60 \<or> n = 62 \<or> n = 38 then CHR 0x5C # ''u00'' @ hex_byte c
     else [c])"

function json_escape :: "bytes \<Rightarrow> bytes" where
  "json_escape s =
     (if s = [] then []
      else if rune_len s = 0 then CHR 0x5C # ''ufffd'' @ json_escape (tl s)
      else if rune_len s = 1 then json_escape_byte (hd s) @ json_escape (tl s)
      else if has_prefix s [CHR 0xE2, CHR 0x80, CHR 0xA8] then CHR 0x5C # ''u2028'' @ json_escape (drop 3 s)
      else if has_prefix s [CHR 0xE2, CHR 0x80, CHR 0xA9] then CHR 0x5C # ''u2029'' @ json_escape (drop 3 s)
      else take (rune_len s) s @ json_escape (drop (rune_len s) s))"
  by pat_completeness auto
termination
  by (relation "measure length") auto

declare json_escape.simps [simp del]

definition json_quote :: "bytes \<Rightarrow> bytes" where
  "json_quote s = CHR 0x22 # json_escape s @ [CHR 0x22]"

fun intercalate :: "bytes \<Rightarrow> bytes list \<Rightarrow> bytes" where
  "intercalate sep [] = []"
| "intercalate sep [x] = x"
| "intercalate sep (x # y # ys) = x @ sep @ intercalate sep (y # ys)"

fun json_text :: "json \<Rightarrow> bytes" where
  "json_text JNull = ''null''"
| "json_text (JBool b) = (if b then ''true'' else ''false'')"
| "json_text (JNum i) = int_dec i"
| "json_text (JStr s) = json_quote s"
| "json_text (JArr xs) = ''['' @ intercalate '','' (map json_text xs) @ '']''"
| "json_text (JObj fs) =
     CHR 0x7B # intercalate '','' (map (\<lambda>f. json_quote (fst f) @ '':'' @ json_text (snd f)) fs) @ [CHR 0x7D]"

section \<open>Marshalling of fields\<close>

text \<open>A string leaves the process as valid UTF-8.\<close>

definition jstr :: "bytes \<Rightarrow> json" where
  "jstr s = JStr (to_valid_utf8 s)"

definition jstrs :: "bytes slice \<Rightarrow> json" where
  "jstrs xs = (case xs of None \<Rightarrow> JNull | Some l \<Rightarrow> JArr (map jstr l))"

text \<open>One field of a struct: \<open>omitempty\<close> drops it when its value is empty.\<close>

definition jfield :: "bytes \<Rightarrow> json \<Rightarrow> (bytes \<times> json) list" where
  "jfield k v = [(k, v)]"

definition jomit :: "bool \<Rightarrow> bytes \<Rightarrow> json \<Rightarrow> (bytes \<times> json) list" where
  "jomit is_zero k v = (if is_zero then [] else [(k, v)])"

section \<open>Unmarshalling of fields\<close>

text \<open>
  The folded form of a key: ASCII letters in upper case, and the two code points
  outside ASCII that fold to an ASCII letter, U+212A (Kelvin sign) and U+017F (long s).
\<close>

definition upper_char :: "char \<Rightarrow> char" where
  "upper_char c = (if 97 \<le> byte c \<and> byte c \<le> 122 then char_of (byte c - 32) else c)"

function fold_name :: "bytes \<Rightarrow> bytes" where
  "fold_name s =
     (if s = [] then []
      else if has_prefix s [CHR 0xE2, CHR 0x84, CHR 0xAA] then CHR ''K'' # fold_name (drop 3 s)
      else if has_prefix s [CHR 0xC5, CHR 0xBF] then CHR ''S'' # fold_name (drop 2 s)
      else upper_char (hd s) # fold_name (tl s))"
  by pat_completeness auto
termination
  by (relation "measure length") auto

declare fold_name.simps [simp del]

definition match_field :: "bytes list \<Rightarrow> bytes \<Rightarrow> bytes option" where
  "match_field names k =
     (if k \<in> set names then Some k else find (\<lambda>n. fold_name n = fold_name k) names)"

text \<open>
  The members of an object are stored one after the other; \<open>put f v r\<close> stores the value
  \<open>v\<close> of the field \<open>f\<close> in the struct \<open>r\<close>, \<open>None\<close> where the value has the wrong type.
\<close>

fun decode_members ::
  "bool \<Rightarrow> bytes list \<Rightarrow> (bytes \<Rightarrow> json \<Rightarrow> 'r \<Rightarrow> 'r option) \<Rightarrow> (bytes \<times> json) list \<Rightarrow> 'r \<Rightarrow> 'r option" where
  "decode_members strict names put [] r = Some r"
| "decode_members strict names put ((k, v) # ms) r =
     (case match_field names k of
        None \<Rightarrow> if strict then None else decode_members strict names put ms r
      | Some f \<Rightarrow> (case put f v r of None \<Rightarrow> None | Some r' \<Rightarrow> decode_members strict names put ms r'))"

definition decode_struct ::
  "bool \<Rightarrow> bytes list \<Rightarrow> (bytes \<Rightarrow> json \<Rightarrow> 'r \<Rightarrow> 'r option) \<Rightarrow> json \<Rightarrow> 'r \<Rightarrow> 'r option" where
  "decode_struct strict names put j r =
     (case j of JNull \<Rightarrow> Some r | JObj ms \<Rightarrow> decode_members strict names put ms r | _ \<Rightarrow> None)"

text \<open>Reading a string, too, replaces every byte that starts no rune.\<close>

definition decode_string :: "json \<Rightarrow> bytes \<Rightarrow> bytes option" where
  "decode_string j old = (case j of JStr s \<Rightarrow> Some (to_valid_utf8 s) | JNull \<Rightarrow> Some old | _ \<Rightarrow> None)"

definition decode_bool :: "json \<Rightarrow> bool \<Rightarrow> bool option" where
  "decode_bool j old = (case j of JBool b \<Rightarrow> Some b | JNull \<Rightarrow> Some old | _ \<Rightarrow> None)"

definition decode_bool_ptr :: "json \<Rightarrow> bool option option" where
  "decode_bool_ptr j = (case j of JBool b \<Rightarrow> Some (Some b) | JNull \<Rightarrow> Some None | _ \<Rightarrow> None)"

definition decode_u64 :: "json \<Rightarrow> u64 \<Rightarrow> u64 option" where
  "decode_u64 j old = (case j of
     JNum i \<Rightarrow> if 0 \<le> i \<and> i < 2 ^ 64 then Some (word_of_int i) else None
   | JNull \<Rightarrow> Some old | _ \<Rightarrow> None)"

definition decode_u32 :: "json \<Rightarrow> u32 \<Rightarrow> u32 option" where
  "decode_u32 j old = (case j of
     JNum i \<Rightarrow> if 0 \<le> i \<and> i < 2 ^ 32 then Some (word_of_int i) else None
   | JNull \<Rightarrow> Some old | _ \<Rightarrow> None)"

definition decode_i64 :: "json \<Rightarrow> int \<Rightarrow> int option" where
  "decode_i64 j old = (case j of
     JNum i \<Rightarrow> if - (2 ^ 63) \<le> i \<and> i < 2 ^ 63 then Some i else None
   | JNull \<Rightarrow> Some old | _ \<Rightarrow> None)"

fun decode_list :: "(json \<Rightarrow> 'a option) \<Rightarrow> json list \<Rightarrow> 'a list option" where
  "decode_list f [] = Some []"
| "decode_list f (x # xs) =
     (case f x of None \<Rightarrow> None | Some y \<Rightarrow> (case decode_list f xs of None \<Rightarrow> None | Some ys \<Rightarrow> Some (y # ys)))"

definition decode_slice :: "(json \<Rightarrow> 'a option) \<Rightarrow> json \<Rightarrow> 'a slice option" where
  "decode_slice f j = (case j of
     JArr xs \<Rightarrow> (case decode_list f xs of None \<Rightarrow> None | Some ys \<Rightarrow> Some (Some ys))
   | JNull \<Rightarrow> Some None | _ \<Rightarrow> None)"

definition decode_strings :: "json \<Rightarrow> bytes slice option" where
  "decode_strings j = decode_slice (\<lambda>x. decode_string x []) j"

lemmas json_decoders =
  decode_struct_def decode_string_def decode_bool_def decode_bool_ptr_def decode_u64_def decode_u32_def
  decode_i64_def decode_slice_def decode_strings_def

section \<open>What is written is read back\<close>

lemma decode_struct_JObj [simp]:
  "decode_struct strict names put (JObj ms) r = decode_members strict names put ms r"
  by (simp add: decode_struct_def)

lemma match_field_exact [simp]: "k \<in> set names \<Longrightarrow> match_field names k = Some k"
  by (simp add: match_field_def)

lemma decode_string_jstr [simp]: "decode_string (jstr s) old = Some (to_valid_utf8 s)"
  by (simp add: decode_string_def jstr_def)

lemma decode_string_utf8: "decode_string j old = Some s \<Longrightarrow> utf8_valid old \<Longrightarrow> utf8_valid s"
  by (auto simp: decode_string_def split: json.splits)

lemma decode_list_jstr:
  "decode_list (\<lambda>x. decode_string x []) (map jstr xs) = Some (map to_valid_utf8 xs)"
  by (induction xs) auto

lemma decode_list_utf8:
  "decode_list (\<lambda>x. decode_string x []) js = Some xs \<Longrightarrow> list_all utf8_valid xs"
  by (induction js arbitrary: xs) (auto split: option.splits dest: decode_string_utf8)

lemma decode_strings_jstrs [simp]:
  "decode_strings (jstrs xs) = Some (map_option (map to_valid_utf8) xs)"
  by (cases xs) (simp_all add: decode_strings_def decode_slice_def jstrs_def decode_list_jstr)

lemma decode_strings_utf8: "decode_strings j = Some xs \<Longrightarrow> list_all utf8_valid (elems xs)"
  by (auto simp: decode_strings_def decode_slice_def split: json.splits option.splits)
    (metis decode_list_utf8 elems_simps(2))

lemma map_to_valid_id [simp]: "list_all utf8_valid xs \<Longrightarrow> map to_valid_utf8 xs = xs"
  by (induction xs) auto

lemma map_option_to_valid_id [simp]:
  "list_all utf8_valid (elems xs) \<Longrightarrow> map_option (map to_valid_utf8) xs = xs"
  by (cases xs) simp_all

lemma decode_bool_JBool [simp]: "decode_bool (JBool b) old = Some b"
  by (simp add: decode_bool_def)

lemma decode_u64_JNum [simp]: "decode_u64 (JNum (uint w)) old = Some w"
  using uint_bounded[of w] by (simp add: decode_u64_def)

lemma decode_u32_JNum [simp]: "decode_u32 (JNum (uint w)) old = Some w"
  using uint_bounded[of w] by (simp add: decode_u32_def)

lemma decode_i64_JNum [simp]: "- (2 ^ 63) \<le> i \<Longrightarrow> i < 2 ^ 63 \<Longrightarrow> decode_i64 (JNum i) old = Some i"
  by (simp add: decode_i64_def)

lemma decode_members_append:
  "decode_members strict names put (xs @ ys) r =
     (case decode_members strict names put xs r of
        None \<Rightarrow> None | Some r' \<Rightarrow> decode_members strict names put ys r')"
  by (induction xs arbitrary: r) (auto split: option.splits)

text \<open>What every stored field keeps of a struct, decoding keeps.\<close>

lemma decode_members_inv:
  assumes "\<And>f v r r'. P r \<Longrightarrow> put f v r = Some r' \<Longrightarrow> P r'"
  shows "P r \<Longrightarrow> decode_members strict names put ms r = Some r' \<Longrightarrow> P r'"
proof (induction ms arbitrary: r)
  case (Cons m ms)
  then show ?case by (cases m) (auto split: option.splits if_splits intro: assms)
qed simp

lemma decode_struct_inv:
  assumes "\<And>f v r r'. P r \<Longrightarrow> put f v r = Some r' \<Longrightarrow> P r'" and "P r"
    and "decode_struct strict names put j r = Some r'"
  shows "P r'"
  using assms decode_members_inv[of P put r strict names _ r']
  by (auto simp: decode_struct_def split: json.splits)

text \<open>A field that is written, or omitted when the zero value is already there, is stored.\<close>

lemma decode_members_jfield:
  "f \<in> set names \<Longrightarrow> put f v r = Some r' \<Longrightarrow>
     decode_members strict names put (jfield f v) r = Some r'"
  by (simp add: jfield_def)

lemma decode_members_jomit:
  "f \<in> set names \<Longrightarrow> (z \<Longrightarrow> r' = r) \<Longrightarrow> (\<not> z \<Longrightarrow> put f v r = Some r') \<Longrightarrow>
     decode_members strict names put (jomit z f v) r = Some r'"
  by (simp add: jomit_def)

end
