(* ===== verification/Go_Time.thy ===== *)
theory Go_Time
  imports Go_JSON
begin

text \<open>
  What the code uses of package \<^verbatim>\<open>time\<close>: an instant, whether it is the zero time, its
  text in the layout \<^verbatim>\<open>time.RFC3339Nano\<close> in UTC, and whether \<^verbatim>\<open>time.Parse\<close> accepts a text
  in that layout (the parsed instant itself is never used).
\<close>

record gtime =
  t_sec :: int
  t_nsec :: nat

text \<open>The zero time is 1 January of year 1; \<open>t_sec\<close> counts from 1970.\<close>

definition zero_time :: gtime where
  "zero_time = \<lparr>t_sec = -62135596800, t_nsec = 0\<rparr>"

definition time_IsZero :: "gtime \<Rightarrow> bool" where
  "time_IsZero t = (t_sec t = -62135596800 \<and> t_nsec t = 0)"

definition unix_epoch :: gtime where
  "unix_epoch = \<lparr>t_sec = 0, t_nsec = 0\<rparr>"

section \<open>Format\<close>

text \<open>Year, month and day of a day number counted from 1 January 1970.\<close>

definition civil_of_days :: "int \<Rightarrow> int \<times> int \<times> int" where
  "civil_of_days days =
     (let z = days + 719468; era = z div 146097; doe = z mod 146097;
          yoe = (doe - doe div 1460 + doe div 36524 - doe div 146096) div 365;
          doy = doe - (365 * yoe + yoe div 4 - yoe div 100);
          mp = (5 * doy + 2) div 153;
          d = doy - (153 * mp + 2) div 5 + 1;
          m = (if mp < 10 then mp + 3 else mp - 9)
      in (yoe + era * 400 + (if m \<le> 2 then 1 else 0), m, d))"

text \<open>Decimal digits, padded with zeros on the left to a width.\<close>

definition pad_dec :: "nat \<Rightarrow> int \<Rightarrow> bytes" where
  "pad_dec w i =
     (let s = nat_dec (nat \<bar>i\<bar>)
      in (if i < 0 then ''-'' else []) @ replicate (w - length s) CHR ''0'' @ s)"

text \<open>The fraction of a second: nine digits without trailing zeros, dropped when zero.\<close>

definition frac_dec :: "nat \<Rightarrow> bytes" where
  "frac_dec n =
     (if n = 0 then []
      else ''.'' @ rev (dropWhile (\<lambda>c. c = CHR ''0'') (rev (pad_dec 9 (int n)))))"

definition format_RFC3339Nano :: "gtime \<Rightarrow> bytes" where
  "format_RFC3339Nano t =
     (let days = t_sec t div 86400; s = t_sec t mod 86400 in
      case civil_of_days days of (y, m, d) \<Rightarrow>
        pad_dec 4 y @ ''-'' @ pad_dec 2 m @ ''-'' @ pad_dec 2 d @ ''T''
        @ pad_dec 2 (s div 3600) @ '':'' @ pad_dec 2 (s div 60 mod 60) @ '':'' @ pad_dec 2 (s mod 60)
        @ frac_dec (t_nsec t) @ ''Z'')"

section \<open>Parse\<close>

definition is_digit :: "char \<Rightarrow> bool" where
  "is_digit c = (48 \<le> byte c \<and> byte c \<le> 57)"

definition digit_val :: "char \<Rightarrow> nat" where
  "digit_val c = byte c - 48"

text \<open>\<^verbatim>\<open>getnum\<close> reads two digits, or one where the layout does not fix the width.\<close>

definition getnum :: "bool \<Rightarrow> bytes \<Rightarrow> (nat \<times> bytes) option" where
  "getnum fixed s = (case s of
     a # b # r \<Rightarrow>
       if \<not> is_digit a then None
       else if is_digit b then Some (10 * digit_val a + digit_val b, r)
       else if fixed then None else Some (digit_val a, b # r)
   | [a] \<Rightarrow> if is_digit a \<and> \<not> fixed then Some (digit_val a, []) else None
   | [] \<Rightarrow> None)"

definition get_year :: "bytes \<Rightarrow> (nat \<times> bytes) option" where
  "get_year s =
     (if length s < 4 \<or> \<not> list_all is_digit (take 4 s) then None
      else Some (foldl (\<lambda>n c. 10 * n + digit_val c) 0 (take 4 s), drop 4 s))"

definition skip_char :: "char \<Rightarrow> bytes \<Rightarrow> bytes option" where
  "skip_char c s = (case s of x # r \<Rightarrow> if x = c then Some r else None | [] \<Rightarrow> None)"

definition skip_fraction :: "bytes \<Rightarrow> bytes" where
  "skip_fraction s = (case s of
     a # b # r \<Rightarrow> if (a = CHR ''.'' \<or> a = CHR '','') \<and> is_digit b then dropWhile is_digit (b # r) else s
   | _ \<Rightarrow> s)"

text \<open>The zone is \<open>Z\<close> or a signed offset of at most 24 hours and 60 minutes.\<close>

definition zone_ok :: "bytes \<Rightarrow> bool" where
  "zone_ok s = (case s of
     [z] \<Rightarrow> z = CHR ''Z''
   | [sg, h1, h2, col, m1, m2] \<Rightarrow>
       (sg = CHR ''+'' \<or> sg = CHR ''-'') \<and> col = CHR '':''
       \<and> list_all is_digit [h1, h2, m1, m2]
       \<and> 10 * digit_val h1 + digit_val h2 \<le> 24 \<and> 10 * digit_val m1 + digit_val m2 \<le> 60
   | _ \<Rightarrow> False)"

definition leap_year :: "nat \<Rightarrow> bool" where
  "leap_year y = (y mod 4 = 0 \<and> (y mod 100 \<noteq> 0 \<or> y mod 400 = 0))"

definition days_in :: "nat \<Rightarrow> nat \<Rightarrow> nat" where
  "days_in m y =
     (if m = 2 then (if leap_year y then 29 else 28) else if m \<in> set [4, 6, 9, 11] then 30 else 31)"

definition obind :: "'a option \<Rightarrow> ('a \<Rightarrow> bool) \<Rightarrow> bool" where
  "obind x f = (case x of None \<Rightarrow> False | Some y \<Rightarrow> f y)"

definition parse_RFC3339Nano :: "bytes \<Rightarrow> bool" where
  "parse_RFC3339Nano s =
     obind (get_year s) (\<lambda>(y, s). obind (skip_char CHR ''-'' s) (\<lambda>s.
     obind (getnum True s) (\<lambda>(mo, s). 1 \<le> mo \<and> mo \<le> 12 \<and> obind (skip_char CHR ''-'' s) (\<lambda>s.
     obind (getnum True s) (\<lambda>(d, s). 1 \<le> d \<and> d \<le> days_in mo y \<and> obind (skip_char CHR ''T'' s) (\<lambda>s.
     obind (getnum False s) (\<lambda>(h, s). h < 24 \<and> obind (skip_char CHR '':'' s) (\<lambda>s.
     obind (getnum True s) (\<lambda>(mi, s). mi < 60 \<and> obind (skip_char CHR '':'' s) (\<lambda>s.
     obind (getnum True s) (\<lambda>(sec, s). sec < 60 \<and> zone_ok (skip_fraction s))))))))))))"

lemma format_epoch: "format_RFC3339Nano unix_epoch = ''1970-01-01T00:00:00Z''"
  by code_simp

lemma parse_examples:
  "parse_RFC3339Nano ''2026-07-01T12:30:45.123456789Z''"
  "parse_RFC3339Nano ''2024-02-29T3:04:05+02:00''"
  "\<not> parse_RFC3339Nano ''2023-02-29T03:04:05Z''"
  "\<not> parse_RFC3339Nano ''2026-07-01 12:30:45Z''"
  by code_simp+

end
