(* ===== verification/Mailbox.thy ===== *)
theory Mailbox
  imports Go_SHA256 Go_Time
begin

text \<open>
  Package \<^verbatim>\<open>mailbox\<close> (\<^verbatim>\<open>internal/mailbox/model.go\<close>): the records of a mailbox, the
  fingerprints that name a message, the constructor that turns an imported message
  into its immutable record and its first state, and the check a stored message has
  to pass before its bytes are used. The JSON form of the records, which the structs
  carry as tags, is at the end.
\<close>

section \<open>Constants and records\<close>

definition MailboxSpaceType :: bytes where "MailboxSpaceType = ''email.atmos.mailbox''"
definition MessageCollection :: bytes where "MessageCollection = ''email.atmos.message''"
definition MessageStateCollection :: bytes where "MessageStateCollection = ''email.atmos.messageState''"
definition MessageStateRevisionCollection :: bytes where
  "MessageStateRevisionCollection = ''email.atmos.messageStateRevision''"
definition MessageStateOperationCollection :: bytes where
  "MessageStateOperationCollection = ''email.atmos.messageStateOperation''"
definition FolderRevisionCollection :: bytes where
  "FolderRevisionCollection = ''email.atmos.folderRevision''"
definition FolderOperationCollection :: bytes where
  "FolderOperationCollection = ''email.atmos.folderOperation''"
definition FolderCollection :: bytes where "FolderCollection = ''email.atmos.folder''"
definition MessageMIMEType :: bytes where "MessageMIMEType = ''message/rfc822''"
definition MaxRawMessageBytes :: nat where "MaxRawMessageBytes = 10 * 1024 * 1024"
definition fingerprintPrefix :: bytes where "fingerprintPrefix = ''sha256-''"

lemmas mailbox_names [go_defs] =
  MailboxSpaceType_def MessageCollection_def MessageStateCollection_def
  MessageStateRevisionCollection_def MessageStateOperationCollection_def
  FolderRevisionCollection_def FolderOperationCollection_def FolderCollection_def
  MessageMIMEType_def MaxRawMessageBytes_def fingerprintPrefix_def

record BlobRef =
  br_Type :: bytes
  br_Link :: bytes
  br_MIMEType :: bytes
  br_Size :: int

record MessageRecord =
  mr_Type :: bytes
  mr_Raw :: BlobRef
  mr_SHA256 :: bytes
  mr_Size :: int
  mr_DeliveryFingerprint :: bytes
  mr_LogicalMessageID :: bytes
  mr_SourceKey :: bytes
  mr_InitialMailbox :: bytes
  mr_DeliveredAt :: bytes
  mr_SourceMessageID :: bytes
  mr_MessageDate :: bytes
  mr_InReplyTo :: bytes
  mr_References :: "bytes slice"

record ProjectionIdentity =
  pi_UID :: u32
  pi_UIDValidity :: u32
  pi_ModSeq :: u64

record MessageStateRecord =
  ms_Type :: bytes
  ms_Message :: bytes
  ms_MailboxIDs :: "bytes slice"
  ms_Keywords :: "bytes slice"
  ms_DeletePending :: bool
  ms_Tombstone :: bool
  ms_Revision :: u64
  ms_UpdatedAt :: bytes
  ms_LastOperation :: bytes
  ms_Projection :: ProjectionIdentity

record FolderRecord =
  fr_Type :: bytes
  fr_Name :: bytes
  fr_Role :: bytes
  fr_UIDValidity :: u32
  fr_Revision :: u64
  fr_UpdatedAt :: bytes

record Folder =
  fo_RKey :: bytes
  fo_Record :: FolderRecord

record MessagePair =
  mp_RKey :: bytes
  mp_Message :: MessageRecord
  mp_State :: MessageStateRecord

record ImportedMessage =
  im_RecipientDID :: bytes
  im_SourceKey :: bytes
  im_Raw :: bytes
  im_Mailbox :: bytes
  im_Mailboxes :: "bytes list"
  im_MessageID :: bytes
  im_MessageDate :: gtime
  im_InReplyTo :: bytes
  im_References :: "bytes list"
  im_Keywords :: "bytes list"
  im_DeletePending :: bool
  im_UID :: u32
  im_UIDValidity :: u32
  im_ModSeq :: u64
  im_DeliveredAt :: gtime

definition zero_projection :: ProjectionIdentity where
  "zero_projection = \<lparr>pi_UID = 0, pi_UIDValidity = 0, pi_ModSeq = 0\<rparr>"

section \<open>Fingerprints\<close>

text \<open>The bytes hashed into a delivery fingerprint: three fields, each ended by a zero byte, then the message.\<close>

definition delivery_preimage :: "bytes \<Rightarrow> bytes \<Rightarrow> bytes \<Rightarrow> bytes" where
  "delivery_preimage recipientDID sourceKey raw =
     ''comail-habitat-delivery-v2'' @ [CHR 0x00] @ recipientDID @ [CHR 0x00] @ sourceKey @ [CHR 0x00] @ raw"

definition deliveryFingerprint :: "bytes \<Rightarrow> bytes \<Rightarrow> bytes \<Rightarrow> bytes" where
  "deliveryFingerprint recipientDID sourceKey raw =
     fingerprintPrefix @ hex_encode (sha256 (delivery_preimage recipientDID sourceKey raw))"

definition DeliveryFingerprint :: "bytes \<Rightarrow> bytes \<Rightarrow> bytes" where
  "DeliveryFingerprint recipientDID raw = deliveryFingerprint recipientDID [] raw"

definition ImportedFingerprint :: "ImportedMessage \<Rightarrow> bytes" where
  "ImportedFingerprint src = deliveryFingerprint (im_RecipientDID src) (im_SourceKey src) (im_Raw src)"

definition LogicalMessageID :: "bytes \<Rightarrow> bytes \<Rightarrow> bytes \<Rightarrow> bytes" where
  "LogicalMessageID recipientDID sourceKey fingerprint =
     (if sourceKey = [] then fingerprint
      else fingerprintPrefix @ hex_encode (sha256
        (''comail-logical-message-v1'' @ [CHR 0x00] @ recipientDID @ [CHR 0x00] @ sourceKey)))"

definition RawSHA256 :: "bytes \<Rightarrow> bytes" where
  "RawSHA256 raw = hex_encode (sha256 raw)"

definition FolderRKey :: "bytes \<Rightarrow> bytes" where
  "FolderRKey name = ''folder-'' @ hex_encode (sha256 (''comail-folder-v1'' @ [CHR 0x00] @ name))"

text \<open>The first four bytes of a digest as a big-endian number; zero becomes one.\<close>

definition nonzeroUint32 :: "bytes \<Rightarrow> u32" where
  "nonzeroUint32 digest =
     (let b = (\<lambda>i. word_of_nat (byte (digest ! i)) :: u32);
          v = push_bit 24 (b 0) OR push_bit 16 (b 1) OR push_bit 8 (b 2) OR b 3
      in if v = 0 then 1 else v)"

definition StableUIDValidity :: "bytes \<Rightarrow> bytes \<Rightarrow> u32" where
  "StableUIDValidity recipientDID mailboxName =
     nonzeroUint32 (sha256 (''comail-uidvalidity-v1'' @ [CHR 0x00] @ recipientDID @ [CHR 0x00] @ mailboxName))"

definition StableFolderUIDValidity :: "bytes \<Rightarrow> bytes \<Rightarrow> u32" where
  "StableFolderUIDValidity recipientDID folderID =
     nonzeroUint32 (sha256 (''comail-folder-uidvalidity-v1'' @ [CHR 0x00] @ recipientDID @ [CHR 0x00] @ folderID))"

section \<open>Normalised string sets\<close>

text \<open>The UTF-8 forms of the code points \<^verbatim>\<open>strings.TrimSpace\<close> removes.\<close>

definition space_runes :: "bytes list" where
  "space_runes =
     map (\<lambda>n. [char_of n]) [9, 10, 11, 12, 13, 32 :: nat]
     @ [[CHR 0xC2, CHR 0x85], [CHR 0xC2, CHR 0xA0], [CHR 0xE1, CHR 0x9A, CHR 0x80]]
     @ map (\<lambda>n. [CHR 0xE2, CHR 0x80, char_of n]) ([128..<139] @ [168, 169, 175 :: nat])
     @ [[CHR 0xE2, CHR 0x81, CHR 0x9F], [CHR 0xE3, CHR 0x80, CHR 0x80]]"

text \<open>Drops the longest run of the given non-empty prefixes.\<close>

function strip_prefixes :: "bytes list \<Rightarrow> bytes \<Rightarrow> bytes" where
  "strip_prefixes ps s =
     (case find (\<lambda>p. p \<noteq> [] \<and> has_prefix s p) ps of
        None \<Rightarrow> s
      | Some p \<Rightarrow> if s = [] then s else strip_prefixes ps (drop (length p) s))"
  by pat_completeness auto
termination
  by (relation "measure (\<lambda>(ps, s). length s)") (auto simp: find_Some_iff)

declare strip_prefixes.simps [simp del]

definition TrimSpace :: "bytes \<Rightarrow> bytes" where
  "TrimSpace s = rev (strip_prefixes (map rev space_runes) (rev (strip_prefixes space_runes s)))"

fun normalizeStrings_loop :: "bytes list \<Rightarrow> bytes list \<Rightarrow> bytes list" where
  "normalizeStrings_loop seen [] = []"
| "normalizeStrings_loop seen (v # vs) =
     (let w = TrimSpace v in
      if w = [] then normalizeStrings_loop seen vs
      else if w \<in> set seen then normalizeStrings_loop seen vs
      else w # normalizeStrings_loop (w # seen) vs)"

definition normalizeStrings :: "bytes list \<Rightarrow> bytes list" where
  "normalizeStrings vs = sort (normalizeStrings_loop [] vs)"

definition folderRKeys :: "bytes list \<Rightarrow> bytes list" where
  "folderRKeys names = sort (map FolderRKey names)"

section \<open>New records\<close>

definition NewFolder :: "bytes \<Rightarrow> bytes \<Rightarrow> u32 \<Rightarrow> Folder" where
  "NewFolder name role uidValidity =
     \<lparr>fo_RKey = FolderRKey name,
      fo_Record = \<lparr>fr_Type = FolderCollection, fr_Name = name, fr_Role = role, fr_UIDValidity = uidValidity,
        fr_Revision = 1, fr_UpdatedAt = format_RFC3339Nano unix_epoch\<rparr>\<rparr>"

text \<open>The mailboxes a message is filed in: normalised, never empty.\<close>

definition import_mailboxes :: "ImportedMessage \<Rightarrow> bytes list" where
  "import_mailboxes src =
     (let m1 = normalizeStrings (im_Mailboxes src);
          m2 = (if im_Mailbox src \<noteq> [] then normalizeStrings (m1 @ [im_Mailbox src]) else m1)
      in if m2 = [] then [''INBOX''] else m2)"

definition import_blob :: "BlobRef \<Rightarrow> BlobRef" where
  "import_blob blob = (if br_Type blob = [] then blob\<lparr>br_Type := ''blob''\<rparr> else blob)"

definition new_message_record :: "ImportedMessage \<Rightarrow> BlobRef \<Rightarrow> bytes \<Rightarrow> MessageRecord" where
  "new_message_record src blob rkey =
     \<lparr>mr_Type = MessageCollection, mr_Raw = import_blob blob, mr_SHA256 = RawSHA256 (im_Raw src),
      mr_Size = int (length (im_Raw src)), mr_DeliveryFingerprint = rkey,
      mr_LogicalMessageID = LogicalMessageID (im_RecipientDID src) (im_SourceKey src) rkey,
      mr_SourceKey = im_SourceKey src, mr_InitialMailbox = hd (import_mailboxes src),
      mr_DeliveredAt =
        (if time_IsZero (im_DeliveredAt src) then [] else format_RFC3339Nano (im_DeliveredAt src)),
      mr_SourceMessageID = im_MessageID src,
      mr_MessageDate =
        (if time_IsZero (im_MessageDate src) then [] else format_RFC3339Nano (im_MessageDate src)),
      mr_InReplyTo = im_InReplyTo src, mr_References = copy_nil (im_References src)\<rparr>"

definition new_message_state :: "ImportedMessage \<Rightarrow> bytes \<Rightarrow> MessageStateRecord" where
  "new_message_state src rkey =
     (let mailboxes = import_mailboxes src;
          stateTime = (if time_IsZero (im_DeliveredAt src) then unix_epoch else im_DeliveredAt src)
      in \<lparr>ms_Type = MessageStateCollection, ms_Message = rkey, ms_MailboxIDs = Some (folderRKeys mailboxes),
          ms_Keywords = Some (normalizeStrings (im_Keywords src)), ms_DeletePending = im_DeletePending src,
          ms_Tombstone = False, ms_Revision = 1, ms_UpdatedAt = format_RFC3339Nano stateTime,
          ms_LastOperation = [],
          ms_Projection =
            (if length mailboxes = 1
             then \<lparr>pi_UID = im_UID src, pi_UIDValidity = im_UIDValidity src, pi_ModSeq = im_ModSeq src\<rparr>
             else zero_projection)\<rparr>)"

definition NewMessagePair :: "ImportedMessage \<Rightarrow> BlobRef \<Rightarrow> MessagePair result" where
  "NewMessagePair src blob =
     (if im_RecipientDID src = [] \<or> \<not> has_prefix (im_RecipientDID src) ''did:'' then Inl ErrInvalidRecord
      else if length (im_Raw src) = 0 then Inl ErrInvalidRecord
      else if length (im_Raw src) > MaxRawMessageBytes then Inl ErrMessageTooLarge
      else if length (im_SourceKey src) > 512 then Inl ErrInvalidRecord
      else if length (import_mailboxes src) > 32 then Inl ErrInvalidRecord
      else if list_ex (\<lambda>name. length name > 255) (import_mailboxes src) then Inl ErrInvalidRecord
      else if length (im_MessageID src) > 998 \<or> length (im_InReplyTo src) > 998 \<or> length (im_References src) > 100
        then Inl ErrInvalidRecord
      else if list_ex (\<lambda>r. length r > 998) (im_References src) then Inl ErrInvalidRecord
      else if length (normalizeStrings (im_Keywords src)) > 128 then Inl ErrInvalidRecord
      else if list_ex (\<lambda>k. length k > 255) (normalizeStrings (im_Keywords src)) then Inl ErrInvalidRecord
      else if br_Link blob = [] \<or> br_MIMEType blob \<noteq> MessageMIMEType \<or> br_Size blob \<noteq> int (length (im_Raw src))
        then Inl ErrInvalidRecord
      else (let rkey = ImportedFingerprint src in
        Inr \<lparr>mp_RKey = rkey, mp_Message = new_message_record src blob rkey,
             mp_State = new_message_state src rkey\<rparr>))"

section \<open>The check of a stored message\<close>

definition ValidateStoredMessage :: "bytes \<Rightarrow> bytes \<Rightarrow> MessageRecord \<Rightarrow> bytes \<Rightarrow> unit result" where
  "ValidateStoredMessage recipientDID rkey r raw =
     (let wantFingerprint = deliveryFingerprint recipientDID (mr_SourceKey r) raw;
          wantLogicalID = LogicalMessageID recipientDID (mr_SourceKey r) wantFingerprint
      in if mr_Type r \<noteq> MessageCollection then Inl ErrIntegrity
         else if length raw = 0 \<or> length raw > MaxRawMessageBytes then Inl ErrIntegrity
         else if rkey \<noteq> wantFingerprint \<or> mr_DeliveryFingerprint r \<noteq> wantFingerprint
           \<or> (mr_LogicalMessageID r \<noteq> [] \<and> mr_LogicalMessageID r \<noteq> wantLogicalID) then Inl ErrIntegrity
         else if mr_SHA256 r \<noteq> RawSHA256 raw \<or> mr_Size r \<noteq> int (length raw) then Inl ErrIntegrity
         else if br_Link (mr_Raw r) = [] \<or> br_MIMEType (mr_Raw r) \<noteq> MessageMIMEType
           \<or> br_Size (mr_Raw r) \<noteq> int (length raw) then Inl ErrIntegrity
         else Inr ())"

section \<open>JSON forms\<close>

definition blob_json :: "BlobRef \<Rightarrow> json" where
  "blob_json b = JObj
     (jfield ''$type'' (jstr (br_Type b))
      @ jfield ''ref'' (JObj (jfield ''$link'' (jstr (br_Link b))))
      @ jfield ''mimeType'' (jstr (br_MIMEType b))
      @ jfield ''size'' (JNum (br_Size b)))"

definition message_json :: "MessageRecord \<Rightarrow> json" where
  "message_json r = JObj
     (jfield ''$type'' (jstr (mr_Type r))
      @ jfield ''raw'' (blob_json (mr_Raw r))
      @ jfield ''sha256'' (jstr (mr_SHA256 r))
      @ jfield ''size'' (JNum (mr_Size r))
      @ jfield ''deliveryFingerprint'' (jstr (mr_DeliveryFingerprint r))
      @ jfield ''logicalMessageId'' (jstr (mr_LogicalMessageID r))
      @ jomit (mr_SourceKey r = []) ''sourceKey'' (jstr (mr_SourceKey r))
      @ jfield ''initialMailbox'' (jstr (mr_InitialMailbox r))
      @ jomit (mr_DeliveredAt r = []) ''deliveredAt'' (jstr (mr_DeliveredAt r))
      @ jomit (mr_SourceMessageID r = []) ''sourceMessageId'' (jstr (mr_SourceMessageID r))
      @ jomit (mr_MessageDate r = []) ''messageDate'' (jstr (mr_MessageDate r))
      @ jomit (mr_InReplyTo r = []) ''inReplyTo'' (jstr (mr_InReplyTo r))
      @ jomit (elems (mr_References r) = []) ''references'' (jstrs (mr_References r)))"

definition projection_json :: "ProjectionIdentity \<Rightarrow> json" where
  "projection_json p = JObj
     (jomit (pi_UID p = 0) ''uid'' (JNum (uint (pi_UID p)))
      @ jomit (pi_UIDValidity p = 0) ''uidValidity'' (JNum (uint (pi_UIDValidity p)))
      @ jomit (pi_ModSeq p = 0) ''modSeq'' (JNum (uint (pi_ModSeq p))))"

text \<open>\<open>omitempty\<close> never omits a struct, so the projection is always written.\<close>

definition state_json :: "MessageStateRecord \<Rightarrow> json" where
  "state_json s = JObj
     (jfield ''$type'' (jstr (ms_Type s))
      @ jfield ''message'' (jstr (ms_Message s))
      @ jfield ''mailboxIds'' (jstrs (ms_MailboxIDs s))
      @ jfield ''keywords'' (jstrs (ms_Keywords s))
      @ jomit (\<not> ms_DeletePending s) ''deletePending'' (JBool (ms_DeletePending s))
      @ jomit (\<not> ms_Tombstone s) ''tombstone'' (JBool (ms_Tombstone s))
      @ jfield ''revision'' (JNum (uint (ms_Revision s)))
      @ jfield ''updatedAt'' (jstr (ms_UpdatedAt s))
      @ jomit (ms_LastOperation s = []) ''lastOperation'' (jstr (ms_LastOperation s))
      @ jfield ''projection'' (projection_json (ms_Projection s)))"

definition folder_json :: "FolderRecord \<Rightarrow> json" where
  "folder_json f = JObj
     (jfield ''$type'' (jstr (fr_Type f))
      @ jfield ''name'' (jstr (fr_Name f))
      @ jomit (fr_Role f = []) ''role'' (jstr (fr_Role f))
      @ jomit (fr_UIDValidity f = 0) ''uidValidity'' (JNum (uint (fr_UIDValidity f)))
      @ jfield ''revision'' (JNum (uint (fr_Revision f)))
      @ jfield ''updatedAt'' (jstr (fr_UpdatedAt f)))"

definition zero_BlobRef :: BlobRef where
  "zero_BlobRef = \<lparr>br_Type = [], br_Link = [], br_MIMEType = [], br_Size = 0\<rparr>"

definition zero_MessageRecord :: MessageRecord where
  "zero_MessageRecord = \<lparr>mr_Type = [], mr_Raw = zero_BlobRef, mr_SHA256 = [], mr_Size = 0,
     mr_DeliveryFingerprint = [], mr_LogicalMessageID = [], mr_SourceKey = [], mr_InitialMailbox = [],
     mr_DeliveredAt = [], mr_SourceMessageID = [], mr_MessageDate = [], mr_InReplyTo = [],
     mr_References = None\<rparr>"

definition zero_MessageStateRecord :: MessageStateRecord where
  "zero_MessageStateRecord = \<lparr>ms_Type = [], ms_Message = [], ms_MailboxIDs = None, ms_Keywords = None,
     ms_DeletePending = False, ms_Tombstone = False, ms_Revision = 0, ms_UpdatedAt = [],
     ms_LastOperation = [], ms_Projection = zero_projection\<rparr>"

definition zero_FolderRecord :: FolderRecord where
  "zero_FolderRecord = \<lparr>fr_Type = [], fr_Name = [], fr_Role = [], fr_UIDValidity = 0, fr_Revision = 0,
     fr_UpdatedAt = []\<rparr>"

definition put_ref :: "bytes \<Rightarrow> json \<Rightarrow> bytes \<Rightarrow> bytes option" where
  "put_ref f v link = decode_string v link"

definition put_blob :: "bool \<Rightarrow> bytes \<Rightarrow> json \<Rightarrow> BlobRef \<Rightarrow> BlobRef option" where
  "put_blob strict f v b =
     (if f = ''$type'' then map_option (\<lambda>x. b\<lparr>br_Type := x\<rparr>) (decode_string v (br_Type b))
      else if f = ''ref'' then
        map_option (\<lambda>x. b\<lparr>br_Link := x\<rparr>) (decode_struct strict [''$link''] put_ref v (br_Link b))
      else if f = ''mimeType'' then map_option (\<lambda>x. b\<lparr>br_MIMEType := x\<rparr>) (decode_string v (br_MIMEType b))
      else map_option (\<lambda>x. b\<lparr>br_Size := x\<rparr>) (decode_i64 v (br_Size b)))"

definition blob_fields :: "bytes list" where
  "blob_fields = [''$type'', ''ref'', ''mimeType'', ''size'']"

definition put_message :: "bool \<Rightarrow> bytes \<Rightarrow> json \<Rightarrow> MessageRecord \<Rightarrow> MessageRecord option" where
  "put_message strict f v r =
     (if f = ''$type'' then map_option (\<lambda>x. r\<lparr>mr_Type := x\<rparr>) (decode_string v (mr_Type r))
      else if f = ''raw'' then
        map_option (\<lambda>x. r\<lparr>mr_Raw := x\<rparr>) (decode_struct strict blob_fields (put_blob strict) v (mr_Raw r))
      else if f = ''sha256'' then map_option (\<lambda>x. r\<lparr>mr_SHA256 := x\<rparr>) (decode_string v (mr_SHA256 r))
      else if f = ''size'' then map_option (\<lambda>x. r\<lparr>mr_Size := x\<rparr>) (decode_i64 v (mr_Size r))
      else if f = ''deliveryFingerprint'' then
        map_option (\<lambda>x. r\<lparr>mr_DeliveryFingerprint := x\<rparr>) (decode_string v (mr_DeliveryFingerprint r))
      else if f = ''logicalMessageId'' then
        map_option (\<lambda>x. r\<lparr>mr_LogicalMessageID := x\<rparr>) (decode_string v (mr_LogicalMessageID r))
      else if f = ''sourceKey'' then map_option (\<lambda>x. r\<lparr>mr_SourceKey := x\<rparr>) (decode_string v (mr_SourceKey r))
      else if f = ''initialMailbox'' then
        map_option (\<lambda>x. r\<lparr>mr_InitialMailbox := x\<rparr>) (decode_string v (mr_InitialMailbox r))
      else if f = ''deliveredAt'' then
        map_option (\<lambda>x. r\<lparr>mr_DeliveredAt := x\<rparr>) (decode_string v (mr_DeliveredAt r))
      else if f = ''sourceMessageId'' then
        map_option (\<lambda>x. r\<lparr>mr_SourceMessageID := x\<rparr>) (decode_string v (mr_SourceMessageID r))
      else if f = ''messageDate'' then
        map_option (\<lambda>x. r\<lparr>mr_MessageDate := x\<rparr>) (decode_string v (mr_MessageDate r))
      else if f = ''inReplyTo'' then map_option (\<lambda>x. r\<lparr>mr_InReplyTo := x\<rparr>) (decode_string v (mr_InReplyTo r))
      else map_option (\<lambda>x. r\<lparr>mr_References := x\<rparr>) (decode_strings v))"

definition message_fields :: "bytes list" where
  "message_fields = [''$type'', ''raw'', ''sha256'', ''size'', ''deliveryFingerprint'', ''logicalMessageId'',
     ''sourceKey'', ''initialMailbox'', ''deliveredAt'', ''sourceMessageId'', ''messageDate'', ''inReplyTo'',
     ''references'']"

definition message_of_json :: "bool \<Rightarrow> json \<Rightarrow> MessageRecord option" where
  "message_of_json strict j = decode_struct strict message_fields (put_message strict) j zero_MessageRecord"

definition put_projection :: "bytes \<Rightarrow> json \<Rightarrow> ProjectionIdentity \<Rightarrow> ProjectionIdentity option" where
  "put_projection f v p =
     (if f = ''uid'' then map_option (\<lambda>x. p\<lparr>pi_UID := x\<rparr>) (decode_u32 v (pi_UID p))
      else if f = ''uidValidity'' then map_option (\<lambda>x. p\<lparr>pi_UIDValidity := x\<rparr>) (decode_u32 v (pi_UIDValidity p))
      else map_option (\<lambda>x. p\<lparr>pi_ModSeq := x\<rparr>) (decode_u64 v (pi_ModSeq p)))"

definition projection_fields :: "bytes list" where
  "projection_fields = [''uid'', ''uidValidity'', ''modSeq'']"

definition put_state :: "bytes \<Rightarrow> json \<Rightarrow> MessageStateRecord \<Rightarrow> MessageStateRecord option" where
  "put_state f v s =
     (if f = ''$type'' then map_option (\<lambda>x. s\<lparr>ms_Type := x\<rparr>) (decode_string v (ms_Type s))
      else if f = ''message'' then map_option (\<lambda>x. s\<lparr>ms_Message := x\<rparr>) (decode_string v (ms_Message s))
      else if f = ''mailboxIds'' then map_option (\<lambda>x. s\<lparr>ms_MailboxIDs := x\<rparr>) (decode_strings v)
      else if f = ''keywords'' then map_option (\<lambda>x. s\<lparr>ms_Keywords := x\<rparr>) (decode_strings v)
      else if f = ''deletePending'' then
        map_option (\<lambda>x. s\<lparr>ms_DeletePending := x\<rparr>) (decode_bool v (ms_DeletePending s))
      else if f = ''tombstone'' then map_option (\<lambda>x. s\<lparr>ms_Tombstone := x\<rparr>) (decode_bool v (ms_Tombstone s))
      else if f = ''revision'' then map_option (\<lambda>x. s\<lparr>ms_Revision := x\<rparr>) (decode_u64 v (ms_Revision s))
      else if f = ''updatedAt'' then map_option (\<lambda>x. s\<lparr>ms_UpdatedAt := x\<rparr>) (decode_string v (ms_UpdatedAt s))
      else if f = ''lastOperation'' then
        map_option (\<lambda>x. s\<lparr>ms_LastOperation := x\<rparr>) (decode_string v (ms_LastOperation s))
      else map_option (\<lambda>x. s\<lparr>ms_Projection := x\<rparr>)
        (decode_struct False projection_fields put_projection v (ms_Projection s)))"

definition state_fields :: "bytes list" where
  "state_fields = [''$type'', ''message'', ''mailboxIds'', ''keywords'', ''deletePending'', ''tombstone'',
     ''revision'', ''updatedAt'', ''lastOperation'', ''projection'']"

definition state_of_json :: "json \<Rightarrow> MessageStateRecord option" where
  "state_of_json j = decode_struct False state_fields put_state j zero_MessageStateRecord"

definition put_folder :: "bytes \<Rightarrow> json \<Rightarrow> FolderRecord \<Rightarrow> FolderRecord option" where
  "put_folder f v r =
     (if f = ''$type'' then map_option (\<lambda>x. r\<lparr>fr_Type := x\<rparr>) (decode_string v (fr_Type r))
      else if f = ''name'' then map_option (\<lambda>x. r\<lparr>fr_Name := x\<rparr>) (decode_string v (fr_Name r))
      else if f = ''role'' then map_option (\<lambda>x. r\<lparr>fr_Role := x\<rparr>) (decode_string v (fr_Role r))
      else if f = ''uidValidity'' then map_option (\<lambda>x. r\<lparr>fr_UIDValidity := x\<rparr>) (decode_u32 v (fr_UIDValidity r))
      else if f = ''revision'' then map_option (\<lambda>x. r\<lparr>fr_Revision := x\<rparr>) (decode_u64 v (fr_Revision r))
      else map_option (\<lambda>x. r\<lparr>fr_UpdatedAt := x\<rparr>) (decode_string v (fr_UpdatedAt r)))"

definition folder_fields :: "bytes list" where
  "folder_fields = [''$type'', ''name'', ''role'', ''uidValidity'', ''revision'', ''updatedAt'']"

definition folder_of_json :: "json \<Rightarrow> FolderRecord option" where
  "folder_of_json j = decode_struct False folder_fields put_folder j zero_FolderRecord"

text \<open>The strings of a record are valid UTF-8, so marshalling keeps them.\<close>

definition state_utf8 :: "MessageStateRecord \<Rightarrow> bool" where
  "state_utf8 s = (utf8_valid (ms_Type s) \<and> utf8_valid (ms_Message s) \<and> utf8_valid (ms_UpdatedAt s)
     \<and> utf8_valid (ms_LastOperation s) \<and> list_all utf8_valid (elems (ms_MailboxIDs s))
     \<and> list_all utf8_valid (elems (ms_Keywords s)))"

definition blob_utf8 :: "BlobRef \<Rightarrow> bool" where
  "blob_utf8 b = (utf8_valid (br_Type b) \<and> utf8_valid (br_Link b) \<and> utf8_valid (br_MIMEType b))"

text \<open>
  A message record that survives marshalling: valid UTF-8, 64-bit sizes, and no
  non-nil empty slice of references (\<open>omitempty\<close> reads it back as nil).
\<close>

definition message_portable :: "MessageRecord \<Rightarrow> bool" where
  "message_portable r = (list_all utf8_valid [mr_Type r, mr_SHA256 r, mr_DeliveryFingerprint r,
       mr_LogicalMessageID r, mr_SourceKey r, mr_InitialMailbox r, mr_DeliveredAt r, mr_SourceMessageID r,
       mr_MessageDate r, mr_InReplyTo r]
     \<and> list_all utf8_valid (elems (mr_References r)) \<and> mr_References r \<noteq> Some [] \<and> blob_utf8 (mr_Raw r)
     \<and> - (2 ^ 63) \<le> mr_Size r \<and> mr_Size r < 2 ^ 63 \<and> - (2 ^ 63) \<le> br_Size (mr_Raw r) \<and> br_Size (mr_Raw r) < 2 ^ 63)"

lemma decode_projection_json:
  "decode_struct False projection_fields put_projection (projection_json p) zero_projection = Some p"
  by (simp add: projection_json_def decode_members_append jomit_def projection_fields_def
      put_projection_def zero_projection_def)

lemma decode_blob_json:
  assumes "blob_utf8 b" and "- (2 ^ 63) \<le> br_Size b" and "br_Size b < 2 ^ 63"
  shows "decode_struct strict blob_fields (put_blob strict) (blob_json b) zero_BlobRef = Some b"
  using assms
  by (simp add: blob_json_def decode_members_append jfield_def blob_fields_def put_blob_def put_ref_def
      zero_BlobRef_def blob_utf8_def)

text \<open>A state read back after it was written: its strings are valid UTF-8, the rest is unchanged.\<close>

definition clean_state :: "MessageStateRecord \<Rightarrow> MessageStateRecord" where
  "clean_state s = s\<lparr>ms_Type := to_valid_utf8 (ms_Type s), ms_Message := to_valid_utf8 (ms_Message s),
     ms_MailboxIDs := map_option (map to_valid_utf8) (ms_MailboxIDs s),
     ms_Keywords := map_option (map to_valid_utf8) (ms_Keywords s),
     ms_UpdatedAt := to_valid_utf8 (ms_UpdatedAt s), ms_LastOperation := to_valid_utf8 (ms_LastOperation s)\<rparr>"

lemma state_json_clean: "state_of_json (state_json s) = Some (clean_state s)"
  by (simp add: state_of_json_def state_json_def decode_members_append jfield_def jomit_def clean_state_def
      state_fields_def put_state_def zero_MessageStateRecord_def decode_projection_json)

lemma state_json_decodes:
  assumes "state_utf8 s"
  shows "state_of_json (state_json s) = Some s"
  using assms by (simp add: state_json_clean clean_state_def state_utf8_def)

lemma state_of_json_utf8:
  assumes "state_of_json j = Some s"
  shows "state_utf8 s"
proof (rule decode_struct_inv[where P = state_utf8])
  fix f v r r'
  assume "state_utf8 r" "put_state f v r = Some r'"
  then show "state_utf8 r'"
    by (auto simp: put_state_def state_utf8_def split: if_splits dest: decode_string_utf8 decode_strings_utf8)
qed (use assms in \<open>auto simp: state_of_json_def zero_MessageStateRecord_def state_utf8_def\<close>)

lemma message_json_decodes:
  assumes "message_portable r"
  shows "message_of_json strict (message_json r) = Some r"
  using assms
  by (cases "mr_References r")
    (simp_all add: message_of_json_def message_json_def decode_members_append jfield_def jomit_def
      message_fields_def put_message_def zero_MessageRecord_def message_portable_def decode_blob_json)

lemma folder_json_decodes:
  assumes "utf8_valid (fr_Type f)" "utf8_valid (fr_Name f)" "utf8_valid (fr_Role f)" "utf8_valid (fr_UpdatedAt f)"
  shows "folder_of_json (folder_json f) = Some f"
  using assms
  by (simp add: folder_of_json_def folder_json_def decode_members_append jfield_def jomit_def
      folder_fields_def put_folder_def zero_FolderRecord_def)

section \<open>Normalised string sets are sets\<close>

lemma find_prefix_take:
  assumes "find (\<lambda>p. p \<noteq> [] \<and> has_prefix s p) ps = None"
  shows "find (\<lambda>p. p \<noteq> [] \<and> has_prefix (take n s) p) ps = None"
  using assms unfolding find_None_iff has_prefix_def
  by (metis take_take min.absorb1 min.cobounded2 length_take nle_le take_all_iff)

lemma strip_prefixes_stops: "find (\<lambda>p. p \<noteq> [] \<and> has_prefix (strip_prefixes ps s) p) ps = None"
proof (induction ps s rule: strip_prefixes.induct)
  case (1 ps s)
  show ?case
  proof (cases "find (\<lambda>p. p \<noteq> [] \<and> has_prefix s p) ps")
    case None
    then show ?thesis by (simp add: strip_prefixes.simps[of ps s])
  next
    case (Some p)
    then have "s \<noteq> []" by (auto simp: find_Some_iff has_prefix_def)
    with Some 1 show ?thesis by (simp add: strip_prefixes.simps[of ps s])
  qed
qed

lemma strip_prefixes_id:
  "find (\<lambda>p. p \<noteq> [] \<and> has_prefix s p) ps = None \<Longrightarrow> strip_prefixes ps s = s"
  by (simp add: strip_prefixes.simps[of ps s])

lemma strip_prefixes_suffix: "\<exists>n. strip_prefixes ps s = drop n s"
proof (induction ps s rule: strip_prefixes.induct)
  case (1 ps s)
  show ?case
  proof (cases "find (\<lambda>p. p \<noteq> [] \<and> has_prefix s p) ps")
    case None
    then show ?thesis by (auto simp: strip_prefixes.simps[of ps s] intro: exI[of _ 0])
  next
    case (Some p)
    then have "s \<noteq> []" by (auto simp: find_Some_iff has_prefix_def)
    with 1[OF Some] obtain n where "strip_prefixes ps (drop (length p) s) = drop n (drop (length p) s)" by blast
    with Some \<open>s \<noteq> []\<close> show ?thesis
      by (auto simp: strip_prefixes.simps[of ps s] intro: exI[of _ "n + length p"])
  qed
qed

lemma TrimSpace_idem [simp]: "TrimSpace (TrimSpace s) = TrimSpace s"
proof -
  define t where "t = strip_prefixes space_runes s"
  obtain n where n: "TrimSpace s = take n t"
    using strip_prefixes_suffix[of "map rev space_runes" "rev t"]
    by (auto simp: TrimSpace_def t_def rev_drop)
  have "find (\<lambda>p. p \<noteq> [] \<and> has_prefix (TrimSpace s) p) space_runes = None"
    unfolding n t_def by (rule find_prefix_take[OF strip_prefixes_stops])
  then have "strip_prefixes space_runes (TrimSpace s) = TrimSpace s" by (rule strip_prefixes_id)
  moreover have "strip_prefixes (map rev space_runes) (rev (TrimSpace s)) = rev (TrimSpace s)"
    by (rule strip_prefixes_id) (simp add: TrimSpace_def strip_prefixes_stops)
  ultimately show ?thesis by (simp add: TrimSpace_def[of "TrimSpace s"])
qed

lemma normalizeStrings_loop_set:
  "set (normalizeStrings_loop seen vs) = TrimSpace ` set vs - insert [] (set seen)"
  by (induction vs arbitrary: seen) (auto simp: Let_def)

lemma normalizeStrings_loop_distinct: "distinct (normalizeStrings_loop seen vs)"
  by (induction vs arbitrary: seen) (auto simp: Let_def normalizeStrings_loop_set)

lemma normalizeStrings_set: "set (normalizeStrings vs) = TrimSpace ` set vs - {[]}"
  by (simp add: normalizeStrings_def normalizeStrings_loop_set)

lemma normalizeStrings_sorted [simp]: "sorted (normalizeStrings vs)" "distinct (normalizeStrings vs)"
  by (simp_all add: normalizeStrings_def normalizeStrings_loop_distinct)

lemma normalizeStrings_eqI:
  "TrimSpace ` set vs - {[]} = TrimSpace ` set ws - {[]} \<Longrightarrow> normalizeStrings vs = normalizeStrings ws"
  by (rule sorted_distinct_set_unique) (simp_all add: normalizeStrings_set)

section \<open>What the constructor guarantees\<close>

lemma import_mailboxes_nonempty [simp]: "import_mailboxes src \<noteq> []"
  by (simp add: import_mailboxes_def Let_def)

lemma length_folderRKeys [simp]: "length (folderRKeys names) = length names"
  by (simp add: folderRKeys_def)

lemma set_folderRKeys [simp]: "set (folderRKeys names) = FolderRKey ` set names"
  by (simp add: folderRKeys_def)

lemma FolderRKey_nonempty [simp]: "FolderRKey name \<noteq> []"
  by (simp add: FolderRKey_def)

lemma fingerprint_nonempty [simp]: "deliveryFingerprint d k raw \<noteq> []"
  by (simp add: deliveryFingerprint_def fingerprintPrefix_def)

lemma import_blob_fields [simp]:
  "br_Link (import_blob b) = br_Link b" "br_MIMEType (import_blob b) = br_MIMEType b"
  "br_Size (import_blob b) = br_Size b"
  by (simp_all add: import_blob_def)

lemma NewMessagePair_fields:
  assumes "NewMessagePair src blob = Inr p"
  shows "mp_RKey p = ImportedFingerprint src"
    and "mp_Message p = new_message_record src blob (ImportedFingerprint src)"
    and "mp_State p = new_message_state src (ImportedFingerprint src)"
    and "im_Raw src \<noteq> []" and "length (im_Raw src) \<le> MaxRawMessageBytes"
    and "br_Link blob \<noteq> []" and "br_MIMEType blob = MessageMIMEType" and "br_Size blob = int (length (im_Raw src))"
    and "length (import_mailboxes src) \<le> 32" and "length (normalizeStrings (im_Keywords src)) \<le> 128"
  using assms by (auto simp: NewMessagePair_def Let_def split: if_splits)

lemma stored_message_accepted:
  assumes "NewMessagePair src blob = Inr p"
  shows "ValidateStoredMessage (im_RecipientDID src) (mp_RKey p) (mp_Message p) (im_Raw src) = Inr ()"
  using NewMessagePair_fields[OF assms]
  by (simp add: ValidateStoredMessage_def new_message_record_def ImportedFingerprint_def Let_def)

text \<open>Everything a stored record commits to, read off an accepted check.\<close>

lemma ValidateStoredMessage_accepts:
  "ValidateStoredMessage d rkey r raw = Inr () \<longleftrightarrow>
     mr_Type r = MessageCollection \<and> raw \<noteq> [] \<and> length raw \<le> MaxRawMessageBytes
     \<and> rkey = deliveryFingerprint d (mr_SourceKey r) raw \<and> mr_DeliveryFingerprint r = rkey
     \<and> (mr_LogicalMessageID r = [] \<or> mr_LogicalMessageID r = LogicalMessageID d (mr_SourceKey r) rkey)
     \<and> mr_SHA256 r = RawSHA256 raw \<and> mr_Size r = int (length raw)
     \<and> br_Link (mr_Raw r) \<noteq> [] \<and> br_MIMEType (mr_Raw r) = MessageMIMEType \<and> br_Size (mr_Raw r) = int (length raw)"
  by (auto simp: ValidateStoredMessage_def Let_def)

lemma delivery_preimage_inj:
  assumes "CHR 0x00 \<notin> set d" "CHR 0x00 \<notin> set d'" "CHR 0x00 \<notin> set k" "CHR 0x00 \<notin> set k'"
  shows "delivery_preimage d k raw = delivery_preimage d' k' raw' \<longleftrightarrow> d = d' \<and> k = k' \<and> raw = raw'"
  using assms by (simp add: delivery_preimage_def terminated_inj)

lemma nonzeroUint32_nonzero: "nonzeroUint32 digest \<noteq> 0"
  by (simp add: nonzeroUint32_def Let_def)

section \<open>Properties\<close>

definition demo_import :: "bytes \<Rightarrow> bytes \<Rightarrow> ImportedMessage" where
  "demo_import sourceKey raw = \<lparr>im_RecipientDID = ''did:a'', im_SourceKey = sourceKey, im_Raw = raw, im_Mailbox = ''INBOX'',
     im_Mailboxes = [], im_MessageID = [], im_MessageDate = zero_time, im_InReplyTo = [], im_References = [],
     im_Keywords = [''$seen''], im_DeletePending = False, im_UID = 1, im_UIDValidity = 1, im_ModSeq = 1,
     im_DeliveredAt = zero_time\<rparr>"

definition demo_blob :: "bytes \<Rightarrow> BlobRef" where
  "demo_blob raw = \<lparr>br_Type = [], br_Link = ''bafk'', br_MIMEType = MessageMIMEType, br_Size = int (length raw)\<rparr>"

lemma demo_import_normal: "import_mailboxes (demo_import k raw) = [''INBOX'']" "normalizeStrings (im_Keywords (demo_import k raw)) = [''$seen'']"
proof -
  have "normalizeStrings [] = []" "normalizeStrings ([] @ [''INBOX'']) = [''INBOX'']" "normalizeStrings [''$seen''] = [''$seen'']"
    by code_simp+
  then show "import_mailboxes (demo_import k raw) = [''INBOX'']" "normalizeStrings (im_Keywords (demo_import k raw)) = [''$seen'']"
    by (simp_all add: import_mailboxes_def demo_import_def)
qed

lemma demo_import_accepted:
  assumes "raw \<noteq> []" and "length raw \<le> 1024" and "length k \<le> 512"
  shows "\<exists>p. NewMessagePair (demo_import k raw) (demo_blob raw) = Inr p"
  using assms demo_import_normal[of k raw]
  by (simp add: NewMessagePair_def Let_def)
    (simp add: demo_import_def demo_blob_def has_prefix_def MaxRawMessageBytes_def)

text \<open>C28. What the constructor produces passes the check made before stored bytes are used:
  key, fingerprint, logical identifier, hash, sizes and blob reference all agree with the
  imported bytes. The state it produces is the first revision of a live message filed in
  the folders of its mailboxes, with sorted keywords without repetition.\<close>

theorem NewMessagePair_stored:
  assumes "NewMessagePair src blob = Inr p"
  shows "ValidateStoredMessage (im_RecipientDID src) (mp_RKey p) (mp_Message p) (im_Raw src) = Inr ()
    \<and> ms_Message (mp_State p) = mp_RKey p \<and> ms_Revision (mp_State p) = 1 \<and> \<not> ms_Tombstone (mp_State p)
    \<and> set (elems (ms_MailboxIDs (mp_State p))) = FolderRKey ` set (import_mailboxes src)
    \<and> set (elems (ms_Keywords (mp_State p))) = TrimSpace ` set (im_Keywords src) - {[]}
    \<and> sorted (elems (ms_Keywords (mp_State p))) \<and> distinct (elems (ms_Keywords (mp_State p)))"
  using stored_message_accepted[OF assms] NewMessagePair_fields(1,3)[OF assms]
  by (simp add: new_message_state_def Let_def normalizeStrings_set)

theorem NewMessagePair_stored_witness:
  "\<exists>p. NewMessagePair (demo_import ''k'' ''hello'') (demo_blob ''hello'') = Inr p
    \<and> ValidateStoredMessage ''did:a'' (mp_RKey p) (mp_Message p) ''hello'' = Inr ()"
proof -
  obtain p where p: "NewMessagePair (demo_import ''k'' ''hello'') (demo_blob ''hello'') = Inr p"
    using demo_import_accepted[of "''hello''" "''k''"] by auto
  from NewMessagePair_stored[OF p] p show ?thesis by (auto simp: demo_import_def)
qed

text \<open>A record key commits to what it names: if two stored messages pass the check for the
  same recipient under the same key and their source keys hold no zero byte, they are the
  same message from the same source, or SHA-256 collides on their two preimages.\<close>

theorem stored_message_key_commits:
  assumes "ValidateStoredMessage d rkey r raw = Inr ()" and "ValidateStoredMessage d rkey r' raw' = Inr ()"
    and "CHR 0x00 \<notin> set d" and "CHR 0x00 \<notin> set (mr_SourceKey r)" and "CHR 0x00 \<notin> set (mr_SourceKey r')"
  shows "(mr_SourceKey r = mr_SourceKey r' \<and> raw = raw')
    \<or> (delivery_preimage d (mr_SourceKey r) raw \<noteq> delivery_preimage d (mr_SourceKey r') raw'
        \<and> sha256 (delivery_preimage d (mr_SourceKey r) raw) = sha256 (delivery_preimage d (mr_SourceKey r') raw'))"
  using assms(1,2) delivery_preimage_inj[OF assms(3,3,4,5), of raw raw']
  by (auto simp: ValidateStoredMessage_accepts deliveryFingerprint_def hex_encode_inj)

theorem stored_message_key_commits_witness:
  "\<exists>p r'. NewMessagePair (demo_import ''k'' ''hello'') (demo_blob ''hello'') = Inr p \<and> r' \<noteq> mp_Message p
    \<and> ValidateStoredMessage ''did:a'' (mp_RKey p) r' ''hello'' = Inr ()
    \<and> (mr_SourceKey (mp_Message p) = mr_SourceKey r'
       \<or> delivery_preimage ''did:a'' (mr_SourceKey (mp_Message p)) ''hello'' \<noteq> delivery_preimage ''did:a'' (mr_SourceKey r') ''hello'')"
proof -
  obtain p where p: "NewMessagePair (demo_import ''k'' ''hello'') (demo_blob ''hello'') = Inr p"
    using demo_import_accepted[of "''hello''" "''k''"] by auto
  let ?r = "mp_Message p" and ?r' = "(mp_Message p)\<lparr>mr_LogicalMessageID := []\<rparr>"
  have v: "ValidateStoredMessage ''did:a'' (mp_RKey p) ?r ''hello'' = Inr ()"
    using stored_message_accepted[OF p] by (simp add: demo_import_def)
  then have v': "ValidateStoredMessage ''did:a'' (mp_RKey p) ?r' ''hello'' = Inr ()"
    by (simp add: ValidateStoredMessage_accepts)
  have k: "mr_SourceKey ?r = ''k''" and l: "mr_LogicalMessageID ?r \<noteq> []"
    using NewMessagePair_fields(2)[OF p]
    by (simp_all add: new_message_record_def demo_import_def LogicalMessageID_def fingerprintPrefix_def)
  from l have "?r' \<noteq> ?r" by (metis MessageRecord.select_convs(6) MessageRecord.surjective MessageRecord.update_convs(6))
  with stored_message_key_commits[OF v v'] p k v' show ?thesis by (intro exI[of _ p] exI[of _ ?r']) auto
qed




end
