(* ===== verification/Repository.thy ===== *)
theory Repository
  imports Mailbox
begin

text \<open>
  Package \<^verbatim>\<open>repository\<close> (\<^verbatim>\<open>internal/repository/repository.go\<close>): the target a mailbox operation
  is bound to, record addresses inside it, and the interface every provider
  implements. The identifier grammar (\<^verbatim>\<open>syntax.ParseDID\<close> and its siblings) belongs to a
  third-party package, so it is the parameter \<open>syntax_api\<close> of the definitions that use
  it; \<open>syntax_laws\<close> names what is relied on. The interface is a record of operations on
  a state, and the locales at the end state what its callers rely on.
\<close>

section \<open>Identifier grammar\<close>

text \<open>
  The parsers of the atproto syntax package. \<open>sx_ParseDID\<close> returns the text of the
  parsed DID, the others whether they accept.
\<close>

record syntax_api =
  sx_ParseDID :: "bytes \<Rightarrow> bytes option"
  sx_ParseNSID :: "bytes \<Rightarrow> bool"
  sx_ParseRecordKey :: "bytes \<Rightarrow> bool"
  sx_ParseTID :: "bytes \<Rightarrow> bool"

text \<open>
  Documented of the identifier grammar: no DID, NSID or record key holds a slash or a
  zero byte.
\<close>

definition syntax_laws :: "syntax_api \<Rightarrow> bool" where
  "syntax_laws sx \<longleftrightarrow>
     (\<forall>s. sx_ParseDID sx s \<noteq> None \<longrightarrow> CHR ''/'' \<notin> set s \<and> CHR 0x00 \<notin> set s)
     \<and> (\<forall>s. sx_ParseNSID sx s \<longrightarrow> CHR ''/'' \<notin> set s \<and> CHR 0x00 \<notin> set s)
     \<and> (\<forall>s. sx_ParseRecordKey sx s \<longrightarrow> CHR ''/'' \<notin> set s \<and> CHR 0x00 \<notin> set s)"

text \<open>A small grammar that satisfies the laws, used to show that they can hold.\<close>

definition plain_ident :: "bytes \<Rightarrow> bool" where
  "plain_ident s = (s \<noteq> [] \<and> CHR ''/'' \<notin> set s \<and> CHR 0x00 \<notin> set s)"

definition plain_syntax :: syntax_api where
  "plain_syntax = \<lparr>sx_ParseDID = (\<lambda>s. if has_prefix s ''did:'' \<and> plain_ident s then Some s else None),
     sx_ParseNSID = plain_ident, sx_ParseRecordKey = plain_ident, sx_ParseTID = plain_ident\<rparr>"

lemma plain_syntax_laws: "syntax_laws plain_syntax"
  by (simp add: syntax_laws_def plain_syntax_def plain_ident_def)

section \<open>Targets and record addresses\<close>

record Target =
  tg_ProviderOrigin :: bytes
  tg_SpaceURI :: bytes
  tg_RepoDID :: bytes
  tg_Epoch :: bytes

definition ValidateFor :: "syntax_api \<Rightarrow> Target \<Rightarrow> bytes \<Rightarrow> unit result" where
  "ValidateFor sx t recipientDID =
     (if tg_ProviderOrigin t = [] \<or> tg_SpaceURI t = [] \<or> tg_RepoDID t = [] \<or> tg_Epoch t = [] then Inl ErrTarget
      else if recipientDID \<noteq> [] \<and> tg_RepoDID t \<noteq> recipientDID then Inl ErrTarget
      else if sx_ParseDID sx (tg_RepoDID t) = None \<or> \<not> has_prefix (tg_SpaceURI t) ''at://'' then Inl ErrTarget
      else (case cut CHR ''/'' (trim_prefix (tg_SpaceURI t) ''at://'') of (spaceAuthority, path, found) \<Rightarrow>
        if \<not> found \<or> sx_ParseDID sx spaceAuthority = None then Inl ErrTarget
        else (case split_on CHR ''/'' path of
          [s0, spaceType, spaceKey] \<Rightarrow>
            if s0 \<noteq> ''space'' then Inl ErrTarget
            else if \<not> sx_ParseNSID sx spaceType \<or> spaceType \<noteq> MailboxSpaceType then Inl ErrTarget
            else if \<not> sx_ParseRecordKey sx spaceKey \<or> contains_any path (''?# '' @ [CHR 0x09, CHR 0x0D, CHR 0x0A])
              then Inl ErrTarget
            else Inr ()
        | _ \<Rightarrow> Inl ErrTarget)))"

definition RecordURI :: "syntax_api \<Rightarrow> Target \<Rightarrow> bytes \<Rightarrow> bytes \<Rightarrow> bytes result" where
  "RecordURI sx t collection rkey =
     (if ValidateFor sx t (tg_RepoDID t) \<noteq> Inr () then Inl ErrTarget
      else if \<not> sx_ParseNSID sx collection then Inl ErrTarget
      else if \<not> sx_ParseRecordKey sx rkey then Inl ErrTarget
      else Inr (tg_SpaceURI t @ ''/'' @ tg_RepoDID t @ ''/'' @ collection @ ''/'' @ rkey))"

definition ValidateRecordURI :: "syntax_api \<Rightarrow> Target \<Rightarrow> bytes \<Rightarrow> bytes \<Rightarrow> bytes \<Rightarrow> unit result" where
  "ValidateRecordURI sx t uri collection rkey =
     (if ValidateFor sx t (tg_RepoDID t) \<noteq> Inr () \<or> \<not> has_prefix uri (tg_SpaceURI t @ ''/'') then Inl ErrTarget
      else (case split_on CHR ''/'' (trim_prefix uri (tg_SpaceURI t @ ''/'')) of
        [author, c, k] \<Rightarrow>
          if c \<noteq> collection \<or> k \<noteq> rkey then Inl ErrTarget
          else if sx_ParseDID sx author = None then Inl ErrTarget
          else if \<not> sx_ParseNSID sx c then Inl ErrTarget
          else if \<not> sx_ParseRecordKey sx k then Inl ErrTarget
          else Inr ()
      | _ \<Rightarrow> Inl ErrTarget))"

section \<open>The repository interface\<close>

record Capabilities =
  cp_AtomicApplyWrites :: bool
  cp_CompareAndSwap :: bool
  cp_ReferencedBlobs :: bool
  cp_RepoOplog :: bool
  cp_CARExport :: bool
  cp_Notifications :: bool

record Record =
  rc_URI :: bytes
  rc_Collection :: bytes
  rc_RKey :: bytes
  rc_CID :: bytes
  rc_Value :: json

text \<open>\<^verbatim>\<open>WriteAction\<close> is a string; a value other than the three constants is \<open>OtherAction\<close>.\<close>

datatype WriteAction = Create | Update | Delete | OtherAction bytes

text \<open>A value of type \<^verbatim>\<open>any\<close> is what it marshals to, or cannot be marshalled.\<close>

datatype any_value = AnyJSON json | AnyUnencodable

record Write =
  wr_Action :: WriteAction
  wr_Collection :: bytes
  wr_RKey :: bytes
  wr_Value :: any_value
  wr_SwapCID :: bytes

record WriteResult =
  wres_URI :: bytes
  wres_CID :: bytes

record Commit =
  cm_Rev :: bytes
  cm_Hash :: bytes
  cm_Results :: "WriteResult list"

text \<open>The \<^verbatim>\<open>Repository\<close> interface: operations on a provider state \<open>'s\<close>.\<close>

record 's Repository =
  rp_ProviderID :: bytes
  rp_Capabilities :: "'s \<Rightarrow> Capabilities result \<times> 's"
  rp_EnsureMailbox :: "bytes \<Rightarrow> bytes \<Rightarrow> 's \<Rightarrow> Target result \<times> 's"
  rp_UploadBlob :: "Target \<Rightarrow> bytes \<Rightarrow> bytes \<Rightarrow> 's \<Rightarrow> BlobRef result \<times> 's"
  rp_ApplyWrites :: "Target \<Rightarrow> Write list \<Rightarrow> 's \<Rightarrow> Commit result \<times> 's"
  rp_PutRecordCAS :: "Target \<Rightarrow> bytes \<Rightarrow> bytes \<Rightarrow> any_value \<Rightarrow> bytes \<Rightarrow> 's \<Rightarrow> Record result \<times> 's"
  rp_GetRecord :: "Target \<Rightarrow> bytes \<Rightarrow> bytes \<Rightarrow> 's \<Rightarrow> Record result \<times> 's"
  rp_ListRecords :: "Target \<Rightarrow> bytes \<Rightarrow> 's \<Rightarrow> Record list result \<times> 's"
  rp_GetBlob :: "Target \<Rightarrow> bytes \<Rightarrow> 's \<Rightarrow> bytes result \<times> 's"

text \<open>A document that embeds no blob reference.\<close>

fun blob_free :: "json \<Rightarrow> bool" where
  "blob_free (JObj ms) = (map_of ms ''$type'' \<noteq> Some (JStr ''blob'') \<and> list_all (\<lambda>m. blob_free (snd m)) ms)"
| "blob_free (JArr xs) = list_all blob_free xs"
| "blob_free j = True"

section \<open>Addresses\<close>

lemma cut_found:
  "cut c s = (a, b, True) \<Longrightarrow> s = a @ c # b \<and> c \<notin> set a"
  by (induction s arbitrary: a) (auto split: if_splits prod.splits)

lemma split_on_single: "split_on c s = [x] \<Longrightarrow> s = x"
  by (induction s arbitrary: x) (auto split: list.splits if_splits)

lemma split_on_more:
  "split_on c s = x # y # ys \<Longrightarrow> \<exists>r. s = x @ c # r \<and> split_on c r = y # ys"
  by (induction s arbitrary: x) (auto split: list.splits if_splits)

lemma split_on_three: "split_on c s = [x, y, z] \<Longrightarrow> s = x @ c # y @ c # z"
  by (auto dest!: split_on_more split_on_single)

text \<open>An accepted target names its space by authority, mailbox type and key.\<close>

lemma ValidateFor_shape:
  assumes "ValidateFor sx t d = Inr ()"
  obtains authority key where
    "tg_SpaceURI t = ''at://'' @ authority @ ''/space/'' @ MailboxSpaceType @ ''/'' @ key"
    and "sx_ParseDID sx authority \<noteq> None" and "sx_ParseRecordKey sx key"
    and "sx_ParseDID sx (tg_RepoDID t) \<noteq> None"
proof -
  from assms have pre: "has_prefix (tg_SpaceURI t) ''at://''" and did: "sx_ParseDID sx (tg_RepoDID t) \<noteq> None"
    by (auto simp: ValidateFor_def split: if_splits)
  from pre obtain r where r: "tg_SpaceURI t = ''at://'' @ r" by (rule has_prefixE)
  then have trim: "trim_prefix (tg_SpaceURI t) ''at://'' = r" by (simp only: trim_prefix_append)
  obtain authority path found where c: "cut CHR ''/'' r = (authority, path, found)"
    by (cases "cut CHR ''/'' r")
  from assms c trim obtain s0 ty key where f: "found" and a: "sx_ParseDID sx authority \<noteq> None"
    and sp: "split_on CHR ''/'' path = [s0, ty, key]" and s0: "s0 = ''space''" "ty = MailboxSpaceType"
    and k: "sx_ParseRecordKey sx key"
    by (auto simp: ValidateFor_def split: if_splits list.splits)
  from c f have "r = authority @ CHR ''/'' # path" by (auto dest: cut_found)
  with r split_on_three[OF sp] s0
  have "tg_SpaceURI t = ''at://'' @ authority @ ''/space/'' @ MailboxSpaceType @ ''/'' @ key" by simp
  with a k did show thesis by (intro that)
qed

lemma ValidateRecordURI_accepts:
  assumes "syntax_laws sx"
  shows "ValidateRecordURI sx t uri c k = Inr () \<longleftrightarrow>
     ValidateFor sx t (tg_RepoDID t) = Inr () \<and> sx_ParseNSID sx c \<and> sx_ParseRecordKey sx k
     \<and> (\<exists>author. sx_ParseDID sx author \<noteq> None \<and> uri = tg_SpaceURI t @ ''/'' @ author @ ''/'' @ c @ ''/'' @ k)"
    (is "?l = ?r")
proof
  assume l: ?l
  then have pre: "has_prefix uri (tg_SpaceURI t @ ''/'')" by (auto simp: ValidateRecordURI_def split: if_splits)
  then obtain q where q: "uri = (tg_SpaceURI t @ ''/'') @ q" by (rule has_prefixE)
  then have trim: "trim_prefix uri (tg_SpaceURI t @ ''/'') = q" by (simp only: trim_prefix_append)
  from l trim obtain author where "split_on CHR ''/'' q = [author, c, k]"
    and "sx_ParseDID sx author \<noteq> None" "sx_ParseNSID sx c" "sx_ParseRecordKey sx k"
    "ValidateFor sx t (tg_RepoDID t) = Inr ()"
    by (auto simp: ValidateRecordURI_def split: if_splits list.splits)
  with q show ?r by (auto dest!: split_on_three)
next
  assume ?r
  then obtain author where a: "sx_ParseDID sx author \<noteq> None"
    and uri: "uri = (tg_SpaceURI t @ ''/'') @ (author @ CHR ''/'' # c @ CHR ''/'' # k)"
    and ok: "ValidateFor sx t (tg_RepoDID t) = Inr ()" "sx_ParseNSID sx c" "sx_ParseRecordKey sx k"
    by auto
  then have "split_on CHR ''/'' (author @ CHR ''/'' # c @ CHR ''/'' # k) = [author, c, k]"
    using assms by (simp add: syntax_laws_def split_on_append_sep split_on_no_sep)
  with uri a ok show ?l by (simp add: ValidateRecordURI_def del: append_assoc)
qed

lemma RecordURI_accepts:
  assumes "RecordURI sx t c k = Inr uri"
  shows "uri = tg_SpaceURI t @ ''/'' @ tg_RepoDID t @ ''/'' @ c @ ''/'' @ k"
    and "ValidateFor sx t (tg_RepoDID t) = Inr ()" and "sx_ParseNSID sx c" and "sx_ParseRecordKey sx k"
    and "sx_ParseDID sx (tg_RepoDID t) \<noteq> None"
  using assms by (auto simp: RecordURI_def split: if_splits elim!: ValidateFor_shape)

section \<open>What callers rely on\<close>

text \<open>
  A caller that reads and compare-and-swaps records of one target relies on this
  contract: \<open>view s c k\<close> is the record the caller sees in provider state \<open>s\<close>, \<open>inv\<close> holds of
  the states in which the caller is authorised for the target.
\<close>

locale cas_repository =
  fixes repo :: "'s Repository"
    and target :: Target
    and inv :: "'s \<Rightarrow> bool"
    and view :: "'s \<Rightarrow> bytes \<Rightarrow> bytes \<Rightarrow> Record option"
  assumes capabilities:
      "inv s \<Longrightarrow> \<exists>c. rp_Capabilities repo s = (Inr c, s) \<and> cp_CompareAndSwap c"
    and get_record:
      "inv s \<Longrightarrow> rp_GetRecord repo target c k s =
         ((case view s c k of None \<Rightarrow> Inl ErrNotFound | Some r \<Rightarrow> Inr r), s)"
    and view_rkey: "inv s \<Longrightarrow> view s c k = Some r \<Longrightarrow> rc_RKey r = k"
    and view_cid: "inv s \<Longrightarrow> view s c k = Some r \<Longrightarrow> rc_CID r \<noteq> []"
    and cas_conflict:
      "inv s \<Longrightarrow> view s c k = None \<or> cid = [] \<or> rc_CID (the (view s c k)) \<noteq> cid \<Longrightarrow>
         rp_PutRecordCAS repo target c k v cid s = (Inl ErrConflict, s)"
    and cas_fails: "inv s \<Longrightarrow> rp_PutRecordCAS repo target c k v cid s = (Inl e, s') \<Longrightarrow> s' = s"
    and cas_succeeds:
      "inv s \<Longrightarrow> rp_PutRecordCAS repo target c k v cid s = (Inr r, s') \<Longrightarrow>
         inv s' \<and> v = AnyJSON (rc_Value r) \<and> view s' c k = Some r
         \<and> (\<forall>c' k'. (c', k') \<noteq> (c, k) \<longrightarrow> view s' c' k' = view s c' k')"
begin

lemma cas_success_matches:
  assumes "inv s" and "rp_PutRecordCAS repo target c k v cid s = (Inr r, s')"
  shows "\<exists>old. view s c k = Some old \<and> rc_CID old = cid"
  using cas_conflict[OF assms(1), of c k cid v] assms(2) by (cases "view s c k") auto

text \<open>
  Of two swaps from the same content identifier, the second loses unless the first
  left the record with the very same identifier.
\<close>

lemma cas_second_conflicts:
  assumes "inv s" and "rp_PutRecordCAS repo target c k v cid s = (Inr r, s')" and "rc_CID r \<noteq> cid"
  shows "rp_PutRecordCAS repo target c k w cid s' = (Inl ErrConflict, s')"
  using cas_succeeds[OF assms(1,2)] assms(3) by (auto intro!: cas_conflict)

end

text \<open>
  A provider that also makes progress: a swap whose expected identifier matches and
  whose value is a document without blob references is carried out.
\<close>

locale live_repository = cas_repository +
  assumes cas_live:
    "inv s \<Longrightarrow> view s c k = Some old \<Longrightarrow> blob_free j \<Longrightarrow>
       \<exists>r s'. rp_PutRecordCAS repo target c k (AnyJSON j) (rc_CID old) s = (Inr r, s')"
begin

lemma cas_live_outcome:
  assumes "inv s" and "view s c k = Some old" and "blob_free j"
  obtains r s' where "rp_PutRecordCAS repo target c k (AnyJSON j) (rc_CID old) s = (Inr r, s')"
    and "rc_Value r = j" and "inv s'" and "view s' c k = Some r"
    and "\<And>c' k'. (c', k') \<noteq> (c, k) \<Longrightarrow> view s' c' k' = view s c' k'"
proof -
  obtain r s' where run: "rp_PutRecordCAS repo target c k (AnyJSON j) (rc_CID old) s = (Inr r, s')"
    using cas_live[OF assms] by blast
  from cas_succeeds[OF assms(1) run] run show thesis by (intro that[of r s']) auto
qed

end

section \<open>Properties\<close>

text \<open>Record addresses are unambiguous: an address that is built for a collection and a key of
  a target is accepted for that target, collection and key, and for no other collection or
  key of the target.\<close>

theorem RecordURI_round_trip:
  assumes "syntax_laws sx" and "RecordURI sx t c k = Inr uri"
  shows "ValidateRecordURI sx t uri c' k' = Inr () \<longleftrightarrow> c' = c \<and> k' = k"
proof -
  note built = RecordURI_accepts[OF assms(2)]
  have slash: "CHR ''/'' \<notin> set x" if "sx_ParseDID sx x \<noteq> None \<or> sx_ParseNSID sx x \<or> sx_ParseRecordKey sx x" for x
    using assms(1) that by (auto simp: syntax_laws_def)
  have "c' = c \<and> k' = k" if "sx_ParseDID sx author \<noteq> None" "sx_ParseNSID sx c'" "sx_ParseRecordKey sx k'"
    and "uri = tg_SpaceURI t @ ''/'' @ author @ ''/'' @ c' @ ''/'' @ k'" for author
    using that built slash[of author] slash[of c'] slash[of c] slash[of "tg_RepoDID t"] by (auto simp: terminated_inj)
  moreover have "ValidateRecordURI sx t uri c k = Inr ()"
    using built by (subst ValidateRecordURI_accepts[OF assms(1)]) auto
  ultimately show ?thesis by (auto simp: ValidateRecordURI_accepts[OF assms(1)])
qed

definition demo_uri_target :: Target where
  "demo_uri_target = \<lparr>tg_ProviderOrigin = ''https://p'', tg_SpaceURI = ''at://did:a/space/email.atmos.mailbox/m'',
     tg_RepoDID = ''did:a'', tg_Epoch = ''1''\<rparr>"

theorem RecordURI_round_trip_witness:
  "RecordURI plain_syntax demo_uri_target ''c'' ''k'' = Inr ''at://did:a/space/email.atmos.mailbox/m/did:a/c/k''
    \<and> (ValidateRecordURI plain_syntax demo_uri_target ''at://did:a/space/email.atmos.mailbox/m/did:a/c/k'' ''c'' ''j'' = Inr ()
        \<longleftrightarrow> ''c'' = ''c'' \<and> ''j'' = ''k'')"
proof -
  have "RecordURI plain_syntax demo_uri_target ''c'' ''k'' = Inr ''at://did:a/space/email.atmos.mailbox/m/did:a/c/k''"
    by code_simp
  with RecordURI_round_trip[OF plain_syntax_laws this, of "''c''" "''j''"] show ?thesis by simp
qed

end
