(* ===== verification/Memory.thy ===== *)
theory Memory
  imports Repository
begin

text \<open>
  Package \<^verbatim>\<open>memory\<close> (\<^verbatim>\<open>internal/memory/repository.go\<close>): the in-memory provider of the
  repository interface. Its state is a \<open>Backend\<close> of spaces and uploaded blobs; every
  operation of a \<open>Session\<close> runs under the backend's lock, so it is one function from a
  backend to a result and a backend, and concurrent clients are sequences of such
  steps. The central invariant is the reference count: the count kept for a blob is
  the number of times live records refer to it.
\<close>

section \<open>State\<close>

record storedRecord =
  sr_uri :: bytes
  sr_cid :: bytes
  sr_value :: json

record spaceState =
  sp_target :: Target
  sp_records :: "storedRecord gomap gomap gomap"
  sp_blobRefs :: "int gomap gomap"
  sp_rev :: u64

record Backend =
  bk_spaces :: "spaceState gomap"
  bk_blobs :: "bytes gomap gomap"

definition NewBackend :: Backend where
  "NewBackend = \<lparr>bk_spaces = [], bk_blobs = []\<rparr>"

text \<open>\<open>ss_attached\<close>: the session and its backend are not nil.\<close>

record Session =
  ss_attached :: bool
  ss_did :: bytes
  ss_credentialSpace :: bytes
  ss_owner :: bool
  ss_revoked :: bool

definition OwnerSession :: "bytes \<Rightarrow> Session" where
  "OwnerSession did = \<lparr>ss_attached = True, ss_did = did, ss_credentialSpace = [], ss_owner = True, ss_revoked = False\<rparr>"

definition SpaceCredentialSession :: "bytes \<Rightarrow> bytes \<Rightarrow> Session" where
  "SpaceCredentialSession did spaceURI =
     \<lparr>ss_attached = True, ss_did = did, ss_credentialSpace = spaceURI, ss_owner = False, ss_revoked = False\<rparr>"

definition Revoke :: "Session \<Rightarrow> Session" where
  "Revoke s = s\<lparr>ss_revoked := True\<rparr>"

definition checkActive :: "Session \<Rightarrow> unit result" where
  "checkActive s =
     (if \<not> ss_attached s then Inl ErrUnauthorized else if ss_revoked s then Inl ErrRevoked else Inr ())"

definition lookupRecord :: "spaceState \<Rightarrow> bytes \<Rightarrow> bytes \<Rightarrow> bytes \<Rightarrow> storedRecord option" where
  "lookupRecord sp repo collection rkey = map_of (inner (inner (sp_records sp) repo) collection) rkey"

definition exportRecord :: "bytes \<Rightarrow> bytes \<Rightarrow> storedRecord \<Rightarrow> WriteResult \<Rightarrow> Record" where
  "exportRecord collection rkey r result =
     \<lparr>rc_URI = (if wres_URI result \<noteq> [] then wres_URI result else sr_uri r),
      rc_Collection = collection, rc_RKey = rkey,
      rc_CID = (if wres_CID result \<noteq> [] then wres_CID result else sr_cid r),
      rc_Value = sr_value r\<rparr>"

definition no_result :: WriteResult where
  "no_result = \<lparr>wres_URI = [], wres_CID = []\<rparr>"

section \<open>Names\<close>

definition validCollection :: "bytes \<Rightarrow> bool" where
  "validCollection v = (2 \<le> count_list v CHR ''.'' \<and> \<not> contains_any v ''/?# '')"

definition key_char :: "char \<Rightarrow> bool" where
  "key_char c = (let n = byte c in (97 \<le> n \<and> n \<le> 122) \<or> (65 \<le> n \<and> n \<le> 90) \<or> (48 \<le> n \<and> n \<le> 57) \<or> c \<in> set ''._~:-'')"

definition validKey :: "bytes \<Rightarrow> bool" where
  "validKey v = (v \<noteq> [] \<and> length v \<le> 512 \<and> v \<noteq> ''.'' \<and> v \<noteq> ''..'' \<and> list_all key_char v)"

section \<open>Blob references\<close>

text \<open>The reference an object holds itself, if it is a blob.\<close>

definition own_blob_cid :: "(bytes \<times> json) list \<Rightarrow> bytes list result" where
  "own_blob_cid ms =
     (if map_of ms ''$type'' = Some (JStr ''blob'') then
        (case map_of ms ''ref'' of
           Some (JObj ref) \<Rightarrow>
             (case map_of ref ''$link'' of
                Some (JStr cid) \<Rightarrow> if cid = [] then Inl ErrInvalidRecord else Inr [cid]
              | _ \<Rightarrow> Inl ErrInvalidRecord)
         | _ \<Rightarrow> Inl ErrInvalidRecord)
      else Inr [])"

fun walk :: "json \<Rightarrow> bytes list result"
  and walk_members :: "(bytes \<times> json) list \<Rightarrow> bytes list result"
  and walk_list :: "json list \<Rightarrow> bytes list result" where
  "walk (JObj ms) =
     (case own_blob_cid ms of Inl e \<Rightarrow> Inl e | Inr own \<Rightarrow>
       (case walk_members ms of Inl e \<Rightarrow> Inl e | Inr cs \<Rightarrow> Inr (own @ cs)))"
| "walk (JArr xs) = walk_list xs"
| "walk j = Inr []"
| "walk_members [] = Inr []"
| "walk_members ((k, v) # ms) =
     (case walk v of Inl e \<Rightarrow> Inl e | Inr cs \<Rightarrow>
       (case walk_members ms of Inl e \<Rightarrow> Inl e | Inr ds \<Rightarrow> Inr (cs @ ds)))"
| "walk_list [] = Inr []"
| "walk_list (v # vs) =
     (case walk v of Inl e \<Rightarrow> Inl e | Inr cs \<Rightarrow>
       (case walk_list vs of Inl e \<Rightarrow> Inl e | Inr ds \<Rightarrow> Inr (cs @ ds)))"

definition findBlobCIDs :: "json \<Rightarrow> bytes list result" where
  "findBlobCIDs v = walk v"

definition incr_ref :: "bytes \<Rightarrow> int gomap \<Rightarrow> int gomap" where
  "incr_ref cid m = AList.update cid ((case map_of m cid of None \<Rightarrow> 0 | Some n \<Rightarrow> n) + 1) m"

definition decr_ref :: "bytes \<Rightarrow> int gomap \<Rightarrow> int gomap" where
  "decr_ref cid m =
     (let n = (case map_of m cid of None \<Rightarrow> 0 | Some n \<Rightarrow> n) - 1
      in if n \<le> 0 then AList.delete cid m else AList.update cid n m)"

definition addBlobRefs :: "spaceState \<Rightarrow> bytes \<Rightarrow> bytes list \<Rightarrow> spaceState" where
  "addBlobRefs sp repo cids =
     sp\<lparr>sp_blobRefs := AList.update repo (foldl (\<lambda>m c. incr_ref c m) (inner (sp_blobRefs sp) repo) cids) (sp_blobRefs sp)\<rparr>"

text \<open>
  The references a record held: an undecodable value holds none. Go would panic on a
  count in a nil map; \<open>removeBlobRefs_map_present\<close> below shows that the map is there
  whenever the record refers to a blob.
\<close>

definition removeBlobRefs :: "spaceState \<Rightarrow> bytes \<Rightarrow> json \<Rightarrow> spaceState" where
  "removeBlobRefs sp repo v =
     (let cids = (case findBlobCIDs v of Inl e \<Rightarrow> [] | Inr cs \<Rightarrow> cs) in
      if cids = [] then sp
      else sp\<lparr>sp_blobRefs := AList.update repo (foldl (\<lambda>m c. decr_ref c m) (inner (sp_blobRefs sp) repo) cids) (sp_blobRefs sp)\<rparr>)"

definition recordCID :: "json \<Rightarrow> bytes" where
  "recordCID v = ''bafy-lab-record-'' @ hex_encode (sha256 (json_text v))"

definition blobCID :: "bytes \<Rightarrow> bytes" where
  "blobCID data = ''bafk-lab-sha256-'' @ hex_encode (sha256 data)"

definition spaceHash :: "spaceState \<Rightarrow> bytes" where
  "spaceHash sp =
     (let entries = concat (map (\<lambda>(repo, cs). concat (map (\<lambda>(c, rs). map (\<lambda>(k, r).
            repo @ [CHR 0x00] @ c @ [CHR 0x00] @ k @ [CHR 0x00] @ sr_cid r) rs) cs)) (sp_records sp))
      in hex_encode (sha256 (intercalate [CHR 0x0A] (sort entries))))"

section \<open>One write\<close>

definition put_record :: "spaceState \<Rightarrow> bytes \<Rightarrow> bytes \<Rightarrow> bytes \<Rightarrow> storedRecord \<Rightarrow> spaceState" where
  "put_record sp repo c k r =
     (let rs = inner (sp_records sp) repo in
      sp\<lparr>sp_records := AList.update repo (AList.update c (AList.update k r (inner rs c)) rs) (sp_records sp)\<rparr>)"

definition delete_record :: "spaceState \<Rightarrow> bytes \<Rightarrow> bytes \<Rightarrow> bytes \<Rightarrow> spaceState" where
  "delete_record sp repo c k =
     (let rs = inner (sp_records sp) repo in
      sp\<lparr>sp_records := AList.update repo (AList.update c (AList.delete k (inner rs c)) rs) (sp_records sp)\<rparr>)"

definition marshal :: "any_value \<Rightarrow> json result" where
  "marshal v = (case v of AnyJSON j \<Rightarrow> Inr j | AnyUnencodable \<Rightarrow> Inl (ErrOther ''marshal record''))"

text \<open>The part shared by creation and update, once the preconditions of the action hold.\<close>

definition store_value :: "Backend \<Rightarrow> spaceState \<Rightarrow> Target \<Rightarrow> Write \<Rightarrow> storedRecord option \<Rightarrow> (WriteResult \<times> spaceState) result" where
  "store_value b sp t w existing =
     (let repo = tg_RepoDID t in
      case marshal (wr_Value w) of Inl e \<Rightarrow> Inl e | Inr v \<Rightarrow>
      (case findBlobCIDs v of Inl e \<Rightarrow> Inl e | Inr cids \<Rightarrow>
       if list_ex (\<lambda>cid. map_of (inner (bk_blobs b) repo) cid = None) cids then Inl ErrNotFound
       else (let sp1 = (case existing of None \<Rightarrow> sp | Some old \<Rightarrow> removeBlobRefs sp repo (sr_value old));
                 sp2 = addBlobRefs sp1 repo cids;
                 uri = tg_SpaceURI t @ ''/'' @ repo @ ''/'' @ wr_Collection w @ ''/'' @ wr_RKey w;
                 cid = recordCID v
             in Inr (\<lparr>wres_URI = uri, wres_CID = cid\<rparr>,
                  put_record sp2 repo (wr_Collection w) (wr_RKey w) \<lparr>sr_uri = uri, sr_cid = cid, sr_value = v\<rparr>))))"

definition applyOneLocked :: "Backend \<Rightarrow> spaceState \<Rightarrow> Target \<Rightarrow> Write \<Rightarrow> (WriteResult \<times> spaceState) result" where
  "applyOneLocked b sp t w =
     (let repo = tg_RepoDID t; existing = lookupRecord sp repo (wr_Collection w) (wr_RKey w) in
      if \<not> validCollection (wr_Collection w) \<or> \<not> validKey (wr_RKey w) then Inl ErrInvalidRecord
      else (case wr_Action w of
        Create \<Rightarrow>
          if wr_SwapCID w \<noteq> [] then Inl ErrInvalidRecord
          else if existing \<noteq> None then Inl ErrExists
          else store_value b sp t w existing
      | Update \<Rightarrow>
          (case existing of None \<Rightarrow> Inl ErrNotFound | Some old \<Rightarrow>
            if wr_SwapCID w \<noteq> [] \<and> sr_cid old \<noteq> wr_SwapCID w then Inl ErrConflict
            else store_value b sp t w existing)
      | Delete \<Rightarrow>
          (case existing of None \<Rightarrow> Inl ErrNotFound | Some old \<Rightarrow>
            if wr_SwapCID w \<noteq> [] \<and> sr_cid old \<noteq> wr_SwapCID w then Inl ErrConflict
            else Inr (no_result,
              delete_record (removeBlobRefs sp repo (sr_value old)) repo (wr_Collection w) (wr_RKey w)))
      | OtherAction a \<Rightarrow> Inl ErrInvalidRecord))"

fun applyAllLocked :: "Backend \<Rightarrow> spaceState \<Rightarrow> Target \<Rightarrow> Write list \<Rightarrow> (WriteResult list \<times> spaceState) result" where
  "applyAllLocked b sp t [] = Inr ([], sp)"
| "applyAllLocked b sp t (w # ws) =
     (case applyOneLocked b sp t w of Inl e \<Rightarrow> Inl e | Inr (r, sp') \<Rightarrow>
       (case applyAllLocked b sp' t ws of Inl e \<Rightarrow> Inl e | Inr (rs, sp'') \<Rightarrow> Inr (r # rs, sp'')))"

section \<open>Authorisation\<close>

definition authWriteLocked :: "Session \<Rightarrow> Target \<Rightarrow> Backend \<Rightarrow> spaceState result" where
  "authWriteLocked s t b =
     (if \<not> ss_owner s \<or> tg_RepoDID t \<noteq> ss_did s then Inl ErrUnauthorized
      else (case map_of (bk_spaces b) (tg_SpaceURI t) of None \<Rightarrow> Inl ErrNotFound | Some sp \<Rightarrow>
        if sp_target sp \<noteq> t \<or> \<not> has_prefix (tg_SpaceURI t) (''at://'' @ ss_did s @ ''/space/'') then Inl ErrTarget
        else Inr sp))"

definition authReadLocked :: "Session \<Rightarrow> Target \<Rightarrow> Backend \<Rightarrow> spaceState result" where
  "authReadLocked s t b =
     (case map_of (bk_spaces b) (tg_SpaceURI t) of None \<Rightarrow> Inl ErrNotFound | Some sp \<Rightarrow>
        if sp_target sp \<noteq> t then Inl ErrTarget
        else if ss_owner s \<and> tg_RepoDID t = ss_did s then Inr sp
        else if ss_credentialSpace s = tg_SpaceURI t then Inr sp
        else Inl ErrUnauthorized)"

section \<open>The operations of a session\<close>

definition mem_Capabilities :: "Session \<Rightarrow> Backend \<Rightarrow> Capabilities result \<times> Backend" where
  "mem_Capabilities s b =
     (case checkActive s of Inl e \<Rightarrow> (Inl e, b) | Inr _ \<Rightarrow>
       (Inr \<lparr>cp_AtomicApplyWrites = True, cp_CompareAndSwap = True, cp_ReferencedBlobs = True,
             cp_RepoOplog = False, cp_CARExport = False, cp_Notifications = False\<rparr>, b))"

definition memory_target :: "bytes \<Rightarrow> bytes \<Rightarrow> Target" where
  "memory_target recipientDID key =
     \<lparr>tg_ProviderOrigin = ''memory://local'',
      tg_SpaceURI = ''at://'' @ recipientDID @ ''/space/'' @ MailboxSpaceType @ ''/'' @ key,
      tg_RepoDID = recipientDID, tg_Epoch = ''memory-v1''\<rparr>"

definition mem_EnsureMailbox :: "Session \<Rightarrow> bytes \<Rightarrow> bytes \<Rightarrow> Backend \<Rightarrow> Target result \<times> Backend" where
  "mem_EnsureMailbox s recipientDID key b =
     (case checkActive s of Inl e \<Rightarrow> (Inl e, b) | Inr _ \<Rightarrow>
       if \<not> ss_owner s \<or> recipientDID = [] \<or> recipientDID \<noteq> ss_did s then (Inl ErrUnauthorized, b)
       else if \<not> validKey key then (Inl ErrTarget, b)
       else (let t = memory_target recipientDID key; uri = tg_SpaceURI t in
         case map_of (bk_spaces b) uri of
           Some existing \<Rightarrow> if sp_target existing \<noteq> t then (Inl ErrTarget, b) else (Inr t, b)
         | None \<Rightarrow> (Inr t, b\<lparr>bk_spaces := AList.update uri
             \<lparr>sp_target = t, sp_records = [], sp_blobRefs = [], sp_rev = 0\<rparr> (bk_spaces b)\<rparr>)))"

definition mem_UploadBlob :: "Session \<Rightarrow> Target \<Rightarrow> bytes \<Rightarrow> bytes \<Rightarrow> Backend \<Rightarrow> BlobRef result \<times> Backend" where
  "mem_UploadBlob s t data mimeType b =
     (case checkActive s of Inl e \<Rightarrow> (Inl e, b) | Inr _ \<Rightarrow>
       if mimeType = [] \<or> length data = 0 then (Inl ErrInvalidRecord, b)
       else (case authWriteLocked s t b of Inl e \<Rightarrow> (Inl e, b) | Inr _ \<Rightarrow>
         (let cid = blobCID data; repo = tg_RepoDID t in
          (Inr \<lparr>br_Type = ''blob'', br_Link = cid, br_MIMEType = mimeType, br_Size = int (length data)\<rparr>,
           b\<lparr>bk_blobs := AList.update repo (AList.update cid data (inner (bk_blobs b) repo)) (bk_blobs b)\<rparr>))))"

definition mem_ApplyWrites :: "Session \<Rightarrow> Target \<Rightarrow> Write list \<Rightarrow> Backend \<Rightarrow> Commit result \<times> Backend" where
  "mem_ApplyWrites s t writes b =
     (case checkActive s of Inl e \<Rightarrow> (Inl e, b) | Inr _ \<Rightarrow>
       if length writes = 0 then (Inl ErrInvalidRecord, b)
       else (case authWriteLocked s t b of Inl e \<Rightarrow> (Inl e, b) | Inr sp \<Rightarrow>
         (case applyAllLocked b sp t writes of Inl e \<Rightarrow> (Inl e, b) | Inr (results, next) \<Rightarrow>
           (let next' = next\<lparr>sp_rev := sp_rev next + 1\<rparr> in
            (Inr \<lparr>cm_Rev = ''mem-'' @ nat_dec (unat (sp_rev next')), cm_Hash = spaceHash next', cm_Results = results\<rparr>,
             b\<lparr>bk_spaces := AList.update (tg_SpaceURI t) next' (bk_spaces b)\<rparr>)))))"

definition mem_PutRecordCAS ::
  "Session \<Rightarrow> Target \<Rightarrow> bytes \<Rightarrow> bytes \<Rightarrow> any_value \<Rightarrow> bytes \<Rightarrow> Backend \<Rightarrow> Record result \<times> Backend" where
  "mem_PutRecordCAS s t c k v expectedCID b =
     (case checkActive s of Inl e \<Rightarrow> (Inl e, b) | Inr _ \<Rightarrow>
       (case authWriteLocked s t b of Inl e \<Rightarrow> (Inl e, b) | Inr sp \<Rightarrow>
         (case lookupRecord sp (tg_RepoDID t) c k of None \<Rightarrow> (Inl ErrConflict, b) | Some current \<Rightarrow>
           if expectedCID = [] \<or> sr_cid current \<noteq> expectedCID then (Inl ErrConflict, b)
           else (case applyOneLocked b sp t
                  \<lparr>wr_Action = Update, wr_Collection = c, wr_RKey = k, wr_Value = v, wr_SwapCID = expectedCID\<rparr> of
               Inl e \<Rightarrow> (Inl e, b)
             | Inr (result, next) \<Rightarrow>
               (let next' = next\<lparr>sp_rev := sp_rev next + 1\<rparr>;
                    r = (case lookupRecord next' (tg_RepoDID t) c k of
                           None \<Rightarrow> \<lparr>sr_uri = [], sr_cid = [], sr_value = JNull\<rparr> | Some r \<Rightarrow> r)
                in (Inr (exportRecord c k r result),
                    b\<lparr>bk_spaces := AList.update (tg_SpaceURI t) next' (bk_spaces b)\<rparr>))))))"

definition mem_GetRecord :: "Session \<Rightarrow> Target \<Rightarrow> bytes \<Rightarrow> bytes \<Rightarrow> Backend \<Rightarrow> Record result \<times> Backend" where
  "mem_GetRecord s t c k b =
     (case checkActive s of Inl e \<Rightarrow> (Inl e, b) | Inr _ \<Rightarrow>
       (case authReadLocked s t b of Inl e \<Rightarrow> (Inl e, b) | Inr sp \<Rightarrow>
         (case lookupRecord sp (tg_RepoDID t) c k of
            None \<Rightarrow> (Inl ErrNotFound, b)
          | Some r \<Rightarrow> (Inr (exportRecord c k r no_result), b))))"

definition mem_ListRecords :: "Session \<Rightarrow> Target \<Rightarrow> bytes \<Rightarrow> Backend \<Rightarrow> Record list result \<times> Backend" where
  "mem_ListRecords s t c b =
     (case checkActive s of Inl e \<Rightarrow> (Inl e, b) | Inr _ \<Rightarrow>
       (case authReadLocked s t b of Inl e \<Rightarrow> (Inl e, b) | Inr sp \<Rightarrow>
         (let rs = inner (inner (sp_records sp) (tg_RepoDID t)) c in
          (Inr (map (\<lambda>k. exportRecord c k (the (map_of rs k)) no_result) (sort (keys rs))), b))))"

definition mem_GetBlob :: "Session \<Rightarrow> Target \<Rightarrow> bytes \<Rightarrow> Backend \<Rightarrow> bytes result \<times> Backend" where
  "mem_GetBlob s t cid b =
     (case checkActive s of Inl e \<Rightarrow> (Inl e, b) | Inr _ \<Rightarrow>
       (case authReadLocked s t b of Inl e \<Rightarrow> (Inl e, b) | Inr sp \<Rightarrow>
         if (case map_of (inner (sp_blobRefs sp) (tg_RepoDID t)) cid of None \<Rightarrow> 0 | Some n \<Rightarrow> n) \<le> 0
         then (Inl ErrNotFound, b)
         else (case map_of (inner (bk_blobs b) (tg_RepoDID t)) cid of
            None \<Rightarrow> (Inl ErrNotFound, b) | Some data \<Rightarrow> (Inr data, b))))"

text \<open>A session as a repository.\<close>

definition memory_repo :: "Session \<Rightarrow> Backend Repository" where
  "memory_repo s = \<lparr>rp_ProviderID = ''memory-v1'', rp_Capabilities = mem_Capabilities s,
     rp_EnsureMailbox = mem_EnsureMailbox s, rp_UploadBlob = mem_UploadBlob s,
     rp_ApplyWrites = mem_ApplyWrites s, rp_PutRecordCAS = mem_PutRecordCAS s,
     rp_GetRecord = mem_GetRecord s, rp_ListRecords = mem_ListRecords s, rp_GetBlob = mem_GetBlob s\<rparr>"

section \<open>Reference counting\<close>

definition rec_refs :: "storedRecord \<Rightarrow> bytes list" where
  "rec_refs r = (case findBlobCIDs (sr_value r) of Inl e \<Rightarrow> [] | Inr cs \<Rightarrow> cs)"

text \<open>How often the live records of a repository refer to a blob.\<close>

definition coll_weight :: "bytes \<Rightarrow> storedRecord gomap \<Rightarrow> int" where
  "coll_weight cid rs = (\<Sum>x\<leftarrow>rs. int (count_list (rec_refs (snd x)) cid))"

definition repo_weight :: "bytes \<Rightarrow> storedRecord gomap gomap \<Rightarrow> int" where
  "repo_weight cid cs = (\<Sum>x\<leftarrow>cs. coll_weight cid (snd x))"

definition blob_weight :: "spaceState \<Rightarrow> bytes \<Rightarrow> bytes \<Rightarrow> int" where
  "blob_weight sp repo cid = repo_weight cid (inner (sp_records sp) repo)"

text \<open>The count the space keeps.\<close>

definition count_of :: "int gomap \<Rightarrow> bytes \<Rightarrow> int" where
  "count_of m cid = (case map_of m cid of None \<Rightarrow> 0 | Some n \<Rightarrow> n)"

definition ref_count :: "spaceState \<Rightarrow> bytes \<Rightarrow> bytes \<Rightarrow> int" where
  "ref_count sp repo cid = count_of (inner (sp_blobRefs sp) repo) cid"

definition maps_wf :: "spaceState \<Rightarrow> bool" where
  "maps_wf sp \<longleftrightarrow> distinct (keys (sp_records sp))
     \<and> (\<forall>repo. distinct (keys (inner (sp_records sp) repo)))
     \<and> (\<forall>repo c. distinct (keys (inner (inner (sp_records sp) repo) c)))"

definition refs_exact :: "spaceState \<Rightarrow> bool" where
  "refs_exact sp \<longleftrightarrow> (\<forall>repo cid. ref_count sp repo cid = blob_weight sp repo cid)"

lemma count_of_incr: "count_of (incr_ref c m) cid = count_of m cid + (if cid = c then 1 else 0)"
  by (simp add: count_of_def incr_ref_def)

lemma count_of_foldl_incr:
  "count_of (foldl (\<lambda>m c. incr_ref c m) m cids) cid = count_of m cid + int (count_list cids cid)"
  by (induction cids arbitrary: m) (auto simp: count_of_incr)

lemma count_of_decr:
  "1 \<le> count_of m c \<Longrightarrow> count_of (decr_ref c m) cid = count_of m cid - (if cid = c then 1 else 0)"
  by (auto simp: count_of_def decr_ref_def Let_def)

lemma count_of_foldl_decr:
  "(\<And>c. int (count_list cids c) \<le> count_of m c) \<Longrightarrow>
     count_of (foldl (\<lambda>m c. decr_ref c m) m cids) cid = count_of m cid - int (count_list cids cid)"
proof (induction cids arbitrary: m)
  case (Cons a cids)
  have one: "1 \<le> count_of m a" using Cons.prems[of a] by simp
  have le: "int (count_list cids c) \<le> count_of (decr_ref a m) c" for c
    using Cons.prems[of c] by (auto simp: count_of_decr[OF one])
  show ?case
    using Cons.IH[of "decr_ref a m", OF le] by (simp add: count_of_decr[OF one])
qed simp

lemma coll_weight_nonneg: "0 \<le> coll_weight cid rs"
  unfolding coll_weight_def by (intro sum_list_nonneg) auto

lemma repo_weight_nonneg: "0 \<le> repo_weight cid cs"
  unfolding repo_weight_def by (intro sum_list_nonneg) (auto simp: coll_weight_nonneg)

lemma coll_weight_member:
  assumes "map_of rs k = Some r" and "distinct (keys rs)"
  shows "int (count_list (rec_refs r) cid) \<le> coll_weight cid rs"
  using sum_list_delete[OF assms(2), of "\<lambda>x. int (count_list (rec_refs (snd x)) cid)" k] assms(1)
    coll_weight_nonneg[of cid "AList.delete k rs"]
  by (simp add: coll_weight_def)

lemma repo_weight_inner:
  assumes "distinct (keys cs)"
  shows "repo_weight cid (AList.update c rs cs) = repo_weight cid cs - coll_weight cid (inner cs c) + coll_weight cid rs"
  using sum_list_update[OF assms, of "\<lambda>x. coll_weight cid (snd x)" c rs]
  by (auto simp: repo_weight_def inner_def coll_weight_def split: option.splits)

lemma repo_weight_member:
  assumes "distinct (keys cs)"
  shows "coll_weight cid (inner cs c) \<le> repo_weight cid cs"
  using repo_weight_inner[OF assms, of cid c "[]"] repo_weight_nonneg[of cid "AList.update c [] cs"]
  by (simp add: coll_weight_def)

text \<open>The references of one record are among the references counted.\<close>

lemma record_refs_counted:
  assumes "maps_wf sp" and "lookupRecord sp repo c k = Some r"
  shows "int (count_list (rec_refs r) cid) \<le> blob_weight sp repo cid"
proof -
  have "int (count_list (rec_refs r) cid) \<le> coll_weight cid (inner (inner (sp_records sp) repo) c)"
    using assms by (intro coll_weight_member) (auto simp: lookupRecord_def maps_wf_def)
  also have "\<dots> \<le> blob_weight sp repo cid"
    using assms(1) by (auto simp: blob_weight_def maps_wf_def intro: repo_weight_member)
  finally show ?thesis .
qed

definition old_refs :: "spaceState \<Rightarrow> bytes \<Rightarrow> bytes \<Rightarrow> bytes \<Rightarrow> bytes list" where
  "old_refs sp repo c k = (case lookupRecord sp repo c k of None \<Rightarrow> [] | Some r \<Rightarrow> rec_refs r)"

lemma blob_weight_put:
  assumes "maps_wf sp"
  shows "blob_weight (put_record sp repo c k r) repo' cid = blob_weight sp repo' cid
    + (if repo' = repo then int (count_list (rec_refs r) cid) - int (count_list (old_refs sp repo c k) cid) else 0)"
  using assms sum_list_update[of "inner (inner (sp_records sp) repo) c"
      "\<lambda>x. int (count_list (rec_refs (snd x)) cid)" k r]
  by (auto simp: blob_weight_def put_record_def Let_def maps_wf_def repo_weight_inner coll_weight_def
      old_refs_def lookupRecord_def split: option.splits)

lemma blob_weight_delete:
  assumes "maps_wf sp"
  shows "blob_weight (delete_record sp repo c k) repo' cid = blob_weight sp repo' cid
    - (if repo' = repo then int (count_list (old_refs sp repo c k) cid) else 0)"
  using assms sum_list_delete[of "inner (inner (sp_records sp) repo) c"
      "\<lambda>x. int (count_list (rec_refs (snd x)) cid)" k]
  by (auto simp: blob_weight_def delete_record_def Let_def maps_wf_def repo_weight_inner coll_weight_def
      old_refs_def lookupRecord_def split: option.splits)

lemma ref_count_put [simp]: "ref_count (put_record sp repo c k r) = ref_count sp"
  "ref_count (delete_record sp repo c k) = ref_count sp"
  by (auto simp: ref_count_def put_record_def delete_record_def Let_def fun_eq_iff)

lemma ref_count_add:
  "ref_count (addBlobRefs sp repo cids) repo' cid =
     ref_count sp repo' cid + (if repo' = repo then int (count_list cids cid) else 0)"
  by (simp add: ref_count_def addBlobRefs_def count_of_foldl_incr)

lemma ref_count_remove:
  assumes "\<And>c. int (count_list (case findBlobCIDs v of Inl e \<Rightarrow> [] | Inr cs \<Rightarrow> cs) c) \<le> ref_count sp repo c"
  shows "ref_count (removeBlobRefs sp repo v) repo' cid = ref_count sp repo' cid
    - (if repo' = repo then int (count_list (case findBlobCIDs v of Inl e \<Rightarrow> [] | Inr cs \<Rightarrow> cs) cid) else 0)"
  using assms by (auto simp: ref_count_def removeBlobRefs_def Let_def count_of_foldl_decr)

lemma records_unchanged [simp]:
  "sp_records (addBlobRefs sp repo cids) = sp_records sp" "sp_target (addBlobRefs sp repo cids) = sp_target sp"
  "sp_records (removeBlobRefs sp repo v) = sp_records sp" "sp_target (removeBlobRefs sp repo v) = sp_target sp"
  "sp_target (put_record sp repo c k r) = sp_target sp" "sp_target (delete_record sp repo c k) = sp_target sp"
  by (simp_all add: addBlobRefs_def removeBlobRefs_def put_record_def delete_record_def Let_def)

lemma lookup_put [simp]:
  "lookupRecord (put_record sp repo c k r) repo' c' k' =
     (if repo' = repo \<and> c' = c \<and> k' = k then Some r else lookupRecord sp repo' c' k')"
  by (auto simp: lookupRecord_def put_record_def Let_def)

lemma lookup_delete [simp]:
  "lookupRecord (delete_record sp repo c k) repo' c' k' =
     (if repo' = repo \<and> c' = c \<and> k' = k then None else lookupRecord sp repo' c' k')"
  by (auto simp: lookupRecord_def delete_record_def Let_def)

lemma lookup_refs [simp]:
  "lookupRecord (addBlobRefs sp repo cids) = lookupRecord sp"
  "lookupRecord (removeBlobRefs sp repo v) = lookupRecord sp"
  "lookupRecord (sp\<lparr>sp_rev := n\<rparr>) = lookupRecord sp"
  by (simp_all add: lookupRecord_def fun_eq_iff)

lemma maps_wf_keep [simp]:
  "maps_wf sp \<Longrightarrow> maps_wf (put_record sp repo c k r)" "maps_wf sp \<Longrightarrow> maps_wf (delete_record sp repo c k)"
  "maps_wf (addBlobRefs sp repo cids) = maps_wf sp" "maps_wf (removeBlobRefs sp repo v) = maps_wf sp"
  "maps_wf (sp\<lparr>sp_rev := n\<rparr>) = maps_wf sp"
  by (auto simp: maps_wf_def put_record_def delete_record_def Let_def)

lemma blob_weight_refs [simp]:
  "blob_weight (addBlobRefs sp repo cids) = blob_weight sp"
  "blob_weight (removeBlobRefs sp repo v) = blob_weight sp"
  "blob_weight (sp\<lparr>sp_rev := n\<rparr>) = blob_weight sp"
  by (simp_all add: blob_weight_def fun_eq_iff)

lemma ref_count_rev [simp]: "ref_count (sp\<lparr>sp_rev := n\<rparr>) = ref_count sp"
  by (simp add: ref_count_def fun_eq_iff)

text \<open>Dropping the references of a stored record takes exactly its own away.\<close>

lemma ref_count_remove_old:
  assumes "maps_wf sp" and "refs_exact sp" and "lookupRecord sp repo c k = Some old"
  shows "ref_count (removeBlobRefs sp repo (sr_value old)) repo' cid = blob_weight sp repo' cid
    - (if repo' = repo then int (count_list (old_refs sp repo c k) cid) else 0)"
proof -
  have "int (count_list (rec_refs old) x) \<le> ref_count sp repo x" for x
    using record_refs_counted[OF assms(1,3), of x] assms(2) by (simp add: refs_exact_def)
  then show ?thesis
    using assms(2,3) by (simp add: ref_count_remove rec_refs_def old_refs_def refs_exact_def)
qed

lemma delete_refs_exact:
  assumes "maps_wf sp" and "refs_exact sp" and "lookupRecord sp repo c k = Some old"
  shows "refs_exact (delete_record (removeBlobRefs sp repo (sr_value old)) repo c k)"
  using ref_count_remove_old[OF assms] assms(1)
  by (auto simp: refs_exact_def blob_weight_delete old_refs_def)

section \<open>The invariant of a space and of a backend\<close>

text \<open>
  A stored record is decodable, its content identifier is the hash of its value, its
  address is inside the space of its target, and the blobs it refers to are uploaded.
\<close>

definition stored_ok :: "Backend \<Rightarrow> Target \<Rightarrow> bytes \<Rightarrow> bytes \<Rightarrow> bytes \<Rightarrow> storedRecord \<Rightarrow> bool" where
  "stored_ok b t repo c k r \<longleftrightarrow> repo = tg_RepoDID t \<and> validCollection c \<and> validKey k
     \<and> sr_cid r = recordCID (sr_value r)
     \<and> sr_uri r = tg_SpaceURI t @ ''/'' @ repo @ ''/'' @ c @ ''/'' @ k
     \<and> (\<exists>cs. findBlobCIDs (sr_value r) = Inr cs)
     \<and> (\<forall>cid \<in> set (rec_refs r). map_of (inner (bk_blobs b) repo) cid \<noteq> None)"

definition space_inv :: "Backend \<Rightarrow> spaceState \<Rightarrow> bool" where
  "space_inv b sp \<longleftrightarrow> maps_wf sp \<and> refs_exact sp
     \<and> (\<forall>repo c k r. lookupRecord sp repo c k = Some r \<longrightarrow> stored_ok b (sp_target sp) repo c k r)"

definition mem_inv :: "Backend \<Rightarrow> bool" where
  "mem_inv b \<longleftrightarrow> distinct (keys (bk_spaces b))
     \<and> (\<forall>uri sp. map_of (bk_spaces b) uri = Some sp \<longrightarrow>
          space_inv b sp \<and> tg_SpaceURI (sp_target sp) = uri
          \<and> has_prefix uri (''at://'' @ tg_RepoDID (sp_target sp) @ ''/space/''))
     \<and> (\<forall>repo cid data. map_of (inner (bk_blobs b) repo) cid = Some data \<longrightarrow> cid = blobCID data \<and> data \<noteq> [])"

lemma put_refs_exact:
  assumes wf: "maps_wf sp" and ex: "refs_exact sp"
    and old: "lookupRecord sp repo c k = existing" and v: "findBlobCIDs v = Inr cids"
  shows "refs_exact (put_record (addBlobRefs
      (case existing of None \<Rightarrow> sp | Some od \<Rightarrow> removeBlobRefs sp repo (sr_value od)) repo cids)
      repo c k \<lparr>sr_uri = u, sr_cid = d, sr_value = v\<rparr>)"
proof (cases existing)
  case None
  with old wf ex v show ?thesis
    by (simp add: refs_exact_def blob_weight_put ref_count_add old_refs_def rec_refs_def)
next
  case (Some od)
  with ref_count_remove_old[OF wf ex] old wf v show ?thesis
    by (simp add: refs_exact_def blob_weight_put ref_count_add old_refs_def rec_refs_def)
qed

lemma store_value_inv:
  assumes inv: "space_inv b sp" and t: "sp_target sp = t"
    and names: "validCollection (wr_Collection w)" "validKey (wr_RKey w)"
    and old: "lookupRecord sp (tg_RepoDID t) (wr_Collection w) (wr_RKey w) = existing"
    and ok: "store_value b sp t w existing = Inr (res, sp')"
  shows "space_inv b sp' \<and> sp_target sp' = t"
proof -
  from ok obtain v cids where v: "findBlobCIDs v = Inr cids"
    and up: "\<forall>cid \<in> set cids. map_of (inner (bk_blobs b) (tg_RepoDID t)) cid \<noteq> None"
    and sp': "sp' = put_record (addBlobRefs
      (case existing of None \<Rightarrow> sp | Some od \<Rightarrow> removeBlobRefs sp (tg_RepoDID t) (sr_value od)) (tg_RepoDID t) cids)
      (tg_RepoDID t) (wr_Collection w) (wr_RKey w)
      \<lparr>sr_uri = tg_SpaceURI t @ ''/'' @ tg_RepoDID t @ ''/'' @ wr_Collection w @ ''/'' @ wr_RKey w,
       sr_cid = recordCID v, sr_value = v\<rparr>"
    by (auto simp: store_value_def Let_def list_ex_iff split: sum.splits if_splits)
  have "refs_exact sp'" unfolding sp' using inv old v by (intro put_refs_exact) (auto simp: space_inv_def)
  moreover have "maps_wf sp'" unfolding sp' using inv by (auto simp: space_inv_def split: option.splits)
  ultimately show ?thesis
    using inv t names v up unfolding sp' space_inv_def
    by (auto simp: stored_ok_def rec_refs_def split: option.splits if_splits)
qed

lemma applyOneLocked_inv:
  assumes inv: "space_inv b sp" and t: "sp_target sp = t" and ok: "applyOneLocked b sp t w = Inr (res, sp')"
  shows "space_inv b sp' \<and> sp_target sp' = t"
proof -
  let ?ex = "lookupRecord sp (tg_RepoDID t) (wr_Collection w) (wr_RKey w)"
  from ok have names: "validCollection (wr_Collection w)" "validKey (wr_RKey w)"
    by (auto simp: applyOneLocked_def Let_def split: if_splits)
  from ok names consider
    (stored) "store_value b sp t w ?ex = Inr (res, sp')"
  | (deleted) old where "?ex = Some old"
      "sp' = delete_record (removeBlobRefs sp (tg_RepoDID t) (sr_value old)) (tg_RepoDID t) (wr_Collection w) (wr_RKey w)"
    by (auto simp: applyOneLocked_def Let_def split: if_splits WriteAction.splits option.splits)
  then show ?thesis
  proof cases
    case stored
    with inv t names show ?thesis by (intro store_value_inv) auto
  next
    case deleted
    with inv have "refs_exact sp'" by (auto simp: space_inv_def intro: delete_refs_exact)
    with inv t deleted show ?thesis by (auto simp: space_inv_def split: if_splits)
  qed
qed

lemma applyAllLocked_inv:
  "space_inv b sp \<Longrightarrow> sp_target sp = t \<Longrightarrow> applyAllLocked b sp t ws = Inr (rs, sp') \<Longrightarrow>
     space_inv b sp' \<and> sp_target sp' = t"
proof (induction ws arbitrary: sp rs)
  case (Cons w ws)
  then obtain r sp1 rs' where "applyOneLocked b sp t w = Inr (r, sp1)" "applyAllLocked b sp1 t ws = Inr (rs', sp')"
    by (auto split: sum.splits prod.splits)
  with Cons.IH[of sp1 rs'] applyOneLocked_inv[OF Cons.prems(1,2)] show ?case by blast
qed auto

lemma authWriteD:
  assumes "authWriteLocked s t b = Inr sp"
  shows "map_of (bk_spaces b) (tg_SpaceURI t) = Some sp" "sp_target sp = t" "ss_owner s" "tg_RepoDID t = ss_did s"
    "has_prefix (tg_SpaceURI t) (''at://'' @ ss_did s @ ''/space/'')"
  using assms by (auto simp: authWriteLocked_def split: if_splits option.splits)

lemma space_inv_spaces [simp]: "space_inv (b\<lparr>bk_spaces := x\<rparr>) = space_inv b"
  by (auto simp: space_inv_def stored_ok_def fun_eq_iff)

text \<open>Replacing one space of a backend by another that satisfies the invariant for the same target.\<close>

lemma mem_inv_replace:
  assumes "mem_inv b" and "authWriteLocked s t b = Inr sp" and "space_inv b sp'" and "sp_target sp' = t"
  shows "mem_inv (b\<lparr>bk_spaces := AList.update (tg_SpaceURI t) (sp'\<lparr>sp_rev := n\<rparr>) (bk_spaces b)\<rparr>)"
proof -
  have "space_inv b (sp'\<lparr>sp_rev := n\<rparr>)"
    using assms(3) by (simp add: space_inv_def refs_exact_def)
  with assms authWriteD[OF assms(2)] show ?thesis unfolding mem_inv_def by simp
qed

lemma mem_inv_NewBackend: "mem_inv NewBackend"
  by (simp add: mem_inv_def NewBackend_def)

lemma memory_target_repo [simp]: "tg_RepoDID (memory_target d k) = d"
  by (simp add: memory_target_def)

lemma memory_target_prefix: "has_prefix (tg_SpaceURI (memory_target d k)) (''at://'' @ d @ ''/space/'')"
  using has_prefix_append[of "''at://'' @ d @ ''/space/''" "MailboxSpaceType @ ''/'' @ k"]
  by (simp add: memory_target_def)

lemma space_inv_empty [simp]:
  "space_inv b \<lparr>sp_target = t, sp_records = [], sp_blobRefs = [], sp_rev = 0\<rparr>"
  by (simp add: space_inv_def maps_wf_def refs_exact_def ref_count_def blob_weight_def repo_weight_def
      count_of_def lookupRecord_def)

lemma mem_EnsureMailbox_inv:
  assumes "mem_inv b" and "mem_EnsureMailbox s d k b = (r, b')"
  shows "mem_inv b'"
proof (cases "b' = b")
  case False
  with assms(2) have "b' = b\<lparr>bk_spaces := AList.update (tg_SpaceURI (memory_target d k))
      \<lparr>sp_target = memory_target d k, sp_records = [], sp_blobRefs = [], sp_rev = 0\<rparr> (bk_spaces b)\<rparr>"
    by (auto simp: mem_EnsureMailbox_def Let_def split: sum.splits if_splits option.splits)
  with assms(1) memory_target_prefix[of d k] show ?thesis unfolding mem_inv_def by simp
qed (use assms in simp)

lemma mem_UploadBlob_inv:
  assumes "mem_inv b" and "mem_UploadBlob s t d m b = (r, b')"
  shows "mem_inv b'"
proof (cases "b' = b")
  case False
  with assms(2) have b': "b' = b\<lparr>bk_blobs := AList.update (tg_RepoDID t)
      (AList.update (blobCID d) d (inner (bk_blobs b) (tg_RepoDID t))) (bk_blobs b)\<rparr>" and d: "d \<noteq> []"
    by (auto simp: mem_UploadBlob_def Let_def split: sum.splits if_splits)
  have "space_inv b' sp" if "space_inv b sp" for sp
    using that by (auto simp: b' space_inv_def stored_ok_def)
  with assms(1) d show ?thesis by (auto simp: mem_inv_def b' split: if_splits)
qed (use assms in simp)

lemma mem_ApplyWrites_inv:
  assumes "mem_inv b" and "mem_ApplyWrites s t ws b = (r, b')"
  shows "mem_inv b'"
proof (cases r)
  case (Inl e)
  with assms show ?thesis by (auto simp: mem_ApplyWrites_def Let_def split: sum.splits if_splits)
next
  case (Inr cm)
  with assms(2) obtain sp rs sp' where auth: "authWriteLocked s t b = Inr sp"
    and all: "applyAllLocked b sp t ws = Inr (rs, sp')"
    and b': "b' = b\<lparr>bk_spaces := AList.update (tg_SpaceURI t) (sp'\<lparr>sp_rev := sp_rev sp' + 1\<rparr>) (bk_spaces b)\<rparr>"
    by (auto simp: mem_ApplyWrites_def Let_def split: sum.splits if_splits)
  from auth assms(1) have "space_inv b sp" by (auto simp: mem_inv_def dest: authWriteD)
  from applyAllLocked_inv[OF this authWriteD(2)[OF auth] all] assms(1) auth show ?thesis
    unfolding b' by (auto intro: mem_inv_replace)
qed

lemma mem_PutRecordCAS_inv:
  assumes "mem_inv b" and "mem_PutRecordCAS s t c k v cid b = (r, b')"
  shows "mem_inv b'"
proof (cases r)
  case (Inl e)
  with assms show ?thesis
    by (auto simp: mem_PutRecordCAS_def Let_def split: sum.splits if_splits option.splits)
next
  case (Inr rc)
  with assms(2) obtain sp res sp' where auth: "authWriteLocked s t b = Inr sp"
    and one: "applyOneLocked b sp t
      \<lparr>wr_Action = Update, wr_Collection = c, wr_RKey = k, wr_Value = v, wr_SwapCID = cid\<rparr> = Inr (res, sp')"
    and b': "b' = b\<lparr>bk_spaces := AList.update (tg_SpaceURI t) (sp'\<lparr>sp_rev := sp_rev sp' + 1\<rparr>) (bk_spaces b)\<rparr>"
    by (auto simp: mem_PutRecordCAS_def Let_def split: sum.splits if_splits option.splits)
  from auth assms(1) have "space_inv b sp" by (auto simp: mem_inv_def dest: authWriteD)
  from applyOneLocked_inv[OF this authWriteD(2)[OF auth] one] assms(1) auth show ?thesis
    unfolding b' by (auto intro: mem_inv_replace)
qed

section \<open>Reachable backends\<close>

text \<open>Any session may run any operation that can change the backend; reads leave it as it is.\<close>

inductive mem_step :: "Session \<Rightarrow> Backend \<Rightarrow> Backend \<Rightarrow> bool" where
  ensure: "mem_EnsureMailbox s d k b = (r, b') \<Longrightarrow> mem_step s b b'"
| upload: "mem_UploadBlob s t data mime b = (r, b') \<Longrightarrow> mem_step s b b'"
| batch: "mem_ApplyWrites s t ws b = (r, b') \<Longrightarrow> mem_step s b b'"
| swap: "mem_PutRecordCAS s t c k v cid b = (r, b') \<Longrightarrow> mem_step s b b'"

inductive mem_reachable :: "Backend \<Rightarrow> bool" where
  start: "mem_reachable NewBackend"
| step: "mem_reachable b \<Longrightarrow> mem_step s b b' \<Longrightarrow> mem_reachable b'"

lemma mem_reads_pure [simp]:
  "snd (mem_Capabilities s b) = b" "snd (mem_GetRecord s t c k b) = b" "snd (mem_ListRecords s t c b) = b"
  "snd (mem_GetBlob s t cid b) = b"
  by (auto simp: mem_Capabilities_def mem_GetRecord_def mem_ListRecords_def mem_GetBlob_def Let_def
      split: sum.splits option.splits)

lemma mem_step_inv: "mem_step s b b' \<Longrightarrow> mem_inv b \<Longrightarrow> mem_inv b'"
  by (induction rule: mem_step.induct)
    (auto intro: mem_EnsureMailbox_inv mem_UploadBlob_inv mem_ApplyWrites_inv mem_PutRecordCAS_inv)

lemma mem_reachable_inv: "mem_reachable b \<Longrightarrow> mem_inv b"
  by (induction rule: mem_reachable.induct) (auto intro: mem_inv_NewBackend mem_step_inv)

lemma mem_reachable_space:
  assumes "mem_reachable b" and "map_of (bk_spaces b) uri = Some sp"
  shows "space_inv b sp"
  using mem_reachable_inv[OF assms(1)] assms(2) by (auto simp: mem_inv_def)

lemma authReadD:
  assumes "authReadLocked s t b = Inr sp"
  shows "map_of (bk_spaces b) (tg_SpaceURI t) = Some sp" "sp_target sp = t"
  using assms by (auto simp: authReadLocked_def split: if_splits option.splits)

lemma authWrite_reads: "authWriteLocked s t b = Inr sp \<Longrightarrow> authReadLocked s t b = Inr sp"
  by (auto simp: authWriteLocked_def authReadLocked_def split: if_splits option.splits)

text \<open>A blob counts as referenced exactly when a live record refers to it.\<close>

lemma repo_weight_pos:
  assumes "distinct (keys cs)" and "\<And>c. distinct (keys (inner cs c))"
  shows "0 < repo_weight cid cs \<longleftrightarrow> (\<exists>c k r. map_of (inner cs c) k = Some r \<and> cid \<in> set (rec_refs r))"
proof
  assume "0 < repo_weight cid cs"
  then have "\<not> (\<forall>x \<in> set cs. coll_weight cid (snd x) = 0)"
    unfolding repo_weight_def
    by (metis (mono_tags, lifting) map_cong less_irrefl sum_list_0)
  then obtain c rs where mem: "(c, rs) \<in> set cs" and w: "coll_weight cid rs \<noteq> 0" by auto
  from mem assms(1) have rs: "inner cs c = rs" by (simp add: inner_def)
  have "\<not> (\<forall>x \<in> set rs. int (count_list (rec_refs (snd x)) cid) = 0)"
    using w unfolding coll_weight_def by (metis (mono_tags, lifting) map_cong sum_list_0)
  then obtain k r where "(k, r) \<in> set rs" "count_list (rec_refs r) cid \<noteq> 0" by auto
  moreover have "distinct (keys rs)" using assms(2)[of c] rs by simp
  ultimately show "\<exists>c k r. map_of (inner cs c) k = Some r \<and> cid \<in> set (rec_refs r)"
    using rs by (auto simp: count_list_0_iff intro: map_of_is_SomeI)
next
  assume "\<exists>c k r. map_of (inner cs c) k = Some r \<and> cid \<in> set (rec_refs r)"
  then obtain c k r where m: "map_of (inner cs c) k = Some r" and "cid \<in> set (rec_refs r)" by blast
  then have "0 < int (count_list (rec_refs r) cid)" by (simp add: count_list_0_iff zero_less_iff_neq_zero)
  also have "\<dots> \<le> coll_weight cid (inner cs c)" by (rule coll_weight_member[OF m assms(2)])
  also have "\<dots> \<le> repo_weight cid cs" by (rule repo_weight_member[OF assms(1)])
  finally show "0 < repo_weight cid cs" .
qed

lemma ref_count_pos:
  assumes "space_inv b sp"
  shows "0 < ref_count sp repo cid \<longleftrightarrow> (\<exists>c k r. lookupRecord sp repo c k = Some r \<and> cid \<in> set (rec_refs r))"
  using assms unfolding space_inv_def refs_exact_def blob_weight_def lookupRecord_def maps_wf_def
  by (simp add: repo_weight_pos)

lemma GetBlob_serves:
  assumes inv: "mem_inv b" and act: "checkActive s = Inr ()" and auth: "authReadLocked s t b = Inr sp"
  shows "(if \<exists>c k r. lookupRecord sp (tg_RepoDID t) c k = Some r \<and> cid \<in> set (rec_refs r)
      then \<exists>data. mem_GetBlob s t cid b = (Inr data, b) \<and> blobCID data = cid
      else mem_GetBlob s t cid b = (Inl ErrNotFound, b))"
proof -
  from inv authReadD[OF auth] have sp: "space_inv b sp" "sp_target sp = t" by (auto simp: mem_inv_def)
  have pos: "(case map_of (inner (sp_blobRefs sp) (tg_RepoDID t)) cid of None \<Rightarrow> 0 | Some n \<Rightarrow> n) \<le> 0
    \<longleftrightarrow> \<not> (\<exists>c k r. lookupRecord sp (tg_RepoDID t) c k = Some r \<and> cid \<in> set (rec_refs r))"
    using ref_count_pos[OF sp(1), of "tg_RepoDID t" cid] by (simp add: ref_count_def count_of_def not_less[symmetric])
  show ?thesis
  proof (cases "\<exists>c k r. lookupRecord sp (tg_RepoDID t) c k = Some r \<and> cid \<in> set (rec_refs r)")
    case True
    then obtain c k r where r: "lookupRecord sp (tg_RepoDID t) c k = Some r" "cid \<in> set (rec_refs r)" by blast
    obtain data where data: "map_of (inner (bk_blobs b) (tg_RepoDID t)) cid = Some data"
      using sp(1) r unfolding space_inv_def stored_ok_def by (metis not_None_eq)
    with inv have "blobCID data = cid" by (auto simp: mem_inv_def)
    with True data pos act auth show ?thesis by (simp add: mem_GetBlob_def)
  next
    case False
    with pos act auth show ?thesis by (simp add: mem_GetBlob_def)
  qed
qed

section \<open>Sessions are confined\<close>

lemma mem_step_confined:
  "mem_step s b b' \<Longrightarrow> map_of (bk_spaces b') uri \<noteq> map_of (bk_spaces b) uri \<Longrightarrow>
     checkActive s = Inr () \<and> ss_owner s \<and> has_prefix uri (''at://'' @ ss_did s @ ''/space/'')"
proof (induction rule: mem_step.induct)
  case (ensure s d k b r b')
  with memory_target_prefix[of d k] show ?case
    by (auto simp: mem_EnsureMailbox_def Let_def split: sum.splits if_splits option.splits)
next
  case (upload s t data mime b r b')
  then show ?case
    by (auto simp: mem_UploadBlob_def Let_def split: sum.splits if_splits)
next
  case (batch s t ws b r b')
  then obtain sp where "authWriteLocked s t b = Inr sp" "uri = tg_SpaceURI t" "checkActive s = Inr ()"
    by (auto simp: mem_ApplyWrites_def Let_def split: sum.splits if_splits)
  with authWriteD[of s t b sp] show ?case by simp
next
  case (swap s t c k v cid b r b')
  then obtain sp where "authWriteLocked s t b = Inr sp" "uri = tg_SpaceURI t" "checkActive s = Inr ()"
    by (auto simp: mem_PutRecordCAS_def Let_def split: sum.splits if_splits option.splits)
  with authWriteD[of s t b sp] show ?case by simp
qed

section \<open>Batches\<close>

lemma applyOneLocked_create:
  assumes "applyOneLocked b sp t w = Inr (res, sp')" and "wr_Action w = Create"
  shows "\<exists>j. wr_Value w = AnyJSON j \<and> lookupRecord sp (tg_RepoDID t) (wr_Collection w) (wr_RKey w) = None
    \<and> lookupRecord sp' = (\<lambda>repo c k. if repo = tg_RepoDID t \<and> c = wr_Collection w \<and> k = wr_RKey w
        then Some \<lparr>sr_uri = wres_URI res, sr_cid = recordCID j, sr_value = j\<rparr> else lookupRecord sp repo c k)"
  using assms
  by (auto simp: applyOneLocked_def store_value_def marshal_def Let_def fun_eq_iff
      split: if_splits option.splits sum.splits any_value.splits)

lemma applyAllLocked_create:
  "applyAllLocked b sp t ws = Inr (rs, sp') \<Longrightarrow> \<forall>w \<in> set ws. wr_Action w = Create \<Longrightarrow>
     (\<forall>repo c k r. lookupRecord sp repo c k = Some r \<longrightarrow> lookupRecord sp' repo c k = Some r)
     \<and> (\<forall>w \<in> set ws. \<exists>j r. wr_Value w = AnyJSON j \<and> sr_value r = j \<and> sr_cid r = recordCID j
          \<and> lookupRecord sp' (tg_RepoDID t) (wr_Collection w) (wr_RKey w) = Some r)"
proof (induction ws arbitrary: sp rs)
  case (Cons w ws)
  then obtain r sp1 rs' where one: "applyOneLocked b sp t w = Inr (r, sp1)"
    and rest: "applyAllLocked b sp1 t ws = Inr (rs', sp')"
    by (auto split: sum.splits prod.splits)
  from applyOneLocked_create[OF one] Cons.prems(2) obtain j where j: "wr_Value w = AnyJSON j"
    and none: "lookupRecord sp (tg_RepoDID t) (wr_Collection w) (wr_RKey w) = None"
    and look: "\<And>repo c k. lookupRecord sp1 repo c k =
        (if repo = tg_RepoDID t \<and> c = wr_Collection w \<and> k = wr_RKey w
         then Some \<lparr>sr_uri = wres_URI r, sr_cid = recordCID j, sr_value = j\<rparr> else lookupRecord sp repo c k)"
    by auto
  have IH: "(\<forall>repo c k r. lookupRecord sp1 repo c k = Some r \<longrightarrow> lookupRecord sp' repo c k = Some r)
     \<and> (\<forall>w \<in> set ws. \<exists>j r. wr_Value w = AnyJSON j \<and> sr_value r = j \<and> sr_cid r = recordCID j
          \<and> lookupRecord sp' (tg_RepoDID t) (wr_Collection w) (wr_RKey w) = Some r)"
    using Cons.IH[OF rest] Cons.prems(2) by simp
  have w: "lookupRecord sp' (tg_RepoDID t) (wr_Collection w) (wr_RKey w) =
      Some \<lparr>sr_uri = wres_URI r, sr_cid = recordCID j, sr_value = j\<rparr>"
    using IH by (simp add: look)
  have keep: "lookupRecord sp' repo c k = Some q" if "lookupRecord sp repo c k = Some q" for repo c k q
  proof -
    from that none have "\<not> (repo = tg_RepoDID t \<and> c = wr_Collection w \<and> k = wr_RKey w)" by auto
    with that have "lookupRecord sp1 repo c k = Some q" by (subst look) auto
    with IH show ?thesis by simp
  qed
  show ?case
    using IH w j keep by simp
qed simp

lemma applyOneLocked_frame:
  "applyOneLocked b sp t w = Inr (r, sp') \<Longrightarrow> sp_rev sp' = sp_rev sp \<and> sp_target sp' = sp_target sp"
  by (auto simp: applyOneLocked_def store_value_def Let_def put_record_def delete_record_def addBlobRefs_def
      removeBlobRefs_def split: WriteAction.splits option.splits sum.splits if_splits)

lemma applyAllLocked_frame:
  assumes "applyAllLocked b sp t ws = Inr (rs, sp')"
  shows "sp_rev sp' = sp_rev sp" and "sp_target sp' = sp_target sp" and "length rs = length ws"
  using assms
  by (induction ws arbitrary: sp rs) (auto split: sum.splits prod.splits dest!: applyOneLocked_frame)

section \<open>The memory provider meets the contract of its callers\<close>

definition mem_session_inv :: "Session \<Rightarrow> Target \<Rightarrow> Backend \<Rightarrow> bool" where
  "mem_session_inv s t b \<longleftrightarrow> mem_inv b \<and> checkActive s = Inr () \<and> (\<exists>sp. authWriteLocked s t b = Inr sp)"

definition mem_view :: "Target \<Rightarrow> Backend \<Rightarrow> bytes \<Rightarrow> bytes \<Rightarrow> Record option" where
  "mem_view t b c k =
     (case map_of (bk_spaces b) (tg_SpaceURI t) of None \<Rightarrow> None | Some sp \<Rightarrow>
        map_option (\<lambda>r. exportRecord c k r no_result) (lookupRecord sp (tg_RepoDID t) c k))"

lemma recordCID_nonempty [simp]: "recordCID v \<noteq> []"
  by (simp add: recordCID_def)

lemma mem_PutRecordCAS_cases:
  assumes inv: "mem_session_inv s t b"
  obtains (conflict) "mem_PutRecordCAS s t c k v cid b = (Inl ErrConflict, b)"
      and "mem_view t b c k = None \<or> cid = [] \<or> rc_CID (the (mem_view t b c k)) \<noteq> cid"
  | (failed) e where "mem_PutRecordCAS s t c k v cid b = (Inl e, b)"
      and "\<not> (mem_view t b c k = None \<or> cid = [] \<or> rc_CID (the (mem_view t b c k)) \<noteq> cid)"
  | (swapped) r b' where "mem_PutRecordCAS s t c k v cid b = (Inr r, b')"
      and "\<not> (mem_view t b c k = None \<or> cid = [] \<or> rc_CID (the (mem_view t b c k)) \<noteq> cid)"
      and "v = AnyJSON (rc_Value r)" and "mem_view t b' c k = Some r"
      and "\<forall>c' k'. (c', k') \<noteq> (c, k) \<longrightarrow> mem_view t b' c' k' = mem_view t b c' k'"
      and "mem_session_inv s t b'"
proof -
  from inv obtain sp where act: "checkActive s = Inr ()" and auth: "authWriteLocked s t b = Inr sp" and mi: "mem_inv b"
    by (auto simp: mem_session_inv_def)
  note sp = authWriteD[OF auth]
  let ?w = "\<lparr>wr_Action = Update, wr_Collection = c, wr_RKey = k, wr_Value = v, wr_SwapCID = cid\<rparr>"
  show thesis
  proof (cases "lookupRecord sp (tg_RepoDID t) c k")
    case None
    then show ?thesis using act auth sp(1) by (intro conflict) (simp_all add: mem_PutRecordCAS_def mem_view_def)
  next
    case (Some cur)
    have view: "mem_view t b c k = Some (exportRecord c k cur no_result)"
      using Some sp(1) by (simp add: mem_view_def)
    have rcid: "rc_CID (exportRecord c k cur no_result) = sr_cid cur" by (simp add: exportRecord_def no_result_def)
    show ?thesis
    proof (cases "cid = [] \<or> sr_cid cur \<noteq> cid")
      case True
      then show ?thesis using act auth Some view rcid by (intro conflict) (simp_all add: mem_PutRecordCAS_def)
    next
      case match: False
      show ?thesis
      proof (cases "applyOneLocked b sp t ?w")
        case (Inl e)
        then show ?thesis using act auth Some match view rcid
          by (intro failed[of e]) (simp_all add: mem_PutRecordCAS_def)
      next
        case (Inr p)
        obtain res sp' where p: "p = (res, sp')" by (cases p)
        from Inr p Some match obtain j cids where j: "v = AnyJSON j"
          and res: "res = \<lparr>wres_URI = tg_SpaceURI t @ ''/'' @ tg_RepoDID t @ ''/'' @ c @ ''/'' @ k, wres_CID = recordCID j\<rparr>"
          and sp': "sp' = put_record (addBlobRefs (removeBlobRefs sp (tg_RepoDID t) (sr_value cur)) (tg_RepoDID t) cids)
             (tg_RepoDID t) c k \<lparr>sr_uri = wres_URI res, sr_cid = recordCID j, sr_value = j\<rparr>"
          by (auto simp: applyOneLocked_def store_value_def marshal_def Let_def
              split: if_splits sum.splits any_value.splits)
        define b' where "b' = b\<lparr>bk_spaces := AList.update (tg_SpaceURI t) (sp'\<lparr>sp_rev := sp_rev sp' + 1\<rparr>) (bk_spaces b)\<rparr>"
        define r where "r = exportRecord c k \<lparr>sr_uri = wres_URI res, sr_cid = recordCID j, sr_value = j\<rparr> no_result"
        have run: "mem_PutRecordCAS s t c k v cid b = (Inr r, b')"
          using act auth Some match Inr p res
          by (simp add: mem_PutRecordCAS_def sp' b'_def r_def exportRecord_def no_result_def Let_def)
        moreover have "mem_view t b' c k = Some r" by (simp add: mem_view_def b'_def sp' r_def)
        moreover have "v = AnyJSON (rc_Value r)" by (simp add: r_def exportRecord_def j)
        moreover have "\<forall>c' k'. (c', k') \<noteq> (c, k) \<longrightarrow> mem_view t b' c' k' = mem_view t b c' k'"
          using sp(1) by (auto simp: mem_view_def b'_def sp')
        moreover have "mem_session_inv s t b'"
          using mem_PutRecordCAS_inv[OF mi run] act sp
          by (simp add: mem_session_inv_def authWriteLocked_def b'_def sp')
        ultimately show ?thesis using match view rcid by (intro swapped[of r b']) simp_all
      qed
    qed
  qed
qed

interpretation mem: cas_repository "memory_repo s" t "mem_session_inv s t" "mem_view t" for s t
proof unfold_locales
  fix b assume "mem_session_inv s t b"
  then show "\<exists>c. rp_Capabilities (memory_repo s) b = (Inr c, b) \<and> cp_CompareAndSwap c"
    by (simp add: memory_repo_def mem_Capabilities_def mem_session_inv_def)
next
  fix b c k assume "mem_session_inv s t b"
  then show "rp_GetRecord (memory_repo s) t c k b =
      ((case mem_view t b c k of None \<Rightarrow> Inl ErrNotFound | Some r \<Rightarrow> Inr r), b)"
    using authWriteD(1)[of s t b] authWrite_reads[of s t b]
    by (fastforce simp: memory_repo_def mem_GetRecord_def mem_session_inv_def mem_view_def split: option.splits)
next
  fix b c k r assume "mem_session_inv s t b" "mem_view t b c k = Some r"
  then show "rc_RKey r = k"
    by (auto simp: mem_view_def exportRecord_def split: option.splits)
next
  fix b c k r assume "mem_session_inv s t b" and v: "mem_view t b c k = Some r"
  then have "mem_inv b" by (simp add: mem_session_inv_def)
  with v show "rc_CID r \<noteq> []"
    by (auto simp: mem_view_def exportRecord_def no_result_def mem_inv_def space_inv_def stored_ok_def
        split: option.splits)
next
  fix b c k cid v assume "mem_session_inv s t b"
    and "mem_view t b c k = None \<or> cid = [] \<or> rc_CID (the (mem_view t b c k)) \<noteq> cid"
  then show "rp_PutRecordCAS (memory_repo s) t c k v cid b = (Inl ErrConflict, b)"
    by (cases rule: mem_PutRecordCAS_cases[of s t b c k v cid]) (auto simp: memory_repo_def)
next
  fix b c k cid v e b' assume "mem_session_inv s t b"
    and "rp_PutRecordCAS (memory_repo s) t c k v cid b = (Inl e, b')"
  then show "b' = b"
    by (cases rule: mem_PutRecordCAS_cases[of s t b c k v cid]) (auto simp: memory_repo_def)
next
  fix b c k cid v r b' assume "mem_session_inv s t b"
    and "rp_PutRecordCAS (memory_repo s) t c k v cid b = (Inr r, b')"
  then show "mem_session_inv s t b' \<and> v = AnyJSON (rc_Value r) \<and> mem_view t b' c k = Some r
      \<and> (\<forall>c' k'. (c', k') \<noteq> (c, k) \<longrightarrow> mem_view t b' c' k' = mem_view t b c' k')"
    by (cases rule: mem_PutRecordCAS_cases[of s t b c k v cid]) (auto simp: memory_repo_def)
qed

lemma walk_blob_free:
  "blob_free v \<Longrightarrow> walk v = Inr []"
  "list_all (\<lambda>m. blob_free (snd m)) ms \<Longrightarrow> walk_members ms = Inr []"
  "list_all blob_free vs \<Longrightarrow> walk_list vs = Inr []"
  by (induction v and ms and vs rule: walk_walk_members_walk_list.induct) (auto simp: own_blob_cid_def)

interpretation mem: live_repository "memory_repo s" t "mem_session_inv s t" "mem_view t" for s t
proof unfold_locales
  fix b c k old j
  assume inv: "mem_session_inv s t b" and view: "mem_view t b c k = Some old" and free: "blob_free j"
  then obtain sp where act: "checkActive s = Inr ()" and auth: "authWriteLocked s t b = Inr sp" and mi: "mem_inv b"
    by (auto simp: mem_session_inv_def)
  note sp = authWriteD[OF auth]
  from view sp(1) obtain cur where cur: "lookupRecord sp (tg_RepoDID t) c k = Some cur"
    and old: "rc_CID old = sr_cid cur" by (auto simp: mem_view_def exportRecord_def no_result_def)
  from mi sp(1) cur have "stored_ok b (sp_target sp) (tg_RepoDID t) c k cur"
    by (auto simp: mem_inv_def space_inv_def)
  then have "validCollection c" "validKey k" "sr_cid cur \<noteq> []" by (auto simp: stored_ok_def)
  with act auth cur free show "\<exists>r b'. rp_PutRecordCAS (memory_repo s) t c k (AnyJSON j) (rc_CID old) b = (Inr r, b')"
    by (simp add: memory_repo_def mem_PutRecordCAS_def old applyOneLocked_def store_value_def marshal_def
        findBlobCIDs_def walk_blob_free Let_def)
qed

section \<open>Properties\<close>

definition owner_a :: Session where "owner_a = OwnerSession ''did:a''"
definition target_a :: Target where "target_a = memory_target ''did:a'' ''mail''"

text \<open>A backend with one mailbox, one uploaded blob and, where asked for, one record that refers to it.\<close>

definition blob_record :: json where
  "blob_record = JObj [(''$type'', JStr ''blob''), (''ref'', JObj [(''$link'', JStr (blobCID ''hi''))])]"

definition create_a :: Write where
  "create_a = \<lparr>wr_Action = Create, wr_Collection = ''a.b.c'', wr_RKey = ''k'', wr_Value = AnyJSON blob_record, wr_SwapCID = []\<rparr>"

definition backend_blob :: Backend where
  "backend_blob = snd (mem_UploadBlob owner_a target_a ''hi'' ''text/plain''
     (snd (mem_EnsureMailbox owner_a ''did:a'' ''mail'' NewBackend)))"

definition backend_record :: Backend where
  "backend_record = snd (mem_ApplyWrites owner_a target_a [create_a] backend_blob)"

lemma demo_reach: "mem_reachable backend_blob" "mem_reachable backend_record"
proof -
  have "mem_reachable (snd (mem_EnsureMailbox owner_a ''did:a'' ''mail'' NewBackend))"
    by (metis mem_reachable.start mem_reachable.step mem_step.ensure prod.collapse)
  then show blob: "mem_reachable backend_blob" unfolding backend_blob_def
    by (metis mem_reachable.step mem_step.upload prod.collapse)
  show "mem_reachable backend_record" unfolding backend_record_def
    by (metis blob mem_reachable.step mem_step.batch prod.collapse)
qed

lemma key_examples: "validKey ''mail''" "validKey ''k''" "validCollection ''a.b.c''"
  by code_simp+

lemmas demo_ops =
  owner_a_def target_a_def OwnerSession_def memory_target_def NewBackend_def checkActive_def mem_EnsureMailbox_def
  mem_UploadBlob_def authWriteLocked_def authReadLocked_def has_prefix_def inner_def key_examples Let_def

lemma blobCID_nonempty [simp]: "blobCID data \<noteq> []"
  by (simp add: blobCID_def)

lemma blob_record_walk: "findBlobCIDs blob_record = Inr [blobCID ''hi'']"
  by (simp add: findBlobCIDs_def blob_record_def own_blob_cid_def)

lemma backend_blob_eq:
  "bk_blobs backend_blob = [(''did:a'', [(blobCID ''hi'', ''hi'')])]"
  "bk_spaces backend_blob = [(tg_SpaceURI target_a, \<lparr>sp_target = target_a, sp_records = [], sp_blobRefs = [], sp_rev = 0\<rparr>)]"
  by (simp_all add: backend_blob_def demo_ops)

lemma demo_created:
  "\<exists>cm. mem_ApplyWrites owner_a target_a [create_a] backend_blob = (Inr cm, backend_record)"
  "checkActive owner_a = Inr ()"
  "\<exists>sp r. authReadLocked owner_a target_a backend_record = Inr sp
     \<and> lookupRecord sp ''did:a'' ''a.b.c'' ''k'' = Some r \<and> sr_value r = blob_record"
  using blob_record_walk
  by (simp_all add: backend_record_def create_a_def mem_ApplyWrites_def applyOneLocked_def store_value_def marshal_def
      addBlobRefs_def put_record_def lookupRecord_def backend_blob_eq demo_ops)

text \<open>C4. Blob serving is exact in every reachable backend. An authorised reader is served a blob if
  and only if some live record of the repository refers to it, and then the bytes are those
  that the identifier hashes; an uploaded blob that no record refers to, or whose last
  reference was deleted or replaced, is not found.\<close>

theorem GetBlob_exact:
  assumes "mem_reachable b" and "checkActive s = Inr ()" and "authReadLocked s t b = Inr sp"
  shows "(if \<exists>c k r cs. lookupRecord sp (tg_RepoDID t) c k = Some r \<and> findBlobCIDs (sr_value r) = Inr cs \<and> cid \<in> set cs
      then \<exists>data. mem_GetBlob s t cid b = (Inr data, b) \<and> blobCID data = cid
      else mem_GetBlob s t cid b = (Inl ErrNotFound, b))"
proof -
  have "cid \<in> set (rec_refs r) \<longleftrightarrow> (\<exists>cs. findBlobCIDs (sr_value r) = Inr cs \<and> cid \<in> set cs)" for r
    by (cases "findBlobCIDs (sr_value r)") (simp_all add: rec_refs_def)
  then show ?thesis using GetBlob_serves[OF mem_reachable_inv[OF assms(1)] assms(2,3), of cid] by simp
qed

theorem GetBlob_exact_witness:
  "(\<exists>data. mem_GetBlob owner_a target_a (blobCID ''hi'') backend_record = (Inr data, backend_record) \<and> blobCID data = blobCID ''hi'')
    \<and> mem_GetBlob owner_a target_a (blobCID ''hi'') backend_blob = (Inl ErrNotFound, backend_blob)"
proof -
  obtain sp r where sp: "authReadLocked owner_a target_a backend_record = Inr sp"
    "lookupRecord sp ''did:a'' ''a.b.c'' ''k'' = Some r" "sr_value r = blob_record" using demo_created(3) by blast
  have did: "tg_RepoDID target_a = ''did:a''" by (simp add: target_a_def memory_target_def)
  let ?sp = "\<lparr>sp_target = target_a, sp_records = [], sp_blobRefs = [], sp_rev = 0\<rparr>"
  have none: "authReadLocked owner_a target_a backend_blob = Inr ?sp" "\<And>c k. lookupRecord ?sp ''did:a'' c k = None"
    by (simp_all add: authReadLocked_def backend_blob_eq lookupRecord_def) (simp add: demo_ops)
  have "\<exists>c k r cs. lookupRecord sp (tg_RepoDID target_a) c k = Some r \<and> findBlobCIDs (sr_value r) = Inr cs \<and> blobCID ''hi'' \<in> set cs"
    using sp blob_record_walk did by (intro exI[of _ "''a.b.c''"] exI[of _ "''k''"] exI[of _ r] exI[of _ "[blobCID ''hi'']"]) simp
  with GetBlob_exact[OF demo_reach(2) demo_created(2) sp(1), of "blobCID ''hi''"]
    GetBlob_exact[OF demo_reach(1) demo_created(2) none(1), of "blobCID ''hi''"] none(2) did
  show ?thesis by simp
qed



text \<open>What a batch of creations stores is what is read back: after it, every created record
  is returned with its value and the hash of its text, and every record that was there
  before is returned unchanged.\<close>

theorem ApplyWrites_creates:
  assumes "mem_ApplyWrites s t ws b = (Inr cm, b')" and "\<forall>w \<in> set ws. wr_Action w = Create"
  shows "(\<forall>w \<in> set ws. \<exists>j rec. wr_Value w = AnyJSON j \<and> mem_GetRecord s t (wr_Collection w) (wr_RKey w) b' = (Inr rec, b')
        \<and> rc_Value rec = j \<and> rc_CID rec = recordCID j)
    \<and> (\<forall>c k rec. mem_GetRecord s t c k b = (Inr rec, b) \<longrightarrow> mem_GetRecord s t c k b' = (Inr rec, b'))"
proof -
  from assms(1) obtain sp rs sp' where act: "checkActive s = Inr ()" and auth: "authWriteLocked s t b = Inr sp"
    and all: "applyAllLocked b sp t ws = Inr (rs, sp')"
    and b': "b' = b\<lparr>bk_spaces := AList.update (tg_SpaceURI t) (sp'\<lparr>sp_rev := sp_rev sp' + 1\<rparr>) (bk_spaces b)\<rparr>"
    by (auto simp: mem_ApplyWrites_def Let_def split: sum.splits if_splits)
  note frame = applyAllLocked_frame[OF all] and created = applyAllLocked_create[OF all assms(2)]
  have "authReadLocked s t b' = Inr (sp'\<lparr>sp_rev := sp_rev sp' + 1\<rparr>)"
    using authWriteD[OF auth] auth frame(2)
    by (auto simp: b' authReadLocked_def authWriteLocked_def split: if_splits option.splits)
  then have read': "mem_GetRecord s t c k b' = (case lookupRecord sp' (tg_RepoDID t) c k of None \<Rightarrow> (Inl ErrNotFound, b')
      | Some r \<Rightarrow> (Inr (exportRecord c k r no_result), b'))" for c k
    using act by (simp add: mem_GetRecord_def lookupRecord_def)
  have read: "mem_GetRecord s t c k b = (case lookupRecord sp (tg_RepoDID t) c k of None \<Rightarrow> (Inl ErrNotFound, b)
      | Some r \<Rightarrow> (Inr (exportRecord c k r no_result), b))" for c k
    using act authWrite_reads[OF auth] by (simp add: mem_GetRecord_def)
  show ?thesis
  proof (intro conjI ballI allI impI)
    fix w assume "w \<in> set ws"
    with created obtain j r where "wr_Value w = AnyJSON j" "sr_value r = j" "sr_cid r = recordCID j"
      "lookupRecord sp' (tg_RepoDID t) (wr_Collection w) (wr_RKey w) = Some r" by blast
    then show "\<exists>j rec. wr_Value w = AnyJSON j \<and> mem_GetRecord s t (wr_Collection w) (wr_RKey w) b' = (Inr rec, b')
        \<and> rc_Value rec = j \<and> rc_CID rec = recordCID j"
      by (simp add: read' exportRecord_def no_result_def)
  next
    fix c k rec assume "mem_GetRecord s t c k b = (Inr rec, b)"
    then obtain r where "lookupRecord sp (tg_RepoDID t) c k = Some r" "rec = exportRecord c k r no_result"
      by (auto simp: read split: option.splits)
    with created show "mem_GetRecord s t c k b' = (Inr rec, b')" by (simp add: read')
  qed
qed

theorem ApplyWrites_creates_witness:
  "\<exists>rec. mem_GetRecord owner_a target_a ''a.b.c'' ''k'' backend_record = (Inr rec, backend_record) \<and> rc_Value rec = blob_record"
proof -
  obtain cm where cm: "mem_ApplyWrites owner_a target_a [create_a] backend_blob = (Inr cm, backend_record)"
    using demo_created(1) by blast
  from ApplyWrites_creates[OF cm] show ?thesis by (auto simp: create_a_def)
qed

text \<open>C27. Sessions are confined. A step that changes any space was made by an active owner session
  and the space lies under the identity of that session; credential sessions and revoked
  sessions change nothing.\<close>

theorem sessions_confined:
  assumes "mem_step s b b'" and "map_of (bk_spaces b') uri \<noteq> map_of (bk_spaces b) uri"
  shows "checkActive s = Inr () \<and> ss_owner s \<and> has_prefix uri (''at://'' @ ss_did s @ ''/space/'')"
  using assms by (rule mem_step_confined)

theorem sessions_confined_witness:
  "mem_step owner_a backend_blob backend_record \<and> ss_owner owner_a
    \<and> has_prefix (tg_SpaceURI target_a) (''at://'' @ ss_did owner_a @ ''/space/'')"
proof -
  obtain cm where cm: "mem_ApplyWrites owner_a target_a [create_a] backend_blob = (Inr cm, backend_record)"
    using demo_created(1) by blast
  then have step: "mem_step owner_a backend_blob backend_record" by (rule mem_step.batch)
  from cm have "map_of (bk_spaces backend_record) (tg_SpaceURI target_a) \<noteq> map_of (bk_spaces backend_blob) (tg_SpaceURI target_a)"
    using demo_created(3) by (auto simp: authReadLocked_def backend_blob_eq lookupRecord_def split: if_splits option.splits)
  from sessions_confined[OF step this] step show ?thesis by simp
qed

end
