(* ===== verification/Message_State.thy ===== *)
theory Message_State
  imports Memory
begin

text \<open>
  Package \<^verbatim>\<open>mailboxstate\<close>, file \<^verbatim>\<open>state.go\<close>: conflict-safe mutations of the state record of
  a message. A mutation reads the immutable message and its state, decides the new
  state, and writes it back with the provider's compare-and-swap. The operations are
  written over any provider (a \<open>Repository\<close> record); their properties are proved once
  in the locales of the provider contract and hold of the memory provider through its
  interpretation. Between its read and its write another client may run, so a mutation
  is the composition of two parts, \<open>Apply_prepare\<close> and \<open>Apply_finish\<close>.
\<close>

section \<open>Requests\<close>

text \<open>\<^verbatim>\<open>Operation\<close> is a string; a value other than the six constants is \<open>OtherOperation\<close>.\<close>

datatype Operation = MarkRead | MarkUnread | Flag | Unflag | Move | Tombstone | OtherOperation bytes

record Mutation =
  mu_MessageRKey :: bytes
  mu_ExpectedRevision :: u64
  mu_OperationID :: bytes
  mu_Operation :: Operation
  mu_Mailbox :: bytes
  mu_Now :: gtime

record Replacement =
  rm_MessageRKey :: bytes
  rm_ExpectedRevision :: u64
  rm_OperationID :: bytes
  rm_Mailbox :: bytes
  rm_Keywords :: "bytes list"
  rm_Tombstone :: bool
  rm_Now :: gtime

definition line_breaks :: bytes where
  "line_breaks = [CHR 0x0D, CHR 0x0A, CHR 0x00]"

definition blanks :: bytes where
  "blanks = [CHR 0x20, CHR 0x09, CHR 0x0D, CHR 0x0A, CHR 0x00]"

definition validReplacement :: "Replacement \<Rightarrow> bool" where
  "validReplacement r =
     (\<not> (rm_MessageRKey r = [] \<or> length (rm_MessageRKey r) > 512 \<or> rm_ExpectedRevision r = 0
        \<or> rm_OperationID r = [] \<or> length (rm_OperationID r) > 128 \<or> contains_any (rm_OperationID r) blanks
        \<or> rm_Mailbox r = [] \<or> length (rm_Mailbox r) > 255 \<or> contains_any (rm_Mailbox r) line_breaks
        \<or> time_IsZero (rm_Now r) \<or> length (rm_Keywords r) > 128)
      \<and> list_all (\<lambda>k. \<not> (k = [] \<or> length k > 255 \<or> contains_any k line_breaks)) (rm_Keywords r))"

definition validMutation :: "Mutation \<Rightarrow> bool" where
  "validMutation m =
     (if mu_MessageRKey m = [] \<or> length (mu_MessageRKey m) > 512 \<or> mu_ExpectedRevision m = 0
        \<or> time_IsZero (mu_Now m) \<or> mu_OperationID m = [] \<or> length (mu_OperationID m) > 128
        \<or> contains_any (mu_OperationID m) blanks then False
      else (case mu_Operation m of
          Move \<Rightarrow> mu_Mailbox m \<noteq> [] \<and> length (mu_Mailbox m) \<le> 255 \<and> \<not> contains_any (mu_Mailbox m) line_breaks
        | OtherOperation x \<Rightarrow> False
        | _ \<Rightarrow> mu_Mailbox m = []))"

definition validState :: "MessageStateRecord \<Rightarrow> bytes \<Rightarrow> bool" where
  "validState st rkey =
     (if ms_Type st \<noteq> MessageStateCollection \<or> ms_Message st \<noteq> rkey \<or> ms_Revision st = 0
        \<or> length (elems (ms_MailboxIDs st)) = 0 \<or> length (elems (ms_MailboxIDs st)) > 32
        \<or> length (elems (ms_Keywords st)) > 128 then False
      else list_all (\<lambda>v. v \<noteq> []) (elems (ms_MailboxIDs st) @ elems (ms_Keywords st)))"

section \<open>Keyword lists\<close>

fun normalize_loop :: "bytes list \<Rightarrow> bytes list \<Rightarrow> bytes list" where
  "normalize_loop seen [] = []"
| "normalize_loop seen (v # vs) =
     (if v \<in> set seen then normalize_loop seen vs else v # normalize_loop (v # seen) vs)"

definition normalize :: "bytes list \<Rightarrow> bytes list" where
  "normalize vs = sort (normalize_loop [] vs)"

definition add :: "bytes list \<Rightarrow> bytes \<Rightarrow> bytes list" where
  "add values v = (if v \<in> set values then values else sort (values @ [v]))"

definition remove :: "bytes list \<Rightarrow> bytes \<Rightarrow> bytes list" where
  "remove values v = filter (\<lambda>x. x \<noteq> v) values"

section \<open>Reading\<close>

text \<open>The common start of both operations: capability, message and state.\<close>

definition load_state :: "'s Repository \<Rightarrow> Target \<Rightarrow> bytes \<Rightarrow> ('s, Record \<times> MessageStateRecord) op" where
  "load_state repo target rkey =
     after (rp_Capabilities repo) (\<lambda>capabilities.
       if \<not> cp_CompareAndSwap capabilities then raise ErrUnsupported
       else after (rp_GetRecord repo target MessageCollection rkey) (\<lambda>_.
         after (rp_GetRecord repo target MessageStateCollection rkey) (\<lambda>stored.
           case state_of_json (rc_Value stored) of None \<Rightarrow> raise ErrIntegrity | Some st \<Rightarrow>
             if \<not> validState st rkey then raise ErrIntegrity else give (stored, st))))"

definition destination_folder :: "'s Repository \<Rightarrow> Target \<Rightarrow> bytes \<Rightarrow> ('s, bytes) op" where
  "destination_folder repo target name =
     (let folderID = FolderRKey name in
      after (rp_GetRecord repo target FolderCollection folderID) (\<lambda>folder.
        case folder_of_json (rc_Value folder) of None \<Rightarrow> raise ErrIntegrity | Some v \<Rightarrow>
          if fr_Type v \<noteq> FolderCollection \<or> fr_Name v \<noteq> name \<or> rc_RKey folder \<noteq> folderID
          then raise ErrIntegrity else give folderID))"

section \<open>Apply\<close>

text \<open>
  What the read part decides: the stored state is returned as it is (the operation was
  already applied), or a new state is to be written over the given content identifier.
\<close>

datatype prepared = Settled MessageStateRecord | Pending MessageStateRecord bytes

text \<open>The switch over the operation.\<close>

definition apply_operation :: "'s Repository \<Rightarrow> Target \<Rightarrow> Mutation \<Rightarrow> MessageStateRecord \<Rightarrow> ('s, MessageStateRecord) op" where
  "apply_operation repo target m st =
     (case mu_Operation m of
        MarkRead \<Rightarrow> give (st\<lparr>ms_Keywords := Some (add (elems (ms_Keywords st)) ''$seen'')\<rparr>)
      | MarkUnread \<Rightarrow> give (st\<lparr>ms_Keywords := Some (remove (elems (ms_Keywords st)) ''$seen'')\<rparr>)
      | Flag \<Rightarrow> give (st\<lparr>ms_Keywords := Some (add (elems (ms_Keywords st)) ''$flagged'')\<rparr>)
      | Unflag \<Rightarrow> give (st\<lparr>ms_Keywords := Some (remove (elems (ms_Keywords st)) ''$flagged'')\<rparr>)
      | Move \<Rightarrow> after (destination_folder repo target (mu_Mailbox m)) (\<lambda>folderID.
          give (st\<lparr>ms_MailboxIDs := Some [folderID]\<rparr>))
      | Tombstone \<Rightarrow> give (st\<lparr>ms_Tombstone := True, ms_DeletePending := False\<rparr>)
      | OtherOperation x \<Rightarrow> raise ErrInvalid)"

definition stamp :: "bytes \<Rightarrow> gtime \<Rightarrow> MessageStateRecord \<Rightarrow> MessageStateRecord" where
  "stamp operationID now st =
     st\<lparr>ms_Revision := ms_Revision st + 1, ms_UpdatedAt := format_RFC3339Nano now, ms_LastOperation := operationID\<rparr>"

definition Apply_prepare :: "syntax_api \<Rightarrow> 's Repository option \<Rightarrow> Target \<Rightarrow> Mutation \<Rightarrow> ('s, prepared) op" where
  "Apply_prepare sx repo target m =
     (case repo of None \<Rightarrow> raise ErrInvalid | Some rp \<Rightarrow>
      if ValidateFor sx target (tg_RepoDID target) \<noteq> Inr () \<or> \<not> validMutation m then raise ErrInvalid
      else after (load_state rp target (mu_MessageRKey m)) (\<lambda>(stored, st).
        if ms_LastOperation st = mu_OperationID m then give (Settled st)
        else if ms_Revision st \<noteq> mu_ExpectedRevision m then raise ErrStaleRevision
        else if ms_Tombstone st then raise ErrInvalid
        else after (apply_operation rp target m st) (\<lambda>st'.
          give (Pending (stamp (mu_OperationID m) (mu_Now m) st') (rc_CID stored)))))"

text \<open>The write and the check of what the provider returned.\<close>

definition store_state :: "'s Repository \<Rightarrow> Target \<Rightarrow> bytes \<Rightarrow> bytes \<Rightarrow> MessageStateRecord \<Rightarrow> bytes \<Rightarrow> ('s, MessageStateRecord) op" where
  "store_state repo target rkey operationID st cid s =
     (case rp_PutRecordCAS repo target MessageStateCollection rkey (AnyJSON (state_json st)) cid s of
        (Inl e, s') \<Rightarrow> (Inl (if errors_Is e ErrConflict then ErrStateConflict else e), s')
      | (Inr updated, s') \<Rightarrow>
          (case state_of_json (rc_Value updated) of None \<Rightarrow> (Inl ErrIntegrity, s') | Some verified \<Rightarrow>
             if \<not> validState verified rkey \<or> ms_Revision verified \<noteq> ms_Revision st
               \<or> ms_LastOperation verified \<noteq> operationID
             then (Inl ErrIntegrity, s') else (Inr verified, s')))"

definition Apply_finish :: "'s Repository option \<Rightarrow> Target \<Rightarrow> Mutation \<Rightarrow> prepared \<Rightarrow> ('s, MessageStateRecord) op" where
  "Apply_finish repo target m p =
     (case p of
        Settled st \<Rightarrow> give st
      | Pending st cid \<Rightarrow> (case repo of None \<Rightarrow> raise ErrInvalid | Some rp \<Rightarrow>
          store_state rp target (mu_MessageRKey m) (mu_OperationID m) st cid))"

definition Apply :: "syntax_api \<Rightarrow> 's Repository option \<Rightarrow> Target \<Rightarrow> Mutation \<Rightarrow> ('s, MessageStateRecord) op" where
  "Apply sx repo target m = after (Apply_prepare sx repo target m) (Apply_finish repo target m)"

section \<open>Replace\<close>

definition Replace_prepare :: "syntax_api \<Rightarrow> 's Repository option \<Rightarrow> Target \<Rightarrow> Replacement \<Rightarrow> ('s, prepared) op" where
  "Replace_prepare sx repo target r =
     (case repo of None \<Rightarrow> raise ErrInvalid | Some rp \<Rightarrow>
      if ValidateFor sx target (tg_RepoDID target) \<noteq> Inr () \<or> \<not> validReplacement r then raise ErrInvalid
      else after (load_state rp target (rm_MessageRKey r)) (\<lambda>(stored, st).
        if ms_LastOperation st = rm_OperationID r then give (Settled st)
        else if ms_Revision st \<noteq> rm_ExpectedRevision r then raise ErrStaleRevision
        else if ms_Tombstone st then raise ErrInvalid
        else after (destination_folder rp target (rm_Mailbox r)) (\<lambda>folderID.
          give (Pending (stamp (rm_OperationID r) (rm_Now r)
            (st\<lparr>ms_MailboxIDs := Some [folderID], ms_Keywords := Some (normalize (rm_Keywords r)),
                ms_Tombstone := rm_Tombstone r, ms_DeletePending := False, ms_Projection := zero_projection\<rparr>))
            (rc_CID stored)))))"

definition Replace_finish :: "'s Repository option \<Rightarrow> Target \<Rightarrow> Replacement \<Rightarrow> prepared \<Rightarrow> ('s, MessageStateRecord) op" where
  "Replace_finish repo target r p =
     (case p of
        Settled st \<Rightarrow> give st
      | Pending st cid \<Rightarrow> (case repo of None \<Rightarrow> raise ErrInvalid | Some rp \<Rightarrow>
          store_state rp target (rm_MessageRKey r) (rm_OperationID r) st cid))"

definition Replace :: "syntax_api \<Rightarrow> 's Repository option \<Rightarrow> Target \<Rightarrow> Replacement \<Rightarrow> ('s, MessageStateRecord) op" where
  "Replace sx repo target r = after (Replace_prepare sx repo target r) (Replace_finish repo target r)"

section \<open>Keyword lists are sets\<close>

lemma normalize_loop_set: "set (normalize_loop seen vs) = set vs - set seen"
  by (induction vs arbitrary: seen) auto

lemma normalize_loop_distinct: "distinct (normalize_loop seen vs)"
  by (induction vs arbitrary: seen) (auto simp: normalize_loop_set)

lemma normalize_spec [simp]: "set (normalize vs) = set vs" "distinct (normalize vs)" "sorted (normalize vs)"
  by (simp_all add: normalize_def normalize_loop_set normalize_loop_distinct)

lemma normalize_length: "length (normalize vs) \<le> length vs"
  by (metis normalize_spec(1,2) card_length distinct_card)

lemma set_add [simp]: "set (add vs v) = insert v (set vs)"
  by (auto simp: add_def)

lemma set_remove [simp]: "set (remove vs v) = set vs - {v}"
  by (auto simp: remove_def)

lemma add_keeps:
  "sorted vs \<Longrightarrow> sorted (add vs v)" "distinct vs \<Longrightarrow> distinct (add vs v)"
  by (auto simp: add_def)

lemma length_add: "length (add vs v) = (if v \<in> set vs then length vs else length vs + 1)"
  by (simp add: add_def)

lemma length_remove: "length (remove vs v) \<le> length vs"
  by (simp add: remove_def)

section \<open>What a mutation means\<close>

text \<open>
  A mailbox entry as the mail user sees it: the folders it is in, its keywords, whether
  it is deleted, and the revision as a number that does not wrap.
\<close>

record entry =
  en_folders :: "bytes set"
  en_keywords :: "bytes set"
  en_deleted :: bool
  en_revision :: nat

definition abs_state :: "MessageStateRecord \<Rightarrow> entry" where
  "abs_state st = \<lparr>en_folders = set (elems (ms_MailboxIDs st)), en_keywords = set (elems (ms_Keywords st)),
     en_deleted = ms_Tombstone st, en_revision = unat (ms_Revision st)\<rparr>"

definition entry_apply :: "Mutation \<Rightarrow> entry \<Rightarrow> entry" where
  "entry_apply m e = (case mu_Operation m of
       MarkRead \<Rightarrow> e\<lparr>en_keywords := insert ''$seen'' (en_keywords e)\<rparr>
     | MarkUnread \<Rightarrow> e\<lparr>en_keywords := en_keywords e - {''$seen''}\<rparr>
     | Flag \<Rightarrow> e\<lparr>en_keywords := insert ''$flagged'' (en_keywords e)\<rparr>
     | Unflag \<Rightarrow> e\<lparr>en_keywords := en_keywords e - {''$flagged''}\<rparr>
     | Move \<Rightarrow> e\<lparr>en_folders := {FolderRKey (mu_Mailbox m)}\<rparr>
     | Tombstone \<Rightarrow> e\<lparr>en_deleted := True\<rparr>
     | OtherOperation x \<Rightarrow> e)\<lparr>en_revision := Suc (en_revision e)\<rparr>"

definition entry_replace :: "Replacement \<Rightarrow> entry \<Rightarrow> entry" where
  "entry_replace r e = \<lparr>en_folders = {FolderRKey (rm_Mailbox r)}, en_keywords = set (rm_Keywords r),
     en_deleted = rm_Tombstone r, en_revision = Suc (en_revision e)\<rparr>"

text \<open>The state of a message in a view of the repository.\<close>

definition state_in :: "(bytes \<Rightarrow> bytes \<Rightarrow> Record option) \<Rightarrow> bytes \<Rightarrow> MessageStateRecord option" where
  "state_in vw k = Option.bind (vw MessageStateCollection k) (\<lambda>r. state_of_json (rc_Value r))"

lemma state_inE:
  assumes "state_in vw k = Some st"
  obtains r where "vw MessageStateCollection k = Some r" "state_of_json (rc_Value r) = Some st"
  using assms by (auto simp: state_in_def split: Option.bind_split_asm)

lemma state_in_utf8: "state_in vw k = Some st \<Longrightarrow> state_utf8 st"
  by (auto elim!: state_inE dest: state_of_json_utf8)

section \<open>A written state is read back\<close>

lemma FolderRKey_utf8 [simp]: "utf8_valid (FolderRKey name)"
proof -
  have "ascii (FolderRKey name)"
    by (auto simp: FolderRKey_def ascii_def byte_def list_all_append
        intro: lower_hex_ascii[OF lower_hex_encode, unfolded ascii_def byte_def])
  then show ?thesis by (rule utf8_valid_ascii)
qed

lemma seen_flagged_utf8 [simp]: "utf8_valid ''$seen''" "utf8_valid ''$flagged''"
  by (simp_all add: byte_def)

lemma clean_stamp:
  assumes "state_utf8 st" and "utf8_valid op"
  shows "clean_state (stamp op now st) = (stamp op now st)\<lparr>ms_UpdatedAt := to_valid_utf8 (format_RFC3339Nano now)\<rparr>"
  using assms by (simp add: clean_state_def stamp_def state_utf8_def)

lemma stamp_abs:
  assumes "ms_Revision st + 1 \<noteq> 0"
  shows "abs_state (stamp op now st) = (abs_state st)\<lparr>en_revision := Suc (unat (ms_Revision st))\<rparr>"
  using assms by (simp add: abs_state_def stamp_def unatSuc[of "ms_Revision st"] add.commute)

text \<open>A successful switch changes the state like this, whatever the provider.\<close>

definition effect :: "Mutation \<Rightarrow> MessageStateRecord \<Rightarrow> MessageStateRecord" where
  "effect m st = (case mu_Operation m of
       MarkRead \<Rightarrow> st\<lparr>ms_Keywords := Some (add (elems (ms_Keywords st)) ''$seen'')\<rparr>
     | MarkUnread \<Rightarrow> st\<lparr>ms_Keywords := Some (remove (elems (ms_Keywords st)) ''$seen'')\<rparr>
     | Flag \<Rightarrow> st\<lparr>ms_Keywords := Some (add (elems (ms_Keywords st)) ''$flagged'')\<rparr>
     | Unflag \<Rightarrow> st\<lparr>ms_Keywords := Some (remove (elems (ms_Keywords st)) ''$flagged'')\<rparr>
     | Move \<Rightarrow> st\<lparr>ms_MailboxIDs := Some [FolderRKey (mu_Mailbox m)]\<rparr>
     | Tombstone \<Rightarrow> st\<lparr>ms_Tombstone := True, ms_DeletePending := False\<rparr>
     | OtherOperation x \<Rightarrow> st)"

lemma destination_folder_give: "destination_folder repo target name s = (Inr f, s') \<Longrightarrow> f = FolderRKey name"
  by (auto simp: destination_folder_def Let_def give_def raise_def split: option.splits if_splits elim!: after_InrE)

lemma apply_operation_effect:
  "apply_operation repo target m st s = (Inr st', s') \<Longrightarrow> st' = effect m st"
  by (cases "mu_Operation m")
    (auto simp: apply_operation_def effect_def give_def raise_def elim!: after_InrE dest: destination_folder_give)

lemma effect_fields [simp]:
  "ms_Revision (effect m st) = ms_Revision st" "ms_Type (effect m st) = ms_Type st"
  "ms_Message (effect m st) = ms_Message st"
  by (simp_all add: effect_def split: Operation.split)

lemma effect_utf8: "state_utf8 st \<Longrightarrow> state_utf8 (effect m st)"
  by (cases "mu_Operation m") (auto simp: effect_def state_utf8_def list_all_iff)

lemma effect_abs: "(abs_state (effect m st))\<lparr>en_revision := Suc (unat (ms_Revision st))\<rparr> = entry_apply m (abs_state st)"
  by (cases "mu_Operation m") (simp_all add: effect_def abs_state_def entry_apply_def)

lemma effect_keywords_length: "length (elems (ms_Keywords (effect m st))) \<le> length (elems (ms_Keywords st)) + 1"
  using length_remove[of "elems (ms_Keywords st)" "''$seen''"] length_remove[of "elems (ms_Keywords st)" "''$flagged''"]
  by (cases "mu_Operation m") (simp_all add: effect_def length_add le_SucI)

lemma effect_valid:
  assumes "validState st k" and "length (elems (ms_Keywords (effect m st))) \<le> 128"
  shows "validState (effect m st) k"
  using assms
  by (cases "mu_Operation m") (auto simp: effect_def validState_def list_all_iff split: if_splits)

section \<open>The protocol both operations follow\<close>

text \<open>
  \<open>Apply\<close> and \<open>Replace\<close> differ only in how the new state is computed from the old one, so
  they are instances of one protocol.
\<close>

definition protocol ::
  "'s Repository \<Rightarrow> Target \<Rightarrow> bytes \<Rightarrow> bytes \<Rightarrow> u64 \<Rightarrow> gtime \<Rightarrow> (MessageStateRecord \<Rightarrow> ('s, MessageStateRecord) op)
     \<Rightarrow> ('s, MessageStateRecord) op" where
  "protocol repo target k op expected now change =
     after (load_state repo target k) (\<lambda>(stored, st).
       if ms_LastOperation st = op then give st
       else if ms_Revision st \<noteq> expected then raise ErrStaleRevision
       else if ms_Tombstone st then raise ErrInvalid
       else after (change st) (\<lambda>st'. store_state repo target k op (stamp op now st') (rc_CID stored)))"

lemma after_assoc: "after (after m f) g = after m (\<lambda>x. after (f x) g)"
  by (auto simp: after_def fun_eq_iff split: prod.splits sum.splits)

lemma after_give [simp]: "after (give x) f = f x" "after (raise e) f = raise e"
  by (auto simp: after_def give_def raise_def)

lemma after_if: "after (if c then m else m') f = (if c then after m f else after m' f)"
  by simp

lemma Apply_protocol:
  "Apply sx (Some repo) target m =
     (if ValidateFor sx target (tg_RepoDID target) \<noteq> Inr () \<or> \<not> validMutation m then raise ErrInvalid
      else protocol repo target (mu_MessageRKey m) (mu_OperationID m) (mu_ExpectedRevision m) (mu_Now m)
        (apply_operation repo target m))"
  by (simp add: Apply_def Apply_prepare_def Apply_finish_def protocol_def after_assoc case_prod_unfold after_if
      cong: if_cong)

definition replace_change :: "'s Repository \<Rightarrow> Target \<Rightarrow> Replacement \<Rightarrow> MessageStateRecord \<Rightarrow> ('s, MessageStateRecord) op" where
  "replace_change repo target r st =
     after (destination_folder repo target (rm_Mailbox r)) (\<lambda>folderID.
       give (st\<lparr>ms_MailboxIDs := Some [folderID], ms_Keywords := Some (normalize (rm_Keywords r)),
         ms_Tombstone := rm_Tombstone r, ms_DeletePending := False, ms_Projection := zero_projection\<rparr>))"

lemma Replace_protocol:
  "Replace sx (Some repo) target r =
     (if ValidateFor sx target (tg_RepoDID target) \<noteq> Inr () \<or> \<not> validReplacement r then raise ErrInvalid
      else protocol repo target (rm_MessageRKey r) (rm_OperationID r) (rm_ExpectedRevision r) (rm_Now r)
        (replace_change repo target r))"
  by (simp add: Replace_def Replace_prepare_def Replace_finish_def protocol_def replace_change_def after_assoc
      case_prod_unfold after_if cong: if_cong)

text \<open>The effect of a replacement, and when either effect is written without loss.\<close>

definition replace_effect :: "Replacement \<Rightarrow> MessageStateRecord \<Rightarrow> MessageStateRecord" where
  "replace_effect r st = st\<lparr>ms_MailboxIDs := Some [FolderRKey (rm_Mailbox r)],
     ms_Keywords := Some (normalize (rm_Keywords r)), ms_Tombstone := rm_Tombstone r, ms_DeletePending := False,
     ms_Projection := zero_projection\<rparr>"

lemma replace_change_effect: "replace_change repo target r st s = (Inr st', s') \<Longrightarrow> st' = replace_effect r st"
  by (auto simp: replace_change_def replace_effect_def give_def elim!: after_InrE dest: destination_folder_give)

lemma replace_effect_utf8:
  "state_utf8 st \<Longrightarrow> list_all utf8_valid (rm_Keywords r) \<Longrightarrow> state_utf8 (replace_effect r st)"
  by (auto simp: replace_effect_def state_utf8_def list_all_iff)

lemma replace_effect_abs:
  "(abs_state (replace_effect r st))\<lparr>en_revision := Suc (unat (ms_Revision st))\<rparr> = entry_replace r (abs_state st)"
  by (simp add: replace_effect_def abs_state_def entry_replace_def)

lemma replace_effect_valid:
  "validReplacement r \<Longrightarrow> validState st k \<Longrightarrow> validState (replace_effect r st) k"
  using normalize_length[of "rm_Keywords r"]
  by (auto simp: replace_effect_def validState_def validReplacement_def list_all_iff split: if_splits)

lemma validState_UpdatedAt [simp]: "validState (st\<lparr>ms_UpdatedAt := x\<rparr>) k = validState st k"
  by (simp add: validState_def)

lemma stamp_valid: "validState st k \<Longrightarrow> ms_Revision st + 1 \<noteq> 0 \<Longrightarrow> validState (stamp op now st) k"
  by (auto simp: stamp_def validState_def split: if_splits)

context cas_repository
begin

lemma load_state_eq:
  assumes "inv s"
  shows "load_state repo target k s =
    (case (view s MessageCollection k, view s MessageStateCollection k) of
       (Some _, Some stored) \<Rightarrow>
         (case state_of_json (rc_Value stored) of
            Some st \<Rightarrow> if validState st k then (Inr (stored, st), s) else (Inl ErrIntegrity, s)
          | None \<Rightarrow> (Inl ErrIntegrity, s))
     | _ \<Rightarrow> (Inl ErrNotFound, s))"
  using capabilities[OF assms] get_record[OF assms]
  by (auto simp: load_state_def after_def give_def raise_def split: option.splits)

lemma destination_folder_pure: "inv s \<Longrightarrow> snd (destination_folder repo target name s) = s"
  by (auto simp: destination_folder_def after_def give_def raise_def get_record Let_def split: option.splits)

lemma store_state_ok:
  assumes "inv s" and "store_state repo target k op st cid s = (Inr v, s')"
  shows "inv s'" and "v = clean_state st" and "validState v k" and "ms_LastOperation v = op"
    and "state_in (view s') k = Some v"
    and "\<And>c' k'. (c', k') \<noteq> (MessageStateCollection, k) \<Longrightarrow> view s' c' k' = view s c' k'"
    and "\<exists>old. view s MessageStateCollection k = Some old \<and> rc_CID old = cid"
proof -
  from assms(2) obtain r where run: "rp_PutRecordCAS repo target MessageStateCollection k (AnyJSON (state_json st)) cid s = (Inr r, s')"
    and dec: "state_of_json (rc_Value r) = Some v" "validState v k" "ms_LastOperation v = op"
    by (auto simp: store_state_def split: prod.splits sum.splits option.splits if_splits)
  note ok = cas_succeeds[OF assms(1) run]
  then have val: "rc_Value r = state_json st" by simp
  show "inv s'" "v = clean_state st" "validState v k" "ms_LastOperation v = op" "state_in (view s') k = Some v"
    using ok dec val by (auto simp: state_in_def state_json_clean)
  show "\<And>c' k'. (c', k') \<noteq> (MessageStateCollection, k) \<Longrightarrow> view s' c' k' = view s c' k'" using ok by blast
  show "\<exists>old. view s MessageStateCollection k = Some old \<and> rc_CID old = cid"
    by (rule cas_success_matches[OF assms(1) run])
qed

text \<open>A successful run either finds the operation already applied, or writes its effect once.\<close>

lemma protocol_ok:
  assumes inv: "inv s" and run: "protocol repo target k op expected now change s = (Inr v, s')"
    and pure: "\<And>st. snd (change st s) = s" and eff: "\<And>st st' s''. change st s = (Inr st', s'') \<Longrightarrow> st' = eff st"
  obtains (settled) stored where "s' = s" "view s MessageStateCollection k = Some stored"
      "state_of_json (rc_Value stored) = Some v"
      "ms_LastOperation v = op" "validState v k" "view s MessageCollection k \<noteq> None"
  | (written) stored old where "view s MessageStateCollection k = Some stored"
      "state_of_json (rc_Value stored) = Some old" "validState old k"
      "ms_LastOperation old \<noteq> op" "ms_Revision old = expected" "\<not> ms_Tombstone old" "view s MessageCollection k \<noteq> None"
      "store_state repo target k op (stamp op now (eff old)) (rc_CID stored) s = (Inr v, s')"
proof -
  from run inv obtain stored st where view: "view s MessageCollection k \<noteq> None"
    "view s MessageStateCollection k = Some stored" "state_of_json (rc_Value stored) = Some st" "validState st k"
    and rest: "(if ms_LastOperation st = op then give st
       else if ms_Revision st \<noteq> expected then raise ErrStaleRevision
       else if ms_Tombstone st then raise ErrInvalid
       else after (change st) (\<lambda>st'. store_state repo target k op (stamp op now st') (rc_CID stored))) s = (Inr v, s')"
    by (auto simp: protocol_def load_state_eq after_def split: option.splits if_splits)
  show thesis
  proof (cases "ms_LastOperation st = op")
    case True
    with rest view show thesis by (intro settled[of stored]) (auto simp: give_def)
  next
    case False
    with rest obtain st' where ch: "change st s = (Inr st', s)" "ms_Revision st = expected" "\<not> ms_Tombstone st"
      "store_state repo target k op (stamp op now st') (rc_CID stored) s = (Inr v, s')"
      using pure[of st] by (auto simp: raise_def split: if_splits elim!: after_InrE)
    with eff[OF ch(1)] view False show thesis by (intro written[of stored st]) auto
  qed
qed

lemma state_in_load:
  assumes "inv s" and "state_in (view s) k = Some st" and "validState st k" and "view s MessageCollection k \<noteq> None"
  obtains stored where "load_state repo target k s = (Inr (stored, st), s)"
  using assms by (auto simp: load_state_eq elim!: state_inE)

lemma protocol_settles:
  assumes inv: "inv s" and run: "protocol repo target k op expected now change s = (Inr v, s')"
    and pure: "\<And>st. snd (change st s) = s" and eff: "\<And>st st' s''. change st s = (Inr st', s'') \<Longrightarrow> st' = eff st"
  shows "inv s' \<and> state_in (view s') k = Some v \<and> validState v k \<and> ms_LastOperation v = op
    \<and> view s' MessageCollection k \<noteq> None
    \<and> (\<forall>c' k'. (c', k') \<noteq> (MessageStateCollection, k) \<longrightarrow> view s' c' k' = view s c' k')"
proof (rule protocol_ok[OF inv run pure, where eff = eff])
  fix stored assume "s' = s" "view s MessageStateCollection k = Some stored"
      "state_of_json (rc_Value stored) = Some v" "ms_LastOperation v = op" "validState v k"
      "view s MessageCollection k \<noteq> None"
  with inv show ?thesis by (simp add: state_in_def)
next
  fix stored old assume msg: "view s MessageCollection k \<noteq> None"
    and w: "store_state repo target k op (stamp op now (eff old)) (rc_CID stored) s = (Inr v, s')"
  note ok = store_state_ok[OF inv w]
  have "view s' MessageCollection k = view s MessageCollection k"
    by (rule ok(6)) (simp add: MessageCollection_def MessageStateCollection_def)
  with msg have "view s' MessageCollection k \<noteq> None" by simp
  with ok show ?thesis by blast
qed (rule eff)

text \<open>What later runs of the protocol do once an operation is settled.\<close>

lemma protocol_after:
  assumes "inv s" and "state_in (view s) k = Some v" and "validState v k" and "view s MessageCollection k \<noteq> None"
  shows "ms_LastOperation v = op \<Longrightarrow> protocol repo target k op expected now change s = (Inr v, s)"
    and "ms_LastOperation v \<noteq> op \<Longrightarrow> ms_Revision v \<noteq> expected \<Longrightarrow>
      protocol repo target k op expected now change s = (Inl ErrStaleRevision, s)"
    and "ms_LastOperation v \<noteq> op \<Longrightarrow> ms_Tombstone v \<Longrightarrow>
      protocol repo target k op expected now change s
        = (Inl (if ms_Revision v \<noteq> expected then ErrStaleRevision else ErrInvalid), s)"
proof -
  obtain stored where "load_state repo target k s = (Inr (stored, v), s)"
    using state_in_load[OF assms] by blast
  then show "ms_LastOperation v = op \<Longrightarrow> protocol repo target k op expected now change s = (Inr v, s)"
    "ms_LastOperation v \<noteq> op \<Longrightarrow> ms_Revision v \<noteq> expected \<Longrightarrow>
      protocol repo target k op expected now change s = (Inl ErrStaleRevision, s)"
    "ms_LastOperation v \<noteq> op \<Longrightarrow> ms_Tombstone v \<Longrightarrow>
      protocol repo target k op expected now change s
        = (Inl (if ms_Revision v \<noteq> expected then ErrStaleRevision else ErrInvalid), s)"
    by (simp_all add: protocol_def give_def raise_def)
qed

text \<open>A run that fails has written nothing, if its effect fits the limits of a state.\<close>

lemma protocol_failed:
  assumes inv: "inv s" and run: "protocol repo target k op expected now change s = (Inl e, s')"
    and pure: "\<And>st. snd (change st s) = s" and eff: "\<And>st st' s''. change st s = (Inr st', s'') \<Longrightarrow> st' = eff st"
    and fits: "\<And>old. state_in (view s) k = Some old \<Longrightarrow> validState old k \<Longrightarrow>
      validState (eff old) k \<and> state_utf8 (eff old) \<and> ms_Revision (eff old) = ms_Revision old"
    and op: "utf8_valid op" and wrap: "expected + 1 \<noteq> 0"
  shows "s' = s"
proof (rule ccontr)
  assume ne: "s' \<noteq> s"
  with run inv obtain stored st st' where view: "view s MessageStateCollection k = Some stored"
    "state_of_json (rc_Value stored) = Some st" "validState st k" "ms_Revision st = expected"
    and st': "change st s = (Inr st', s)"
    and w: "store_state repo target k op (stamp op now st') (rc_CID stored) s = (Inl e, s')"
  proof -
    have same: "\<And>st x s''. change st s = (x, s'') \<Longrightarrow> s'' = s" using pure by (metis snd_conv)
    then show ?thesis using run inv ne that
      by (auto simp: protocol_def load_state_eq after_def give_def raise_def
          split: option.splits if_splits prod.splits sum.splits) blast+
  qed
  have st'_def: "st' = eff st" by (rule eff[OF st'])
  obtain r where cas: "rp_PutRecordCAS repo target MessageStateCollection k (AnyJSON (state_json (stamp op now st'))) (rc_CID stored) s = (Inr r, s')"
    using w ne cas_fails[OF inv]
    by (auto simp: store_state_def split: prod.splits sum.splits option.splits if_splits)
  have f: "validState st' k" "state_utf8 st'" "ms_Revision st' = expected"
    using fits[of st] view by (auto simp: st'_def state_in_def)
  have "state_of_json (rc_Value r) = Some (clean_state (stamp op now st'))"
    using cas_succeeds[OF inv cas] by (metis any_value.inject state_json_clean)
  moreover have "validState (clean_state (stamp op now st')) k"
    using stamp_valid[OF f(1), of op now] f(3) wrap clean_stamp[OF f(2) op] by simp
  moreover have "ms_LastOperation (clean_state (stamp op now st')) = op"
    "ms_Revision (clean_state (stamp op now st')) = ms_Revision (stamp op now st')"
    using op by (simp_all add: clean_state_def stamp_def)
  ultimately show False using w cas by (simp add: store_state_def)
qed

section \<open>Apply and Replace on any provider\<close>

lemma apply_operation_pure: "inv s \<Longrightarrow> snd (apply_operation repo target m st s) = s"
  using destination_folder_pure[of s "mu_Mailbox m"]
  by (cases "mu_Operation m") (auto simp: apply_operation_def after_def give_def raise_def split: prod.splits sum.splits)

lemma replace_change_pure: "inv s \<Longrightarrow> snd (replace_change repo target r st s) = s"
  using destination_folder_pure[of s "rm_Mailbox r"]
  by (auto simp: replace_change_def after_def give_def split: prod.splits sum.splits)

lemma protocol_meaning:
  assumes inv: "inv s" and run: "protocol repo target k op expected now change s = (Inr v, s')"
    and pure: "\<And>st. snd (change st s) = s" and eff: "\<And>st st' s''. change st s = (Inr st', s'') \<Longrightarrow> st' = eff st"
    and utf: "\<And>st. state_utf8 st \<Longrightarrow> state_utf8 (eff st)" and rev: "\<And>st. ms_Revision (eff st) = ms_Revision st"
  shows "(s' = s \<and> state_in (view s) k = Some v \<and> ms_LastOperation v = op)
    \<or> (\<exists>old. state_in (view s) k = Some old \<and> ms_LastOperation old \<noteq> op
          \<and> ms_Revision old = expected \<and> \<not> ms_Tombstone old
          \<and> abs_state v = (abs_state (eff old))\<lparr>en_revision := Suc (unat (ms_Revision old))\<rparr>)"
proof (rule protocol_ok[OF inv run pure, where eff = eff])
  fix stored assume "s' = s" "view s MessageStateCollection k = Some stored"
    "state_of_json (rc_Value stored) = Some v" "ms_LastOperation v = op"
  then show ?thesis by (simp add: state_in_def)
next
  fix stored old
  assume st: "view s MessageStateCollection k = Some stored" "state_of_json (rc_Value stored) = Some old"
    "ms_LastOperation old \<noteq> op" "ms_Revision old = expected" "\<not> ms_Tombstone old"
    and w: "store_state repo target k op (stamp op now (eff old)) (rc_CID stored) s = (Inr v, s')"
  note ok = store_state_ok[OF inv w]
  have utf8: "state_utf8 (eff old)" by (rule utf[OF state_of_json_utf8[OF st(2)]])
  have op: "utf8_valid op"
    using ok(2,4) by (simp add: clean_state_def stamp_def to_valid_utf8_eq_id)
  have v: "v = (stamp op now (eff old))\<lparr>ms_UpdatedAt := to_valid_utf8 (format_RFC3339Nano now)\<rparr>"
    using ok(2) clean_stamp[OF utf8 op] by simp
  have "ms_Revision (eff old) + 1 \<noteq> 0" using ok(3) by (auto simp: v validState_def stamp_def split: if_splits)
  then have "abs_state v = (abs_state (eff old))\<lparr>en_revision := Suc (unat (ms_Revision old))\<rparr>"
    using stamp_abs[of "eff old" op now] by (simp add: v abs_state_def rev)
  with st show ?thesis by (auto simp: state_in_def)
qed (rule eff)

lemma Apply_run:
  assumes "Apply sx (Some repo) target m s = (Inr v, s')"
  shows "ValidateFor sx target (tg_RepoDID target) = Inr ()" and "validMutation m"
    and "protocol repo target (mu_MessageRKey m) (mu_OperationID m) (mu_ExpectedRevision m) (mu_Now m)
      (apply_operation repo target m) s = (Inr v, s')"
  using assms by (auto simp: Apply_protocol raise_def split: if_splits)

lemma Replace_run:
  assumes "Replace sx (Some repo) target r s = (Inr v, s')"
  shows "ValidateFor sx target (tg_RepoDID target) = Inr ()" and "validReplacement r"
    and "protocol repo target (rm_MessageRKey r) (rm_OperationID r) (rm_ExpectedRevision r) (rm_Now r)
      (replace_change repo target r) s = (Inr v, s')"
  using assms by (auto simp: Replace_protocol raise_def split: if_splits)

lemma Apply_settles:
  assumes "inv s" and "Apply sx (Some repo) target m s = (Inr v, s')"
  shows "inv s' \<and> state_in (view s') (mu_MessageRKey m) = Some v \<and> validState v (mu_MessageRKey m)
    \<and> ms_LastOperation v = mu_OperationID m \<and> view s' MessageCollection (mu_MessageRKey m) \<noteq> None
    \<and> (\<forall>c' k'. (c', k') \<noteq> (MessageStateCollection, mu_MessageRKey m) \<longrightarrow> view s' c' k' = view s c' k')"
  by (rule protocol_settles[OF assms(1) Apply_run(3)[OF assms(2)] apply_operation_pure[OF assms(1)], where eff = "effect m"])
    (erule apply_operation_effect)

lemma Replace_settles:
  assumes "inv s" and "Replace sx (Some repo) target r s = (Inr v, s')"
  shows "inv s' \<and> state_in (view s') (rm_MessageRKey r) = Some v \<and> validState v (rm_MessageRKey r)
    \<and> ms_LastOperation v = rm_OperationID r \<and> view s' MessageCollection (rm_MessageRKey r) \<noteq> None
    \<and> (\<forall>c' k'. (c', k') \<noteq> (MessageStateCollection, rm_MessageRKey r) \<longrightarrow> view s' c' k' = view s c' k')"
  by (rule protocol_settles[OF assms(1) Replace_run(3)[OF assms(2)] replace_change_pure[OF assms(1)], where eff = "replace_effect r"])
    (erule replace_change_effect)

lemma Apply_meaning:
  assumes "inv s" and "Apply sx (Some repo) target m s = (Inr v, s')"
  shows "(s' = s \<and> state_in (view s) (mu_MessageRKey m) = Some v \<and> ms_LastOperation v = mu_OperationID m)
    \<or> (\<exists>old. state_in (view s) (mu_MessageRKey m) = Some old \<and> ms_LastOperation old \<noteq> mu_OperationID m
          \<and> ms_Revision old = mu_ExpectedRevision m \<and> \<not> ms_Tombstone old
          \<and> abs_state v = entry_apply m (abs_state old))"
  using protocol_meaning[OF assms(1) Apply_run(3)[OF assms(2)] apply_operation_pure[OF assms(1)], where eff = "effect m"]
  by (simp add: apply_operation_effect effect_utf8 effect_abs)

lemma Replace_meaning:
  assumes "inv s" and "Replace sx (Some repo) target r s = (Inr v, s')" and "list_all utf8_valid (rm_Keywords r)"
  shows "(s' = s \<and> state_in (view s) (rm_MessageRKey r) = Some v \<and> ms_LastOperation v = rm_OperationID r)
    \<or> (\<exists>old. state_in (view s) (rm_MessageRKey r) = Some old \<and> ms_LastOperation old \<noteq> rm_OperationID r
          \<and> ms_Revision old = rm_ExpectedRevision r \<and> \<not> ms_Tombstone old
          \<and> abs_state v = entry_replace r (abs_state old))"
  using protocol_meaning[OF assms(1) Replace_run(3)[OF assms(2)] replace_change_pure[OF assms(1)], where eff = "replace_effect r"] assms(3)
  by (simp add: replace_change_effect replace_effect_utf8 replace_effect_abs)
    (simp add: replace_effect_def)

text \<open>Once applied, an operation is not applied again, and no operation on the old revision is.\<close>

lemma Apply_again:
  assumes "inv s" and "Apply sx (Some repo) target m s = (Inr v, s')"
  shows "Apply sx (Some repo) target m s' = (Inr v, s')"
    and "validMutation m2 \<Longrightarrow> mu_MessageRKey m2 = mu_MessageRKey m \<Longrightarrow> mu_OperationID m2 \<noteq> mu_OperationID m \<Longrightarrow>
      mu_ExpectedRevision m2 \<noteq> ms_Revision v \<Longrightarrow> Apply sx (Some repo) target m2 s' = (Inl ErrStaleRevision, s')"
  using Apply_settles[OF assms] Apply_run(1,2)[OF assms(2)]
  by (auto simp: Apply_protocol intro!: protocol_after)

lemma Apply_deleted:
  assumes "inv s" and "state_in (view s) (mu_MessageRKey m) = Some v" and "validState v (mu_MessageRKey m)"
    and "ms_Tombstone v" and "ms_LastOperation v \<noteq> mu_OperationID m"
  shows "\<exists>e. Apply sx (Some repo) target m s = (Inl e, s)"
proof (cases "view s MessageCollection (mu_MessageRKey m)")
  case None
  with assms(1) show ?thesis
    by (simp add: Apply_protocol protocol_def raise_def load_state_eq after_def)
next
  case (Some r)
  then show ?thesis
    using protocol_after(3)[OF assms(1,2,3) _ assms(5,4)] by (simp add: Apply_protocol raise_def)
qed

lemma Apply_error:
  assumes inv: "inv s" and run: "Apply sx (Some repo) target m s = (Inl e, s')"
    and "utf8_valid (mu_OperationID m)" and "mu_ExpectedRevision m + 1 \<noteq> 0"
    and room: "\<And>old. state_in (view s) (mu_MessageRKey m) = Some old \<Longrightarrow> length (elems (ms_Keywords old)) < 128"
  shows "s' = s"
proof (cases "ValidateFor sx target (tg_RepoDID target) \<noteq> Inr () \<or> \<not> validMutation m")
  case True
  with run show ?thesis by (auto simp: Apply_protocol raise_def)
next
  case False
  with run have prot: "protocol repo target (mu_MessageRKey m) (mu_OperationID m) (mu_ExpectedRevision m) (mu_Now m)
      (apply_operation repo target m) s = (Inl e, s')" by (simp add: Apply_protocol)
  have fits: "validState (effect m old) (mu_MessageRKey m) \<and> state_utf8 (effect m old) \<and> ms_Revision (effect m old) = ms_Revision old"
    if "state_in (view s) (mu_MessageRKey m) = Some old" "validState old (mu_MessageRKey m)" for old
    using that room[OF that(1)] effect_keywords_length[of m old]
    by (auto simp: effect_utf8 state_of_json_utf8 intro!: effect_valid elim!: state_inE)
  show ?thesis
    by (rule protocol_failed[OF inv prot apply_operation_pure[OF inv], where eff = "effect m"])
      (use assms fits in \<open>auto dest: apply_operation_effect\<close>)
qed

end

lemma MessageStateCollection_utf8 [simp]: "to_valid_utf8 MessageStateCollection = MessageStateCollection"
  by (simp add: MessageStateCollection_def to_valid_utf8_eq_id byte_def)

lemma state_json_blob_free: "ms_Type st = MessageStateCollection \<Longrightarrow> blob_free (state_json st)"
  by (cases "ms_MailboxIDs st"; cases "ms_Keywords st")
    (auto simp: state_json_def projection_json_def jfield_def jomit_def jstrs_def jstr_def list_all_iff
      MessageStateCollection_def to_valid_utf8_id byte_def)

text \<open>The destination of a move exists: a folder record of that name is stored under its key.\<close>

definition folder_in :: "(bytes \<Rightarrow> bytes \<Rightarrow> Record option) \<Rightarrow> bytes \<Rightarrow> bool" where
  "folder_in vw name \<longleftrightarrow> (\<exists>r f. vw FolderCollection (FolderRKey name) = Some r \<and> folder_of_json (rc_Value r) = Some f
     \<and> fr_Type f = FolderCollection \<and> fr_Name f = name)"

context live_repository
begin

lemma destination_folder_found:
  assumes "inv s" and "folder_in (view s) name"
  shows "destination_folder repo target name s = (Inr (FolderRKey name), s)"
  using assms view_rkey[OF assms(1)]
  by (auto simp: folder_in_def destination_folder_def after_def give_def Let_def get_record)

lemma apply_operation_runs:
  assumes "inv s" and "validMutation m" and "mu_Operation m = Move \<Longrightarrow> folder_in (view s) (mu_Mailbox m)"
  shows "apply_operation repo target m st s = (Inr (effect m st), s)"
  using assms destination_folder_found[OF assms(1)]
  by (cases "mu_Operation m")
    (auto simp: apply_operation_def effect_def give_def validMutation_def after_def split: if_splits)

text \<open>A change of the current revision is written; what is returned depends on whether it fits a state.\<close>

lemma protocol_writes:
  fixes now :: gtime
  assumes inv: "inv s" and msg: "view s MessageCollection k \<noteq> None"
    and st: "state_in (view s) k = Some old" and ok: "validState old k"
    and op: "ms_LastOperation old \<noteq> op" and rev: "ms_Revision old = expected" and live: "\<not> ms_Tombstone old"
    and change: "change old s = (Inr changed, s)" and type: "ms_Type changed = MessageStateCollection"
  defines "new \<equiv> clean_state (stamp op now changed)"
  shows "\<exists>s'. inv s' \<and> state_in (view s') k = Some new
    \<and> (\<forall>c' k'. (c', k') \<noteq> (MessageStateCollection, k) \<longrightarrow> view s' c' k' = view s c' k')
    \<and> protocol repo target k op expected now change s =
      ((if validState new k \<and> ms_LastOperation new = op then Inr new else Inl ErrIntegrity), s')"
proof -
  let ?st = "stamp op now changed"
  obtain stored where v: "view s MessageStateCollection k = Some stored" "state_of_json (rc_Value stored) = Some old"
    using st by (rule state_inE)
  have load: "load_state repo target k s = (Inr (stored, old), s)"
    using inv msg v ok by (auto simp: load_state_eq)
  have "ms_Type ?st = MessageStateCollection" using type by (simp add: stamp_def)
  from cas_live_outcome[OF inv v(1) state_json_blob_free[OF this]]
  obtain r s' where cas: "rp_PutRecordCAS repo target MessageStateCollection k (AnyJSON (state_json ?st)) (rc_CID stored) s = (Inr r, s')"
    and r: "rc_Value r = state_json ?st" "inv s'" "view s' MessageStateCollection k = Some r"
    and frame: "\<And>c' k'. (c', k') \<noteq> (MessageStateCollection, k) \<Longrightarrow> view s' c' k' = view s c' k'"
    by metis
  have dec: "state_of_json (rc_Value r) = Some new" by (simp add: r new_def state_json_clean)
  have "ms_Revision new = ms_Revision ?st" by (simp add: new_def clean_state_def)
  then have "store_state repo target k op ?st (rc_CID stored) s =
      ((if validState new k \<and> ms_LastOperation new = op then Inr new else Inl ErrIntegrity), s')"
    using cas dec by (simp add: store_state_def)
  then have "protocol repo target k op expected now change s =
      ((if validState new k \<and> ms_LastOperation new = op then Inr new else Inl ErrIntegrity), s')"
    using load op rev live change by (simp add: protocol_def)
  with r frame dec show ?thesis by (intro exI[of _ s']) (auto simp: state_in_def)
qed

lemma Apply_writes:
  assumes inv: "inv s" and tgt: "ValidateFor sx target (tg_RepoDID target) = Inr ()" and mu: "validMutation m"
    and st: "view s MessageCollection (mu_MessageRKey m) \<noteq> None"
      "state_in (view s) (mu_MessageRKey m) = Some old" "validState old (mu_MessageRKey m)"
      "ms_LastOperation old \<noteq> mu_OperationID m" "ms_Revision old = mu_ExpectedRevision m" "\<not> ms_Tombstone old"
    and dest: "mu_Operation m = Move \<Longrightarrow> folder_in (view s) (mu_Mailbox m)"
  defines "new \<equiv> clean_state (stamp (mu_OperationID m) (mu_Now m) (effect m old))"
  shows "\<exists>s'. inv s' \<and> state_in (view s') (mu_MessageRKey m) = Some new
    \<and> (\<forall>c' k'. (c', k') \<noteq> (MessageStateCollection, mu_MessageRKey m) \<longrightarrow> view s' c' k' = view s c' k')
    \<and> Apply sx (Some repo) target m s =
      ((if validState new (mu_MessageRKey m) \<and> ms_LastOperation new = mu_OperationID m then Inr new else Inl ErrIntegrity), s')"
proof -
  have "ms_Type (effect m old) = MessageStateCollection" using st(3) by (auto simp: validState_def split: if_splits)
  moreover have "apply_operation repo target m old s = (Inr (effect m old), s)"
    by (rule apply_operation_runs[OF inv mu dest])
  ultimately show ?thesis
    using tgt mu protocol_writes[OF inv st, where change = "apply_operation repo target m" and now = "mu_Now m"]
    unfolding new_def by (auto simp: Apply_protocol)
qed

end

section \<open>A small mailbox\<close>

text \<open>One owner, one space, one message with its first state: the input at which the properties are shown to apply.\<close>

definition demo_session :: Session where "demo_session = OwnerSession ''did:a''"
definition demo_target :: Target where "demo_target = memory_target ''did:a'' ''mail''"

definition demo_state :: "bytes list \<Rightarrow> MessageStateRecord" where
  "demo_state keywords = \<lparr>ms_Type = MessageStateCollection, ms_Message = ''m1'', ms_MailboxIDs = Some [''folder-inbox''],
     ms_Keywords = Some keywords, ms_DeletePending = False, ms_Tombstone = False, ms_Revision = 1,
     ms_UpdatedAt = [], ms_LastOperation = [], ms_Projection = zero_projection\<rparr>"

definition demo_create :: "bytes \<Rightarrow> bytes \<Rightarrow> json \<Rightarrow> Write" where
  "demo_create c k j = \<lparr>wr_Action = Create, wr_Collection = c, wr_RKey = k, wr_Value = AnyJSON j, wr_SwapCID = []\<rparr>"

definition demo_folder :: FolderRecord where
  "demo_folder = fo_Record (NewFolder ''Work'' [] 7)"

definition demo_backend :: "bytes list \<Rightarrow> Backend" where
  "demo_backend keywords = snd (mem_ApplyWrites demo_session demo_target
     [demo_create MessageCollection ''m1'' (JObj []),
      demo_create MessageStateCollection ''m1'' (state_json (demo_state keywords)),
      demo_create FolderCollection (FolderRKey ''Work'') (folder_json demo_folder)]
     (snd (mem_EnsureMailbox demo_session ''did:a'' ''mail'' NewBackend)))"

definition demo_mutation :: "Operation \<Rightarrow> bytes \<Rightarrow> Mutation" where
  "demo_mutation op name = \<lparr>mu_MessageRKey = ''m1'', mu_ExpectedRevision = 1, mu_OperationID = name, mu_Operation = op,
     mu_Mailbox = [], mu_Now = unix_epoch\<rparr>"

lemma demo_reachable: "mem_reachable (demo_backend ks)"
proof -
  have "mem_reachable (snd (mem_EnsureMailbox demo_session ''did:a'' ''mail'' NewBackend))"
    by (metis mem_reachable.start mem_reachable.step mem_step.ensure prod.collapse)
  then show ?thesis unfolding demo_backend_def
    by (metis mem_reachable.step mem_step.batch prod.collapse)
qed

lemma demo_walk:
  "findBlobCIDs (state_json (demo_state ks)) = Inr []" "findBlobCIDs (folder_json demo_folder) = Inr []"
proof -
  show "findBlobCIDs (state_json (demo_state ks)) = Inr []"
    by (simp add: findBlobCIDs_def walk_blob_free state_json_blob_free demo_state_def)
  have "utf8_valid FolderCollection" "FolderCollection \<noteq> ''blob''" by (simp_all add: FolderCollection_def byte_def)
  then show "findBlobCIDs (folder_json demo_folder) = Inr []"
    by (simp add: findBlobCIDs_def walk_blob_free folder_json_def demo_folder_def NewFolder_def jfield_def jomit_def jstr_def
        own_blob_cid_def)
qed

lemma FolderRKey_key: "validKey (FolderRKey name)"
proof -
  have hex: "list_all key_char h" if "lower_hex h" for h
    using that by (auto simp: lower_hex_def list_all_iff key_char_def Let_def)
  have "list_all key_char ''folder-''" by code_simp
  then show ?thesis
    using hex[OF lower_hex_encode] by (simp add: validKey_def FolderRKey_def length_sha256)
qed

lemma demo_names:
  "validCollection MessageCollection" "validCollection MessageStateCollection" "validCollection FolderCollection"
  "validKey ''m1''" "validKey ''mail''"
  by code_simp+

lemma collections_distinct [simp]:
  "MessageCollection \<noteq> MessageStateCollection" "MessageStateCollection \<noteq> MessageCollection"
  "MessageCollection \<noteq> FolderCollection" "FolderCollection \<noteq> MessageCollection"
  "MessageStateCollection \<noteq> FolderCollection" "FolderCollection \<noteq> MessageStateCollection"
  by (simp_all add: MessageCollection_def MessageStateCollection_def FolderCollection_def)

lemma demo_space:
  "\<exists>sp. authWriteLocked demo_session demo_target (demo_backend ks) = Inr sp
    \<and> lookupRecord sp ''did:a'' MessageCollection ''m1'' \<noteq> None
    \<and> map_option sr_value (lookupRecord sp ''did:a'' MessageStateCollection ''m1'') = Some (state_json (demo_state ks))
    \<and> map_option sr_value (lookupRecord sp ''did:a'' FolderCollection (FolderRKey ''Work'')) = Some (folder_json demo_folder)"
  using demo_walk(1)[of ks] demo_walk(2) demo_names FolderRKey_key[of "''Work''"]
  by (simp add: demo_backend_def demo_session_def demo_target_def OwnerSession_def memory_target_def NewBackend_def
      mem_EnsureMailbox_def checkActive_def mem_ApplyWrites_def demo_create_def applyOneLocked_def store_value_def
      marshal_def authWriteLocked_def addBlobRefs_def put_record_def lookupRecord_def findBlobCIDs_def own_blob_cid_def
      Let_def has_prefix_def inner_def)

lemma session_invI:
  "mem_reachable b \<Longrightarrow> checkActive s = Inr () \<Longrightarrow> authWriteLocked s t b = Inr sp \<Longrightarrow> mem_session_inv s t b"
  by (simp add: mem_session_inv_def mem_reachable_inv)

lemma mem_view_cid: "mem_session_inv s t b \<Longrightarrow> mem_view t b c k = Some r \<Longrightarrow> rc_CID r = recordCID (rc_Value r)"
  by (auto simp: mem_session_inv_def mem_view_def exportRecord_def no_result_def mem_inv_def space_inv_def stored_ok_def
      split: option.splits)

lemma demo_state_utf8: "list_all utf8_valid ks \<Longrightarrow> state_utf8 (demo_state ks)"
  using to_valid_utf8_eq_id[of MessageStateCollection]
  by (simp add: state_utf8_def demo_state_def byte_def)

lemma demo_view:
  assumes "list_all utf8_valid ks"
  shows "mem_session_inv demo_session demo_target (demo_backend ks)"
    and "mem_view demo_target (demo_backend ks) MessageCollection ''m1'' \<noteq> None"
    and "state_in (mem_view demo_target (demo_backend ks)) ''m1'' = Some (demo_state ks)"
    and "folder_in (mem_view demo_target (demo_backend ks)) ''Work''"
proof -
  obtain sp where sp: "authWriteLocked demo_session demo_target (demo_backend ks) = Inr sp"
    "lookupRecord sp ''did:a'' MessageCollection ''m1'' \<noteq> None"
    "map_option sr_value (lookupRecord sp ''did:a'' MessageStateCollection ''m1'') = Some (state_json (demo_state ks))"
    "map_option sr_value (lookupRecord sp ''did:a'' FolderCollection (FolderRKey ''Work'')) = Some (folder_json demo_folder)"
    using demo_space by blast
  show "mem_session_inv demo_session demo_target (demo_backend ks)"
    by (rule session_invI[OF demo_reachable _ sp(1)]) (simp add: demo_session_def OwnerSession_def checkActive_def)
  show "mem_view demo_target (demo_backend ks) MessageCollection ''m1'' \<noteq> None"
    using sp(2) authWriteD(1)[OF sp(1)] by (simp add: mem_view_def demo_target_def memory_target_def)
  show "state_in (mem_view demo_target (demo_backend ks)) ''m1'' = Some (demo_state ks)"
    using sp(3) authWriteD(1)[OF sp(1)] state_json_decodes[OF demo_state_utf8[OF assms]]
    by (auto simp: mem_view_def demo_target_def memory_target_def state_in_def exportRecord_def)
  have "folder_of_json (folder_json demo_folder) = Some demo_folder"
    by (rule folder_json_decodes) (simp_all add: demo_folder_def NewFolder_def FolderCollection_def byte_def format_epoch)
  moreover have "fr_Type demo_folder = FolderCollection" "fr_Name demo_folder = ''Work''"
    by (simp_all add: demo_folder_def NewFolder_def)
  moreover have "rc_Value (exportRecord c k r no_result) = sr_value r" for c k r by (simp add: exportRecord_def)
  ultimately show "folder_in (mem_view demo_target (demo_backend ks)) ''Work''"
    using sp(4) authWriteD(1)[OF sp(1)]
    by (auto simp: mem_view_def demo_target_def memory_target_def folder_in_def)
qed

lemma demo_auth:
  "mem_reachable (demo_backend ks)" "checkActive demo_session = Inr ()"
  "\<exists>sp. authWriteLocked demo_session demo_target (demo_backend ks) = Inr sp"
  using demo_reachable demo_space by (auto simp: demo_session_def OwnerSession_def checkActive_def)

lemma demo_target_valid: "ValidateFor plain_syntax demo_target (tg_RepoDID demo_target) = Inr ()"
  by code_simp

lemma demo_mutation_valid: "validMutation (demo_mutation MarkRead ''op1'')" "validMutation (demo_mutation Flag ''op2'')"
  by code_simp+

lemma demo_state_valid: "length ks \<le> 128 \<Longrightarrow> list_all (\<lambda>v. v \<noteq> []) ks \<Longrightarrow> validState (demo_state ks) ''m1''"
  by (simp add: validState_def demo_state_def)

text \<open>The first state of an imported message passes the check.\<close>

lemma new_state_valid:
  assumes "NewMessagePair src blob = Inr p"
  shows "validState (mp_State p) (mp_RKey p)"
  using NewMessagePair_fields[OF assms] normalizeStrings_set[of "im_Keywords src"]
  by (auto simp: validState_def new_message_state_def Let_def list_all_iff) (metis FolderRKey_nonempty)

lemma demo_selectors [simp]:
  "mu_MessageRKey (demo_mutation op name) = ''m1''" "mu_ExpectedRevision (demo_mutation op name) = 1"
  "mu_OperationID (demo_mutation op name) = name" "mu_Operation (demo_mutation op name) = op"
  "ms_LastOperation (demo_state ks) = []" "ms_Revision (demo_state ks) = 1" "ms_Tombstone (demo_state ks) = False"
  "elems (ms_Keywords (demo_state ks)) = ks"
  by (simp_all add: demo_mutation_def demo_state_def)

lemma demo_apply:
  obtains v b' where "Apply plain_syntax (Some (memory_repo demo_session)) demo_target (demo_mutation MarkRead ''op1'')
    (demo_backend []) = (Inr v, b')" and "ms_Revision v = 2"
proof -
  let ?m = "demo_mutation MarkRead ''op1''"
  let ?new = "clean_state (stamp (mu_OperationID ?m) (mu_Now ?m) (effect ?m (demo_state [])))"
  have "validState ?new ''m1'' \<and> ms_LastOperation ?new = ''op1'' \<and> ms_Revision ?new = 2"
    by (simp add: clean_state_def stamp_def effect_def demo_state_def demo_mutation_def validState_def add_def byte_def)
  note new = this
  have "mem_session_inv demo_session demo_target (demo_backend [])"
    "mem_view demo_target (demo_backend []) MessageCollection (mu_MessageRKey ?m) \<noteq> None"
    "state_in (mem_view demo_target (demo_backend [])) (mu_MessageRKey ?m) = Some (demo_state [])"
    using demo_view[of "[]"] by simp_all
  from mem.Apply_writes[OF this(1) demo_target_valid demo_mutation_valid(1) this(2,3)] demo_state_valid[of "[]"]
  obtain b' where "Apply plain_syntax (Some (memory_repo demo_session)) demo_target ?m (demo_backend []) =
     ((if validState ?new ''m1'' \<and> ms_LastOperation ?new = ''op1'' then Inr ?new else Inl ErrIntegrity), b')"
    by auto
  with new show thesis by (intro that[of ?new b']) simp_all
qed

definition demo_replacement :: Replacement where
  "demo_replacement = \<lparr>rm_MessageRKey = ''m1'', rm_ExpectedRevision = 1, rm_OperationID = ''op1'', rm_Mailbox = ''Work'',
     rm_Keywords = [''$seen''], rm_Tombstone = False, rm_Now = unix_epoch\<rparr>"

lemma demo_replacement_selectors [simp]:
  "rm_MessageRKey demo_replacement = ''m1''" "rm_ExpectedRevision demo_replacement = 1"
  "rm_OperationID demo_replacement = ''op1''" "rm_Mailbox demo_replacement = ''Work''"
  "rm_Keywords demo_replacement = [''$seen'']" "rm_Tombstone demo_replacement = False"
  by (simp_all add: demo_replacement_def)

lemma demo_replace:
  obtains v b' where "Replace plain_syntax (Some (memory_repo demo_session)) demo_target demo_replacement
    (demo_backend []) = (Inr v, b')" and "ms_LastOperation v = ''op1''"
proof -
  let ?eff = "replace_effect demo_replacement (demo_state [])"
  let ?new = "clean_state (stamp ''op1'' (rm_Now demo_replacement) ?eff)"
  have ok: "validReplacement demo_replacement" by code_simp
  have new: "validState ?new ''m1''" "ms_LastOperation ?new = ''op1''"
    by (simp_all add: clean_state_def stamp_def replace_effect_def demo_state_def validState_def normalize_def byte_def)
  note view = demo_view[of "[]", simplified]
  have change: "replace_change (memory_repo demo_session) demo_target demo_replacement (demo_state []) (demo_backend [])
      = (Inr ?eff, demo_backend [])"
    using mem.destination_folder_found[OF view(1,4)]
    by (simp add: replace_change_def replace_effect_def after_def give_def)
  have "ms_Type ?eff = MessageStateCollection" by (simp add: replace_effect_def demo_state_def)
  with mem.protocol_writes[OF view(1) _ view(3) demo_state_valid, of "''op1''" 1
      "replace_change (memory_repo demo_session) demo_target demo_replacement" ?eff "rm_Now demo_replacement"]
    demo_view(2)[of "[]"] new change
  obtain b' where "protocol (memory_repo demo_session) demo_target ''m1'' ''op1'' 1 (rm_Now demo_replacement)
      (replace_change (memory_repo demo_session) demo_target demo_replacement) (demo_backend []) = (Inr ?new, b')"
    by auto
  then show thesis using ok new by (intro that[of ?new b']) (simp_all add: Replace_protocol demo_target_valid)
qed

section \<open>Properties\<close>

text \<open>C1. A successful \<open>Apply\<close> either finds the operation already recorded and changes
  nothing, or moves the live entry from the expected revision to the next one with exactly
  the effect of the operation on its folders, keywords and deletion mark. In both cases the
  returned state is what the repository now holds, it carries the operation identifier, and
  no other record of the mailbox changed.\<close>

theorem Apply_refines:
  assumes "mem_reachable b" and "checkActive s = Inr ()" and "authWriteLocked s t b = Inr sp"
    and "Apply sx (Some (memory_repo s)) t m b = (Inr v, b')"
  shows "state_in (mem_view t b') (mu_MessageRKey m) = Some v \<and> ms_LastOperation v = mu_OperationID m
    \<and> (\<forall>c k. (c, k) \<noteq> (MessageStateCollection, mu_MessageRKey m) \<longrightarrow> mem_view t b' c k = mem_view t b c k)
    \<and> (b' = b \<or> (\<exists>old. state_in (mem_view t b) (mu_MessageRKey m) = Some old
          \<and> ms_Revision old = mu_ExpectedRevision m \<and> \<not> ms_Tombstone old
          \<and> abs_state v = entry_apply m (abs_state old)))"
  using mem.Apply_settles[OF session_invI[OF assms(1-3)] assms(4)]
    mem.Apply_meaning[OF session_invI[OF assms(1-3)] assms(4)]
  by blast

theorem Apply_refines_witness:
  "\<exists>v b'. Apply plain_syntax (Some (memory_repo demo_session)) demo_target (demo_mutation MarkRead ''op1'')
      (demo_backend []) = (Inr v, b')
    \<and> state_in (mem_view demo_target b') ''m1'' = Some v \<and> ms_LastOperation v = ''op1''"
proof -
  obtain v b' where run: "Apply plain_syntax (Some (memory_repo demo_session)) demo_target (demo_mutation MarkRead ''op1'')
      (demo_backend []) = (Inr v, b')" by (rule demo_apply)
  obtain sp where "authWriteLocked demo_session demo_target (demo_backend []) = Inr sp" using demo_auth(3) by blast
  from Apply_refines[OF demo_auth(1,2) this run] run show ?thesis by auto
qed

text \<open>C2. A lost response can be retried: running the same mutation again returns the same
  state and changes nothing. A different mutation of the same message that expects any
  revision other than the one just written, in particular the revision both started
  from, is refused as stale and changes nothing.\<close>

theorem Apply_exactly_once:
  assumes "mem_reachable b" and "checkActive s = Inr ()" and "authWriteLocked s t b = Inr sp"
    and "Apply sx (Some (memory_repo s)) t m b = (Inr v, b')"
  shows "Apply sx (Some (memory_repo s)) t m b' = (Inr v, b')
    \<and> (\<forall>m2. validMutation m2 \<longrightarrow> mu_MessageRKey m2 = mu_MessageRKey m \<longrightarrow> mu_OperationID m2 \<noteq> mu_OperationID m \<longrightarrow>
          mu_ExpectedRevision m2 \<noteq> ms_Revision v \<longrightarrow>
          Apply sx (Some (memory_repo s)) t m2 b' = (Inl ErrStaleRevision, b'))"
  using mem.Apply_again[OF session_invI[OF assms(1-3)] assms(4)] by blast

theorem Apply_exactly_once_witness:
  "\<exists>v b'. Apply plain_syntax (Some (memory_repo demo_session)) demo_target (demo_mutation MarkRead ''op1'')
      (demo_backend []) = (Inr v, b')
    \<and> Apply plain_syntax (Some (memory_repo demo_session)) demo_target (demo_mutation MarkRead ''op1'') b' = (Inr v, b')
    \<and> Apply plain_syntax (Some (memory_repo demo_session)) demo_target (demo_mutation Flag ''op2'') b'
        = (Inl ErrStaleRevision, b')"
proof -
  obtain v b' where run: "Apply plain_syntax (Some (memory_repo demo_session)) demo_target (demo_mutation MarkRead ''op1'')
      (demo_backend []) = (Inr v, b')" and two: "ms_Revision v = 2" by (rule demo_apply)
  obtain sp where "authWriteLocked demo_session demo_target (demo_backend []) = Inr sp" using demo_auth(3) by blast
  from Apply_exactly_once[OF demo_auth(1,2) this run] run two demo_mutation_valid(2)
  show ?thesis by (intro exI[of _ v] exI[of _ b']) simp
qed

text \<open>C8. A mutation that returns an error has changed nothing, provided its operation
  identifier is UTF-8, the revision is not the largest 64-bit number and the state has
  room for one more keyword. (The three provisos are needed: see
  \<open>MarkRead_at_keyword_limit\<close>.)\<close>

theorem Apply_error_unchanged:
  assumes "mem_reachable b" and "checkActive s = Inr ()" and "authWriteLocked s t b = Inr sp"
    and "Apply sx (Some (memory_repo s)) t m b = (Inl e, b')"
    and "utf8_valid (mu_OperationID m)" and "mu_ExpectedRevision m \<noteq> -1"
    and "\<forall>old. state_in (mem_view t b) (mu_MessageRKey m) = Some old \<longrightarrow> length (elems (ms_Keywords old)) < 128"
  shows "b' = b"
proof -
  have "mu_ExpectedRevision m + 1 \<noteq> 0" using assms(6) by (metis add.commute add_eq_0_iff)
  with mem.Apply_error[OF session_invI[OF assms(1-3)] assms(4,5)] assms(7) show ?thesis by blast
qed

theorem Apply_error_unchanged_witness:
  "\<exists>e. Apply plain_syntax (Some (memory_repo demo_session)) demo_target (demo_mutation Move ''op3'') (demo_backend [])
     = (Inl e, demo_backend [])"
proof -
  obtain sp where sp: "authWriteLocked demo_session demo_target (demo_backend []) = Inr sp" using demo_auth(3) by blast
  obtain r b' where run: "Apply plain_syntax (Some (memory_repo demo_session)) demo_target (demo_mutation Move ''op3'')
      (demo_backend []) = (r, b')" by (cases "Apply plain_syntax (Some (memory_repo demo_session)) demo_target
        (demo_mutation Move ''op3'') (demo_backend [])")
  have "\<not> validMutation (demo_mutation Move ''op3'')" by code_simp
  with run obtain e where r: "r = Inl e" by (auto simp: Apply_protocol raise_def)
  have "b' = demo_backend []"
    by (rule Apply_error_unchanged[OF demo_auth(1,2) sp run[unfolded r]])
      (use demo_view(3)[of "[]"] in \<open>auto simp: byte_def\<close>)
  with run r show ?thesis by simp
qed

text \<open>C7. A well-formed mutation of the current revision of a live message succeeds, when
  the state has room for one more keyword, a move names an existing folder, the operation
  identifier is UTF-8 and the revision is not the largest 64-bit number.\<close>

theorem Apply_succeeds:
  assumes "mem_reachable b" and "checkActive s = Inr ()" and "authWriteLocked s t b = Inr sp"
    and "ValidateFor sx t (tg_RepoDID t) = Inr ()" and "validMutation m"
    and "mem_view t b MessageCollection (mu_MessageRKey m) \<noteq> None"
    and "state_in (mem_view t b) (mu_MessageRKey m) = Some old" and "validState old (mu_MessageRKey m)"
    and "ms_Revision old = mu_ExpectedRevision m" and "\<not> ms_Tombstone old"
    and "mu_Operation m = Move \<longrightarrow> folder_in (mem_view t b) (mu_Mailbox m)"
    and "length (elems (ms_Keywords old)) < 128" and "utf8_valid (mu_OperationID m)" and "mu_ExpectedRevision m \<noteq> -1"
  shows "\<exists>v b'. Apply sx (Some (memory_repo s)) t m b = (Inr v, b')"
proof (cases "ms_LastOperation old = mu_OperationID m")
  case True
  with mem.protocol_after(1)[OF session_invI[OF assms(1-3)] assms(7,8,6)] assms(4,5) show ?thesis
    by (auto simp: Apply_protocol)
next
  case False
  let ?new = "stamp (mu_OperationID m) (mu_Now m) (effect m old)"
  have utf: "state_utf8 (effect m old)"
    by (rule effect_utf8[OF state_in_utf8[OF assms(7)]])
  have "validState (effect m old) (mu_MessageRKey m)"
    using effect_keywords_length[of m old] assms(12) by (intro effect_valid[OF assms(8)]) simp
  moreover have "ms_Revision (effect m old) + 1 \<noteq> 0"
    using assms(9,14) by simp (metis add.commute add_eq_0_iff)
  ultimately have "validState (clean_state ?new) (mu_MessageRKey m)"
    unfolding clean_stamp[OF utf assms(13)] by (simp add: stamp_valid)
  moreover have "ms_LastOperation (clean_state ?new) = mu_OperationID m"
    using assms(13) by (simp add: clean_state_def stamp_def)
  ultimately show ?thesis
    using mem.Apply_writes[OF session_invI[OF assms(1-3)] assms(4-8) False assms(9,10)] assms(11) by auto
qed

theorem Apply_succeeds_witness:
  "\<exists>v b'. Apply plain_syntax (Some (memory_repo demo_session)) demo_target (demo_mutation MarkRead ''op1'')
      (demo_backend []) = (Inr v, b')"
proof -
  obtain sp where sp: "authWriteLocked demo_session demo_target (demo_backend []) = Inr sp" using demo_auth(3) by blast
  show ?thesis
    by (rule Apply_succeeds[OF demo_auth(1,2) sp demo_target_valid demo_mutation_valid(1), of "demo_state []"])
      (use demo_view[of "[]"] demo_state_valid[of "[]"] in \<open>auto simp: byte_def\<close>)
qed

text \<open>C26. The room for one more keyword is needed. Importing accepts 128 keywords and a state
  with 128 keywords is valid, but marking such a message as read writes a state with 129
  keywords and only then reports an integrity error. The stored state is no longer valid,
  so every later mutation of the message fails with the same error.\<close>

theorem MarkRead_at_keyword_limit:
  assumes "mem_reachable b" and "checkActive s = Inr ()" and "authWriteLocked s t b = Inr sp"
    and "ValidateFor sx t (tg_RepoDID t) = Inr ()" and "validMutation m" and "mu_Operation m = MarkRead"
    and "mem_view t b MessageCollection (mu_MessageRKey m) \<noteq> None"
    and "state_in (mem_view t b) (mu_MessageRKey m) = Some old" and "validState old (mu_MessageRKey m)"
    and "ms_LastOperation old \<noteq> mu_OperationID m" and "ms_Revision old = mu_ExpectedRevision m" and "\<not> ms_Tombstone old"
    and "length (elems (ms_Keywords old)) = 128" and "''$seen'' \<notin> set (elems (ms_Keywords old))"
  shows "\<exists>b'. Apply sx (Some (memory_repo s)) t m b = (Inl ErrIntegrity, b') \<and> b' \<noteq> b
    \<and> (\<forall>m'. validMutation m' \<longrightarrow> mu_MessageRKey m' = mu_MessageRKey m \<longrightarrow>
          Apply sx (Some (memory_repo s)) t m' b' = (Inl ErrIntegrity, b'))"
proof -
  let ?new = "clean_state (stamp (mu_OperationID m) (mu_Now m) (effect m old))"
  have "length (elems (ms_Keywords ?new)) = 129"
    using assms(6,13,14) by (simp add: clean_state_def stamp_def effect_def length_add)
  then have bad: "\<not> validState ?new (mu_MessageRKey m)" by (simp add: validState_def)
  obtain b' where inv': "mem_session_inv s t b'" and st: "state_in (mem_view t b') (mu_MessageRKey m) = Some ?new"
    and frame: "\<forall>c k. (c, k) \<noteq> (MessageStateCollection, mu_MessageRKey m) \<longrightarrow> mem_view t b' c k = mem_view t b c k"
    and run: "Apply sx (Some (memory_repo s)) t m b = (Inl ErrIntegrity, b')"
    using mem.Apply_writes[OF session_invI[OF assms(1-3)] assms(4,5,7-12)] assms(6) bad by auto
  have "mem_view t b' MessageCollection (mu_MessageRKey m) \<noteq> None"
    using frame assms(7) by (simp add: MessageCollection_def MessageStateCollection_def)
  then have "Apply sx (Some (memory_repo s)) t m' b' = (Inl ErrIntegrity, b')"
    if "validMutation m'" "mu_MessageRKey m' = mu_MessageRKey m" for m'
    using that assms(4) bad st
    by (auto simp: Apply_protocol protocol_def after_def mem.load_state_eq[OF inv'] elim!: state_inE split: option.splits)
  moreover have "b' \<noteq> b" using st assms(8,9) bad by auto
  ultimately show ?thesis using run by blast
qed

theorem MarkRead_at_keyword_limit_witness:
  "\<exists>b'. Apply plain_syntax (Some (memory_repo demo_session)) demo_target (demo_mutation MarkRead ''op1'')
      (demo_backend (replicate 128 ''k'')) = (Inl ErrIntegrity, b')
    \<and> Apply plain_syntax (Some (memory_repo demo_session)) demo_target (demo_mutation Flag ''op2'') b' = (Inl ErrIntegrity, b')"
proof -
  let ?ks = "replicate 128 ''k'' :: bytes list"
  have utf: "list_all utf8_valid ?ks" by (simp add: list_all_iff byte_def)
  obtain sp where sp: "authWriteLocked demo_session demo_target (demo_backend ?ks) = Inr sp" using demo_auth(3) by blast
  obtain b' where "Apply plain_syntax (Some (memory_repo demo_session)) demo_target (demo_mutation MarkRead ''op1'')
      (demo_backend ?ks) = (Inl ErrIntegrity, b')"
    and "\<forall>m'. validMutation m' \<longrightarrow> mu_MessageRKey m' = ''m1'' \<longrightarrow>
      Apply plain_syntax (Some (memory_repo demo_session)) demo_target m' b' = (Inl ErrIntegrity, b')"
    using MarkRead_at_keyword_limit[OF demo_auth(1,2) sp demo_target_valid demo_mutation_valid(1), of "demo_state ?ks"]
      demo_view[OF utf] demo_state_valid[of ?ks]
    by (auto simp: list_all_iff)
  then show ?thesis using demo_mutation_valid(2) by auto
qed

text \<open>C3. Read and write of a mutation are separate calls, and other sessions may run any
  operations in between. If the write is carried out all the same, the state it replaces
  is the very text that was read, up to a collision of SHA-256 on these two texts: no
  update made in between is lost.\<close>

theorem Apply_loses_no_update:
  assumes "mem_reachable b" and "checkActive s = Inr ()" and "authWriteLocked s t b = Inr sp"
    and "Apply_prepare sx (Some (memory_repo s)) t m b = (Inr (Pending new cid), b1)"
    and "(\<lambda>x y. \<exists>u. mem_step u x y)\<^sup>*\<^sup>* b1 b2" and "authWriteLocked s t b2 = Inr sp2"
    and "Apply_finish (Some (memory_repo s)) t m (Pending new cid) b2 = (Inr v, b3)"
  shows "\<exists>seen now. mem_view t b MessageStateCollection (mu_MessageRKey m) = Some seen
    \<and> mem_view t b2 MessageStateCollection (mu_MessageRKey m) = Some now
    \<and> (json_text (rc_Value now) = json_text (rc_Value seen)
        \<or> json_text (rc_Value now) \<noteq> json_text (rc_Value seen)
            \<and> sha256 (json_text (rc_Value now)) = sha256 (json_text (rc_Value seen)))"
proof -
  note inv = session_invI[OF assms(1-3)]
  obtain seen where seen: "mem_view t b MessageStateCollection (mu_MessageRKey m) = Some seen" "cid = rc_CID seen"
    and b1: "b1 = b"
    using assms(4) mem.apply_operation_pure[OF inv, of m]
    by (auto simp: Apply_prepare_def raise_def give_def mem.load_state_eq[OF inv] after_def
        split: if_splits option.splits prod.splits sum.splits) (metis snd_conv)+
  have "mem_reachable b2"
    using assms(5,1) unfolding b1 by (induction rule: rtranclp_induct) (auto intro: mem_reachable.step)
  then have inv2: "mem_session_inv s t b2" using assms(2,6) by (rule session_invI)
  from assms(7) have "store_state (memory_repo s) t (mu_MessageRKey m) (mu_OperationID m) new cid b2 = (Inr v, b3)"
    by (simp add: Apply_finish_def)
  from mem.store_state_ok(7)[OF inv2 this] obtain now
    where now: "mem_view t b2 MessageStateCollection (mu_MessageRKey m) = Some now" "rc_CID now = cid" by blast
  from mem_view_cid[OF inv2 now(1)] mem_view_cid[OF inv seen(1)] now(2) seen(2)
  have "recordCID (rc_Value now) = recordCID (rc_Value seen)" by simp
  then show ?thesis using seen now by (auto simp: recordCID_def hex_encode_inj)
qed

theorem Apply_loses_no_update_witness:
  "\<exists>new cid b1 v b3. Apply_prepare plain_syntax (Some (memory_repo demo_session)) demo_target
        (demo_mutation MarkRead ''op1'') (demo_backend []) = (Inr (Pending new cid), b1)
    \<and> Apply_finish (Some (memory_repo demo_session)) demo_target (demo_mutation MarkRead ''op1'') (Pending new cid) b1 = (Inr v, b3)
    \<and> (\<exists>seen now. mem_view demo_target (demo_backend []) MessageStateCollection ''m1'' = Some seen
        \<and> mem_view demo_target b1 MessageStateCollection ''m1'' = Some now)"
proof -
  let ?m = "demo_mutation MarkRead ''op1''" and ?r = "Some (memory_repo demo_session)"
  obtain sp where sp: "authWriteLocked demo_session demo_target (demo_backend []) = Inr sp" using demo_auth(3) by blast
  obtain v b3 where run: "Apply plain_syntax ?r demo_target ?m (demo_backend []) = (Inr v, b3)" by (rule demo_apply)
  obtain stored where load: "load_state (memory_repo demo_session) demo_target ''m1'' (demo_backend [])
      = (Inr (stored, demo_state []), demo_backend [])"
    using mem.state_in_load[OF demo_view(1,3) demo_state_valid demo_view(2), of "[]"] by auto
  have "mem_session_inv demo_session demo_target (demo_backend [])" using demo_view(1)[of "[]"] by simp
  from mem.apply_operation_runs[OF this demo_mutation_valid(1), of "demo_state []"] load
  have prep: "Apply_prepare plain_syntax ?r demo_target ?m (demo_backend [])
      = (Inr (Pending (stamp ''op1'' (mu_Now ?m) (effect ?m (demo_state []))) (rc_CID stored)), demo_backend [])"
    by (simp add: Apply_prepare_def demo_target_valid demo_mutation_valid after_def give_def)
  with run have fin: "Apply_finish ?r demo_target ?m
      (Pending (stamp ''op1'' (mu_Now ?m) (effect ?m (demo_state []))) (rc_CID stored)) (demo_backend []) = (Inr v, b3)"
    by (simp add: Apply_def)
  from Apply_loses_no_update[OF demo_auth(1,2) sp prep rtranclp.rtrancl_refl sp fin] prep fin
  show ?thesis by (metis demo_selectors(1))
qed



end
