(* ===== verification/Migrate.thy ===== *)
theory Migrate
  imports Memory
begin

text \<open>
  Package \<^verbatim>\<open>migrate\<close> (\<^verbatim>\<open>internal/migrate/migrate.go\<close> and \<^verbatim>\<open>verify.go\<close>): the copy of one
  mailbox of a source snapshot into a provider, and the comparison of what the provider then
  holds with the snapshot. Both run over any implementation of the repository interface, so they
  are operations on its state; the report and the verification that Go returns on every path,
  also with an error, are a second component of the state that is threaded through.

  The snapshot is the interface \<^verbatim>\<open>SourceSnapshot\<close>: a file opened read-only and immutable, whose
  reads are functions. \<open>sns_Stream\<close> is what a stream delivers, the messages in order and the
  error, if any, that the reader itself ends with; \<open>visit_all\<close> is the visit of them.
\<close>

section \<open>The source snapshot\<close>

record Space =
  sq_ID :: int
  sq_Owner :: bytes
  sq_Type :: bytes
  sq_Key :: bytes
  sq_User :: bytes
  sq_ModSeq :: u64

record Inventory =
  iv_Space :: Space
  iv_Folders :: int
  iv_LiveMessages :: int
  iv_ExpungedMessages :: int
  iv_OversizeMessages :: int
  iv_LiveBytes :: int

record SourceFolder =
  sf_Name :: bytes
  sf_Role :: bytes
  sf_UIDValidity :: u32
  sf_NextUID :: u32
  sf_Folder :: Folder

record SourceMessage =
  sm_LegacyRKey :: bytes
  sm_Role :: bytes
  sm_Imported :: ImportedMessage

record SourceSnapshot =
  sns_Inspect :: "bytes \<Rightarrow> bytes \<Rightarrow> Inventory result"
  sns_Folders :: "Space \<Rightarrow> SourceFolder list result"
  sns_Stream :: "Space \<Rightarrow> SourceMessage list \<times> unit result"

text \<open>The first error of the visitor ends the visit and is returned.\<close>

fun visit_all :: "('a \<Rightarrow> ('s, unit) op) \<Rightarrow> 'a list \<Rightarrow> unit result \<Rightarrow> ('s, unit) op" where
  "visit_all visit [] end_error = (\<lambda>s. (end_error, s))"
| "visit_all visit (m # ms) end_error = after (visit m) (\<lambda>_. visit_all visit ms end_error)"

definition Stream :: "SourceSnapshot \<Rightarrow> Space \<Rightarrow> (SourceMessage \<Rightarrow> ('s, unit) op) \<Rightarrow> ('s, unit) op" where
  "Stream snapshot space visit = (case sns_Stream snapshot space of (ms, end_error) \<Rightarrow> visit_all visit ms end_error)"

section \<open>Reports\<close>

record Options =
  op_RecipientDID :: bytes
  op_SpaceKey :: bytes
  op_Commit :: bool

record Mismatch =
  mm_Kind :: bytes
  mm_Key :: bytes
  mm_Detail :: bytes

record Verification =
  vf_SourceMessages :: nat
  vf_DestinationMessages :: nat
  vf_VerifiedMessages :: nat
  vf_SourceFolders :: nat
  vf_DestinationFolders :: nat
  vf_VerifiedFolders :: nat
  vf_Mismatches :: "Mismatch list"

definition no_verification :: Verification where
  "no_verification = \<lparr>vf_SourceMessages = 0, vf_DestinationMessages = 0, vf_VerifiedMessages = 0,
     vf_SourceFolders = 0, vf_DestinationFolders = 0, vf_VerifiedFolders = 0, vf_Mismatches = []\<rparr>"

definition Passed :: "Verification \<Rightarrow> bool" where
  "Passed v = (vf_Mismatches v = []
     \<and> vf_SourceMessages v = vf_DestinationMessages v \<and> vf_SourceMessages v = vf_VerifiedMessages v
     \<and> vf_SourceFolders v = vf_DestinationFolders v \<and> vf_SourceFolders v = vf_VerifiedFolders v)"

record Report =
  rep_Version :: int
  rep_DryRun :: bool
  rep_Provider :: bytes
  rep_Capabilities :: Capabilities
  rep_Target :: Target
  rep_SourceFolders :: int
  rep_SourceMessages :: int
  rep_SourceBytes :: int
  rep_ExpungedSkipped :: int
  rep_OversizeBlocked :: int
  rep_CreatedFolders :: nat
  rep_ExistingFolders :: nat
  rep_CreatedMessages :: nat
  rep_ExistingMessages :: nat
  rep_Fingerprints :: "bytes list"
  rep_Verification :: Verification

definition new_report :: "Options \<Rightarrow> Report" where
  "new_report opts =
     \<lparr>rep_Version = 1, rep_DryRun = (\<not> op_Commit opts), rep_Provider = [],
      rep_Capabilities = \<lparr>cp_AtomicApplyWrites = False, cp_CompareAndSwap = False, cp_ReferencedBlobs = False,
        cp_RepoOplog = False, cp_CARExport = False, cp_Notifications = False\<rparr>,
      rep_Target = \<lparr>tg_ProviderOrigin = [], tg_SpaceURI = [], tg_RepoDID = [], tg_Epoch = []\<rparr>,
      rep_SourceFolders = 0, rep_SourceMessages = 0, rep_SourceBytes = 0, rep_ExpungedSkipped = 0,
      rep_OversizeBlocked = 0, rep_CreatedFolders = 0, rep_ExistingFolders = 0, rep_CreatedMessages = 0,
      rep_ExistingMessages = 0, rep_Fingerprints = [], rep_Verification = no_verification\<rparr>"

text \<open>
  The state of a run is a report and the state of the provider: \<open>on_repo\<close> runs an operation of
  the provider, \<open>adjust\<close> changes the report.
\<close>

definition on_repo :: "('s, 'a) op \<Rightarrow> ('r \<times> 's, 'a) op" where
  "on_repo m = (\<lambda>(r, s). case m s of (x, s') \<Rightarrow> (x, (r, s')))"

definition adjust :: "('r \<Rightarrow> 'r) \<Rightarrow> ('r \<times> 's, unit) op" where
  "adjust f = (\<lambda>(r, s). (Inr (), (f r, s)))"

section \<open>Comparison with a stored record\<close>

definition verifyFolderRecord :: "Record \<Rightarrow> FolderRecord \<Rightarrow> unit result" where
  "verifyFolderRecord rec expected =
     (case folder_of_json (rc_Value rec) of None \<Rightarrow> Inl ErrIntegrity | Some got \<Rightarrow>
        if got \<noteq> expected then Inl ErrIntegrity else Inr ())"

definition verifyExistingMessage ::
  "'s Repository \<Rightarrow> Target \<Rightarrow> ImportedMessage \<Rightarrow> Record \<Rightarrow> ('s, unit) op" where
  "verifyExistingMessage repo target src rec =
     (case message_of_json False (rc_Value rec) of None \<Rightarrow> raise ErrIntegrity | Some got \<Rightarrow>
        after (attempt (rp_GetBlob repo target (br_Link (mr_Raw got)))) (\<lambda>fetched.
          case fetched of Inl _ \<Rightarrow> raise ErrIntegrity | Inr raw \<Rightarrow>
          (case ValidateStoredMessage (im_RecipientDID src) (rc_RKey rec) got raw of Inl e \<Rightarrow> raise e | Inr _ \<Rightarrow>
            if raw \<noteq> im_Raw src then raise ErrIntegrity
            else (case NewMessagePair src (mr_Raw got) of Inl e \<Rightarrow> raise e | Inr expected \<Rightarrow>
              if got \<noteq> mp_Message expected then raise ErrIntegrity
              else after (attempt (rp_GetRecord repo target MessageStateCollection (rc_RKey rec))) (\<lambda>read.
                case read of Inl _ \<Rightarrow> raise ErrIntegrity | Inr stateRecord \<Rightarrow>
                (case state_of_json (rc_Value stateRecord) of None \<Rightarrow> raise ErrIntegrity | Some state \<Rightarrow>
                  if state \<noteq> mp_State expected then raise ErrIntegrity else give ()))))))"

section \<open>Verify\<close>

definition add_mismatch :: "bytes \<Rightarrow> bytes \<Rightarrow> bytes \<Rightarrow> (Verification \<times> 's, unit) op" where
  "add_mismatch kind key detail =
     adjust (\<lambda>v. v\<lparr>vf_Mismatches := vf_Mismatches v @ [\<lparr>mm_Kind = kind, mm_Key = key, mm_Detail = detail\<rparr>]\<rparr>)"

definition expected_messages :: "SourceMessage list \<Rightarrow> ImportedMessage gomap" where
  "expected_messages ms =
     foldl (\<lambda>m src. AList.update (ImportedFingerprint (sm_Imported src)) (sm_Imported src) m) [] ms"

definition expected_folders :: "SourceFolder list \<Rightarrow> FolderRecord gomap" where
  "expected_folders fs = foldl (\<lambda>m f. AList.update (fo_RKey (sf_Folder f)) (fo_Record (sf_Folder f)) m) [] fs"

text \<open>The loops over the destination records; the result is the set of keys that were seen.\<close>

fun verify_messages ::
  "'s Repository \<Rightarrow> Target \<Rightarrow> ImportedMessage gomap \<Rightarrow> bytes list \<Rightarrow> Record list \<Rightarrow> (Verification \<times> 's, bytes list) op" where
  "verify_messages repo target expected seen [] = give seen"
| "verify_messages repo target expected seen (rec # recs) =
     (case map_of expected (rc_RKey rec) of
        None \<Rightarrow> after (add_mismatch ''extra-message'' (rc_RKey rec) ''destination record is absent from source snapshot'')
          (\<lambda>_. verify_messages repo target expected seen recs)
      | Some imported \<Rightarrow> after (on_repo (attempt (verifyExistingMessage repo target imported rec))) (\<lambda>checked.
          case checked of
            Inl _ \<Rightarrow> after (add_mismatch ''message-integrity'' (rc_RKey rec) ''record, blob, or state differs from source'')
              (\<lambda>_. verify_messages repo target expected (rc_RKey rec # seen) recs)
          | Inr _ \<Rightarrow> after (adjust (\<lambda>v. v\<lparr>vf_VerifiedMessages := vf_VerifiedMessages v + 1\<rparr>))
              (\<lambda>_. verify_messages repo target expected (rc_RKey rec # seen) recs)))"

fun verify_folders ::
  "FolderRecord gomap \<Rightarrow> bytes list \<Rightarrow> Record list \<Rightarrow> (Verification \<times> 's, bytes list) op" where
  "verify_folders expected seen [] = give seen"
| "verify_folders expected seen (rec # recs) =
     (case map_of expected (rc_RKey rec) of
        None \<Rightarrow> after (add_mismatch ''extra-folder'' (rc_RKey rec) ''destination folder is absent from source snapshot'')
          (\<lambda>_. verify_folders expected seen recs)
      | Some want \<Rightarrow>
          if folder_of_json (rc_Value rec) \<noteq> Some want
          then after (add_mismatch ''folder-integrity'' (rc_RKey rec) ''folder definition differs from source'')
            (\<lambda>_. verify_folders expected (rc_RKey rec # seen) recs)
          else after (adjust (\<lambda>v. v\<lparr>vf_VerifiedFolders := vf_VerifiedFolders v + 1\<rparr>))
            (\<lambda>_. verify_folders expected (rc_RKey rec # seen) recs))"

fun report_missing :: "bytes \<Rightarrow> bytes \<Rightarrow> bytes list \<Rightarrow> bytes list \<Rightarrow> (Verification \<times> 's, unit) op" where
  "report_missing kind detail seen [] = give ()"
| "report_missing kind detail seen (k # ks) =
     (if k \<notin> set seen then after (add_mismatch kind k detail) (\<lambda>_. report_missing kind detail seen ks)
      else report_missing kind detail seen ks)"

fun report_extra_states :: "ImportedMessage gomap \<Rightarrow> Record list \<Rightarrow> (Verification \<times> 's, unit) op" where
  "report_extra_states expected [] = give ()"
| "report_extra_states expected (rec # recs) =
     (if map_of expected (rc_RKey rec) = None
      then after (add_mismatch ''extra-state'' (rc_RKey rec) ''state is not tied to a source message'')
        (\<lambda>_. report_extra_states expected recs)
      else report_extra_states expected recs)"

definition Verify :: "SourceSnapshot \<Rightarrow> Space \<Rightarrow> 's Repository \<Rightarrow> Target \<Rightarrow> (Verification \<times> 's, unit) op" where
  "Verify snapshot space repo target =
     (case sns_Stream snapshot space of (ms, end_error) \<Rightarrow>
      let expectedMessages = expected_messages ms in
      after (returning end_error) (\<lambda>_.
      after (adjust (\<lambda>v. v\<lparr>vf_SourceMessages := length expectedMessages\<rparr>)) (\<lambda>_.
      after (returning (sns_Folders snapshot space)) (\<lambda>folders.
      let expectedFolders = expected_folders folders in
      after (adjust (\<lambda>v. v\<lparr>vf_SourceFolders := length expectedFolders\<rparr>)) (\<lambda>_.
      after (on_repo (rp_ListRecords repo target MessageCollection)) (\<lambda>destinationMessages.
      after (adjust (\<lambda>v. v\<lparr>vf_DestinationMessages := length destinationMessages\<rparr>)) (\<lambda>_.
      after (verify_messages repo target expectedMessages [] destinationMessages) (\<lambda>seen.
      after (report_missing ''missing-message'' ''source message is absent from destination'' seen
        (keys expectedMessages)) (\<lambda>_.
      after (on_repo (rp_ListRecords repo target FolderCollection)) (\<lambda>destinationFolders.
      after (adjust (\<lambda>v. v\<lparr>vf_DestinationFolders := length destinationFolders\<rparr>)) (\<lambda>_.
      after (verify_folders expectedFolders [] destinationFolders) (\<lambda>seenFolders.
      after (report_missing ''missing-folder'' ''source folder is absent from destination'' seenFolders
        (keys expectedFolders)) (\<lambda>_.
      after (on_repo (rp_ListRecords repo target MessageStateCollection)) (\<lambda>stateRecords.
      after (if length stateRecords \<noteq> length expectedMessages
        then add_mismatch ''state-count'' ''sha256-redacted'' ''message-state count differs from source message count''
        else give ()) (\<lambda>_.
      after (report_extra_states expectedMessages stateRecords) (\<lambda>_.
      adjust (\<lambda>v. v\<lparr>vf_Mismatches := sort_key (\<lambda>m. (mm_Kind m, mm_Key m)) (vf_Mismatches v)\<rparr>)))))))))))))))))"

section \<open>Run\<close>

definition create_write :: "bytes \<Rightarrow> bytes \<Rightarrow> json \<Rightarrow> Write" where
  "create_write collection rkey v =
     \<lparr>wr_Action = Create, wr_Collection = collection, wr_RKey = rkey, wr_Value = AnyJSON v, wr_SwapCID = []\<rparr>"

definition folder_exists :: "Record \<Rightarrow> FolderRecord \<Rightarrow> (Report \<times> 's, unit) op" where
  "folder_exists existing expected =
     after (returning (verifyFolderRecord existing expected)) (\<lambda>_.
       adjust (\<lambda>r. r\<lparr>rep_ExistingFolders := rep_ExistingFolders r + 1\<rparr>))"

definition migrate_folder :: "'s Repository \<Rightarrow> Target \<Rightarrow> SourceFolder \<Rightarrow> (Report \<times> 's, unit) op" where
  "migrate_folder repo target f =
     (let rkey = fo_RKey (sf_Folder f); wanted = fo_Record (sf_Folder f) in
      after (on_repo (attempt (rp_GetRecord repo target FolderCollection rkey))) (\<lambda>read.
        case read of
          Inr existing \<Rightarrow> folder_exists existing wanted
        | Inl err \<Rightarrow>
            if \<not> errors_Is err ErrNotFound then raise err
            else after (on_repo (attempt (rp_ApplyWrites repo target
                [create_write FolderCollection rkey (folder_json wanted)]))) (\<lambda>created.
              case created of
                Inr _ \<Rightarrow> adjust (\<lambda>r. r\<lparr>rep_CreatedFolders := rep_CreatedFolders r + 1\<rparr>)
              | Inl createErr \<Rightarrow>
                  if \<not> errors_Is createErr ErrExists then raise createErr
                  else after (on_repo (attempt (rp_GetRecord repo target FolderCollection rkey))) (\<lambda>again.
                    case again of
                      Inl getErr \<Rightarrow> raise (ErrJoin createErr getErr)
                    | Inr existing \<Rightarrow> folder_exists existing wanted))))"

fun migrate_folders :: "'s Repository \<Rightarrow> Target \<Rightarrow> SourceFolder list \<Rightarrow> (Report \<times> 's, unit) op" where
  "migrate_folders repo target [] = give ()"
| "migrate_folders repo target (f # fs) = after (migrate_folder repo target f) (\<lambda>_. migrate_folders repo target fs)"

definition message_exists :: "(Report \<times> 's, unit) op" where
  "message_exists = adjust (\<lambda>r. r\<lparr>rep_ExistingMessages := rep_ExistingMessages r + 1\<rparr>)"

text \<open>The part of the visitor that runs when the destination has no record under the fingerprint.\<close>

definition create_message :: "'s Repository \<Rightarrow> Target \<Rightarrow> ImportedMessage \<Rightarrow> (Report \<times> 's, unit) op" where
  "create_message repo target src =
     after (on_repo (rp_UploadBlob repo target (im_Raw src) MessageMIMEType)) (\<lambda>blob.
     after (returning (NewMessagePair src blob)) (\<lambda>pair.
     after (on_repo (attempt (rp_ApplyWrites repo target
        [create_write MessageCollection (mp_RKey pair) (message_json (mp_Message pair)),
         create_write MessageStateCollection (mp_RKey pair) (state_json (mp_State pair))]))) (\<lambda>written.
       case written of
         Inr _ \<Rightarrow> adjust (\<lambda>r. r\<lparr>rep_CreatedMessages := rep_CreatedMessages r + 1\<rparr>)
       | Inl err \<Rightarrow>
           if \<not> errors_Is err ErrExists then raise err
           else after (on_repo (attempt (rp_GetRecord repo target MessageCollection (mp_RKey pair)))) (\<lambda>read.
             case read of
               Inl getErr \<Rightarrow> raise (ErrJoin err getErr)
             | Inr existing \<Rightarrow> after (on_repo (attempt (verifyExistingMessage repo target src existing))) (\<lambda>checked.
                 case checked of Inl verifyErr \<Rightarrow> raise (ErrJoin err verifyErr) | Inr _ \<Rightarrow> message_exists)))))"

definition migrate_message :: "'s Repository \<Rightarrow> Target \<Rightarrow> SourceMessage \<Rightarrow> (Report \<times> 's, unit) op" where
  "migrate_message repo target m =
     (let src = sm_Imported m; fingerprint = ImportedFingerprint src in
      after (adjust (\<lambda>r. r\<lparr>rep_Fingerprints := rep_Fingerprints r @ [fingerprint]\<rparr>)) (\<lambda>_.
      after (on_repo (attempt (rp_GetRecord repo target MessageCollection fingerprint))) (\<lambda>read.
        case read of
          Inr existing \<Rightarrow> after (on_repo (verifyExistingMessage repo target src existing)) (\<lambda>_. message_exists)
        | Inl getErr \<Rightarrow>
            if \<not> errors_Is getErr ErrNotFound then raise getErr
            else after (on_repo (attempt (rp_GetRecord repo target MessageStateCollection fingerprint))) (\<lambda>stateRead.
              case stateRead of
                Inr _ \<Rightarrow> raise ErrIntegrity
              | Inl stateErr \<Rightarrow>
                  if \<not> errors_Is stateErr ErrNotFound then raise stateErr
                  else create_message repo target src))))"

text \<open>The fingerprints are sorted after the stream, whether or not it ended with an error.\<close>

definition sort_fingerprints :: "Report \<Rightarrow> Report" where
  "sort_fingerprints r = r\<lparr>rep_Fingerprints := sort (rep_Fingerprints r)\<rparr>"

definition stream_sorted :: "SourceSnapshot \<Rightarrow> Space \<Rightarrow> (SourceMessage \<Rightarrow> (Report \<times> 's, unit) op) \<Rightarrow> (Report \<times> 's, unit) op" where
  "stream_sorted snapshot space visit =
     after (attempt (Stream snapshot space visit)) (\<lambda>streamed.
       after (adjust sort_fingerprints) (\<lambda>_. returning streamed))"

text \<open>The report takes the verification as it is when \<^verbatim>\<open>Verify\<close> returns, also with an error.\<close>

definition run_verify :: "SourceSnapshot \<Rightarrow> Space \<Rightarrow> 's Repository \<Rightarrow> Target \<Rightarrow> (Report \<times> 's, unit) op" where
  "run_verify snapshot space repo target = (\<lambda>(r, s).
     case Verify snapshot space repo target (no_verification, s) of (x, (v, s')) \<Rightarrow>
       (case x of
          Inl e \<Rightarrow> (Inl e, (r\<lparr>rep_Verification := v\<rparr>, s'))
        | Inr _ \<Rightarrow> (if \<not> Passed v then Inl ErrIntegrity else Inr (), (r\<lparr>rep_Verification := v\<rparr>, s'))))"

definition commit_mailbox ::
  "syntax_api \<Rightarrow> SourceSnapshot \<Rightarrow> 's Repository \<Rightarrow> Options \<Rightarrow> Capabilities \<Rightarrow> Inventory \<Rightarrow> (Report \<times> 's, unit) op" where
  "commit_mailbox sx snapshot repo opts capabilities inventory =
     (if \<not> cp_AtomicApplyWrites capabilities \<or> \<not> cp_CompareAndSwap capabilities \<or> \<not> cp_ReferencedBlobs capabilities
      then raise ErrUnsupported
      else after (on_repo (rp_EnsureMailbox repo (op_RecipientDID opts) (op_SpaceKey opts))) (\<lambda>target.
        after (returning (ValidateFor sx target (op_RecipientDID opts))) (\<lambda>_.
        after (adjust (\<lambda>r. r\<lparr>rep_Target := target\<rparr>)) (\<lambda>_.
        after (returning (sns_Folders snapshot (iv_Space inventory))) (\<lambda>folders.
        after (migrate_folders repo target folders) (\<lambda>_.
        after (stream_sorted snapshot (iv_Space inventory) (migrate_message repo target)) (\<lambda>_.
        run_verify snapshot (iv_Space inventory) repo target)))))))"

definition run_attached ::
  "syntax_api \<Rightarrow> SourceSnapshot \<Rightarrow> 's Repository \<Rightarrow> Options \<Rightarrow> (Report \<times> 's, unit) op" where
  "run_attached sx snapshot repo opts =
     after (adjust (\<lambda>r. r\<lparr>rep_Provider := rp_ProviderID repo\<rparr>)) (\<lambda>_.
     after (on_repo (rp_Capabilities repo)) (\<lambda>capabilities.
     after (adjust (\<lambda>r. r\<lparr>rep_Capabilities := capabilities\<rparr>)) (\<lambda>_.
     after (returning (sns_Inspect snapshot (op_RecipientDID opts) (op_SpaceKey opts))) (\<lambda>inventory.
     after (adjust (\<lambda>r. r\<lparr>rep_SourceFolders := iv_Folders inventory, rep_SourceMessages := iv_LiveMessages inventory,
       rep_SourceBytes := iv_LiveBytes inventory, rep_ExpungedSkipped := iv_ExpungedMessages inventory,
       rep_OversizeBlocked := iv_OversizeMessages inventory\<rparr>)) (\<lambda>_.
       if iv_OversizeMessages inventory > 0 then raise ErrMessageTooLarge
       else if \<not> op_Commit opts
       then stream_sorted snapshot (iv_Space inventory) (\<lambda>m.
         adjust (\<lambda>r. r\<lparr>rep_Fingerprints := rep_Fingerprints r @ [ImportedFingerprint (sm_Imported m)]\<rparr>))
       else commit_mailbox sx snapshot repo opts capabilities inventory)))))"

text \<open>\<open>None\<close> is a nil snapshot or repository.\<close>

definition Run ::
  "syntax_api \<Rightarrow> SourceSnapshot option \<Rightarrow> 's Repository option \<Rightarrow> Options \<Rightarrow> 's \<Rightarrow> unit result \<times> (Report \<times> 's)" where
  "Run sx snapshot repo opts s =
     (case (snapshot, repo) of
        (Some sn, Some rp) \<Rightarrow> run_attached sx sn rp opts (new_report opts, s)
      | _ \<Rightarrow> (Inl (ErrOther ''migrate: snapshot and repository are required''), (new_report opts, s)))"

section \<open>Operations that respect an order on states\<close>

text \<open>
  \<open>keeps R m\<close>: whatever \<open>m\<close> returns, the state it leaves is related by \<open>R\<close> to the one it started
  from. For a reflexive and transitive relation the composite operations inherit it.
\<close>

definition keeps :: "('s \<Rightarrow> 's \<Rightarrow> bool) \<Rightarrow> ('s, 'a) op \<Rightarrow> bool" where
  "keeps R m \<longleftrightarrow> (\<forall>s. R s (snd (m s)))"

abbreviation grows :: "('s \<Rightarrow> 's \<Rightarrow> bool) \<Rightarrow> ('r \<times> 's, 'a) op \<Rightarrow> bool" where
  "grows R \<equiv> keeps (\<lambda>x y. R (snd x) (snd y))"

named_theorems keeps_intros \<open>rules that derive that a composite operation respects an order\<close>

lemma keeps_after [keeps_intros]:
  assumes "transp R" and "keeps R m" and "\<And>x. keeps R (f x)"
  shows "keeps R (after m f)"
  unfolding keeps_def
proof
  fix s
  obtain r s' where m: "m s = (r, s')" by (cases "m s")
  with assms(2) have 1: "R s s'" by (auto simp: keeps_def dest: spec[of _ s])
  show "R s (snd (after m f s))"
  proof (cases r)
    case (Inr x)
    with assms(3)[of x] have "R s' (snd (f x s'))" by (simp add: keeps_def)
    with assms(1) 1 m Inr show ?thesis by (auto dest: transpD)
  qed (use m 1 in simp)
qed

lemma keeps_basic [keeps_intros]:
  assumes "reflp R"
  shows "keeps R (raise e)" and "keeps R (give x)" and "keeps R (returning y)"
  using assms by (simp_all add: keeps_def raise_def give_def returning_def reflpD)

lemma keeps_attempt [keeps_intros]: "keeps R m \<Longrightarrow> keeps R (attempt m)"
  by (simp add: keeps_def attempt_def split_beta)

lemma grows_on_repo [keeps_intros]: "keeps R m \<Longrightarrow> grows R (on_repo m)"
  by (auto simp: keeps_def on_repo_def split_beta)

lemma grows_adjust [keeps_intros]: "reflp R \<Longrightarrow> grows R (adjust f)"
  by (auto simp: keeps_def adjust_def reflpD)

lemma grows_order [keeps_intros]:
  "transp R \<Longrightarrow> transp (\<lambda>x y. R (snd x) (snd y))" "reflp R \<Longrightarrow> reflp (\<lambda>x y. R (snd x) (snd y))"
  by (auto intro!: transpI reflpI dest: transpD reflpD)

lemma keeps_visit_all [keeps_intros]:
  "transp R \<Longrightarrow> reflp R \<Longrightarrow> (\<And>m. keeps R (visit m)) \<Longrightarrow> keeps R (visit_all visit ms e)"
  by (induction ms) (auto intro: keeps_after simp: keeps_def[of R "\<lambda>s. (e, s)"] reflpD)

text \<open>
  A provider on which reads, uploads, the creation of a mailbox and batches of creations only add
  to the state, in the sense of an order \<open>ext\<close>.
\<close>

locale growing_repository =
  fixes repo :: "'s Repository"
    and ext :: "'s \<Rightarrow> 's \<Rightarrow> bool"
  assumes ext_refl: "reflp ext" and ext_trans: "transp ext"
    and reads: "keeps ext (rp_Capabilities repo)" "keeps ext (rp_GetRecord repo t c k)"
      "keeps ext (rp_ListRecords repo t c)" "keeps ext (rp_GetBlob repo t cid)"
    and ensure: "keeps ext (rp_EnsureMailbox repo d key)"
    and upload: "keeps ext (rp_UploadBlob repo t content mime)"
    and creations: "\<forall>w \<in> set ws. wr_Action w = Create \<Longrightarrow> keeps ext (rp_ApplyWrites repo t ws)"
begin

lemmas ext_intros = keeps_intros ext_refl ext_trans reads ensure upload

lemma verifyExistingMessage_ext: "keeps ext (verifyExistingMessage repo t src rec)"
  unfolding verifyExistingMessage_def by (auto intro!: ext_intros split: option.split sum.split)

lemma Verify_ext: "grows ext (Verify sn sp repo t)"
proof -
  have add: "grows ext (add_mismatch a b c)" for a b c
    unfolding add_mismatch_def by (intro ext_intros)
  have messages: "grows ext (verify_messages repo t ex seen recs)" for ex seen recs
    by (induction recs arbitrary: seen) (auto intro!: ext_intros add verifyExistingMessage_ext split: option.split sum.split)
  have folders: "grows ext (verify_folders ex seen recs)" for ex seen recs
    by (induction recs arbitrary: seen) (auto intro!: ext_intros add split: option.split)
  have missing: "grows ext (report_missing a d seen ks)" for a d seen ks
    by (induction ks) (auto intro!: ext_intros add)
  have extra: "grows ext (report_extra_states ex recs)" for ex recs
    by (induction recs) (auto intro!: ext_intros add)
  show ?thesis unfolding Verify_def Let_def
    by (auto intro!: ext_intros add messages folders missing extra split: prod.split)
qed

lemma migrate_folder_ext: "grows ext (migrate_folder repo t f)"
  unfolding migrate_folder_def folder_exists_def Let_def
  by (auto intro!: ext_intros creations simp: create_write_def split: sum.split)

lemma migrate_message_ext: "grows ext (migrate_message repo t m)"
  unfolding migrate_message_def create_message_def message_exists_def Let_def
  by (auto intro!: ext_intros creations verifyExistingMessage_ext simp: create_write_def split: sum.split)

lemma run_verify_ext: "grows ext (run_verify sn sp repo t)"
proof -
  have "ext s (snd (snd (Verify sn sp repo t (no_verification, s))))" for s
    using Verify_ext[of sn sp t] by (simp add: keeps_def)
  then show ?thesis unfolding keeps_def run_verify_def
    by (simp add: split_beta split: sum.split)
qed

lemma stream_sorted_ext: "(\<And>m. grows ext (visit m)) \<Longrightarrow> grows ext (stream_sorted sn sp visit)"
  unfolding stream_sorted_def Stream_def by (auto intro!: ext_intros split: prod.split)

lemma migrate_folders_ext: "grows ext (migrate_folders repo t fs)"
  by (induction fs) (auto intro!: ext_intros migrate_folder_ext)

lemma Run_ext: "ext s (snd (snd (Run sx sn (Some repo) opts s)))"
proof -
  have commit: "grows ext (commit_mailbox sx sn' repo opts cap iv)" for sn' cap iv
    unfolding commit_mailbox_def
    by (auto intro!: ext_intros migrate_folders_ext stream_sorted_ext migrate_message_ext run_verify_ext)
  have "grows ext (run_attached sx sn' repo opts)" for sn'
    unfolding run_attached_def by (auto intro!: ext_intros stream_sorted_ext commit)
  then show ?thesis by (cases sn) (auto simp: Run_def keeps_def reflpD[OF ext_refl])
qed

end

section \<open>The memory provider grows\<close>

definition mem_ext :: "Backend \<Rightarrow> Backend \<Rightarrow> bool" where
  "mem_ext b b' \<longleftrightarrow> (\<forall>uri sp. map_of (bk_spaces b) uri = Some sp \<longrightarrow>
     (\<exists>sp'. map_of (bk_spaces b') uri = Some sp' \<and> sp_target sp' = sp_target sp
        \<and> (\<forall>repo c k r. lookupRecord sp repo c k = Some r \<longrightarrow> lookupRecord sp' repo c k = Some r)))"

lemma mem_ext_same_spaces: "bk_spaces b' = bk_spaces b \<Longrightarrow> mem_ext b b'"
  by (simp add: mem_ext_def)

lemma mem_ext_EnsureMailbox: "mem_ext b (snd (mem_EnsureMailbox s d key b))"
  by (auto simp: mem_ext_def mem_EnsureMailbox_def Let_def split: sum.split option.split)

lemma mem_ext_ApplyWrites:
  assumes "\<forall>w \<in> set ws. wr_Action w = Create"
  shows "mem_ext b (snd (mem_ApplyWrites s t ws b))"
proof (cases "snd (mem_ApplyWrites s t ws b) = b")
  case False
  then obtain sp rs sp' where auth: "authWriteLocked s t b = Inr sp" and all: "applyAllLocked b sp t ws = Inr (rs, sp')"
    and b': "snd (mem_ApplyWrites s t ws b) =
      b\<lparr>bk_spaces := AList.update (tg_SpaceURI t) (sp'\<lparr>sp_rev := sp_rev sp' + 1\<rparr>) (bk_spaces b)\<rparr>"
    by (auto simp: mem_ApplyWrites_def Let_def split: sum.splits if_splits)
  have "lookupRecord (sp'\<lparr>sp_rev := n\<rparr>) = lookupRecord sp'" for n by (simp add: lookupRecord_def fun_eq_iff)
  with applyAllLocked_create[OF all assms] applyAllLocked_frame(2)[OF all] authWriteD(1)[OF auth]
  show ?thesis unfolding b' mem_ext_def by auto
qed (simp add: mem_ext_same_spaces)

definition mem_grows :: "Backend \<Rightarrow> Backend \<Rightarrow> bool" where
  "mem_grows b b' \<longleftrightarrow> mem_ext b b' \<and> (mem_inv b \<longrightarrow> mem_inv b')"

lemma mem_keeps_inv:
  "mem_inv b \<Longrightarrow> mem_inv (snd (mem_EnsureMailbox s d key b))"
  "mem_inv b \<Longrightarrow> mem_inv (snd (mem_UploadBlob s t content mime b))"
  "mem_inv b \<Longrightarrow> mem_inv (snd (mem_ApplyWrites s t ws b))"
  using mem_EnsureMailbox_inv[of b s d key] mem_UploadBlob_inv[of b s t content mime] mem_ApplyWrites_inv[of b s t ws]
  by (metis prod.collapse)+

interpretation mem: growing_repository "memory_repo s" mem_grows for s
proof unfold_locales
  show "reflp mem_grows" by (simp add: reflp_def mem_grows_def mem_ext_def)
  show "transp mem_grows" by (rule transpI) (unfold mem_grows_def mem_ext_def, metis)
next
  fix ws :: "Write list" and t
  assume "\<forall>w \<in> set ws. wr_Action w = Create"
  then show "keeps mem_grows (rp_ApplyWrites (memory_repo s) t ws)"
    by (simp add: keeps_def memory_repo_def mem_grows_def mem_ext_ApplyWrites mem_keeps_inv)
next
  show "keeps mem_grows (rp_UploadBlob (memory_repo s) t d m)" for t d m
  proof -
    have "bk_spaces (snd (mem_UploadBlob s t d m b)) = bk_spaces b" for b
      by (auto simp: mem_UploadBlob_def Let_def split: sum.split)
    then show ?thesis by (simp add: keeps_def memory_repo_def mem_grows_def mem_ext_same_spaces mem_keeps_inv)
  qed
qed (simp_all add: keeps_def memory_repo_def mem_grows_def mem_ext_EnsureMailbox mem_ext_same_spaces mem_keeps_inv)

lemma mem_ext_GetRecord:
  assumes "mem_ext b b'" and "mem_GetRecord s t c k b = (Inr rec, b)"
  shows "mem_GetRecord s t c k b' = (Inr rec, b')"
proof -
  from assms(2) obtain sp r where act: "checkActive s = Inr ()" and auth: "authReadLocked s t b = Inr sp"
    and r: "lookupRecord sp (tg_RepoDID t) c k = Some r" "rec = exportRecord c k r no_result"
    by (auto simp: mem_GetRecord_def split: sum.splits option.splits)
  from assms(1) authReadD[OF auth] obtain sp' where "map_of (bk_spaces b') (tg_SpaceURI t) = Some sp'" "sp_target sp' = t"
    "\<forall>repo c k r. lookupRecord sp repo c k = Some r \<longrightarrow> lookupRecord sp' repo c k = Some r"
    unfolding mem_ext_def by blast
  with act auth r show ?thesis
    by (auto simp: mem_GetRecord_def authReadLocked_def split: option.splits if_splits)
qed

text \<open>A caller stays authorised for a target while the backend grows.\<close>

lemma mem_grows_session:
  assumes "mem_grows b b'" and "mem_session_inv s t b"
  shows "mem_session_inv s t b'"
proof -
  from assms(2) obtain sp where sp: "authWriteLocked s t b = Inr sp" by (auto simp: mem_session_inv_def)
  with assms(1) authWriteD[OF sp] obtain sp' where "map_of (bk_spaces b') (tg_SpaceURI t) = Some sp'" "sp_target sp' = t"
    unfolding mem_grows_def mem_ext_def by blast
  with sp authWriteD[OF sp] have "authWriteLocked s t b' = Inr sp'"
    by (simp add: authWriteLocked_def)
  with assms show ?thesis by (simp add: mem_session_inv_def mem_grows_def)
qed

text \<open>A run that does not commit only reads.\<close>

lemma dry_stream_pure: "snd (snd (stream_sorted sn sp (\<lambda>m. adjust (f m)) (r, s))) = s"
proof -
  have "snd (snd (visit_all (\<lambda>m. adjust (f m)) ms e (r, s))) = s" for ms e r
    by (induction ms arbitrary: r) (simp_all add: after_def adjust_def)
  then show ?thesis
    by (simp add: stream_sorted_def Stream_def after_def attempt_def adjust_def returning_def split_beta)
qed

section \<open>What it means that a provider mirrors a source\<close>

text \<open>
  \<open>get\<close> reads a record and \<open>blob\<close> the bytes of a blob. A message is mirrored when the records under
  its fingerprint are the pair that the constructor makes of it, around the blob reference that is
  stored, and that blob holds its bytes.
\<close>

definition mirrors_message ::
  "(bytes \<Rightarrow> bytes \<Rightarrow> Record option) \<Rightarrow> (bytes \<Rightarrow> bytes result) \<Rightarrow> ImportedMessage \<Rightarrow> bool" where
  "mirrors_message get blob src \<longleftrightarrow>
     (\<exists>ref pair rec st. NewMessagePair src ref = Inr pair \<and> ref = mr_Raw (mp_Message pair)
        \<and> get MessageCollection (ImportedFingerprint src) = Some rec
        \<and> message_of_json False (rc_Value rec) = Some (mp_Message pair)
        \<and> get MessageStateCollection (ImportedFingerprint src) = Some st
        \<and> state_of_json (rc_Value st) = Some (mp_State pair)
        \<and> blob (br_Link ref) = Inr (im_Raw src))"

definition mirrors ::
  "(bytes \<Rightarrow> bytes \<Rightarrow> Record option) \<Rightarrow> (bytes \<Rightarrow> bytes result) \<Rightarrow> ImportedMessage gomap \<Rightarrow> FolderRecord gomap \<Rightarrow> bool" where
  "mirrors get blob messages folders \<longleftrightarrow>
     (\<forall>k. get MessageCollection k \<noteq> None \<longleftrightarrow> k \<in> set (keys messages))
     \<and> (\<forall>k. get MessageStateCollection k \<noteq> None \<longleftrightarrow> k \<in> set (keys messages))
     \<and> (\<forall>(k, src) \<in> set messages. mirrors_message get blob src)
     \<and> (\<forall>k. map_option (\<lambda>rec. folder_of_json (rc_Value rec)) (get FolderCollection k) = map_option Some (map_of folders k))"

lemma foldl_update_map:
  "distinct (keys m) \<Longrightarrow> distinct (keys (foldl (\<lambda>m x. AList.update (f x) (g x) m) m xs))
    \<and> map_of (foldl (\<lambda>m x. AList.update (f x) (g x) m) m xs) = map_of m ++ map_of (map (\<lambda>x. (f x, g x)) (rev xs))"
proof (induction xs rule: rev_induct)
  case (snoc x xs)
  then show ?case by (auto simp: update_conv' map_add_def fun_eq_iff)
qed simp

lemma expected_messages_map:
  "distinct (keys (expected_messages ms))"
  "map_of (expected_messages ms) =
     map_of (map (\<lambda>m. (ImportedFingerprint (sm_Imported m), sm_Imported m)) (rev ms))"
  using foldl_update_map[of "[]" "\<lambda>m. ImportedFingerprint (sm_Imported m)" sm_Imported ms]
  by (auto simp: expected_messages_def)

lemma expected_folders_map:
  "distinct (keys (expected_folders fs))"
  "map_of (expected_folders fs) = map_of (map (\<lambda>f. (fo_RKey (sf_Folder f), fo_Record (sf_Folder f))) (rev fs))"
  using foldl_update_map[of "[]" "\<lambda>f. fo_RKey (sf_Folder f)" "\<lambda>f. fo_Record (sf_Folder f)" fs]
  by (auto simp: expected_folders_def)

lemma expected_messages_key:
  "map_of (expected_messages ms) k = Some src \<Longrightarrow> ImportedFingerprint src = k \<and> (\<exists>m \<in> set ms. sm_Imported m = src)"
  by (auto simp: expected_messages_map dest!: map_of_SomeD)

lemma adjust_after [simp]: "after (adjust f) g (r, s) = g () (f r, s)"
  by (simp add: after_def adjust_def)

lemma on_repo_eq: "m s = (x, s') \<Longrightarrow> on_repo m (r, s) = (x, (r, s'))"
  by (simp add: on_repo_def)

lemma report_missing_exact:
  "\<exists>ms. report_missing kind d seen ks (v, s) = (Inr (), (v\<lparr>vf_Mismatches := ms\<rparr>, s))
     \<and> (ms = [] \<longleftrightarrow> vf_Mismatches v = [] \<and> set ks \<subseteq> set seen)"
proof (induction ks arbitrary: v)
  case Nil
  show ?case by (intro exI[of _ "vf_Mismatches v"]) (simp add: give_def)
next
  case (Cons k ks)
  show ?case
  proof (cases "k \<in> set seen")
    case True
    with Cons[of v] show ?thesis by auto
  next
    case False
    with Cons[of "v\<lparr>vf_Mismatches := vf_Mismatches v @ [\<lparr>mm_Kind = kind, mm_Key = k, mm_Detail = d\<rparr>]\<rparr>"]
    show ?thesis by (auto simp: add_mismatch_def)
  qed
qed

lemma report_missingE:
  obtains ms where "report_missing kind d seen ks (v, s) = (Inr (), (v\<lparr>vf_Mismatches := ms\<rparr>, s))"
    and "ms = [] \<longleftrightarrow> vf_Mismatches v = [] \<and> set ks \<subseteq> set seen"
  using report_missing_exact[of kind d seen ks v s] by (elim exE conjE)

lemma report_extra_states_exact:
  "\<exists>ms. report_extra_states ex recs (v, s) = (Inr (), (v\<lparr>vf_Mismatches := ms\<rparr>, s))
     \<and> (ms = [] \<longleftrightarrow> vf_Mismatches v = [] \<and> rc_RKey ` set recs \<subseteq> set (keys ex))"
proof (induction recs arbitrary: v)
  case Nil
  show ?case by (intro exI[of _ "vf_Mismatches v"]) (simp add: give_def)
next
  case (Cons r recs)
  show ?case
  proof (cases "map_of ex (rc_RKey r) = None")
    case False
    then have "rc_RKey r \<in> set (keys ex)" by (simp add: map_of_eq_None_iff)
    with False Cons[of v] show ?thesis by auto
  next
    case True
    then have "rc_RKey r \<notin> set (keys ex)" by (simp add: map_of_eq_None_iff)
    moreover obtain ms where "report_extra_states ex (r # recs) (v, s) = (Inr (), (v\<lparr>vf_Mismatches := ms\<rparr>, s))" "ms \<noteq> []"
      using True Cons[of "v\<lparr>vf_Mismatches := vf_Mismatches v @ [\<lparr>mm_Kind = ''extra-state'', mm_Key = rc_RKey r,
        mm_Detail = ''state is not tied to a source message''\<rparr>]\<rparr>"] by (auto simp: add_mismatch_def)
    ultimately show ?thesis by auto
  qed
qed

lemma report_extra_statesE:
  obtains ms where "report_extra_states ex recs (v, s) = (Inr (), (v\<lparr>vf_Mismatches := ms\<rparr>, s))"
    and "ms = [] \<longleftrightarrow> vf_Mismatches v = [] \<and> rc_RKey ` set recs \<subseteq> set (keys ex)"
  using report_extra_states_exact[of ex recs v s] by (elim exE conjE)

text \<open>
  The outcome of a loop over destination records of which \<open>ok\<close> holds of the good ones: no mismatch
  is added exactly when all are good, and then \<open>cnt\<close> has counted them and all keys were seen; what
  \<open>rest\<close> reads is left alone.
\<close>

definition scanned ::
  "(Verification \<Rightarrow> nat) \<Rightarrow> (Verification \<Rightarrow> 'x) \<Rightarrow> (Record \<Rightarrow> bool) \<Rightarrow> Verification \<Rightarrow> 's \<Rightarrow> bytes list \<Rightarrow> Record list
    \<Rightarrow> bytes list result \<times> (Verification \<times> 's) \<Rightarrow> bool" where
  "scanned cnt rest ok v s seen recs out \<longleftrightarrow>
     (\<exists>seen' v'. out = (Inr seen', (v', s)) \<and> rest v' = rest v
        \<and> (vf_Mismatches v' = [] \<longleftrightarrow> vf_Mismatches v = [] \<and> (\<forall>r \<in> set recs. ok r))
        \<and> (vf_Mismatches v' = [] \<longrightarrow> cnt v' = cnt v + length recs \<and> set seen' = set seen \<union> rc_RKey ` set recs))"

lemma scannedE:
  assumes "scanned cnt rest ok v s seen recs out"
  obtains seen' v' where "out = (Inr seen', (v', s))" and "rest v' = rest v"
    and "vf_Mismatches v' = [] \<longleftrightarrow> vf_Mismatches v = [] \<and> (\<forall>r \<in> set recs. ok r)"
    and "vf_Mismatches v' = [] \<longrightarrow> cnt v' = cnt v + length recs \<and> set seen' = set seen \<union> rc_RKey ` set recs"
  using assms unfolding scanned_def by blast

lemma scanned_Nil: "scanned cnt rest ok v s seen [] (give seen (v, s))"
  by (simp add: scanned_def give_def)

lemma scanned_good:
  assumes "scanned cnt rest ok v' s (rc_RKey r # seen) recs out" and "ok r"
    and "cnt v' = Suc (cnt v)" and "rest v' = rest v" and "vf_Mismatches v' = vf_Mismatches v"
  shows "scanned cnt rest ok v s seen (r # recs) out"
  using assms by (auto simp: scanned_def)

lemma scanned_bad:
  assumes "scanned cnt rest ok v' s seen' recs out" and "\<not> ok r" and "rest v' = rest v" and "vf_Mismatches v' \<noteq> []"
  shows "scanned cnt rest ok v s seen (r # recs) out"
  using assms by (auto simp: scanned_def)

abbreviation message_rest where
  "message_rest v \<equiv> (vf_SourceMessages v, vf_DestinationMessages v, vf_SourceFolders v, vf_DestinationFolders v, vf_VerifiedFolders v)"

abbreviation folder_rest where
  "folder_rest v \<equiv> (vf_SourceMessages v, vf_DestinationMessages v, vf_SourceFolders v, vf_DestinationFolders v, vf_VerifiedMessages v)"

lemma verify_folders_exact:
  "scanned vf_VerifiedFolders folder_rest
     (\<lambda>r. map_of ex (rc_RKey r) \<noteq> None \<and> folder_of_json (rc_Value r) = map_of ex (rc_RKey r))
     v s seen recs (verify_folders ex seen recs (v, s))"
proof (induction recs arbitrary: seen v)
  case (Cons r recs)
  consider (extra) "map_of ex (rc_RKey r) = None"
    | (differs) want where "map_of ex (rc_RKey r) = Some want" "folder_of_json (rc_Value r) \<noteq> Some want"
    | (same) want where "map_of ex (rc_RKey r) = Some want" "folder_of_json (rc_Value r) = Some want"
    by (cases "map_of ex (rc_RKey r)") auto
  then show ?case
  proof cases
    case extra
    then show ?thesis by (simp add: add_mismatch_def del: not_None_eq) (rule scanned_bad[OF Cons], simp_all)
  next
    case differs
    then show ?thesis by (simp add: add_mismatch_def del: not_None_eq) (rule scanned_bad[OF Cons], simp_all)
  next
    case same
    then show ?thesis by (simp del: not_None_eq) (rule scanned_good[OF Cons], simp_all)
  qed
qed (simp add: scanned_Nil)

section \<open>The contract of a provider that is migrated to\<close>

text \<open>A listing of the records that \<open>get\<close> reads, each under its key.\<close>

definition lists :: "(bytes \<Rightarrow> Record option) \<Rightarrow> Record list \<Rightarrow> bool" where
  "lists get rs \<longleftrightarrow> distinct (map rc_RKey rs) \<and> (\<forall>r. r \<in> set rs \<longleftrightarrow> get (rc_RKey r) = Some r)"

lemma lists_length:
  assumes "lists get rs" and "distinct (keys ex)" and "rc_RKey ` set rs = set (keys ex)"
  shows "length rs = length ex"
proof -
  from assms(3) have "card (set (map rc_RKey rs)) = card (set (keys ex))" by simp
  with assms(1,2) show ?thesis unfolding lists_def by (simp only: distinct_card length_map)
qed

text \<open>
  In addition to the reads and swaps of \<open>cas_repository\<close>: a listing is exactly what single reads
  return, with no key twice; reading a blob changes nothing; uploads and batches keep the caller
  authorised.
\<close>

locale listing_repository = cas_repository repo target inv view
  for repo :: "'s Repository" and target inv view +
  assumes list_records:
      "inv s \<Longrightarrow> \<exists>rs. rp_ListRecords repo target c s = (Inr rs, s) \<and> lists (view s c) rs"
    and blob_pure: "inv s \<Longrightarrow> snd (rp_GetBlob repo target cid s) = s"
    and upload_inv: "inv s \<Longrightarrow> inv (snd (rp_UploadBlob repo target content mime s))"
    and apply_inv: "inv s \<Longrightarrow> inv (snd (rp_ApplyWrites repo target ws s))"
begin

lemma attempt_get:
  "inv s \<Longrightarrow> attempt (rp_GetRecord repo target c k) s
    = (Inr (case view s c k of None \<Rightarrow> Inl ErrNotFound | Some r \<Rightarrow> Inr r), s)"
  by (simp add: attempt_def get_record)

lemma attempt_blob:
  "inv s \<Longrightarrow> attempt (rp_GetBlob repo target cid) s = (Inr (fst (rp_GetBlob repo target cid s)), s)"
  using blob_pure[of s cid] by (simp add: attempt_def split_beta)

text \<open>The comparison of a stored message decides whether it mirrors its source.\<close>

lemma verifyExistingMessage_exact:
  assumes "inv s" and "view s MessageCollection (ImportedFingerprint src) = Some rec"
  shows "\<exists>x. verifyExistingMessage repo target src rec s = (x, s)
    \<and> (x = Inr () \<longleftrightarrow> mirrors_message (view s) (\<lambda>cid. fst (rp_GetBlob repo target cid s)) src)"
proof -
  have k: "rc_RKey rec = ImportedFingerprint src" using view_rkey[OF assms] .
  let ?blob = "\<lambda>cid. fst (rp_GetBlob repo target cid s)"
  show ?thesis
  proof (cases "message_of_json False (rc_Value rec)")
    case None
    with assms show ?thesis by (auto simp: verifyExistingMessage_def mirrors_message_def raise_def)
  next
    case (Some got)
    then have mir: "mirrors_message (view s) ?blob src \<longleftrightarrow>
        (\<exists>pair st. NewMessagePair src (mr_Raw got) = Inr pair \<and> got = mp_Message pair
          \<and> view s MessageStateCollection (ImportedFingerprint src) = Some st
          \<and> state_of_json (rc_Value st) = Some (mp_State pair) \<and> ?blob (br_Link (mr_Raw got)) = Inr (im_Raw src))"
      using assms(2) by (auto simp: mirrors_message_def)
    show ?thesis
    proof (cases "\<exists>pair. ?blob (br_Link (mr_Raw got)) = Inr (im_Raw src) \<and> NewMessagePair src (mr_Raw got) = Inr pair \<and> got = mp_Message pair")
      case True
      then obtain pair where pair: "?blob (br_Link (mr_Raw got)) = Inr (im_Raw src)"
        "NewMessagePair src (mr_Raw got) = Inr pair" "got = mp_Message pair" by blast
      have "ValidateStoredMessage (im_RecipientDID src) (rc_RKey rec) got (im_Raw src) = Inr ()"
        using stored_message_accepted[OF pair(2)] NewMessagePair_fields(1)[OF pair(2)] k pair(3) by simp
      then have "verifyExistingMessage repo target src rec s =
          (case view s MessageStateCollection (ImportedFingerprint src) of None \<Rightarrow> raise ErrIntegrity s | Some st \<Rightarrow>
             (case state_of_json (rc_Value st) of None \<Rightarrow> raise ErrIntegrity s | Some state \<Rightarrow>
                if state \<noteq> mp_State pair then raise ErrIntegrity s else give () s))"
        using Some pair(1,2) pair(3)[symmetric] k assms(1)
        by (auto simp: verifyExistingMessage_def after_def attempt_get attempt_blob split: option.split)
      with mir pair show ?thesis by (auto simp: raise_def give_def split: option.split)
    next
      case False
      then have no: "\<not> mirrors_message (view s) ?blob src" using mir by blast
      have "\<exists>e. verifyExistingMessage repo target src rec s = (Inl e, s)"
        using Some False assms(1)
        by (auto simp: verifyExistingMessage_def after_def attempt_blob raise_def split: sum.split)
      with no show ?thesis by auto
    qed
  qed
qed

lemma verify_messages_exact:
  assumes "inv s" and "\<And>k src. map_of ex k = Some src \<Longrightarrow> ImportedFingerprint src = k"
    and "\<forall>r \<in> set recs. view s MessageCollection (rc_RKey r) = Some r"
  shows "scanned vf_VerifiedMessages message_rest
     (\<lambda>r. \<exists>src. map_of ex (rc_RKey r) = Some src \<and> mirrors_message (view s) (\<lambda>cid. fst (rp_GetBlob repo target cid s)) src)
     v s seen recs (verify_messages repo target ex seen recs (v, s))"
  using assms(3)
proof (induction recs arbitrary: seen v)
  case (Cons r recs)
  let ?mir = "mirrors_message (view s) (\<lambda>cid. fst (rp_GetBlob repo target cid s))"
  from Cons.prems have IH: "scanned vf_VerifiedMessages message_rest (\<lambda>r. \<exists>src. map_of ex (rc_RKey r) = Some src \<and> ?mir src)
     v s seen recs (verify_messages repo target ex seen recs (v, s))" for v seen by (intro Cons.IH) simp
  show ?case
  proof (cases "map_of ex (rc_RKey r)")
    case None
    then show ?thesis by (simp add: add_mismatch_def) (rule scanned_bad[OF IH], simp_all)
  next
    case (Some src)
    from assms(2)[OF Some] Cons.prems have "view s MessageCollection (ImportedFingerprint src) = Some r" by simp
    from verifyExistingMessage_exact[OF assms(1) this] obtain x
      where x: "verifyExistingMessage repo target src r s = (x, s)" "x = Inr () \<longleftrightarrow> ?mir src" by blast
    have step: "on_repo (attempt (verifyExistingMessage repo target src r)) (v, s) = (Inr x, (v, s))"
      using x(1) by (simp add: on_repo_def attempt_def)
    show ?thesis
    proof (cases x)
      case (Inl e)
      with Some step x(2) show ?thesis
        by (simp add: add_mismatch_def) (rule scanned_bad[OF IH], simp_all)
    next
      case (Inr u)
      with Some step x(2) show ?thesis
        by simp (rule scanned_good[OF IH], simp_all)
    qed
  qed
qed (simp add: scanned_Nil)

lemma listed_keys:
  assumes "inv s" and "lists (view s c) rs"
  shows "rc_RKey ` set rs = {k. view s c k \<noteq> None}"
proof (intro equalityI subsetI)
  fix k assume "k \<in> {k. view s c k \<noteq> None}"
  then obtain r where r: "view s c k = Some r" by auto
  with view_rkey[OF assms(1) r] assms(2) have "r \<in> set rs" by (simp add: lists_def)
  with view_rkey[OF assms(1) r] show "k \<in> rc_RKey ` set rs" by auto
qed (use assms(2) in \<open>auto simp: lists_def\<close>)

lemma messages_listed:
  assumes "inv s" and "lists (view s MessageCollection) rs" and "distinct (keys ex)"
  shows "(\<forall>r \<in> set rs. \<exists>src. map_of ex (rc_RKey r) = Some src \<and> mir src) \<and> set (keys ex) \<subseteq> rc_RKey ` set rs
    \<longleftrightarrow> (\<forall>k. view s MessageCollection k \<noteq> None \<longleftrightarrow> k \<in> set (keys ex)) \<and> (\<forall>(k, src) \<in> set ex. mir src)"
    (is "?l \<longleftrightarrow> ?r")
proof
  assume l: ?l
  then have sub: "rc_RKey ` set rs \<subseteq> set (keys ex)" by (force dest: map_of_SomeD)
  with l listed_keys[OF assms(1,2)] have "\<forall>k. view s MessageCollection k \<noteq> None \<longleftrightarrow> k \<in> set (keys ex)" by blast
  moreover have "mir src" if "(k, src) \<in> set ex" for k src
  proof -
    from that l have "k \<in> rc_RKey ` set rs" by force
    with l obtain src' where "map_of ex k = Some src'" "mir src'" by blast
    with that assms(3) show ?thesis by simp
  qed
  ultimately show ?r by auto
next
  assume r: ?r
  with listed_keys[OF assms(1,2)] have eq: "rc_RKey ` set rs = set (keys ex)" by simp
  have "\<exists>src. map_of ex (rc_RKey x) = Some src \<and> mir src" if "x \<in> set rs" for x
  proof -
    from that eq have "rc_RKey x \<in> set (keys ex)" by blast
    then obtain src where "map_of ex (rc_RKey x) = Some src" by (metis map_of_eq_None_iff not_None_eq set_map)
    with r show ?thesis by (auto dest: map_of_SomeD)
  qed
  with eq show ?l by simp
qed

lemma folders_listed:
  assumes "inv s" and "lists (view s FolderCollection) rs"
  shows "(\<forall>r \<in> set rs. map_of ex (rc_RKey r) \<noteq> None \<and> folder_of_json (rc_Value r) = map_of ex (rc_RKey r))
      \<and> set (keys ex) \<subseteq> rc_RKey ` set rs
    \<longleftrightarrow> (\<forall>k. map_option (\<lambda>rec. folder_of_json (rc_Value rec)) (view s FolderCollection k) = map_option Some (map_of ex k))"
    (is "?l \<longleftrightarrow> ?r")
proof
  assume l: ?l
  show ?r
  proof
    fix k
    show "map_option (\<lambda>rec. folder_of_json (rc_Value rec)) (view s FolderCollection k) = map_option Some (map_of ex k)"
    proof (cases "view s FolderCollection k")
      case None
      with listed_keys[OF assms] have "k \<notin> rc_RKey ` set rs" by simp
      with l have "map_of ex k = None" by (auto simp: map_of_eq_None_iff)
      with None show ?thesis by simp
    next
      case (Some r)
      with view_rkey[OF assms(1) Some] assms(2) have "r \<in> set rs" "rc_RKey r = k" by (auto simp: lists_def)
      with l Some show ?thesis by auto
    qed
  qed
next
  assume r: ?r
  have "set (keys ex) \<subseteq> rc_RKey ` set rs"
  proof
    fix k assume "k \<in> set (keys ex)"
    then have "map_of ex k \<noteq> None" by (simp add: map_of_eq_None_iff)
    with spec[OF r, of k] listed_keys[OF assms] show "k \<in> rc_RKey ` set rs" by auto
  qed
  moreover have "map_of ex (rc_RKey x) \<noteq> None \<and> folder_of_json (rc_Value x) = map_of ex (rc_RKey x)" if "x \<in> set rs" for x
    using spec[OF r, of "rc_RKey x"] that assms(2) by (cases "map_of ex (rc_RKey x)") (auto simp: lists_def)
  ultimately show ?l by blast
qed

lemma states_listed:
  assumes "inv s" and "lists (view s MessageStateCollection) rs" and "distinct (keys ex)"
  shows "length rs = length ex \<and> rc_RKey ` set rs \<subseteq> set (keys ex)
    \<longleftrightarrow> (\<forall>k. view s MessageStateCollection k \<noteq> None \<longleftrightarrow> k \<in> set (keys ex))"
    (is "?l \<longleftrightarrow> ?r")
proof
  assume l: ?l
  have "card (rc_RKey ` set rs) = length rs" using assms(2) distinct_card[of "map rc_RKey rs"] by (simp add: lists_def)
  moreover have "card (set (keys ex)) = length ex" using distinct_card[OF assms(3)] by simp
  ultimately have "rc_RKey ` set rs = set (keys ex)" using l by (intro card_subset_eq) simp_all
  with listed_keys[OF assms(1,2)] show ?r by blast
next
  assume ?r
  with listed_keys[OF assms(1,2)] have "rc_RKey ` set rs = set (keys ex)" by simp
  with lists_length[OF assms(2,3)] show ?l by simp
qed

text \<open>Verification returns in every authorised state, changes nothing, and passes exactly for a mirror.\<close>

lemma Verify_decides:
  assumes s: "inv s" and stream: "sns_Stream sn sp = (ms, Inr ())" and fs: "sns_Folders sn sp = Inr fs"
  shows "\<exists>v. Verify sn sp repo target (no_verification, s) = (Inr (), (v, s))
    \<and> (Passed v \<longleftrightarrow> mirrors (view s) (\<lambda>cid. fst (rp_GetBlob repo target cid s)) (expected_messages ms) (expected_folders fs))"
proof -
  let ?ex = "expected_messages ms" and ?fx = "expected_folders fs"
  let ?mir = "mirrors_message (view s) (\<lambda>cid. fst (rp_GetBlob repo target cid s))"
  obtain dm where dm: "rp_ListRecords repo target MessageCollection s = (Inr dm, s)" "lists (view s MessageCollection) dm"
    using list_records[OF s] by blast
  obtain df where df: "rp_ListRecords repo target FolderCollection s = (Inr df, s)" "lists (view s FolderCollection) df"
    using list_records[OF s] by blast
  obtain ds where ds: "rp_ListRecords repo target MessageStateCollection s = (Inr ds, s)" "lists (view s MessageStateCollection) ds"
    using list_records[OF s] by blast
  define v1 where "v1 = no_verification\<lparr>vf_SourceMessages := length ?ex, vf_SourceFolders := length ?fx,
    vf_DestinationMessages := length dm\<rparr>"
  have "scanned vf_VerifiedMessages message_rest (\<lambda>r. \<exists>src. map_of ?ex (rc_RKey r) = Some src \<and> ?mir src)
      v1 s [] dm (verify_messages repo target ?ex [] dm (v1, s))"
    using dm(2) by (intro verify_messages_exact[OF s]) (auto simp: lists_def dest: expected_messages_key)
  then obtain seen v2 where 2: "verify_messages repo target ?ex [] dm (v1, s) = (Inr seen, (v2, s))"
      "message_rest v2 = message_rest v1"
      "vf_Mismatches v2 = [] \<longleftrightarrow> vf_Mismatches v1 = [] \<and> (\<forall>r \<in> set dm. \<exists>src. map_of ?ex (rc_RKey r) = Some src \<and> ?mir src)"
      "vf_Mismatches v2 = [] \<longrightarrow> vf_VerifiedMessages v2 = vf_VerifiedMessages v1 + length dm \<and> set seen = set [] \<union> rc_RKey ` set dm"
    by (rule scannedE)
  obtain m3 where 3: "report_missing ''missing-message'' ''source message is absent from destination'' seen (keys ?ex) (v2, s)
      = (Inr (), (v2\<lparr>vf_Mismatches := m3\<rparr>, s))" "m3 = [] \<longleftrightarrow> vf_Mismatches v2 = [] \<and> set (keys ?ex) \<subseteq> set seen"
    by (rule report_missingE)
  define v4 where "v4 = v2\<lparr>vf_Mismatches := m3, vf_DestinationFolders := length df\<rparr>"
  from verify_folders_exact[of ?fx v4 s "[]" df]
  obtain seenF v5 where 5: "verify_folders ?fx [] df (v4, s) = (Inr seenF, (v5, s))" "folder_rest v5 = folder_rest v4"
      "vf_Mismatches v5 = [] \<longleftrightarrow> vf_Mismatches v4 = []
        \<and> (\<forall>r \<in> set df. map_of ?fx (rc_RKey r) \<noteq> None \<and> folder_of_json (rc_Value r) = map_of ?fx (rc_RKey r))"
      "vf_Mismatches v5 = [] \<longrightarrow> vf_VerifiedFolders v5 = vf_VerifiedFolders v4 + length df \<and> set seenF = set [] \<union> rc_RKey ` set df"
    by (rule scannedE)
  obtain m6 where 6: "report_missing ''missing-folder'' ''source folder is absent from destination'' seenF (keys ?fx) (v5, s)
      = (Inr (), (v5\<lparr>vf_Mismatches := m6\<rparr>, s))" "m6 = [] \<longleftrightarrow> vf_Mismatches v5 = [] \<and> set (keys ?fx) \<subseteq> set seenF"
    by (rule report_missingE)
  define m7 where "m7 = (if length ds \<noteq> length ?ex then m6 @ [\<lparr>mm_Kind = ''state-count'', mm_Key = ''sha256-redacted'',
      mm_Detail = ''message-state count differs from source message count''\<rparr>] else m6)"
  obtain m8 where 8: "report_extra_states ?ex ds (v5\<lparr>vf_Mismatches := m7\<rparr>, s)
      = (Inr (), (v5\<lparr>vf_Mismatches := m7\<rparr>\<lparr>vf_Mismatches := m8\<rparr>, s))"
      "m8 = [] \<longleftrightarrow> vf_Mismatches (v5\<lparr>vf_Mismatches := m7\<rparr>) = [] \<and> rc_RKey ` set ds \<subseteq> set (keys ?ex)"
    by (rule report_extra_statesE)
  let ?v = "v5\<lparr>vf_Mismatches := sort_key (\<lambda>m. (mm_Kind m, mm_Key m)) m8\<rparr>"
  have count: "(if length ds \<noteq> length ?ex
        then add_mismatch ''state-count'' ''sha256-redacted'' ''message-state count differs from source message count''
        else give ()) (v5\<lparr>vf_Mismatches := m6\<rparr>, s) = (Inr (), (v5\<lparr>vf_Mismatches := m7\<rparr>, s))"
    by (simp add: m7_def add_mismatch_def adjust_def give_def)
  have v1: "v1 = no_verification\<lparr>vf_SourceMessages := length ?ex\<rparr>\<lparr>vf_SourceFolders := length ?fx\<rparr>\<lparr>vf_DestinationMessages := length dm\<rparr>"
    and v4: "v4 = v2\<lparr>vf_Mismatches := m3\<rparr>\<lparr>vf_DestinationFolders := length df\<rparr>"
    by (simp_all add: v1_def v4_def)
  have listing: "on_repo (rp_ListRecords repo target MessageCollection) (v, s) = (Inr dm, (v, s))"
    "on_repo (rp_ListRecords repo target FolderCollection) (v, s) = (Inr df, (v, s))"
    "on_repo (rp_ListRecords repo target MessageStateCollection) (v, s) = (Inr ds, (v, s))" for v :: Verification
    using dm(1) df(1) ds(1) by (simp_all add: on_repo_def)
  note steps = 2(1)[unfolded v1] 3(1) 5(1)[unfolded v4] 6(1) 8(1)
  have run: "Verify sn sp repo target (no_verification, s) = (Inr (), (?v, s))"
    unfolding Verify_def stream fs Let_def prod.case
    by (simp only: after_def returning_def adjust_def prod.case sum.case listing steps count) simp
  have mis: "vf_Mismatches v1 = []" "vf_Mismatches v4 = m3" "m7 = [] \<longleftrightarrow> m6 = [] \<and> length ds = length ?ex"
    by (simp_all add: v1_def v4_def m7_def no_verification_def)
  note exd = expected_messages_map(1)[of ms]
  have m3: "m3 = [] \<longleftrightarrow> (\<forall>r \<in> set dm. \<exists>src. map_of ?ex (rc_RKey r) = Some src \<and> ?mir src) \<and> set (keys ?ex) \<subseteq> rc_RKey ` set dm"
    using 2(3,4) 3(2) mis(1) by (cases "vf_Mismatches v2 = []") simp_all
  have m6: "m6 = [] \<longleftrightarrow> m3 = []
      \<and> (\<forall>r \<in> set df. map_of ?fx (rc_RKey r) \<noteq> None \<and> folder_of_json (rc_Value r) = map_of ?fx (rc_RKey r))
      \<and> set (keys ?fx) \<subseteq> rc_RKey ` set df"
    using 5(3,4) 6(2) mis(2) by (cases "vf_Mismatches v5 = []") simp_all
  have m8': "m8 = [] \<longleftrightarrow> m6 = [] \<and> length ds = length ?ex \<and> rc_RKey ` set ds \<subseteq> set (keys ?ex)"
    using 8(2) mis(3) by simp
  have m8: "m8 = [] \<longleftrightarrow> mirrors (view s) (\<lambda>cid. fst (rp_GetBlob repo target cid s)) ?ex ?fx"
    unfolding m8' m6 m3 messages_listed[OF s dm(2) exd] folders_listed[OF s df(2)] states_listed[OF s ds(2) exd] mirrors_def
    by (rule iffI; elim conjE; intro conjI; assumption)
  have "vf_SourceMessages v5 = length ?ex" "vf_SourceFolders v5 = length ?fx" "vf_DestinationMessages v5 = length dm"
    "vf_DestinationFolders v5 = length df" "vf_VerifiedMessages v5 = vf_VerifiedMessages v2"
    using 2(2) 5(2) by (simp_all add: v1_def v4_def)
  moreover have "length dm = length ?ex \<and> length df = length ?fx \<and> vf_VerifiedMessages v2 = length dm
      \<and> vf_VerifiedFolders v5 = length df" if "m8 = []"
  proof -
    from that have none: "vf_Mismatches v2 = []" "vf_Mismatches v5 = []" using 3(2) 5(3) 6(2) 8(2) mis by simp_all
    from m8 that have mirr: "\<forall>k. view s MessageCollection k \<noteq> None \<longleftrightarrow> k \<in> set (keys ?ex)"
      "\<forall>k. map_option (\<lambda>rec. folder_of_json (rc_Value rec)) (view s FolderCollection k) = map_option Some (map_of ?fx k)"
      by (simp_all add: mirrors_def)
    have "view s FolderCollection k \<noteq> None \<longleftrightarrow> k \<in> set (keys ?fx)" for k
      using spec[OF mirr(2), of k] map_of_eq_None_iff[of ?fx k] by (cases "view s FolderCollection k") auto
    then have "rc_RKey ` set df = set (keys ?fx)" using listed_keys[OF s df(2)] by simp
    moreover have "rc_RKey ` set dm = set (keys ?ex)" using listed_keys[OF s dm(2)] mirr(1) by simp
    ultimately show ?thesis
      using none 2(2,4) 5(4) lists_length[OF dm(2) exd] lists_length[OF df(2) expected_folders_map(1)]
      by (simp add: v1_def v4_def no_verification_def)
  qed
  ultimately have "Passed ?v \<longleftrightarrow> m8 = []" by (auto simp: Passed_def simp flip: length_0_conv)
  with run m8 show ?thesis by blast
qed

text \<open>Over a mirror the copy finds everything in place and changes nothing.\<close>

lemma migrate_folders_again:
  assumes s: "inv s"
    and "\<forall>f \<in> set fs. \<exists>rec. view s FolderCollection (fo_RKey (sf_Folder f)) = Some rec
      \<and> folder_of_json (rc_Value rec) = Some (fo_Record (sf_Folder f))"
  shows "migrate_folders repo target fs (r, s) = (Inr (), (r\<lparr>rep_ExistingFolders := rep_ExistingFolders r + length fs\<rparr>, s))"
  using assms(2)
proof (induction fs arbitrary: r)
  case (Cons f fs)
  then obtain rec where "view s FolderCollection (fo_RKey (sf_Folder f)) = Some rec"
    "folder_of_json (rc_Value rec) = Some (fo_Record (sf_Folder f))" by auto
  then have "migrate_folder repo target f (r, s) = (Inr (), (r\<lparr>rep_ExistingFolders := rep_ExistingFolders r + 1\<rparr>, s))"
    using attempt_get[OF s, of FolderCollection "fo_RKey (sf_Folder f)"]
    by (simp add: migrate_folder_def folder_exists_def verifyFolderRecord_def after_def on_repo_def returning_def adjust_def Let_def)
  with Cons show ?case by (simp add: after_def)
qed (simp add: give_def)

lemma migrate_messages_again:
  assumes s: "inv s"
    and "\<forall>m \<in> set ms. mirrors_message (view s) (\<lambda>cid. fst (rp_GetBlob repo target cid s)) (sm_Imported m)"
  shows "visit_all (migrate_message repo target) ms (Inr ()) (r, s) =
    (Inr (), (r\<lparr>rep_Fingerprints := rep_Fingerprints r @ map (\<lambda>m. ImportedFingerprint (sm_Imported m)) ms,
       rep_ExistingMessages := rep_ExistingMessages r + length ms\<rparr>, s))"
  using assms(2)
proof (induction ms arbitrary: r)
  case (Cons m ms)
  let ?src = "sm_Imported m"
  from Cons.prems have mir: "mirrors_message (view s) (\<lambda>cid. fst (rp_GetBlob repo target cid s)) ?src" by simp
  then obtain rec where rec: "view s MessageCollection (ImportedFingerprint ?src) = Some rec"
    unfolding mirrors_message_def by blast
  from verifyExistingMessage_exact[OF s rec] mir
  have "verifyExistingMessage repo target ?src rec s = (Inr (), s)" by blast
  then have "migrate_message repo target m (r, s) = (Inr (),
      (r\<lparr>rep_Fingerprints := rep_Fingerprints r @ [ImportedFingerprint ?src], rep_ExistingMessages := rep_ExistingMessages r + 1\<rparr>, s))"
    using attempt_get[OF s, of MessageCollection "ImportedFingerprint ?src"] rec
    by (simp add: migrate_message_def message_exists_def after_def on_repo_def adjust_def Let_def)
  with Cons show ?case by (simp add: after_def)
qed simp

end

section \<open>The memory provider meets the contract\<close>

lemma mem_session_inv_apply:
  assumes "mem_session_inv s t b"
  shows "mem_session_inv s t (snd (mem_ApplyWrites s t ws b))"
proof -
  from assms have inv: "mem_inv (snd (mem_ApplyWrites s t ws b))"
    by (auto simp: mem_session_inv_def intro: mem_ApplyWrites_inv[OF _ prod.collapse[symmetric]])
  from assms obtain sp where act: "checkActive s = Inr ()" and auth: "authWriteLocked s t b = Inr sp"
    by (auto simp: mem_session_inv_def)
  have "\<exists>sp'. authWriteLocked s t (snd (mem_ApplyWrites s t ws b)) = Inr sp'"
  proof (cases "applyAllLocked b sp t ws")
    case (Inr p)
    then obtain rs sp' where "applyAllLocked b sp t ws = Inr (rs, sp')" by (cases p) simp
    with applyAllLocked_frame(2)[OF this] act auth authWriteD[OF auth] show ?thesis
      by (auto simp: mem_ApplyWrites_def Let_def authWriteLocked_def)
  qed (use act auth in \<open>simp add: mem_ApplyWrites_def\<close>)
  with inv act show ?thesis by (simp add: mem_session_inv_def)
qed

lemma mem_session_inv_upload:
  assumes "mem_session_inv s t b"
  shows "mem_session_inv s t (snd (mem_UploadBlob s t content mime b))"
proof -
  from assms have inv: "mem_inv (snd (mem_UploadBlob s t content mime b))"
    by (auto simp: mem_session_inv_def intro: mem_UploadBlob_inv[OF _ prod.collapse[symmetric]])
  have "bk_spaces (snd (mem_UploadBlob s t content mime b)) = bk_spaces b"
    by (auto simp: mem_UploadBlob_def Let_def split: sum.split)
  then have "authWriteLocked s t (snd (mem_UploadBlob s t content mime b)) = authWriteLocked s t b"
    by (simp add: authWriteLocked_def)
  with assms inv show ?thesis by (simp add: mem_session_inv_def)
qed

lemma mem_lists:
  assumes "mem_session_inv s t b"
  shows "\<exists>rs. mem_ListRecords s t c b = (Inr rs, b) \<and> lists (mem_view t b c) rs"
proof -
  from assms obtain sp where act: "checkActive s = Inr ()" and auth: "authWriteLocked s t b = Inr sp" and mi: "mem_inv b"
    by (auto simp: mem_session_inv_def)
  let ?m = "inner (inner (sp_records sp) (tg_RepoDID t)) c"
  let ?rs = "map (\<lambda>k. exportRecord c k (the (map_of ?m k)) no_result) (sort (keys ?m))"
  from mi authWriteD(1)[OF auth] have "maps_wf sp" by (auto simp: mem_inv_def space_inv_def)
  then have dist: "distinct (keys ?m)" by (simp add: maps_wf_def)
  have key: "rc_RKey (exportRecord c k r no_result) = k" for k r by (simp add: exportRecord_def)
  have view: "mem_view t b c k = map_option (\<lambda>r. exportRecord c k r no_result) (map_of ?m k)" for k
    using authWriteD(1)[OF auth] by (simp add: mem_view_def lookupRecord_def)
  have "r \<in> set ?rs \<longleftrightarrow> mem_view t b c (rc_RKey r) = Some r" for r
  proof
    assume "r \<in> set ?rs"
    then obtain k where k: "k \<in> set (keys ?m)" "r = exportRecord c k (the (map_of ?m k)) no_result" by auto
    then have "map_of ?m k \<noteq> None" by (simp add: map_of_eq_None_iff)
    with k(2) show "mem_view t b c (rc_RKey r) = Some r" by (auto simp: view key)
  next
    assume "mem_view t b c (rc_RKey r) = Some r"
    then obtain x where x: "map_of ?m (rc_RKey r) = Some x" "r = exportRecord c (rc_RKey r) x no_result"
      by (auto simp: view)
    then have "rc_RKey r \<in> set (keys ?m)" by (auto dest: map_of_SomeD intro!: image_eqI)
    with x show "r \<in> set ?rs" by (auto intro!: image_eqI[of _ _ "rc_RKey r"])
  qed
  moreover have "distinct (map rc_RKey ?rs)" using dist by (simp add: comp_def key)
  ultimately have "lists (mem_view t b c) ?rs" by (simp add: lists_def)
  moreover have "mem_ListRecords s t c b = (Inr ?rs, b)"
    using act authWrite_reads[OF auth] by (simp add: mem_ListRecords_def Let_def)
  ultimately show ?thesis by blast
qed

interpretation mem: listing_repository "memory_repo s" t "mem_session_inv s t" "mem_view t" for s t
  by unfold_locales
    (simp_all add: memory_repo_def mem_lists mem_session_inv_upload mem_session_inv_apply)

section \<open>A committed run\<close>

text \<open>What a run that committed without an error went through.\<close>

lemma commit_mailbox_InrE:
  assumes "commit_mailbox sx sn repo opts cap iv (r, s) = (Inr (), (rep, s'))"
  obtains t s1 fs r1 r2 s2 s3 v where "rp_EnsureMailbox repo (op_RecipientDID opts) (op_SpaceKey opts) s = (Inr t, s1)"
    and "cp_AtomicApplyWrites cap" "cp_CompareAndSwap cap" "cp_ReferencedBlobs cap"
    and "ValidateFor sx t (op_RecipientDID opts) = Inr ()" and "sns_Folders sn (iv_Space iv) = Inr fs"
    and "migrate_folders repo t fs (r\<lparr>rep_Target := t\<rparr>, s1) = (Inr (), (r1, s2))"
    and "stream_sorted sn (iv_Space iv) (migrate_message repo t) (r1, s2) = (Inr (), (r2, s3))"
    and "Verify sn (iv_Space iv) repo t (no_verification, s3) = (Inr (), (v, s'))" and "Passed v"
proof -
  from assms have caps: "cp_AtomicApplyWrites cap" "cp_CompareAndSwap cap" "cp_ReferencedBlobs cap"
    by (auto simp: commit_mailbox_def raise_def split: if_splits)
  with assms obtain t s1 where ens: "rp_EnsureMailbox repo (op_RecipientDID opts) (op_SpaceKey opts) s = (Inr t, s1)"
    by (auto simp: commit_mailbox_def after_def on_repo_def split: prod.splits sum.splits)
  moreover from assms caps ens have val: "ValidateFor sx t (op_RecipientDID opts) = Inr ()"
    by (auto simp: commit_mailbox_def after_def on_repo_def returning_def split: sum.splits)
  moreover from assms caps ens val obtain fs where fs: "sns_Folders sn (iv_Space iv) = Inr fs"
    by (auto simp: commit_mailbox_def after_def on_repo_def returning_def adjust_def split: sum.splits)
  moreover from assms caps ens val fs obtain r1 s2 where fol: "migrate_folders repo t fs (r\<lparr>rep_Target := t\<rparr>, s1) = (Inr (), (r1, s2))"
    by (auto simp: commit_mailbox_def after_def on_repo_def returning_def adjust_def split: prod.splits sum.splits)
  moreover from assms caps ens val fs fol obtain r2 s3 where
    str: "stream_sorted sn (iv_Space iv) (migrate_message repo t) (r1, s2) = (Inr (), (r2, s3))"
    by (auto simp: commit_mailbox_def after_def on_repo_def returning_def adjust_def split: prod.splits sum.splits)
  moreover from assms caps ens val fs fol str have "run_verify sn (iv_Space iv) repo t (r2, s3) = (Inr (), (rep, s'))"
    by (simp add: commit_mailbox_def after_def on_repo_def returning_def adjust_def)
  then obtain v where "Verify sn (iv_Space iv) repo t (no_verification, s3) = (Inr (), (v, s'))" "Passed v"
    by (auto simp: run_verify_def split: prod.splits sum.splits if_splits)
  ultimately show thesis using caps by (intro that)
qed

text \<open>The report once the snapshot was inspected.\<close>

definition inspected :: "'s Repository \<Rightarrow> Options \<Rightarrow> Capabilities \<Rightarrow> Inventory \<Rightarrow> Report" where
  "inspected repo opts cap iv = (new_report opts)\<lparr>rep_Provider := rp_ProviderID repo, rep_Capabilities := cap,
     rep_SourceFolders := iv_Folders iv, rep_SourceMessages := iv_LiveMessages iv, rep_SourceBytes := iv_LiveBytes iv,
     rep_ExpungedSkipped := iv_ExpungedMessages iv, rep_OversizeBlocked := iv_OversizeMessages iv\<rparr>"

lemma Run_inspected:
  assumes "rp_Capabilities repo s = (Inr cap, s0)"
    and "sns_Inspect sn (op_RecipientDID opts) (op_SpaceKey opts) = Inr iv" and "\<not> iv_OversizeMessages iv > 0"
    and "op_Commit opts"
  shows "Run sx (Some sn) (Some repo) opts s = commit_mailbox sx sn repo opts cap iv (inspected repo opts cap iv, s0)"
  using assms
  by (simp add: Run_def run_attached_def after_def on_repo_def adjust_def returning_def inspected_def)

lemma Run_InrE:
  assumes "Run sx (Some sn) (Some repo) opts s = (Inr (), (rep, s'))"
  obtains cap s0 iv where "rp_Capabilities repo s = (Inr cap, s0)"
    and "sns_Inspect sn (op_RecipientDID opts) (op_SpaceKey opts) = Inr iv" and "\<not> iv_OversizeMessages iv > 0"
proof -
  from assms obtain cap s0 where cap: "rp_Capabilities repo s = (Inr cap, s0)"
    by (auto simp: Run_def run_attached_def after_def on_repo_def adjust_def split: prod.splits sum.splits)
  moreover from assms cap obtain iv where iv: "sns_Inspect sn (op_RecipientDID opts) (op_SpaceKey opts) = Inr iv"
    by (auto simp: Run_def run_attached_def after_def on_repo_def adjust_def returning_def split: sum.splits)
  moreover from assms cap iv have "\<not> iv_OversizeMessages iv > 0"
    by (auto simp: Run_def run_attached_def after_def on_repo_def adjust_def returning_def raise_def split: if_splits)
  ultimately show thesis by (intro that)
qed

lemma Verify_InrD:
  assumes "Verify sn sp repo t (v, s) = (Inr (), x)"
  shows "\<exists>ms fs. sns_Stream sn sp = (ms, Inr ()) \<and> sns_Folders sn sp = Inr fs"
  using assms by (auto simp: Verify_def Let_def after_def returning_def adjust_def split: prod.splits sum.splits)

lemma Run_dry:
  assumes "\<not> op_Commit opts"
  shows "snd (snd (Run sx sn (Some (memory_repo s)) opts b)) = b"
proof -
  obtain x where x: "on_repo (rp_Capabilities (memory_repo s)) (r, b) = (x, (r, b))" for r :: Report
    using mem_reads_pure(1)[of s b] by (cases "mem_Capabilities s b") (simp add: on_repo_def memory_repo_def)
  show ?thesis
  proof (cases x)
    case (Inr cap)
    show ?thesis
    proof (cases sn)
      case (Some sn')
      with Inr x assms show ?thesis
        by (cases "sns_Inspect sn' (op_RecipientDID opts) (op_SpaceKey opts)")
          (simp_all add: Run_def run_attached_def after_simps(2)[of "on_repo (rp_Capabilities (memory_repo s))"]
            dry_stream_pure raise_def)
    qed (simp add: Run_def)
  next
    case (Inl e)
    with x show ?thesis
      by (cases sn) (simp_all add: Run_def run_attached_def after_simps(1)[of "on_repo (rp_Capabilities (memory_repo s))"])
  qed
qed

lemma mem_EnsureMailbox_session:
  assumes "mem_inv b" and "mem_EnsureMailbox s d key b = (Inr t, b')"
  shows "mem_session_inv s t b'" and "t = memory_target d key"
    and "mem_session_inv s t b'' \<Longrightarrow> mem_EnsureMailbox s d key b'' = (Inr t, b'')"
proof -
  from assms(2) have ok: "checkActive s = Inr ()" "ss_owner s" "d = ss_did s" "d \<noteq> []" "validKey key"
    and t: "t = memory_target d key"
    by (auto simp: mem_EnsureMailbox_def Let_def split: sum.splits if_splits option.splits)
  from assms(2) obtain sp where "map_of (bk_spaces b') (tg_SpaceURI t) = Some sp" "sp_target sp = t"
    by (auto simp: mem_EnsureMailbox_def Let_def split: sum.splits if_splits option.splits)
  with ok t memory_target_prefix[of d key] have "authWriteLocked s t b' = Inr sp"
    by (simp add: authWriteLocked_def)
  with mem_EnsureMailbox_inv[OF assms] ok show "mem_session_inv s t b'" by (simp add: mem_session_inv_def)
  show "t = memory_target d key" by (rule t)
  show "mem_EnsureMailbox s d key b'' = (Inr t, b'')" if "mem_session_inv s t b''"
  proof -
    from that obtain sp where "authWriteLocked s t b'' = Inr sp" by (auto simp: mem_session_inv_def)
    with authWriteD[OF this] ok t show ?thesis by (simp add: mem_EnsureMailbox_def Let_def)
  qed
qed

text \<open>The facts about a committed run that the property below collects.\<close>

lemma Run_committed:
  assumes inv: "mem_inv b" and commit: "op_Commit opts"
    and run: "Run sx (Some sn) (Some (memory_repo s)) opts b = (Inr (), (rep, b'))"
  obtains iv t ms fs cap v where "sns_Inspect sn (op_RecipientDID opts) (op_SpaceKey opts) = Inr iv"
    and "\<not> iv_OversizeMessages iv > 0"
    and "sns_Stream sn (iv_Space iv) = (ms, Inr ())" and "sns_Folders sn (iv_Space iv) = Inr fs"
    and "rp_Capabilities (memory_repo s) b = (Inr cap, b)" "cp_AtomicApplyWrites cap" "cp_CompareAndSwap cap" "cp_ReferencedBlobs cap"
    and "t = memory_target (op_RecipientDID opts) (op_SpaceKey opts)" and "mem_session_inv s t b'"
    and "mem_EnsureMailbox s (op_RecipientDID opts) (op_SpaceKey opts) b' = (Inr t, b')"
    and "ValidateFor sx t (op_RecipientDID opts) = Inr ()"
    and "Verify sn (iv_Space iv) (memory_repo s) t (no_verification, b') = (Inr (), (v, b'))" and "Passed v"
proof -
  let ?repo = "memory_repo s"
  from run obtain cap b0 iv where cap: "rp_Capabilities ?repo b = (Inr cap, b0)"
    and iv: "sns_Inspect sn (op_RecipientDID opts) (op_SpaceKey opts) = Inr iv" "\<not> iv_OversizeMessages iv > 0"
    by (rule Run_InrE)
  have b0: "b0 = b" using cap mem_reads_pure(1)[of s b] by (simp add: memory_repo_def)
  from run have "commit_mailbox sx sn ?repo opts cap iv (inspected ?repo opts cap iv, b) = (Inr (), (rep, b'))"
    by (simp add: Run_inspected[OF cap iv commit] b0)
  then obtain t b1 fs r1 r2 b2 b3 v where ens: "rp_EnsureMailbox ?repo (op_RecipientDID opts) (op_SpaceKey opts) b = (Inr t, b1)"
    and caps: "cp_AtomicApplyWrites cap" "cp_CompareAndSwap cap" "cp_ReferencedBlobs cap"
    and val: "ValidateFor sx t (op_RecipientDID opts) = Inr ()" and fs: "sns_Folders sn (iv_Space iv) = Inr fs"
    and fol: "migrate_folders ?repo t fs ((inspected ?repo opts cap iv)\<lparr>rep_Target := t\<rparr>, b1) = (Inr (), (r1, b2))"
    and str: "stream_sorted sn (iv_Space iv) (migrate_message ?repo t) (r1, b2) = (Inr (), (r2, b3))"
    and ver: "Verify sn (iv_Space iv) ?repo t (no_verification, b3) = (Inr (), (v, b'))" "Passed v"
    by (rule commit_mailbox_InrE)
  from ens have ens': "mem_EnsureMailbox s (op_RecipientDID opts) (op_SpaceKey opts) b = (Inr t, b1)" by (simp add: memory_repo_def)
  note session = mem_EnsureMailbox_session[OF inv ens']
  have "mem_grows b1 b2" using mem.migrate_folders_ext[of s t fs] fol unfolding keeps_def by (metis snd_conv)
  moreover have "mem_grows b2 b3"
    using mem.stream_sorted_ext[of "migrate_message ?repo t" sn "iv_Space iv", OF mem.migrate_message_ext] str unfolding keeps_def by (metis snd_conv)
  ultimately have s3: "mem_session_inv s t b3" using session(1) by (blast intro: mem_grows_session)
  from Verify_InrD[OF ver(1)] fs obtain ms where ms: "sns_Stream sn (iv_Space iv) = (ms, Inr ())" by auto
  from mem.Verify_decides[OF s3 ms fs] ver(1) have b': "b' = b3" by auto
  show thesis
    using that[OF iv ms fs cap[unfolded b0] caps session(2) _ _ val] s3 session(3)[OF s3] ver b' by simp
qed

text \<open>With distinct keys the maps of \<^verbatim>\<open>Verify\<close> hold every item of the source.\<close>

lemma expected_distinct:
  "distinct (map (\<lambda>m. ImportedFingerprint (sm_Imported m)) ms) \<Longrightarrow> m \<in> set ms \<Longrightarrow>
     (ImportedFingerprint (sm_Imported m), sm_Imported m) \<in> set (expected_messages ms)"
  "distinct (map (\<lambda>f. fo_RKey (sf_Folder f)) fs) \<Longrightarrow> f \<in> set fs \<Longrightarrow>
     map_of (expected_folders fs) (fo_RKey (sf_Folder f)) = Some (fo_Record (sf_Folder f))"
proof -
  assume "distinct (map (\<lambda>m. ImportedFingerprint (sm_Imported m)) ms)" "m \<in> set ms"
  then have "map_of (expected_messages ms) (ImportedFingerprint (sm_Imported m)) = Some (sm_Imported m)"
    unfolding expected_messages_map(2) by (intro map_of_is_SomeI) (auto simp: comp_def rev_map[symmetric])
  then show "(ImportedFingerprint (sm_Imported m), sm_Imported m) \<in> set (expected_messages ms)" by (rule map_of_SomeD)
next
  assume "distinct (map (\<lambda>f. fo_RKey (sf_Folder f)) fs)" "f \<in> set fs"
  then show "map_of (expected_folders fs) (fo_RKey (sf_Folder f)) = Some (fo_Record (sf_Folder f))"
    unfolding expected_folders_map(2) by (intro map_of_is_SomeI) (auto simp: comp_def rev_map[symmetric])
qed

text \<open>A run over a mirror of its own source.\<close>

lemma Run_over_mirror:
  assumes s: "mem_session_inv s t b" and commit: "op_Commit opts"
    and iv: "sns_Inspect sn (op_RecipientDID opts) (op_SpaceKey opts) = Inr iv" "\<not> iv_OversizeMessages iv > 0"
    and src: "sns_Stream sn (iv_Space iv) = (ms, Inr ())" "sns_Folders sn (iv_Space iv) = Inr fs"
    and cap: "rp_Capabilities (memory_repo s) b = (Inr cap, b)" "cp_AtomicApplyWrites cap" "cp_CompareAndSwap cap" "cp_ReferencedBlobs cap"
    and ens: "mem_EnsureMailbox s (op_RecipientDID opts) (op_SpaceKey opts) b = (Inr t, b)"
    and val: "ValidateFor sx t (op_RecipientDID opts) = Inr ()"
    and ver: "Verify sn (iv_Space iv) (memory_repo s) t (no_verification, b) = (Inr (), (v, b))" "Passed v"
    and dist: "distinct (map (\<lambda>m. ImportedFingerprint (sm_Imported m)) ms)" "distinct (map (\<lambda>f. fo_RKey (sf_Folder f)) fs)"
  shows "\<exists>rep. Run sx (Some sn) (Some (memory_repo s)) opts b = (Inr (), (rep, b))
    \<and> rep_CreatedFolders rep = 0 \<and> rep_CreatedMessages rep = 0
    \<and> rep_ExistingFolders rep = length fs \<and> rep_ExistingMessages rep = length ms"
proof -
  let ?repo = "memory_repo s" and ?r = "(inspected (memory_repo s) opts cap iv)\<lparr>rep_Target := t\<rparr>"
  let ?blob = "\<lambda>cid. fst (rp_GetBlob ?repo t cid b)"
  from mem.Verify_decides[OF s src] ver have mir: "mirrors (mem_view t b) ?blob (expected_messages ms) (expected_folders fs)"
    by auto
  have "\<exists>rec. mem_view t b FolderCollection (fo_RKey (sf_Folder f)) = Some rec
      \<and> folder_of_json (rc_Value rec) = Some (fo_Record (sf_Folder f))" if "f \<in> set fs" for f
  proof -
    from mir have "map_option (\<lambda>rec. folder_of_json (rc_Value rec)) (mem_view t b FolderCollection (fo_RKey (sf_Folder f)))
        = map_option Some (map_of (expected_folders fs) (fo_RKey (sf_Folder f)))" by (simp add: mirrors_def)
    with expected_distinct(2)[OF dist(2) that] show ?thesis by auto
  qed
  then have fol: "migrate_folders ?repo t fs (?r, b) = (Inr (), (?r\<lparr>rep_ExistingFolders := rep_ExistingFolders ?r + length fs\<rparr>, b))"
    by (intro mem.migrate_folders_again[OF s]) blast
  let ?r1 = "?r\<lparr>rep_ExistingFolders := rep_ExistingFolders ?r + length fs\<rparr>"
  have "mirrors_message (mem_view t b) ?blob (sm_Imported m)" if "m \<in> set ms" for m
    using mir expected_distinct(1)[OF dist(1) that] by (auto simp: mirrors_def)
  then have "visit_all (migrate_message ?repo t) ms (Inr ()) (?r1, b) =
    (Inr (), (?r1\<lparr>rep_Fingerprints := rep_Fingerprints ?r1 @ map (\<lambda>m. ImportedFingerprint (sm_Imported m)) ms,
       rep_ExistingMessages := rep_ExistingMessages ?r1 + length ms\<rparr>, b))"
    by (intro mem.migrate_messages_again[OF s]) blast
  then have "\<exists>fps. stream_sorted sn (iv_Space iv) (migrate_message ?repo t) (?r1, b) =
      (Inr (), (?r1\<lparr>rep_ExistingMessages := rep_ExistingMessages ?r1 + length ms, rep_Fingerprints := fps\<rparr>, b))"
    by (simp add: stream_sorted_def Stream_def src after_def attempt_def adjust_def returning_def sort_fingerprints_def) blast
  then obtain fps where str: "stream_sorted sn (iv_Space iv) (migrate_message ?repo t) (?r1, b) =
      (Inr (), (?r1\<lparr>rep_ExistingMessages := rep_ExistingMessages ?r1 + length ms, rep_Fingerprints := fps\<rparr>, b))" by blast
  have "commit_mailbox sx sn ?repo opts cap iv (inspected ?repo opts cap iv, b) = (Inr (),
      (?r1\<lparr>rep_ExistingMessages := rep_ExistingMessages ?r1 + length ms, rep_Fingerprints := fps, rep_Verification := v\<rparr>, b))"
    using fol str cap(2-) ens val ver src(2)
    by (simp add: commit_mailbox_def after_def on_repo_def returning_def adjust_def run_verify_def memory_repo_def)
  then show ?thesis by (simp add: Run_inspected[OF cap(1) iv commit] inspected_def new_report_def)
qed

section \<open>Properties\<close>

text \<open>C15. Verification decides. In every state in which the session is authorised for the target and for
  every source that can be read, it returns without changing the provider, and it passes if and
  only if the provider mirrors the source: it holds exactly the messages, states and folders of
  the source and nothing else, every message with the record, the state and the bytes that the
  constructor makes of it, every folder with its definition.\<close>

theorem Verify_exact:
  assumes "mem_session_inv s t b" and "sns_Stream sn sp = (ms, Inr ())" and "sns_Folders sn sp = Inr fs"
  shows "\<exists>v. Verify sn sp (memory_repo s) t (no_verification, b) = (Inr (), (v, b))
    \<and> (Passed v \<longleftrightarrow> mirrors (mem_view t b) (\<lambda>cid. fst (mem_GetBlob s t cid b)) (expected_messages ms) (expected_folders fs))"
  using mem.Verify_decides[OF assms] by (simp add: memory_repo_def)

text \<open>C14. What a run does. Whatever its outcome, every record that any session could read before is
  read unchanged afterwards, and a run that does not commit changes nothing. A committing run that
  reports no error has left a mirror of its source; and if no two messages of the source share a
  fingerprint and no two folders a key, running it again succeeds, creates nothing, finds every
  folder and message in place and leaves the provider as it is.\<close>

theorem Run_outcome:
  assumes "mem_reachable b" and "Run sx (Some sn) (Some (memory_repo s)) opts b = (x, (rep, b'))"
  shows "(\<forall>s' t c k rec. mem_GetRecord s' t c k b = (Inr rec, b) \<longrightarrow> mem_GetRecord s' t c k b' = (Inr rec, b'))
    \<and> (\<not> op_Commit opts \<longrightarrow> b' = b)
    \<and> (op_Commit opts \<and> x = Inr () \<longrightarrow> (\<exists>t iv ms fs. t = memory_target (op_RecipientDID opts) (op_SpaceKey opts)
         \<and> sns_Inspect sn (op_RecipientDID opts) (op_SpaceKey opts) = Inr iv
         \<and> sns_Stream sn (iv_Space iv) = (ms, Inr ()) \<and> sns_Folders sn (iv_Space iv) = Inr fs
         \<and> mirrors (mem_view t b') (\<lambda>cid. fst (mem_GetBlob s t cid b')) (expected_messages ms) (expected_folders fs)
         \<and> (distinct (map (\<lambda>m. ImportedFingerprint (sm_Imported m)) ms) \<and> distinct (map (\<lambda>f. fo_RKey (sf_Folder f)) fs) \<longrightarrow>
             (\<exists>rep'. Run sx (Some sn) (Some (memory_repo s)) opts b' = (Inr (), (rep', b'))
                \<and> rep_CreatedFolders rep' = 0 \<and> rep_CreatedMessages rep' = 0
                \<and> rep_ExistingFolders rep' = length fs \<and> rep_ExistingMessages rep' = length ms))))"
proof -
  have inv: "mem_inv b" using assms(1) by (rule mem_reachable_inv)
  have "mem_grows b (snd (snd (Run sx (Some sn) (Some (memory_repo s)) opts b)))" by (rule mem.Run_ext)
  with assms(2) have "mem_ext b b'" by (simp add: mem_grows_def)
  then have keep: "\<forall>s' t c k rec. mem_GetRecord s' t c k b = (Inr rec, b) \<longrightarrow> mem_GetRecord s' t c k b' = (Inr rec, b')"
    by (blast intro: mem_ext_GetRecord)
  have dry: "\<not> op_Commit opts \<longrightarrow> b' = b" using Run_dry[of opts sx "Some sn" s b] assms(2) by simp
  show ?thesis
  proof (cases "op_Commit opts \<and> x = Inr ()")
    case True
    with assms(2) have run: "Run sx (Some sn) (Some (memory_repo s)) opts b = (Inr (), (rep, b'))" and commit: "op_Commit opts"
      by auto
    from inv commit run obtain iv t ms fs cap v where iv: "sns_Inspect sn (op_RecipientDID opts) (op_SpaceKey opts) = Inr iv"
      "\<not> iv_OversizeMessages iv > 0" and src: "sns_Stream sn (iv_Space iv) = (ms, Inr ())" "sns_Folders sn (iv_Space iv) = Inr fs"
      and cap: "rp_Capabilities (memory_repo s) b = (Inr cap, b)" "cp_AtomicApplyWrites cap" "cp_CompareAndSwap cap" "cp_ReferencedBlobs cap"
      and t: "t = memory_target (op_RecipientDID opts) (op_SpaceKey opts)" and s: "mem_session_inv s t b'"
      and ens: "mem_EnsureMailbox s (op_RecipientDID opts) (op_SpaceKey opts) b' = (Inr t, b')"
      and val: "ValidateFor sx t (op_RecipientDID opts) = Inr ()"
      and ver: "Verify sn (iv_Space iv) (memory_repo s) t (no_verification, b') = (Inr (), (v, b'))" "Passed v"
      by (rule Run_committed)
    from cap(1) have cap': "rp_Capabilities (memory_repo s) b' = (Inr cap, b')"
      by (auto simp: memory_repo_def mem_Capabilities_def split: sum.splits)
    have mir: "mirrors (mem_view t b') (\<lambda>cid. fst (mem_GetBlob s t cid b')) (expected_messages ms) (expected_folders fs)"
      using mem.Verify_decides[OF s src] ver by (auto simp: memory_repo_def)
    note again = Run_over_mirror[OF s commit iv src cap' cap(2-) ens val ver]
    have "\<exists>t iv ms fs. t = memory_target (op_RecipientDID opts) (op_SpaceKey opts)
         \<and> sns_Inspect sn (op_RecipientDID opts) (op_SpaceKey opts) = Inr iv
         \<and> sns_Stream sn (iv_Space iv) = (ms, Inr ()) \<and> sns_Folders sn (iv_Space iv) = Inr fs
         \<and> mirrors (mem_view t b') (\<lambda>cid. fst (mem_GetBlob s t cid b')) (expected_messages ms) (expected_folders fs)
         \<and> (distinct (map (\<lambda>m. ImportedFingerprint (sm_Imported m)) ms) \<and> distinct (map (\<lambda>f. fo_RKey (sf_Folder f)) fs) \<longrightarrow>
             (\<exists>rep'. Run sx (Some sn) (Some (memory_repo s)) opts b' = (Inr (), (rep', b'))
                \<and> rep_CreatedFolders rep' = 0 \<and> rep_CreatedMessages rep' = 0
                \<and> rep_ExistingFolders rep' = length fs \<and> rep_ExistingMessages rep' = length ms))"
      using t iv(1) src mir again by (intro exI[of _ t] exI[of _ iv] exI[of _ ms] exI[of _ fs]) simp
    with keep dry show ?thesis by blast
  qed (use keep dry in blast)
qed

text \<open>A source with one folder and no message, copied into a fresh mailbox.\<close>

definition source_folder :: SourceFolder where
  "source_folder = \<lparr>sf_Name = ''INBOX'', sf_Role = ''inbox'', sf_UIDValidity = 7, sf_NextUID = 1,
     sf_Folder = \<lparr>fo_RKey = ''k'', fo_Record = \<lparr>fr_Type = ''email.atmos.folder'', fr_Name = ''INBOX'', fr_Role = ''inbox'',
       fr_UIDValidity = 7, fr_Revision = 1, fr_UpdatedAt = ''1970-01-01T00:00:00Z''\<rparr>\<rparr>\<rparr>"

definition demo_source :: SourceSnapshot where
  "demo_source = \<lparr>sns_Inspect = (\<lambda>d key. Inr \<lparr>iv_Space = \<lparr>sq_ID = 1, sq_Owner = d, sq_Type = MailboxSpaceType, sq_Key = key,
       sq_User = d, sq_ModSeq = 1\<rparr>, iv_Folders = 1, iv_LiveMessages = 0, iv_ExpungedMessages = 0, iv_OversizeMessages = 0, iv_LiveBytes = 0\<rparr>),
     sns_Folders = (\<lambda>sp. Inr [source_folder]), sns_Stream = (\<lambda>sp. ([], Inr ()))\<rparr>"

definition demo_options :: Options where
  "demo_options = \<lparr>op_RecipientDID = ''did:a'', op_SpaceKey = ''mail'', op_Commit = True\<rparr>"

definition demo_mailbox :: Backend where
  "demo_mailbox = snd (mem_EnsureMailbox owner_a ''did:a'' ''mail'' NewBackend)"

definition demo_write :: Write where
  "demo_write = create_write FolderCollection ''k'' (folder_json (fo_Record (sf_Folder source_folder)))"

definition demo_migrated :: Backend where
  "demo_migrated = snd (mem_ApplyWrites owner_a target_a [demo_write] demo_mailbox)"

lemma demo_mailbox_eq:
  "mem_EnsureMailbox owner_a ''did:a'' ''mail'' NewBackend = (Inr target_a, demo_mailbox)"
  "bk_blobs demo_mailbox = []"
  "bk_spaces demo_mailbox = [(tg_SpaceURI target_a, \<lparr>sp_target = target_a, sp_records = [], sp_blobRefs = [], sp_rev = 0\<rparr>)]"
  by (simp_all add: demo_mailbox_def demo_ops)

lemma source_folder_json:
  "folder_of_json (folder_json (fo_Record (sf_Folder source_folder))) = Some (fo_Record (sf_Folder source_folder))"
  "findBlobCIDs (folder_json (fo_Record (sf_Folder source_folder))) = Inr []"
  by code_simp+

lemma demo_session:
  "checkActive owner_a = Inr ()" "tg_RepoDID target_a = ''did:a''"
  "authWriteLocked owner_a target_a demo_mailbox = Inr \<lparr>sp_target = target_a, sp_records = [], sp_blobRefs = [], sp_rev = 0\<rparr>"
  by (simp_all add: authWriteLocked_def demo_mailbox_eq) (simp_all add: demo_ops)

lemma demo_migrated_view:
  "\<exists>cm. mem_ApplyWrites owner_a target_a [demo_write] demo_mailbox = (Inr cm, demo_migrated)"
  "mem_view target_a demo_mailbox c k = None"
  "mem_view target_a demo_migrated c k \<noteq> None \<longleftrightarrow> c = FolderCollection \<and> k = ''k''"
  "rc_Value (the (mem_view target_a demo_migrated FolderCollection ''k'')) = folder_json (fo_Record (sf_Folder source_folder))"
proof -
  have col: "validCollection FolderCollection" by code_simp
  note apply_demo = demo_migrated_def demo_write_def create_write_def mem_ApplyWrites_def applyOneLocked_def store_value_def marshal_def
      addBlobRefs_def put_record_def lookupRecord_def demo_session source_folder_json(2) col key_examples Let_def
  show "\<exists>cm. mem_ApplyWrites owner_a target_a [demo_write] demo_mailbox = (Inr cm, demo_migrated)"
    by (simp add: apply_demo)
  show "mem_view target_a demo_mailbox c k = None"
    by (simp add: mem_view_def demo_mailbox_eq lookupRecord_def)
  show "mem_view target_a demo_migrated c k \<noteq> None \<longleftrightarrow> c = FolderCollection \<and> k = ''k''"
    by (simp add: mem_view_def apply_demo demo_mailbox_eq inner_def)
  show "rc_Value (the (mem_view target_a demo_migrated FolderCollection ''k'')) = folder_json (fo_Record (sf_Folder source_folder))"
    by (simp add: mem_view_def apply_demo demo_mailbox_eq inner_def exportRecord_def)
qed

lemma demo_sessions: "mem_session_inv owner_a target_a demo_mailbox" "mem_session_inv owner_a target_a demo_migrated"
proof -
  show m: "mem_session_inv owner_a target_a demo_mailbox"
    using mem_EnsureMailbox_session(1)[OF mem_inv_NewBackend demo_mailbox_eq(1)] .
  show "mem_session_inv owner_a target_a demo_migrated"
    unfolding demo_migrated_def by (rule mem_session_inv_apply[OF m])
qed

lemma demo_mirrors:
  "mirrors (mem_view target_a demo_migrated) blob (expected_messages []) (expected_folders [source_folder])"
proof -
  have "mem_view target_a demo_migrated c k = None" if "\<not> (c = FolderCollection \<and> k = ''k'')" for c k
    using demo_migrated_view(3)[of c k] that by auto
  moreover obtain rec where "mem_view target_a demo_migrated FolderCollection ''k'' = Some rec"
    using demo_migrated_view(3)[of FolderCollection "''k''"] by auto
  moreover have "FolderCollection \<noteq> MessageCollection" "FolderCollection \<noteq> MessageStateCollection"
    by (simp_all add: mailbox_names)
  moreover have "map_of (expected_folders [source_folder]) k = (if k = ''k'' then Some (fo_Record (sf_Folder source_folder)) else None)" for k
    by (simp add: expected_folders_def) (simp add: source_folder_def)
  ultimately show ?thesis
    using demo_migrated_view(4) source_folder_json(1) by (auto simp: mirrors_def expected_messages_def)
qed

theorem Verify_exact_witness:
  "\<forall>sp. \<exists>v. Verify demo_source sp (memory_repo owner_a) target_a (no_verification, demo_migrated) = (Inr (), (v, demo_migrated)) \<and> Passed v"
proof
  fix sp
  have "sns_Stream demo_source sp = ([], Inr ())" "sns_Folders demo_source sp = Inr [source_folder]"
    by (simp_all add: demo_source_def)
  from Verify_exact[OF demo_sessions(2) this] demo_mirrors
  show "\<exists>v. Verify demo_source sp (memory_repo owner_a) target_a (no_verification, demo_migrated) = (Inr (), (v, demo_migrated)) \<and> Passed v"
    by blast
qed

lemma demo_run: "\<exists>rep. Run plain_syntax (Some demo_source) (Some (memory_repo owner_a)) demo_options NewBackend = (Inr (), (rep, demo_migrated))"
proof -
  let ?repo = "memory_repo owner_a"
  obtain cap where cap: "\<And>b. rp_Capabilities ?repo b = (Inr cap, b)"
    and caps: "cp_AtomicApplyWrites cap" "cp_CompareAndSwap cap" "cp_ReferencedBlobs cap"
    using demo_session(1) by (auto simp: memory_repo_def mem_Capabilities_def)
  obtain iv where iv: "sns_Inspect demo_source (op_RecipientDID demo_options) (op_SpaceKey demo_options) = Inr iv" "\<not> iv_OversizeMessages iv > 0"
    by (simp add: demo_source_def)
  have commit: "op_Commit demo_options" "op_RecipientDID demo_options = ''did:a''" "op_SpaceKey demo_options = ''mail''"
    by (simp_all add: demo_options_def)
  have ens: "rp_EnsureMailbox ?repo ''did:a'' ''mail'' NewBackend = (Inr target_a, demo_mailbox)"
    using demo_mailbox_eq(1) by (simp add: memory_repo_def)
  have val: "ValidateFor plain_syntax target_a ''did:a'' = Inr ()" by code_simp
  have src: "sns_Stream demo_source (iv_Space iv) = ([], Inr ())" "sns_Folders demo_source (iv_Space iv) = Inr [source_folder]"
    by (simp_all add: demo_source_def)
  obtain cm where cm: "mem_ApplyWrites owner_a target_a [demo_write] demo_mailbox = (Inr cm, demo_migrated)"
    using demo_migrated_view(1) by blast
  have get: "rp_GetRecord ?repo target_a FolderCollection ''k'' demo_mailbox = (Inl ErrNotFound, demo_mailbox)"
    using mem.get_record[OF demo_sessions(1), of FolderCollection "''k''"] demo_migrated_view(2) by simp
  have fol: "migrate_folders ?repo target_a [source_folder] (r, demo_mailbox)
      = (Inr (), (r\<lparr>rep_CreatedFolders := rep_CreatedFolders r + 1\<rparr>, demo_migrated))" for r
  proof -
    have key: "fo_RKey (sf_Folder source_folder) = ''k''" by (simp add: source_folder_def)
    have "rp_ApplyWrites ?repo target_a [create_write FolderCollection ''k'' (folder_json (fo_Record (sf_Folder source_folder)))] demo_mailbox
        = (Inr cm, demo_migrated)" using cm by (simp add: demo_write_def memory_repo_def)
    with get show ?thesis
      by (simp add: migrate_folder_def key after_def on_repo_def attempt_def adjust_def give_def Let_def)
  qed
  obtain v where ver: "Verify demo_source (iv_Space iv) ?repo target_a (no_verification, demo_migrated) = (Inr (), (v, demo_migrated))" "Passed v"
    using mem.Verify_decides[OF demo_sessions(2) src] demo_mirrors by blast
  have "\<exists>rep. commit_mailbox plain_syntax demo_source ?repo demo_options cap iv (r, NewBackend) = (Inr (), (rep, demo_migrated))" for r
    using caps ens val src fol ver commit
    by (simp add: commit_mailbox_def after_def on_repo_def returning_def adjust_def stream_sorted_def Stream_def attempt_def run_verify_def
        del: migrate_folders.simps)
  then show ?thesis by (simp add: Run_inspected[OF cap iv commit(1)])
qed

theorem Run_outcome_witness:
  "\<exists>rep rep'. Run plain_syntax (Some demo_source) (Some (memory_repo owner_a)) demo_options NewBackend = (Inr (), (rep, demo_migrated))
    \<and> Run plain_syntax (Some demo_source) (Some (memory_repo owner_a)) demo_options demo_migrated = (Inr (), (rep', demo_migrated))
    \<and> rep_CreatedFolders rep' = 0 \<and> rep_ExistingFolders rep' = 1"
proof -
  obtain rep where run: "Run plain_syntax (Some demo_source) (Some (memory_repo owner_a)) demo_options NewBackend = (Inr (), (rep, demo_migrated))"
    using demo_run by blast
  have "op_Commit demo_options" by (simp add: demo_options_def)
  moreover have "sns_Stream demo_source sp = ([], Inr ())" "sns_Folders demo_source sp = Inr [source_folder]" for sp
    by (simp_all add: demo_source_def)
  ultimately have "\<exists>rep'. Run plain_syntax (Some demo_source) (Some (memory_repo owner_a)) demo_options demo_migrated = (Inr (), (rep', demo_migrated))
      \<and> rep_CreatedFolders rep' = 0 \<and> rep_ExistingFolders rep' = 1"
    using Run_outcome[OF mem_reachable.start run] by auto
  with run show ?thesis by blast
qed

end
