(* ===== verification/Canonical.thy ===== *)
theory Canonical
  imports Repository
begin

text \<open>
  The canonical byte format of package \<^verbatim>\<open>mailboxstate\<close> and its validators (the lower half of
  \<^verbatim>\<open>revision.go\<close>): every field is written so that a reader knows where it ends, so a
  sequence of fields can be read back in one way only. That is what makes record keys and
  digests commitments. The locale \<open>framed\<close> is the contract of a field encoder; it is
  interpreted for every method of \<open>canonicalWriter\<close>.
\<close>

section \<open>Limits\<close>

definition maxParents :: nat where "maxParents = 64"
definition maxKeywords :: nat where "maxKeywords = 128"
definition maxMailboxes :: nat where "maxMailboxes = 32"
definition maxIdentifierBytes :: nat where "maxIdentifierBytes = 512"
definition maxOperationIDBytes :: nat where "maxOperationIDBytes = 128"
definition maxRevisionCount :: nat where "maxRevisionCount = 4096"
definition maxRevisionRecordBytes :: nat where "maxRevisionRecordBytes = 128 * 1024"
definition maxRevisionInventoryBytes :: nat where "maxRevisionInventoryBytes = 8 * 1024 * 1024"
definition maxPortableRevision :: u64 where "maxPortableRevision = 9007199254740991"

section \<open>The canonical writer\<close>

text \<open>\<^verbatim>\<open>binary.PutUvarint\<close>: seven bits per byte, the low ones first, the top bit marks a continuation.\<close>

function uvarint :: "nat \<Rightarrow> bytes" where
  "uvarint n = (if n < 128 then [char_of n] else char_of (n mod 128 + 128) # uvarint (n div 128))"
  by pat_completeness auto
termination
  by (relation "measure id") auto

declare uvarint.simps [simp del]

text \<open>Each method of the writer appends these bytes.\<close>

definition cw_byte :: "nat \<Rightarrow> bytes" where
  "cw_byte n = [char_of n]"

definition cw_boolean :: "bool \<Rightarrow> bytes" where
  "cw_boolean b = cw_byte (if b then 1 else 0)"

definition cw_uint64 :: "u64 \<Rightarrow> bytes" where
  "cw_uint64 w = uvarint (unat w)"

definition cw_len :: "nat \<Rightarrow> bytes" where
  "cw_len n = uvarint n"

definition cw_string :: "bytes \<Rightarrow> bytes" where
  "cw_string s = cw_len (length s) @ s"

definition cw_strings :: "bytes list \<Rightarrow> bytes" where
  "cw_strings ss = cw_len (length ss) @ concat (map cw_string ss)"

definition digestBytes :: "bytes \<Rightarrow> bytes" where
  "digestBytes encoded = ''sha256-'' @ hex_encode (sha256 encoded)"

definition digestStringList :: "bytes \<Rightarrow> bytes list \<Rightarrow> bytes" where
  "digestStringList domain values = digestBytes (domain @ cw_strings values)"

definition sortUTF8 :: "bytes list \<Rightarrow> bytes list" where
  "sortUTF8 values = sort values"

definition sortedMapKeys :: "'v gomap \<Rightarrow> bytes list" where
  "sortedMapKeys m = sortUTF8 (keys m)"

section \<open>Validators\<close>

definition validIdentifier :: "bytes \<Rightarrow> nat \<Rightarrow> bool" where
  "validIdentifier v limit = (v \<noteq> [] \<and> length v \<le> limit \<and> utf8_valid v
     \<and> \<not> contains_any v [CHR 0x20, CHR 0x09, CHR 0x0D, CHR 0x0A, CHR 0x00])"

definition validCanonicalDID :: "syntax_api \<Rightarrow> bytes \<Rightarrow> bool" where
  "validCanonicalDID sx v = (sx_ParseDID sx v = Some v)"

definition validSHA256Identifier :: "bytes \<Rightarrow> bool" where
  "validSHA256Identifier v =
     (if length v \<noteq> length ''sha256-'' + 32 * 2 \<or> \<not> has_prefix v ''sha256-'' then False
      else (let encoded = trim_prefix v ''sha256-'' in hex_decode encoded \<noteq> None \<and> encoded = to_lower encoded))"

definition validText :: "bytes \<Rightarrow> nat \<Rightarrow> bool" where
  "validText v limit = (v \<noteq> [] \<and> length v \<le> limit \<and> utf8_valid v
     \<and> \<not> contains_any v [CHR 0x0D, CHR 0x0A, CHR 0x00])"

definition validStateRKey :: "bytes \<Rightarrow> bool" where
  "validStateRKey v =
     (if length v \<noteq> length ''state-'' + 32 * 2 \<or> \<not> has_prefix v ''state-'' then False
      else hex_decode (trim_prefix v ''state-'') \<noteq> None)"

definition validFolderID :: "bytes \<Rightarrow> bool" where
  "validFolderID v =
     (if length v \<noteq> length ''folder-'' + 32 * 2 \<or> \<not> has_prefix v ''folder-'' then False
      else (let decoded = trim_prefix v ''folder-'' in hex_decode decoded \<noteq> None \<and> decoded = to_lower decoded))"

text \<open>Each value is checked and, from the second on, compared with the one before.\<close>

fun sorted_from :: "(bytes \<Rightarrow> bool) \<Rightarrow> bytes option \<Rightarrow> bytes list \<Rightarrow> bool" where
  "sorted_from ok prev [] = True"
| "sorted_from ok prev (v # vs) =
     (if \<not> ok v \<or> (case prev of None \<Rightarrow> False | Some p \<Rightarrow> p \<ge> v) then False else sorted_from ok (Some v) vs)"

definition strictlySortedUnique :: "bytes list \<Rightarrow> bool" where
  "strictlySortedUnique values = sorted_from (\<lambda>v. validIdentifier v maxIdentifierBytes) None values"

section \<open>Fields end where they say\<close>

text \<open>
  The contract of a field encoder: whatever follows, the field and the rest can be told
  apart.
\<close>

locale framed =
  fixes enc :: "'a \<Rightarrow> bytes"
  assumes frame: "enc x @ r = enc y @ s \<Longrightarrow> x = y \<and> r = s"
begin

lemma frame_iff: "enc x @ r = enc y @ s \<longleftrightarrow> x = y \<and> r = s"
  using frame by auto

lemma frame_inj: "enc x = enc y \<longleftrightarrow> x = y"
  using frame[of x "[]" y "[]"] by auto

lemma frame_pair:
  "enc x @ r = enc y @ s \<Longrightarrow> (r = s \<Longrightarrow> P) \<Longrightarrow> P"
  using frame by blast

text \<open>Lists of the same length are told apart field by field.\<close>

lemma frame_concat:
  "length xs = length ys \<Longrightarrow> concat (map enc xs) @ r = concat (map enc ys) @ s \<Longrightarrow> xs = ys \<and> r = s"
proof (induction xs ys rule: list_induct2)
  case (Cons x xs y ys)
  then have "enc x @ (concat (map enc xs) @ r) = enc y @ (concat (map enc ys) @ s)" by simp
  from frame[OF this] Cons.IH show ?case by simp
qed simp

end

text \<open>Two framed fields in a row are a framed field.\<close>

locale framed_pair = a: framed enc + b: framed enc' for enc :: "'a \<Rightarrow> bytes" and enc' :: "'b \<Rightarrow> bytes"

sublocale framed_pair \<subseteq> both: framed "\<lambda>p. enc (fst p) @ enc' (snd p)"
proof unfold_locales
  fix x y r s
  assume "(enc (fst x) @ enc' (snd x)) @ r = (enc (fst y) @ enc' (snd y)) @ s"
  then show "x = y \<and> r = s" by (simp add: a.frame_iff b.frame_iff prod_eq_iff)
qed

lemma uvarint_frame: "uvarint m @ r = uvarint n @ s \<Longrightarrow> m = n \<and> r = s"
proof (induction m arbitrary: n rule: uvarint.induct)
  case (1 m)
  have head: "uvarint k = (if k < 128 then [char_of k] else char_of (k mod 128 + 128) # uvarint (k div 128))" for k
    by (rule uvarint.simps)
  show ?case
  proof (cases "m < 128")
    case True
    show ?thesis
    proof (cases "n < 128")
      case True
      with \<open>m < 128\<close> 1(2) show ?thesis by (simp add: head[of m] head[of n])
    next
      case False
      with \<open>m < 128\<close> 1(2) have "(char_of m :: char) = char_of (n mod 128 + 128)" by (simp add: head[of m] head[of n])
      then have "m mod 256 = n mod 128 + 128" by simp
      with True show ?thesis by simp
    qed
  next
    case False
    note big = this
    show ?thesis
    proof (cases "n < 128")
      case True
      with big 1(2) have "(char_of n :: char) = char_of (m mod 128 + 128)" by (simp add: head[of m] head[of n])
      then have "n mod 256 = m mod 128 + 128" by simp
      with True show ?thesis by simp
    next
      case False
      with big 1(2) have c: "(char_of (m mod 128 + 128) :: char) = char_of (n mod 128 + 128)"
        and t: "uvarint (m div 128) @ r = uvarint (n div 128) @ s" by (simp_all add: head[of m] head[of n])
      from c have "m mod 128 = n mod 128" by simp
      moreover from 1(1)[OF big t] have "m div 128 = n div 128" "r = s" by auto
      ultimately show ?thesis by (metis div_mult_mod_eq)
    qed
  qed
qed

interpretation len: framed cw_len
  by unfold_locales (unfold cw_len_def, rule uvarint_frame)

interpretation u64: framed cw_uint64
  by unfold_locales (unfold cw_uint64_def, drule uvarint_frame, simp add: unsigned_word_eqI)

interpretation flag: framed cw_boolean
  by unfold_locales (auto simp: cw_boolean_def cw_byte_def split: if_splits)

lemma cw_string_frame: "cw_string x @ r = cw_string y @ s \<Longrightarrow> x = y \<and> r = s"
  unfolding cw_string_def append_assoc using len.frame_iff by (metis append_eq_append_conv)

interpretation str: framed cw_string
  by unfold_locales (rule cw_string_frame)

lemma cw_strings_frame: "cw_strings x @ r = cw_strings y @ s \<Longrightarrow> x = y \<and> r = s"
  unfolding cw_strings_def append_assoc len.frame_iff by (blast dest: str.frame_concat)

interpretation entry: framed_pair cw_string cw_string
  by unfold_locales

interpretation flagged: framed_pair cw_string cw_boolean
  by unfold_locales

interpretation strs: framed cw_strings
  by unfold_locales (rule cw_strings_frame)

lemma digestBytes_eq: "digestBytes x = digestBytes y \<longleftrightarrow> sha256 x = sha256 y"
  by (simp add: digestBytes_def hex_encode_inj)

lemma sorted_from_iff:
  "sorted_from ok prev vs \<longleftrightarrow> list_all ok vs \<and> sorted_wrt (<) (case prev of None \<Rightarrow> vs | Some p \<Rightarrow> p # vs)"
proof (induction vs arbitrary: prev)
  case (Cons v vs)
  then show ?case by (cases prev) (auto dest: order.strict_trans)
qed (auto split: option.splits)

lemma strictlySortedUnique_iff:
  "strictlySortedUnique vs \<longleftrightarrow> list_all (\<lambda>v. validIdentifier v maxIdentifierBytes) vs \<and> sorted_wrt (<) vs"
  by (simp add: strictlySortedUnique_def sorted_from_iff)

lemma sortUTF8_simps [simp]:
  "set (sortUTF8 vs) = set vs" "sorted (sortUTF8 vs)" "length (sortUTF8 vs) = length vs"
  "distinct (sortUTF8 vs) = distinct vs" "sortUTF8 vs = [] \<longleftrightarrow> vs = []"
  by (simp_all add: sortUTF8_def) (metis length_0_conv length_sort)

lemma sortUTF8_mset: "mset vs = mset ws \<Longrightarrow> sortUTF8 vs = sortUTF8 ws"
  unfolding sortUTF8_def by (metis properties_for_sort mset_sort sorted_sort)

lemma sortUTF8_set: "distinct vs \<Longrightarrow> distinct ws \<Longrightarrow> set vs = set ws \<Longrightarrow> sortUTF8 vs = sortUTF8 ws"
  by (rule sorted_distinct_set_unique) simp_all

text \<open>An accepted identifier is a prefix and 64 lower-case hexadecimal digits, so it is ASCII.\<close>

lemma validSHA256Identifier_shape:
  assumes "validSHA256Identifier v"
  obtains h where "v = ''sha256-'' @ hex_encode h" and "length h = 32"
proof -
  from assms have len: "length v = 71" and pre: "has_prefix v ''sha256-''"
    and dec: "hex_decode (trim_prefix v ''sha256-'') \<noteq> None" "trim_prefix v ''sha256-'' = to_lower (trim_prefix v ''sha256-'')"
    by (auto simp: validSHA256Identifier_def Let_def split: if_splits)
  from pre obtain r where r: "v = ''sha256-'' @ r" by (rule has_prefixE)
  then have trim: "trim_prefix v ''sha256-'' = r" by (simp only: trim_prefix_append)
  with dec obtain h where h: "hex_decode r = Some h" "to_lower r = r" by auto
  with hex_decode_lower_hex[OF h] r len show thesis by (intro that[of h]) auto
qed

lemma digestBytes_valid [simp]: "validSHA256Identifier (digestBytes x)"
proof -
  have "has_prefix (digestBytes x) ''sha256-''" "trim_prefix (digestBytes x) ''sha256-'' = hex_encode (sha256 x)"
    by (simp_all only: digestBytes_def has_prefix_append trim_prefix_append)
  then show ?thesis
    using lower_hex_to_lower[OF lower_hex_encode, of "sha256 x"]
    by (simp add: validSHA256Identifier_def digestBytes_def)
qed

section \<open>Printable identifiers\<close>

definition printable :: "bytes \<Rightarrow> bool" where
  "printable s = list_all (\<lambda>c. 32 < byte c \<and> byte c < 127) s"

lemma printable_append [simp]: "printable (s @ t) \<longleftrightarrow> printable s \<and> printable t"
  by (simp add: printable_def)

lemma printable_hex [simp]: "printable (hex_encode s)"
  using lower_hex_encode[of s] by (auto simp: printable_def lower_hex_def list_all_iff)

lemma printable_utf8: "printable s \<Longrightarrow> utf8_valid s"
  by (rule utf8_valid_ascii) (auto simp: printable_def ascii_def list_all_iff)

lemma printable_clean: "printable s \<Longrightarrow> \<forall>c \<in> set cs. byte c \<le> 32 \<Longrightarrow> \<not> contains_any s cs"
  unfolding printable_def contains_any_iff list_all_iff by (meson not_less)

lemma printable_identifier:
  assumes "printable s" and "s \<noteq> []" and "length s \<le> n"
  shows "validIdentifier s n"
proof -
  have "\<not> contains_any s [CHR 0x20, CHR 0x09, CHR 0x0D, CHR 0x0A, CHR 0x00]"
    by (rule printable_clean[OF assms(1)]) (simp add: byte_def)
  with assms show ?thesis by (simp add: validIdentifier_def printable_utf8)
qed

lemma printable_Cons: "printable (c # s) \<longleftrightarrow> 32 < byte c \<and> byte c < 127 \<and> printable s"
  by (simp add: printable_def)

lemma printable_Nil [simp]: "printable []"
  by (simp add: printable_def)

lemma FolderRKey_printable: "printable (FolderRKey name)"
  by (simp add: FolderRKey_def printable_Cons byte_def)

lemma digestBytes_printable: "printable (digestBytes x)"
  by (simp add: digestBytes_def printable_Cons byte_def)

lemma FolderRKey_valid: "validFolderID (FolderRKey name)"
proof -
  have "has_prefix (FolderRKey name) ''folder-''"
    "trim_prefix (FolderRKey name) ''folder-'' = hex_encode (sha256 (''comail-folder-v1'' @ [CHR 0x00] @ name))"
    by (simp_all only: FolderRKey_def has_prefix_append trim_prefix_append)
  then show ?thesis
    using lower_hex_to_lower[OF lower_hex_encode, of "sha256 (''comail-folder-v1'' @ [CHR 0x00] @ name)"]
    by (simp add: validFolderID_def FolderRKey_def)
qed

end
