(* ===== verification/Causal_Log.thy ===== *)
theory Causal_Log
  imports Canonical
begin

text \<open>
  What the two reducers of package \<^verbatim>\<open>mailboxstate\<close> (\<^verbatim>\<open>Reduce\<close> for messages, \<^verbatim>\<open>ReduceFolder\<close>
  for folders) share: an append-only log of events, each naming its parents by record key
  and carrying a height. The code links parents, sorts the events by height and operation,
  walks them to find mutations after an observed deletion, and keeps the childless
  events as heads. The loops are written once, over the projections of an event; the
  locale \<open>causal_log\<close> states what a reducer promises of the logs it accepts, and its
  lemmas are what follows for order, causality and heads.
\<close>

section \<open>The loops\<close>

text \<open>
  The first loop: no repeated operation or key, the size of the canonical form within the
  limit for the inventory, then the check of the event itself. \<open>esize\<close> is the canonical length or
  the error of encoding, \<open>check\<close> the check of record and claim; the order of the tests is that of
  the code.
\<close>

fun index_events ::
  "('e \<Rightarrow> bytes) \<Rightarrow> ('e \<Rightarrow> bytes) \<Rightarrow> ('e \<Rightarrow> nat result) \<Rightarrow> ('e \<Rightarrow> unit result) \<Rightarrow> 'e list
     \<Rightarrow> 'e gomap \<Rightarrow> bytes list \<Rightarrow> nat \<Rightarrow> 'e gomap result" where
  "index_events key operation esize check [] byKey operations totalBytes = Inr byKey"
| "index_events key operation esize check (event # es) byKey operations totalBytes =
     (if operation event \<in> set operations then Inl ErrOperationCollision
      else if map_of byKey (key event) \<noteq> None then Inl ErrInvalidRevision
      else (case esize event of Inl e \<Rightarrow> Inl e | Inr n \<Rightarrow>
        if totalBytes + n > maxRevisionInventoryBytes then Inl ErrResourceLimit
        else (case check event of Inl e \<Rightarrow> Inl e | Inr _ \<Rightarrow>
          index_events key operation esize check es (AList.update (key event) event byKey)
            (operation event # operations) (totalBytes + n))))"

text \<open>The parents of one event: each is known and lower; the result is the greatest parent height.\<close>

fun link_parents :: "(bytes \<Rightarrow> u64 option) \<Rightarrow> u64 \<Rightarrow> bytes list \<Rightarrow> u64 \<Rightarrow> u64 result" where
  "link_parents byKey revision [] m = Inr m"
| "link_parents byKey revision (p # ps) m =
     (case byKey p of None \<Rightarrow> Inl ErrMissingParent | Some h \<Rightarrow>
        if h \<ge> revision then Inl ErrInvalidRevision else link_parents byKey revision ps (max m h))"

text \<open>All events: the keys that occur as a parent and the number of roots.\<close>

fun link_events ::
  "(bytes \<Rightarrow> u64 option) \<Rightarrow> ('e \<Rightarrow> bytes list) \<Rightarrow> ('e \<Rightarrow> u64) \<Rightarrow> ('e \<Rightarrow> bool) \<Rightarrow> 'e list
     \<Rightarrow> bytes list \<times> nat \<Rightarrow> (bytes list \<times> nat) result" where
  "link_events byKey parents height root_ok [] acc = Inr acc"
| "link_events byKey parents height root_ok (e # es) acc =
     (if parents e = [] then
        (if \<not> root_ok e then Inl ErrInvalidRevision
         else link_events byKey parents height root_ok es (fst acc, snd acc + 1))
      else (case link_parents byKey (height e) (parents e) 0 of Inl err \<Rightarrow> Inl err | Inr m \<Rightarrow>
        if height e \<noteq> m + 1 then Inl ErrInvalidRevision
        else link_events byKey parents height root_ok es (parents e @ fst acc, snd acc)))"

text \<open>
  The order of reduction: by height, then by the bytes of the operation identifier. The
  comparison is total on a log without repeated operations, so the result of the sort
  does not depend on the sorting algorithm.
\<close>

definition event_order :: "('e \<Rightarrow> u64) \<Rightarrow> ('e \<Rightarrow> bytes) \<Rightarrow> 'e list \<Rightarrow> 'e list" where
  "event_order height operation es = sort_key (\<lambda>e. (height e, operation e)) es"

text \<open>A missing key of the flag map reads as false.\<close>

definition flag_of :: "bool gomap \<Rightarrow> bytes \<Rightarrow> bool" where
  "flag_of flags k = (case map_of flags k of None \<Rightarrow> False | Some b \<Rightarrow> b)"

fun tombstone_walk ::
  "('e \<Rightarrow> bytes) \<Rightarrow> ('e \<Rightarrow> bytes list) \<Rightarrow> ('e \<Rightarrow> bool) \<Rightarrow> ('e \<Rightarrow> bool) \<Rightarrow> bool gomap \<Rightarrow> 'e list \<Rightarrow> bool gomap result" where
  "tombstone_walk key parents mark live flags [] = Inr flags"
| "tombstone_walk key parents mark live flags (e # es) =
     (let parentTombstoned = list_ex (flag_of flags) (parents e) in
      if parentTombstoned \<and> live e then Inl ErrInvalidRevision
      else tombstone_walk key parents mark live (AList.update (key e) (parentTombstoned \<or> mark e) flags) es)"

definition heads_of :: "('e \<Rightarrow> bytes) \<Rightarrow> bytes list \<Rightarrow> 'e list \<Rightarrow> bytes list" where
  "heads_of key parented es = sortUTF8 (map key (filter (\<lambda>e. key e \<notin> set parented) es))"

section \<open>What the loops check\<close>

lemma link_parents_ok:
  "link_parents byKey revision ps m = Inr m' \<longleftrightarrow>
     (\<forall>p \<in> set ps. \<exists>h. byKey p = Some h \<and> h < revision) \<and> m' = foldl max m (map (\<lambda>p. the (byKey p)) ps)"
  by (induction ps arbitrary: m) (auto split: option.splits simp: not_le)

definition event_linked :: "(bytes \<Rightarrow> u64 option) \<Rightarrow> ('e \<Rightarrow> bytes list) \<Rightarrow> ('e \<Rightarrow> u64) \<Rightarrow> ('e \<Rightarrow> bool) \<Rightarrow> 'e \<Rightarrow> bool" where
  "event_linked byKey parents height root_ok e \<longleftrightarrow>
     (if parents e = [] then root_ok e
      else (\<forall>p \<in> set (parents e). \<exists>h. byKey p = Some h \<and> h < height e)
        \<and> height e = foldl max 0 (map (\<lambda>p. the (byKey p)) (parents e)) + 1)"

lemma link_events_ok:
  "link_events byKey parents height root_ok es acc = Inr (P, n) \<longleftrightarrow>
     (\<forall>e \<in> set es. event_linked byKey parents height root_ok e)
     \<and> P = concat (rev (map parents es)) @ fst acc \<and> n = snd acc + length (filter (\<lambda>e. parents e = []) es)"
proof (induction es arbitrary: acc)
  case (Cons e es)
  show ?case
  proof (cases "parents e = []")
    case True
    with Cons show ?thesis by (auto simp: event_linked_def)
  next
    case False
    show ?thesis
    proof (cases "link_parents byKey (height e) (parents e) 0")
      case (Inl err)
      then have "\<not> event_linked byKey parents height root_ok e"
        using False link_parents_ok[of byKey "height e" "parents e" 0] by (auto simp: event_linked_def)
      with Inl False show ?thesis by simp
    next
      case (Inr m)
      then have "event_linked byKey parents height root_ok e \<longleftrightarrow> height e = m + 1"
        using False link_parents_ok[of byKey "height e" "parents e" 0 m] by (auto simp: event_linked_def)
      with Inr False Cons show ?thesis by auto
    qed
  qed
qed auto

definition size_of :: "('e \<Rightarrow> nat result) \<Rightarrow> 'e \<Rightarrow> nat" where
  "size_of esize e = (case esize e of Inl _ \<Rightarrow> 0 | Inr n \<Rightarrow> n)"

definition event_fine :: "('e \<Rightarrow> nat result) \<Rightarrow> ('e \<Rightarrow> unit result) \<Rightarrow> 'e \<Rightarrow> bool" where
  "event_fine esize check e \<longleftrightarrow> (\<exists>n. esize e = Inr n) \<and> check e = Inr ()"

lemma index_Cons:
  "index_events key operation esize check (e # es) byKey ops used = Inr bk \<longleftrightarrow>
     operation e \<notin> set ops \<and> map_of byKey (key e) = None \<and> event_fine esize check e
     \<and> used + size_of esize e \<le> maxRevisionInventoryBytes
     \<and> index_events key operation esize check es (AList.update (key e) e byKey) (operation e # ops) (used + size_of esize e) = Inr bk"
  by (auto simp: event_fine_def size_of_def not_less split: sum.splits)

lemma index_ok:
  assumes "used \<le> maxRevisionInventoryBytes"
  shows "(\<exists>bk. index_events key operation esize check es byKey ops used = Inr bk) \<longleftrightarrow>
     (\<forall>e \<in> set es. event_fine esize check e \<and> operation e \<notin> set ops \<and> map_of byKey (key e) = None)
     \<and> distinct (map operation es) \<and> distinct (map key es)
     \<and> used + (\<Sum>e\<leftarrow>es. size_of esize e) \<le> maxRevisionInventoryBytes"
  using assms
proof (induction es arbitrary: byKey ops used)
  case (Cons e es)
  show ?case
  proof (cases "used + size_of esize e \<le> maxRevisionInventoryBytes")
    case True
    note IH = Cons.IH[OF this, of "AList.update (key e) e byKey" "operation e # ops"]
    have new: "(\<forall>a \<in> set es. operation a \<notin> set (operation e # ops)) \<longleftrightarrow>
        operation e \<notin> set (map operation es) \<and> (\<forall>a \<in> set es. operation a \<notin> set ops)"
      "(\<forall>a \<in> set es. map_of (AList.update (key e) e byKey) (key a) = None) \<longleftrightarrow>
        key e \<notin> set (map key es) \<and> (\<forall>a \<in> set es. map_of byKey (key a) = None)"
      by (auto simp: image_iff)
    from IH True new show ?thesis
      by (simp add: index_Cons add.assoc ball_conj_distrib del: index_events.simps) blast
  next
    case False
    then show ?thesis by (auto simp: index_Cons simp del: index_events.simps)
  qed
qed auto

lemma index_keeps:
  "index_events key operation esize check es byKey ops used = Inr bk \<Longrightarrow> map_of byKey k = Some x \<Longrightarrow> map_of bk k = Some x"
proof (induction es arbitrary: byKey ops used)
  case (Cons a es)
  then have "map_of byKey (key a) = None"
    "index_events key operation esize check es (AList.update (key a) a byKey) (operation a # ops) (used + size_of esize a) = Inr bk"
    by (simp_all add: index_Cons del: index_events.simps)
  moreover from this(1) Cons.prems(2) have "k \<noteq> key a" by auto
  ultimately show ?case using Cons.IH[of "AList.update (key a) a byKey"] Cons.prems(2) by simp
qed simp

lemma index_lookup:
  "index_events key operation esize check es byKey ops used = Inr bk \<Longrightarrow>
     map_of bk k = (case map_of (map (\<lambda>e. (key e, e)) es) k of None \<Rightarrow> map_of byKey k | Some e \<Rightarrow> Some e)"
proof (induction es arbitrary: byKey ops used)
  case (Cons e es)
  then have rest: "index_events key operation esize check es (AList.update (key e) e byKey) (operation e # ops) (used + size_of esize e) = Inr bk"
    by (simp add: index_Cons del: index_events.simps)
  show ?case
  proof (cases "k = key e")
    case True
    with index_keeps[OF rest, of k e] show ?thesis by simp
  next
    case False
    with Cons.IH[OF rest] show ?thesis by (simp split: option.splits)
  qed
qed simp

text \<open>Everything the two loops check of a log, in terms of the events only.\<close>

definition heights_by_key :: "('e \<Rightarrow> bytes) \<Rightarrow> ('e \<Rightarrow> u64) \<Rightarrow> 'e list \<Rightarrow> bytes \<Rightarrow> u64 option" where
  "heights_by_key key height es k = map_option height (map_of (map (\<lambda>e. (key e, e)) es) k)"

definition admitted ::
  "('e \<Rightarrow> bytes) \<Rightarrow> ('e \<Rightarrow> bytes) \<Rightarrow> ('e \<Rightarrow> bytes list) \<Rightarrow> ('e \<Rightarrow> u64) \<Rightarrow> ('e \<Rightarrow> nat result) \<Rightarrow> ('e \<Rightarrow> unit result)
     \<Rightarrow> ('e \<Rightarrow> bool) \<Rightarrow> 'e list \<Rightarrow> bool" where
  "admitted key operation parents height esize check root_ok es \<longleftrightarrow>
     (\<forall>e \<in> set es. event_fine esize check e) \<and> distinct (map operation es) \<and> distinct (map key es)
     \<and> (\<Sum>e\<leftarrow>es. size_of esize e) \<le> maxRevisionInventoryBytes
     \<and> (\<forall>e \<in> set es. event_linked (heights_by_key key height es) parents height root_ok e)"

lemma admitted_iff:
  "(\<exists>bk. index_events key operation esize check es [] [] 0 = Inr bk
      \<and> link_events (\<lambda>k. map_option height (map_of bk k)) parents height root_ok es ([], 0) = Inr (P, n)) \<longleftrightarrow>
     admitted key operation parents height esize check root_ok es
     \<and> P = concat (rev (map parents es)) \<and> n = length (filter (\<lambda>e. parents e = []) es)"
proof (cases "index_events key operation esize check es [] [] 0")
  case (Inl e)
  with index_ok[of 0 key operation esize check es "[]" "[]"] show ?thesis by (auto simp: admitted_def)
next
  case (Inr bk)
  have "(\<lambda>k. map_option height (map_of bk k)) = heights_by_key key height es"
    using index_lookup[OF Inr] by (auto simp: heights_by_key_def fun_eq_iff split: option.splits)
  with Inr index_ok[of 0 key operation esize check es "[]" "[]"] show ?thesis
    by (auto simp: link_events_ok admitted_def)
qed

lemma admitted_parents:
  assumes "admitted key operation parents height esize check root_ok es" and "e \<in> set es" and "p \<in> set (parents e)"
  shows "\<exists>e' \<in> set es. key e' = p \<and> height e' < height e"
proof -
  have "event_linked (heights_by_key key height es) parents height root_ok e" using assms(1,2) by (simp add: admitted_def)
  then obtain h where "heights_by_key key height es p = Some h" "h < height e"
    using assms(3) by (auto simp: event_linked_def split: if_splits)
  then obtain e' where "map_of (map (\<lambda>e. (key e, e)) es) p = Some e'" "height e' < height e" by (auto simp: heights_by_key_def)
  then show ?thesis by (auto dest!: map_of_SomeD)
qed

lemma option_eqI: "(\<And>x. a = Some x \<longleftrightarrow> b = Some x) \<Longrightarrow> a = b"
  by (cases a; cases b) auto

lemma lookup_keyed:
  "distinct (map key es) \<Longrightarrow> map_of (map (\<lambda>e. (key e, e)) es) k = Some e \<longleftrightarrow> e \<in> set es \<and> key e = k"
  by (subst map_of_eq_Some_iff) (auto simp: comp_def)

lemma lookup_perm:
  assumes "distinct (map key es)" and "mset es = mset es'"
  shows "map_of (map (\<lambda>e. (key e, e)) es) = map_of (map (\<lambda>e. (key e, e)) es')"
proof
  fix k
  have "mset (map key es) = mset (map key es')" using assms(2) by simp
  then have "distinct (map key es')" using assms(1) mset_eq_imp_distinct_iff by blast
  then have "map_of (map (\<lambda>e. (key e, e)) es) k = Some e \<longleftrightarrow> map_of (map (\<lambda>e. (key e, e)) es') k = Some e" for e
    using assms(1) mset_eq_setD[OF assms(2)] by (simp add: lookup_keyed)
  then show "map_of (map (\<lambda>e. (key e, e)) es) k = map_of (map (\<lambda>e. (key e, e)) es') k"
    by (rule option_eqI)
qed

text \<open>Whether a log is admitted does not depend on the order of its events.\<close>

lemma admitted_perm:
  assumes "mset es = mset es'" and "admitted key operation parents height esize check root_ok es"
  shows "admitted key operation parents height esize check root_ok es'"
proof -
  have set: "set es = set es'" using assms(1) by (rule mset_eq_setD)
  have map: "mset (map f es) = mset (map f es')" for f :: "'a \<Rightarrow> bytes" using assms(1) by simp
  have dis: "distinct (map operation es')" "distinct (map key es')"
    using assms(2) mset_eq_imp_distinct_iff[OF map] by (auto simp: admitted_def)
  moreover have "sum_list (map (size_of esize) es') = sum_list (map (size_of esize) es)"
    using assms(1) by (metis mset_map sum_mset_sum_list)
  moreover have "heights_by_key key height es' = heights_by_key key height es"
    using lookup_perm[OF dis(2) assms(1)[symmetric]] by (simp add: heights_by_key_def fun_eq_iff)
  ultimately show ?thesis
    using assms(2) set by (simp add: admitted_def)
qed

lemma max_member: "foldl max 0 hs \<in> insert 0 (set hs)" for hs :: "u64 list"
  by (induction hs rule: rev_induct) (auto simp: max_def)

text \<open>An event with parents is exactly one higher than one of them.\<close>

lemma admitted_heights:
  assumes adm: "admitted key operation parents height esize check root_ok es" and e: "e \<in> set es" "parents e \<noteq> []"
    and pos: "\<And>x. x \<in> set es \<Longrightarrow> height x \<noteq> 0"
  shows "\<exists>p \<in> set es. key p \<in> set (parents e) \<and> height e = height p + 1"
proof -
  define byH where "byH = heights_by_key key height es"
  have h: "height e = foldl max 0 (map (\<lambda>p. the (byH p)) (parents e)) + 1"
    using adm e by (auto simp: admitted_def event_linked_def byH_def)
  consider (zero) "foldl max 0 (map (\<lambda>p. the (byH p)) (parents e)) = 0"
    | (some) k where "k \<in> set (parents e)" "foldl max 0 (map (\<lambda>p. the (byH p)) (parents e)) = the (byH k)"
    using max_member[of "map (\<lambda>p. the (byH p)) (parents e)"] by fastforce
  then show ?thesis
  proof cases
    case zero
    from e(2) obtain k where "k \<in> set (parents e)" by (cases "parents e") auto
    from admitted_parents[OF adm e(1) this] obtain p where "p \<in> set es" "height p < height e" by blast
    with pos[of p] show ?thesis using h zero by (simp add: word_less_nat_alt unat_eq_zero[symmetric])
  next
    case (some k)
    from admitted_parents[OF adm e(1) some(1)] obtain p where p: "p \<in> set es" "key p = k" by blast
    then have "byH k = Some (height p)"
      using adm lookup_keyed[of key es k p] by (simp add: byH_def heights_by_key_def admitted_def)
    with p some h e show ?thesis by auto
  qed
qed

lemma heads_of_cong: "set P = set Q \<Longrightarrow> heads_of key P es = heads_of key Q es"
  by (simp add: heads_of_def)

lemma event_order_simps [simp]:
  "set (event_order height operation es) = set es" "mset (event_order height operation es) = mset es"
  "length (event_order height operation es) = length es"
  by (simp_all add: event_order_def)

lemma event_order_sorted: "sorted_wrt (\<lambda>a b. height a \<le> height b) (event_order height operation es)"
proof -
  have "sorted (map (\<lambda>e. (height e, operation e)) (event_order height operation es))"
    unfolding event_order_def by (rule sorted_sort_key)
  then have "sorted_wrt (\<lambda>a b. (height a, operation a) \<le> (height b, operation b)) (event_order height operation es)"
    by (simp only: sorted_map)
  then show ?thesis
    by (rule sorted_wrt_mono_rel[rotated]) auto
qed

lemma event_order_unique:
  assumes "distinct (map operation es)" and "mset es = mset es'"
  shows "event_order height operation es = event_order height operation es'"
proof -
  let ?f = "\<lambda>e. (height e, operation e)"
  have set: "set es = set es'" using assms(2) by (rule mset_eq_setD)
  have inj: "inj_on ?f (set es)" and dis: "distinct es"
    using assms(1) by (auto simp: distinct_map inj_on_def)
  have dis': "distinct es'" using dis assms(2) by (metis mset_eq_imp_distinct_iff)
  show ?thesis unfolding event_order_def
    by (rule map_sorted_distinct_set_unique[where f = ?f]) (use inj dis dis' set in \<open>auto simp: distinct_map\<close>)
qed

section \<open>Logs a reducer accepts\<close>

text \<open>\<open>x\<close> is a parent of \<open>y\<close> in the log \<open>es\<close>; ancestors are its transitive closure.\<close>

definition parent_in :: "('e \<Rightarrow> bytes) \<Rightarrow> ('e \<Rightarrow> bytes list) \<Rightarrow> 'e list \<Rightarrow> 'e \<Rightarrow> 'e \<Rightarrow> bool" where
  "parent_in key parents es x y \<longleftrightarrow> x \<in> set es \<and> y \<in> set es \<and> key x \<in> set (parents y)"

text \<open>
  \<open>accepted\<close> holds of the logs for which the reducer returns a state. It promises that keys
  and operations are not repeated and that every parent is an event of the log with a
  smaller height.
\<close>

locale causal_log =
  fixes accepted :: "'e list \<Rightarrow> bool"
    and key :: "'e \<Rightarrow> bytes"
    and operation :: "'e \<Rightarrow> bytes"
    and parents :: "'e \<Rightarrow> bytes list"
    and height :: "'e \<Rightarrow> u64"
  assumes nonempty: "accepted es \<Longrightarrow> es \<noteq> []"
    and keys_distinct: "accepted es \<Longrightarrow> distinct (map key es)"
    and operations_distinct: "accepted es \<Longrightarrow> distinct (map operation es)"
    and parents_lower: "accepted es \<Longrightarrow> e \<in> set es \<Longrightarrow> p \<in> set (parents e) \<Longrightarrow>
      \<exists>e' \<in> set es. key e' = p \<and> height e' < height e"
begin

lemma key_inj: "accepted es \<Longrightarrow> x \<in> set es \<Longrightarrow> y \<in> set es \<Longrightarrow> key x = key y \<Longrightarrow> x = y"
  using keys_distinct[of es] by (auto simp: distinct_map dest: inj_onD)

lemma parent_lower: "accepted es \<Longrightarrow> parent_in key parents es x y \<Longrightarrow> height x < height y"
  unfolding parent_in_def by (metis parents_lower key_inj)

lemma ancestor_lower: "(parent_in key parents es)\<^sup>+\<^sup>+ x y \<Longrightarrow> accepted es \<Longrightarrow> height x < height y"
  by (induction rule: tranclp_induct) (auto dest: parent_lower order.strict_trans)

text \<open>No event is its own ancestor, and both ends of a chain are events of the log.\<close>

lemma acyclic: "accepted es \<Longrightarrow> \<not> (parent_in key parents es)\<^sup>+\<^sup>+ x x"
  using ancestor_lower by blast

lemma ancestor_member: "(parent_in key parents es)\<^sup>*\<^sup>* x y \<Longrightarrow> y \<in> set es \<Longrightarrow> x \<in> set es"
  by (induction rule: converse_rtranclp_induct) (auto simp: parent_in_def)

lemma order_unique:
  "accepted es \<Longrightarrow> mset es = mset es' \<Longrightarrow> event_order height operation es = event_order height operation es'"
  by (rule event_order_unique) (auto dest: operations_distinct)

lemma order_distinct: "accepted es \<Longrightarrow> distinct (event_order height operation es)"
  using keys_distinct[of es] by (simp add: event_order_def distinct_map)

text \<open>In the order of reduction every parent comes first.\<close>

lemma parents_first:
  assumes "accepted es" and "event_order height operation es = seen @ e # later" and "p \<in> set (parents e)"
  shows "\<exists>e' \<in> set seen. key e' = p \<and> parent_in key parents es e' e"
proof -
  have mem: "set es = set seen \<union> insert e (set later)"
    using event_order_simps(1)[of height operation es] assms(2) by simp
  obtain e' where e': "e' \<in> set es" "key e' = p" "height e' < height e"
    using parents_lower[OF assms(1) _ assms(3)] mem by auto
  have "e' \<notin> insert e (set later)"
    using event_order_sorted[of height operation es] e'(3) assms(2) by (auto simp: sorted_wrt_append)
  then show ?thesis using e' mem assms(3) by (auto simp: parent_in_def)
qed

text \<open>Childless events: the heads are not empty and every event leads up to one.\<close>

lemma reaches_head:
  assumes acc: "accepted es" and e: "e \<in> set es"
  shows "\<exists>h \<in> set es. (parent_in key parents es)\<^sup>*\<^sup>* e h \<and> (\<forall>c \<in> set es. key h \<notin> set (parents c))"
proof -
  let ?D = "{h \<in> set es. (parent_in key parents es)\<^sup>*\<^sup>* e h}"
  have "finite ?D" "?D \<noteq> {}" using e by auto
  then obtain h where h: "h \<in> ?D" "Max (height ` ?D) = height h"
    using Max_in[of "height ` ?D"] by (auto simp del: Max_in)
  have "key h \<notin> set (parents c)" if c: "c \<in> set es" for c
  proof
    assume "key h \<in> set (parents c)"
    with h(1) c have par: "parent_in key parents es h c" by (simp add: parent_in_def)
    with h(1) c have "c \<in> ?D" by (auto intro: rtranclp.rtrancl_into_rtrancl)
    then have "height c \<le> height h" using \<open>finite ?D\<close> unfolding h(2)[symmetric] by (intro Max_ge) auto
    with parent_lower[OF acc par] show False by simp
  qed
  with h(1) show ?thesis by blast
qed

text \<open>
  The walk refuses exactly the logs in which an event that assigns something has a
  deletion among its ancestors, however far back.
\<close>

lemma walk_step:
  assumes acc: "accepted es" and split: "event_order height operation es = seen @ e # later"
    and flags: "\<And>x. x \<in> set seen \<Longrightarrow> flag_of flags (key x) \<longleftrightarrow> (\<exists>a. (parent_in key parents es)\<^sup>*\<^sup>* a x \<and> mark a)"
  shows "list_ex (flag_of flags) (parents e) \<longleftrightarrow> (\<exists>a. (parent_in key parents es)\<^sup>+\<^sup>+ a e \<and> mark a)"
proof
  assume "list_ex (flag_of flags) (parents e)"
  then obtain p where p: "p \<in> set (parents e)" "flag_of flags p" by (auto simp: list_ex_iff)
  from parents_first[OF acc split p(1)] obtain e' where "e' \<in> set seen" "key e' = p" "parent_in key parents es e' e" by blast
  with flags[of e'] p(2) show "\<exists>a. (parent_in key parents es)\<^sup>+\<^sup>+ a e \<and> mark a" by (auto intro: rtranclp_into_tranclp1)
next
  assume "\<exists>a. (parent_in key parents es)\<^sup>+\<^sup>+ a e \<and> mark a"
  then obtain a where t: "(parent_in key parents es)\<^sup>+\<^sup>+ a e" and m: "mark a" by blast
  from t obtain e' where e': "(parent_in key parents es)\<^sup>*\<^sup>* a e'" "parent_in key parents es e' e"
    by (cases rule: tranclp.cases) (auto dest: tranclp_into_rtranclp)
  note a = e' m
  then have p: "key e' \<in> set (parents e)" and mem: "e' \<in> set es" by (auto simp: parent_in_def)
  from parents_first[OF acc split p] obtain x where x: "x \<in> set seen" "key x = key e'" "parent_in key parents es x e" by blast
  with key_inj[OF acc _ mem, of x] have "x = e'" by (auto simp: parent_in_def)
  with x flags[of e'] a p show "list_ex (flag_of flags) (parents e)" by (auto simp: list_ex_iff)
qed

lemma walk_from:
  assumes acc: "accepted es"
  shows "event_order height operation es = seen @ todo \<Longrightarrow>
    (\<And>x. x \<in> set seen \<Longrightarrow> flag_of flags (key x) \<longleftrightarrow> (\<exists>a. (parent_in key parents es)\<^sup>*\<^sup>* a x \<and> mark a)) \<Longrightarrow>
    (\<exists>fl. tombstone_walk key parents mark live flags todo = Inr fl) \<longleftrightarrow>
      (\<forall>e \<in> set todo. live e \<longrightarrow> \<not> (\<exists>a. (parent_in key parents es)\<^sup>+\<^sup>+ a e \<and> mark a))"
proof (induction todo arbitrary: seen flags)
  case (Cons e todo)
  note step = walk_step[OF acc Cons.prems(1,2)]
  let ?t = "list_ex (flag_of flags) (parents e)"
  let ?flags = "AList.update (key e) (?t \<or> mark e) flags"
  have mem: "set es = set seen \<union> insert e (set todo)"
    using event_order_simps(1)[of height operation es] Cons.prems(1) by simp
  have fresh: "key x \<noteq> key e" if "x \<in> set seen" for x
    using that key_inj[OF acc, of x e] mem order_distinct[OF acc] Cons.prems(1) by auto
  have upd: "flag_of ?flags (key x) \<longleftrightarrow> (\<exists>a. (parent_in key parents es)\<^sup>*\<^sup>* a x \<and> mark a)" if "x \<in> set (seen @ [e])" for x
  proof (cases "x = e")
    case True
    have "(\<exists>a. (parent_in key parents es)\<^sup>*\<^sup>* a e \<and> mark a) \<longleftrightarrow> (\<exists>a. (parent_in key parents es)\<^sup>+\<^sup>+ a e \<and> mark a) \<or> mark e"
      by (metis rtranclpD rtranclp.rtrancl_refl tranclp_into_rtranclp)
    with True step show ?thesis by (simp add: flag_of_def)
  next
    case False
    with that have "x \<in> set seen" by simp
    with fresh[OF this] Cons.prems(2)[OF this] show ?thesis by (simp add: flag_of_def)
  qed
  have "(\<exists>fl. tombstone_walk key parents mark live ?flags todo = Inr fl) \<longleftrightarrow>
      (\<forall>e \<in> set todo. live e \<longrightarrow> \<not> (\<exists>a. (parent_in key parents es)\<^sup>+\<^sup>+ a e \<and> mark a))"
    using Cons.prems(1) by (intro Cons.IH[of "seen @ [e]"] upd) simp_all
  with step show ?case by (auto simp: Let_def)
qed simp

lemma walk_accepts:
  assumes "accepted es"
  shows "(\<exists>fl. tombstone_walk key parents mark live [] (event_order height operation es) = Inr fl) \<longleftrightarrow>
      (\<forall>e \<in> set es. live e \<longrightarrow> \<not> (\<exists>a. (parent_in key parents es)\<^sup>+\<^sup>+ a e \<and> mark a))"
  using walk_from[OF assms, of "[]" "event_order height operation es" "[]" mark live] by simp

lemma heads_spec:
  "set (heads_of key (concat (rev (map parents es))) (event_order height operation es))
     = {key h | h. h \<in> set es \<and> (\<forall>c \<in> set es. key h \<notin> set (parents c))}"
  by (auto simp: heads_of_def)

lemma heads_nonempty:
  assumes "accepted es"
  shows "heads_of key (concat (rev (map parents es))) (event_order height operation es) \<noteq> []"
proof -
  obtain e where "e \<in> set es" using nonempty[OF assms] by (cases es) auto
  from reaches_head[OF assms this] obtain h where "h \<in> set es" "\<forall>c \<in> set es. key h \<notin> set (parents c)" by blast
  then have "key h \<in> set (heads_of key (concat (rev (map parents es))) (event_order height operation es))"
    unfolding heads_spec by blast
  then show ?thesis by auto
qed

lemma heads_sorted:
  assumes "accepted es"
  shows "sorted_wrt (<) (heads_of key P (event_order height operation es))"
proof -
  have "inj_on key (set es)" using keys_distinct[OF assms] by (simp add: distinct_map)
  then have "distinct (map key (filter (\<lambda>e. key e \<notin> set P) (event_order height operation es)))"
    using order_distinct[OF assms] by (auto simp: distinct_map inj_on_def)
  then show ?thesis unfolding heads_of_def by (simp add: strict_sorted_iff)
qed

text \<open>Every event goes back to an event without parents.\<close>

lemma reaches_root:
  assumes "accepted es"
  shows "e \<in> set es \<Longrightarrow> \<exists>r \<in> set es. parents r = [] \<and> (parent_in key parents es)\<^sup>*\<^sup>* r e"
proof (induction "unat (height e)" arbitrary: e rule: less_induct)
  case less
  show ?case
  proof (cases "parents e")
    case Nil
    with less.prems show ?thesis by blast
  next
    case (Cons p ps)
    then obtain e' where e': "e' \<in> set es" "key e' = p" "height e' < height e"
      using parents_lower[OF assms less.prems, of p] by auto
    then obtain r where "r \<in> set es" "parents r = []" "(parent_in key parents es)\<^sup>*\<^sup>* r e'"
      using less.hyps[of e'] by (auto simp: word_less_nat_alt)
    moreover have "parent_in key parents es e' e" using e' Cons less.prems by (simp add: parent_in_def)
    ultimately show ?thesis by (auto intro: rtranclp.rtrancl_into_rtrancl)
  qed
qed

end

text \<open>A log with a single root: all events descend from it.\<close>

locale rooted_log = causal_log +
  assumes single_root: "accepted es \<Longrightarrow> length (filter (\<lambda>e. parents e = []) es) = 1"
begin

lemma descends_from_root:
  assumes "accepted es"
  shows "\<exists>r \<in> set es. parents r = [] \<and> (\<forall>e \<in> set es. (parent_in key parents es)\<^sup>*\<^sup>* r e)"
proof -
  obtain r where r: "filter (\<lambda>e. parents e = []) es = [r]"
    using single_root[OF assms] by (metis One_nat_def length_0_conv length_Suc_conv)
  then have only: "x = r" if "x \<in> set es" "parents x = []" for x
  proof -
    have "x \<in> set (filter (\<lambda>e. parents e = []) es)" using that by simp
    with r show ?thesis by simp
  qed
  have root: "r \<in> set (filter (\<lambda>e. parents e = []) es)" using r by simp
  have "(parent_in key parents es)\<^sup>*\<^sup>* r e" if "e \<in> set es" for e
    using reaches_root[OF assms that] only by blast
  with root show ?thesis by auto
qed

end

section \<open>Registers\<close>

text \<open>The value of a register after a sequence of events: that of the last event that assigns it.\<close>

definition latest :: "('e \<Rightarrow> 'v option) \<Rightarrow> 'e list \<Rightarrow> 'v option" where
  "latest f es = foldl (\<lambda>a e. case f e of None \<Rightarrow> a | Some v \<Rightarrow> Some v) None es"

lemma latest_simps [simp]:
  "latest f [] = None" "latest f (es @ [e]) = (case f e of None \<Rightarrow> latest f es | Some v \<Rightarrow> Some v)"
  by (cases "f e"; simp add: latest_def)+

lemma latest_Some: "latest f es = Some v \<longleftrightarrow> (\<exists>xs e ys. es = xs @ e # ys \<and> f e = Some v \<and> (\<forall>y \<in> set ys. f y = None))"
proof (induction es rule: rev_induct)
  case (snoc e es)
  show ?case
  proof (cases "f e")
    case None
    have "(\<exists>xs x ys. es @ [e] = xs @ x # ys \<and> f x = Some v \<and> (\<forall>y \<in> set ys. f y = None)) \<longleftrightarrow>
        (\<exists>xs x ys. es = xs @ x # ys \<and> f x = Some v \<and> (\<forall>y \<in> set ys. f y = None))" (is "?l \<longleftrightarrow> ?r")
    proof
      assume ?l
      then obtain xs x ys where "es @ [e] = xs @ x # ys" "f x = Some v" "\<forall>y \<in> set ys. f y = None" by blast
      with None show ?r by (cases ys rule: rev_cases) auto
    next
      assume ?r
      then obtain xs x ys where "es = xs @ x # ys" "f x = Some v" "\<forall>y \<in> set ys. f y = None" by blast
      with None show ?l by (intro exI[of _ xs] exI[of _ x] exI[of _ "ys @ [e]"]) auto
    qed
    with None snoc show ?thesis by simp
  next
    case (Some w)
    have "(\<exists>xs x ys. es @ [e] = xs @ x # ys \<and> f x = Some v \<and> (\<forall>y \<in> set ys. f y = None)) \<longleftrightarrow> v = w" (is "?l \<longleftrightarrow> _")
    proof
      assume ?l
      then obtain xs x ys where "es @ [e] = xs @ x # ys" "f x = Some v" "\<forall>y \<in> set ys. f y = None" by blast
      with Some show "v = w" by (cases ys rule: rev_cases) auto
    next
      assume "v = w"
      with Some show ?l by (intro exI[of _ es] exI[of _ e] exI[of _ "[]"]) auto
    qed
    with Some show ?thesis by auto
  qed
qed simp

lemma latest_None: "latest f es = None \<longleftrightarrow> (\<forall>e \<in> set es. f e = None)"
  by (induction es rule: rev_induct) (auto split: option.splits)

lemma latest_member: "latest f es = Some v \<Longrightarrow> \<exists>e \<in> set es. f e = Some v"
  by (auto simp: latest_Some)

lemma latest_agreed:
  assumes "\<And>e w. e \<in> set es \<Longrightarrow> f e = Some w \<Longrightarrow> w = v" and "e \<in> set es" and "f e = Some v"
  shows "latest f es = Some v"
proof (cases "latest f es")
  case None
  with assms(2,3) show ?thesis by (simp add: latest_None)
next
  case (Some w)
  with latest_member[OF this] assms(1) show ?thesis by blast
qed

end
