(* ===== verification/Revision.thy ===== *)
theory Revision
  imports Causal_Log
begin

text \<open>
  Package \<^verbatim>\<open>mailboxstate\<close>, file \<^verbatim>\<open>revision.go\<close>: append-only revisions of the state of one
  message, the claims that bind an operation to its revision, and the reducer that turns
  a complete inventory of revisions into the current state. A revision is named by a
  key that commits to all its fields; the inventory comes with a sealed snapshot of
  the claims, message versions and folders it may refer to.
\<close>

section \<open>Records\<close>

record KeywordAssignment =
  ka_Name :: bytes
  ka_Present :: bool

record RevisionRecord =
  rv_Type :: bytes
  rv_LogicalMessageID :: bytes
  rv_OperationID :: bytes
  rv_Parents :: "bytes slice"
  rv_Revision :: u64
  rv_Version :: bytes
  rv_MailboxIDs :: "bytes slice"
  rv_Keywords :: "KeywordAssignment slice"
  rv_DeletePending :: "bool option"
  rv_Tombstone :: bool
  rv_Merge :: bool
  rv_CreatedAt :: bytes

record StateRevision =
  sv_RKey :: bytes
  sv_Record :: RevisionRecord

record OperationClaimRecord =
  oc_Type :: bytes
  oc_LogicalMessageID :: bytes
  oc_OperationID :: bytes
  oc_RevisionRKey :: bytes

record OperationClaim =
  cl_RKey :: bytes
  cl_Record :: OperationClaimRecord

record verifiedFolderReference =
  vf_stateDigest :: bytes
  vf_tombstone :: bool

record VerifiedSnapshot =
  vs_snapshotID :: bytes
  vs_logicalMessageID :: bytes
  vs_revisionCount :: nat
  vs_operationClaims :: "bytes gomap"
  vs_versions :: "bytes gomap"
  vs_folders :: "verifiedFolderReference gomap"
  vs_seal :: bytes

record ReducedState =
  rs_LogicalMessageID :: bytes
  rs_SnapshotID :: bytes
  rs_Version :: bytes
  rs_MailboxIDs :: "bytes slice"
  rs_Keywords :: "bytes slice"
  rs_DeletePending :: bool
  rs_Tombstone :: bool
  rs_Heads :: "bytes list"
  rs_HeadsDigest :: bytes
  rs_StateDigest :: bytes
  rs_Height :: u64
  rs_RevisionCount :: nat

section \<open>The strict wire decoders\<close>

text \<open>
  The decoders read a stream: \<open>len\<close> is the length of the encoded bytes and \<open>docs\<close> are the JSON
  values in them, one after the other. One value is required and nothing may follow it.
\<close>

definition require_single :: "nat \<Rightarrow> json list \<Rightarrow> (json \<Rightarrow> 'r option) \<Rightarrow> 'r result" where
  "require_single len docs decode =
     (if len = 0 \<or> len > maxRevisionRecordBytes then Inl ErrResourceLimit
      else (case docs of
          [] \<Rightarrow> Inl ErrInvalidRevision
        | d # rest \<Rightarrow> (case decode d of None \<Rightarrow> Inl ErrInvalidRevision | Some r \<Rightarrow>
            if rest \<noteq> [] then Inl ErrInvalidRevision else Inr r)))"

definition zero_KeywordAssignment :: KeywordAssignment where
  "zero_KeywordAssignment = \<lparr>ka_Name = [], ka_Present = False\<rparr>"

definition put_keyword :: "bytes \<Rightarrow> json \<Rightarrow> KeywordAssignment \<Rightarrow> KeywordAssignment option" where
  "put_keyword f v k =
     (if f = ''name'' then map_option (\<lambda>x. k\<lparr>ka_Name := x\<rparr>) (decode_string v (ka_Name k))
      else map_option (\<lambda>x. k\<lparr>ka_Present := x\<rparr>) (decode_bool v (ka_Present k)))"

definition keyword_of_json :: "json \<Rightarrow> KeywordAssignment option" where
  "keyword_of_json j = decode_struct True [''name'', ''present''] put_keyword j zero_KeywordAssignment"

definition zero_RevisionRecord :: RevisionRecord where
  "zero_RevisionRecord = \<lparr>rv_Type = [], rv_LogicalMessageID = [], rv_OperationID = [], rv_Parents = None,
     rv_Revision = 0, rv_Version = [], rv_MailboxIDs = None, rv_Keywords = None, rv_DeletePending = None,
     rv_Tombstone = False, rv_Merge = False, rv_CreatedAt = []\<rparr>"

definition revision_fields :: "bytes list" where
  "revision_fields = [''$type'', ''logicalMessageId'', ''operationId'', ''parents'', ''revision'', ''version'',
     ''mailboxIds'', ''keywords'', ''deletePending'', ''tombstone'', ''merge'', ''createdAt'']"

definition put_revision :: "bytes \<Rightarrow> json \<Rightarrow> RevisionRecord \<Rightarrow> RevisionRecord option" where
  "put_revision f v r =
     (if f = ''$type'' then map_option (\<lambda>x. r\<lparr>rv_Type := x\<rparr>) (decode_string v (rv_Type r))
      else if f = ''logicalMessageId'' then
        map_option (\<lambda>x. r\<lparr>rv_LogicalMessageID := x\<rparr>) (decode_string v (rv_LogicalMessageID r))
      else if f = ''operationId'' then map_option (\<lambda>x. r\<lparr>rv_OperationID := x\<rparr>) (decode_string v (rv_OperationID r))
      else if f = ''parents'' then map_option (\<lambda>x. r\<lparr>rv_Parents := x\<rparr>) (decode_strings v)
      else if f = ''revision'' then map_option (\<lambda>x. r\<lparr>rv_Revision := x\<rparr>) (decode_u64 v (rv_Revision r))
      else if f = ''version'' then map_option (\<lambda>x. r\<lparr>rv_Version := x\<rparr>) (decode_string v (rv_Version r))
      else if f = ''mailboxIds'' then map_option (\<lambda>x. r\<lparr>rv_MailboxIDs := x\<rparr>) (decode_strings v)
      else if f = ''keywords'' then map_option (\<lambda>x. r\<lparr>rv_Keywords := x\<rparr>) (decode_slice keyword_of_json v)
      else if f = ''deletePending'' then map_option (\<lambda>x. r\<lparr>rv_DeletePending := x\<rparr>) (decode_bool_ptr v)
      else if f = ''tombstone'' then map_option (\<lambda>x. r\<lparr>rv_Tombstone := x\<rparr>) (decode_bool v (rv_Tombstone r))
      else if f = ''merge'' then map_option (\<lambda>x. r\<lparr>rv_Merge := x\<rparr>) (decode_bool v (rv_Merge r))
      else map_option (\<lambda>x. r\<lparr>rv_CreatedAt := x\<rparr>) (decode_string v (rv_CreatedAt r)))"

definition DecodeRevisionRecord :: "nat \<Rightarrow> json list \<Rightarrow> RevisionRecord result" where
  "DecodeRevisionRecord len docs =
     require_single len docs (\<lambda>j. decode_struct True revision_fields put_revision j zero_RevisionRecord)"

definition zero_OperationClaimRecord :: OperationClaimRecord where
  "zero_OperationClaimRecord = \<lparr>oc_Type = [], oc_LogicalMessageID = [], oc_OperationID = [], oc_RevisionRKey = []\<rparr>"

definition claim_fields :: "bytes list" where
  "claim_fields = [''$type'', ''logicalMessageId'', ''operationId'', ''revisionRkey'']"

definition put_claim :: "bytes \<Rightarrow> json \<Rightarrow> OperationClaimRecord \<Rightarrow> OperationClaimRecord option" where
  "put_claim f v r =
     (if f = ''$type'' then map_option (\<lambda>x. r\<lparr>oc_Type := x\<rparr>) (decode_string v (oc_Type r))
      else if f = ''logicalMessageId'' then
        map_option (\<lambda>x. r\<lparr>oc_LogicalMessageID := x\<rparr>) (decode_string v (oc_LogicalMessageID r))
      else if f = ''operationId'' then map_option (\<lambda>x. r\<lparr>oc_OperationID := x\<rparr>) (decode_string v (oc_OperationID r))
      else map_option (\<lambda>x. r\<lparr>oc_RevisionRKey := x\<rparr>) (decode_string v (oc_RevisionRKey r)))"

definition DecodeOperationClaimRecord :: "nat \<Rightarrow> json list \<Rightarrow> OperationClaimRecord result" where
  "DecodeOperationClaimRecord len docs =
     require_single len docs (\<lambda>j. decode_struct True claim_fields put_claim j zero_OperationClaimRecord)"

text \<open>The JSON text of a revision, with the tags of the struct.\<close>

definition keyword_json :: "KeywordAssignment \<Rightarrow> json" where
  "keyword_json k = JObj (jfield ''name'' (jstr (ka_Name k)) @ jfield ''present'' (JBool (ka_Present k)))"

definition revision_json :: "RevisionRecord \<Rightarrow> json" where
  "revision_json r = JObj
     (jfield ''$type'' (jstr (rv_Type r))
      @ jfield ''logicalMessageId'' (jstr (rv_LogicalMessageID r))
      @ jfield ''operationId'' (jstr (rv_OperationID r))
      @ jfield ''parents'' (jstrs (rv_Parents r))
      @ jfield ''revision'' (JNum (uint (rv_Revision r)))
      @ jomit (rv_Version r = []) ''version'' (jstr (rv_Version r))
      @ jomit (elems (rv_MailboxIDs r) = []) ''mailboxIds'' (jstrs (rv_MailboxIDs r))
      @ jomit (elems (rv_Keywords r) = []) ''keywords'' (JArr (map keyword_json (elems (rv_Keywords r))))
      @ jomit (rv_DeletePending r = None) ''deletePending'' (JBool (rv_DeletePending r = Some True))
      @ jomit (\<not> rv_Tombstone r) ''tombstone'' (JBool (rv_Tombstone r))
      @ jomit (\<not> rv_Merge r) ''merge'' (JBool (rv_Merge r))
      @ jfield ''createdAt'' (jstr (rv_CreatedAt r)))"

section \<open>The canonical commitment\<close>

text \<open>A value that is too long is reported before one that is not UTF-8, value by value.\<close>

fun check_values :: "nat \<Rightarrow> bytes list \<Rightarrow> unit result" where
  "check_values limit [] = Inr ()"
| "check_values limit (v # vs) =
     (if length v > limit then Inl ErrResourceLimit
      else if \<not> utf8_valid v then Inl ErrInvalidRevision else check_values limit vs)"

definition encode_keyword :: "KeywordAssignment \<Rightarrow> bytes" where
  "encode_keyword k = cw_string (ka_Name k) @ cw_boolean (ka_Present k)"

definition encode_keywords :: "KeywordAssignment list \<Rightarrow> bytes" where
  "encode_keywords ks = cw_len (length ks) @ concat (map encode_keyword ks)"

text \<open>Optional values carry a presence byte.\<close>

definition encode_mailboxes :: "bytes slice \<Rightarrow> bytes" where
  "encode_mailboxes m = (case m of None \<Rightarrow> cw_byte 0 | Some ids \<Rightarrow> cw_byte 1 @ cw_strings ids)"

definition encode_pending :: "bool option \<Rightarrow> bytes" where
  "encode_pending p = (case p of None \<Rightarrow> cw_byte 0 | Some b \<Rightarrow> if \<not> b then cw_byte 1 else cw_byte 2)"

definition revision_prefix :: bytes where
  "revision_prefix = ''comail-message-state-revision-canonical-v1'' @ [CHR 0x00]"

definition encode_revision :: "RevisionRecord \<Rightarrow> bytes" where
  "encode_revision r =
     revision_prefix @ cw_string (rv_Type r) @ cw_string (rv_LogicalMessageID r) @ cw_string (rv_OperationID r)
     @ cw_strings (elems (rv_Parents r)) @ cw_uint64 (rv_Revision r) @ cw_string (rv_Version r)
     @ encode_mailboxes (rv_MailboxIDs r) @ encode_keywords (elems (rv_Keywords r)) @ encode_pending (rv_DeletePending r)
     @ cw_boolean (rv_Tombstone r) @ cw_boolean (rv_Merge r) @ cw_string (rv_CreatedAt r)"

definition CanonicalRevisionBytes :: "RevisionRecord \<Rightarrow> bytes result" where
  "CanonicalRevisionBytes r =
     (if length (rv_Type r) > maxIdentifierBytes \<or> length (rv_LogicalMessageID r) > maxIdentifierBytes
        \<or> length (rv_OperationID r) > maxOperationIDBytes \<or> length (elems (rv_Parents r)) > maxParents
        \<or> length (rv_Version r) > maxIdentifierBytes \<or> length (elems (rv_MailboxIDs r)) > maxMailboxes
        \<or> length (elems (rv_Keywords r)) > maxKeywords \<or> length (rv_CreatedAt r) > maxIdentifierBytes
      then Inl ErrResourceLimit
      else if \<not> utf8_valid (rv_Type r) \<or> \<not> utf8_valid (rv_LogicalMessageID r) \<or> \<not> utf8_valid (rv_OperationID r)
        \<or> \<not> utf8_valid (rv_Version r) \<or> \<not> utf8_valid (rv_CreatedAt r) then Inl ErrInvalidRevision
      else (case check_values maxIdentifierBytes (elems (rv_Parents r)) of Inl e \<Rightarrow> Inl e | Inr _ \<Rightarrow>
        (case check_values maxIdentifierBytes (elems (rv_MailboxIDs r)) of Inl e \<Rightarrow> Inl e | Inr _ \<Rightarrow>
          (case check_values 255 (map ka_Name (elems (rv_Keywords r))) of Inl e \<Rightarrow> Inl e | Inr _ \<Rightarrow>
            if length (encode_revision r) > maxRevisionRecordBytes then Inl ErrResourceLimit
            else Inr (encode_revision r)))))"

definition state_rkey_preimage :: "bytes \<Rightarrow> bytes \<Rightarrow> bytes" where
  "state_rkey_preimage repoDID encoded =
     ''comail-message-state-revision-rkey-v1'' @ [CHR 0x00] @ repoDID @ [CHR 0x00] @ encoded"

definition StateRevisionRKey :: "syntax_api \<Rightarrow> bytes \<Rightarrow> RevisionRecord \<Rightarrow> bytes result" where
  "StateRevisionRKey sx repoDID r =
     (if \<not> validCanonicalDID sx repoDID \<or> \<not> validSHA256Identifier (rv_LogicalMessageID r)
        \<or> \<not> validIdentifier (rv_OperationID r) maxOperationIDBytes then Inl ErrInvalidRevision
      else (case CanonicalRevisionBytes r of Inl e \<Rightarrow> Inl e | Inr encoded \<Rightarrow>
        Inr (''state-'' @ hex_encode (sha256 (state_rkey_preimage repoDID encoded)))))"

definition claim_rkey_preimage :: "bytes \<Rightarrow> bytes \<Rightarrow> bytes \<Rightarrow> bytes" where
  "claim_rkey_preimage repoDID logicalMessageID operationID =
     ''comail-message-state-operation-v1'' @ [CHR 0x00] @ repoDID @ [CHR 0x00] @ logicalMessageID @ [CHR 0x00] @ operationID"

definition OperationClaimRKey :: "syntax_api \<Rightarrow> bytes \<Rightarrow> bytes \<Rightarrow> bytes \<Rightarrow> bytes result" where
  "OperationClaimRKey sx repoDID logicalMessageID operationID =
     (if \<not> validCanonicalDID sx repoDID \<or> \<not> validSHA256Identifier logicalMessageID
        \<or> \<not> validIdentifier operationID maxOperationIDBytes then Inl ErrInvalidRevision
      else Inr (''operation-'' @ hex_encode (sha256 (claim_rkey_preimage repoDID logicalMessageID operationID))))"

definition NewOperationClaim :: "syntax_api \<Rightarrow> bytes \<Rightarrow> StateRevision \<Rightarrow> OperationClaim result" where
  "NewOperationClaim sx repoDID revision =
     (case StateRevisionRKey sx repoDID (sv_Record revision) of Inl e \<Rightarrow> Inl ErrInvalidRevision | Inr revisionRKey \<Rightarrow>
        if sv_RKey revision \<noteq> revisionRKey then Inl ErrInvalidRevision
        else (case OperationClaimRKey sx repoDID (rv_LogicalMessageID (sv_Record revision)) (rv_OperationID (sv_Record revision)) of
            Inl e \<Rightarrow> Inl e
          | Inr claimRKey \<Rightarrow> Inr \<lparr>cl_RKey = claimRKey, cl_Record =
              \<lparr>oc_Type = MessageStateOperationCollection, oc_LogicalMessageID = rv_LogicalMessageID (sv_Record revision),
               oc_OperationID = rv_OperationID (sv_Record revision), oc_RevisionRKey = sv_RKey revision\<rparr>\<rparr>))"

definition VerifyOperationClaimRetry :: "OperationClaim \<Rightarrow> OperationClaim \<Rightarrow> unit result" where
  "VerifyOperationClaimRetry expected stored = (if expected \<noteq> stored then Inl ErrOperationCollision else Inr ())"

definition VerifyRevisionRetry :: "syntax_api \<Rightarrow> bytes \<Rightarrow> StateRevision \<Rightarrow> StateRevision \<Rightarrow> unit result" where
  "VerifyRevisionRetry sx repoDID expected stored =
     (if StateRevisionRKey sx repoDID (sv_Record expected) \<noteq> Inr (sv_RKey expected)
        \<or> StateRevisionRKey sx repoDID (sv_Record stored) \<noteq> Inr (sv_RKey stored)
        \<or> (sv_Record expected)\<lparr>rv_CreatedAt := []\<rparr> \<noteq> (sv_Record stored)\<lparr>rv_CreatedAt := []\<rparr>
      then Inl ErrOperationCollision else Inr ())"

section \<open>The sealed snapshot\<close>

definition encode_entries :: "bytes gomap \<Rightarrow> bytes" where
  "encode_entries m =
     (let ks = sortedMapKeys m in
      cw_len (length ks) @ concat (map (\<lambda>k. cw_string k @ cw_string (the (map_of m k))) ks))"

definition encode_folders :: "verifiedFolderReference gomap \<Rightarrow> bytes" where
  "encode_folders m =
     (let ks = sortUTF8 (keys m) in
      cw_len (length ks) @ concat (map (\<lambda>k. cw_string k @ cw_string (vf_stateDigest (the (map_of m k)))
        @ cw_boolean (vf_tombstone (the (map_of m k)))) ks))"

definition snapshot_preimage :: "VerifiedSnapshot \<Rightarrow> bytes" where
  "snapshot_preimage i =
     ''comail-verified-mailbox-snapshot-v1'' @ [CHR 0x00] @ cw_string (vs_snapshotID i) @ cw_string (vs_logicalMessageID i)
     @ cw_len (vs_revisionCount i) @ encode_entries (vs_operationClaims i) @ encode_entries (vs_versions i)
     @ encode_folders (vs_folders i)"

definition snapshotSeal :: "VerifiedSnapshot \<Rightarrow> bytes" where
  "snapshotSeal i = sha256 (snapshot_preimage i)"

definition validFor :: "VerifiedSnapshot \<Rightarrow> bytes \<Rightarrow> nat \<Rightarrow> bool" where
  "validFor i logicalMessageID revisionCount =
     (if \<not> validIdentifier (vs_snapshotID i) maxIdentifierBytes \<or> vs_logicalMessageID i \<noteq> logicalMessageID
        \<or> vs_revisionCount i \<noteq> revisionCount \<or> revisionCount < 1 \<or> length (vs_operationClaims i) \<noteq> revisionCount then False
      else vs_seal i = snapshotSeal i)"

section \<open>The check of one revision\<close>

definition hasLiveAssignments :: "RevisionRecord \<Rightarrow> bool" where
  "hasLiveAssignments r =
     (rv_Version r \<noteq> [] \<or> rv_MailboxIDs r \<noteq> None \<or> length (elems (rv_Keywords r)) > 0 \<or> rv_DeletePending r \<noteq> None)"

fun check_folders :: "VerifiedSnapshot \<Rightarrow> bytes list \<Rightarrow> unit result" where
  "check_folders i [] = Inr ()"
| "check_folders i (f # fs) =
     (if \<not> validFolderID f then Inl ErrInvalidRevision
      else (case map_of (vs_folders i) f of None \<Rightarrow> Inl ErrInvalidReference | Some ref \<Rightarrow>
        if \<not> validSHA256Identifier (vf_stateDigest ref) then Inl ErrInvalidReference else check_folders i fs))"

fun keywords_ok :: "bytes \<Rightarrow> KeywordAssignment list \<Rightarrow> bool" where
  "keywords_ok prev [] = True"
| "keywords_ok prev (k # ks) =
     (if \<not> validText (ka_Name k) 255 \<or> ka_Name k \<le> prev then False else keywords_ok (ka_Name k) ks)"

definition validateRevision :: "syntax_api \<Rightarrow> bytes \<Rightarrow> bytes \<Rightarrow> StateRevision \<Rightarrow> VerifiedSnapshot \<Rightarrow> unit result" where
  "validateRevision sx repoDID logicalMessageID event i =
     (let r = sv_Record event in
      if rv_Type r \<noteq> MessageStateRevisionCollection \<or> rv_LogicalMessageID r \<noteq> logicalMessageID
        \<or> StateRevisionRKey sx repoDID r \<noteq> Inr (sv_RKey event)
        \<or> \<not> validIdentifier (rv_OperationID r) maxOperationIDBytes
        \<or> rv_Parents r = None \<or> rv_Revision r = 0 \<or> rv_Revision r > maxPortableRevision
        \<or> length (elems (rv_Parents r)) > maxParents then Inl ErrInvalidRevision
      else if \<not> parse_RFC3339Nano (rv_CreatedAt r) then Inl ErrInvalidRevision
      else if \<not> strictlySortedUnique (elems (rv_Parents r)) then Inl ErrInvalidRevision
      else if list_ex (\<lambda>p. \<not> validStateRKey p \<or> p = sv_RKey event) (elems (rv_Parents r)) then Inl ErrInvalidRevision
      else if rv_Version r \<noteq> [] \<and> \<not> validSHA256Identifier (rv_Version r) then Inl ErrInvalidRevision
      else if rv_Version r \<noteq> [] \<and> map_of (vs_versions i) (rv_Version r) \<noteq> Some logicalMessageID then Inl ErrInvalidReference
      else if rv_MailboxIDs r \<noteq> None \<and> (length (elems (rv_MailboxIDs r)) = 0
        \<or> length (elems (rv_MailboxIDs r)) > maxMailboxes \<or> \<not> strictlySortedUnique (elems (rv_MailboxIDs r)))
        then Inl ErrInvalidRevision
      else (case check_folders i (elems (rv_MailboxIDs r)) of Inl e \<Rightarrow> Inl e | Inr _ \<Rightarrow>
        if length (elems (rv_Keywords r)) > maxKeywords then Inl ErrInvalidRevision
        else if \<not> keywords_ok [] (elems (rv_Keywords r)) then Inl ErrInvalidRevision
        else if rv_Tombstone r \<and> hasLiveAssignments r then Inl ErrInvalidRevision
        else if rv_Merge r = (hasLiveAssignments r \<or> rv_Tombstone r) then Inl ErrInvalidRevision
        else if rv_Merge r \<and> length (elems (rv_Parents r)) < 2 then Inl ErrInvalidRevision
        else Inr ()))"

section \<open>The reducer\<close>

abbreviation ev_parents :: "StateRevision \<Rightarrow> bytes list" where
  "ev_parents e \<equiv> elems (rv_Parents (sv_Record e))"

abbreviation ev_height :: "StateRevision \<Rightarrow> u64" where
  "ev_height e \<equiv> rv_Revision (sv_Record e)"

abbreviation ev_operation :: "StateRevision \<Rightarrow> bytes" where
  "ev_operation e \<equiv> rv_OperationID (sv_Record e)"

text \<open>The canonical size of a revision, then the check of the record and of its claim.\<close>

definition revision_size :: "StateRevision \<Rightarrow> nat result" where
  "revision_size event =
     (case CanonicalRevisionBytes (sv_Record event) of Inl e \<Rightarrow> Inl ErrInvalidRevision | Inr encoded \<Rightarrow>
        if length encoded > maxRevisionRecordBytes then Inl ErrResourceLimit else Inr (length encoded))"

definition check_claimed :: "syntax_api \<Rightarrow> bytes \<Rightarrow> bytes \<Rightarrow> VerifiedSnapshot \<Rightarrow> StateRevision \<Rightarrow> unit result" where
  "check_claimed sx did lm i event =
     (case validateRevision sx did lm event i of Inl e \<Rightarrow> Inl e | Inr _ \<Rightarrow>
        (case NewOperationClaim sx did event of Inl e \<Rightarrow> Inl e | Inr claim \<Rightarrow>
          (case map_of (vs_operationClaims i) (cl_RKey claim) of None \<Rightarrow> Inl ErrIncompleteSnapshot | Some claimedRevision \<Rightarrow>
            if claimedRevision \<noteq> sv_RKey event then Inl ErrOperationCollision else Inr ())))"

definition initial_ok :: "StateRevision \<Rightarrow> bool" where
  "initial_ok e = (\<not> (ev_height e \<noteq> 1 \<or> rv_Version (sv_Record e) = [] \<or> rv_MailboxIDs (sv_Record e) = None))"

text \<open>\<^verbatim>\<open>append(s[:0], xs...)\<close>: the contents are replaced; a nil slice stays nil when nothing is appended.\<close>

definition refill :: "'a slice \<Rightarrow> 'a list \<Rightarrow> 'a slice" where
  "refill s xs = (case s of None \<Rightarrow> copy_nil xs | Some _ \<Rightarrow> Some xs)"

text \<open>The effect of one event on the state and on the keyword map.\<close>

definition reduce_event :: "ReducedState \<times> bool gomap \<Rightarrow> StateRevision \<Rightarrow> ReducedState \<times> bool gomap" where
  "reduce_event acc e =
     (case acc of (st, kws) \<Rightarrow> let r = sv_Record e in
       (st\<lparr>rs_Height := max (rs_Height st) (rv_Revision r),
           rs_Version := (if rv_Version r \<noteq> [] then rv_Version r else rs_Version st),
           rs_MailboxIDs := (case rv_MailboxIDs r of None \<Rightarrow> rs_MailboxIDs st | Some ids \<Rightarrow> refill (rs_MailboxIDs st) ids),
           rs_DeletePending := (case rv_DeletePending r of None \<Rightarrow> rs_DeletePending st | Some b \<Rightarrow> b),
           rs_Tombstone := (rs_Tombstone st \<or> rv_Tombstone r)\<rparr>,
        foldl (\<lambda>m k. AList.update (ka_Name k) (ka_Present k) m) kws (elems (rv_Keywords r))))"

definition start_state :: "bytes \<Rightarrow> bytes \<Rightarrow> nat \<Rightarrow> ReducedState" where
  "start_state lm snapshotID n = \<lparr>rs_LogicalMessageID = lm, rs_SnapshotID = snapshotID, rs_Version = [],
     rs_MailboxIDs = None, rs_Keywords = None, rs_DeletePending = False, rs_Tombstone = False, rs_Heads = [],
     rs_HeadsDigest = [], rs_StateDigest = [], rs_Height = 0, rs_RevisionCount = n\<rparr>"

definition live_folder :: "VerifiedSnapshot \<Rightarrow> bytes \<Rightarrow> bool" where
  "live_folder i f = (case map_of (vs_folders i) f of None \<Rightarrow> False
     | Some ref \<Rightarrow> \<not> vf_tombstone ref \<and> validSHA256Identifier (vf_stateDigest ref))"

definition reduced_preimage :: "ReducedState \<Rightarrow> bytes" where
  "reduced_preimage st =
     ''comail-message-state-reduced-v1'' @ [CHR 0x00] @ cw_string (rs_LogicalMessageID st) @ cw_string (rs_Version st)
     @ cw_strings (elems (rs_MailboxIDs st)) @ cw_strings (elems (rs_Keywords st)) @ cw_boolean (rs_DeletePending st)
     @ cw_boolean (rs_Tombstone st) @ cw_strings (rs_Heads st) @ cw_string (rs_HeadsDigest st)
     @ cw_uint64 (rs_Height st) @ cw_len (rs_RevisionCount st)"

definition digestReducedState :: "ReducedState \<Rightarrow> bytes" where
  "digestReducedState st = digestBytes (reduced_preimage st)"

text \<open>What remains once the events are in order: fold, live folders, keywords, heads and digests.\<close>

definition finish_reduce ::
  "bytes \<Rightarrow> VerifiedSnapshot \<Rightarrow> bytes list \<Rightarrow> StateRevision list \<Rightarrow> ReducedState result" where
  "finish_reduce lm i parented events =
     (case foldl reduce_event (start_state lm (vs_snapshotID i) (length events), []) events of (st, kws) \<Rightarrow>
        let st1 = (if rs_Tombstone st then st\<lparr>rs_DeletePending := False\<rparr> else st);
            st2 = st1\<lparr>rs_Keywords := copy_nil (sortUTF8 (map fst (filter snd kws)))\<rparr>;
            st3 = st2\<lparr>rs_Heads := heads_of sv_RKey parented events\<rparr>;
            st4 = st3\<lparr>rs_HeadsDigest := digestStringList (''comail-message-state-heads-v1'' @ [CHR 0x00]) (rs_Heads st3)\<rparr>
        in if \<not> rs_Tombstone st \<and> list_ex (\<lambda>f. \<not> live_folder i f) (elems (rs_MailboxIDs st)) then Inl ErrInvalidReference
           else Inr (st4\<lparr>rs_StateDigest := digestReducedState st4\<rparr>))"

definition Reduce ::
  "syntax_api \<Rightarrow> bytes \<Rightarrow> bytes \<Rightarrow> StateRevision list \<Rightarrow> VerifiedSnapshot \<Rightarrow> ReducedState result" where
  "Reduce sx repoDID logicalMessageID revisions i =
     (if length revisions > maxRevisionCount then Inl ErrResourceLimit
      else if \<not> validCanonicalDID sx repoDID \<or> \<not> validSHA256Identifier logicalMessageID \<or> length revisions = 0
        then Inl ErrInvalidRevision
      else if \<not> validFor i logicalMessageID (length revisions) then Inl ErrIncompleteSnapshot
      else (case index_events sv_RKey ev_operation revision_size (check_claimed sx repoDID logicalMessageID i) revisions [] [] 0 of Inl e \<Rightarrow> Inl e | Inr byKey \<Rightarrow>
        if length (vs_operationClaims i) \<noteq> length revisions then Inl ErrIncompleteSnapshot
        else (case link_events (\<lambda>k. map_option ev_height (map_of byKey k)) ev_parents ev_height initial_ok revisions ([], 0) of
            Inl e \<Rightarrow> Inl e
          | Inr (parented, roots) \<Rightarrow>
              if roots \<noteq> 1 then Inl ErrInvalidRevision
              else (let events = event_order ev_height ev_operation revisions in
                case tombstone_walk sv_RKey ev_parents (\<lambda>e. rv_Tombstone (sv_Record e)) (\<lambda>e. hasLiveAssignments (sv_Record e)) [] events of
                  Inl e \<Rightarrow> Inl e
                | Inr _ \<Rightarrow> finish_reduce logicalMessageID i parented events))))"

section \<open>What the reducer accepts\<close>

definition reducible :: "syntax_api \<Rightarrow> bytes \<Rightarrow> bytes \<Rightarrow> VerifiedSnapshot \<Rightarrow> StateRevision list \<Rightarrow> bool" where
  "reducible sx did lm i es \<longleftrightarrow> es \<noteq> [] \<and> length es \<le> maxRevisionCount \<and> validCanonicalDID sx did
     \<and> validSHA256Identifier lm \<and> validFor i lm (length es)
     \<and> admitted sv_RKey ev_operation ev_parents ev_height revision_size (check_claimed sx did lm i) initial_ok es
     \<and> length (filter (\<lambda>e. ev_parents e = []) es) = 1"

lemma Reduce_iff:
  "Reduce sx did lm es i = Inr st \<longleftrightarrow>
     reducible sx did lm i es
     \<and> (\<exists>fl. tombstone_walk sv_RKey ev_parents (\<lambda>e. rv_Tombstone (sv_Record e)) (\<lambda>e. hasLiveAssignments (sv_Record e)) []
           (event_order ev_height ev_operation es) = Inr fl)
     \<and> finish_reduce lm i (concat (rev (map ev_parents es))) (event_order ev_height ev_operation es) = Inr st"
proof (cases "length es \<le> maxRevisionCount \<and> validCanonicalDID sx did \<and> validSHA256Identifier lm \<and> es \<noteq> [] \<and> validFor i lm (length es)")
  case False
  then show ?thesis by (auto simp: Reduce_def reducible_def)
next
  case pre: True
  then have claims: "length (vs_operationClaims i) = length es" by (auto simp: validFor_def split: if_splits)
  let ?walk = "tombstone_walk sv_RKey ev_parents (\<lambda>e. rv_Tombstone (sv_Record e)) (\<lambda>e. hasLiveAssignments (sv_Record e)) []
      (event_order ev_height ev_operation es)"
  have "Reduce sx did lm es i = Inr st \<longleftrightarrow>
      (\<exists>P n. (\<exists>bk. index_events sv_RKey ev_operation revision_size (check_claimed sx did lm i) es [] [] 0 = Inr bk
         \<and> link_events (\<lambda>k. map_option ev_height (map_of bk k)) ev_parents ev_height initial_ok es ([], 0) = Inr (P, n))
       \<and> n = 1 \<and> (\<exists>fl. ?walk = Inr fl) \<and> finish_reduce lm i P (event_order ev_height ev_operation es) = Inr st)"
    using pre claims by (auto simp: Reduce_def Let_def split: sum.splits if_splits)
  then show ?thesis using pre by (auto simp: admitted_iff reducible_def)
qed

text \<open>An accepted inventory is a causal log.\<close>

interpretation log: rooted_log "reducible sx did lm i" sv_RKey ev_operation ev_parents ev_height for sx did lm i
proof unfold_locales
  fix es e p assume "reducible sx did lm i es" "e \<in> set es" "p \<in> set (ev_parents e)"
  then show "\<exists>e' \<in> set es. sv_RKey e' = p \<and> ev_height e' < ev_height e"
    unfolding reducible_def by (elim conjE) (rule admitted_parents)
qed (auto simp: reducible_def admitted_def)

section \<open>Order of the inventory\<close>

lemma reducible_perm:
  assumes "mset es = mset es'" and "reducible sx did lm i es"
  shows "reducible sx did lm i es'"
proof -
  have "length es = length es'" using assms(1) by (rule mset_eq_length)
  moreover have "length (filter (\<lambda>e. ev_parents e = []) es') = length (filter (\<lambda>e. ev_parents e = []) es)"
    using assms(1) by (metis mset_filter size_mset)
  ultimately show ?thesis
    using assms(2) admitted_perm[OF assms(1)] by (auto simp: reducible_def)
qed

lemma finish_cong: "set P = set Q \<Longrightarrow> finish_reduce lm i P es = finish_reduce lm i Q es"
  by (simp add: finish_reduce_def heads_of_cong[of P Q])

lemma Reduce_perm:
  assumes "mset es = mset es'" and "Reduce sx did lm es i = Inr st"
  shows "Reduce sx did lm es' i = Inr st"
proof -
  from assms(2) have red: "reducible sx did lm i es" by (simp add: Reduce_iff)
  have "event_order ev_height ev_operation es = event_order ev_height ev_operation es'"
    by (rule log.order_unique[OF red assms(1)])
  moreover have "set (concat (rev (map ev_parents es))) = set (concat (rev (map ev_parents es')))"
    using mset_eq_setD[OF assms(1)] by auto
  ultimately show ?thesis
    using assms(2) reducible_perm[OF assms(1) red] finish_cong[of "concat (rev (map ev_parents es))" "concat (rev (map ev_parents es'))"]
    by (simp add: Reduce_iff)
qed

section \<open>The meaning of a reduced state\<close>

definition keyword_assigned :: "bytes \<Rightarrow> StateRevision \<Rightarrow> bool option" where
  "keyword_assigned k e = map_of (map (\<lambda>a. (ka_Name a, ka_Present a)) (rev (elems (rv_Keywords (sv_Record e))))) k"

definition version_assigned :: "StateRevision \<Rightarrow> bytes option" where
  "version_assigned e = (if rv_Version (sv_Record e) = [] then None else Some (rv_Version (sv_Record e)))"

lemma keyword_fold:
  "map_of (foldl (\<lambda>m a. AList.update (ka_Name a) (ka_Present a) m) kws as) k =
     (case map_of (map (\<lambda>a. (ka_Name a, ka_Present a)) (rev as)) k of None \<Rightarrow> map_of kws k | Some b \<Rightarrow> Some b)"
  by (induction as arbitrary: kws) (auto simp: map_add_def split: option.splits)

lemma keyword_fold_distinct:
  "distinct (keys kws) \<Longrightarrow> distinct (keys (foldl (\<lambda>m a. AList.update (ka_Name a) (ka_Present a) m) kws as))"
  by (induction as arbitrary: kws) auto

text \<open>The fold of the events, register by register.\<close>

lemma reduce_fold:
  assumes "foldl reduce_event (start_state lm sid n, []) es = (st, kws)"
    and "\<And>e. e \<in> set es \<Longrightarrow> rv_MailboxIDs (sv_Record e) \<noteq> Some []"
  shows "rs_LogicalMessageID st = lm \<and> rs_SnapshotID st = sid \<and> rs_RevisionCount st = n
    \<and> rs_Version st = (case latest version_assigned es of None \<Rightarrow> [] | Some v \<Rightarrow> v)
    \<and> rs_MailboxIDs st = latest (\<lambda>e. rv_MailboxIDs (sv_Record e)) es
    \<and> rs_DeletePending st = (latest (\<lambda>e. rv_DeletePending (sv_Record e)) es = Some True)
    \<and> rs_Tombstone st = (\<exists>e \<in> set es. rv_Tombstone (sv_Record e))
    \<and> rs_Height st = foldl max 0 (map ev_height es)
    \<and> distinct (keys kws) \<and> (\<forall>k. map_of kws k = latest (keyword_assigned k) es)"
  using assms
proof (induction es arbitrary: st kws rule: rev_induct)
  case Nil
  then show ?case by (auto simp: start_state_def)
next
  case (snoc e es)
  obtain st0 kws0 where 0: "foldl reduce_event (start_state lm sid n, []) es = (st0, kws0)" by force
  have IH: "rs_LogicalMessageID st0 = lm" "rs_SnapshotID st0 = sid" "rs_RevisionCount st0 = n"
    "rs_Version st0 = (case latest version_assigned es of None \<Rightarrow> [] | Some v \<Rightarrow> v)"
    "rs_MailboxIDs st0 = latest (\<lambda>e. rv_MailboxIDs (sv_Record e)) es"
    "rs_DeletePending st0 = (latest (\<lambda>e. rv_DeletePending (sv_Record e)) es = Some True)"
    "rs_Tombstone st0 = (\<exists>e \<in> set es. rv_Tombstone (sv_Record e))"
    "rs_Height st0 = foldl max 0 (map ev_height es)"
    "distinct (keys kws0)" "\<And>k. map_of kws0 k = latest (keyword_assigned k) es"
    using snoc.IH[OF 0] snoc.prems(2) by simp_all
  have step: "(st, kws) = reduce_event (st0, kws0) e" using snoc.prems(1) 0 by simp
  have ids: "rv_MailboxIDs (sv_Record e) \<noteq> Some []" using snoc.prems(2) by simp
  have kws: "kws = foldl (\<lambda>m k. AList.update (ka_Name k) (ka_Present k) m) kws0 (elems (rv_Keywords (sv_Record e)))"
    using step by (simp add: reduce_event_def Let_def)
  have "rs_MailboxIDs st = latest (\<lambda>e. rv_MailboxIDs (sv_Record e)) (es @ [e])"
    using step ids IH(5) by (cases "rv_MailboxIDs (sv_Record e)"; cases "rs_MailboxIDs st0")
      (auto simp: reduce_event_def Let_def refill_def copy_nil_def split: option.splits)
  moreover have "rs_DeletePending st = (latest (\<lambda>e. rv_DeletePending (sv_Record e)) (es @ [e]) = Some True)"
    using step IH(6) by (cases "rv_DeletePending (sv_Record e)") (auto simp: reduce_event_def Let_def)
  moreover have "rs_Version st = (case latest version_assigned (es @ [e]) of None \<Rightarrow> [] | Some v \<Rightarrow> v)"
    using step IH(4) by (simp add: reduce_event_def Let_def version_assigned_def)
  moreover have "distinct (keys kws) \<and> (\<forall>k. map_of kws k = latest (keyword_assigned k) (es @ [e]))"
    using IH(9,10) unfolding kws
    by (auto simp: keyword_fold keyword_fold_distinct keyword_assigned_def split: option.split)
  moreover have "rs_LogicalMessageID st = lm" "rs_SnapshotID st = sid" "rs_RevisionCount st = n"
    "rs_Tombstone st = (\<exists>x \<in> set (es @ [e]). rv_Tombstone (sv_Record x))"
    "rs_Height st = foldl max 0 (map ev_height (es @ [e]))"
    using step IH(1-3,7,8) by (auto simp: reduce_event_def Let_def)
  ultimately show ?case by blast
qed

section \<open>What is known of every accepted revision\<close>

lemma validateRevisionD:
  assumes "validateRevision sx did lm e i = Inr ()"
  shows "rv_Type (sv_Record e) = MessageStateRevisionCollection" "rv_LogicalMessageID (sv_Record e) = lm"
    "StateRevisionRKey sx did (sv_Record e) = Inr (sv_RKey e)"
    "rv_Parents (sv_Record e) \<noteq> None" "ev_height e \<noteq> 0" "ev_height e \<le> maxPortableRevision"
    "sorted_wrt (<) (ev_parents e)" "rv_MailboxIDs (sv_Record e) \<noteq> Some []"
    "rv_Tombstone (sv_Record e) \<Longrightarrow> \<not> hasLiveAssignments (sv_Record e)"
    "rv_Version (sv_Record e) \<noteq> [] \<Longrightarrow> map_of (vs_versions i) (rv_Version (sv_Record e)) = Some lm"
  using assms
  by (auto simp: validateRevision_def Let_def strictlySortedUnique_iff split: if_splits sum.splits)

lemma event_checkedD:
  assumes "reducible sx did lm i es" and "e \<in> set es"
  shows "validateRevision sx did lm e i = Inr ()"
proof -
  have "check_claimed sx did lm i e = Inr ()" using assms by (simp add: reducible_def admitted_def event_fine_def)
  then show ?thesis by (auto simp: check_claimed_def split: sum.splits)
qed

lemma reducible_heights:
  assumes "reducible sx did lm i es" and "e \<in> set es" and "ev_parents e \<noteq> []"
  shows "\<exists>p \<in> set es. parent_in sv_RKey ev_parents es p e \<and> ev_height e = ev_height p + 1"
proof -
  have "admitted sv_RKey ev_operation ev_parents ev_height revision_size (check_claimed sx did lm i) initial_ok es"
    using assms(1) by (simp add: reducible_def)
  from admitted_heights[OF this assms(2,3)] validateRevisionD(5)[OF event_checkedD[OF assms(1)]] assms(2)
  show ?thesis by (auto simp: parent_in_def)
qed

section \<open>What a reduced state says\<close>

lemma Reduce_registers:
  assumes "Reduce sx did lm es i = Inr st"
  defines "ord \<equiv> event_order ev_height ev_operation es"
  shows "rs_LogicalMessageID st = lm" "rs_SnapshotID st = vs_snapshotID i" "rs_RevisionCount st = length es"
    "rs_Version st = (case latest version_assigned ord of None \<Rightarrow> [] | Some v \<Rightarrow> v)"
    "rs_MailboxIDs st = latest (\<lambda>e. rv_MailboxIDs (sv_Record e)) ord"
    "rs_Tombstone st = (\<exists>e \<in> set es. rv_Tombstone (sv_Record e))"
    "rs_DeletePending st = (\<not> rs_Tombstone st \<and> latest (\<lambda>e. rv_DeletePending (sv_Record e)) ord = Some True)"
    "set (elems (rs_Keywords st)) = {k. latest (keyword_assigned k) ord = Some True}"
    "sorted_wrt (<) (elems (rs_Keywords st))"
    "rs_Heads st = heads_of sv_RKey (concat (rev (map ev_parents es))) ord"
    "rs_Height st = foldl max 0 (map ev_height ord)"
    "\<not> rs_Tombstone st \<Longrightarrow> \<forall>f \<in> set (elems (rs_MailboxIDs st)). live_folder i f"
    "rs_HeadsDigest st = digestStringList (''comail-message-state-heads-v1'' @ [CHR 0x00]) (rs_Heads st)"
    "rs_StateDigest st = digestReducedState st"
proof -
  obtain st0 kws where fold: "foldl reduce_event (start_state lm (vs_snapshotID i) (length ord), []) ord = (st0, kws)" by force
  have red: "reducible sx did lm i es" and fin: "finish_reduce lm i (concat (rev (map ev_parents es))) ord = Inr st"
    using assms by (auto simp: Reduce_iff)
  have "\<And>e. e \<in> set ord \<Longrightarrow> rv_MailboxIDs (sv_Record e) \<noteq> Some []"
    using validateRevisionD(8)[OF event_checkedD[OF red]] by (simp add: ord_def)
  note regs = reduce_fold[OF fold this]
  have dk: "distinct (keys kws)" using regs by simp
  have "set (map fst (filter snd kws)) = {k. (k, True) \<in> set kws}" by force
  then have "set (map fst (filter snd kws)) = {k. map_of kws k = Some True}"
    by (simp only: map_of_eq_Some_iff[OF dk])
  moreover have "distinct (map fst (filter snd kws))"
    using dk by (rule distinct_map_filter)
  ultimately have kw: "set (elems (copy_nil (sortUTF8 (map fst (filter snd kws))))) = {k. latest (keyword_assigned k) ord = Some True}"
    "sorted_wrt (<) (elems (copy_nil (sortUTF8 (map fst (filter snd kws)))))"
    using regs by (simp_all add: strict_sorted_iff)
  have dig: "digestReducedState (x\<lparr>rs_StateDigest := d\<rparr>) = digestReducedState x" for x :: ReducedState and d
    by (simp add: digestReducedState_def reduced_preimage_def)
  note out = fin[unfolded finish_reduce_def fold prod.case Let_def]
  have live: "rs_Tombstone st0 \<or> (\<forall>f \<in> set (elems (rs_MailboxIDs st0)). live_folder i f)"
    using out by (auto simp: list_ex_iff split: if_splits)
  have st: "st = (let st1 = (if rs_Tombstone st0 then st0\<lparr>rs_DeletePending := False\<rparr> else st0);
      st3 = st1\<lparr>rs_Keywords := copy_nil (sortUTF8 (map fst (filter snd kws))),
        rs_Heads := heads_of sv_RKey (concat (rev (map ev_parents es))) ord\<rparr>;
      st4 = st3\<lparr>rs_HeadsDigest := digestStringList (''comail-message-state-heads-v1'' @ [CHR 0x00]) (rs_Heads st3)\<rparr>
      in st4\<lparr>rs_StateDigest := digestReducedState st4\<rparr>)"
    using out by (auto simp: Let_def split: if_splits)
  have len: "length ord = length es" "set ord = set es" by (simp_all add: ord_def)
  show "rs_LogicalMessageID st = lm" "rs_SnapshotID st = vs_snapshotID i" "rs_RevisionCount st = length es"
    "rs_Version st = (case latest version_assigned ord of None \<Rightarrow> [] | Some v \<Rightarrow> v)"
    "rs_MailboxIDs st = latest (\<lambda>e. rv_MailboxIDs (sv_Record e)) ord"
    "rs_Tombstone st = (\<exists>e \<in> set es. rv_Tombstone (sv_Record e))"
    "rs_DeletePending st = (\<not> rs_Tombstone st \<and> latest (\<lambda>e. rv_DeletePending (sv_Record e)) ord = Some True)"
    "set (elems (rs_Keywords st)) = {k. latest (keyword_assigned k) ord = Some True}"
    "sorted_wrt (<) (elems (rs_Keywords st))"
    "rs_Heads st = heads_of sv_RKey (concat (rev (map ev_parents es))) ord"
    "rs_Height st = foldl max 0 (map ev_height ord)"
    "\<not> rs_Tombstone st \<Longrightarrow> \<forall>f \<in> set (elems (rs_MailboxIDs st)). live_folder i f"
    "rs_HeadsDigest st = digestStringList (''comail-message-state-heads-v1'' @ [CHR 0x00]) (rs_Heads st)"
    "rs_StateDigest st = digestReducedState st"
    unfolding st Let_def using regs kw live len by (auto simp: dig split: if_splits)
qed

section \<open>Keys and digests are commitments\<close>

interpretation kw: framed encode_keyword
proof unfold_locales
  fix x y :: KeywordAssignment and r s
  assume "encode_keyword x @ r = encode_keyword y @ s"
  then show "x = y \<and> r = s" by (simp add: encode_keyword_def str.frame_iff flag.frame_iff)
qed

interpretation kws: framed encode_keywords
proof unfold_locales
  fix x y :: "KeywordAssignment list" and r s
  assume "encode_keywords x @ r = encode_keywords y @ s"
  then show "x = y \<and> r = s" unfolding encode_keywords_def append_assoc len.frame_iff by (blast dest: kw.frame_concat)
qed

interpretation boxes: framed encode_mailboxes
proof unfold_locales
  fix x y :: "bytes slice" and r s
  assume "encode_mailboxes x @ r = encode_mailboxes y @ s"
  then show "x = y \<and> r = s"
    by (cases x; cases y) (auto simp: encode_mailboxes_def cw_byte_def strs.frame_iff)
qed

interpretation pending: framed encode_pending
proof unfold_locales
  fix x y :: "bool option" and r s
  assume "encode_pending x @ r = encode_pending y @ s"
  then show "x = y \<and> r = s"
    by (cases x; cases y) (auto simp: encode_pending_def cw_byte_def split: if_splits)
qed

text \<open>Two records that differ at most in how an empty list of parents or keywords is represented.\<close>

definition same_revision :: "RevisionRecord \<Rightarrow> RevisionRecord \<Rightarrow> bool" where
  "same_revision r r' \<longleftrightarrow> elems (rv_Parents r) = elems (rv_Parents r') \<and> elems (rv_Keywords r) = elems (rv_Keywords r')
     \<and> r\<lparr>rv_Parents := None, rv_Keywords := None\<rparr> = r'\<lparr>rv_Parents := None, rv_Keywords := None\<rparr>"

lemma encode_revision_inj: "encode_revision r = encode_revision r' \<longleftrightarrow> same_revision r r'"
  by (cases r; cases r')
    (auto simp: encode_revision_def same_revision_def str.frame_iff strs.frame_iff u64.frame_iff boxes.frame_iff
      kws.frame_iff pending.frame_iff flag.frame_iff str.frame_inj)

lemma CanonicalRevisionBytes_Inr: "CanonicalRevisionBytes r = Inr b \<Longrightarrow> b = encode_revision r \<and> length b \<le> maxRevisionRecordBytes"
  by (auto simp: CanonicalRevisionBytes_def split: if_splits sum.splits)

lemma StateRevisionRKey_Inr:
  assumes "StateRevisionRKey sx did r = Inr k"
  shows "k = ''state-'' @ hex_encode (sha256 (state_rkey_preimage did (encode_revision r)))" and "validCanonicalDID sx did"
  using assms by (auto simp: StateRevisionRKey_def dest: CanonicalRevisionBytes_Inr split: if_splits sum.splits)

lemma state_rkey_preimage_inj:
  assumes "CHR 0x00 \<notin> set d" and "CHR 0x00 \<notin> set d'"
  shows "state_rkey_preimage d x = state_rkey_preimage d' y \<longleftrightarrow> d = d' \<and> x = y"
  using assms by (simp add: state_rkey_preimage_def terminated_inj)

lemma reduced_preimage_inj:
  "reduced_preimage s = reduced_preimage t \<longleftrightarrow>
     rs_LogicalMessageID s = rs_LogicalMessageID t \<and> rs_Version s = rs_Version t
     \<and> elems (rs_MailboxIDs s) = elems (rs_MailboxIDs t) \<and> elems (rs_Keywords s) = elems (rs_Keywords t)
     \<and> rs_DeletePending s = rs_DeletePending t \<and> rs_Tombstone s = rs_Tombstone t \<and> rs_Heads s = rs_Heads t
     \<and> rs_HeadsDigest s = rs_HeadsDigest t \<and> rs_Height s = rs_Height t \<and> rs_RevisionCount s = rs_RevisionCount t"
  by (simp add: reduced_preimage_def str.frame_iff strs.frame_iff flag.frame_iff u64.frame_iff len.frame_inj)

lemma finish_ok:
  assumes "foldl reduce_event (start_state lm (vs_snapshotID i) (length es), []) es = (st, kws)"
    and "rs_Tombstone st \<or> list_all (live_folder i) (elems (rs_MailboxIDs st))"
  shows "\<exists>st'. finish_reduce lm i P es = Inr st'"
  using assms by (auto simp: finish_reduce_def Let_def list_ex_iff list_all_iff)

section \<open>A small inventory\<close>

text \<open>The first revision of a message, with everything its snapshot has to contain.\<close>

definition demo_message :: bytes where "demo_message = digestBytes ''m''"
definition demo_version :: bytes where "demo_version = digestBytes ''v''"
definition demo_box :: bytes where "demo_box = FolderRKey ''INBOX''"

definition demo_revision :: RevisionRecord where
  "demo_revision = \<lparr>rv_Type = MessageStateRevisionCollection, rv_LogicalMessageID = demo_message, rv_OperationID = ''op1'',
     rv_Parents = Some [], rv_Revision = 1, rv_Version = demo_version, rv_MailboxIDs = Some [demo_box],
     rv_Keywords = Some [\<lparr>ka_Name = ''$seen'', ka_Present = True\<rparr>], rv_DeletePending = None, rv_Tombstone = False,
     rv_Merge = False, rv_CreatedAt = ''2026-07-01T12:30:45Z''\<rparr>"

definition demo_event :: StateRevision where
  "demo_event = \<lparr>sv_RKey = ''state-'' @ hex_encode (sha256 (state_rkey_preimage ''did:a'' (encode_revision demo_revision))),
     sv_Record = demo_revision\<rparr>"

definition demo_claim_key :: bytes where
  "demo_claim_key = ''operation-'' @ hex_encode (sha256 (claim_rkey_preimage ''did:a'' demo_message ''op1''))"

definition demo_unsealed :: VerifiedSnapshot where
  "demo_unsealed = \<lparr>vs_snapshotID = ''snap'', vs_logicalMessageID = demo_message, vs_revisionCount = 1,
     vs_operationClaims = [(demo_claim_key, sv_RKey demo_event)], vs_versions = [(demo_version, demo_message)],
     vs_folders = [(demo_box, \<lparr>vf_stateDigest = digestBytes ''f'', vf_tombstone = False\<rparr>)], vs_seal = []\<rparr>"

definition demo_snapshot :: VerifiedSnapshot where
  "demo_snapshot = demo_unsealed\<lparr>vs_seal := snapshotSeal demo_unsealed\<rparr>"

lemma demo_lengths: "length demo_message = 71" "length demo_version = 71" "length demo_box = 71"
  by (simp_all add: demo_message_def demo_version_def demo_box_def digestBytes_def FolderRKey_def)

lemma demo_identifiers:
  "validSHA256Identifier demo_message" "validSHA256Identifier demo_version" "validFolderID demo_box"
  "utf8_valid demo_message" "utf8_valid demo_version" "utf8_valid demo_box" "demo_version \<noteq> []"
  "validIdentifier demo_box maxIdentifierBytes" "validIdentifier ''op1'' maxOperationIDBytes"
  "validCanonicalDID plain_syntax ''did:a''"
proof -
  show "validSHA256Identifier demo_message" "validSHA256Identifier demo_version" "validFolderID demo_box"
    "utf8_valid demo_message" "utf8_valid demo_version" "utf8_valid demo_box"
    by (simp_all add: demo_message_def demo_version_def demo_box_def printable_utf8 digestBytes_printable
        FolderRKey_printable FolderRKey_valid)
  show "demo_version \<noteq> []" using demo_lengths(2) by auto
  show "validIdentifier demo_box maxIdentifierBytes"
    using demo_lengths(3) by (intro printable_identifier) (auto simp: demo_box_def FolderRKey_printable maxIdentifierBytes_def)
  show "validIdentifier ''op1'' maxOperationIDBytes" "validCanonicalDID plain_syntax ''did:a''" by code_simp+
qed

lemma uvarint_small: "n < 128 \<Longrightarrow> length (uvarint n) = 1"
  by (subst uvarint.simps) simp

lemma demo_encoded: "CanonicalRevisionBytes demo_revision = Inr (encode_revision demo_revision)"
proof -
  have "length (encode_revision demo_revision) \<le> maxRevisionRecordBytes"
    by (simp add: encode_revision_def demo_revision_def revision_prefix_def cw_string_def cw_strings_def cw_len_def cw_uint64_def
        encode_mailboxes_def encode_keywords_def encode_keyword_def encode_pending_def cw_byte_def cw_boolean_def
        demo_lengths uvarint_small MessageStateRevisionCollection_def maxRevisionRecordBytes_def)
  then show ?thesis
    using demo_identifiers(4-6)
    by (simp add: CanonicalRevisionBytes_def) (simp add: demo_revision_def demo_lengths maxIdentifierBytes_def
        maxOperationIDBytes_def maxParents_def maxMailboxes_def maxKeywords_def MessageStateRevisionCollection_def byte_def)
qed

lemma demo_key: "StateRevisionRKey plain_syntax ''did:a'' demo_revision = Inr (sv_RKey demo_event)"
  using demo_encoded demo_identifiers(1,9,10)
  by (simp add: StateRevisionRKey_def demo_event_def) (simp add: demo_revision_def)

lemma demo_valid: "validateRevision plain_syntax ''did:a'' demo_message demo_event demo_snapshot = Inr ()"
proof -
  have time: "parse_RFC3339Nano ''2026-07-01T12:30:45Z''" and keyword: "validText ''$seen'' 255" by code_simp+
  have rec: "sv_Record demo_event = demo_revision" by (simp add: demo_event_def)
  have maps: "map_of (vs_versions demo_snapshot) demo_version = Some demo_message"
    "map_of (vs_folders demo_snapshot) demo_box = Some \<lparr>vf_stateDigest = digestBytes ''f'', vf_tombstone = False\<rparr>"
    by (simp_all add: demo_snapshot_def demo_unsealed_def)
  show ?thesis
    unfolding validateRevision_def Let_def rec demo_key
    using demo_identifiers time keyword maps
    by (simp add: demo_revision_def strictlySortedUnique_def hasLiveAssignments_def maxPortableRevision_def maxParents_def
        maxMailboxes_def maxKeywords_def)
qed

lemma demo_reducible: "reducible plain_syntax ''did:a'' demo_message demo_snapshot [demo_event]"
proof -
  have rec: "sv_Record demo_event = demo_revision" by (simp add: demo_event_def)
  have seal: "snapshotSeal demo_snapshot = vs_seal demo_snapshot"
    by (simp add: demo_snapshot_def snapshotSeal_def snapshot_preimage_def)
  have "validIdentifier ''snap'' maxIdentifierBytes" by code_simp
  then have "validFor demo_snapshot demo_message 1"
    by (simp add: validFor_def seal) (simp add: demo_snapshot_def demo_unsealed_def)
  moreover have "NewOperationClaim plain_syntax ''did:a'' demo_event = Inr \<lparr>cl_RKey = demo_claim_key, cl_Record =
      \<lparr>oc_Type = MessageStateOperationCollection, oc_LogicalMessageID = demo_message, oc_OperationID = ''op1'',
       oc_RevisionRKey = sv_RKey demo_event\<rparr>\<rparr>"
    using demo_key demo_identifiers(1,9,10)
    by (simp add: NewOperationClaim_def rec OperationClaimRKey_def demo_claim_key_def) (simp add: demo_revision_def)
  moreover have "map_of (vs_operationClaims demo_snapshot) demo_claim_key = Some (sv_RKey demo_event)"
    by (simp add: demo_snapshot_def demo_unsealed_def)
  ultimately have check: "check_claimed plain_syntax ''did:a'' demo_message demo_snapshot demo_event = Inr ()"
    using demo_valid by (simp add: check_claimed_def)
  have size: "revision_size demo_event = Inr (length (encode_revision demo_revision))"
    "length (encode_revision demo_revision) \<le> maxRevisionInventoryBytes"
    using CanonicalRevisionBytes_Inr[OF demo_encoded]
    by (simp_all add: revision_size_def rec demo_encoded maxRevisionInventoryBytes_def maxRevisionRecordBytes_def)
  have "admitted sv_RKey ev_operation ev_parents ev_height revision_size (check_claimed plain_syntax ''did:a'' demo_message demo_snapshot)
      initial_ok [demo_event]"
    using check size demo_identifiers(7)
    by (simp add: admitted_def event_fine_def size_of_def event_linked_def initial_ok_def rec) (simp add: demo_revision_def)
  then show ?thesis
    using demo_identifiers(1,10) \<open>validFor demo_snapshot demo_message 1\<close>
    by (simp add: reducible_def maxRevisionCount_def rec) (simp add: demo_revision_def)
qed

lemma demo_reduce:
  obtains st where "Reduce plain_syntax ''did:a'' demo_message [demo_event] demo_snapshot = Inr st"
proof -
  have rec: "sv_Record demo_event = demo_revision" by (simp add: demo_event_def)
  have ord: "event_order ev_height ev_operation [demo_event] = [demo_event]" by (simp add: event_order_def)
  have "live_folder demo_snapshot demo_box" by (simp add: live_folder_def demo_snapshot_def demo_unsealed_def)
  moreover obtain st0 kws where fold: "foldl reduce_event (start_state demo_message (vs_snapshotID demo_snapshot) (length [demo_event]), []) [demo_event]
      = (st0, kws)" by force
  moreover have "rs_MailboxIDs st0 = Some [demo_box]"
    using reduce_fold[OF fold] by (simp add: rec latest_def) (simp add: demo_revision_def)
  ultimately obtain st where "finish_reduce demo_message demo_snapshot [] [demo_event] = Inr st"
    using finish_ok[OF fold] by auto
  moreover have "\<exists>fl. tombstone_walk sv_RKey ev_parents (\<lambda>e. rv_Tombstone (sv_Record e)) (\<lambda>e. hasLiveAssignments (sv_Record e)) []
      [demo_event] = Inr fl" by (simp add: rec) (simp add: demo_revision_def)
  ultimately show thesis
    using demo_reducible that[of st] by (auto simp: Reduce_iff ord rec demo_revision_def)
qed

section \<open>Properties\<close>

text \<open>C31. The reducer converges: whether an inventory is accepted, and the state it is reduced to,
  does not depend on the order in which the revisions are listed.\<close>

theorem Reduce_order_independent:
  assumes "mset es = mset es'"
  shows "Reduce sx did lm es i = Inr st \<longleftrightarrow> Reduce sx did lm es' i = Inr st"
  using Reduce_perm[OF assms] Reduce_perm[OF assms[symmetric]] by blast

theorem Reduce_order_independent_witness:
  "\<exists>st. Reduce plain_syntax ''did:a'' demo_message [demo_event] demo_snapshot = Inr st
    \<and> Reduce plain_syntax ''did:a'' demo_message (rev [demo_event]) demo_snapshot = Inr st"
proof -
  obtain st where st: "Reduce plain_syntax ''did:a'' demo_message [demo_event] demo_snapshot = Inr st" by (rule demo_reduce)
  have "mset [demo_event] = mset (rev [demo_event])" by simp
  from Reduce_order_independent[OF this, of plain_syntax "''did:a''" demo_message demo_snapshot st] st show ?thesis by blast
qed

text \<open>C32. What a reduced state says. The message is deleted if and only if some revision deletes
  it, and then nothing is pending. Otherwise every folder is live in the snapshot. Version,
  folders and the pending mark are those of the last revision, by height and then operation,
  that assigns them; a keyword is present if and only if its own last assignment says so; the
  keywords are strictly sorted.\<close>

theorem Reduce_meaning:
  assumes "Reduce sx did lm es i = Inr st"
  shows "(rs_Tombstone st \<longleftrightarrow> (\<exists>e \<in> set es. rv_Tombstone (sv_Record e)))
    \<and> (rs_DeletePending st \<longleftrightarrow> \<not> rs_Tombstone st
         \<and> latest (\<lambda>e. rv_DeletePending (sv_Record e)) (event_order ev_height ev_operation es) = Some True)
    \<and> rs_Version st = (case latest version_assigned (event_order ev_height ev_operation es) of None \<Rightarrow> [] | Some v \<Rightarrow> v)
    \<and> rs_MailboxIDs st = latest (\<lambda>e. rv_MailboxIDs (sv_Record e)) (event_order ev_height ev_operation es)
    \<and> (rs_Tombstone st \<or> (\<forall>f \<in> set (elems (rs_MailboxIDs st)). live_folder i f))
    \<and> set (elems (rs_Keywords st)) = {k. latest (keyword_assigned k) (event_order ev_height ev_operation es) = Some True}
    \<and> sorted_wrt (<) (elems (rs_Keywords st))"
  using Reduce_registers[OF assms] by (intro conjI) auto

theorem Reduce_meaning_witness:
  "\<exists>st. Reduce plain_syntax ''did:a'' demo_message [demo_event] demo_snapshot = Inr st
    \<and> \<not> rs_Tombstone st \<and> rs_MailboxIDs st = Some [demo_box] \<and> rs_Version st = demo_version
    \<and> ''$seen'' \<in> set (elems (rs_Keywords st))"
proof -
  obtain st where st: "Reduce plain_syntax ''did:a'' demo_message [demo_event] demo_snapshot = Inr st" by (rule demo_reduce)
  have rec: "sv_Record demo_event = demo_revision" by (simp add: demo_event_def)
  have ord: "event_order ev_height ev_operation [demo_event] = [demo_event]" by (simp add: event_order_def)
  from Reduce_meaning[OF st] demo_identifiers(7)
  have "\<not> rs_Tombstone st" "rs_MailboxIDs st = Some [demo_box]" "rs_Version st = demo_version"
    "''$seen'' \<in> set (elems (rs_Keywords st))"
    by (simp_all add: ord latest_def rec version_assigned_def keyword_assigned_def) (simp_all add: demo_revision_def)
  with st show ?thesis by blast
qed

text \<open>C33. Accepted histories are causal. There is one first revision and every revision descends
  from it; a revision with parents is exactly one higher than its highest parent, all its
  parents are lower, and no revision is its own ancestor; no revision that assigns
  anything has a deletion among its ancestors, however far back.\<close>

theorem Reduce_causal:
  assumes "Reduce sx did lm es i = Inr st"
  shows "(\<exists>r \<in> set es. ev_parents r = [] \<and> (\<forall>e \<in> set es. (parent_in sv_RKey ev_parents es)\<^sup>*\<^sup>* r e))
    \<and> (\<forall>e \<in> set es. ev_parents e \<noteq> [] \<longrightarrow>
         (\<exists>p \<in> set es. parent_in sv_RKey ev_parents es p e \<and> ev_height e = ev_height p + 1))
    \<and> (\<forall>p e. parent_in sv_RKey ev_parents es p e \<longrightarrow> ev_height p < ev_height e)
    \<and> (\<forall>e. \<not> (parent_in sv_RKey ev_parents es)\<^sup>+\<^sup>+ e e)
    \<and> (\<forall>e \<in> set es. hasLiveAssignments (sv_Record e) \<longrightarrow>
         \<not> (\<exists>a. (parent_in sv_RKey ev_parents es)\<^sup>+\<^sup>+ a e \<and> rv_Tombstone (sv_Record a)))"
proof -
  from assms have red: "reducible sx did lm i es"
    and walk: "\<exists>fl. tombstone_walk sv_RKey ev_parents (\<lambda>e. rv_Tombstone (sv_Record e)) (\<lambda>e. hasLiveAssignments (sv_Record e)) []
      (event_order ev_height ev_operation es) = Inr fl" by (auto simp: Reduce_iff)
  note parts = log.descends_from_root[OF red] reducible_heights[OF red] log.parent_lower[OF red] log.acyclic[OF red]
    walk[unfolded log.walk_accepts[OF red]]
  show ?thesis
    by (intro conjI ballI allI impI) (use parts in blast)+
qed

theorem Reduce_causal_witness:
  "\<exists>st. Reduce plain_syntax ''did:a'' demo_message [demo_event] demo_snapshot = Inr st
    \<and> (\<exists>r \<in> set [demo_event]. ev_parents r = []) \<and> \<not> (parent_in sv_RKey ev_parents [demo_event])\<^sup>+\<^sup>+ demo_event demo_event"
proof -
  obtain st where st: "Reduce plain_syntax ''did:a'' demo_message [demo_event] demo_snapshot = Inr st" by (rule demo_reduce)
  from Reduce_causal[OF st] st show ?thesis by blast
qed

text \<open>The heads of a reduced state are exactly the keys of the revisions that are nobody's
  parent, strictly sorted and never empty, and every revision leads up to a head: nothing
  in the inventory is unaccounted for by its heads.\<close>

theorem Reduce_heads:
  assumes "Reduce sx did lm es i = Inr st"
  shows "set (rs_Heads st) = {sv_RKey h | h. h \<in> set es \<and> (\<forall>c \<in> set es. sv_RKey h \<notin> set (ev_parents c))}
    \<and> rs_Heads st \<noteq> [] \<and> sorted_wrt (<) (rs_Heads st)
    \<and> (\<forall>e \<in> set es. \<exists>h \<in> set es. sv_RKey h \<in> set (rs_Heads st) \<and> (parent_in sv_RKey ev_parents es)\<^sup>*\<^sup>* e h)"
proof -
  from assms have red: "reducible sx did lm i es" by (simp add: Reduce_iff)
  note heads = Reduce_registers(10)[OF assms] log.heads_spec[of es]
  have "\<exists>h \<in> set es. sv_RKey h \<in> set (rs_Heads st) \<and> (parent_in sv_RKey ev_parents es)\<^sup>*\<^sup>* e h" if "e \<in> set es" for e
    using log.reaches_head[OF red that] unfolding heads by blast
  with heads log.heads_nonempty[OF red] log.heads_sorted[OF red] show ?thesis by auto
qed

theorem Reduce_heads_witness:
  "\<exists>st. Reduce plain_syntax ''did:a'' demo_message [demo_event] demo_snapshot = Inr st \<and> rs_Heads st = [sv_RKey demo_event]"
proof -
  obtain st where st: "Reduce plain_syntax ''did:a'' demo_message [demo_event] demo_snapshot = Inr st" by (rule demo_reduce)
  have "ev_parents demo_event = []" by (simp add: demo_event_def demo_revision_def)
  with Reduce_heads[OF st] have "set (rs_Heads st) = {sv_RKey demo_event}" "sorted_wrt (<) (rs_Heads st)" by auto
  then have "rs_Heads st = [sv_RKey demo_event]" by (cases "rs_Heads st"; cases "tl (rs_Heads st)") auto
  with st show ?thesis by blast
qed

text \<open>A revision key commits to the repository and to every field: two revisions with the same
  key belong to the same repository and agree in all fields (an empty list of parents or
  keywords may be nil in one of them), or SHA-256 collides on their two preimages.\<close>

theorem revision_key_commits:
  assumes "StateRevisionRKey sx did r = Inr k" and "StateRevisionRKey sx did' r' = Inr k" and "syntax_laws sx"
  shows "(did = did' \<and> same_revision r r')
    \<or> (state_rkey_preimage did (encode_revision r) \<noteq> state_rkey_preimage did' (encode_revision r')
        \<and> sha256 (state_rkey_preimage did (encode_revision r)) = sha256 (state_rkey_preimage did' (encode_revision r')))"
proof -
  note keys = StateRevisionRKey_Inr[OF assms(1)] StateRevisionRKey_Inr[OF assms(2)]
  have "CHR 0x00 \<notin> set did" "CHR 0x00 \<notin> set did'"
    using keys(2,4) assms(3) by (auto simp: validCanonicalDID_def syntax_laws_def)
  from state_rkey_preimage_inj[OF this] keys(1,3) show ?thesis by (auto simp: hex_encode_inj encode_revision_inj)
qed

theorem revision_key_commits_witness:
  "\<exists>k. StateRevisionRKey plain_syntax ''did:a'' demo_revision = Inr k \<and> same_revision demo_revision demo_revision
    \<and> StateRevisionRKey plain_syntax ''did:a'' (demo_revision\<lparr>rv_Tombstone := False\<rparr>) = Inr k"
proof -
  have same: "demo_revision\<lparr>rv_Tombstone := False\<rparr> = demo_revision" by (simp add: demo_revision_def)
  from revision_key_commits[OF demo_key demo_key plain_syntax_laws] demo_key same show ?thesis by auto
qed

text \<open>A state digest commits to the reduced state: two reduced states with the same digest agree
  in message, version, folders, keywords, marks, heads, height and number of revisions,
  or SHA-256 collides on their two preimages.\<close>

theorem state_digest_commits:
  assumes "Reduce sx did lm es i = Inr st" and "Reduce sx' did' lm' es' i' = Inr st'"
    and "rs_StateDigest st = rs_StateDigest st'"
  shows "(rs_LogicalMessageID st = rs_LogicalMessageID st' \<and> rs_Version st = rs_Version st'
      \<and> elems (rs_MailboxIDs st) = elems (rs_MailboxIDs st') \<and> elems (rs_Keywords st) = elems (rs_Keywords st')
      \<and> rs_DeletePending st = rs_DeletePending st' \<and> rs_Tombstone st = rs_Tombstone st' \<and> rs_Heads st = rs_Heads st'
      \<and> rs_Height st = rs_Height st' \<and> rs_RevisionCount st = rs_RevisionCount st')
    \<or> (reduced_preimage st \<noteq> reduced_preimage st' \<and> sha256 (reduced_preimage st) = sha256 (reduced_preimage st'))"
  using Reduce_registers(14)[OF assms(1)] Reduce_registers(14)[OF assms(2)] assms(3) reduced_preimage_inj[of st st']
  by (auto simp: digestReducedState_def digestBytes_eq)

theorem state_digest_commits_witness:
  "\<exists>st. Reduce plain_syntax ''did:a'' demo_message [demo_event] demo_snapshot = Inr st
    \<and> (elems (rs_Keywords st) = elems (rs_Keywords st) \<or> reduced_preimage st \<noteq> reduced_preimage st)"
proof -
  obtain st where st: "Reduce plain_syntax ''did:a'' demo_message [demo_event] demo_snapshot = Inr st" by (rule demo_reduce)
  from state_digest_commits[OF st st] st show ?thesis by blast
qed

end
