(* ===== verification/Folder_Revision.thy ===== *)
theory Folder_Revision
  imports Revision
begin

text \<open>
  Package \<^verbatim>\<open>mailboxstate\<close>, file \<^verbatim>\<open>folder_revision.go\<close>: append-only revisions of one folder,
  their claims and keys, the reducer \<^verbatim>\<open>ReduceFolder\<close>, and \<^verbatim>\<open>ValidateFolderSet\<close>, which checks
  the reduced folders of a whole mailbox against each other. The loops over the log are
  those of \<open>Causal_Log\<close>. Case folding follows the orbits of \<^verbatim>\<open>unicode.SimpleFold\<close>, whose tables
  are a parameter.
\<close>

section \<open>Records\<close>

record FolderRevisionRecord =
  fvr_Type :: bytes
  fvr_FolderID :: bytes
  fvr_OperationID :: bytes
  fvr_Parents :: "bytes slice"
  fvr_Revision :: u64
  fvr_Name :: bytes
  fvr_Role :: bytes
  fvr_Tombstone :: bool
  fvr_Merge :: bool
  fvr_CreatedAt :: bytes

record FolderStateRevision =
  fv_RKey :: bytes
  fv_Record :: FolderRevisionRecord

record FolderOperationClaimRecord =
  fo_Type :: bytes
  fo_FolderID :: bytes
  fo_OperationID :: bytes
  fo_RevisionRKey :: bytes

record FolderOperationClaim =
  fc_RKey :: bytes
  fc_Record :: FolderOperationClaimRecord

record VerifiedFolderSnapshot =
  fs_snapshotID :: bytes
  fs_folderID :: bytes
  fs_revisionCount :: nat
  fs_operationClaims :: "bytes gomap"
  fs_seal :: bytes

record VerifiedFolderSetSnapshot =
  ss_snapshotID :: bytes
  ss_repoDID :: bytes
  ss_folderCount :: nat
  ss_stateDigests :: "bytes gomap"
  ss_seal :: bytes

record ReducedFolderState =
  rf_FolderID :: bytes
  rf_SnapshotID :: bytes
  rf_Name :: bytes
  rf_Role :: bytes
  rf_Tombstone :: bool
  rf_Heads :: "bytes list"
  rf_HeadsDigest :: bytes
  rf_StateDigest :: bytes
  rf_Height :: u64
  rf_RevisionCount :: nat

definition maxFolderCount :: nat where "maxFolderCount = 4096"

text \<open>The standard folders: role and display name.\<close>

definition standardFolderNames :: "bytes gomap" where
  "standardFolderNames = [(''inbox'', ''Inbox''), (''archive'', ''Archive''), (''drafts'', ''Drafts''), (''sent'', ''Sent''),
     (''junk'', ''Junk''), (''trash'', ''Trash''), (''important'', ''Important'')]"

definition standardFolderRoles :: "bytes list" where
  "standardFolderRoles = [''inbox'', ''archive'', ''drafts'', ''sent'', ''junk'', ''trash'', ''important'']"

section \<open>Wire decoders\<close>

definition zero_FolderRevisionRecord :: FolderRevisionRecord where
  "zero_FolderRevisionRecord = \<lparr>fvr_Type = [], fvr_FolderID = [], fvr_OperationID = [], fvr_Parents = None, fvr_Revision = 0,
     fvr_Name = [], fvr_Role = [], fvr_Tombstone = False, fvr_Merge = False, fvr_CreatedAt = []\<rparr>"

definition folder_revision_fields :: "bytes list" where
  "folder_revision_fields = [''$type'', ''folderId'', ''operationId'', ''parents'', ''revision'', ''name'', ''role'',
     ''tombstone'', ''merge'', ''createdAt'']"

definition put_folder_revision :: "bytes \<Rightarrow> json \<Rightarrow> FolderRevisionRecord \<Rightarrow> FolderRevisionRecord option" where
  "put_folder_revision f v r =
     (if f = ''$type'' then map_option (\<lambda>x. r\<lparr>fvr_Type := x\<rparr>) (decode_string v (fvr_Type r))
      else if f = ''folderId'' then map_option (\<lambda>x. r\<lparr>fvr_FolderID := x\<rparr>) (decode_string v (fvr_FolderID r))
      else if f = ''operationId'' then map_option (\<lambda>x. r\<lparr>fvr_OperationID := x\<rparr>) (decode_string v (fvr_OperationID r))
      else if f = ''parents'' then map_option (\<lambda>x. r\<lparr>fvr_Parents := x\<rparr>) (decode_strings v)
      else if f = ''revision'' then map_option (\<lambda>x. r\<lparr>fvr_Revision := x\<rparr>) (decode_u64 v (fvr_Revision r))
      else if f = ''name'' then map_option (\<lambda>x. r\<lparr>fvr_Name := x\<rparr>) (decode_string v (fvr_Name r))
      else if f = ''role'' then map_option (\<lambda>x. r\<lparr>fvr_Role := x\<rparr>) (decode_string v (fvr_Role r))
      else if f = ''tombstone'' then map_option (\<lambda>x. r\<lparr>fvr_Tombstone := x\<rparr>) (decode_bool v (fvr_Tombstone r))
      else if f = ''merge'' then map_option (\<lambda>x. r\<lparr>fvr_Merge := x\<rparr>) (decode_bool v (fvr_Merge r))
      else map_option (\<lambda>x. r\<lparr>fvr_CreatedAt := x\<rparr>) (decode_string v (fvr_CreatedAt r)))"

definition DecodeFolderRevisionRecord :: "nat \<Rightarrow> json list \<Rightarrow> FolderRevisionRecord result" where
  "DecodeFolderRevisionRecord len docs = require_single len docs
     (\<lambda>j. decode_struct True folder_revision_fields put_folder_revision j zero_FolderRevisionRecord)"

definition zero_FolderOperationClaimRecord :: FolderOperationClaimRecord where
  "zero_FolderOperationClaimRecord = \<lparr>fo_Type = [], fo_FolderID = [], fo_OperationID = [], fo_RevisionRKey = []\<rparr>"

definition folder_claim_fields :: "bytes list" where
  "folder_claim_fields = [''$type'', ''folderId'', ''operationId'', ''revisionRkey'']"

definition put_folder_claim :: "bytes \<Rightarrow> json \<Rightarrow> FolderOperationClaimRecord \<Rightarrow> FolderOperationClaimRecord option" where
  "put_folder_claim f v r =
     (if f = ''$type'' then map_option (\<lambda>x. r\<lparr>fo_Type := x\<rparr>) (decode_string v (fo_Type r))
      else if f = ''folderId'' then map_option (\<lambda>x. r\<lparr>fo_FolderID := x\<rparr>) (decode_string v (fo_FolderID r))
      else if f = ''operationId'' then map_option (\<lambda>x. r\<lparr>fo_OperationID := x\<rparr>) (decode_string v (fo_OperationID r))
      else map_option (\<lambda>x. r\<lparr>fo_RevisionRKey := x\<rparr>) (decode_string v (fo_RevisionRKey r)))"

definition DecodeFolderOperationClaimRecord :: "nat \<Rightarrow> json list \<Rightarrow> FolderOperationClaimRecord result" where
  "DecodeFolderOperationClaimRecord len docs = require_single len docs
     (\<lambda>j. decode_struct True folder_claim_fields put_folder_claim j zero_FolderOperationClaimRecord)"

section \<open>Canonical form and keys\<close>

definition folder_revision_prefix :: bytes where
  "folder_revision_prefix = ''comail-folder-state-revision-canonical-v1'' @ [CHR 0x00]"

definition encode_folder_revision :: "FolderRevisionRecord \<Rightarrow> bytes" where
  "encode_folder_revision r =
     folder_revision_prefix @ cw_string (fvr_Type r) @ cw_string (fvr_FolderID r) @ cw_string (fvr_OperationID r)
     @ cw_strings (elems (fvr_Parents r)) @ cw_uint64 (fvr_Revision r) @ cw_string (fvr_Name r) @ cw_string (fvr_Role r)
     @ cw_boolean (fvr_Tombstone r) @ cw_boolean (fvr_Merge r) @ cw_string (fvr_CreatedAt r)"

definition CanonicalFolderRevisionBytes :: "FolderRevisionRecord \<Rightarrow> bytes result" where
  "CanonicalFolderRevisionBytes r =
     (if length (fvr_Type r) > maxIdentifierBytes \<or> length (fvr_FolderID r) > maxIdentifierBytes
        \<or> length (fvr_OperationID r) > maxOperationIDBytes \<or> length (elems (fvr_Parents r)) > maxParents
        \<or> length (fvr_Name r) > 255 \<or> length (fvr_Role r) > 64 \<or> length (fvr_CreatedAt r) > maxIdentifierBytes
      then Inl ErrResourceLimit
      else if list_ex (\<lambda>v. \<not> utf8_valid v)
        [fvr_Type r, fvr_FolderID r, fvr_OperationID r, fvr_Name r, fvr_Role r, fvr_CreatedAt r] then Inl ErrInvalidRevision
      else (case check_values maxIdentifierBytes (elems (fvr_Parents r)) of Inl e \<Rightarrow> Inl e | Inr _ \<Rightarrow>
        if length (encode_folder_revision r) > maxRevisionRecordBytes then Inl ErrResourceLimit
        else Inr (encode_folder_revision r)))"

definition folder_rkey_preimage :: "bytes \<Rightarrow> bytes \<Rightarrow> bytes" where
  "folder_rkey_preimage repoDID encoded =
     ''comail-folder-state-revision-rkey-v1'' @ [CHR 0x00] @ repoDID @ [CHR 0x00] @ encoded"

definition FolderRevisionRKey :: "syntax_api \<Rightarrow> bytes \<Rightarrow> FolderRevisionRecord \<Rightarrow> bytes result" where
  "FolderRevisionRKey sx repoDID r =
     (if \<not> validCanonicalDID sx repoDID \<or> \<not> validFolderID (fvr_FolderID r)
        \<or> \<not> validIdentifier (fvr_OperationID r) maxOperationIDBytes then Inl ErrInvalidRevision
      else (case CanonicalFolderRevisionBytes r of Inl e \<Rightarrow> Inl e | Inr encoded \<Rightarrow>
        Inr (''folder-state-'' @ hex_encode (sha256 (folder_rkey_preimage repoDID encoded)))))"

definition folder_claim_preimage :: "bytes \<Rightarrow> bytes \<Rightarrow> bytes \<Rightarrow> bytes" where
  "folder_claim_preimage repoDID folderID operationID =
     ''comail-folder-state-operation-v1'' @ [CHR 0x00] @ cw_string repoDID @ cw_string folderID @ cw_string operationID"

definition FolderOperationClaimRKey :: "syntax_api \<Rightarrow> bytes \<Rightarrow> bytes \<Rightarrow> bytes \<Rightarrow> bytes result" where
  "FolderOperationClaimRKey sx repoDID folderID operationID =
     (if \<not> validCanonicalDID sx repoDID \<or> \<not> validFolderID folderID
        \<or> \<not> validIdentifier operationID maxOperationIDBytes then Inl ErrInvalidRevision
      else Inr (''folder-operation-'' @ trim_prefix (digestBytes (folder_claim_preimage repoDID folderID operationID)) ''sha256-''))"

definition standard_preimage :: "bytes \<Rightarrow> bytes \<Rightarrow> bytes" where
  "standard_preimage repoDID role = ''comail-standard-folder-v1'' @ [CHR 0x00] @ cw_string repoDID @ cw_string role"

definition StandardFolderID :: "syntax_api \<Rightarrow> bytes \<Rightarrow> bytes \<Rightarrow> bytes result" where
  "StandardFolderID sx repoDID role =
     (if \<not> validCanonicalDID sx repoDID then Inl ErrInvalidRevision
      else if role \<notin> set standardFolderRoles then Inl ErrInvalidRevision
      else Inr (''folder-'' @ trim_prefix (digestBytes (standard_preimage repoDID role)) ''sha256-''))"

definition NewFolderOperationClaim :: "syntax_api \<Rightarrow> bytes \<Rightarrow> FolderStateRevision \<Rightarrow> FolderOperationClaim result" where
  "NewFolderOperationClaim sx repoDID revision =
     (if FolderRevisionRKey sx repoDID (fv_Record revision) \<noteq> Inr (fv_RKey revision) then Inl ErrInvalidRevision
      else (case FolderOperationClaimRKey sx repoDID (fvr_FolderID (fv_Record revision)) (fvr_OperationID (fv_Record revision)) of
          Inl e \<Rightarrow> Inl e
        | Inr claimRKey \<Rightarrow> Inr \<lparr>fc_RKey = claimRKey, fc_Record =
            \<lparr>fo_Type = FolderOperationCollection, fo_FolderID = fvr_FolderID (fv_Record revision),
             fo_OperationID = fvr_OperationID (fv_Record revision), fo_RevisionRKey = fv_RKey revision\<rparr>\<rparr>))"

definition VerifyFolderOperationClaimRetry :: "FolderOperationClaim \<Rightarrow> FolderOperationClaim \<Rightarrow> unit result" where
  "VerifyFolderOperationClaimRetry expected stored = (if expected \<noteq> stored then Inl ErrOperationCollision else Inr ())"

definition VerifyFolderRevisionRetry :: "syntax_api \<Rightarrow> bytes \<Rightarrow> FolderStateRevision \<Rightarrow> FolderStateRevision \<Rightarrow> unit result" where
  "VerifyFolderRevisionRetry sx repoDID expected stored =
     (if FolderRevisionRKey sx repoDID (fv_Record expected) \<noteq> Inr (fv_RKey expected)
        \<or> FolderRevisionRKey sx repoDID (fv_Record stored) \<noteq> Inr (fv_RKey stored)
        \<or> (fv_Record expected)\<lparr>fvr_CreatedAt := []\<rparr> \<noteq> (fv_Record stored)\<lparr>fvr_CreatedAt := []\<rparr>
      then Inl ErrOperationCollision else Inr ())"

text \<open>
  The code ranges over a map of the roles; the order matters only if two roles of a
  repository have the same identity, which \<open>standard_id_commits\<close> reduces to a hash collision.
\<close>

fun role_search :: "syntax_api \<Rightarrow> bytes \<Rightarrow> bytes \<Rightarrow> bytes list \<Rightarrow> bytes option" where
  "role_search sx repoDID folderID [] = None"
| "role_search sx repoDID folderID (role # roles) =
     (if StandardFolderID sx repoDID role = Inr folderID then Some role else role_search sx repoDID folderID roles)"

definition standardRoleForID :: "syntax_api \<Rightarrow> bytes \<Rightarrow> bytes \<Rightarrow> bytes option" where
  "standardRoleForID sx repoDID folderID = role_search sx repoDID folderID standardFolderRoles"

definition standardName :: "bytes \<Rightarrow> bytes" where
  "standardName role = (case map_of standardFolderNames role of None \<Rightarrow> [] | Some n \<Rightarrow> n)"

section \<open>The check of one folder revision\<close>

definition validFolderStateRKey :: "bytes \<Rightarrow> bool" where
  "validFolderStateRKey v =
     (if length v \<noteq> length ''folder-state-'' + 32 * 2 \<or> \<not> has_prefix v ''folder-state-'' then False
      else hex_decode (trim_prefix v ''folder-state-'') \<noteq> None)"

definition strictlySortedFolderParents :: "bytes list \<Rightarrow> bool" where
  "strictlySortedFolderParents values = sorted_from validFolderStateRKey None values"

abbreviation fv_parents :: "FolderStateRevision \<Rightarrow> bytes list" where
  "fv_parents e \<equiv> elems (fvr_Parents (fv_Record e))"

abbreviation fv_height :: "FolderStateRevision \<Rightarrow> u64" where
  "fv_height e \<equiv> fvr_Revision (fv_Record e)"

abbreviation fv_operation :: "FolderStateRevision \<Rightarrow> bytes" where
  "fv_operation e \<equiv> fvr_OperationID (fv_Record e)"

text \<open>A revision that gives the folder a name or a role.\<close>

definition folder_assigns :: "FolderStateRevision \<Rightarrow> bool" where
  "folder_assigns e = (fvr_Name (fv_Record e) \<noteq> [] \<or> fvr_Role (fv_Record e) \<noteq> [])"

definition validateFolderRevision :: "syntax_api \<Rightarrow> bytes \<Rightarrow> bytes \<Rightarrow> FolderStateRevision \<Rightarrow> unit result" where
  "validateFolderRevision sx repoDID folderID event =
     (let r = fv_Record event;
          role = standardRoleForID sx repoDID folderID;
          mutates = (fvr_Name r \<noteq> [] \<or> fvr_Role r \<noteq> [] \<or> fvr_Tombstone r) in
      if FolderRevisionRKey sx repoDID r \<noteq> Inr (fv_RKey event) \<or> fvr_Type r \<noteq> FolderRevisionCollection
        \<or> fvr_FolderID r \<noteq> folderID \<or> fvr_Parents r = None \<or> fvr_Revision r = 0 \<or> fvr_Revision r > maxPortableRevision
        \<or> \<not> validIdentifier (fvr_OperationID r) maxOperationIDBytes \<or> length (elems (fvr_Parents r)) > maxParents
        then Inl ErrInvalidRevision
      else if \<not> parse_RFC3339Nano (fvr_CreatedAt r) \<or> \<not> strictlySortedFolderParents (elems (fvr_Parents r))
        then Inl ErrInvalidRevision
      else if fvr_Name r \<noteq> [] \<and> \<not> validText (fvr_Name r) 255 then Inl ErrInvalidRevision
      else if \<not> validFolderID folderID then Inl ErrInvalidRevision
      else if (case role of
          Some ro \<Rightarrow> fvr_Tombstone r \<or> (fvr_Role r \<noteq> [] \<and> fvr_Role r \<noteq> ro)
            \<or> (length (elems (fvr_Parents r)) > 0 \<and> (fvr_Name r \<noteq> [] \<or> fvr_Role r \<noteq> []))
        | None \<Rightarrow> fvr_Role r \<noteq> []) then Inl ErrInvalidRevision
      else if fvr_Merge r = mutates \<or> (fvr_Merge r \<and> length (elems (fvr_Parents r)) < 2)
        \<or> (fvr_Tombstone r \<and> (fvr_Name r \<noteq> [] \<or> fvr_Role r \<noteq> [])) then Inl ErrInvalidRevision
      else Inr ())"

section \<open>The reducer of one folder\<close>

definition folder_snapshot_preimage :: "VerifiedFolderSnapshot \<Rightarrow> bytes" where
  "folder_snapshot_preimage s =
     ''comail-verified-folder-snapshot-v1'' @ [CHR 0x00] @ cw_string (fs_snapshotID s) @ cw_string (fs_folderID s)
     @ cw_len (fs_revisionCount s) @ encode_entries (fs_operationClaims s)"

definition folder_snapshotSeal :: "VerifiedFolderSnapshot \<Rightarrow> bytes" where
  "folder_snapshotSeal s = sha256 (folder_snapshot_preimage s)"

definition folder_validFor :: "VerifiedFolderSnapshot \<Rightarrow> bytes \<Rightarrow> nat \<Rightarrow> bool" where
  "folder_validFor s folderID revisionCount =
     (validIdentifier (fs_snapshotID s) maxIdentifierBytes \<and> fs_folderID s = folderID
      \<and> fs_revisionCount s = revisionCount \<and> revisionCount > 0
      \<and> length (fs_operationClaims s) = revisionCount \<and> fs_seal s = folder_snapshotSeal s)"

definition folder_size :: "FolderStateRevision \<Rightarrow> nat result" where
  "folder_size event = (case CanonicalFolderRevisionBytes (fv_Record event) of Inl e \<Rightarrow> Inl e | Inr encoded \<Rightarrow> Inr (length encoded))"

definition folder_check_claimed :: "syntax_api \<Rightarrow> bytes \<Rightarrow> bytes \<Rightarrow> VerifiedFolderSnapshot \<Rightarrow> FolderStateRevision \<Rightarrow> unit result" where
  "folder_check_claimed sx did fid s event =
     (case validateFolderRevision sx did fid event of Inl e \<Rightarrow> Inl e | Inr _ \<Rightarrow>
        (case NewFolderOperationClaim sx did event of Inl e \<Rightarrow> Inl e | Inr claim \<Rightarrow>
          (case map_of (fs_operationClaims s) (fc_RKey claim) of None \<Rightarrow> Inl ErrIncompleteSnapshot | Some claimedRevision \<Rightarrow>
            if claimedRevision \<noteq> fv_RKey event then Inl ErrOperationCollision else Inr ())))"

definition folder_initial_ok :: "syntax_api \<Rightarrow> bytes \<Rightarrow> bytes \<Rightarrow> FolderStateRevision \<Rightarrow> bool" where
  "folder_initial_ok sx did fid e =
     (let r = fv_Record e in
      \<not> (fvr_Revision r \<noteq> 1 \<or> fvr_Name r = [] \<or> fvr_Tombstone r \<or> fvr_Merge r)
      \<and> (case standardRoleForID sx did fid of
           Some role \<Rightarrow> \<not> (fvr_Role r \<noteq> role \<or> fvr_Name r \<noteq> standardName role)
         | None \<Rightarrow> fvr_Role r = []))"

text \<open>The state part of the last loop; its check for assignments after a deletion is \<open>tombstone_walk\<close>.\<close>

definition reduce_folder_event :: "ReducedFolderState \<Rightarrow> FolderStateRevision \<Rightarrow> ReducedFolderState" where
  "reduce_folder_event st e =
     (let r = fv_Record e in
      st\<lparr>rf_Height := max (rf_Height st) (fvr_Revision r),
         rf_Name := (if fvr_Name r \<noteq> [] then fvr_Name r else rf_Name st),
         rf_Role := (if fvr_Role r \<noteq> [] then fvr_Role r else rf_Role st),
         rf_Tombstone := (rf_Tombstone st \<or> fvr_Tombstone r)\<rparr>)"

definition start_folder :: "bytes \<Rightarrow> bytes \<Rightarrow> nat \<Rightarrow> ReducedFolderState" where
  "start_folder fid sid n = \<lparr>rf_FolderID = fid, rf_SnapshotID = sid, rf_Name = [], rf_Role = [], rf_Tombstone = False,
     rf_Heads = [], rf_HeadsDigest = [], rf_StateDigest = [], rf_Height = 0, rf_RevisionCount = n\<rparr>"

definition reduced_folder_preimage :: "ReducedFolderState \<Rightarrow> bytes" where
  "reduced_folder_preimage st =
     ''comail-folder-state-reduced-v1'' @ [CHR 0x00] @ cw_string (rf_FolderID st) @ cw_string (rf_Name st)
     @ cw_string (rf_Role st) @ cw_boolean (rf_Tombstone st) @ cw_strings (rf_Heads st) @ cw_string (rf_HeadsDigest st)
     @ cw_uint64 (rf_Height st) @ cw_len (rf_RevisionCount st)"

definition digestReducedFolderState :: "ReducedFolderState \<Rightarrow> bytes" where
  "digestReducedFolderState st = digestBytes (reduced_folder_preimage st)"

definition finish_folder :: "bytes \<Rightarrow> bytes \<Rightarrow> bytes list \<Rightarrow> FolderStateRevision list \<Rightarrow> ReducedFolderState" where
  "finish_folder fid sid parented events =
     (let st = foldl reduce_folder_event (start_folder fid sid (length events)) events;
          st1 = st\<lparr>rf_Heads := heads_of fv_RKey parented events\<rparr>;
          st2 = st1\<lparr>rf_HeadsDigest := digestStringList (''comail-folder-state-heads-v1'' @ [CHR 0x00]) (rf_Heads st1)\<rparr>
      in st2\<lparr>rf_StateDigest := digestReducedFolderState st2\<rparr>)"

definition ReduceFolder ::
  "syntax_api \<Rightarrow> bytes \<Rightarrow> bytes \<Rightarrow> FolderStateRevision list \<Rightarrow> VerifiedFolderSnapshot \<Rightarrow> ReducedFolderState result" where
  "ReduceFolder sx repoDID folderID revisions s =
     (if length revisions > maxRevisionCount then Inl ErrResourceLimit
      else if \<not> validCanonicalDID sx repoDID \<or> \<not> validFolderID folderID \<or> length revisions = 0 then Inl ErrInvalidRevision
      else if \<not> folder_validFor s folderID (length revisions) then Inl ErrIncompleteSnapshot
      else (case index_events fv_RKey fv_operation folder_size (folder_check_claimed sx repoDID folderID s) revisions [] [] 0 of
          Inl e \<Rightarrow> Inl e
        | Inr byKey \<Rightarrow>
          (case link_events (\<lambda>k. map_option fv_height (map_of byKey k)) fv_parents fv_height
              (folder_initial_ok sx repoDID folderID) revisions ([], 0) of
            Inl e \<Rightarrow> Inl e
          | Inr (parented, roots) \<Rightarrow>
              if roots = 0 then Inl ErrInvalidRevision
              else (let events = event_order fv_height fv_operation revisions in
                case tombstone_walk fv_RKey fv_parents (\<lambda>e. fvr_Tombstone (fv_Record e)) folder_assigns [] events of
                  Inl e \<Rightarrow> Inl e
                | Inr _ \<Rightarrow> Inr (finish_folder folderID (fs_snapshotID s) parented events)))))"

section \<open>Case folding of names\<close>

text \<open>The value of the rune a byte sequence starts with, and all runes of a string (\<^verbatim>\<open>range\<close>):
  a byte that starts no rune reads as U+FFFD.\<close>

definition rune_at :: "bytes \<Rightarrow> nat" where
  "rune_at s =
     (let b = (\<lambda>i. byte (s ! i)) in
      if rune_len s = 1 then b 0
      else if rune_len s = 2 then (b 0 - 192) * 64 + (b 1 - 128)
      else if rune_len s = 3 then (b 0 - 224) * 4096 + (b 1 - 128) * 64 + (b 2 - 128)
      else if rune_len s = 4 then (b 0 - 240) * 262144 + (b 1 - 128) * 4096 + (b 2 - 128) * 64 + (b 3 - 128)
      else 65533)"

function runes :: "bytes \<Rightarrow> nat list" where
  "runes s = (if s = [] then [] else rune_at s # runes (drop (max 1 (rune_len s)) s))"
  by pat_completeness auto
termination
  by (relation "measure length") auto

declare runes.simps [simp del]

text \<open>\<^verbatim>\<open>WriteRune\<close>: surrogates and values past U+10FFFF are written as U+FFFD.\<close>

definition encode_rune :: "nat \<Rightarrow> bytes" where
  "encode_rune r =
     (if r < 128 then [char_of r]
      else if r < 2048 then [char_of (192 + r div 64), char_of (128 + r mod 64)]
      else if (55296 \<le> r \<and> r < 57344) \<or> r > 1114111 then [CHR 0xEF, CHR 0xBF, CHR 0xBD]
      else if r < 65536 then [char_of (224 + r div 4096), char_of (128 + r div 64 mod 64), char_of (128 + r mod 64)]
      else [char_of (240 + r div 262144), char_of (128 + r div 4096 mod 64), char_of (128 + r div 64 mod 64),
        char_of (128 + r mod 64)])"

text \<open>
  \<open>sf\<close> stands for \<^verbatim>\<open>unicode.SimpleFold\<close>. The loop follows its orbit until it is back at the
  start, so it returns only if it gets there: \<open>None\<close> is a loop that does not end.
\<close>

partial_function (option) fold_orbit :: "(nat \<Rightarrow> nat) \<Rightarrow> nat \<Rightarrow> nat \<Rightarrow> nat \<Rightarrow> nat option" where
  "fold_orbit sf current candidate canonical =
     (if candidate = current then Some canonical
      else fold_orbit sf current (sf candidate) (if candidate < canonical then candidate else canonical))"

fun fold_runes :: "(nat \<Rightarrow> nat) \<Rightarrow> nat list \<Rightarrow> bytes option" where
  "fold_runes sf [] = Some []"
| "fold_runes sf (r # rs) =
     (case fold_orbit sf r (sf r) r of None \<Rightarrow> None | Some canonical \<Rightarrow>
        map_option (\<lambda>rest. encode_rune canonical @ rest) (fold_runes sf rs))"

definition foldFolderName :: "(nat \<Rightarrow> nat) \<Rightarrow> bytes \<Rightarrow> bytes option" where
  "foldFolderName sf value = fold_runes sf (runes value)"

section \<open>The folders of a mailbox\<close>

definition folder_set_preimage :: "VerifiedFolderSetSnapshot \<Rightarrow> bytes" where
  "folder_set_preimage s =
     ''comail-verified-folder-set-snapshot-v1'' @ [CHR 0x00] @ cw_string (ss_snapshotID s) @ cw_string (ss_repoDID s)
     @ cw_len (ss_folderCount s) @ encode_entries (ss_stateDigests s)"

definition folder_set_snapshotSeal :: "VerifiedFolderSetSnapshot \<Rightarrow> bytes" where
  "folder_set_snapshotSeal s = sha256 (folder_set_preimage s)"

definition folder_set_validFor :: "syntax_api \<Rightarrow> VerifiedFolderSetSnapshot \<Rightarrow> bytes \<Rightarrow> nat \<Rightarrow> bool" where
  "folder_set_validFor sx s repoDID folderCount =
     (validCanonicalDID sx repoDID \<and> ss_repoDID s = repoDID \<and> validIdentifier (ss_snapshotID s) maxIdentifierBytes
      \<and> ss_folderCount s = folderCount \<and> folderCount > 0 \<and> length (ss_stateDigests s) = folderCount
      \<and> ss_seal s = folder_set_snapshotSeal s)"

text \<open>The loop over the reduced folders: identities seen, live names by folded name, standard roles.\<close>

fun check_folder_set ::
  "syntax_api \<Rightarrow> (nat \<Rightarrow> nat) \<Rightarrow> bytes \<Rightarrow> VerifiedFolderSetSnapshot \<Rightarrow> bytes list \<Rightarrow> ReducedFolderState list
     \<Rightarrow> bytes list \<Rightarrow> bytes gomap \<Rightarrow> bytes list \<Rightarrow> bytes list result option" where
  "check_folder_set sx sf did s reserved [] seenIDs liveNames roles = Some (Inr roles)"
| "check_folder_set sx sf did s reserved (st # sts) seenIDs liveNames roles =
     (let role = standardRoleForID sx did (rf_FolderID st);
          roles' = (case role of None \<Rightarrow> roles | Some r \<Rightarrow> List.insert r roles) in
      if \<not> validFolderID (rf_FolderID st) \<or> rf_SnapshotID st \<noteq> ss_snapshotID s \<or> \<not> validText (rf_Name st) 255
        \<or> \<not> validSHA256Identifier (rf_StateDigest st) \<or> rf_StateDigest st \<noteq> digestReducedFolderState st
        then Some (Inl ErrInvalidReference)
      else if rf_FolderID st \<in> set seenIDs then Some (Inl ErrIncompleteSnapshot)
      else if (case map_of (ss_stateDigests s) (rf_FolderID st) of None \<Rightarrow> [] | Some d \<Rightarrow> d) \<noteq> rf_StateDigest st
        then Some (Inl ErrIncompleteSnapshot)
      else if (case role of
          Some r \<Rightarrow> rf_Role st \<noteq> r \<or> rf_Name st \<noteq> standardName r \<or> rf_Tombstone st
        | None \<Rightarrow> rf_Role st \<noteq> []) then Some (Inl ErrInvalidReference)
      else if rf_Tombstone st then
        check_folder_set sx sf did s reserved sts (rf_FolderID st # seenIDs) liveNames roles'
      else (case foldFolderName sf (rf_Name st) of None \<Rightarrow> None | Some folded \<Rightarrow>
        if role = None \<and> folded \<in> set reserved then Some (Inl ErrFolderNameCollision)
        else if (case map_of liveNames folded of None \<Rightarrow> False | Some other \<Rightarrow> other \<noteq> rf_FolderID st)
          then Some (Inl ErrFolderNameCollision)
        else check_folder_set sx sf did s reserved sts (rf_FolderID st # seenIDs)
          (AList.update folded (rf_FolderID st) liveNames) roles'))"

definition ValidateFolderSet ::
  "syntax_api \<Rightarrow> (nat \<Rightarrow> nat) \<Rightarrow> bytes \<Rightarrow> ReducedFolderState list \<Rightarrow> VerifiedFolderSetSnapshot \<Rightarrow> unit result option" where
  "ValidateFolderSet sx sf repoDID states s =
     (if length states > maxFolderCount then Some (Inl ErrResourceLimit)
      else if \<not> folder_set_validFor sx s repoDID (length states) then Some (Inl ErrIncompleteSnapshot)
      else (case those (map (foldFolderName sf) (map snd standardFolderNames)) of None \<Rightarrow> None | Some reserved \<Rightarrow>
        (case check_folder_set sx sf repoDID s reserved states [] [] [] of
            None \<Rightarrow> None
          | Some (Inl e) \<Rightarrow> Some (Inl e)
          | Some (Inr roles) \<Rightarrow>
              if length roles \<noteq> length standardFolderRoles then Some (Inl ErrIncompleteSnapshot) else Some (Inr ()))))"

section \<open>What the reducer accepts\<close>

definition folder_reducible :: "syntax_api \<Rightarrow> bytes \<Rightarrow> bytes \<Rightarrow> VerifiedFolderSnapshot \<Rightarrow> FolderStateRevision list \<Rightarrow> bool" where
  "folder_reducible sx did fid s es \<longleftrightarrow> es \<noteq> [] \<and> length es \<le> maxRevisionCount \<and> validCanonicalDID sx did
     \<and> validFolderID fid \<and> folder_validFor s fid (length es)
     \<and> admitted fv_RKey fv_operation fv_parents fv_height folder_size (folder_check_claimed sx did fid s)
         (folder_initial_ok sx did fid) es
     \<and> filter (\<lambda>e. fv_parents e = []) es \<noteq> []"

lemma ReduceFolder_iff:
  "ReduceFolder sx did fid es s = Inr st \<longleftrightarrow>
     folder_reducible sx did fid s es
     \<and> (\<exists>fl. tombstone_walk fv_RKey fv_parents (\<lambda>e. fvr_Tombstone (fv_Record e)) folder_assigns []
           (event_order fv_height fv_operation es) = Inr fl)
     \<and> st = finish_folder fid (fs_snapshotID s) (concat (rev (map fv_parents es))) (event_order fv_height fv_operation es)"
proof (cases "length es \<le> maxRevisionCount \<and> validCanonicalDID sx did \<and> validFolderID fid \<and> es \<noteq> [] \<and> folder_validFor s fid (length es)")
  case False
  then show ?thesis by (auto simp: ReduceFolder_def folder_reducible_def)
next
  case pre: True
  let ?walk = "tombstone_walk fv_RKey fv_parents (\<lambda>e. fvr_Tombstone (fv_Record e)) folder_assigns []
      (event_order fv_height fv_operation es)"
  have "ReduceFolder sx did fid es s = Inr st \<longleftrightarrow>
      (\<exists>P n. (\<exists>bk. index_events fv_RKey fv_operation folder_size (folder_check_claimed sx did fid s) es [] [] 0 = Inr bk
         \<and> link_events (\<lambda>k. map_option fv_height (map_of bk k)) fv_parents fv_height (folder_initial_ok sx did fid) es ([], 0) = Inr (P, n))
       \<and> n \<noteq> 0 \<and> (\<exists>fl. ?walk = Inr fl) \<and> st = finish_folder fid (fs_snapshotID s) P (event_order fv_height fv_operation es))"
    using pre by (auto simp: ReduceFolder_def Let_def split: sum.splits if_splits)
  then show ?thesis using pre by (auto simp: admitted_iff folder_reducible_def)
qed

text \<open>An accepted inventory of folder revisions is a causal log; it may have several roots.\<close>

interpretation flog: causal_log "folder_reducible sx did fid s" fv_RKey fv_operation fv_parents fv_height for sx did fid s
proof unfold_locales
  fix es e p assume "folder_reducible sx did fid s es" "e \<in> set es" "p \<in> set (fv_parents e)"
  then show "\<exists>e' \<in> set es. fv_RKey e' = p \<and> fv_height e' < fv_height e"
    unfolding folder_reducible_def by (elim conjE) (rule admitted_parents)
qed (auto simp: folder_reducible_def admitted_def)

lemma folder_reducible_perm:
  assumes "mset es = mset es'" and "folder_reducible sx did fid s es"
  shows "folder_reducible sx did fid s es'"
proof -
  have "length es = length es'" "set es = set es'" using assms(1) by (rule mset_eq_length, rule mset_eq_setD)
  then show ?thesis
    using assms(2) admitted_perm[OF assms(1)] by (auto simp: folder_reducible_def filter_empty_conv)
qed

lemma finish_folder_cong: "set P = set Q \<Longrightarrow> finish_folder fid sid P es = finish_folder fid sid Q es"
  by (simp add: finish_folder_def heads_of_cong[of P Q])

lemma ReduceFolder_perm:
  assumes "mset es = mset es'" and "ReduceFolder sx did fid es s = Inr st"
  shows "ReduceFolder sx did fid es' s = Inr st"
proof -
  from assms(2) have red: "folder_reducible sx did fid s es" by (simp add: ReduceFolder_iff)
  have "event_order fv_height fv_operation es = event_order fv_height fv_operation es'"
    by (rule flog.order_unique[OF red assms(1)])
  moreover have "set (concat (rev (map fv_parents es))) = set (concat (rev (map fv_parents es')))"
    using mset_eq_setD[OF assms(1)] by auto
  ultimately show ?thesis
    using assms(2) folder_reducible_perm[OF assms(1) red]
      finish_folder_cong[of "concat (rev (map fv_parents es))" "concat (rev (map fv_parents es'))"]
    by (simp add: ReduceFolder_iff)
qed

lemma validateFolderRevisionD:
  assumes "validateFolderRevision sx did fid e = Inr ()"
  shows "FolderRevisionRKey sx did (fv_Record e) = Inr (fv_RKey e)" "fvr_FolderID (fv_Record e) = fid" "fv_height e \<noteq> 0"
    "fvr_Name (fv_Record e) \<noteq> [] \<Longrightarrow> validText (fvr_Name (fv_Record e)) 255"
    "standardRoleForID sx did fid = Some role \<Longrightarrow> \<not> fvr_Tombstone (fv_Record e)"
    "standardRoleForID sx did fid = Some role \<Longrightarrow> fv_parents e \<noteq> [] \<Longrightarrow> \<not> folder_assigns e"
    "standardRoleForID sx did fid = None \<Longrightarrow> fvr_Role (fv_Record e) = []"
  using assms by (auto simp: validateFolderRevision_def Let_def folder_assigns_def split: if_splits option.splits)

lemma folder_checkedD:
  assumes "folder_reducible sx did fid s es" and "e \<in> set es"
  shows "validateFolderRevision sx did fid e = Inr ()" "fv_parents e = [] \<Longrightarrow> folder_initial_ok sx did fid e"
proof -
  have "folder_check_claimed sx did fid s e = Inr ()" using assms by (simp add: folder_reducible_def admitted_def event_fine_def)
  then show "validateFolderRevision sx did fid e = Inr ()" by (auto simp: folder_check_claimed_def split: sum.splits)
  assume "fv_parents e = []"
  with assms show "folder_initial_ok sx did fid e" by (auto simp: folder_reducible_def admitted_def event_linked_def)
qed

definition name_assigned :: "FolderStateRevision \<Rightarrow> bytes option" where
  "name_assigned e = (if fvr_Name (fv_Record e) = [] then None else Some (fvr_Name (fv_Record e)))"

definition role_assigned :: "FolderStateRevision \<Rightarrow> bytes option" where
  "role_assigned e = (if fvr_Role (fv_Record e) = [] then None else Some (fvr_Role (fv_Record e)))"

definition or_empty :: "bytes option \<Rightarrow> bytes" where
  "or_empty v = (case v of None \<Rightarrow> [] | Some s \<Rightarrow> s)"

lemma reduce_folder_fold:
  "foldl reduce_folder_event (start_folder fid sid n) es = \<lparr>rf_FolderID = fid, rf_SnapshotID = sid,
     rf_Name = or_empty (latest name_assigned es), rf_Role = or_empty (latest role_assigned es),
     rf_Tombstone = (\<exists>e \<in> set es. fvr_Tombstone (fv_Record e)), rf_Heads = [], rf_HeadsDigest = [], rf_StateDigest = [],
     rf_Height = foldl max 0 (map fv_height es), rf_RevisionCount = n\<rparr>"
  by (induction es rule: rev_induct)
    (auto simp: start_folder_def reduce_folder_event_def Let_def name_assigned_def role_assigned_def or_empty_def)

lemma ReduceFolder_registers:
  assumes "ReduceFolder sx did fid es s = Inr st"
  defines "ord \<equiv> event_order fv_height fv_operation es"
  shows "rf_FolderID st = fid" "rf_SnapshotID st = fs_snapshotID s" "rf_RevisionCount st = length es"
    "rf_Name st = or_empty (latest name_assigned ord)" "rf_Role st = or_empty (latest role_assigned ord)"
    "rf_Tombstone st = (\<exists>e \<in> set es. fvr_Tombstone (fv_Record e))"
    "rf_Heads st = heads_of fv_RKey (concat (rev (map fv_parents es))) ord"
    "rf_StateDigest st = digestReducedFolderState st"
  using assms(1)
  by (simp_all add: ReduceFolder_iff finish_folder_def Let_def reduce_folder_fold ord_def[symmetric]
      digestReducedFolderState_def reduced_folder_preimage_def) (simp_all add: ord_def)

section \<open>Folding follows one orbit and stops\<close>

text \<open>
  What \<^verbatim>\<open>unicode.SimpleFold\<close> documents: among the runes equivalent under simple case folding it
  returns the smallest one above its argument if there is one, and else the smallest of all.
\<close>

definition simple_fold_laws :: "(nat \<Rightarrow> nat) \<Rightarrow> (nat \<Rightarrow> nat set) \<Rightarrow> bool" where
  "simple_fold_laws sf cls \<longleftrightarrow>
     (\<forall>r. finite (cls r) \<and> r \<in> cls r \<and> (\<forall>q \<in> cls r. cls q = cls r) \<and> sf r \<in> cls r
        \<and> ((\<exists>q \<in> cls r. r < q) \<longrightarrow> r < sf r \<and> (\<forall>q \<in> cls r. r < q \<longrightarrow> sf r \<le> q))
        \<and> (\<not> (\<exists>q \<in> cls r. r < q) \<longrightarrow> (\<forall>q \<in> cls r. sf r \<le> q)))"

lemma simple_fold_lawsD:
  assumes "simple_fold_laws sf cls"
  shows "finite (cls r)" "r \<in> cls r" "q \<in> cls r \<Longrightarrow> cls q = cls r" "sf r \<in> cls r"
    "q \<in> cls r \<Longrightarrow> r < q \<Longrightarrow> r < sf r" "q \<in> cls r \<Longrightarrow> r < q \<Longrightarrow> sf r \<le> q"
    "\<not> (\<exists>q \<in> cls r. r < q) \<Longrightarrow> q \<in> cls r \<Longrightarrow> sf r \<le> q"
  using assms[unfolded simple_fold_laws_def, THEN spec, of r] by blast+

lemma fold_below:
  assumes laws: "simple_fold_laws sf cls"
  shows "c \<in> cls r \<Longrightarrow> c < r \<Longrightarrow> fold_orbit sf r c m = Some (min m c)"
proof (induction "r - c" arbitrary: c m rule: less_induct)
  case less
  note L = simple_fold_lawsD[OF laws]
  have mem: "cls c = cls r" by (rule L(3)[OF less.prems(1)])
  then have "r \<in> cls c" using L(2)[of r] by simp
  then have up: "c < sf c" "sf c \<le> r" "sf c \<in> cls r"
    using L(5,6)[OF _ less.prems(2)] L(4)[of c] mem by auto
  have "fold_orbit sf r (sf c) (min m c) = Some (min m c)"
  proof (cases "sf c = r")
    case True
    then show ?thesis by (simp add: fold_orbit.simps)
  next
    case False
    with up less.hyps[of "sf c" "min m c"] show ?thesis by simp
  qed
  with less.prems(2) show ?case by (subst fold_orbit.simps) (auto simp: min_def not_less split: if_splits)
qed

lemma fold_above:
  assumes laws: "simple_fold_laws sf cls"
  shows "c \<in> cls r \<Longrightarrow> r < c \<Longrightarrow> fold_orbit sf r c r = Some (Min (cls r))"
proof (induction "Max (cls r) - c" arbitrary: c rule: less_induct)
  case less
  note L = simple_fold_lawsD[OF laws]
  have fin: "finite (cls r)" "r \<in> cls r" and eq: "cls c = cls r" by (rule L(1), rule L(2), rule L(3)[OF less.prems(1)])
  then have nxt: "sf c \<in> cls r" using L(4)[of c] by simp
  have step: "fold_orbit sf r c r = fold_orbit sf r (sf c) r" using less.prems(2) by (subst fold_orbit.simps) simp
  show ?case
  proof (cases "\<exists>q \<in> cls c. c < q")
    case True
    then have "c < sf c" using L(5) by blast
    moreover have "sf c \<le> Max (cls r)" using fin(1) nxt by simp
    ultimately show ?thesis using step less.hyps[of "sf c"] nxt less.prems(2) by simp
  next
    case False
    then have "\<forall>q \<in> cls r. sf c \<le> q" using L(7)[OF False] eq by simp
    then have least: "sf c = Min (cls r)" using fin(1) nxt by (intro Min_eqI[symmetric]) auto
    show ?thesis
    proof (cases "sf c = r")
      case True
      then show ?thesis unfolding step using least by (simp add: fold_orbit.simps)
    next
      case False
      with least fin have "sf c < r" by (metis Min_le le_neq_implies_less)
      then show ?thesis unfolding step using fold_below[OF laws nxt, of r] least by simp
    qed
  qed
qed

lemma fold_orbit_least:
  assumes laws: "simple_fold_laws sf cls"
  shows "fold_orbit sf r (sf r) r = Some (Min (cls r))"
proof -
  note L = simple_fold_lawsD[OF laws]
  note fin = L(1)[of r] L(2)[of r] L(4)[of r]
  show ?thesis
  proof (cases "\<exists>q \<in> cls r. r < q")
    case True
    then have "r < sf r" using L(5) by blast
    with fold_above[OF laws fin(3)] show ?thesis by simp
  next
    case False
    then have "\<forall>q \<in> cls r. sf r \<le> q" using L(7)[OF False] by blast
    then have least: "sf r = Min (cls r)" using fin by (intro Min_eqI[symmetric]) auto
    show ?thesis
    proof (cases "sf r = r")
      case True
      with least show ?thesis by (simp add: fold_orbit.simps)
    next
      case False
      with least fin have "sf r < r" by (metis Min_le le_neq_implies_less)
      then show ?thesis using fold_below[OF laws fin(3), of r] least by simp
    qed
  qed
qed

lemma fold_runes_least:
  "simple_fold_laws sf cls \<Longrightarrow> fold_runes sf rs = Some (concat (map (\<lambda>r. encode_rune (Min (cls r))) rs))"
  by (induction rs) (simp_all add: fold_orbit_least)

text \<open>Two names are the same up to case when their runes are equivalent one by one.\<close>

definition same_name :: "(nat \<Rightarrow> nat set) \<Rightarrow> bytes \<Rightarrow> bytes \<Rightarrow> bool" where
  "same_name cls a b \<longleftrightarrow> map cls (runes a) = map cls (runes b)"

lemma fold_same_name:
  assumes "simple_fold_laws sf cls" and "same_name cls a b"
  shows "foldFolderName sf a = foldFolderName sf b"
proof -
  have "map (\<lambda>r. encode_rune (Min (cls r))) (runes a) = map (\<lambda>r. encode_rune (Min (cls r))) (runes b)"
    using arg_cong[OF assms(2)[unfolded same_name_def], of "map (\<lambda>c. encode_rune (Min c))"] by (simp add: comp_def)
  then show ?thesis by (simp add: foldFolderName_def fold_runes_least[OF assms(1)])
qed

section \<open>What the folder set check accepts\<close>

definition folder_state_ok :: "syntax_api \<Rightarrow> bytes \<Rightarrow> VerifiedFolderSetSnapshot \<Rightarrow> ReducedFolderState \<Rightarrow> bool" where
  "folder_state_ok sx did s st \<longleftrightarrow> validFolderID (rf_FolderID st) \<and> rf_SnapshotID st = ss_snapshotID s \<and> validText (rf_Name st) 255
     \<and> rf_StateDigest st = digestReducedFolderState st \<and> map_of (ss_stateDigests s) (rf_FolderID st) = Some (rf_StateDigest st)
     \<and> (case standardRoleForID sx did (rf_FolderID st) of
          Some r \<Rightarrow> rf_Role st = r \<and> rf_Name st = standardName r \<and> \<not> rf_Tombstone st
        | None \<Rightarrow> rf_Role st = [])"

definition note_role :: "syntax_api \<Rightarrow> bytes \<Rightarrow> bytes list \<Rightarrow> ReducedFolderState \<Rightarrow> bytes list" where
  "note_role sx did roles st = (case standardRoleForID sx did (rf_FolderID st) of None \<Rightarrow> roles | Some r \<Rightarrow> List.insert r roles)"

definition names_apart ::
  "syntax_api \<Rightarrow> (nat \<Rightarrow> nat) \<Rightarrow> bytes \<Rightarrow> bytes list \<Rightarrow> ReducedFolderState list \<Rightarrow> bytes gomap \<Rightarrow> bool" where
  "names_apart sx sf did reserved sts liveNames \<longleftrightarrow>
     (\<forall>a \<in> set sts. \<not> rf_Tombstone a \<longrightarrow>
        (standardRoleForID sx did (rf_FolderID a) = None \<longrightarrow> the (foldFolderName sf (rf_Name a)) \<notin> set reserved)
        \<and> map_of liveNames (the (foldFolderName sf (rf_Name a))) \<in> {None, Some (rf_FolderID a)}
        \<and> (\<forall>b \<in> set sts. \<not> rf_Tombstone b \<longrightarrow> foldFolderName sf (rf_Name a) = foldFolderName sf (rf_Name b)
             \<longrightarrow> rf_FolderID a = rf_FolderID b))"

lemma digest_nonempty: "digestReducedFolderState st \<noteq> []"
  by (simp add: digestReducedFolderState_def digestBytes_def)

lemma check_step:
  assumes "foldFolderName sf (rf_Name st) = Some folded"
  shows "check_folder_set sx sf did s reserved (st # sts) seen live roles = Some (Inr R) \<longleftrightarrow>
     folder_state_ok sx did s st \<and> rf_FolderID st \<notin> set seen
     \<and> (if rf_Tombstone st then check_folder_set sx sf did s reserved sts (rf_FolderID st # seen) live (note_role sx did roles st) = Some (Inr R)
        else (standardRoleForID sx did (rf_FolderID st) = None \<longrightarrow> folded \<notin> set reserved)
          \<and> map_of live folded \<in> {None, Some (rf_FolderID st)}
          \<and> check_folder_set sx sf did s reserved sts (rf_FolderID st # seen) (AList.update folded (rf_FolderID st) live)
              (note_role sx did roles st) = Some (Inr R))"
proof -
  have dig: "(case map_of (ss_stateDigests s) (rf_FolderID st) of None \<Rightarrow> [] | Some d \<Rightarrow> d) = digestReducedFolderState st
      \<longleftrightarrow> map_of (ss_stateDigests s) (rf_FolderID st) = Some (digestReducedFolderState st)"
    using digest_nonempty[of st] by (auto split: option.splits)
  have val: "validSHA256Identifier (digestReducedFolderState st)" by (simp add: digestReducedFolderState_def)
  show ?thesis
  proof (cases "standardRoleForID sx did (rf_FolderID st)")
    case None
    then show ?thesis using assms dig val
      by (auto simp: Let_def folder_state_ok_def note_role_def split: option.splits if_splits)
  next
    case (Some r)
    then show ?thesis using assms dig val
      by (auto simp: Let_def folder_state_ok_def note_role_def split: option.splits if_splits)
  qed
qed

lemma names_apart_Cons:
  assumes "rf_FolderID st \<notin> rf_FolderID ` set sts" and tot: "\<And>n. \<exists>x. foldFolderName sf n = Some x"
    and "foldFolderName sf (rf_Name st) = Some folded" and "\<not> rf_Tombstone st"
  shows "names_apart sx sf did reserved (st # sts) live \<longleftrightarrow>
     (standardRoleForID sx did (rf_FolderID st) = None \<longrightarrow> folded \<notin> set reserved)
     \<and> map_of live folded \<in> {None, Some (rf_FolderID st)}
     \<and> names_apart sx sf did reserved sts (AList.update folded (rf_FolderID st) live)"
proof -
  define nm where "nm a = the (foldFolderName sf (rf_Name a))" for a :: ReducedFolderState
  have nm: "foldFolderName sf (rf_Name a) = Some (nm a)" for a using tot[of "rf_Name a"] by (auto simp: nm_def)
  have folded: "folded = nm st" using assms(3) by (simp add: nm_def)
  show ?thesis using assms(1,4) unfolding names_apart_def nm option.sel folded
    by (simp add: image_iff) (intro conj_cong refl iffI; fastforce)
qed

lemma names_apart_deleted: "rf_Tombstone st \<Longrightarrow> names_apart sx sf did reserved (st # sts) live = names_apart sx sf did reserved sts live"
  by (simp add: names_apart_def)

lemma check_folder_set_iff:
  assumes tot: "\<And>n. \<exists>x. foldFolderName sf n = Some x"
  shows "check_folder_set sx sf did s reserved sts seen live roles = Some (Inr R) \<longleftrightarrow>
     (\<forall>st \<in> set sts. folder_state_ok sx did s st \<and> rf_FolderID st \<notin> set seen) \<and> distinct (map rf_FolderID sts)
     \<and> names_apart sx sf did reserved sts live \<and> R = foldl (note_role sx did) roles sts"
proof (induction sts arbitrary: seen live roles)
  case Nil
  then show ?case by (auto simp: names_apart_def)
next
  case (Cons st sts)
  obtain folded where f: "foldFolderName sf (rf_Name st) = Some folded" using tot by blast
  have seen: "(\<forall>a \<in> set sts. folder_state_ok sx did s a \<and> rf_FolderID a \<notin> set (rf_FolderID st # seen)) \<longleftrightarrow>
      rf_FolderID st \<notin> rf_FolderID ` set sts \<and> (\<forall>a \<in> set sts. folder_state_ok sx did s a \<and> rf_FolderID a \<notin> set seen)"
    by (simp add: image_iff) metis
  show ?case
  proof (cases "rf_Tombstone st")
    case True
    then show ?thesis by (simp add: check_step[OF f] Cons.IH seen names_apart_deleted del: check_folder_set.simps) (auto simp: image_iff)
  next
    case live: False
    show ?thesis
    proof (cases "rf_FolderID st \<in> rf_FolderID ` set sts")
      case True
      with live show ?thesis by (simp add: check_step[OF f] Cons.IH seen del: check_folder_set.simps) (auto simp: image_iff)
    next
      case False
      with live show ?thesis
        by (simp add: check_step[OF f] Cons.IH seen names_apart_Cons[OF False tot f live] del: check_folder_set.simps)
          (auto simp: image_iff)
    qed
  qed
qed

lemma note_roles_set: "set (foldl (note_role sx did) roles sts)
    = set roles \<union> {r. \<exists>st \<in> set sts. standardRoleForID sx did (rf_FolderID st) = Some r}"
  by (induction sts arbitrary: roles) (auto simp: note_role_def split: option.splits)

lemma note_roles_distinct: "distinct roles \<Longrightarrow> distinct (foldl (note_role sx did) roles sts)"
  by (induction sts arbitrary: roles) (auto simp: note_role_def split: option.splits)

lemma role_search_member: "role_search sx did fid roles = Some r \<Longrightarrow> r \<in> set roles \<and> StandardFolderID sx did r = Inr fid"
  by (induction roles) (auto split: if_splits)

lemma all_roles_iff:
  "length (foldl (note_role sx did) [] sts) = length standardFolderRoles \<longleftrightarrow>
     (\<forall>r \<in> set standardFolderRoles. \<exists>st \<in> set sts. standardRoleForID sx did (rf_FolderID st) = Some r)"
proof -
  let ?R = "foldl (note_role sx did) [] sts"
  have sub: "set ?R \<subseteq> set standardFolderRoles"
    using role_search_member by (fastforce simp: note_roles_set standardRoleForID_def)
  have dis: "distinct ?R" "distinct standardFolderRoles"
    by (simp add: note_roles_distinct) (simp add: standardFolderRoles_def)
  have "length ?R = length standardFolderRoles \<longleftrightarrow> set ?R = set standardFolderRoles"
    using sub dis by (metis List.finite_set card_subset_eq distinct_card)
  also have "\<dots> \<longleftrightarrow> set standardFolderRoles \<subseteq> set ?R" using sub by auto
  finally show ?thesis by (auto simp: note_roles_set)
qed

text \<open>The specification of a consistent set of folders.\<close>

definition folder_set_ok ::
  "syntax_api \<Rightarrow> (nat \<Rightarrow> nat) \<Rightarrow> bytes \<Rightarrow> ReducedFolderState list \<Rightarrow> VerifiedFolderSetSnapshot \<Rightarrow> bool" where
  "folder_set_ok sx sf did sts s \<longleftrightarrow>
     length sts \<le> maxFolderCount \<and> folder_set_validFor sx s did (length sts)
     \<and> distinct (map rf_FolderID sts) \<and> (\<forall>st \<in> set sts. folder_state_ok sx did s st)
     \<and> (\<forall>r \<in> set standardFolderRoles. \<exists>st \<in> set sts. standardRoleForID sx did (rf_FolderID st) = Some r)
     \<and> (\<forall>a \<in> set sts. \<forall>b \<in> set sts. \<not> rf_Tombstone a \<and> \<not> rf_Tombstone b
          \<and> foldFolderName sf (rf_Name a) = foldFolderName sf (rf_Name b) \<longrightarrow> a = b)
     \<and> (\<forall>a \<in> set sts. \<not> rf_Tombstone a \<and> standardRoleForID sx did (rf_FolderID a) = None \<longrightarrow>
          (\<forall>n \<in> set (map snd standardFolderNames). foldFolderName sf (rf_Name a) \<noteq> foldFolderName sf n))"

lemma those_total: "(\<And>x. f x = Some (g x)) \<Longrightarrow> those (map f xs) = Some (map g xs)"
  by (induction xs) auto

lemma names_apart_distinct:
  assumes dis: "distinct (map rf_FolderID sts)" and nm: "\<And>n. foldFolderName sf n = Some (nm n)"
  shows "names_apart sx sf did (map nm ns) sts [] \<longleftrightarrow>
      (\<forall>a \<in> set sts. \<forall>b \<in> set sts. \<not> rf_Tombstone a \<and> \<not> rf_Tombstone b
          \<and> foldFolderName sf (rf_Name a) = foldFolderName sf (rf_Name b) \<longrightarrow> a = b)
     \<and> (\<forall>a \<in> set sts. \<not> rf_Tombstone a \<and> standardRoleForID sx did (rf_FolderID a) = None \<longrightarrow>
          (\<forall>n \<in> set ns. foldFolderName sf (rf_Name a) \<noteq> foldFolderName sf n))"
proof -
  have inj: "rf_FolderID a = rf_FolderID b \<longleftrightarrow> a = b" if "a \<in> set sts" "b \<in> set sts" for a b
    using dis that by (auto simp: distinct_map inj_on_def)
  have res: "nm (rf_Name a) \<notin> set (map nm ns) \<longleftrightarrow> (\<forall>n \<in> set ns. nm (rf_Name a) \<noteq> nm n)" for a :: ReducedFolderState by auto
  show ?thesis unfolding names_apart_def nm option.sel option.inject res using inj by (simp cong: ball_cong) blast
qed

lemma ValidateFolderSet_spec:
  assumes laws: "simple_fold_laws sf cls"
  shows "ValidateFolderSet sx sf did sts s = Some (Inr ()) \<longleftrightarrow> folder_set_ok sx sf did sts s"
proof -
  define nm where "nm n = the (foldFolderName sf n)" for n
  have nm: "foldFolderName sf n = Some (nm n)" for n
    by (simp add: nm_def foldFolderName_def fold_runes_least[OF laws])
  then have tot: "\<exists>x. foldFolderName sf n = Some x" for n by blast
  let ?res = "map nm (map snd standardFolderNames)"
  have those: "those (map (foldFolderName sf) (map snd standardFolderNames)) = Some ?res"
    using those_total[of "foldFolderName sf" nm] nm by blast
  have check: "(\<exists>R. check_folder_set sx sf did s ?res sts [] [] [] = Some (Inr R) \<and> length R = length standardFolderRoles) \<longleftrightarrow>
      (\<forall>st \<in> set sts. folder_state_ok sx did s st) \<and> distinct (map rf_FolderID sts) \<and> names_apart sx sf did ?res sts []
      \<and> length (foldl (note_role sx did) [] sts) = length standardFolderRoles"
    by (auto simp: check_folder_set_iff[OF tot])
  have apart: "distinct (map rf_FolderID sts) \<Longrightarrow> names_apart sx sf did ?res sts [] \<longleftrightarrow>
      (\<forall>a \<in> set sts. \<forall>b \<in> set sts. \<not> rf_Tombstone a \<and> \<not> rf_Tombstone b
          \<and> foldFolderName sf (rf_Name a) = foldFolderName sf (rf_Name b) \<longrightarrow> a = b)
     \<and> (\<forall>a \<in> set sts. \<not> rf_Tombstone a \<and> standardRoleForID sx did (rf_FolderID a) = None \<longrightarrow>
          (\<forall>n \<in> set (map snd standardFolderNames). foldFolderName sf (rf_Name a) \<noteq> foldFolderName sf n))"
    by (rule names_apart_distinct[OF _ nm])
  have "ValidateFolderSet sx sf did sts s = Some (Inr ()) \<longleftrightarrow>
      length sts \<le> maxFolderCount \<and> folder_set_validFor sx s did (length sts)
      \<and> (\<exists>R. check_folder_set sx sf did s ?res sts [] [] [] = Some (Inr R) \<and> length R = length standardFolderRoles)"
    unfolding ValidateFolderSet_def those by (auto split: option.splits sum.splits if_splits)
  then show ?thesis unfolding check folder_set_ok_def all_roles_iff using apart by blast
qed

lemma check_folder_set_returns:
  assumes tot: "\<And>n. \<exists>x. foldFolderName sf n = Some x"
  shows "check_folder_set sx sf did s reserved sts seen live roles \<noteq> None"
proof (induction sts arbitrary: seen live roles)
  case (Cons st sts)
  obtain folded where "foldFolderName sf (rf_Name st) = Some folded" using tot by blast
  with Cons.IH show ?case by (simp add: Let_def)
qed simp

lemma ValidateFolderSet_returns:
  assumes "simple_fold_laws sf cls"
  shows "ValidateFolderSet sx sf did sts s \<noteq> None"
proof -
  define nm where "nm n = the (foldFolderName sf n)" for n
  have nm: "foldFolderName sf n = Some (nm n)" for n
    by (simp add: nm_def foldFolderName_def fold_runes_least[OF assms])
  then have "\<exists>x. foldFolderName sf n = Some x" for n by blast
  note check = check_folder_set_returns[OF this]
  have "those (map (foldFolderName sf) (map snd standardFolderNames)) = Some (map nm (map snd standardFolderNames))"
    by (rule those_total) (rule nm)
  with check[of sx did s "map nm (map snd standardFolderNames)" sts "[]" "[]" "[]"] show ?thesis
    unfolding ValidateFolderSet_def by (auto split: sum.splits)
qed

section \<open>Keys are commitments\<close>

lemma digest_hex: "trim_prefix (digestBytes x) ''sha256-'' = hex_encode (sha256 x)"
  by (simp only: digestBytes_def trim_prefix_append)

definition same_folder_revision :: "FolderRevisionRecord \<Rightarrow> FolderRevisionRecord \<Rightarrow> bool" where
  "same_folder_revision r r' \<longleftrightarrow> elems (fvr_Parents r) = elems (fvr_Parents r')
     \<and> r\<lparr>fvr_Parents := None\<rparr> = r'\<lparr>fvr_Parents := None\<rparr>"

lemma encode_folder_revision_inj: "encode_folder_revision r = encode_folder_revision r' \<longleftrightarrow> same_folder_revision r r'"
  by (cases r; cases r')
    (auto simp: encode_folder_revision_def same_folder_revision_def str.frame_iff strs.frame_iff u64.frame_iff
      flag.frame_iff str.frame_inj)

lemma CanonicalFolderRevisionBytes_Inr:
  "CanonicalFolderRevisionBytes r = Inr b \<Longrightarrow> b = encode_folder_revision r \<and> length b \<le> maxRevisionRecordBytes"
  by (auto simp: CanonicalFolderRevisionBytes_def split: if_splits sum.splits)

lemma FolderRevisionRKey_Inr:
  assumes "FolderRevisionRKey sx did r = Inr k"
  shows "k = ''folder-state-'' @ hex_encode (sha256 (folder_rkey_preimage did (encode_folder_revision r)))" and "validCanonicalDID sx did"
  using assms by (auto simp: FolderRevisionRKey_def dest: CanonicalFolderRevisionBytes_Inr split: if_splits sum.splits)

lemma folder_rkey_preimage_inj:
  assumes "CHR 0x00 \<notin> set d" and "CHR 0x00 \<notin> set d'"
  shows "folder_rkey_preimage d x = folder_rkey_preimage d' y \<longleftrightarrow> d = d' \<and> x = y"
  using assms by (simp add: folder_rkey_preimage_def terminated_inj)

lemma folder_claim_preimage_inj:
  "folder_claim_preimage d f x = folder_claim_preimage d' f' x' \<longleftrightarrow> d = d' \<and> f = f' \<and> x = x'"
  by (simp add: folder_claim_preimage_def str.frame_iff str.frame_inj)

lemma standard_preimage_inj: "standard_preimage d r = standard_preimage d' r' \<longleftrightarrow> d = d' \<and> r = r'"
  by (simp add: standard_preimage_def str.frame_iff str.frame_inj)

text \<open>Two roles with the same identity are a collision, so the order of the role map does not matter otherwise.\<close>

lemma standard_id_commits:
  assumes "StandardFolderID sx did role = Inr fid" and "StandardFolderID sx did' role' = Inr fid"
  shows "(did = did' \<and> role = role') \<or> (standard_preimage did role \<noteq> standard_preimage did' role'
      \<and> sha256 (standard_preimage did role) = sha256 (standard_preimage did' role'))"
  using assms by (auto simp: StandardFolderID_def digest_hex hex_encode_inj standard_preimage_inj split: if_splits)

section \<open>Standard folders\<close>

lemma folder_names_given:
  assumes "folder_reducible sx did fid s es"
  shows "\<exists>e \<in> set es. fv_parents e = [] \<and> fvr_Name (fv_Record e) \<noteq> [] \<and> \<not> fvr_Tombstone (fv_Record e)"
proof -
  have "filter (\<lambda>e. fv_parents e = []) es \<noteq> []" using assms by (simp add: folder_reducible_def)
  then obtain e where "e \<in> set es" "fv_parents e = []" by (auto simp: filter_empty_conv)
  with folder_checkedD(2)[OF assms] show ?thesis by (auto simp: folder_initial_ok_def Let_def)
qed

lemma standard_folder_registers:
  assumes red: "folder_reducible sx did fid s es" and role: "standardRoleForID sx did fid = Some role" and e: "e \<in> set es"
  shows "name_assigned e \<in> {None, Some (standardName role)}" "role_assigned e \<in> {None, Some role}" "\<not> fvr_Tombstone (fv_Record e)"
    "fv_parents e = [] \<Longrightarrow> fvr_Name (fv_Record e) = standardName role \<and> fvr_Role (fv_Record e) = role"
proof -
  note val = folder_checkedD(1)[OF red e]
  show "\<not> fvr_Tombstone (fv_Record e)" by (rule validateFolderRevisionD(5)[OF val role])
  show root: "fv_parents e = [] \<Longrightarrow> fvr_Name (fv_Record e) = standardName role \<and> fvr_Role (fv_Record e) = role"
    using folder_checkedD(2)[OF red e] role by (auto simp: folder_initial_ok_def Let_def)
  show "name_assigned e \<in> {None, Some (standardName role)}" "role_assigned e \<in> {None, Some role}"
    using root validateFolderRevisionD(6)[OF val role]
    by (cases "fv_parents e = []"; auto simp: name_assigned_def role_assigned_def folder_assigns_def)+
qed

lemma standard_role_nonempty: "standardRoleForID sx did fid = Some role \<Longrightarrow> role \<noteq> [] \<and> standardName role \<noteq> []"
  using role_search_member[of sx did fid standardFolderRoles role]
  by (auto simp: standardRoleForID_def standardFolderRoles_def standardName_def standardFolderNames_def)

lemma standard_latest:
  assumes red: "folder_reducible sx did fid s es" and role: "standardRoleForID sx did fid = Some role"
  shows "latest name_assigned (event_order fv_height fv_operation es) = Some (standardName role)"
    "latest role_assigned (event_order fv_height fv_operation es) = Some role"
proof -
  obtain e where e: "e \<in> set es" "fv_parents e = []" using folder_names_given[OF red] by blast
  note reg = standard_folder_registers[OF red role]
  from reg(4)[OF e] standard_role_nonempty[OF role]
  have given: "name_assigned e = Some (standardName role)" "role_assigned e = Some role"
    by (simp_all add: name_assigned_def role_assigned_def)
  show "latest name_assigned (event_order fv_height fv_operation es) = Some (standardName role)"
    using given(1) e(1) by (intro latest_agreed[where e = e]) (auto dest: reg(1))
  show "latest role_assigned (event_order fv_height fv_operation es) = Some role"
    using given(2) e(1) by (intro latest_agreed[where e = e]) (auto dest: reg(2))
qed

section \<open>A small folder\<close>

text \<open>Case folding of ASCII letters with the two letters outside ASCII that fold to one (U+212A and U+017F).\<close>

definition latin_class :: "nat \<Rightarrow> nat set" where
  "latin_class r =
     (if r \<in> {75, 107, 8490} then {75, 107, 8490} else if r \<in> {83, 115, 383} then {83, 115, 383}
      else if 65 \<le> r \<and> r \<le> 90 then {r, r + 32} else if 97 \<le> r \<and> r \<le> 122 then {r - 32, r} else {r})"

definition latin_fold :: "nat \<Rightarrow> nat" where
  "latin_fold r =
     (if r = 107 then 8490 else if r = 8490 then 75 else if r = 115 then 383 else if r = 383 then 83
      else if 65 \<le> r \<and> r \<le> 90 then r + 32 else if 97 \<le> r \<and> r \<le> 122 then r - 32 else r)"

lemma latin_fold_laws: "simple_fold_laws latin_fold latin_class"
  unfolding simple_fold_laws_def
proof
  fix r
  let ?law = "finite (latin_class r) \<and> r \<in> latin_class r \<and> (\<forall>q \<in> latin_class r. latin_class q = latin_class r)
      \<and> latin_fold r \<in> latin_class r
      \<and> ((\<exists>q \<in> latin_class r. r < q) \<longrightarrow> r < latin_fold r \<and> (\<forall>q \<in> latin_class r. r < q \<longrightarrow> latin_fold r \<le> q))
      \<and> (\<not> (\<exists>q \<in> latin_class r. r < q) \<longrightarrow> (\<forall>q \<in> latin_class r. latin_fold r \<le> q))"
  consider (special) "r \<in> {75, 107, 8490, 83, 115, 383}" | (upper) "65 \<le> r" "r \<le> 90" "r \<notin> {75, 83}"
    | (lower) "97 \<le> r" "r \<le> 122" "r \<notin> {107, 115}" | (other) "r \<notin> {75, 107, 8490, 83, 115, 383}" "\<not> (65 \<le> r \<and> r \<le> 90)" "\<not> (97 \<le> r \<and> r \<le> 122)"
    by fastforce
  then show ?law
  proof cases
    case special
    then show ?thesis by (elim insertE) (simp_all add: latin_class_def latin_fold_def)
  next
    case upper
    then have "latin_class r = {r, r + 32}" "latin_class (r + 32) = {r, r + 32}" "latin_fold r = r + 32"
      by (auto simp: latin_class_def latin_fold_def)
    then show ?thesis by simp
  next
    case lower
    then have "latin_class r = {r - 32, r}" "latin_class (r - 32) = {r - 32, r}" "latin_fold r = r - 32"
      by (auto simp: latin_class_def latin_fold_def)
    with lower show ?thesis by simp
  next
    case other
    then have "latin_class r = {r}" "latin_fold r = r" by (auto simp: latin_class_def latin_fold_def)
    then show ?thesis by simp
  qed
qed

definition demo_inbox :: bytes where
  "demo_inbox = ''folder-'' @ hex_encode (sha256 (standard_preimage ''did:a'' ''inbox''))"

definition demo_folder_revision :: FolderRevisionRecord where
  "demo_folder_revision = \<lparr>fvr_Type = FolderRevisionCollection, fvr_FolderID = demo_inbox, fvr_OperationID = ''op1'',
     fvr_Parents = Some [], fvr_Revision = 1, fvr_Name = ''Inbox'', fvr_Role = ''inbox'', fvr_Tombstone = False, fvr_Merge = False,
     fvr_CreatedAt = ''2026-07-01T12:30:45Z''\<rparr>"

definition demo_folder_event :: FolderStateRevision where
  "demo_folder_event = \<lparr>fv_RKey = ''folder-state-'' @ hex_encode (sha256 (folder_rkey_preimage ''did:a'' (encode_folder_revision demo_folder_revision))),
     fv_Record = demo_folder_revision\<rparr>"

definition demo_folder_claim :: bytes where
  "demo_folder_claim = ''folder-operation-'' @ hex_encode (sha256 (folder_claim_preimage ''did:a'' demo_inbox ''op1''))"

definition demo_folder_unsealed :: VerifiedFolderSnapshot where
  "demo_folder_unsealed = \<lparr>fs_snapshotID = ''snap'', fs_folderID = demo_inbox, fs_revisionCount = 1,
     fs_operationClaims = [(demo_folder_claim, fv_RKey demo_folder_event)], fs_seal = []\<rparr>"

definition demo_folder_snapshot :: VerifiedFolderSnapshot where
  "demo_folder_snapshot = demo_folder_unsealed\<lparr>fs_seal := folder_snapshotSeal demo_folder_unsealed\<rparr>"

definition demo_set_snapshot :: VerifiedFolderSetSnapshot where
  "demo_set_snapshot = \<lparr>ss_snapshotID = ''snap'', ss_repoDID = ''did:a'', ss_folderCount = 1, ss_stateDigests = [], ss_seal = []\<rparr>"

lemma demo_inbox_facts:
  "length demo_inbox = 71" "utf8_valid demo_inbox" "validFolderID demo_inbox"
  "StandardFolderID plain_syntax ''did:a'' ''inbox'' = Inr demo_inbox" "standardRoleForID plain_syntax ''did:a'' demo_inbox = Some ''inbox''"
proof -
  show "length demo_inbox = 71" by (simp add: demo_inbox_def)
  show "utf8_valid demo_inbox" by (rule printable_utf8) (simp add: demo_inbox_def printable_Cons byte_def)
  have "has_prefix demo_inbox ''folder-''" "trim_prefix demo_inbox ''folder-'' = hex_encode (sha256 (standard_preimage ''did:a'' ''inbox''))"
    by (simp_all only: demo_inbox_def has_prefix_append trim_prefix_append)
  then show "validFolderID demo_inbox"
    using lower_hex_to_lower[OF lower_hex_encode, of "sha256 (standard_preimage ''did:a'' ''inbox'')"]
    by (simp add: validFolderID_def demo_inbox_def)
  show id: "StandardFolderID plain_syntax ''did:a'' ''inbox'' = Inr demo_inbox"
    using demo_identifiers(10) by (simp add: StandardFolderID_def digest_hex demo_inbox_def standardFolderRoles_def)
  then show "standardRoleForID plain_syntax ''did:a'' demo_inbox = Some ''inbox''"
    by (simp add: standardRoleForID_def standardFolderRoles_def)
qed

lemma demo_folder_encoded: "CanonicalFolderRevisionBytes demo_folder_revision = Inr (encode_folder_revision demo_folder_revision)"
proof -
  have "length (encode_folder_revision demo_folder_revision) \<le> maxRevisionRecordBytes"
    by (simp add: encode_folder_revision_def demo_folder_revision_def folder_revision_prefix_def cw_string_def cw_strings_def cw_len_def
        cw_uint64_def cw_byte_def cw_boolean_def demo_inbox_facts uvarint_small FolderRevisionCollection_def maxRevisionRecordBytes_def)
  then show ?thesis
    using demo_inbox_facts(2)
    by (simp add: CanonicalFolderRevisionBytes_def) (simp add: demo_folder_revision_def demo_inbox_facts(1) maxIdentifierBytes_def
        maxOperationIDBytes_def maxParents_def FolderRevisionCollection_def byte_def)
qed

lemma demo_folder_key: "FolderRevisionRKey plain_syntax ''did:a'' demo_folder_revision = Inr (fv_RKey demo_folder_event)"
  using demo_folder_encoded demo_identifiers(9,10) demo_inbox_facts(3)
  by (simp add: FolderRevisionRKey_def demo_folder_event_def) (simp add: demo_folder_revision_def)

lemma demo_folder_checked:
  "folder_check_claimed plain_syntax ''did:a'' demo_inbox demo_folder_snapshot demo_folder_event = Inr ()"
proof -
  have parse: "parse_RFC3339Nano ''2026-07-01T12:30:45Z''" and name: "validText ''Inbox'' 255" by code_simp+
  have rec: "fv_Record demo_folder_event = demo_folder_revision" by (simp add: demo_folder_event_def)
  have "validateFolderRevision plain_syntax ''did:a'' demo_inbox demo_folder_event = Inr ()"
    unfolding validateFolderRevision_def Let_def rec demo_folder_key
    using demo_identifiers(9) demo_inbox_facts parse name
    by (simp add: demo_folder_revision_def strictlySortedFolderParents_def maxPortableRevision_def maxParents_def)
  moreover have "NewFolderOperationClaim plain_syntax ''did:a'' demo_folder_event = Inr \<lparr>fc_RKey = demo_folder_claim, fc_Record =
      \<lparr>fo_Type = FolderOperationCollection, fo_FolderID = demo_inbox, fo_OperationID = ''op1'', fo_RevisionRKey = fv_RKey demo_folder_event\<rparr>\<rparr>"
    using demo_folder_key demo_identifiers(9,10) demo_inbox_facts(3)
    by (simp add: NewFolderOperationClaim_def rec FolderOperationClaimRKey_def demo_folder_claim_def digest_hex)
      (simp add: demo_folder_revision_def)
  moreover have "map_of (fs_operationClaims demo_folder_snapshot) demo_folder_claim = Some (fv_RKey demo_folder_event)"
    by (simp add: demo_folder_snapshot_def demo_folder_unsealed_def)
  ultimately show ?thesis by (simp add: folder_check_claimed_def)
qed

lemma demo_folder_reducible: "folder_reducible plain_syntax ''did:a'' demo_inbox demo_folder_snapshot [demo_folder_event]"
proof -
  have rec: "fv_Record demo_folder_event = demo_folder_revision" by (simp add: demo_folder_event_def)
  have seal: "folder_snapshotSeal demo_folder_snapshot = fs_seal demo_folder_snapshot"
    by (simp add: demo_folder_snapshot_def folder_snapshotSeal_def folder_snapshot_preimage_def)
  have "validIdentifier ''snap'' maxIdentifierBytes" by code_simp
  then have "folder_validFor demo_folder_snapshot demo_inbox 1"
    by (simp add: folder_validFor_def seal) (simp add: demo_folder_snapshot_def demo_folder_unsealed_def)
  moreover have "folder_size demo_folder_event = Inr (length (encode_folder_revision demo_folder_revision))"
    "length (encode_folder_revision demo_folder_revision) \<le> maxRevisionInventoryBytes"
    using CanonicalFolderRevisionBytes_Inr[OF demo_folder_encoded]
    by (simp_all add: folder_size_def rec demo_folder_encoded maxRevisionInventoryBytes_def maxRevisionRecordBytes_def)
  moreover have "folder_initial_ok plain_syntax ''did:a'' demo_inbox demo_folder_event" "fv_parents demo_folder_event = []"
    using demo_inbox_facts(5)
    by (simp_all add: folder_initial_ok_def rec demo_folder_revision_def standardName_def standardFolderNames_def)
  ultimately show ?thesis
    using demo_folder_checked demo_identifiers(10) demo_inbox_facts(3)
    by (simp add: folder_reducible_def maxRevisionCount_def admitted_def event_fine_def size_of_def event_linked_def)
qed

lemma demo_folder_reduce:
  obtains st where "ReduceFolder plain_syntax ''did:a'' demo_inbox [demo_folder_event] demo_folder_snapshot = Inr st"
  using demo_folder_reducible by (simp add: ReduceFolder_iff event_order_def demo_folder_event_def demo_folder_revision_def)

section \<open>Properties\<close>

text \<open>The folder reducer converges: acceptance and result do not depend on the order in which the
  revisions are listed, although a folder log may have several concurrent first revisions.\<close>

theorem ReduceFolder_order_independent:
  assumes "mset es = mset es'"
  shows "ReduceFolder sx did fid es s = Inr st \<longleftrightarrow> ReduceFolder sx did fid es' s = Inr st"
  using ReduceFolder_perm[OF assms] ReduceFolder_perm[OF assms[symmetric]] by blast

theorem ReduceFolder_order_independent_witness:
  "\<exists>st. ReduceFolder plain_syntax ''did:a'' demo_inbox [demo_folder_event] demo_folder_snapshot = Inr st
    \<and> ReduceFolder plain_syntax ''did:a'' demo_inbox (rev [demo_folder_event]) demo_folder_snapshot = Inr st"
proof -
  obtain st where st: "ReduceFolder plain_syntax ''did:a'' demo_inbox [demo_folder_event] demo_folder_snapshot = Inr st"
    by (rule demo_folder_reduce)
  have "mset [demo_folder_event] = mset (rev [demo_folder_event])" by simp
  from ReduceFolder_order_independent[OF this, of plain_syntax "''did:a''" demo_inbox demo_folder_snapshot st] st show ?thesis by blast
qed

text \<open>What a reduced folder says. It has a name: that of the last revision, by height and then
  operation, that gives one. It is deleted if and only if some revision deletes it; no revision that names
  it has a deletion among its ancestors; its heads are exactly the keys of the revisions that are nobody's
  parent, and there is at least one.\<close>

theorem ReduceFolder_meaning:
  assumes "ReduceFolder sx did fid es s = Inr st"
  shows "latest name_assigned (event_order fv_height fv_operation es) = Some (rf_Name st) \<and> rf_Name st \<noteq> []
    \<and> rf_Role st = or_empty (latest role_assigned (event_order fv_height fv_operation es))
    \<and> (rf_Tombstone st \<longleftrightarrow> (\<exists>e \<in> set es. fvr_Tombstone (fv_Record e)))
    \<and> (\<forall>e \<in> set es. folder_assigns e \<longrightarrow>
         \<not> (\<exists>a. (parent_in fv_RKey fv_parents es)\<^sup>+\<^sup>+ a e \<and> fvr_Tombstone (fv_Record a)))
    \<and> set (rf_Heads st) = {fv_RKey h | h. h \<in> set es \<and> (\<forall>c \<in> set es. fv_RKey h \<notin> set (fv_parents c))}
    \<and> rf_Heads st \<noteq> [] \<and> sorted_wrt (<) (rf_Heads st)"
proof -
  note regs = ReduceFolder_registers[OF assms]
  from assms have red: "folder_reducible sx did fid s es"
    and walk: "\<exists>fl. tombstone_walk fv_RKey fv_parents (\<lambda>e. fvr_Tombstone (fv_Record e)) folder_assigns []
      (event_order fv_height fv_operation es) = Inr fl" by (auto simp: ReduceFolder_iff)
  obtain e where "e \<in> set es" "fvr_Name (fv_Record e) \<noteq> []" using folder_names_given[OF red] by blast
  then have "latest name_assigned (event_order fv_height fv_operation es) \<noteq> None"
    by (auto simp: latest_None name_assigned_def)
  then obtain n where n: "latest name_assigned (event_order fv_height fv_operation es) = Some n" by blast
  then have "n \<noteq> []" by (auto simp: name_assigned_def dest!: latest_member split: if_splits)
  with n regs(4) have "latest name_assigned (event_order fv_height fv_operation es) = Some (rf_Name st)" "rf_Name st \<noteq> []"
    by (simp_all add: or_empty_def)
  with regs(5-7) walk[unfolded flog.walk_accepts[OF red]] flog.heads_spec[of es] flog.heads_nonempty[OF red]
    flog.heads_sorted[OF red] show ?thesis by auto
qed

theorem ReduceFolder_meaning_witness:
  "\<exists>st. ReduceFolder plain_syntax ''did:a'' demo_inbox [demo_folder_event] demo_folder_snapshot = Inr st
    \<and> rf_Name st = ''Inbox'' \<and> \<not> rf_Tombstone st"
proof -
  obtain st where st: "ReduceFolder plain_syntax ''did:a'' demo_inbox [demo_folder_event] demo_folder_snapshot = Inr st"
    by (rule demo_folder_reduce)
  have "event_order fv_height fv_operation [demo_folder_event] = [demo_folder_event]" by (simp add: event_order_def)
  with ReduceFolder_meaning[OF st] have "rf_Name st = ''Inbox''" "\<not> rf_Tombstone st"
    by (simp_all add: latest_def name_assigned_def demo_folder_event_def demo_folder_revision_def)
  with st show ?thesis by blast
qed

text \<open>Standard folders are protected: whatever revisions a log contains, a folder with the identity of
  a standard role is reduced to that role with its standard name and is never deleted, and every other
  folder has no role.\<close>

theorem standard_folder_protected:
  assumes "ReduceFolder sx did fid es s = Inr st"
  shows "case standardRoleForID sx did fid of
      Some role \<Rightarrow> rf_Role st = role \<and> rf_Name st = standardName role \<and> \<not> rf_Tombstone st
    | None \<Rightarrow> rf_Role st = []"
proof -
  note regs = ReduceFolder_registers[OF assms]
  from assms have red: "folder_reducible sx did fid s es" by (simp add: ReduceFolder_iff)
  show ?thesis
  proof (cases "standardRoleForID sx did fid")
    case None
    have "role_assigned e = None" if "e \<in> set es" for e
      using validateFolderRevisionD(7)[OF folder_checkedD(1)[OF red that] None] by (simp add: role_assigned_def)
    then have "latest role_assigned (event_order fv_height fv_operation es) = None" by (simp add: latest_None)
    with None regs(5) show ?thesis by (simp add: or_empty_def)
  next
    case (Some role)
    with standard_latest[OF red Some] standard_folder_registers(3)[OF red Some] regs(4-6) show ?thesis
      by (simp add: or_empty_def)
  qed
qed

theorem standard_folder_protected_witness:
  "\<exists>st. ReduceFolder plain_syntax ''did:a'' demo_inbox [demo_folder_event] demo_folder_snapshot = Inr st
    \<and> rf_Role st = ''inbox'' \<and> rf_Name st = standardName ''inbox''"
proof -
  obtain st where st: "ReduceFolder plain_syntax ''did:a'' demo_inbox [demo_folder_event] demo_folder_snapshot = Inr st"
    by (rule demo_folder_reduce)
  with standard_folder_protected[OF st] demo_inbox_facts(5) show ?thesis by auto
qed

text \<open>C34. \<open>ValidateFolderSet\<close> returns, and it accepts exactly the consistent folder sets: complete
  with respect to the sealed snapshot, one folder per identity, every state with its own digest, every
  standard role present and unaltered, no two live folders whose names fold to the same string, and no
  other live folder with a name that folds to that of a standard one.\<close>

theorem ValidateFolderSet_exact:
  assumes "simple_fold_laws sf cls"
  shows "(ValidateFolderSet sx sf did sts s = Some (Inr ()) \<longleftrightarrow> folder_set_ok sx sf did sts s)
    \<and> ValidateFolderSet sx sf did sts s \<noteq> None"
  using ValidateFolderSet_spec[OF assms] ValidateFolderSet_returns[OF assms] by blast

theorem ValidateFolderSet_exact_witness:
  "\<exists>st. ReduceFolder plain_syntax ''did:a'' demo_inbox [demo_folder_event] demo_folder_snapshot = Inr st
    \<and> ValidateFolderSet plain_syntax latin_fold ''did:a'' [st] demo_set_snapshot \<noteq> Some (Inr ())"
proof -
  obtain st where st: "ReduceFolder plain_syntax ''did:a'' demo_inbox [demo_folder_event] demo_folder_snapshot = Inr st"
    by (rule demo_folder_reduce)
  have "\<not> folder_set_ok plain_syntax latin_fold ''did:a'' [st] demo_set_snapshot"
    by (auto simp: folder_set_ok_def standardFolderRoles_def)
  with ValidateFolderSet_exact[OF latin_fold_laws] st show ?thesis by blast
qed

text \<open>The loop that folds a name ends for every name, and names that differ only in the case of
  their letters, rune by rune under simple case folding, fold to the same string.\<close>

theorem foldFolderName_returns:
  assumes "simple_fold_laws sf cls"
  shows "\<exists>folded. foldFolderName sf a = Some folded \<and> (same_name cls a b \<longrightarrow> foldFolderName sf b = Some folded)"
  using fold_same_name[OF assms, of a b] fold_runes_least[OF assms, of "runes a"] by (auto simp: foldFolderName_def)

theorem foldFolderName_returns_witness:
  "\<exists>folded. foldFolderName latin_fold ''Junk'' = Some folded \<and> foldFolderName latin_fold ''jUNK'' = Some folded"
proof -
  have "same_name latin_class ''Junk'' ''jUNK''"
    by (simp add: same_name_def runes.simps rune_at_def rune_len_def byte_def latin_class_def insert_commute)
  with foldFolderName_returns[OF latin_fold_laws] show ?thesis by blast
qed

text \<open>Folder keys commit: two folder revisions with the same key belong to the same repository and
  agree in every field, and two claims with the same key are for the same repository, folder and operation,
  unless SHA-256 collides on their preimages.\<close>

theorem folder_keys_commit:
  assumes "FolderRevisionRKey sx did r = Inr k" and "FolderRevisionRKey sx did' r' = Inr k" and "syntax_laws sx"
    and "FolderOperationClaimRKey sx d f p = Inr c" and "FolderOperationClaimRKey sx d' f' p' = Inr c"
  shows "((did = did' \<and> same_folder_revision r r')
      \<or> (folder_rkey_preimage did (encode_folder_revision r) \<noteq> folder_rkey_preimage did' (encode_folder_revision r')
        \<and> sha256 (folder_rkey_preimage did (encode_folder_revision r)) = sha256 (folder_rkey_preimage did' (encode_folder_revision r'))))
    \<and> ((d = d' \<and> f = f' \<and> p = p') \<or> (folder_claim_preimage d f p \<noteq> folder_claim_preimage d' f' p'
        \<and> sha256 (folder_claim_preimage d f p) = sha256 (folder_claim_preimage d' f' p')))"
proof
  note keys = FolderRevisionRKey_Inr[OF assms(1)] FolderRevisionRKey_Inr[OF assms(2)]
  have "CHR 0x00 \<notin> set did" "CHR 0x00 \<notin> set did'"
    using keys(2,4) assms(3) by (auto simp: validCanonicalDID_def syntax_laws_def)
  from folder_rkey_preimage_inj[OF this] keys(1,3)
  show "(did = did' \<and> same_folder_revision r r')
      \<or> (folder_rkey_preimage did (encode_folder_revision r) \<noteq> folder_rkey_preimage did' (encode_folder_revision r')
        \<and> sha256 (folder_rkey_preimage did (encode_folder_revision r)) = sha256 (folder_rkey_preimage did' (encode_folder_revision r')))"
    by (auto simp: hex_encode_inj encode_folder_revision_inj)
  show "(d = d' \<and> f = f' \<and> p = p') \<or> (folder_claim_preimage d f p \<noteq> folder_claim_preimage d' f' p'
        \<and> sha256 (folder_claim_preimage d f p) = sha256 (folder_claim_preimage d' f' p'))"
    using assms(4,5) by (auto simp: FolderOperationClaimRKey_def digest_hex hex_encode_inj folder_claim_preimage_inj split: if_splits)
qed

theorem folder_keys_commit_witness:
  "\<exists>k c. FolderRevisionRKey plain_syntax ''did:a'' demo_folder_revision = Inr k
    \<and> FolderOperationClaimRKey plain_syntax ''did:a'' demo_inbox ''op1'' = Inr c \<and> same_folder_revision demo_folder_revision demo_folder_revision"
proof -
  have "FolderOperationClaimRKey plain_syntax ''did:a'' demo_inbox ''op1'' = Inr demo_folder_claim"
    using demo_identifiers(9,10) demo_inbox_facts(3) by (simp add: FolderOperationClaimRKey_def demo_folder_claim_def digest_hex)
  from folder_keys_commit[OF demo_folder_key demo_folder_key plain_syntax_laws this this] this demo_folder_key show ?thesis by auto
qed

end
