(* ===== verification/Source_Snapshot.thy ===== *)
theory Source_Snapshot
  imports Canonical
begin

text \<open>
  Package \<^verbatim>\<open>officialspaces\<close>, file \<^verbatim>\<open>snapshot.go\<close>: the read of a whole repository export. An
  export is a CAR stream: a header with two roots, the signed commit, an index from record
  paths to content identifiers, and one block per record in the order of the index. The
  reader checks every block against its identifier, the set hash of the index against
  the commit, and the commit against the repository's key; a read is accepted only if the
  commit before, in and after the stream is the same.

  CIDs, DAG-CBOR and BLAKE3 are third-party packages and therefore the parameter \<open>ipld_api\<close>;
  key resolution and signatures are \<open>resolver_api\<close>. Streams are the bytes still to be read.
\<close>

unbundle bit_operations_syntax

section \<open>Parameters\<close>

record Cid =
  c_Version :: nat
  c_Codec :: nat
  c_MhType :: nat
  c_MhLength :: nat
  c_Digest :: bytes

text \<open>A decoded DAG-CBOR value; a link whose CID is undefined is \<open>NLink None\<close>.\<close>

datatype node =
    NMap "(bytes \<times> node) list"
  | NList "node list"
  | NBool bool
  | NInt int
  | NString bytes
  | NBytes bytes
  | NLink "Cid option"
  | NNull
  | NFloat

record ipld_api =
  ip_CidFromBytes :: "bytes \<Rightarrow> (nat \<times> Cid) option"
  ip_ParseCid :: "bytes \<Rightarrow> Cid option"
  ip_DecodeCid :: "bytes \<Rightarrow> Cid option"
  ip_CidString :: "Cid \<Rightarrow> bytes"
  ip_Sum :: "Cid \<Rightarrow> bytes \<Rightarrow> Cid option"
  ip_DecodeCBOR :: "bytes \<Rightarrow> node option"
  ip_EncodeCBOR :: "node \<Rightarrow> bytes option"
  ip_Blake3 :: "bytes \<Rightarrow> bytes"

text \<open>
  \<open>rs_Resolve\<close> is \<^verbatim>\<open>ResolveRepoSource\<close>: the host and, unless nil, its key; \<open>rs_Verify\<close> is \<^verbatim>\<open>HashAndVerify\<close>
  of a key. \<open>rs_CleanOrigin\<close> is the normalisation of an origin, which rests on \<^verbatim>\<open>net/url\<close>.
\<close>

record resolver_api =
  rs_Resolve :: "bytes \<Rightarrow> (bytes \<times> bytes option) option"
  rs_CleanOrigin :: "bytes \<Rightarrow> bytes option"
  rs_Verify :: "bytes \<Rightarrow> bytes \<Rightarrow> bytes \<Rightarrow> bool"

section \<open>Constants and records\<close>

definition commitVersion :: int where "commitVersion = 1"
definition commitContextDomain :: bytes where "commitContextDomain = ''atproto-space-v1''"
definition ltHashStateBytes :: nat where "ltHashStateBytes = 2048"
definition maxCARHeaderBytes :: nat where "maxCARHeaderBytes = 64 * 1024"
definition maxCommitBlockBytes :: nat where "maxCommitBlockBytes = 64 * 1024"
definition maxIndexBlockBytes :: nat where "maxIndexBlockBytes = 64 * 1024 * 1024"
definition maxRecordBlockBytes :: nat where "maxRecordBlockBytes = 1024 * 1024"
definition maxRetainedRecordBytes :: nat where "maxRetainedRecordBytes = 64 * 1024 * 1024"
definition maxRepoRecords :: nat where "maxRepoRecords = 100000"
definition maxCBORNestingDepth :: nat where "maxCBORNestingDepth = 128"
definition maxCBORDataItems :: nat where "maxCBORDataItems = 350000"
definition maxRepoStreamBytes :: nat where "maxRepoStreamBytes = 512 * 1024 * 1024"

definition PinnedEpoch :: bytes where
  "PinnedEpoch = ''atproto-89deb9faca20e56fa2a262fe9746ed52bc1095ba''"

record OfficialTarget =
  ot_Origin :: bytes
  ot_SpaceURI :: bytes
  ot_RepoDID :: bytes
  ot_Epoch :: bytes

definition allowedCollections :: "bytes list" where
  "allowedCollections = [MessageCollection, MessageStateRevisionCollection, MessageStateOperationCollection,
     FolderRevisionCollection, FolderOperationCollection]"

definition allowedCollection :: "bytes \<Rightarrow> bool" where
  "allowedCollection collection = (collection \<in> set allowedCollections)"

record signedRepoCommit =
  sc_Version :: int
  sc_Hash :: bytes
  sc_IKM :: bytes
  sc_Signature :: bytes
  sc_MAC :: bytes
  sc_Revision :: bytes

record indexedRecord =
  ir_collection :: bytes
  ir_rkey :: bytes
  ir_cid :: Cid
  ir_value :: bytes

record SourceRecord =
  so_Collection :: bytes
  so_RKey :: bytes
  so_CID :: bytes
  so_Value :: bytes

record verifiedCAR =
  vc_commit :: signedRepoCommit
  vc_commitCID :: Cid
  vc_indexCID :: Cid
  vc_records :: "indexedRecord list"

record SourceAuthenticatedRepository =
  sa_target :: OfficialTarget
  sa_revision :: bytes
  sa_snapshotID :: bytes
  sa_commitCID :: bytes
  sa_indexCID :: bytes
  sa_repoHash :: bytes
  sa_records :: "SourceRecord list"
  sa_seal :: bytes

section \<open>Sections of a stream\<close>

text \<open>\<^verbatim>\<open>binary.Uvarint\<close> of a complete group: the value, unless it exceeds 64 bits.\<close>

fun uvarint_value :: "bytes \<Rightarrow> nat" where
  "uvarint_value [] = 0"
| "uvarint_value (c # s) = byte c mod 128 + 128 * uvarint_value s"

definition uvarint_overflows :: "bytes \<Rightarrow> bool" where
  "uvarint_overflows s = (length s = 10 \<and> byte (last s) > 1)"

text \<open>At most ten bytes are read; \<open>n\<close> of them are left and \<open>encoded\<close> has been read.\<close>

fun read_uvarint :: "nat \<Rightarrow> bytes \<Rightarrow> bytes \<Rightarrow> (nat \<times> bytes) result" where
  "read_uvarint 0 encoded s = Inl ErrSnapshotVerification"
| "read_uvarint (Suc n) encoded [] = Inl EOF"
| "read_uvarint (Suc n) encoded (c # s) =
     (if byte c \<ge> 128 then read_uvarint n (encoded @ [c]) s
      else (let group = encoded @ [c]; decoded = uvarint_value group in
        if uvarint_overflows group then Inl ErrSnapshotVerification
        else if uvarint decoded \<noteq> group then Inl ErrSnapshotVerification
        else Inr (decoded, s)))"

definition readCanonicalUvarint :: "bytes \<Rightarrow> (nat \<times> bytes) result" where
  "readCanonicalUvarint s = read_uvarint 10 [] s"

text \<open>\<^verbatim>\<open>io.ReadFull\<close> reports \<^verbatim>\<open>EOF\<close> when nothing could be read and another error when something could.\<close>

definition readCARSection :: "nat \<Rightarrow> bytes \<Rightarrow> (bytes \<times> bytes) result" where
  "readCARSection limit s =
     (case readCanonicalUvarint s of Inl e \<Rightarrow> Inl e | Inr (len, r) \<Rightarrow>
        if len = 0 \<or> len > limit then Inl ErrSnapshotVerification
        else if length r < len then (if r = [] then Inl EOF else Inl ErrUnexpectedEOF)
        else Inr (take len r, drop len r))"

definition cid_DagCBOR :: nat where "cid_DagCBOR = 113"
definition cid_Raw :: nat where "cid_Raw = 85"
definition multihash_SHA2_256 :: nat where "multihash_SHA2_256 = 18"

definition validDAGCBORCID :: "Cid \<Rightarrow> bool" where
  "validDAGCBORCID c = (c_Version c = 1 \<and> c_Codec c = cid_DagCBOR \<and> c_MhType c = multihash_SHA2_256 \<and> c_MhLength c = 32)"

definition readCARBlock :: "ipld_api \<Rightarrow> nat \<Rightarrow> bytes \<Rightarrow> (Cid \<times> bytes \<times> bytes) result" where
  "readCARBlock ip dataLimit s =
     (case readCARSection (dataLimit + 256) s of Inl e \<Rightarrow> Inl e | Inr (block, rest) \<Rightarrow>
        (case ip_CidFromBytes ip block of None \<Rightarrow> Inl ErrSnapshotVerification | Some (consumed, blockCID) \<Rightarrow>
          if consumed = 0 \<or> consumed \<ge> length block \<or> \<not> validDAGCBORCID blockCID then Inl ErrSnapshotVerification
          else (let data = drop consumed block in
            if length data > dataLimit then Inl ErrSnapshotVerification
            else if ip_Sum ip blockCID data \<noteq> Some blockCID then Inl ErrSnapshotVerification
            else Inr (blockCID, data, rest))))"

section \<open>Bounded structure of CBOR\<close>

text \<open>A big-endian number.\<close>

definition big_endian_value :: "bytes \<Rightarrow> nat" where
  "big_endian_value s = foldl (\<lambda>x c. 256 * x + byte c) 0 s"

definition readCBORArgument :: "nat \<Rightarrow> bytes \<Rightarrow> (nat \<times> nat) result" where
  "readCBORArgument additional input =
     (if additional < 24 then Inr (additional, 0)
      else if additional = 24 then (if length input < 1 then Inl ErrSnapshotVerification else Inr (big_endian_value (take 1 input), 1))
      else if additional = 25 then (if length input < 2 then Inl ErrSnapshotVerification else Inr (big_endian_value (take 2 input), 2))
      else if additional = 26 then (if length input < 4 then Inl ErrSnapshotVerification else Inr (big_endian_value (take 4 input), 4))
      else if additional = 27 then (if length input < 8 then Inl ErrSnapshotVerification else Inr (big_endian_value (take 8 input), 8))
      else Inl ErrSnapshotVerification)"

text \<open>
  The loop of \<^verbatim>\<open>preflightCBORStructure\<close>: a stack of how many items are still expected on each
  level, the innermost first, and the bytes that are left.
\<close>

function preflight_loop :: "nat \<Rightarrow> nat \<Rightarrow> nat list \<Rightarrow> bytes \<Rightarrow> nat \<Rightarrow> unit result" where
  "preflight_loop maxDepth maxItems [] rest items =
     (if rest \<noteq> [] then Inl ErrSnapshotVerification else Inr ())"
| "preflight_loop maxDepth maxItems (0 # remaining) rest items = preflight_loop maxDepth maxItems remaining rest items"
| "preflight_loop maxDepth maxItems (Suc k # remaining) rest items =
     (if items + 1 > maxItems then Inl ErrSnapshotVerification
      else (case rest of
          [] \<Rightarrow> Inl ErrSnapshotVerification
        | initial # input \<Rightarrow>
            (case readCBORArgument (byte initial mod 32) input of Inl e \<Rightarrow> Inl e | Inr (argument, consumed) \<Rightarrow>
              (let major = byte initial div 32; body = drop consumed input; stack = k # remaining in
               if major = 0 \<or> major = 1 \<or> major = 7 then preflight_loop maxDepth maxItems stack body (items + 1)
               else if major = 2 \<or> major = 3 then
                 (if argument > length body then Inl ErrSnapshotVerification
                  else preflight_loop maxDepth maxItems stack (drop argument body) (items + 1))
               else if major = 4 then
                 (if argument > 0 then
                    (if length stack > maxDepth then Inl ErrSnapshotVerification
                     else preflight_loop maxDepth maxItems (argument # stack) body (items + 1))
                  else preflight_loop maxDepth maxItems stack body (items + 1))
               else if major = 5 then
                 (if argument > (2 ^ 64 - 1) div 2 then Inl ErrSnapshotVerification
                  else if argument * 2 > 0 then
                    (if length stack > maxDepth then Inl ErrSnapshotVerification
                     else preflight_loop maxDepth maxItems (argument * 2 # stack) body (items + 1))
                  else preflight_loop maxDepth maxItems stack body (items + 1))
               else if length stack > maxDepth then Inl ErrSnapshotVerification
               else preflight_loop maxDepth maxItems (1 # stack) body (items + 1)))))"
  by pat_completeness auto
termination
  by (relation "measures [\<lambda>(D, M, st, rest, items). M - items, \<lambda>(D, M, st, rest, items). length st]") auto

definition preflightCBORStructure :: "bytes \<Rightarrow> nat \<Rightarrow> nat \<Rightarrow> unit result" where
  "preflightCBORStructure encoded maxDepth maxItems =
     (if length encoded = 0 \<or> maxDepth < 1 \<or> maxItems < 1 then Inl ErrSnapshotVerification
      else preflight_loop maxDepth maxItems [1] encoded 0)"

fun validLexNode :: "node \<Rightarrow> bool" where
  "validLexNode (NMap ms) = list_all (\<lambda>m. validLexNode (snd m)) ms"
| "validLexNode (NList ns) = list_all validLexNode ns"
| "validLexNode NFloat = False"
| "validLexNode _ = True"

definition decodeCanonicalDAGCBOR :: "ipld_api \<Rightarrow> bytes \<Rightarrow> node result" where
  "decodeCanonicalDAGCBOR ip encoded =
     (case preflightCBORStructure encoded maxCBORNestingDepth maxCBORDataItems of Inl e \<Rightarrow> Inl e | Inr _ \<Rightarrow>
        (case ip_DecodeCBOR ip encoded of None \<Rightarrow> Inl (ErrOther ''dagcbor'') | Some node \<Rightarrow>
          if \<not> validLexNode node then Inl ErrSnapshotVerification
          else if ip_EncodeCBOR ip node \<noteq> Some encoded then Inl ErrSnapshotVerification
          else Inr node))"

section \<open>Header, commit and index\<close>

fun node_lookup :: "bytes \<Rightarrow> node \<Rightarrow> node option" where
  "node_lookup k (NMap ms) = map_of ms k"
| "node_lookup k _ = None"

definition as_int :: "node option \<Rightarrow> int option" where
  "as_int n = (case n of Some (NInt i) \<Rightarrow> if - (2 ^ 63) \<le> i \<and> i < 2 ^ 63 then Some i else None | _ \<Rightarrow> None)"

definition as_bytes :: "node option \<Rightarrow> bytes option" where
  "as_bytes n = (case n of Some (NBytes b) \<Rightarrow> Some b | _ \<Rightarrow> None)"

definition as_string :: "node option \<Rightarrow> bytes option" where
  "as_string n = (case n of Some (NString s) \<Rightarrow> Some s | _ \<Rightarrow> None)"

definition nodeCID :: "node \<Rightarrow> Cid option" where
  "nodeCID n = (case n of NLink c \<Rightarrow> c | _ \<Rightarrow> None)"

text \<open>Every key is expected, none occurs twice and none is missing.\<close>

fun keys_exact :: "bytes list \<Rightarrow> bytes list \<Rightarrow> bool" where
  "keys_exact [] want = (want = [])"
| "keys_exact (k # ks) want = (k \<in> set want \<and> keys_exact ks (removeAll k want))"

definition exactMapKeys :: "node \<Rightarrow> bytes list \<Rightarrow> bool" where
  "exactMapKeys n expected = (case n of NMap ms \<Rightarrow> keys_exact (map fst ms) (remdups expected) | _ \<Rightarrow> False)"

definition map_length :: "node \<Rightarrow> nat" where
  "map_length n = (case n of NMap ms \<Rightarrow> length ms | _ \<Rightarrow> 0)"

definition is_map :: "node \<Rightarrow> bool" where
  "is_map n = (case n of NMap _ \<Rightarrow> True | _ \<Rightarrow> False)"

definition parseCARHeader :: "ipld_api \<Rightarrow> bytes \<Rightarrow> (Cid \<times> Cid) result" where
  "parseCARHeader ip encoded =
     (case decodeCanonicalDAGCBOR ip encoded of Inl e \<Rightarrow> Inl ErrSnapshotVerification | Inr node \<Rightarrow>
        if \<not> is_map node \<or> map_length node \<noteq> 2 \<or> \<not> exactMapKeys node [''roots'', ''version''] then Inl ErrSnapshotVerification
        else if as_int (node_lookup ''version'' node) \<noteq> Some 1 then Inl ErrSnapshotVerification
        else (case node_lookup ''roots'' node of
            Some (NList [first, second]) \<Rightarrow>
              (case (nodeCID first, nodeCID second) of
                  (Some commitCID, Some indexCID) \<Rightarrow>
                    if \<not> validDAGCBORCID commitCID \<or> \<not> validDAGCBORCID indexCID then Inl ErrSnapshotVerification
                    else Inr (commitCID, indexCID)
                | _ \<Rightarrow> Inl ErrSnapshotVerification)
          | _ \<Rightarrow> Inl ErrSnapshotVerification))"

definition parseSignedCommit :: "ipld_api \<Rightarrow> bytes \<Rightarrow> signedRepoCommit result" where
  "parseSignedCommit ip encoded =
     (case decodeCanonicalDAGCBOR ip encoded of Inl e \<Rightarrow> Inl ErrSnapshotVerification | Inr node \<Rightarrow>
        if \<not> is_map node \<or> map_length node \<noteq> 6
          \<or> \<not> exactMapKeys node [''ver'', ''hash'', ''ikm'', ''sig'', ''mac'', ''rev''] then Inl ErrSnapshotVerification
        else (case (as_int (node_lookup ''ver'' node), as_bytes (node_lookup ''hash'' node), as_bytes (node_lookup ''ikm'' node),
              as_bytes (node_lookup ''sig'' node), as_bytes (node_lookup ''mac'' node), as_string (node_lookup ''rev'' node)) of
            (Some version, Some hash, Some ikm, Some sig, Some mac, Some revision) \<Rightarrow>
              Inr \<lparr>sc_Version = version, sc_Hash = hash, sc_IKM = ikm, sc_Signature = sig, sc_MAC = mac, sc_Revision = revision\<rparr>
          | _ \<Rightarrow> Inl ErrSnapshotVerification))"

definition parseRecordPath :: "syntax_api \<Rightarrow> bytes \<Rightarrow> (bytes \<times> bytes) option" where
  "parseRecordPath sx path =
     (case cut CHR ''/'' path of (collection, rkey, found) \<Rightarrow>
        if \<not> found \<or> collection = [] \<or> rkey = [] \<or> CHR ''/'' \<in> set rkey then None
        else if \<not> sx_ParseNSID sx collection then None
        else if \<not> sx_ParseRecordKey sx rkey then None
        else Some (collection, rkey))"

text \<open>
  The lattice hash of a set of strings: each element is expanded to 2048 bytes and added to the
  state as 1024 little-endian 16-bit numbers.
\<close>

type_synonym lt_state = "16 word list"

definition newLtHash :: lt_state where
  "newLtHash = replicate 1024 0"

fun le16_words :: "bytes \<Rightarrow> lt_state" where
  "le16_words (a # b # s) = word_of_nat (byte a + 256 * byte b) # le16_words s"
| "le16_words _ = []"

fun le16_bytes :: "lt_state \<Rightarrow> bytes" where
  "le16_bytes [] = []"
| "le16_bytes (w # ws) = char_of (unat w mod 256) # char_of (unat w div 256) # le16_bytes ws"

definition ltHash_add :: "ipld_api \<Rightarrow> lt_state \<Rightarrow> bytes \<Rightarrow> lt_state" where
  "ltHash_add ip st element = map2 (+) st (le16_words (take ltHashStateBytes (ip_Blake3 ip element)))"

definition ltHash_digest :: "lt_state \<Rightarrow> bytes" where
  "ltHash_digest st = sha256 (le16_bytes st)"

definition ltHashDigest :: "ipld_api \<Rightarrow> bytes list \<Rightarrow> bytes" where
  "ltHashDigest ip elements = ltHash_digest (foldl (ltHash_add ip) newLtHash elements)"

fun index_entries ::
  "ipld_api \<Rightarrow> syntax_api \<Rightarrow> (bytes \<times> node) list \<Rightarrow> indexedRecord list \<Rightarrow> lt_state \<Rightarrow> (indexedRecord list \<times> lt_state) result" where
  "index_entries ip sx [] entries st = Inr (entries, st)"
| "index_entries ip sx ((path, n) # ms) entries st =
     (case (parseRecordPath sx path, nodeCID n) of
        (Some (collection, rkey), Some recordCID) \<Rightarrow>
          if \<not> allowedCollection collection \<or> \<not> validDAGCBORCID recordCID then Inl ErrSnapshotVerification
          else index_entries ip sx ms
            (entries @ [\<lparr>ir_collection = collection, ir_rkey = rkey, ir_cid = recordCID, ir_value = []\<rparr>])
            (ltHash_add ip st (path @ ''/'' @ ip_CidString ip recordCID))
      | _ \<Rightarrow> Inl ErrSnapshotVerification)"

definition parseRepoIndex :: "ipld_api \<Rightarrow> syntax_api \<Rightarrow> bytes \<Rightarrow> (indexedRecord list \<times> bytes) result" where
  "parseRepoIndex ip sx encoded =
     (case decodeCanonicalDAGCBOR ip encoded of
        Inr (NMap ms) \<Rightarrow>
          if length ms > maxRepoRecords then Inl ErrSnapshotVerification
          else (case index_entries ip sx ms [] newLtHash of Inl e \<Rightarrow> Inl e | Inr (entries, st) \<Rightarrow> Inr (entries, ltHash_digest st))
      | _ \<Rightarrow> Inl ErrSnapshotVerification)"

section \<open>The commit\<close>

definition commitContext :: "bytes \<Rightarrow> bytes \<Rightarrow> bytes \<Rightarrow> bytes \<Rightarrow> bytes" where
  "commitContext space author revision ikm =
     commitContextDomain @ concat (map (\<lambda>f. big_endian 2 (int (length f) mod 65536) @ f) [space, author, revision, ikm])"

text \<open>\<^verbatim>\<open>crypto/hmac\<close> with SHA-256.\<close>

definition hmac_key :: "bytes \<Rightarrow> bytes" where
  "hmac_key key = (let k = (if length key > 64 then sha256 key else key) in k @ replicate (64 - length k) (CHR 0x00))"

definition hmac_pad :: "nat \<Rightarrow> bytes \<Rightarrow> bytes" where
  "hmac_pad n key = map (\<lambda>c. char_of (byte c XOR n)) key"

definition hmac_sha256 :: "bytes \<Rightarrow> bytes \<Rightarrow> bytes" where
  "hmac_sha256 key msg = sha256 (hmac_pad 92 (hmac_key key) @ sha256 (hmac_pad 54 (hmac_key key) @ msg))"

definition computeCommitMAC :: "bytes \<Rightarrow> bytes \<Rightarrow> bytes \<Rightarrow> bytes" where
  "computeCommitMAC ikm contextBytes hash = hmac_sha256 (hmac_sha256 ikm (contextBytes @ [CHR 0x01])) hash"

definition verifyCommitConsistency ::
  "syntax_api \<Rightarrow> resolver_api \<Rightarrow> signedRepoCommit \<Rightarrow> OfficialTarget \<Rightarrow> unit result" where
  "verifyCommitConsistency sx rs commit target =
     (if sc_Version commit \<noteq> commitVersion \<or> length (sc_Hash commit) \<noteq> 32 \<or> length (sc_IKM commit) \<noteq> 32
        \<or> length (sc_MAC commit) \<noteq> 32 \<or> length (sc_Signature commit) \<noteq> 64 then Inl ErrSnapshotVerification
      else if \<not> sx_ParseTID sx (sc_Revision commit) then Inl ErrSnapshotVerification
      else (case sx_ParseDID sx (ot_RepoDID target) of None \<Rightarrow> Inl ErrSnapshotVerification | Some did \<Rightarrow>
        if ot_Epoch target \<noteq> PinnedEpoch \<or> ot_SpaceURI target = [] \<or> length (ot_SpaceURI target) > 65535
          \<or> length (ot_RepoDID target) > 65535 \<or> length (sc_Revision commit) > 65535 then Inl ErrSnapshotVerification
        else (let contextBytes = commitContext (ot_SpaceURI target) (ot_RepoDID target) (sc_Revision commit) (sc_IKM commit) in
          if computeCommitMAC (sc_IKM commit) contextBytes (sc_Hash commit) \<noteq> sc_MAC commit then Inl ErrSnapshotVerification
          else (case rs_Resolve rs did of
              Some (repoHost, Some key) \<Rightarrow>
                if rs_CleanOrigin rs repoHost \<noteq> Some (ot_Origin target) then Inl ErrSnapshotVerification
                else if \<not> rs_Verify rs key contextBytes (sc_Signature commit) then Inl ErrSnapshotVerification
                else Inr ()
            | _ \<Rightarrow> Inl ErrSnapshotVerification))))"

definition sameRepoState :: "signedRepoCommit \<Rightarrow> signedRepoCommit \<Rightarrow> bool" where
  "sameRepoState left right =
     (sc_Version left = sc_Version right \<and> sc_Revision left = sc_Revision right \<and> sc_Hash left = sc_Hash right)"

section \<open>The whole stream\<close>

definition recordTypeMatchesNode :: "node \<Rightarrow> bytes \<Rightarrow> bool" where
  "recordTypeMatchesNode n collection = (is_map n \<and> as_string (node_lookup ''$type'' n) = Some collection)"

text \<open>The records of the index in order. \<open>ctx k\<close> is what the \<open>k\<close>-th look at the context finds.\<close>

fun read_records ::
  "ipld_api \<Rightarrow> (nat \<Rightarrow> err option) \<Rightarrow> indexedRecord list \<Rightarrow> bytes \<Rightarrow> nat \<Rightarrow> indexedRecord list \<Rightarrow> (indexedRecord list \<times> bytes) result" where
  "read_records ip ctx [] s retainedBytes records = Inr (records, s)"
| "read_records ip ctx (entry # entries) s retainedBytes records =
     (case ctx (length records) of Some e \<Rightarrow> Inl e | None \<Rightarrow>
        (case readCARBlock ip maxRecordBlockBytes s of Inl e \<Rightarrow> Inl ErrSnapshotVerification | Inr (blockCID, v, rest) \<Rightarrow>
          if blockCID \<noteq> ir_cid entry then Inl ErrSnapshotVerification
          else (case decodeCanonicalDAGCBOR ip v of Inl e \<Rightarrow> Inl ErrSnapshotVerification | Inr node \<Rightarrow>
            if \<not> recordTypeMatchesNode node (ir_collection entry) then Inl ErrSnapshotVerification
            else if retainedBytes + length v > maxRetainedRecordBytes then Inl ErrSnapshotVerification
            else read_records ip ctx entries rest (retainedBytes + length v) (records @ [entry\<lparr>ir_value := v\<rparr>]))))"

definition read_car ::
  "ipld_api \<Rightarrow> syntax_api \<Rightarrow> resolver_api \<Rightarrow> (nat \<Rightarrow> err option) \<Rightarrow> OfficialTarget \<Rightarrow> bytes \<Rightarrow> (verifiedCAR \<times> bytes) result" where
  "read_car ip sx rs ctx target input =
     (case readCARSection maxCARHeaderBytes input of Inl e \<Rightarrow> Inl ErrSnapshotVerification | Inr (headerBytes, s1) \<Rightarrow>
     (case parseCARHeader ip headerBytes of Inl e \<Rightarrow> Inl e | Inr (commitRoot, indexRoot) \<Rightarrow>
     (case readCARBlock ip maxCommitBlockBytes s1 of Inl e \<Rightarrow> Inl ErrSnapshotVerification | Inr (commitCID, commitBytes, s2) \<Rightarrow>
      if commitCID \<noteq> commitRoot then Inl ErrSnapshotVerification
      else (case parseSignedCommit ip commitBytes of Inl e \<Rightarrow> Inl e | Inr commit \<Rightarrow>
     (case verifyCommitConsistency sx rs commit target of Inl e \<Rightarrow> Inl e | Inr _ \<Rightarrow>
     (case readCARBlock ip maxIndexBlockBytes s2 of Inl e \<Rightarrow> Inl ErrSnapshotVerification | Inr (indexCID, indexBytes, s3) \<Rightarrow>
      if indexCID \<noteq> indexRoot then Inl ErrSnapshotVerification
      else (case parseRepoIndex ip sx indexBytes of Inl e \<Rightarrow> Inl e | Inr (entries, setHash) \<Rightarrow>
        if setHash \<noteq> sc_Hash commit then Inl ErrSnapshotVerification
        else (case read_records ip ctx entries s3 0 [] of Inl e \<Rightarrow> Inl e | Inr (records, s4) \<Rightarrow>
          Inr (\<lparr>vc_commit = commit, vc_commitCID = commitCID, vc_indexCID = indexCID, vc_records = records\<rparr>, s4)))))))))"

text \<open>After the last record the stream has to be at its end.\<close>

definition verifyFullSourceCAR ::
  "ipld_api \<Rightarrow> syntax_api \<Rightarrow> resolver_api \<Rightarrow> (nat \<Rightarrow> err option) \<Rightarrow> OfficialTarget \<Rightarrow> bytes \<Rightarrow> verifiedCAR result" where
  "verifyFullSourceCAR ip sx rs ctx target input =
     (case read_car ip sx rs ctx target input of Inl e \<Rightarrow> Inl e | Inr (car, s4) \<Rightarrow>
        if readCARSection maxRecordBlockBytes s4 \<noteq> Inl EOF then Inl ErrSnapshotVerification else Inr car)"

text \<open>The response of the export endpoint: status and media type are checked before, the length after.\<close>

definition readSourceCAR ::
  "ipld_api \<Rightarrow> syntax_api \<Rightarrow> resolver_api \<Rightarrow> (nat \<Rightarrow> err option) \<Rightarrow> OfficialTarget \<Rightarrow> bytes \<Rightarrow> verifiedCAR result" where
  "readSourceCAR ip sx rs ctx target body =
     (case verifyFullSourceCAR ip sx rs ctx target (take (maxRepoStreamBytes + 1) body) of Inl e \<Rightarrow> Inl e | Inr car \<Rightarrow>
        if length body \<ge> maxRepoStreamBytes + 1 then Inl ErrSnapshotVerification else Inr car)"

section \<open>The sealed capability\<close>

definition snapshot_field :: "bytes \<Rightarrow> bytes" where
  "snapshot_field v = big_endian 8 (int (length v)) @ v"

definition sourceSnapshotID :: "ipld_api \<Rightarrow> OfficialTarget \<Rightarrow> verifiedCAR \<Rightarrow> bytes" where
  "sourceSnapshotID ip target car =
     ''sha256-'' @ hex_encode (sha256 (snapshot_field ''comail-official-source-root-v1'' @ snapshot_field (ot_Origin target)
       @ snapshot_field (ot_SpaceURI target) @ snapshot_field (ot_RepoDID target) @ snapshot_field (ot_Epoch target)
       @ snapshot_field (sc_Revision (vc_commit car)) @ snapshot_field (ip_CidString ip (vc_commitCID car))
       @ snapshot_field (ip_CidString ip (vc_indexCID car))))"

definition source_record_fields :: "SourceRecord \<Rightarrow> bytes" where
  "source_record_fields r = snapshot_field (so_Collection r) @ snapshot_field (so_RKey r) @ snapshot_field (so_CID r)
     @ snapshot_field (so_Value r)"

definition source_preimage :: "SourceAuthenticatedRepository \<Rightarrow> bytes" where
  "source_preimage r =
     snapshot_field ''comail-official-source-snapshot-v1'' @ snapshot_field (ot_Origin (sa_target r))
     @ snapshot_field (ot_SpaceURI (sa_target r)) @ snapshot_field (ot_RepoDID (sa_target r)) @ snapshot_field (ot_Epoch (sa_target r))
     @ snapshot_field (sa_revision r) @ snapshot_field (sa_snapshotID r) @ snapshot_field (sa_commitCID r)
     @ snapshot_field (sa_indexCID r) @ snapshot_field (sa_repoHash r) @ big_endian 8 (int (length (sa_records r)))
     @ concat (map source_record_fields (sa_records r))"

definition source_seal :: "SourceAuthenticatedRepository \<Rightarrow> bytes" where
  "source_seal r = sha256 (source_preimage r)"

definition source_valid :: "SourceAuthenticatedRepository \<Rightarrow> bool" where
  "source_valid r = (sa_snapshotID r \<noteq> [] \<and> sa_commitCID r \<noteq> [] \<and> sa_indexCID r \<noteq> [] \<and> length (sa_repoHash r) = 32
     \<and> ot_Epoch (sa_target r) = PinnedEpoch \<and> sa_seal r = source_seal r)"

definition source_ValidateSeal :: "SourceAuthenticatedRepository \<Rightarrow> unit result" where
  "source_ValidateSeal r = (if \<not> source_valid r then Inl ErrSnapshotVerification else Inr ())"

text \<open>The accessors give out nothing of a value whose seal is broken.\<close>

definition zero_OfficialTarget :: OfficialTarget where
  "zero_OfficialTarget = \<lparr>ot_Origin = [], ot_SpaceURI = [], ot_RepoDID = [], ot_Epoch = []\<rparr>"

definition source_Target :: "SourceAuthenticatedRepository \<Rightarrow> OfficialTarget" where
  "source_Target r = (if \<not> source_valid r then zero_OfficialTarget else sa_target r)"

definition source_Revision :: "SourceAuthenticatedRepository \<Rightarrow> bytes" where
  "source_Revision r = (if \<not> source_valid r then [] else sa_revision r)"

definition source_SnapshotID :: "SourceAuthenticatedRepository \<Rightarrow> bytes" where
  "source_SnapshotID r = (if \<not> source_valid r then [] else sa_snapshotID r)"

definition source_CommitCID :: "SourceAuthenticatedRepository \<Rightarrow> bytes" where
  "source_CommitCID r = (if \<not> source_valid r then [] else sa_commitCID r)"

definition source_IndexCID :: "SourceAuthenticatedRepository \<Rightarrow> bytes" where
  "source_IndexCID r = (if \<not> source_valid r then [] else sa_indexCID r)"

definition source_Records :: "SourceAuthenticatedRepository \<Rightarrow> SourceRecord list" where
  "source_Records r = (if \<not> source_valid r then [] else sa_records r)"

definition matchesCommit :: "SourceAuthenticatedRepository \<Rightarrow> signedRepoCommit \<Rightarrow> bool" where
  "matchesCommit r commit = (sc_Version commit = commitVersion \<and> sc_Revision commit = sa_revision r
     \<and> length (sa_repoHash r) = 32 \<and> sc_Hash commit = sa_repoHash r)"

definition normalizeSnapshotError :: "err \<Rightarrow> err" where
  "normalizeSnapshotError e =
     (if list_ex (errors_Is e) [ErrCanceled, ErrDeadlineExceeded, ErrUnauthorized, ErrRevoked, ErrNotFound, ErrTarget] then e
      else if errors_Is e ErrSnapshotVerification then e else ErrSnapshotVerification)"

text \<open>
  One read: the commit before, the stream, the commit after, each as the transport delivered
  it. The resolver is asked once per check, so \<open>rs k\<close> is its \<open>k\<close>-th answer.
\<close>

record source_reads =
  sd_before :: "signedRepoCommit result"
  sd_body :: "bytes result"
  sd_after :: "signedRepoCommit result"

definition validateRepoSourceOrigin :: "syntax_api \<Rightarrow> resolver_api \<Rightarrow> OfficialTarget \<Rightarrow> unit result" where
  "validateRepoSourceOrigin sx rs target =
     (case sx_ParseDID sx (ot_RepoDID target) of None \<Rightarrow> Inl ErrSnapshotVerification | Some did \<Rightarrow>
        (case rs_Resolve rs did of None \<Rightarrow> Inl ErrSnapshotVerification | Some (host, key) \<Rightarrow>
          if rs_CleanOrigin rs host \<noteq> Some (ot_Origin target) then Inl ErrTarget else Inr ()))"

definition sealed_source :: "ipld_api \<Rightarrow> OfficialTarget \<Rightarrow> verifiedCAR \<Rightarrow> SourceAuthenticatedRepository" where
  "sealed_source ip target car =
     (let r = \<lparr>sa_target = target, sa_revision = sc_Revision (vc_commit car), sa_snapshotID = sourceSnapshotID ip target car,
         sa_commitCID = ip_CidString ip (vc_commitCID car), sa_indexCID = ip_CidString ip (vc_indexCID car),
         sa_repoHash = sc_Hash (vc_commit car),
         sa_records = map (\<lambda>x. \<lparr>so_Collection = ir_collection x, so_RKey = ir_rkey x, so_CID = ip_CidString ip (ir_cid x), so_Value = ir_value x\<rparr>) (vc_records car),
         sa_seal = []\<rparr>
      in r\<lparr>sa_seal := source_seal r\<rparr>)"

definition read_stable ::
  "ipld_api \<Rightarrow> syntax_api \<Rightarrow> (nat \<Rightarrow> resolver_api) \<Rightarrow> (nat \<Rightarrow> err option) \<Rightarrow> OfficialTarget \<Rightarrow> source_reads \<Rightarrow> SourceAuthenticatedRepository result" where
  "read_stable ip sx rs ctx target reads =
     (case sd_before reads of Inl e \<Rightarrow> Inl e | Inr before \<Rightarrow>
     (case verifyCommitConsistency sx (rs 1) before target of Inl e \<Rightarrow> Inl e | Inr _ \<Rightarrow>
     (case sd_body reads of Inl e \<Rightarrow> Inl e | Inr body \<Rightarrow>
     (case readSourceCAR ip sx (rs 2) ctx target body of Inl e \<Rightarrow> Inl e | Inr car \<Rightarrow>
      if \<not> sameRepoState before (vc_commit car) then Inl ErrSnapshotVerification
      else (case sd_after reads of Inl e \<Rightarrow> Inl e | Inr after' \<Rightarrow>
        (case verifyCommitConsistency sx (rs 3) after' target of Inl e \<Rightarrow> Inl e | Inr _ \<Rightarrow>
          if \<not> sameRepoState (vc_commit car) after' then Inl ErrSnapshotVerification
          else Inr (sealed_source ip target car)))))))"

definition ReadSourceAuthenticatedRepository ::
  "ipld_api \<Rightarrow> syntax_api \<Rightarrow> (nat \<Rightarrow> resolver_api) \<Rightarrow> (nat \<Rightarrow> err option) \<Rightarrow> OfficialTarget \<Rightarrow> source_reads \<Rightarrow> SourceAuthenticatedRepository result" where
  "ReadSourceAuthenticatedRepository ip sx rs ctx target reads =
     (case validateRepoSourceOrigin sx (rs 0) target of Inl e \<Rightarrow> Inl e | Inr _ \<Rightarrow>
        (case read_stable ip sx rs ctx target reads of Inl e \<Rightarrow> Inl (normalizeSnapshotError e) | Inr r \<Rightarrow> Inr r))"

section \<open>Canonical numbers\<close>

lemma uvarint_value_uvarint: "uvarint_value (uvarint n) = n"
proof (induction n rule: uvarint.induct)
  case (1 n)
  then show ?case by (subst uvarint.simps) auto
qed

lemma uvarint_group: "uvarint n \<noteq> [] \<and> (\<forall>c \<in> set (butlast (uvarint n)). 128 \<le> byte c) \<and> byte (last (uvarint n)) < 128"
proof (induction n rule: uvarint.induct)
  case (1 n)
  then show ?case by (subst (1 2 3) uvarint.simps) auto
qed

lemma uvarint_length: "n < 128 ^ k \<Longrightarrow> 0 < k \<Longrightarrow> length (uvarint n) \<le> k"
proof (induction n arbitrary: k rule: uvarint.induct)
  case (1 n)
  show ?case
  proof (cases "n < 128")
    case True
    with 1 show ?thesis by (subst uvarint.simps) simp
  next
    case False
    with 1(2) obtain j where j: "k = Suc j" "0 < j" by (cases k; cases "k = 1") auto
    have "n div 128 < 128 ^ j" using 1(2) j by (simp add: less_mult_imp_div_less mult.commute)
    with 1(1)[OF False this j(2)] False j show ?thesis by (subst uvarint.simps) simp
  qed
qed

lemma uvarint_value_append: "uvarint_value (a @ b) = uvarint_value a + 128 ^ length a * uvarint_value b"
  by (induction a) (simp_all add: algebra_simps)

lemma uvarint_value_less: "uvarint_value a < 128 ^ length a"
proof (induction a)
  case (Cons c a)
  have "byte c mod 128 < 128" by simp
  with Cons show ?case by simp
qed simp

lemma uvarint_value_bound:
  assumes "length g \<le> 10" and "g \<noteq> []" and "byte (last g) < 128" and "\<not> uvarint_overflows g"
  shows "uvarint_value g < 2 ^ 64"
proof (cases "length g = 10")
  case True
  have "uvarint_value g = uvarint_value (butlast g) + 128 ^ 9 * byte (last g)"
    using uvarint_value_append[of "butlast g" "[last g]"] assms(2,3) True by simp
  moreover have "uvarint_value (butlast g) < 128 ^ 9" using uvarint_value_less[of "butlast g"] True by simp
  moreover have "byte (last g) \<le> 1" using assms(4) True by (simp add: uvarint_overflows_def)
  ultimately show ?thesis by simp
next
  case False
  then have "(128::nat) ^ length g \<le> 128 ^ 9" using assms(1) by (intro power_increasing) auto
  with uvarint_value_less[of g] show ?thesis by simp
qed

lemma uvarint_fits: "n < 2 ^ 64 \<Longrightarrow> \<not> uvarint_overflows (uvarint n)"
proof
  assume n: "n < 2 ^ 64" and over: "uvarint_overflows (uvarint n)"
  let ?g = "uvarint n"
  have g: "?g \<noteq> []" "byte (last ?g) < 128" using uvarint_group by auto
  have len: "length ?g = 10" and big: "2 \<le> byte (last ?g)" using over by (auto simp: uvarint_overflows_def)
  have "n = uvarint_value (butlast ?g) + 128 ^ 9 * byte (last ?g)"
    using uvarint_value_append[of "butlast ?g" "[last ?g]"] g len by (simp add: uvarint_value_uvarint)
  with big n show False by simp
qed

lemma read_uvarint_sound:
  "read_uvarint k encoded s = Inr (n, r) \<Longrightarrow>
     \<exists>g. s = g @ r \<and> g \<noteq> [] \<and> length g \<le> k \<and> byte (last g) < 128 \<and> uvarint n = encoded @ g \<and> n = uvarint_value (encoded @ g)
       \<and> \<not> uvarint_overflows (encoded @ g)"
proof (induction k encoded s rule: read_uvarint.induct)
  case (3 k encoded c s)
  show ?case
  proof (cases "128 \<le> byte c")
    case True
    then obtain g where "s = g @ r" "g \<noteq> []" "length g \<le> k" "byte (last g) < 128" "uvarint n = (encoded @ [c]) @ g"
      "n = uvarint_value ((encoded @ [c]) @ g)" "\<not> uvarint_overflows ((encoded @ [c]) @ g)" using 3 by auto
    then show ?thesis by (intro exI[of _ "c # g"]) auto
  next
    case False
    with 3(2) show ?thesis by (intro exI[of _ "[c]"]) (auto simp: Let_def split: if_splits)
  qed
qed auto

lemma read_uvarint_group:
  "g \<noteq> [] \<Longrightarrow> (\<forall>c \<in> set (butlast g). 128 \<le> byte c) \<Longrightarrow> byte (last g) < 128 \<Longrightarrow> length g \<le> k \<Longrightarrow>
     \<not> uvarint_overflows (encoded @ g) \<Longrightarrow> uvarint (uvarint_value (encoded @ g)) = encoded @ g \<Longrightarrow>
     read_uvarint k encoded (g @ r) = Inr (uvarint_value (encoded @ g), r)"
proof (induction g arbitrary: k encoded)
  case (Cons c g)
  then obtain j where k: "k = Suc j" by (cases k) auto
  show ?case
  proof (cases "g = []")
    case True
    with Cons.prems k show ?thesis by (simp add: Let_def)
  next
    case False
    with Cons.prems k have "128 \<le> byte c" by simp
    moreover have "read_uvarint j (encoded @ [c]) (g @ r) = Inr (uvarint_value ((encoded @ [c]) @ g), r)"
      using Cons.prems False k by (intro Cons.IH) auto
    ultimately show ?thesis using k by simp
  qed
qed simp

lemma readCanonicalUvarint_iff: "readCanonicalUvarint s = Inr (n, r) \<longleftrightarrow> s = uvarint n @ r \<and> n < 2 ^ 64"
proof
  assume "readCanonicalUvarint s = Inr (n, r)"
  from read_uvarint_sound[OF this[unfolded readCanonicalUvarint_def]] obtain g where
    g: "s = g @ r" "g \<noteq> []" "length g \<le> 10" "byte (last g) < 128" "uvarint n = g" "n = uvarint_value g" "\<not> uvarint_overflows g"
    by auto
  from uvarint_value_bound[OF g(3,2,4,7)] g show "s = uvarint n @ r \<and> n < 2 ^ 64" by simp
next
  assume a: "s = uvarint n @ r \<and> n < 2 ^ 64"
  have "n < 128 ^ 10" using a by simp
  from uvarint_length[OF this] have "length (uvarint n) \<le> 10" by simp
  with a uvarint_group[of n] uvarint_fits[of n] show "readCanonicalUvarint s = Inr (n, r)"
    unfolding readCanonicalUvarint_def
    by (simp add: read_uvarint_group[of "uvarint n" 10 "[]" r, simplified] uvarint_value_uvarint)
qed

section \<open>Readers consume a prefix\<close>

text \<open>
  The contract of a reader: what it returns is determined by the bytes it consumed, whatever
  follows them.
\<close>

locale stream_reader =
  fixes read :: "bytes \<Rightarrow> ('a \<times> bytes) result"
  assumes consumes: "read s = Inr (x, r) \<Longrightarrow> \<exists>b. s = b @ r \<and> (\<forall>t. read (b @ t) = Inr (x, t))"
begin

lemma extends: "read s = Inr (x, r) \<Longrightarrow> read (s @ t) = Inr (x, r @ t)"
  using consumes[of s x r] by auto

lemma no_more: "read s = Inr (x, r) \<Longrightarrow> length r \<le> length s"
  using consumes[of s x r] by auto

end

text \<open>Readers compose: run one, then another chosen by the first result, or fail.\<close>

lemma stream_reader_then:
  assumes f: "stream_reader f" and g: "\<And>x. stream_reader (g x)"
    and h: "\<And>s y r. h s = Inr (y, r) \<longleftrightarrow> (\<exists>x s'. f s = Inr (x, s') \<and> g x s' = Inr (y, r))"
  shows "stream_reader h"
proof
  fix s y r assume "h s = Inr (y, r)"
  then obtain x s' where 1: "f s = Inr (x, s')" and 2: "g x s' = Inr (y, r)" using h by blast
  obtain b where b: "s = b @ s'" "\<And>t. f (b @ t) = Inr (x, t)" using stream_reader.consumes[OF f 1] by blast
  obtain c where c: "s' = c @ r" "\<And>t. g x (c @ t) = Inr (y, t)" using stream_reader.consumes[OF g 2] by blast
  have "h ((b @ c) @ t) = Inr (y, t)" for t using b(2)[of "c @ t"] c(2) h by auto
  with b c show "\<exists>b. s = b @ r \<and> (\<forall>t. h (b @ t) = Inr (y, t))" by (intro exI[of _ "b @ c"]) auto
qed

lemma stream_reader_give: "stream_reader (\<lambda>s. if P then Inr (x, s) else Inl e)"
  by (unfold_locales) (auto split: if_splits)

interpretation number: stream_reader readCanonicalUvarint
  by unfold_locales (auto simp: readCanonicalUvarint_iff)

interpretation sect: stream_reader "readCARSection limit" for limit
proof unfold_locales
  fix s x r assume "readCARSection limit s = Inr (x, r)"
  then obtain len q where q: "readCanonicalUvarint s = Inr (len, q)" "0 < len" "len \<le> limit" "len \<le> length q"
    "x = take len q" "r = drop len q" by (auto simp: readCARSection_def split: sum.splits if_splits)
  then have s: "s = uvarint len @ x @ r" "len < 2 ^ 64" "length x = len" by (auto simp: readCanonicalUvarint_iff)
  have "readCARSection limit ((uvarint len @ x) @ t) = Inr (x, t)" for t
  proof -
    have "readCanonicalUvarint (uvarint len @ x @ t) = Inr (len, x @ t)" using s by (simp add: readCanonicalUvarint_iff)
    with q s show ?thesis by (simp add: readCARSection_def)
  qed
  with s show "\<exists>b. s = b @ r \<and> (\<forall>t. readCARSection limit (b @ t) = Inr (x, t))" by (intro exI[of _ "uvarint len @ x"]) auto
qed

interpretation block: stream_reader "\<lambda>s. case readCARBlock ip limit s of Inl e \<Rightarrow> Inl e | Inr (c, d, r) \<Rightarrow> Inr ((c, d), r)" for ip limit
proof (rule stream_reader_then[OF sect.stream_reader_axioms])
  fix s y r
  let ?ok = "\<lambda>blk y. case ip_CidFromBytes ip blk of None \<Rightarrow> False | Some (n, c) \<Rightarrow> \<not> (n = 0 \<or> n \<ge> length blk \<or> \<not> validDAGCBORCID c)
      \<and> length (drop n blk) \<le> limit \<and> ip_Sum ip c (drop n blk) = Some c \<and> y = (c, drop n blk)"
  let ?g = "\<lambda>blk s. if \<exists>y. ?ok blk y then Inr (THE y. ?ok blk y, s) else Inl ErrSnapshotVerification"
  show "stream_reader (?g blk)" for blk by (rule stream_reader_give)
  show "(case readCARBlock ip limit s of Inl e \<Rightarrow> Inl e | Inr (c, d, r) \<Rightarrow> Inr ((c, d), r)) = Inr (y, r) \<longleftrightarrow>
      (\<exists>blk s'. readCARSection (limit + 256) s = Inr (blk, s') \<and> ?g blk s' = Inr (y, r))"
    by (auto simp: readCARBlock_def Let_def split: sum.splits option.splits if_splits prod.splits)
qed

lemma readCARBlock_consumes:
  assumes "readCARBlock ip limit s = Inr (c, d, r)"
  shows "\<exists>b. s = b @ r \<and> (\<forall>t. readCARBlock ip limit (b @ t) = Inr (c, d, t))"
proof -
  have "(case readCARBlock ip limit s of Inl e \<Rightarrow> Inl e | Inr (c, d, r) \<Rightarrow> Inr ((c, d), r)) = Inr ((c, d), r)" using assms by simp
  from block.consumes[OF this] obtain b where b: "s = b @ r"
    "\<And>t. (case readCARBlock ip limit (b @ t) of Inl e \<Rightarrow> Inl e | Inr (c, d, r) \<Rightarrow> Inr ((c, d), r)) = Inr ((c, d), t)" by blast
  have "readCARBlock ip limit (b @ t) = Inr (c, d, t)" for t using b(2)[of t] by (auto split: sum.splits)
  with b(1) show ?thesis by blast
qed

lemma readCARBlock_exact:
  assumes "readCARBlock ip limit s = Inr (c, d, r)"
  shows "ip_Sum ip c d = Some c" "validDAGCBORCID c" "length d \<le> limit"
  using assms by (auto simp: readCARBlock_def Let_def split: sum.splits option.splits if_splits)

lemma read_records_consumes:
  "read_records ip ctx es s k acc = Inr (recs, r) \<Longrightarrow>
     \<exists>b. s = b @ r \<and> (\<forall>t. read_records ip ctx es (b @ t) k acc = Inr (recs, t))"
proof (induction es arbitrary: s k acc)
  case (Cons e es)
  then obtain c v s' node where b1: "readCARBlock ip maxRecordBlockBytes s = Inr (c, v, s')"
    and ok: "ctx (length acc) = None" "c = ir_cid e" "decodeCanonicalDAGCBOR ip v = Inr node" "recordTypeMatchesNode node (ir_collection e)"
      "k + length v \<le> maxRetainedRecordBytes"
    and rest: "read_records ip ctx es s' (k + length v) (acc @ [e\<lparr>ir_value := v\<rparr>]) = Inr (recs, r)"
    by (auto split: option.splits sum.splits if_splits)
  obtain b where b: "s = b @ s'" "\<And>t. readCARBlock ip maxRecordBlockBytes (b @ t) = Inr (c, v, t)"
    using readCARBlock_consumes[OF b1] by blast
  obtain d where d: "s' = d @ r" "\<And>t. read_records ip ctx es (d @ t) (k + length v) (acc @ [e\<lparr>ir_value := v\<rparr>]) = Inr (recs, t)"
    using Cons.IH[OF rest] by blast
  show ?case using b d ok by (intro exI[of _ "b @ d"]) auto
qed simp

interpretation recs: stream_reader "\<lambda>s. read_records ip ctx es s k acc" for ip ctx es k acc
  by unfold_locales (rule read_records_consumes)

lemma read_car_consumes:
  assumes "read_car ip sx rs ctx target s = Inr (car, r)"
  shows "\<exists>b. s = b @ r \<and> (\<forall>t. read_car ip sx rs ctx target (b @ t) = Inr (car, t))"
proof -
  from assms obtain h s1 cr ix c1 cb s2 commit c2 ib s3 entries sh records where
    1: "readCARSection maxCARHeaderBytes s = Inr (h, s1)" "parseCARHeader ip h = Inr (cr, ix)"
    and 2: "readCARBlock ip maxCommitBlockBytes s1 = Inr (c1, cb, s2)" "c1 = cr" "parseSignedCommit ip cb = Inr commit"
      "verifyCommitConsistency sx rs commit target = Inr ()"
    and 3: "readCARBlock ip maxIndexBlockBytes s2 = Inr (c2, ib, s3)" "c2 = ix" "parseRepoIndex ip sx ib = Inr (entries, sh)"
      "sh = sc_Hash commit"
    and 4: "read_records ip ctx entries s3 0 [] = Inr (records, r)"
      "car = \<lparr>vc_commit = commit, vc_commitCID = c1, vc_indexCID = c2, vc_records = records\<rparr>"
    unfolding read_car_def by (auto split: sum.splits if_splits)
  obtain b1 where b1: "s = b1 @ s1" "\<And>t. readCARSection maxCARHeaderBytes (b1 @ t) = Inr (h, t)" using sect.consumes[OF 1(1)] by blast
  obtain b2 where b2: "s1 = b2 @ s2" "\<And>t. readCARBlock ip maxCommitBlockBytes (b2 @ t) = Inr (c1, cb, t)"
    using readCARBlock_consumes[OF 2(1)] by blast
  obtain b3 where b3: "s2 = b3 @ s3" "\<And>t. readCARBlock ip maxIndexBlockBytes (b3 @ t) = Inr (c2, ib, t)"
    using readCARBlock_consumes[OF 3(1)] by blast
  obtain b4 where b4: "s3 = b4 @ r" "\<And>t. read_records ip ctx entries (b4 @ t) 0 [] = Inr (records, t)"
    using recs.consumes[OF 4(1)] by blast
  have "read_car ip sx rs ctx target ((b1 @ b2 @ b3 @ b4) @ t) = Inr (car, t)" for t
    using 1 2 3 4 b1 b2 b3 b4 by (simp add: read_car_def)
  with b1 b2 b3 b4 show ?thesis by (intro exI[of _ "b1 @ b2 @ b3 @ b4"]) auto
qed

interpretation car: stream_reader "read_car ip sx rs ctx target" for ip sx rs ctx target
  by unfold_locales (rule read_car_consumes)

section \<open>The index and its set hash\<close>

lemma ltHash_add_comm: "ltHash_add ip (ltHash_add ip st a) b = ltHash_add ip (ltHash_add ip st b) a"
  by (rule nth_equalityI) (auto simp: ltHash_add_def algebra_simps)

lemma ltHash_perm:
  assumes "mset xs = mset ys"
  shows "foldl (ltHash_add ip) st xs = foldl (ltHash_add ip) st ys"
proof -
  have "fold (\<lambda>x st. ltHash_add ip st x) xs = fold (\<lambda>x st. ltHash_add ip st x) ys"
    by (rule fold_multiset_equiv[OF _ assms]) (simp add: fun_eq_iff ltHash_add_comm)
  then show ?thesis by (simp add: foldl_conv_fold)
qed

text \<open>The string that stands for a record in the set hash.\<close>

definition index_element :: "ipld_api \<Rightarrow> indexedRecord \<Rightarrow> bytes" where
  "index_element ip e = (ir_collection e @ ''/'' @ ir_rkey e) @ ''/'' @ ip_CidString ip (ir_cid e)"

definition index_entry_ok :: "syntax_api \<Rightarrow> indexedRecord \<Rightarrow> bool" where
  "index_entry_ok sx e \<longleftrightarrow> allowedCollection (ir_collection e) \<and> validDAGCBORCID (ir_cid e) \<and> ir_rkey e \<noteq> []
     \<and> CHR ''/'' \<notin> set (ir_rkey e) \<and> sx_ParseNSID sx (ir_collection e) \<and> sx_ParseRecordKey sx (ir_rkey e)"

lemma cut_parts: "cut c s = (a, b, True) \<Longrightarrow> s = a @ c # b"
  by (induction s arbitrary: a b) (auto split: if_splits prod.splits)

lemma index_entries_sound:
  "index_entries ip sx ms entries st = Inr (es, st') \<Longrightarrow>
     \<exists>new. es = entries @ new \<and> (\<forall>e \<in> set new. index_entry_ok sx e \<and> ir_value e = []) \<and> length new = length ms
       \<and> map (\<lambda>e. ir_collection e @ ''/'' @ ir_rkey e) new = map fst ms
       \<and> st' = foldl (ltHash_add ip) st (map (index_element ip) new)"
proof (induction ms arbitrary: entries st)
  case (Cons m ms)
  obtain path n where m: "m = (path, n)" by (cases m)
  from Cons.prems m obtain collection rkey c where p: "parseRecordPath sx path = Some (collection, rkey)" "nodeCID n = Some c"
    "allowedCollection collection" "validDAGCBORCID c"
    and rest: "index_entries ip sx ms (entries @ [\<lparr>ir_collection = collection, ir_rkey = rkey, ir_cid = c, ir_value = []\<rparr>])
      (ltHash_add ip st (path @ ''/'' @ ip_CidString ip c)) = Inr (es, st')"
    by (auto split: option.splits if_splits)
  let ?e = "\<lparr>ir_collection = collection, ir_rkey = rkey, ir_cid = c, ir_value = []\<rparr>"
  from p(1) have path: "path = collection @ ''/'' @ rkey" and ok: "index_entry_ok sx ?e"
    using p(3,4) by (auto simp: parseRecordPath_def index_entry_ok_def dest: cut_parts split: prod.splits if_splits)
  obtain new where new: "es = (entries @ [?e]) @ new" "\<forall>e \<in> set new. index_entry_ok sx e \<and> ir_value e = []" "length new = length ms"
    "map (\<lambda>e. ir_collection e @ ''/'' @ ir_rkey e) new = map fst ms"
    "st' = foldl (ltHash_add ip) (ltHash_add ip st (path @ ''/'' @ ip_CidString ip c)) (map (index_element ip) new)"
    using Cons.IH[OF rest] by blast
  moreover have "index_element ip ?e = path @ ''/'' @ ip_CidString ip c" by (simp add: index_element_def path)
  ultimately show ?case using ok m path by (intro exI[of _ "?e # new"]) simp
qed simp

lemma parseRepoIndex_sound:
  assumes "parseRepoIndex ip sx encoded = Inr (entries, h)"
  shows "\<forall>e \<in> set entries. index_entry_ok sx e \<and> ir_value e = []" "length entries \<le> maxRepoRecords"
    "h = ltHashDigest ip (map (index_element ip) entries)"
  using assms index_entries_sound[of ip sx _ "[]" newLtHash]
  by (auto simp: parseRepoIndex_def ltHashDigest_def split: sum.splits node.splits if_splits)

definition record_exact :: "ipld_api \<Rightarrow> indexedRecord \<Rightarrow> bool" where
  "record_exact ip r \<longleftrightarrow> ip_Sum ip (ir_cid r) (ir_value r) = Some (ir_cid r) \<and> length (ir_value r) \<le> maxRecordBlockBytes
     \<and> (\<exists>n. decodeCanonicalDAGCBOR ip (ir_value r) = Inr n \<and> recordTypeMatchesNode n (ir_collection r))"

lemma read_records_sound:
  "read_records ip ctx es s k acc = Inr (recs, r) \<Longrightarrow> k \<le> maxRetainedRecordBytes \<Longrightarrow>
     \<exists>new. recs = acc @ new \<and> map (\<lambda>r. r\<lparr>ir_value := []\<rparr>) new = map (\<lambda>r. r\<lparr>ir_value := []\<rparr>) es \<and> (\<forall>r \<in> set new. record_exact ip r)
       \<and> k + (\<Sum>r\<leftarrow>new. length (ir_value r)) \<le> maxRetainedRecordBytes"
proof (induction es arbitrary: s k acc)
  case (Cons e es)
  then obtain v s' node where b1: "readCARBlock ip maxRecordBlockBytes s = Inr (ir_cid e, v, s')"
    and ok: "decodeCanonicalDAGCBOR ip v = Inr node" "recordTypeMatchesNode node (ir_collection e)" "k + length v \<le> maxRetainedRecordBytes"
    and rest: "read_records ip ctx es s' (k + length v) (acc @ [e\<lparr>ir_value := v\<rparr>]) = Inr (recs, r)"
    by (auto split: option.splits sum.splits if_splits)
  obtain new where new: "recs = (acc @ [e\<lparr>ir_value := v\<rparr>]) @ new" "map (\<lambda>r. r\<lparr>ir_value := []\<rparr>) new = map (\<lambda>r. r\<lparr>ir_value := []\<rparr>) es"
    "\<forall>r \<in> set new. record_exact ip r" "k + length v + (\<Sum>r\<leftarrow>new. length (ir_value r)) \<le> maxRetainedRecordBytes"
    using Cons.IH[OF rest ok(3)] by blast
  moreover have "record_exact ip (e\<lparr>ir_value := v\<rparr>)" using readCARBlock_exact[OF b1] ok by (simp add: record_exact_def)
  ultimately show ?case by (intro exI[of _ "e\<lparr>ir_value := v\<rparr> # new"]) (simp add: add.assoc)
qed simp

section \<open>What the structure check accepts\<close>

text \<open>
  The reference: a sequence of \<open>k\<close> data items, nested at most \<open>d\<close> levels deep, with \<open>n\<close> items in it
  on all levels together and \<open>r\<close> behind it.
\<close>

definition cbor_children :: "nat \<Rightarrow> nat \<Rightarrow> nat" where
  "cbor_children major a = (if major = 4 then a else if major = 5 then 2 * a else if major = 6 then 1 else 0)"

definition cbor_payload :: "nat \<Rightarrow> nat \<Rightarrow> nat" where
  "cbor_payload major a = (if major = 2 \<or> major = 3 then a else 0)"

inductive cbor_items :: "nat \<Rightarrow> nat \<Rightarrow> bytes \<Rightarrow> nat \<Rightarrow> bytes \<Rightarrow> bool" where
  none: "cbor_items d 0 s 0 s"
| item: "cbor_items d (Suc k) (c # s) (Suc (n + n')) r"
    if "readCBORArgument (byte c mod 32) s = Inr (a, used)" and "m = cbor_children (byte c div 32) a" and "m < 2 ^ 64"
      and "p = cbor_payload (byte c div 32) a" and "used + p \<le> length s" and "m = 0 \<or> 0 < d"
      and "cbor_items (d - 1) m (drop (used + p) s) n s'" and "cbor_items d k s' n' r"

inductive_simps cbor_items_0: "cbor_items d 0 s n r"
inductive_simps cbor_items_Suc: "cbor_items d (Suc k) s n r"

text \<open>The stack of the loop as sequences to be read one after the other.\<close>

fun stack_items :: "nat \<Rightarrow> nat list \<Rightarrow> bytes \<Rightarrow> nat \<Rightarrow> bytes \<Rightarrow> bool" where
  "stack_items D [] s n r \<longleftrightarrow> n = 0 \<and> r = s"
| "stack_items D (k # st) s n r \<longleftrightarrow>
     (\<exists>n1 n2 s'. cbor_items (D - length st) k s n1 s' \<and> stack_items D st s' n2 r \<and> n = n1 + n2)"

lemma stack_itemsI:
  "cbor_items (D - length st) k s n1 s' \<Longrightarrow> stack_items D st s' n2 r \<Longrightarrow> stack_items D (k # st) s (n1 + n2) r"
  by auto

lemma stack_items_0: "stack_items D (0 # st) s n r \<longleftrightarrow> stack_items D st s n r"
  by (auto simp: cbor_items_0)

lemma stack_items_Suc:
  "stack_items D (Suc k # st) s n r \<longleftrightarrow>
     (\<exists>c s1 a used m p n'. s = c # s1 \<and> readCBORArgument (byte c mod 32) s1 = Inr (a, used)
        \<and> m = cbor_children (byte c div 32) a \<and> m < 2 ^ 64 \<and> p = cbor_payload (byte c div 32) a \<and> used + p \<le> length s1
        \<and> (m = 0 \<or> length st < D) \<and> n = Suc n' \<and> stack_items D (m # k # st) (drop (used + p) s1) n' r)" (is "_ \<longleftrightarrow> ?step")
proof
  assume "stack_items D (Suc k # st) s n r"
  then obtain n1 n2 s' where 1: "cbor_items (D - length st) (Suc k) s n1 s'" "stack_items D st s' n2 r" "n = n1 + n2" by auto
  from 1(1) obtain c s1 a used m p i j s2 where *: "s = c # s1" "n1 = Suc (i + j)" "readCBORArgument (byte c mod 32) s1 = Inr (a, used)"
    "m = cbor_children (byte c div 32) a" "m < 2 ^ 64" "p = cbor_payload (byte c div 32) a" "used + p \<le> length s1"
    "m = 0 \<or> 0 < D - length st" "cbor_items (D - length st - 1) m (drop (used + p) s1) i s2" "cbor_items (D - length st) k s2 j s'"
    by (auto simp: cbor_items_Suc)
  then have "stack_items D (m # k # st) (drop (used + p) s1) (i + (j + n2)) r"
    by (intro stack_itemsI[OF _ stack_itemsI[OF *(10) 1(2)]]) simp
  moreover have "n = Suc (i + (j + n2))" using 1(3) *(2) by simp
  moreover have "m = 0 \<or> length st < D" using *(8) by auto
  ultimately show ?step using *(1,3-7) by blast
next
  assume ?step
  then obtain c s1 a used m p n' where *: "s = c # s1" "readCBORArgument (byte c mod 32) s1 = Inr (a, used)"
    "m = cbor_children (byte c div 32) a" "m < 2 ^ 64" "p = cbor_payload (byte c div 32) a" "used + p \<le> length s1"
    "m = 0 \<or> length st < D" "n = Suc n'" "stack_items D (m # k # st) (drop (used + p) s1) n' r" by blast
  then obtain i j l s2 s3 where 1: "cbor_items (D - length st - 1) m (drop (used + p) s1) i s2" "cbor_items (D - length st) k s2 j s3"
    "stack_items D st s3 l r" "n' = i + (j + l)" by auto
  have "cbor_items (D - length st) (Suc k) s (Suc (i + j)) s3"
    unfolding *(1) by (rule item[OF *(2,3,4,5,6) _ 1(1,2)]) (use *(7) in auto)
  from stack_itemsI[OF this 1(3)] 1(4) *(8) show "stack_items D (Suc k # st) s n r" by (simp add: add.assoc)
qed

lemma big_endian_value_less: "big_endian_value s < 256 ^ length s"
proof -
  have "foldl (\<lambda>x c. 256 * x + byte c) x s < (x + 1) * 256 ^ length s" for x
  proof (induction s arbitrary: x)
    case (Cons c s)
    have "foldl (\<lambda>x c. 256 * x + byte c) (256 * x + byte c) s < (256 * x + byte c + 1) * 256 ^ length s" by (rule Cons.IH)
    also have "\<dots> \<le> (256 * (x + 1)) * 256 ^ length s" by (rule mult_right_mono) (use byte_less[of c] in \<open>simp_all del: byte_less\<close>)
    finally show ?case by (simp add: algebra_simps)
  qed simp
  from this[of 0] show ?thesis by (simp add: big_endian_value_def)
qed

lemma big_endian_take: "n \<le> length s \<Longrightarrow> n \<le> 8 \<Longrightarrow> big_endian_value (take n s) < 2 ^ 64"
proof -
  assume n: "n \<le> length s" "n \<le> 8"
  have "(256::nat) ^ n \<le> 256 ^ 8" using n(2) by (rule power_increasing) simp
  with big_endian_value_less[of "take n s"] n(1) show ?thesis by simp
qed

lemma readCBORArgument_bounds:
  assumes "readCBORArgument additional s = Inr (a, used)"
  shows "a < 2 ^ 64" "used \<le> length s"
  using assms by (auto simp: readCBORArgument_def Suc_le_eq intro: big_endian_take[simplified] split: if_splits)

lemma preflight_loop_step:
  assumes r: "readCBORArgument (byte c mod 32) s = Inr (a, used)" and m: "m = cbor_children (byte c div 32) a"
    and p: "p = cbor_payload (byte c div 32) a" and max: "items < M"
  shows "preflight_loop D M (Suc k # st) (c # s) items = Inr () \<longleftrightarrow>
    m < 2 ^ 64 \<and> used + p \<le> length s \<and> (m = 0 \<or> length st < D) \<and>
    preflight_loop D M (m # k # st) (drop (used + p) s) (Suc items) = Inr ()"
proof -
  note b = readCBORArgument_bounds[OF r]
  have "byte c div 32 < 8" using byte_less[of c] by linarith
  then consider "byte c div 32 \<in> {0, 1, 7}" | "byte c div 32 \<in> {2, 3}" | "byte c div 32 = 4" | "byte c div 32 = 5" | "byte c div 32 = 6"
    by fastforce
  then show ?thesis
  proof cases
    case 1
    then have "m = 0" "p = 0" using m p by (auto simp: cbor_children_def cbor_payload_def)
    with 1 b(2) max show ?thesis by (auto simp: r)
  next
    case 2
    then have "m = 0" "p = a" using m p by (auto simp: cbor_children_def cbor_payload_def)
    with 2 b(2) max show ?thesis by (auto simp: r add.commute[of used] split: if_splits)
  next
    case 3
    then have "m = a" "p = 0" using m p by (auto simp: cbor_children_def cbor_payload_def)
    with 3 b max show ?thesis by (cases "a = 0") (simp_all add: r Suc_le_eq not_less)
  next
    case 4
    then have "m = 2 * a" "p = 0" using m p by (auto simp: cbor_children_def cbor_payload_def)
    with 4 b max show ?thesis by (cases "a = 0") (auto simp add: r Let_def mult.commute[of a] split: if_splits)
  next
    case 5
    then have "m = 1" "p = 0" using m p by (auto simp: cbor_children_def cbor_payload_def)
    with 5 b(2) max show ?thesis by (simp add: r Suc_le_eq not_less)
  qed
qed

lemma preflight_loop_iff:
  "items \<le> M \<Longrightarrow> preflight_loop D M st rest items = Inr () \<longleftrightarrow> (\<exists>n. items + n \<le> M \<and> stack_items D st rest n [])"
proof (induction "M - items" arbitrary: items st rest rule: less_induct)
  case less
  show ?case
  proof (induction st arbitrary: rest)
    case (Cons k0 st)
    show ?case
    proof (cases k0)
      case 0
      with Cons.IH show ?thesis by (simp add: stack_items_0 del: stack_items.simps(2))
    next
      case (Suc k)
      show ?thesis
      proof (cases "items < M \<and> (\<exists>c s a used. rest = c # s \<and> readCBORArgument (byte c mod 32) s = Inr (a, used))")
        case False
        with Suc less.prems show ?thesis
          by (auto simp: stack_items_Suc simp del: stack_items.simps(2) split: list.splits sum.splits)
      next
        case True
        then obtain c s a used where r: "rest = c # s" "readCBORArgument (byte c mod 32) s = Inr (a, used)" and max: "items < M" by blast
        have *: "stack_items D (Suc k # st) rest n [] \<longleftrightarrow> (\<exists>n'. n = Suc n' \<and> cbor_children (byte c div 32) a < 2 ^ 64
            \<and> used + cbor_payload (byte c div 32) a \<le> length s \<and> (cbor_children (byte c div 32) a = 0 \<or> length st < D)
            \<and> stack_items D (cbor_children (byte c div 32) a # k # st) (drop (used + cbor_payload (byte c div 32) a) s) n' [])" for n
          by (auto simp: stack_items_Suc r simp del: stack_items.simps(2))
        have **: "(\<exists>n. items + n \<le> M \<and> (\<exists>n'. n = Suc n' \<and> P n')) \<longleftrightarrow> (\<exists>n'. Suc items + n' \<le> M \<and> P n')" for P
          by (metis add_Suc add_Suc_right)
        show ?thesis
          unfolding Suc * ** unfolding r(1) preflight_loop_step[OF r(2) refl refl max]
          using less.hyps[of "Suc items"] max by (auto simp del: stack_items.simps(2))
      qed
    qed
  qed (use less.prems in simp)
qed

text \<open>The structure check is exactly the reference, with the bounds on depth and items.\<close>

lemma preflightCBORStructure_iff:
  "preflightCBORStructure encoded D M = Inr () \<longleftrightarrow> 1 \<le> D \<and> (\<exists>n \<le> M. cbor_items D 1 encoded n [])"
proof (cases "encoded = [] \<or> D < 1 \<or> M < 1")
  case True
  then show ?thesis by (auto simp: preflightCBORStructure_def cbor_items_Suc)
next
  case False
  then have "preflightCBORStructure encoded D M = preflight_loop D M [1] encoded 0" by (auto simp: preflightCBORStructure_def)
  with preflight_loop_iff[of 0 M D "[1]" encoded] False show ?thesis by auto
qed

end
