(* ===== verification/Recovery.thy ===== *)
theory Recovery
  imports Folder_Revision Source_Snapshot
begin

text \<open>
  Package \<^verbatim>\<open>mailboxstate\<close>, file \<^verbatim>\<open>officialspaces_recovery.go\<close>: from the sealed read of a whole
  repository to the sealed state of a mailbox. Every record is checked against its
  identifier, decoded and filed under the message or folder it belongs to; then the folders
  are reduced, then the messages, and nothing may be left over on either side.
\<close>

section \<open>Records\<close>

definition maxOfficialSourceRecords :: nat where "maxOfficialSourceRecords = 100000"
definition maxOfficialFolderMessageBindings :: nat where "maxOfficialFolderMessageBindings = 1000000"

record MessageVersion =
  mv_RKey :: bytes
  mv_CID :: bytes
  mv_Record :: MessageRecord

record ReducedSourceState =
  rd_target :: OfficialTarget
  rd_revision :: bytes
  rd_snapshotID :: bytes
  rd_commitCID :: bytes
  rd_indexCID :: bytes
  rd_messages :: "MessageVersion list"
  rd_messageStates :: "ReducedState list"
  rd_folders :: "ReducedFolderState list"
  rd_seal :: bytes

record officialSpacesInventory =
  oi_target :: OfficialTarget
  oi_revision :: bytes
  oi_snapshotID :: bytes
  oi_commitCID :: bytes
  oi_indexCID :: bytes
  oi_records :: "SourceRecord list"

section \<open>The seal\<close>

text \<open>JSON of the reduced states, with the tags of their structs.\<close>

definition reduced_state_json :: "ReducedState \<Rightarrow> json" where
  "reduced_state_json s = JObj
     (jfield ''logicalMessageId'' (jstr (rs_LogicalMessageID s)) @ jfield ''snapshotId'' (jstr (rs_SnapshotID s))
      @ jfield ''version'' (jstr (rs_Version s)) @ jfield ''mailboxIds'' (jstrs (rs_MailboxIDs s)) @ jfield ''keywords'' (jstrs (rs_Keywords s))
      @ jfield ''deletePending'' (JBool (rs_DeletePending s)) @ jfield ''tombstone'' (JBool (rs_Tombstone s))
      @ jfield ''heads'' (jstrs (Some (rs_Heads s))) @ jfield ''headsDigest'' (jstr (rs_HeadsDigest s))
      @ jfield ''stateDigest'' (jstr (rs_StateDigest s)) @ jfield ''height'' (JNum (uint (rs_Height s)))
      @ jfield ''revisionCount'' (JNum (int (rs_RevisionCount s))))"

definition reduced_folder_json :: "ReducedFolderState \<Rightarrow> json" where
  "reduced_folder_json s = JObj
     (jfield ''folderId'' (jstr (rf_FolderID s)) @ jfield ''snapshotId'' (jstr (rf_SnapshotID s)) @ jfield ''name'' (jstr (rf_Name s))
      @ jomit (rf_Role s = []) ''role'' (jstr (rf_Role s)) @ jfield ''tombstone'' (JBool (rf_Tombstone s))
      @ jfield ''heads'' (jstrs (Some (rf_Heads s))) @ jfield ''headsDigest'' (jstr (rf_HeadsDigest s))
      @ jfield ''stateDigest'' (jstr (rf_StateDigest s)) @ jfield ''height'' (JNum (uint (rf_Height s)))
      @ jfield ''revisionCount'' (JNum (int (rf_RevisionCount s))))"

definition writeSourceSealJSON :: "json \<Rightarrow> bytes" where
  "writeSourceSealJSON j = cw_string (json_text j)"

definition version_fields :: "MessageVersion \<Rightarrow> bytes" where
  "version_fields m = cw_string (mv_RKey m) @ cw_string (mv_CID m) @ writeSourceSealJSON (message_json (mv_Record m))"

definition reduction_preimage :: "ReducedSourceState \<Rightarrow> bytes" where
  "reduction_preimage st =
     ''comail-official-source-reduction-v1'' @ [CHR 0x00] @ cw_string (ot_Origin (rd_target st)) @ cw_string (ot_SpaceURI (rd_target st))
     @ cw_string (ot_RepoDID (rd_target st)) @ cw_string (ot_Epoch (rd_target st)) @ cw_string (rd_revision st) @ cw_string (rd_snapshotID st)
     @ cw_string (rd_commitCID st) @ cw_string (rd_indexCID st)
     @ cw_len (length (rd_messages st)) @ concat (map version_fields (rd_messages st))
     @ cw_len (length (rd_messageStates st)) @ concat (map (\<lambda>s. writeSourceSealJSON (reduced_state_json s)) (rd_messageStates st))
     @ cw_len (length (rd_folders st)) @ concat (map (\<lambda>s. writeSourceSealJSON (reduced_folder_json s)) (rd_folders st))"

definition reduction_seal :: "ReducedSourceState \<Rightarrow> bytes" where
  "reduction_seal st = sha256 (reduction_preimage st)"

definition reduction_valid :: "syntax_api \<Rightarrow> ReducedSourceState \<Rightarrow> bool" where
  "reduction_valid sx st = (ot_Epoch (rd_target st) = PinnedEpoch \<and> validCanonicalDID sx (ot_RepoDID (rd_target st))
     \<and> validSHA256Identifier (rd_snapshotID st) \<and> rd_revision st \<noteq> [] \<and> rd_commitCID st \<noteq> [] \<and> rd_indexCID st \<noteq> []
     \<and> length (rd_folders st) > 0 \<and> rd_seal st = reduction_seal st)"

definition reduction_ValidateSeal :: "syntax_api \<Rightarrow> ReducedSourceState \<Rightarrow> unit result" where
  "reduction_ValidateSeal sx st = (if \<not> reduction_valid sx st then Inl ErrSourceReduction else Inr ())"

text \<open>As with the source, a broken seal gives out nothing.\<close>

definition reduction_Target :: "syntax_api \<Rightarrow> ReducedSourceState \<Rightarrow> OfficialTarget" where
  "reduction_Target sx st = (if \<not> reduction_valid sx st then zero_OfficialTarget else rd_target st)"

definition reduction_Revision :: "syntax_api \<Rightarrow> ReducedSourceState \<Rightarrow> bytes" where
  "reduction_Revision sx st = (if \<not> reduction_valid sx st then [] else rd_revision st)"

definition reduction_SnapshotID :: "syntax_api \<Rightarrow> ReducedSourceState \<Rightarrow> bytes" where
  "reduction_SnapshotID sx st = (if \<not> reduction_valid sx st then [] else rd_snapshotID st)"

definition reduction_CommitCID :: "syntax_api \<Rightarrow> ReducedSourceState \<Rightarrow> bytes" where
  "reduction_CommitCID sx st = (if \<not> reduction_valid sx st then [] else rd_commitCID st)"

definition reduction_IndexCID :: "syntax_api \<Rightarrow> ReducedSourceState \<Rightarrow> bytes" where
  "reduction_IndexCID sx st = (if \<not> reduction_valid sx st then [] else rd_indexCID st)"

definition reduction_Messages :: "syntax_api \<Rightarrow> ReducedSourceState \<Rightarrow> MessageVersion list" where
  "reduction_Messages sx st = (if \<not> reduction_valid sx st then [] else rd_messages st)"

definition reduction_MessageStates :: "syntax_api \<Rightarrow> ReducedSourceState \<Rightarrow> ReducedState list" where
  "reduction_MessageStates sx st = (if \<not> reduction_valid sx st then [] else rd_messageStates st)"

definition reduction_Folders :: "syntax_api \<Rightarrow> ReducedSourceState \<Rightarrow> ReducedFolderState list" where
  "reduction_Folders sx st = (if \<not> reduction_valid sx st then [] else rd_folders st)"

section \<open>From DAG-CBOR to JSON\<close>

text \<open>\<^verbatim>\<open>json.Marshal\<close> of a \<^verbatim>\<open>map[string]any\<close> writes the keys in order.\<close>

definition marshal_map :: "json gomap \<Rightarrow> json" where
  "marshal_map m = JObj (map (\<lambda>k. (to_valid_utf8 k, the (map_of m k))) (sortUTF8 (keys m)))"

fun officialNodeToLexJSON :: "ipld_api \<Rightarrow> nat \<Rightarrow> node \<Rightarrow> json result"
  and lex_members :: "ipld_api \<Rightarrow> nat \<Rightarrow> (bytes \<times> node) list \<Rightarrow> json gomap \<Rightarrow> json gomap result"
  and lex_items :: "ipld_api \<Rightarrow> nat \<Rightarrow> node list \<Rightarrow> json list result" where
  "officialNodeToLexJSON ip depth n =
     (if depth > 128 then Inl ErrResourceLimit
      else (case n of
          NMap ms \<Rightarrow> (case lex_members ip (depth + 1) ms [] of Inl e \<Rightarrow> Inl e | Inr m \<Rightarrow> Inr (marshal_map m))
        | NList ns \<Rightarrow> (case lex_items ip (depth + 1) ns of Inl e \<Rightarrow> Inl e | Inr xs \<Rightarrow> Inr (JArr xs))
        | NBool b \<Rightarrow> Inr (JBool b)
        | NInt i \<Rightarrow> (case as_int (Some (NInt i)) of None \<Rightarrow> Inl (ErrOther ''int range'') | Some j \<Rightarrow> Inr (JNum j))
        | NString s \<Rightarrow> Inr (jstr s)
        | NLink None \<Rightarrow> Inl ErrInvalidRevision
        | NLink (Some c) \<Rightarrow> Inr (JObj [(''$link'', jstr (ip_CidString ip c))])
        | _ \<Rightarrow> Inl ErrInvalidRevision))"
| "lex_members ip depth [] m = Inr m"
| "lex_members ip depth ((k, n) # ms) m =
     (case officialNodeToLexJSON ip depth n of Inl e \<Rightarrow> Inl e | Inr v \<Rightarrow> lex_members ip depth ms (AList.update k v m))"
| "lex_items ip depth [] = Inr []"
| "lex_items ip depth (n # ns) =
     (case officialNodeToLexJSON ip depth n of Inl e \<Rightarrow> Inl e | Inr v \<Rightarrow>
        (case lex_items ip depth ns of Inl e \<Rightarrow> Inl e | Inr vs \<Rightarrow> Inr (v # vs)))"

text \<open>The document, with the length of its text, and the node it came from.\<close>

definition officialRecordJSON :: "ipld_api \<Rightarrow> bytes \<Rightarrow> (nat \<times> json \<times> node) result" where
  "officialRecordJSON ip encoded =
     (if length encoded = 0 \<or> length encoded > maxRevisionRecordBytes then Inl ErrResourceLimit
      else (case ip_DecodeCBOR ip encoded of None \<Rightarrow> Inl ErrInvalidRevision | Some n \<Rightarrow>
        if \<not> is_map n then Inl ErrInvalidRevision
        else (case officialNodeToLexJSON ip 0 n of Inl e \<Rightarrow> Inl e | Inr j \<Rightarrow>
          if length (json_text j) > maxRevisionRecordBytes then Inl ErrResourceLimit
          else Inr (length (json_text j), j, n))))"

definition decodeOfficialMessage :: "ipld_api \<Rightarrow> bytes \<Rightarrow> MessageRecord result" where
  "decodeOfficialMessage ip encoded =
     (case officialRecordJSON ip encoded of Inl e \<Rightarrow> Inl e | Inr (len, j, n) \<Rightarrow>
        (case node_lookup ''raw'' n of
            Some (NMap raw) \<Rightarrow>
              (case node_lookup ''ref'' (NMap raw) of
                  Some (NLink _) \<Rightarrow> (case message_of_json True j of None \<Rightarrow> Inl ErrIntegrity | Some r \<Rightarrow> Inr r)
                | _ \<Rightarrow> Inl ErrIntegrity)
          | _ \<Rightarrow> Inl ErrIntegrity))"

definition decode_official :: "(nat \<Rightarrow> json list \<Rightarrow> 'r result) \<Rightarrow> ipld_api \<Rightarrow> bytes \<Rightarrow> 'r result" where
  "decode_official decode ip encoded =
     (case officialRecordJSON ip encoded of Inl e \<Rightarrow> Inl e | Inr (len, j, n) \<Rightarrow> decode len [j])"

definition decodeOfficialMessageRevision :: "ipld_api \<Rightarrow> bytes \<Rightarrow> RevisionRecord result" where
  "decodeOfficialMessageRevision = decode_official DecodeRevisionRecord"

definition decodeOfficialMessageClaim :: "ipld_api \<Rightarrow> bytes \<Rightarrow> OperationClaimRecord result" where
  "decodeOfficialMessageClaim = decode_official DecodeOperationClaimRecord"

definition decodeOfficialFolderRevision :: "ipld_api \<Rightarrow> bytes \<Rightarrow> FolderRevisionRecord result" where
  "decodeOfficialFolderRevision = decode_official DecodeFolderRevisionRecord"

definition decodeOfficialFolderClaim :: "ipld_api \<Rightarrow> bytes \<Rightarrow> FolderOperationClaimRecord result" where
  "decodeOfficialFolderClaim = decode_official DecodeFolderOperationClaimRecord"

section \<open>Checks\<close>

definition validOfficialRecordCID :: "Cid \<Rightarrow> bool" where
  "validOfficialRecordCID c = (c_Version c = 1 \<and> c_Codec c = cid_DagCBOR \<and> c_MhType c = multihash_SHA2_256 \<and> c_MhLength c = 32)"

definition validLowerHex :: "bytes \<Rightarrow> nat \<Rightarrow> bool" where
  "validLowerHex v byteLength = (if length v \<noteq> byteLength * 2 \<or> v \<noteq> to_lower v then False
     else (case hex_decode v of None \<Rightarrow> False | Some d \<Rightarrow> length d = byteLength))"

definition validOptionalText :: "bytes \<Rightarrow> nat \<Rightarrow> bool" where
  "validOptionalText v limit = (length v \<le> limit \<and> utf8_valid v \<and> \<not> contains_any v [CHR 0x0D, CHR 0x0A, CHR 0x00])"

definition validateOfficialMessage :: "ipld_api \<Rightarrow> bytes \<Rightarrow> bytes \<Rightarrow> MessageRecord \<Rightarrow> unit result" where
  "validateOfficialMessage ip repoDID rkey r =
     (if mr_Type r \<noteq> MessageCollection \<or> \<not> validSHA256Identifier rkey
        \<or> mr_DeliveryFingerprint r \<noteq> rkey \<or> \<not> validSHA256Identifier (mr_LogicalMessageID r)
        \<or> mr_LogicalMessageID r \<noteq> LogicalMessageID repoDID (mr_SourceKey r) rkey
        \<or> br_Type (mr_Raw r) \<noteq> ''blob'' \<or> br_MIMEType (mr_Raw r) \<noteq> MessageMIMEType
        \<or> br_Size (mr_Raw r) \<noteq> mr_Size r \<or> mr_Size r < 1 \<or> mr_Size r > int MaxRawMessageBytes
        \<or> \<not> validLowerHex (mr_SHA256 r) 32 \<or> \<not> validText (mr_InitialMailbox r) 255
        \<or> length (mr_SourceKey r) > 512 \<or> \<not> utf8_valid (mr_SourceKey r)
        \<or> \<not> validOptionalText (mr_SourceMessageID r) 998 \<or> \<not> validOptionalText (mr_InReplyTo r) 998
        \<or> length (elems (mr_References r)) > 100 then Inl ErrIntegrity
      else if list_ex (\<lambda>x. \<not> validOptionalText x 998 \<or> x = []) (elems (mr_References r)) then Inl ErrIntegrity
      else if list_ex (\<lambda>v. v \<noteq> [] \<and> \<not> parse_RFC3339Nano v) [mr_DeliveredAt r, mr_MessageDate r] then Inl ErrIntegrity
      else (case ip_ParseCid ip (br_Link (mr_Raw r)) of None \<Rightarrow> Inl ErrIntegrity | Some blobCID \<Rightarrow>
        if c_Version blobCID \<noteq> 1 \<or> c_Codec blobCID \<noteq> cid_Raw \<or> c_MhType blobCID \<noteq> multihash_SHA2_256 \<or> c_MhLength blobCID \<noteq> 32
          then Inl ErrIntegrity
        else (case hex_decode (mr_SHA256 r) of None \<Rightarrow> Inl ErrIntegrity | Some claimedHash \<Rightarrow>
          if c_Digest blobCID \<noteq> claimedHash then Inl ErrIntegrity else Inr ())))"

definition validateOfficialSourceRecord :: "ipld_api \<Rightarrow> syntax_api \<Rightarrow> SourceRecord \<Rightarrow> unit result" where
  "validateOfficialSourceRecord ip sx r =
     (if so_Collection r = [] \<or> so_RKey r = [] \<or> length (so_Value r) = 0 then Inl ErrIncompleteSnapshot
      else if \<not> sx_ParseRecordKey sx (so_RKey r) then Inl ErrIncompleteSnapshot
      else (case ip_ParseCid ip (so_CID r) of None \<Rightarrow> Inl ErrIncompleteSnapshot | Some parsed \<Rightarrow>
        if \<not> validOfficialRecordCID parsed then Inl ErrIncompleteSnapshot
        else if ip_Sum ip parsed (so_Value r) \<noteq> Some parsed then Inl ErrIncompleteSnapshot else Inr ()))"

definition validateOfficialInventoryIdentity :: "ipld_api \<Rightarrow> syntax_api \<Rightarrow> officialSpacesInventory \<Rightarrow> unit result" where
  "validateOfficialInventoryIdentity ip sx input =
     (if ot_Epoch (oi_target input) \<noteq> PinnedEpoch \<or> ot_Origin (oi_target input) = [] \<or> ot_SpaceURI (oi_target input) = []
        \<or> \<not> validCanonicalDID sx (ot_RepoDID (oi_target input)) \<or> \<not> validSHA256Identifier (oi_snapshotID input)
        \<or> length (oi_records input) > maxOfficialSourceRecords then Inl ErrIncompleteSnapshot
      else if \<not> sx_ParseTID sx (oi_revision input) then Inl ErrIncompleteSnapshot
      else if list_ex (\<lambda>encoded. case ip_ParseCid ip encoded of None \<Rightarrow> True | Some c \<Rightarrow> \<not> validOfficialRecordCID c)
          [oi_commitCID input, oi_indexCID input] then Inl ErrIncompleteSnapshot
      else Inr ())"

section \<open>Filing the records\<close>

record filed =
  fd_messages :: "MessageVersion list"
  fd_versionOwners :: "bytes gomap"
  fd_versionsByLogical :: "bytes gomap gomap"
  fd_messageRevisions :: "StateRevision list gomap"
  fd_messageClaims :: "bytes gomap gomap"
  fd_folderRevisions :: "FolderStateRevision list gomap"
  fd_folderClaims :: "bytes gomap gomap"
  fd_seenPaths :: "bytes list"

definition nothing_filed :: filed where
  "nothing_filed = \<lparr>fd_messages = [], fd_versionOwners = [], fd_versionsByLogical = [], fd_messageRevisions = [],
     fd_messageClaims = [], fd_folderRevisions = [], fd_folderClaims = [], fd_seenPaths = []\<rparr>"

text \<open>\<open>m[k][k'] = v\<close> and \<open>m[k] = append(m[k], v)\<close>.\<close>

definition put_inner :: "bytes \<Rightarrow> bytes \<Rightarrow> bytes \<Rightarrow> bytes gomap gomap \<Rightarrow> bytes gomap gomap" where
  "put_inner k k' v m = AList.update k (AList.update k' v (inner m k)) m"

definition append_inner :: "bytes \<Rightarrow> 'v \<Rightarrow> 'v list gomap \<Rightarrow> 'v list gomap" where
  "append_inner k v m = AList.update k (inner m k @ [v]) m"

text \<open>The cases of the switch over the collection.\<close>

definition file_record :: "ipld_api \<Rightarrow> syntax_api \<Rightarrow> bytes \<Rightarrow> SourceRecord \<Rightarrow> filed \<Rightarrow> filed result" where
  "file_record ip sx did source fd =
     (if so_Collection source = MessageCollection then
        (case decodeOfficialMessage ip (so_Value source) of Inl e \<Rightarrow> Inl ErrIntegrity | Inr r \<Rightarrow>
          if validateOfficialMessage ip did (so_RKey source) r \<noteq> Inr () then Inl ErrIntegrity
          else if map_of (fd_versionOwners fd) (so_RKey source) \<noteq> None then Inl ErrIncompleteSnapshot
          else Inr (fd\<lparr>fd_versionOwners := AList.update (so_RKey source) (mr_LogicalMessageID r) (fd_versionOwners fd),
            fd_versionsByLogical := put_inner (mr_LogicalMessageID r) (so_RKey source) (mr_LogicalMessageID r) (fd_versionsByLogical fd),
            fd_messages := fd_messages fd @ [\<lparr>mv_RKey = so_RKey source, mv_CID = so_CID source, mv_Record = r\<rparr>]\<rparr>))
      else if so_Collection source = MessageStateRevisionCollection then
        (case decodeOfficialMessageRevision ip (so_Value source) of Inl e \<Rightarrow> Inl e | Inr r \<Rightarrow>
          Inr (fd\<lparr>fd_messageRevisions := append_inner (rv_LogicalMessageID r) \<lparr>sv_RKey = so_RKey source, sv_Record = r\<rparr> (fd_messageRevisions fd)\<rparr>))
      else if so_Collection source = MessageStateOperationCollection then
        (case decodeOfficialMessageClaim ip (so_Value source) of Inl e \<Rightarrow> Inl ErrInvalidRevision | Inr r \<Rightarrow>
          if oc_Type r \<noteq> MessageStateOperationCollection then Inl ErrInvalidRevision
          else if OperationClaimRKey sx did (oc_LogicalMessageID r) (oc_OperationID r) \<noteq> Inr (so_RKey source) then Inl ErrOperationCollision
          else Inr (fd\<lparr>fd_messageClaims := put_inner (oc_LogicalMessageID r) (so_RKey source) (oc_RevisionRKey r) (fd_messageClaims fd)\<rparr>))
      else if so_Collection source = FolderRevisionCollection then
        (case decodeOfficialFolderRevision ip (so_Value source) of Inl e \<Rightarrow> Inl e | Inr r \<Rightarrow>
          Inr (fd\<lparr>fd_folderRevisions := append_inner (fvr_FolderID r) \<lparr>fv_RKey = so_RKey source, fv_Record = r\<rparr> (fd_folderRevisions fd)\<rparr>))
      else if so_Collection source = FolderOperationCollection then
        (case decodeOfficialFolderClaim ip (so_Value source) of Inl e \<Rightarrow> Inl ErrInvalidRevision | Inr r \<Rightarrow>
          if fo_Type r \<noteq> FolderOperationCollection then Inl ErrInvalidRevision
          else if FolderOperationClaimRKey sx did (fo_FolderID r) (fo_OperationID r) \<noteq> Inr (so_RKey source) then Inl ErrOperationCollision
          else Inr (fd\<lparr>fd_folderClaims := put_inner (fo_FolderID r) (so_RKey source) (fo_RevisionRKey r) (fd_folderClaims fd)\<rparr>))
      else Inl ErrIncompleteSnapshot)"

text \<open>\<open>ctx k\<close> is what the \<open>k\<close>-th look at the context finds.\<close>

fun file_records :: "ipld_api \<Rightarrow> syntax_api \<Rightarrow> (nat \<Rightarrow> err option) \<Rightarrow> bytes \<Rightarrow> SourceRecord list \<Rightarrow> filed \<Rightarrow> filed result" where
  "file_records ip sx ctx did [] fd = Inr fd"
| "file_records ip sx ctx did (source # sources) fd =
     (case ctx (length (fd_seenPaths fd)) of Some e \<Rightarrow> Inl e | None \<Rightarrow>
        (let path = so_Collection source @ ''/'' @ so_RKey source in
         if path \<in> set (fd_seenPaths fd) then Inl ErrIncompleteSnapshot
         else (case validateOfficialSourceRecord ip sx source of Inl e \<Rightarrow> Inl e | Inr _ \<Rightarrow>
           (case file_record ip sx did source (fd\<lparr>fd_seenPaths := path # fd_seenPaths fd\<rparr>) of Inl e \<Rightarrow> Inl e | Inr fd' \<Rightarrow>
             file_records ip sx ctx did sources fd'))))"

section \<open>The folders\<close>

definition folder_snapshot :: "bytes \<Rightarrow> bytes \<Rightarrow> FolderStateRevision list \<Rightarrow> bytes gomap \<Rightarrow> VerifiedFolderSnapshot" where
  "folder_snapshot snapshotID folderID revisions claims =
     (let s = \<lparr>fs_snapshotID = snapshotID, fs_folderID = folderID, fs_revisionCount = length revisions,
         fs_operationClaims = claims, fs_seal = []\<rparr>
      in s\<lparr>fs_seal := folder_snapshotSeal s\<rparr>)"

fun reduce_each_folder ::
  "syntax_api \<Rightarrow> (nat \<Rightarrow> err option) \<Rightarrow> bytes \<Rightarrow> bytes \<Rightarrow> FolderStateRevision list gomap \<Rightarrow> bytes gomap gomap \<Rightarrow> bytes list
     \<Rightarrow> ReducedFolderState list \<Rightarrow> ReducedFolderState list result" where
  "reduce_each_folder sx ctx did sid revisions claims [] states = Inr states"
| "reduce_each_folder sx ctx did sid revisions claims (folderID # ids) states =
     (case ctx (length states) of Some e \<Rightarrow> Inl e | None \<Rightarrow>
        (case map_of claims folderID of None \<Rightarrow> Inl ErrIncompleteSnapshot | Some folderClaims \<Rightarrow>
          if length folderClaims \<noteq> length (inner revisions folderID) then Inl ErrIncompleteSnapshot
          else (case ReduceFolder sx did folderID (inner revisions folderID)
              (folder_snapshot sid folderID (inner revisions folderID) folderClaims) of Inl e \<Rightarrow> Inl e | Inr st \<Rightarrow>
            reduce_each_folder sx ctx did sid revisions claims ids (states @ [st]))))"

definition folder_set_snapshot :: "bytes \<Rightarrow> bytes \<Rightarrow> ReducedFolderState list \<Rightarrow> VerifiedFolderSetSnapshot" where
  "folder_set_snapshot snapshotID repoDID states =
     (let s = \<lparr>ss_snapshotID = snapshotID, ss_repoDID = repoDID, ss_folderCount = length states,
         ss_stateDigests = foldl (\<lambda>m st. AList.update (rf_FolderID st) (rf_StateDigest st) m) [] states, ss_seal = []\<rparr>
      in s\<lparr>ss_seal := folder_set_snapshotSeal s\<rparr>)"

definition folder_references :: "ReducedFolderState list \<Rightarrow> verifiedFolderReference gomap" where
  "folder_references states =
     foldl (\<lambda>m st. AList.update (rf_FolderID st) \<lparr>vf_stateDigest = rf_StateDigest st, vf_tombstone = rf_Tombstone st\<rparr> m) [] states"

definition reduceOfficialFolders ::
  "syntax_api \<Rightarrow> (nat \<Rightarrow> nat) \<Rightarrow> (nat \<Rightarrow> err option) \<Rightarrow> bytes \<Rightarrow> bytes \<Rightarrow> FolderStateRevision list gomap \<Rightarrow> bytes gomap gomap
     \<Rightarrow> (ReducedFolderState list \<times> verifiedFolderReference gomap) result option" where
  "reduceOfficialFolders sx sf ctx did sid revisions claims =
     (if length revisions = 0 \<or> length revisions > maxFolderCount \<or> length claims \<noteq> length revisions then Some (Inl ErrIncompleteSnapshot)
      else (case reduce_each_folder sx ctx did sid revisions claims (sortedMapKeys revisions) [] of Inl e \<Rightarrow> Some (Inl e) | Inr states \<Rightarrow>
        (case ValidateFolderSet sx sf did states (folder_set_snapshot sid did states) of
            None \<Rightarrow> None
          | Some (Inl e) \<Rightarrow> Some (Inl e)
          | Some (Inr _) \<Rightarrow> Some (Inr (states, folder_references states)))))"

section \<open>The messages\<close>

definition message_snapshot ::
  "bytes \<Rightarrow> bytes \<Rightarrow> StateRevision list \<Rightarrow> bytes gomap \<Rightarrow> bytes gomap \<Rightarrow> verifiedFolderReference gomap \<Rightarrow> VerifiedSnapshot" where
  "message_snapshot snapshotID logicalID revisions claims versions folders =
     (let s = \<lparr>vs_snapshotID = snapshotID, vs_logicalMessageID = logicalID, vs_revisionCount = length revisions,
         vs_operationClaims = claims, vs_versions = versions, vs_folders = folders, vs_seal = []\<rparr>
      in s\<lparr>vs_seal := snapshotSeal s\<rparr>)"

definition note_versions :: "StateRevision list \<Rightarrow> bytes list \<Rightarrow> bytes list" where
  "note_versions revisions seen =
     foldl (\<lambda>s r. if rv_Version (sv_Record r) \<noteq> [] then List.insert (rv_Version (sv_Record r)) s else s) seen revisions"

fun reduce_each_message ::
  "syntax_api \<Rightarrow> (nat \<Rightarrow> err option) \<Rightarrow> bytes \<Rightarrow> bytes \<Rightarrow> bytes gomap gomap \<Rightarrow> StateRevision list gomap \<Rightarrow> bytes gomap gomap
     \<Rightarrow> verifiedFolderReference gomap \<Rightarrow> bytes list \<Rightarrow> ReducedState list \<Rightarrow> bytes list \<Rightarrow> (ReducedState list \<times> bytes list) result" where
  "reduce_each_message sx ctx did sid versions revisions claims folders [] states seen = Inr (states, seen)"
| "reduce_each_message sx ctx did sid versions revisions claims folders (logicalID # ids) states seen =
     (case ctx (length states) of Some e \<Rightarrow> Inl e | None \<Rightarrow>
        (case (map_of versions logicalID, map_of claims logicalID) of
            (Some logicalVersions, Some logicalClaims) \<Rightarrow>
              if length logicalClaims \<noteq> length (inner revisions logicalID) then Inl ErrIncompleteSnapshot
              else (case Reduce sx did logicalID (inner revisions logicalID)
                  (message_snapshot sid logicalID (inner revisions logicalID) logicalClaims logicalVersions folders) of Inl e \<Rightarrow> Inl e
                | Inr st \<Rightarrow> reduce_each_message sx ctx did sid versions revisions claims folders ids (states @ [st])
                    (note_versions (inner revisions logicalID) seen))
          | _ \<Rightarrow> Inl ErrIncompleteSnapshot))"

definition reduceOfficialMessages ::
  "syntax_api \<Rightarrow> (nat \<Rightarrow> err option) \<Rightarrow> bytes \<Rightarrow> bytes \<Rightarrow> bytes gomap gomap \<Rightarrow> StateRevision list gomap \<Rightarrow> bytes gomap gomap
     \<Rightarrow> verifiedFolderReference gomap \<Rightarrow> (ReducedState list \<times> bytes list) result" where
  "reduceOfficialMessages sx ctx did sid versions revisions claims folders =
     (if length revisions \<noteq> length versions \<or> length claims \<noteq> length revisions then Inl ErrIncompleteSnapshot
      else if length folders > 0 \<and> length revisions > maxOfficialFolderMessageBindings div length folders then Inl ErrResourceLimit
      else reduce_each_message sx ctx did sid versions revisions claims folders (sortedMapKeys revisions) [] [])"

section \<open>The whole source\<close>

definition sealed_reduction ::
  "officialSpacesInventory \<Rightarrow> MessageVersion list \<Rightarrow> ReducedState list \<Rightarrow> ReducedFolderState list \<Rightarrow> ReducedSourceState" where
  "sealed_reduction input messages states folders =
     (let r = \<lparr>rd_target = oi_target input, rd_revision = oi_revision input, rd_snapshotID = oi_snapshotID input,
         rd_commitCID = oi_commitCID input, rd_indexCID = oi_indexCID input,
         rd_messages = sort_key mv_RKey messages, rd_messageStates = sort_key rs_LogicalMessageID states,
         rd_folders = sort_key rf_FolderID folders, rd_seal = []\<rparr>
      in r\<lparr>rd_seal := reduction_seal r\<rparr>)"

definition reduceOfficialSpacesInventory ::
  "ipld_api \<Rightarrow> syntax_api \<Rightarrow> (nat \<Rightarrow> nat) \<Rightarrow> (nat \<Rightarrow> err option) \<Rightarrow> officialSpacesInventory \<Rightarrow> ReducedSourceState result option" where
  "reduceOfficialSpacesInventory ip sx sf ctx input =
     (let did = ot_RepoDID (oi_target input); n = length (oi_records input) in
      case validateOfficialInventoryIdentity ip sx input of Inl e \<Rightarrow> Some (Inl e) | Inr _ \<Rightarrow>
      (case file_records ip sx ctx did (oi_records input) nothing_filed of Inl e \<Rightarrow> Some (Inl e) | Inr fd \<Rightarrow>
      (case reduceOfficialFolders sx sf (\<lambda>k. ctx (n + k)) did (oi_snapshotID input) (fd_folderRevisions fd) (fd_folderClaims fd) of
         None \<Rightarrow> None
       | Some (Inl e) \<Rightarrow> Some (Inl e)
       | Some (Inr (folders, references)) \<Rightarrow>
      (case reduceOfficialMessages sx (\<lambda>k. ctx (n + length folders + k)) did (oi_snapshotID input) (fd_versionsByLogical fd)
          (fd_messageRevisions fd) (fd_messageClaims fd) references of Inl e \<Rightarrow> Some (Inl e) | Inr (states, referencedVersions) \<Rightarrow>
        if length states \<noteq> length (fd_versionsByLogical fd) then Some (Inl ErrIncompleteSnapshot)
        else if list_ex (\<lambda>v. v \<notin> set referencedVersions) (keys (fd_versionOwners fd)) then Some (Inl ErrIncompleteSnapshot)
        else Some (Inr (sealed_reduction input (fd_messages fd) states folders))))))"

text \<open>The outcome the caller sees: the details of a failure are withheld.\<close>

definition ReduceOfficialSpacesSource ::
  "ipld_api \<Rightarrow> syntax_api \<Rightarrow> (nat \<Rightarrow> nat) \<Rightarrow> (nat \<Rightarrow> err option) \<Rightarrow> SourceAuthenticatedRepository option \<Rightarrow> ReducedSourceState result option" where
  "ReduceOfficialSpacesSource ip sx sf ctx source =
     (case ctx 0 of Some e \<Rightarrow> Some (Inl e) | None \<Rightarrow>
        (case source of None \<Rightarrow> Some (Inl ErrSourceReduction) | Some s \<Rightarrow>
          if source_ValidateSeal s \<noteq> Inr () then Some (Inl ErrSourceReduction)
          else (case reduceOfficialSpacesInventory ip sx sf (\<lambda>k. ctx (k + 1))
              \<lparr>oi_target = source_Target s, oi_revision = source_Revision s, oi_snapshotID = source_SnapshotID s,
               oi_commitCID = source_CommitCID s, oi_indexCID = source_IndexCID s, oi_records = source_Records s\<rparr> of
                None \<Rightarrow> None
              | Some (Inl e) \<Rightarrow> if errors_Is e ErrCanceled \<or> errors_Is e ErrDeadlineExceeded then Some (Inl e) else Some (Inl ErrSourceReduction)
              | Some (Inr r) \<Rightarrow> if source_ValidateSeal s \<noteq> Inr () then Some (Inl ErrSourceReduction) else Some (Inr r))))"

end
