(* ===== verification/Source_Read.thy ===== *)
theory Source_Read
  imports Source_Snapshot
begin

text \<open>
  What an accepted repository export guarantees: its records are the ones the commit
  hashes, every value is what its identifier names, the commit is the one served before and
  after the stream, and the sealed value cannot be changed without changing its digest.
\<close>

section \<open>Fixed-width lengths\<close>

lemma big_endian_inj: "big_endian n x = big_endian n y \<Longrightarrow> 0 \<le> x \<Longrightarrow> 0 \<le> y \<Longrightarrow> x < 256 ^ n \<Longrightarrow> y < 256 ^ n \<Longrightarrow> x = y"
proof (induction n arbitrary: x y)
  case (Suc n)
  have "byte (char_of (nat (x mod 256)) :: char) = byte (char_of (nat (y mod 256)) :: char)" using Suc.prems(1) by simp
  then have "nat (x mod 256) = nat (y mod 256)" 
    using byte_char_of[of "nat (x mod 256)"] byte_char_of[of "nat (y mod 256)"] by (simp add: nat_less_iff)
  then have "x mod 256 = y mod 256" by (simp add: eq_nat_nat_iff)
  moreover have "x div 256 = y div 256" using Suc.prems by (intro Suc.IH) (auto simp: div_less_iff_less_mult mult.commute)
  ultimately show ?case by (metis mult_div_mod_eq)
qed simp

lemma framed_length:
  assumes "big_endian n (int (length x)) @ x @ r = big_endian n (int (length y)) @ y @ s"
    and "length x < 256 ^ n" and "length y < 256 ^ n"
  shows "x = y \<and> r = s"
proof -
  have "big_endian n (int (length x)) = big_endian n (int (length y))" "x @ r = y @ s" using assms(1) by auto
  moreover have "int (length x) < 256 ^ n" "int (length y) < 256 ^ n" using assms(2,3) by (metis of_nat_less_iff of_nat_numeral of_nat_power)+
  ultimately show ?thesis using big_endian_inj[of n "int (length x)" "int (length y)"] by simp
qed

lemma snapshot_field_frame:
  "snapshot_field x @ r = snapshot_field y @ s \<Longrightarrow> length x < 2 ^ 64 \<Longrightarrow> length y < 2 ^ 64 \<Longrightarrow> x = y \<and> r = s"
  using framed_length[of 8 x r y s] by (simp add: snapshot_field_def)

text \<open>Lengths in memory are below \<open>2 ^ 63\<close>, so no length field wraps.\<close>

definition record_fits :: "SourceRecord \<Rightarrow> bool" where
  "record_fits r \<longleftrightarrow> (\<forall>x \<in> {so_Collection r, so_RKey r, so_CID r, so_Value r}. length x < 2 ^ 63)"

definition source_fits :: "SourceAuthenticatedRepository \<Rightarrow> bool" where
  "source_fits r \<longleftrightarrow> (\<forall>x \<in> {ot_Origin (sa_target r), ot_SpaceURI (sa_target r), ot_RepoDID (sa_target r), ot_Epoch (sa_target r),
       sa_revision r, sa_snapshotID r, sa_commitCID r, sa_indexCID r, sa_repoHash r}. length x < 2 ^ 63)
     \<and> length (sa_records r) < 2 ^ 63 \<and> (\<forall>x \<in> set (sa_records r). record_fits x)"

lemma field_cancel:
  "length x < 2 ^ 63 \<Longrightarrow> length y < 2 ^ 63 \<Longrightarrow> snapshot_field x @ r = snapshot_field y @ s \<longleftrightarrow> x = y \<and> r = s"
  using snapshot_field_frame[of x r y s] by auto

lemma record_frame:
  assumes "record_fits x" and "record_fits y"
  shows "source_record_fields x @ r = source_record_fields y @ s \<longleftrightarrow> x = y \<and> r = s"
  using assms by (cases x, cases y) (auto simp: source_record_fields_def record_fits_def field_cancel simp del: One_nat_def)

lemma records_frame:
  assumes "\<forall>x \<in> set xs. record_fits x" and "\<forall>y \<in> set ys. record_fits y" and "length xs = length ys"
  shows "concat (map source_record_fields xs) = concat (map source_record_fields ys) \<longleftrightarrow> xs = ys"
  using assms(3,1,2) by (induction xs ys rule: list_induct2) (auto simp: record_frame)

lemma source_preimage_inj:
  assumes "source_fits r" and "source_fits r'" and eq: "source_preimage r = source_preimage r'"
  shows "r\<lparr>sa_seal := []\<rparr> = r'\<lparr>sa_seal := []\<rparr>"
proof -
  note fits = assms(1,2)[unfolded source_fits_def ball_simps]
  have 1: "sa_target r = sa_target r'" "sa_revision r = sa_revision r'" "sa_snapshotID r = sa_snapshotID r'" "sa_commitCID r = sa_commitCID r'"
    "sa_indexCID r = sa_indexCID r'" "sa_repoHash r = sa_repoHash r'"
    and 2: "big_endian 8 (int (length (sa_records r))) @ concat (map source_record_fields (sa_records r))
      = big_endian 8 (int (length (sa_records r'))) @ concat (map source_record_fields (sa_records r'))"
    using eq fits by (simp_all add: source_preimage_def field_cancel OfficialTarget.equality)
  have "int (length (sa_records r)) = int (length (sa_records r'))"
    using 2 fits by (intro big_endian_inj[of 8]) auto
  with 2 fits records_frame[of "sa_records r" "sa_records r'"] have "sa_records r = sa_records r'" by simp
  with 1 show ?thesis by (simp add: SourceAuthenticatedRepository.equality)
qed

section \<open>An accepted stream\<close>

text \<open>Documented of the decoder: a decoded map has no key twice.\<close>

definition decoder_law :: "ipld_api \<Rightarrow> bool" where
  "decoder_law ip \<longleftrightarrow> (\<forall>b ms. ip_DecodeCBOR ip b = Some (NMap ms) \<longrightarrow> distinct (map fst ms))"

definition record_path :: "indexedRecord \<Rightarrow> bytes" where
  "record_path r = ir_collection r @ ''/'' @ ir_rkey r"

lemma parseRepoIndex_distinct:
  assumes "parseRepoIndex ip sx encoded = Inr (entries, h)" and law: "decoder_law ip"
  shows "distinct (map record_path entries)"
proof -
  from assms(1) obtain ms st where ms: "decodeCanonicalDAGCBOR ip encoded = Inr (NMap ms)" "index_entries ip sx ms [] newLtHash = Inr (entries, st)"
    by (auto simp: parseRepoIndex_def split: sum.splits node.splits if_splits)
  from index_entries_sound[OF ms(2)] have "map record_path entries = map fst ms" by (auto simp: record_path_def[abs_def])
  moreover have "ip_DecodeCBOR ip encoded = Some (NMap ms)"
    using ms(1) by (auto simp: decodeCanonicalDAGCBOR_def split: sum.splits option.splits if_splits)
  ultimately show ?thesis using law by (simp add: decoder_law_def)
qed

lemma erased_same:
  assumes "map (\<lambda>r. r\<lparr>ir_value := []\<rparr>) rs = map (\<lambda>r. r\<lparr>ir_value := []\<rparr>) es" and "\<And>r. f (r\<lparr>ir_value := []\<rparr>) = f r"
  shows "map f rs = map f es"
proof -
  have "map f rs = map f (map (\<lambda>r. r\<lparr>ir_value := []\<rparr>) rs)" using assms(2) by simp
  also have "\<dots> = map f es" using assms by simp
  finally show ?thesis .
qed

definition stream_exact :: "ipld_api \<Rightarrow> syntax_api \<Rightarrow> verifiedCAR \<Rightarrow> bool" where
  "stream_exact ip sx car \<longleftrightarrow>
     sc_Hash (vc_commit car) = ltHashDigest ip (map (index_element ip) (vc_records car))
     \<and> (\<forall>r \<in> set (vc_records car). index_entry_ok sx r \<and> record_exact ip r)
     \<and> distinct (map record_path (vc_records car)) \<and> length (vc_records car) \<le> maxRepoRecords
     \<and> (\<Sum>r \<leftarrow> vc_records car. length (ir_value r)) \<le> maxRetainedRecordBytes"

lemma read_car_sound:
  assumes "read_car ip sx rs ctx target s = Inr (car, r)" and "decoder_law ip"
  shows "verifyCommitConsistency sx rs (vc_commit car) target = Inr ()" and "stream_exact ip sx car"
proof -
  from assms(1) obtain commit c1 c2 ib s3 entries records where
    v: "verifyCommitConsistency sx rs commit target = Inr ()"
    and ix: "parseRepoIndex ip sx ib = Inr (entries, sc_Hash commit)"
    and recs: "read_records ip ctx entries s3 0 [] = Inr (records, r)"
    and car: "car = \<lparr>vc_commit = commit, vc_commitCID = c1, vc_indexCID = c2, vc_records = records\<rparr>"
    unfolding read_car_def by (auto split: sum.splits if_splits)
  from v car show "verifyCommitConsistency sx rs (vc_commit car) target = Inr ()" by simp
  from read_records_sound[OF recs] have r: "map (\<lambda>r. r\<lparr>ir_value := []\<rparr>) records = map (\<lambda>r. r\<lparr>ir_value := []\<rparr>) entries"
    "\<forall>r \<in> set records. record_exact ip r" "(\<Sum>r \<leftarrow> records. length (ir_value r)) \<le> maxRetainedRecordBytes" by auto
  have "map (index_entry_ok sx) records = map (index_entry_ok sx) entries" "map (index_element ip) records = map (index_element ip) entries"
    "map record_path records = map record_path entries" "length records = length entries"
    using erased_same[OF r(1), of "index_entry_ok sx"] erased_same[OF r(1), of "index_element ip"] erased_same[OF r(1), of record_path]
      map_eq_imp_length_eq[OF r(1)]
    by (simp_all add: index_entry_ok_def index_element_def record_path_def)
  moreover have "\<forall>r \<in> set records. index_entry_ok sx r"
  proof -
    have "set (map (index_entry_ok sx) records) \<subseteq> {True}"
      unfolding calculation(1) using parseRepoIndex_sound(1)[OF ix] by auto
    then show ?thesis by auto
  qed
  ultimately show "stream_exact ip sx car"
    using parseRepoIndex_sound(2,3)[OF ix] parseRepoIndex_distinct[OF ix assms(2)] r(2,3) by (simp add: car stream_exact_def)
qed

lemma verifyFullSourceCAR_sound:
  assumes "verifyFullSourceCAR ip sx rs ctx target s = Inr car" and "decoder_law ip"
  shows "verifyCommitConsistency sx rs (vc_commit car) target = Inr ()" "stream_exact ip sx car"
  using assms read_car_sound[of ip sx rs ctx target s car]
  by (auto simp: verifyFullSourceCAR_def split: sum.splits if_splits)

lemma readSourceCAR_verified:
  assumes "readSourceCAR ip sx rs ctx target body = Inr car"
  shows "verifyFullSourceCAR ip sx rs ctx target body = Inr car" "length body \<le> maxRepoStreamBytes"
  using assms by (auto simp: readSourceCAR_def split: sum.splits if_splits)

lemma verifyCommitConsistency_facts:
  assumes "verifyCommitConsistency sx rs commit target = Inr ()"
  shows "sc_Version commit = commitVersion" "length (sc_Hash commit) = 32" "length (sc_IKM commit) = 32" "ot_Epoch target = PinnedEpoch"
    "length (ot_SpaceURI target) \<le> 65535" "length (ot_RepoDID target) \<le> 65535" "length (sc_Revision commit) \<le> 65535"
    "\<exists>did host key. sx_ParseDID sx (ot_RepoDID target) = Some did \<and> rs_Resolve rs did = Some (host, Some key)
       \<and> rs_CleanOrigin rs host = Some (ot_Origin target)
       \<and> rs_Verify rs key (commitContext (ot_SpaceURI target) (ot_RepoDID target) (sc_Revision commit) (sc_IKM commit)) (sc_Signature commit)"
  using assms by (auto simp: verifyCommitConsistency_def Let_def split: if_splits option.splits)

lemma sealed_source_simps:
  "sa_target (sealed_source ip target car) = target" "sa_revision (sealed_source ip target car) = sc_Revision (vc_commit car)"
  "sa_repoHash (sealed_source ip target car) = sc_Hash (vc_commit car)"
  "sa_snapshotID (sealed_source ip target car) = sourceSnapshotID ip target car"
  "sa_commitCID (sealed_source ip target car) = ip_CidString ip (vc_commitCID car)"
  "sa_indexCID (sealed_source ip target car) = ip_CidString ip (vc_indexCID car)"
  "sa_records (sealed_source ip target car) = map (\<lambda>x. \<lparr>so_Collection = ir_collection x, so_RKey = ir_rkey x,
     so_CID = ip_CidString ip (ir_cid x), so_Value = ir_value x\<rparr>) (vc_records car)"
  by (simp_all add: sealed_source_def Let_def)

lemma sealed_source_valid:
  assumes "\<And>c. ip_CidString ip c \<noteq> []" and "ot_Epoch target = PinnedEpoch" and "length (sc_Hash (vc_commit car)) = 32"
  shows "source_valid (sealed_source ip target car)"
proof -
  have "sa_seal (sealed_source ip target car) = source_seal (sealed_source ip target car)"
    by (simp add: sealed_source_def Let_def source_seal_def source_preimage_def)
  then show ?thesis using assms by (simp add: source_valid_def sealed_source_simps sourceSnapshotID_def)
qed

lemma read_stable_Inr:
  assumes "ReadSourceAuthenticatedRepository ip sx rs ctx target reads = Inr r"
  obtains before body after' car where "sd_before reads = Inr before" "sd_body reads = Inr body" "sd_after reads = Inr after'"
    "verifyCommitConsistency sx (rs 1) before target = Inr ()" "readSourceCAR ip sx (rs 2) ctx target body = Inr car"
    "verifyCommitConsistency sx (rs 3) after' target = Inr ()" "sameRepoState before (vc_commit car)" "sameRepoState (vc_commit car) after'"
    "r = sealed_source ip target car"
  using assms by (auto simp: ReadSourceAuthenticatedRepository_def read_stable_def split: sum.splits if_splits)

section \<open>A concrete repository\<close>

text \<open>One record, in blocks of one byte each.\<close>

definition demo_cid :: "char \<Rightarrow> Cid" where
  "demo_cid b = \<lparr>c_Version = 1, c_Codec = cid_DagCBOR, c_MhType = multihash_SHA2_256, c_MhLength = 32, c_Digest = [b]\<rparr>"

definition demo_path :: bytes where "demo_path = MessageCollection @ ''/m''"

definition demo_target :: OfficialTarget where
  "demo_target = \<lparr>ot_Origin = ''o'', ot_SpaceURI = ''s'', ot_RepoDID = ''did:a'', ot_Epoch = PinnedEpoch\<rparr>"

definition demo_ikm :: bytes where "demo_ikm = replicate 32 (CHR 0x07)"

definition demo_xof :: "bytes \<Rightarrow> bytes" where "demo_xof s = replicate 2048 (CHR 0x01)"

definition demo_set_hash :: bytes where
  "demo_set_hash = ltHash_digest (map2 (+) newLtHash (le16_words (take ltHashStateBytes (demo_xof []))))"

definition demo_commit :: signedRepoCommit where
  "demo_commit = \<lparr>sc_Version = 1, sc_Hash = demo_set_hash, sc_IKM = demo_ikm, sc_Signature = replicate 64 (CHR 0x09),
     sc_MAC = computeCommitMAC demo_ikm (commitContext ''s'' ''did:a'' ''r'' demo_ikm) demo_set_hash, sc_Revision = ''r''\<rparr>"

fun demo_decode :: "bytes \<Rightarrow> node option" where
  "demo_decode [c] =
     (if byte c = 1 then Some (NMap [(''roots'', NList [NLink (Some (demo_cid (CHR 0x02))), NLink (Some (demo_cid (CHR 0x03)))]), (''version'', NInt 1)])
      else if byte c = 2 then Some (NMap [(''ikm'', NBytes (sc_IKM demo_commit)), (''mac'', NBytes (sc_MAC demo_commit)), (''rev'', NString ''r''),
        (''sig'', NBytes (sc_Signature demo_commit)), (''ver'', NInt 1), (''hash'', NBytes demo_set_hash)])
      else if byte c = 3 then Some (NMap [(demo_path, NLink (Some (demo_cid (CHR 0x04))))])
      else if byte c = 4 then Some (NMap [(''$type'', NString MessageCollection)])
      else None)"
| "demo_decode _ = None"

fun demo_encode :: "node \<Rightarrow> bytes option" where
  "demo_encode (NMap ((k, _) # _)) = Some [if k = ''roots'' then CHR 0x01 else if k = ''ikm'' then CHR 0x02 else if k = demo_path then CHR 0x03 else CHR 0x04]"
| "demo_encode _ = None"

definition demo_ipld :: ipld_api where
  "demo_ipld = \<lparr>ip_CidFromBytes = (\<lambda>s. case s of [] \<Rightarrow> None | b # _ \<Rightarrow> Some (1, demo_cid b)),
     ip_ParseCid = (\<lambda>s. None), ip_DecodeCid = (\<lambda>s. None), ip_CidString = (\<lambda>c. ''b'' @ c_Digest c),
     ip_Sum = (\<lambda>c d. if length d = 1 then Some (demo_cid (hd d)) else None),
     ip_DecodeCBOR = demo_decode, ip_EncodeCBOR = demo_encode, ip_Blake3 = demo_xof\<rparr>"

definition demo_resolver :: resolver_api where
  "demo_resolver = \<lparr>rs_Resolve = (\<lambda>d. Some (''o'', Some ''k'')), rs_CleanOrigin = Some, rs_Verify = (\<lambda>k m s. length s = 64)\<rparr>"

definition demo_stream :: bytes where
  "demo_stream = [CHR 0x01, CHR 0x01, CHR 0x02, CHR 0x02, CHR 0x02, CHR 0x02, CHR 0x03, CHR 0x03, CHR 0x02, CHR 0x04, CHR 0x04]"

definition demo_record :: indexedRecord where
  "demo_record = \<lparr>ir_collection = MessageCollection, ir_rkey = ''m'', ir_cid = demo_cid (CHR 0x04), ir_value = [CHR 0x04]\<rparr>"

definition demo_car :: verifiedCAR where
  "demo_car = \<lparr>vc_commit = demo_commit, vc_commitCID = demo_cid (CHR 0x02), vc_indexCID = demo_cid (CHR 0x03), vc_records = [demo_record]\<rparr>"

definition demo_reads :: source_reads where
  "demo_reads = \<lparr>sd_before = Inr demo_commit, sd_body = Inr demo_stream, sd_after = Inr demo_commit\<rparr>"

lemma demo_law: "decoder_law demo_ipld"
  by (auto simp: decoder_law_def demo_ipld_def elim!: demo_decode.elims split: if_splits)

lemma demo_section:
  "byte l = length x \<Longrightarrow> x \<noteq> [] \<Longrightarrow> length x < 128 \<Longrightarrow> length x \<le> limit \<Longrightarrow> readCARSection limit (l # x @ s) = Inr (x, s)"
proof -
  assume a: "byte l = length x" "x \<noteq> []" "length x < 128" "length x \<le> limit"
  have "uvarint (length x) = [l]" using a(3) by (simp add: uvarint.simps[of "byte l"] flip: a(1))
  then have "readCanonicalUvarint (l # x @ s) = Inr (length x, x @ s)" using a(3) by (simp add: readCanonicalUvarint_iff)
  with a show ?thesis by (simp add: readCARSection_def)
qed

lemma demo_block: "1 \<le> limit \<Longrightarrow> readCARBlock demo_ipld limit (CHR 0x02 # c # c # s) = Inr (demo_cid c, [c], s)"
  using demo_section[of "CHR 0x02" "[c, c]" "limit + 256" s]
  by (simp add: readCARBlock_def demo_ipld_def validDAGCBORCID_def demo_cid_def byte_def Let_def)

lemma demo_preflight: "byte c < 24 \<Longrightarrow> preflightCBORStructure [c] maxCBORNestingDepth maxCBORDataItems = Inr ()"
  by (simp add: preflightCBORStructure_def maxCBORNestingDepth_def maxCBORDataItems_def readCBORArgument_def Let_def)

lemma demo_canonical:
  "decodeCanonicalDAGCBOR demo_ipld [CHR 0x01] = Inr (the (demo_decode [CHR 0x01]))"
  "decodeCanonicalDAGCBOR demo_ipld [CHR 0x02] = Inr (the (demo_decode [CHR 0x02]))"
  "decodeCanonicalDAGCBOR demo_ipld [CHR 0x03] = Inr (the (demo_decode [CHR 0x03]))"
  "decodeCanonicalDAGCBOR demo_ipld [CHR 0x04] = Inr (the (demo_decode [CHR 0x04]))"
  by (simp_all add: decodeCanonicalDAGCBOR_def demo_preflight byte_def demo_ipld_def demo_path_def MessageCollection_def)

lemma demo_commit_verified: "verifyCommitConsistency plain_syntax demo_resolver demo_commit demo_target = Inr ()"
  by (simp add: verifyCommitConsistency_def demo_commit_def demo_target_def demo_resolver_def plain_syntax_def plain_ident_def has_prefix_def commitVersion_def
      demo_ikm_def demo_set_hash_def ltHash_digest_def computeCommitMAC_def hmac_sha256_def Let_def)

lemma demo_index: "parseRepoIndex demo_ipld plain_syntax [CHR 0x03] = Inr ([demo_record\<lparr>ir_value := []\<rparr>], demo_set_hash)"
proof -
  have "cut CHR ''/'' demo_path = (MessageCollection, ''m'', True)" by (simp add: demo_path_def MessageCollection_def)
  moreover have "ip_Blake3 demo_ipld s = demo_xof []" for s by (simp add: demo_ipld_def demo_xof_def)
  ultimately show ?thesis
    by (simp add: parseRepoIndex_def demo_canonical byte_def parseRecordPath_def nodeCID_def validDAGCBORCID_def demo_cid_def demo_record_def
        allowedCollection_def allowedCollections_def plain_syntax_def demo_set_hash_def ltHash_add_def maxRepoRecords_def)
      (simp add: MessageCollection_def plain_ident_def)
qed

lemma demo_header: "parseCARHeader demo_ipld [CHR 0x01] = Inr (demo_cid (CHR 0x02), demo_cid (CHR 0x03))"
  by (simp add: parseCARHeader_def demo_canonical byte_def is_map_def map_length_def exactMapKeys_def as_int_def nodeCID_def
      validDAGCBORCID_def demo_cid_def)

lemma demo_parse_commit: "parseSignedCommit demo_ipld [CHR 0x02] = Inr demo_commit"
  by (simp add: parseSignedCommit_def demo_canonical byte_def is_map_def map_length_def exactMapKeys_def as_int_def as_bytes_def
      as_string_def demo_commit_def)

lemma demo_records:
  "read_records demo_ipld (\<lambda>k. None) [demo_record\<lparr>ir_value := []\<rparr>] (CHR 0x02 # CHR 0x04 # CHR 0x04 # t) 0 [] = Inr ([demo_record], t)"
  by (simp add: demo_block demo_canonical byte_def demo_record_def recordTypeMatchesNode_def is_map_def as_string_def
      maxRecordBlockBytes_def maxRetainedRecordBytes_def)

lemma demo_read_car: "read_car demo_ipld plain_syntax demo_resolver (\<lambda>k. None) demo_target (demo_stream @ t) = Inr (demo_car, t)"
proof -
  have "readCARSection maxCARHeaderBytes (CHR 0x01 # CHR 0x01 # s) = Inr ([CHR 0x01], s)" for s
    using demo_section[of "CHR 0x01" "[CHR 0x01]" maxCARHeaderBytes s] by (simp add: byte_def maxCARHeaderBytes_def)
  moreover have "1 \<le> maxCommitBlockBytes" "1 \<le> maxIndexBlockBytes" by (simp_all add: maxCommitBlockBytes_def maxIndexBlockBytes_def)
  moreover have "sc_Hash demo_commit = demo_set_hash" by (simp add: demo_commit_def)
  ultimately show ?thesis
    unfolding read_car_def demo_stream_def
    by (simp add: demo_block demo_header demo_parse_commit demo_index demo_commit_verified demo_records demo_car_def
        del: read_records.simps One_nat_def)
qed

lemma section_at_end: "readCARSection limit [] = Inl EOF"
  by (simp add: readCARSection_def readCanonicalUvarint_def numeral_eq_Suc)

lemma dangling_byte: "l \<noteq> CHR 0x00 \<Longrightarrow> readCARSection maxRecordBlockBytes [l] = Inl EOF"
proof (cases "byte l < 128")
  case True
  assume "l \<noteq> CHR 0x00"
  then have "byte l \<noteq> 0" using byte_inj[of l "CHR 0x00"] by (simp add: byte_def)
  moreover have "uvarint (byte l) = [l]" using True by (simp add: uvarint.simps[of "byte l"])
  then have "readCanonicalUvarint [l] = Inr (byte l, [])" using True by (simp add: readCanonicalUvarint_iff)
  ultimately show ?thesis using True by (simp add: readCARSection_def maxRecordBlockBytes_def)
next
  case False
  then show ?thesis by (simp add: readCARSection_def readCanonicalUvarint_def numeral_eq_Suc)
qed

lemma demo_verified: "verifyFullSourceCAR demo_ipld plain_syntax demo_resolver (\<lambda>k. None) demo_target demo_stream = Inr demo_car"
  using demo_read_car[of "[]"] by (simp add: verifyFullSourceCAR_def section_at_end)

lemma demo_read:
  "ReadSourceAuthenticatedRepository demo_ipld plain_syntax (\<lambda>k. demo_resolver) (\<lambda>k. None) demo_target demo_reads
     = Inr (sealed_source demo_ipld demo_target demo_car)"
proof -
  have "length demo_stream \<le> maxRepoStreamBytes" by (simp add: demo_stream_def maxRepoStreamBytes_def)
  then have "readSourceCAR demo_ipld plain_syntax demo_resolver (\<lambda>k. None) demo_target demo_stream = Inr demo_car"
    by (simp add: readSourceCAR_def demo_verified)
  moreover have "validateRepoSourceOrigin plain_syntax demo_resolver demo_target = Inr ()"
    by (simp add: validateRepoSourceOrigin_def demo_resolver_def demo_target_def plain_syntax_def plain_ident_def has_prefix_def)
  ultimately show ?thesis
    by (simp add: ReadSourceAuthenticatedRepository_def read_stable_def demo_reads_def demo_commit_verified sameRepoState_def demo_car_def)
qed

section \<open>Properties\<close>

text \<open>C35. What the reader accepts: the commit verifies for the target, its hash is the set hash of exactly the
  records returned, every record lies in an allowed collection under a valid key, no two share a path, each
  value is canonical data of its collection's type and hashes to its identifier, and counts and sizes are
  within their limits.\<close>

theorem CAR_accepted:
  assumes "verifyFullSourceCAR ip sx rs ctx target body = Inr car" and "decoder_law ip"
  shows "verifyCommitConsistency sx rs (vc_commit car) target = Inr ()
    \<and> sc_Hash (vc_commit car) = ltHashDigest ip (map (index_element ip) (vc_records car))
    \<and> (\<forall>r \<in> set (vc_records car). index_entry_ok sx r \<and> record_exact ip r)
    \<and> distinct (map record_path (vc_records car)) \<and> length (vc_records car) \<le> maxRepoRecords
    \<and> (\<Sum>r \<leftarrow> vc_records car. length (ir_value r)) \<le> maxRetainedRecordBytes"
  using verifyFullSourceCAR_sound[OF assms] by (simp add: stream_exact_def)

theorem CAR_accepted_witness:
  "verifyFullSourceCAR demo_ipld plain_syntax demo_resolver (\<lambda>k. None) demo_target demo_stream = Inr demo_car
    \<and> vc_records demo_car = [demo_record] \<and> record_exact demo_ipld demo_record"
  using CAR_accepted[OF demo_verified demo_law] demo_verified by (simp add: demo_car_def)

text \<open>C36. A repository is read as it was at one moment: when a read succeeds, the commits served before and
  after the stream both verify, agree with the result in revision and hash, and the result is sealed and
  names the target it was read from.\<close>

theorem source_read_stable:
  assumes "ReadSourceAuthenticatedRepository ip sx rs ctx target reads = Inr r" and "\<And>c. ip_CidString ip c \<noteq> []"
  shows "\<exists>before after'. sd_before reads = Inr before \<and> sd_after reads = Inr after'
    \<and> verifyCommitConsistency sx (rs 1) before target = Inr () \<and> verifyCommitConsistency sx (rs 3) after' target = Inr ()
    \<and> matchesCommit r before \<and> matchesCommit r after' \<and> sa_target r = target \<and> source_ValidateSeal r = Inr ()"
proof -
  from read_stable_Inr[OF assms(1)] obtain before body after' car where
    *: "sd_before reads = Inr before" "sd_after reads = Inr after'"
    "verifyCommitConsistency sx (rs 1) before target = Inr ()" "verifyCommitConsistency sx (rs 3) after' target = Inr ()"
    "sameRepoState before (vc_commit car)" "sameRepoState (vc_commit car) after'" "r = sealed_source ip target car" by metis
  note facts = verifyCommitConsistency_facts[OF *(3)] verifyCommitConsistency_facts[OF *(4)]
  have "matchesCommit r before" "matchesCommit r after'" "length (sc_Hash (vc_commit car)) = 32"
    using facts *(5,6,7) by (simp_all add: matchesCommit_def sameRepoState_def sealed_source_simps)
  moreover have "source_ValidateSeal r = Inr ()"
    using sealed_source_valid[OF assms(2) facts(4) calculation(3)] *(7) by (simp add: source_ValidateSeal_def)
  ultimately show ?thesis using * by (auto simp: sealed_source_simps)
qed

theorem source_read_stable_witness:
  "\<exists>r. ReadSourceAuthenticatedRepository demo_ipld plain_syntax (\<lambda>k. demo_resolver) (\<lambda>k. None) demo_target demo_reads = Inr r
    \<and> matchesCommit r demo_commit \<and> source_ValidateSeal r = Inr ()"
proof -
  have "ip_CidString demo_ipld c \<noteq> []" for c by (simp add: demo_ipld_def)
  from source_read_stable[OF demo_read this] demo_read show ?thesis by (auto simp: demo_reads_def)
qed

text \<open>The seal covers everything: two sealed sources with the same seal are the same value, target and
  records included, unless SHA-256 collides on their preimages.\<close>

theorem source_seal_covers:
  assumes "source_valid r" and "source_valid r'" and "sa_seal r = sa_seal r'" and "source_fits r" and "source_fits r'"
  shows "r = r' \<or> (source_preimage r \<noteq> source_preimage r' \<and> sha256 (source_preimage r) = sha256 (source_preimage r'))"
proof (cases "source_preimage r = source_preimage r'")
  case True
  from source_preimage_inj[OF assms(4,5) True] assms(3) show ?thesis by (cases r, cases r') simp
next
  case False
  with assms(1-3) show ?thesis by (simp add: source_valid_def source_seal_def)
qed

theorem source_seal_covers_witness:
  "let r = sealed_source demo_ipld demo_target demo_car in source_valid r \<and> source_fits r
    \<and> (r = r \<or> (source_preimage r \<noteq> source_preimage r \<and> sha256 (source_preimage r) = sha256 (source_preimage r)))"
proof -
  let ?r = "sealed_source demo_ipld demo_target demo_car"
  have v: "source_valid ?r"
    by (rule sealed_source_valid) (simp_all add: demo_ipld_def demo_target_def demo_car_def demo_commit_def demo_set_hash_def ltHash_digest_def)
  have f: "source_fits ?r"
    by (simp add: source_fits_def sealed_source_simps record_fits_def demo_car_def demo_commit_def demo_record_def demo_target_def demo_ipld_def
        demo_cid_def demo_set_hash_def ltHash_digest_def PinnedEpoch_def sourceSnapshotID_def MessageCollection_def)
  from source_seal_covers[OF v v refl f f] v f show ?thesis by (simp add: Let_def)
qed

text \<open>The signed context is unambiguous: if two commits verify, each for its target, over the same context
  bytes, they are for the same space, repository, revision and key material. The guards of the
  verification are what keeps the 16-bit length fields from wrapping.\<close>

theorem commit_context_unambiguous:
  assumes "verifyCommitConsistency sx rs c t = Inr ()" and "verifyCommitConsistency sx' rs' c' t' = Inr ()"
    and "commitContext (ot_SpaceURI t) (ot_RepoDID t) (sc_Revision c) (sc_IKM c)
      = commitContext (ot_SpaceURI t') (ot_RepoDID t') (sc_Revision c') (sc_IKM c')"
  shows "ot_SpaceURI t = ot_SpaceURI t' \<and> ot_RepoDID t = ot_RepoDID t' \<and> sc_Revision c = sc_Revision c' \<and> sc_IKM c = sc_IKM c'"
proof -
  note facts = verifyCommitConsistency_facts[OF assms(1)] verifyCommitConsistency_facts[OF assms(2)]
  define f where "f x = big_endian 2 (int (length x) mod 65536) @ x" for x :: bytes
  have cancel: "f x @ r = f y @ s \<longleftrightarrow> x = y \<and> r = s" if "length x \<le> 65535" "length y \<le> 65535" for x y r s :: bytes
  proof -
    have "int (length x) mod 65536 = int (length x)" "int (length y) mod 65536 = int (length y)" using that by simp_all
    with framed_length[of 2 x r y s] that show ?thesis by (auto simp: f_def)
  qed
  have "commitContext a b d e = commitContextDomain @ f a @ f b @ f d @ f e @ []" for a b d e
    by (simp add: commitContext_def f_def)
  with assms(3) facts(3,5-7) facts(11,13-15) cancel[of "sc_IKM c" "sc_IKM c'" "[]" "[]"] show ?thesis by (simp add: cancel)
qed

theorem commit_context_unambiguous_witness:
  "verifyCommitConsistency plain_syntax demo_resolver demo_commit demo_target = Inr () \<and> sc_IKM demo_commit = sc_IKM demo_commit"
  using commit_context_unambiguous[OF demo_commit_verified demo_commit_verified refl] demo_commit_verified by simp

text \<open>C40. The structure check accepts exactly the byte strings that are one well-formed CBOR data item of
  definite length, nested at most as deep and with at most as many items as the limits allow, and nothing
  after it; it always returns.\<close>

theorem preflight_exact:
  "preflightCBORStructure encoded D M = Inr () \<longleftrightarrow> 1 \<le> D \<and> (\<exists>n. n \<le> M \<and> cbor_items D 1 encoded n [])"
  by (rule preflightCBORStructure_iff)

text \<open>The check for the end of the stream is not exact: behind every accepted stream a further nonzero byte
  goes unnoticed, because a section length with nothing after it reads as the end of the input.\<close>

theorem dangling_byte_accepted:
  assumes "verifyFullSourceCAR ip sx rs ctx target body = Inr car" and "l \<noteq> CHR 0x00"
  shows "\<exists>body' rest. body = body' @ rest \<and> verifyFullSourceCAR ip sx rs ctx target body' = Inr car
    \<and> verifyFullSourceCAR ip sx rs ctx target (body' @ [l]) = Inr car"
proof -
  from assms(1) obtain r where "read_car ip sx rs ctx target body = Inr (car, r)"
    by (auto simp: verifyFullSourceCAR_def split: sum.splits if_splits)
  from car.consumes[OF this] obtain b where b: "body = b @ r" "\<And>t. read_car ip sx rs ctx target (b @ t) = Inr (car, t)" by blast
  from b(2)[of "[]"] b(2)[of "[l]"] have "verifyFullSourceCAR ip sx rs ctx target b = Inr car" "verifyFullSourceCAR ip sx rs ctx target (b @ [l]) = Inr car"
    by (simp_all add: verifyFullSourceCAR_def section_at_end dangling_byte[OF assms(2)])
  with b(1) show ?thesis by (intro exI[of _ b] exI[of _ r]) simp
qed

theorem dangling_byte_accepted_witness:
  "\<exists>body'. verifyFullSourceCAR demo_ipld plain_syntax demo_resolver (\<lambda>k. None) demo_target body' = Inr demo_car
    \<and> verifyFullSourceCAR demo_ipld plain_syntax demo_resolver (\<lambda>k. None) demo_target (body' @ [CHR 0x05]) = Inr demo_car"
  using dangling_byte_accepted[OF demo_verified, of "CHR 0x05"] by auto

end
