(* ===== verification/Recovery_Sound.thy ===== *)
theory Recovery_Sound
  imports Recovery Source_Read
begin

text \<open>
  What the reduction of a source guarantees: the messages, their states and the folders fit
  together, nothing of the source is left out, and a failure tells the caller nothing.
\<close>

section \<open>The filed records\<close>

abbreviation mv_logical :: "MessageVersion \<Rightarrow> bytes" where
  "mv_logical m \<equiv> mr_LogicalMessageID (mv_Record m)"

definition filed_ok :: "filed \<Rightarrow> bool" where
  "filed_ok fd \<longleftrightarrow>
     distinct (map mv_RKey (fd_messages fd)) \<and> set (keys (fd_versionOwners fd)) = mv_RKey ` set (fd_messages fd)
     \<and> distinct (keys (fd_versionsByLogical fd)) \<and> set (keys (fd_versionsByLogical fd)) = mv_logical ` set (fd_messages fd)
     \<and> (\<forall>l k v. map_of (inner (fd_versionsByLogical fd) l) k = Some v \<longrightarrow> v = l \<and> (\<exists>m \<in> set (fd_messages fd). mv_RKey m = k \<and> mv_logical m = l))
     \<and> distinct (keys (fd_messageRevisions fd)) \<and> distinct (keys (fd_folderRevisions fd))"

text \<open>The messages among the records, with key and identifier.\<close>

definition message_records :: "SourceRecord list \<Rightarrow> (bytes \<times> bytes) list" where
  "message_records rs = map (\<lambda>r. (so_RKey r, so_CID r)) (filter (\<lambda>r. so_Collection r = MessageCollection) rs)"

lemma set_keys_update [simp]: "fst ` set (AList.update k v m) = insert k (fst ` set m)"
proof -
  have "set (map fst (AList.update k v m)) = insert k (set (map fst m))" by (auto simp: update_keys)
  then show ?thesis by simp
qed

lemma file_message:
  assumes "filed_ok fd" and "map_of (fd_versionOwners fd) k = None"
  shows "filed_ok (fd\<lparr>fd_versionOwners := AList.update k (mr_LogicalMessageID r) (fd_versionOwners fd),
    fd_versionsByLogical := put_inner (mr_LogicalMessageID r) k (mr_LogicalMessageID r) (fd_versionsByLogical fd),
    fd_messages := fd_messages fd @ [\<lparr>mv_RKey = k, mv_CID = c, mv_Record = r\<rparr>]\<rparr>)" (is "filed_ok ?fd")
proof -
  have k: "k \<notin> mv_RKey ` set (fd_messages fd)" using assms by (auto simp: filed_ok_def map_of_eq_None_iff)
  have p: "distinct (map mv_RKey (fd_messages fd))" "set (keys (fd_versionOwners fd)) = mv_RKey ` set (fd_messages fd)"
    "distinct (keys (fd_versionsByLogical fd))" "set (keys (fd_versionsByLogical fd)) = mv_logical ` set (fd_messages fd)"
    "distinct (keys (fd_messageRevisions fd))" "distinct (keys (fd_folderRevisions fd))" using assms(1) by (simp_all only: filed_ok_def)
  have q: "v = l \<and> (\<exists>m \<in> set (fd_messages ?fd). mv_RKey m = k' \<and> mv_logical m = l)"
    if "map_of (inner (fd_versionsByLogical ?fd) l) k' = Some v" for l k' v
  proof (cases "l = mr_LogicalMessageID r \<and> k' = k")
    case True
    with that show ?thesis by (simp add: put_inner_def)
  next
    case False
    with that have "map_of (inner (fd_versionsByLogical fd) l) k' = Some v" by (auto simp: put_inner_def split: if_splits)
    with assms(1) have "v = l \<and> (\<exists>m \<in> set (fd_messages fd). mv_RKey m = k' \<and> mv_logical m = l)" unfolding filed_ok_def by blast
    then show ?thesis by auto
  qed
  show ?thesis unfolding filed_ok_def
    using p k by (intro conjI allI impI q) (assumption | simp add: put_inner_def del: map_map)+
qed

lemma file_other:
  assumes "filed_ok fd" and "fd_messages fd' = fd_messages fd" and "fd_versionOwners fd' = fd_versionOwners fd"
    and "fd_versionsByLogical fd' = fd_versionsByLogical fd"
    and "distinct (keys (fd_messageRevisions fd'))" and "distinct (keys (fd_folderRevisions fd'))"
  shows "filed_ok fd'"
  using assms by (simp add: filed_ok_def)

lemma file_record_ok:
  assumes "file_record ip sx did r fd = Inr fd'" and "filed_ok fd"
  shows "filed_ok fd'
    \<and> map (\<lambda>m. (mv_RKey m, mv_CID m)) (fd_messages fd') = map (\<lambda>m. (mv_RKey m, mv_CID m)) (fd_messages fd) @ message_records [r]"
proof (cases "so_Collection r = MessageCollection")
  case True
  with assms(1) obtain rec where "map_of (fd_versionOwners fd) (so_RKey r) = None"
    "fd' = fd\<lparr>fd_versionOwners := AList.update (so_RKey r) (mr_LogicalMessageID rec) (fd_versionOwners fd),
      fd_versionsByLogical := put_inner (mr_LogicalMessageID rec) (so_RKey r) (mr_LogicalMessageID rec) (fd_versionsByLogical fd),
      fd_messages := fd_messages fd @ [\<lparr>mv_RKey = so_RKey r, mv_CID = so_CID r, mv_Record = rec\<rparr>]\<rparr>"
    by (auto simp: file_record_def split: sum.splits if_splits)
  with True file_message[OF assms(2)] show ?thesis by (simp add: message_records_def)
next
  case False
  have d: "distinct (keys (fd_messageRevisions fd))" "distinct (keys (fd_folderRevisions fd))" using assms(2) by (simp_all only: filed_ok_def)
  have "fd_messages fd' = fd_messages fd" "fd_versionOwners fd' = fd_versionOwners fd" "fd_versionsByLogical fd' = fd_versionsByLogical fd"
    "distinct (keys (fd_messageRevisions fd'))" "distinct (keys (fd_folderRevisions fd'))"
    using assms(1) False d by (auto simp: file_record_def append_inner_def split: sum.splits if_splits)
  with file_other[OF assms(2)] False show ?thesis by (simp add: message_records_def)
qed

lemma file_records_ok:
  "file_records ip sx ctx did rs fd = Inr fd' \<Longrightarrow> filed_ok fd \<Longrightarrow> filed_ok fd'
     \<and> map (\<lambda>m. (mv_RKey m, mv_CID m)) (fd_messages fd') = map (\<lambda>m. (mv_RKey m, mv_CID m)) (fd_messages fd) @ message_records rs"
proof (induction rs arbitrary: fd)
  case (Cons r rs)
  let ?fd = "fd\<lparr>fd_seenPaths := (so_Collection r @ ''/'' @ so_RKey r) # fd_seenPaths fd\<rparr>"
  from Cons.prems(1) obtain fd1 where 1: "file_record ip sx did r ?fd = Inr fd1" "file_records ip sx ctx did rs fd1 = Inr fd'"
    by (auto simp: Let_def split: option.splits sum.splits if_splits)
  have "filed_ok ?fd" using Cons.prems(2) by (simp add: filed_ok_def)
  note step = file_record_ok[OF 1(1) this]
  from Cons.IH[OF 1(2)] step show ?case by (simp add: message_records_def)
qed (simp add: message_records_def)

lemma nothing_filed_ok: "filed_ok nothing_filed"
  by (simp add: filed_ok_def nothing_filed_def)

section \<open>Folders and messages\<close>

lemma reduce_each_folder_sound:
  "reduce_each_folder sx ctx did sid revisions claims ids states = Inr sts \<Longrightarrow>
     \<exists>new. sts = states @ new \<and> map rf_FolderID new = ids"
proof (induction ids arbitrary: states)
  case (Cons id ids)
  then obtain st s where st: "ReduceFolder sx did id (inner revisions id) s = Inr st"
    "reduce_each_folder sx ctx did sid revisions claims ids (states @ [st]) = Inr sts"
    by (auto split: option.splits sum.splits if_splits)
  from Cons.IH[OF st(2)] ReduceFolder_registers(1)[OF st(1)] show ?case by (auto simp: Cons_eq_map_conv)
qed simp

lemma folder_references_of:
  assumes "map_of (folder_references sts) f = Some ref"
  shows "\<exists>st \<in> set sts. rf_FolderID st = f \<and> vf_tombstone ref = rf_Tombstone st"
proof -
  have "map_of (foldl (\<lambda>m st. AList.update (rf_FolderID st) \<lparr>vf_stateDigest = rf_StateDigest st, vf_tombstone = rf_Tombstone st\<rparr> m) m0 sts) f = Some ref
      \<Longrightarrow> map_of m0 f = Some ref \<or> (\<exists>st \<in> set sts. rf_FolderID st = f \<and> vf_tombstone ref = rf_Tombstone st)" for m0
    by (induction sts arbitrary: m0) (fastforce split: if_splits)+
  from this[of "[]"] assms show ?thesis by (simp add: folder_references_def)
qed

text \<open>What one reduced message state refers to.\<close>

definition state_refers :: "bytes gomap \<Rightarrow> verifiedFolderReference gomap \<Rightarrow> ReducedState \<Rightarrow> bool" where
  "state_refers versions folders st \<longleftrightarrow> map_of versions (rs_Version st) = Some (rs_LogicalMessageID st)
     \<and> (rs_Tombstone st \<or> (\<forall>f \<in> set (elems (rs_MailboxIDs st)). \<exists>ref. map_of folders f = Some ref \<and> \<not> vf_tombstone ref))"

lemma Reduce_refers:
  assumes "Reduce sx did lm es i = Inr st"
  shows "state_refers (vs_versions i) (vs_folders i) st"
proof -
  note regs = Reduce_registers[OF assms]
  from assms have red: "reducible sx did lm i es" by (simp add: Reduce_iff)
  have "length (filter (\<lambda>e. ev_parents e = []) es) = 1" using red by (simp add: reducible_def)
  then have "filter (\<lambda>e. ev_parents e = []) es \<noteq> []" by auto
  then obtain e where "e \<in> set es" "ev_parents e = []" by (auto simp: filter_empty_conv)
  moreover have "initial_ok e" using calculation red by (auto simp: reducible_def admitted_def event_linked_def)
  ultimately have "latest version_assigned (event_order ev_height ev_operation es) \<noteq> None"
    by (auto simp: latest_None initial_ok_def version_assigned_def)
  then obtain v where v: "latest version_assigned (event_order ev_height ev_operation es) = Some v" by blast
  then obtain e' where e': "e' \<in> set es" "version_assigned e' = Some v" using latest_member by fastforce
  then have "map_of (vs_versions i) v = Some lm"
    using validateRevisionD(10)[OF event_checkedD[OF red e'(1)]] by (auto simp: version_assigned_def split: if_splits)
  moreover have "\<exists>ref. map_of (vs_folders i) f = Some ref \<and> \<not> vf_tombstone ref" if "live_folder i f" for f
    using that by (auto simp: live_folder_def split: option.splits)
  ultimately show ?thesis using v regs(1,4,12) by (auto simp: state_refers_def)
qed

lemma reduce_each_message_sound:
  "reduce_each_message sx ctx did sid versions revisions claims folders ids states seen = Inr (sts, seen') \<Longrightarrow>
     \<exists>new. sts = states @ new \<and> map rs_LogicalMessageID new = ids \<and> set ids \<subseteq> set (keys versions)
       \<and> (\<forall>st \<in> set new. state_refers (inner versions (rs_LogicalMessageID st)) folders st)"
proof (induction ids arbitrary: states seen)
  case (Cons id ids)
  then obtain st vs i where st: "Reduce sx did id (inner revisions id) i = Inr st" "map_of versions id = Some vs"
    "vs_versions i = vs" "vs_folders i = folders"
    "reduce_each_message sx ctx did sid versions revisions claims folders ids (states @ [st]) (note_versions (inner revisions id) seen) = Inr (sts, seen')"
    by (auto simp: message_snapshot_def Let_def split: option.splits sum.splits if_splits)
  have "state_refers (inner versions (rs_LogicalMessageID st)) folders st"
    using Reduce_refers[OF st(1)] Reduce_registers(1)[OF st(1)] st by (simp add: inner_def)
  moreover obtain new where "sts = (states @ [st]) @ new" "map rs_LogicalMessageID new = ids" "set ids \<subseteq> set (keys versions)"
    "\<forall>st \<in> set new. state_refers (inner versions (rs_LogicalMessageID st)) folders st"
    using Cons.IH[OF st(5)] by blast
  moreover have "id \<in> set (keys versions)" using st(2) by (metis domI dom_map_of_conv_image_fst image_set)
  ultimately show ?case using Reduce_registers(1)[OF st(1)] by (intro exI[of _ "st # new"]) simp
qed simp

section \<open>A consistent mailbox\<close>

text \<open>
  What the parts of a reduction have to do with each other: lists are in strict order of their
  identities; there is one state per logical message; a state's version is a message with that
  logical identity; the folders of a live state exist and are live; the folders form a
  consistent set.
\<close>

definition reduction_consistent :: "syntax_api \<Rightarrow> (nat \<Rightarrow> nat) \<Rightarrow> ReducedSourceState \<Rightarrow> bool" where
  "reduction_consistent sx sf st \<longleftrightarrow>
     sorted_wrt (<) (map mv_RKey (rd_messages st)) \<and> sorted_wrt (<) (map rs_LogicalMessageID (rd_messageStates st))
     \<and> sorted_wrt (<) (map rf_FolderID (rd_folders st))
     \<and> rs_LogicalMessageID ` set (rd_messageStates st) = mv_logical ` set (rd_messages st)
     \<and> (\<forall>s \<in> set (rd_messageStates st). \<exists>m \<in> set (rd_messages st). mv_RKey m = rs_Version s \<and> mv_logical m = rs_LogicalMessageID s)
     \<and> (\<forall>s \<in> set (rd_messageStates st). rs_Tombstone s \<or>
          (\<forall>f \<in> set (elems (rs_MailboxIDs s)). \<exists>fo \<in> set (rd_folders st). rf_FolderID fo = f \<and> \<not> rf_Tombstone fo))
     \<and> folder_set_ok sx sf (ot_RepoDID (rd_target st)) (rd_folders st)
         (folder_set_snapshot (rd_snapshotID st) (ot_RepoDID (rd_target st)) (rd_folders st))"

lemma sorted_keys:
  assumes "distinct (keys m)"
  shows "sorted_wrt (<) (sortedMapKeys m)" "set (sortedMapKeys m) = set (keys m)" "distinct (sortedMapKeys m)"
  using assms by (simp_all add: sortedMapKeys_def strict_sorted_iff)

lemma sort_key_sorted: "sorted_wrt (<) (map f xs) \<Longrightarrow> sort_key f xs = xs" for f :: "'a \<Rightarrow> bytes"
  by (simp add: sort_key_id_if_sorted strict_sorted_iff)

lemma sort_key_strict: "distinct (map f xs) \<Longrightarrow> sorted_wrt (<) (map f (sort_key f xs))" for f :: "'a \<Rightarrow> bytes"
proof -
  assume d: "distinct (map f xs)"
  have "mset (map f (sort_key f xs)) = mset (map f xs)" by simp
  then have "distinct (map f (sort_key f xs))" using d by (metis mset_eq_imp_distinct_iff)
  then show ?thesis by (simp add: strict_sorted_iff)
qed

lemma reduceOfficialFolders_sound:
  assumes "reduceOfficialFolders sx sf ctx did sid revisions claims = Some (Inr (folders, refs))"
    and "simple_fold_laws sf cls" and "distinct (keys revisions)"
  shows "sorted_wrt (<) (map rf_FolderID folders)" "refs = folder_references folders"
    "folder_set_ok sx sf did folders (folder_set_snapshot sid did folders)" "folders \<noteq> []"
proof -
  from assms(1) have r: "reduce_each_folder sx ctx did sid revisions claims (sortedMapKeys revisions) [] = Inr folders"
    "ValidateFolderSet sx sf did folders (folder_set_snapshot sid did folders) = Some (Inr ())" "refs = folder_references folders" "revisions \<noteq> []"
    by (auto simp: reduceOfficialFolders_def split: sum.splits option.splits if_splits)
  have ids: "map rf_FolderID folders = sortedMapKeys revisions" using reduce_each_folder_sound[OF r(1)] by simp
  then show "sorted_wrt (<) (map rf_FolderID folders)" using sorted_keys(1)[OF assms(3)] by simp
  show "folders \<noteq> []" using arg_cong[OF ids, of length] r(4) by (auto simp: sortedMapKeys_def)
  show "folder_set_ok sx sf did folders (folder_set_snapshot sid did folders)" using r(2) ValidateFolderSet_spec[OF assms(2)] by blast
  show "refs = folder_references folders" by (rule r(3))
qed

lemma reduceOfficialMessages_sound:
  assumes "reduceOfficialMessages sx ctx did sid versions revisions claims folders = Inr (states, seen)"
    and "distinct (keys revisions)" and "distinct (keys versions)"
  shows "sorted_wrt (<) (map rs_LogicalMessageID states)" "rs_LogicalMessageID ` set states = set (keys versions)"
    "\<forall>st \<in> set states. state_refers (inner versions (rs_LogicalMessageID st)) folders st"
proof -
  from assms(1) have r: "reduce_each_message sx ctx did sid versions revisions claims folders (sortedMapKeys revisions) [] [] = Inr (states, seen)"
    "length revisions = length versions"
    by (auto simp: reduceOfficialMessages_def split: if_splits)
  from reduce_each_message_sound[OF r(1)] have s: "map rs_LogicalMessageID states = sortedMapKeys revisions"
    "set (sortedMapKeys revisions) \<subseteq> set (keys versions)"
    "\<forall>st \<in> set states. state_refers (inner versions (rs_LogicalMessageID st)) folders st" by auto
  note k = sorted_keys[OF assms(2)]
  show "sorted_wrt (<) (map rs_LogicalMessageID states)" using s(1) k(1) by simp
  show "\<forall>st \<in> set states. state_refers (inner versions (rs_LogicalMessageID st)) folders st" by (rule s(3))
  have "card (set (keys revisions)) = card (set (keys versions))"
    using assms(2,3) r(2) by (metis distinct_card length_map)
  then have "set (keys revisions) = set (keys versions)" using s(2) k(2) by (intro card_subset_eq) auto
  with s(1) k(2) show "rs_LogicalMessageID ` set states = set (keys versions)" by (metis set_map)
qed

lemma reduceOfficialSpacesInventory_sound:
  assumes "reduceOfficialSpacesInventory ip sx sf ctx input = Some (Inr st)" and laws: "simple_fold_laws sf cls"
  shows "reduction_consistent sx sf st
    \<and> set (map (\<lambda>m. (mv_RKey m, mv_CID m)) (rd_messages st)) = set (message_records (oi_records input))
    \<and> rd_folders st \<noteq> [] \<and> rd_seal st = reduction_seal st"
proof -
  let ?did = "ot_RepoDID (oi_target input)" and ?sid = "oi_snapshotID input"
  from assms(1) obtain fd folders refs states seen ctx1 ctx2 where
    fd: "file_records ip sx ctx ?did (oi_records input) nothing_filed = Inr fd"
    and fs: "reduceOfficialFolders sx sf ctx1 ?did ?sid (fd_folderRevisions fd) (fd_folderClaims fd) = Some (Inr (folders, refs))"
    and ms: "reduceOfficialMessages sx ctx2 ?did ?sid (fd_versionsByLogical fd) (fd_messageRevisions fd) (fd_messageClaims fd) refs = Inr (states, seen)"
    and st: "st = sealed_reduction input (fd_messages fd) states folders"
    by (auto simp: reduceOfficialSpacesInventory_def Let_def split: sum.splits option.splits if_splits)
  from file_records_ok[OF fd nothing_filed_ok] have ok: "filed_ok fd"
    and rec: "map (\<lambda>m. (mv_RKey m, mv_CID m)) (fd_messages fd) = message_records (oi_records input)" by (auto simp: nothing_filed_def)
  have d: "distinct (map mv_RKey (fd_messages fd))" "distinct (keys (fd_versionsByLogical fd))" "distinct (keys (fd_messageRevisions fd))"
    "distinct (keys (fd_folderRevisions fd))" and vk: "set (keys (fd_versionsByLogical fd)) = mv_logical ` set (fd_messages fd)"
    using ok by (simp_all only: filed_ok_def)
  note F = reduceOfficialFolders_sound[OF fs laws d(4)] and M = reduceOfficialMessages_sound[OF ms d(3,2)]
  have sel: "rd_messages st = sort_key mv_RKey (fd_messages fd)" "rd_messageStates st = states" "rd_folders st = folders"
    "rd_target st = oi_target input" "rd_snapshotID st = ?sid"
    using F(1) M(1) by (simp_all add: st sealed_reduction_def Let_def sort_key_sorted)
  have version: "\<exists>m \<in> set (fd_messages fd). mv_RKey m = rs_Version s \<and> mv_logical m = rs_LogicalMessageID s" if "s \<in> set states" for s
  proof -
    have "map_of (inner (fd_versionsByLogical fd) (rs_LogicalMessageID s)) (rs_Version s) = Some (rs_LogicalMessageID s)"
      using M(3) that by (auto simp: state_refers_def)
    with ok show ?thesis unfolding filed_ok_def by blast
  qed
  have live: "rs_Tombstone s \<or> (\<forall>f \<in> set (elems (rs_MailboxIDs s)). \<exists>fo \<in> set folders. rf_FolderID fo = f \<and> \<not> rf_Tombstone fo)" if "s \<in> set states" for s
    using M(3) that folder_references_of[of folders] F(2) by (fastforce simp: state_refers_def)
  have "reduction_consistent sx sf st"
    unfolding reduction_consistent_def sel
    using sort_key_strict[OF d(1)] F(1,3) M(1,2) vk version live by simp
  moreover have "rd_seal st = reduction_seal st"
    by (simp add: st sealed_reduction_def Let_def reduction_seal_def reduction_preimage_def)
  moreover have "set (map (\<lambda>m. (mv_RKey m, mv_CID m)) (rd_messages st)) = set (message_records (oi_records input))"
    unfolding rec[symmetric] sel by simp
  ultimately show ?thesis using F(4) sel by simp
qed

lemma reduceOfficialSpacesInventory_returns:
  assumes "simple_fold_laws sf cls"
  shows "reduceOfficialSpacesInventory ip sx sf ctx input \<noteq> None"
  by (auto simp: reduceOfficialSpacesInventory_def reduceOfficialFolders_def Let_def split: sum.splits option.splits if_splits
      elim!: notE[OF ValidateFolderSet_returns[OF assms]])

lemma reduceOfficialSpacesInventory_valid:
  assumes "reduceOfficialSpacesInventory ip sx sf ctx input = Some (Inr st)" and "simple_fold_laws sf cls"
    and "\<not> sx_ParseTID sx []" and "ip_ParseCid ip [] = None"
  shows "reduction_valid sx st" "rd_target st = oi_target input" "rd_snapshotID st = oi_snapshotID input" "rd_revision st = oi_revision input"
proof -
  have "validateOfficialInventoryIdentity ip sx input = Inr ()"
    and sel: "rd_target st = oi_target input" "rd_snapshotID st = oi_snapshotID input" "rd_revision st = oi_revision input"
      "rd_commitCID st = oi_commitCID input" "rd_indexCID st = oi_indexCID input"
    using assms(1)
    by (auto simp: reduceOfficialSpacesInventory_def sealed_reduction_def Let_def split: sum.splits option.splits if_splits)
  then have "ot_Epoch (oi_target input) = PinnedEpoch" "validCanonicalDID sx (ot_RepoDID (oi_target input))" "validSHA256Identifier (oi_snapshotID input)"
    "sx_ParseTID sx (oi_revision input)" "ip_ParseCid ip (oi_commitCID input) \<noteq> None" "ip_ParseCid ip (oi_indexCID input) \<noteq> None"
    by (auto simp: validateOfficialInventoryIdentity_def split: if_splits option.splits)
  moreover have "oi_revision input \<noteq> []" "oi_commitCID input \<noteq> []" "oi_indexCID input \<noteq> []"
    using calculation(4-6) assms(3,4) by auto
  ultimately show "reduction_valid sx st"
    using reduceOfficialSpacesInventory_sound[OF assms(1,2)] sel by (simp add: reduction_valid_def)
  show "rd_target st = oi_target input" "rd_snapshotID st = oi_snapshotID input" "rd_revision st = oi_revision input" by (rule sel)+
qed

section \<open>Properties\<close>

text \<open>C37. The reduction of a sealed source returns. Either it fails, and then the caller learns nothing but
  whether it was cancelled; or the result is sealed for the source's target, snapshot and revision, contains
  exactly the message records of the source, and is consistent: one state per logical message, whose version
  is one of that message's records and whose folders, unless it is deleted, exist and are live, in a
  consistent set of folders.\<close>

theorem source_reduction_sound:
  assumes "simple_fold_laws sf cls" and "\<not> sx_ParseTID sx []" and "ip_ParseCid ip [] = None"
  shows "\<exists>r. ReduceOfficialSpacesSource ip sx sf ctx (Some s) = Some r \<and>
    (case r of
       Inl e \<Rightarrow> e = ErrSourceReduction \<or> ctx 0 = Some e \<or> errors_Is e ErrCanceled \<or> errors_Is e ErrDeadlineExceeded
     | Inr st \<Rightarrow> reduction_consistent sx sf st \<and> reduction_ValidateSeal sx st = Inr ()
         \<and> rd_target st = sa_target s \<and> rd_snapshotID st = sa_snapshotID s \<and> rd_revision st = sa_revision s
         \<and> set (map (\<lambda>m. (mv_RKey m, mv_CID m)) (rd_messages st)) = set (message_records (sa_records s)))"
proof (cases "ctx 0 = None \<and> source_valid s")
  case False
  then show ?thesis by (auto simp: ReduceOfficialSpacesSource_def source_ValidateSeal_def split: option.splits)
next
  case True
  let ?input = "\<lparr>oi_target = sa_target s, oi_revision = sa_revision s, oi_snapshotID = sa_snapshotID s,
     oi_commitCID = sa_commitCID s, oi_indexCID = sa_indexCID s, oi_records = sa_records s\<rparr>"
  obtain r where r: "reduceOfficialSpacesInventory ip sx sf (\<lambda>k. ctx (k + 1)) ?input = Some r"
    using reduceOfficialSpacesInventory_returns[OF assms(1)] by blast
  have acc: "source_Target s = sa_target s" "source_Revision s = sa_revision s" "source_SnapshotID s = sa_snapshotID s"
    "source_CommitCID s = sa_commitCID s" "source_IndexCID s = sa_indexCID s" "source_Records s = sa_records s" "source_ValidateSeal s = Inr ()"
    using True by (simp_all add: source_Target_def source_Revision_def source_SnapshotID_def source_CommitCID_def source_IndexCID_def
        source_Records_def source_ValidateSeal_def)
  show ?thesis
  proof (cases r)
    case (Inl e)
    with r True acc show ?thesis by (simp add: ReduceOfficialSpacesSource_def)
  next
    case (Inr st)
    with r have st: "reduceOfficialSpacesInventory ip sx sf (\<lambda>k. ctx (k + 1)) ?input = Some (Inr st)" by simp
    from reduceOfficialSpacesInventory_sound[OF st assms(1)] reduceOfficialSpacesInventory_valid[OF st assms] r Inr True acc
    show ?thesis by (simp add: ReduceOfficialSpacesSource_def reduction_ValidateSeal_def)
  qed
qed

theorem source_reduction_sound_witness:
  "\<exists>r. ReduceOfficialSpacesSource demo_ipld plain_syntax latin_fold (\<lambda>k. None) (Some (sealed_source demo_ipld demo_target demo_car)) = Some r
    \<and> (case r of Inl e \<Rightarrow> e = ErrSourceReduction \<or> errors_Is e ErrCanceled \<or> errors_Is e ErrDeadlineExceeded
       | Inr st \<Rightarrow> reduction_consistent plain_syntax latin_fold st)"
proof -
  have "\<not> sx_ParseTID plain_syntax []" "ip_ParseCid demo_ipld [] = None"
    by (simp_all add: plain_syntax_def plain_ident_def demo_ipld_def)
  from source_reduction_sound[OF latin_fold_laws this, of "\<lambda>k. None" "sealed_source demo_ipld demo_target demo_car"]
  show ?thesis by (auto split: sum.splits)
qed

end
