(* ===== verification/Content.thy ===== *)
theory Content
  imports Recovery_Sound
begin

text \<open>
  Packages \<^verbatim>\<open>officialspaces\<close> (\<^verbatim>\<open>blob_stream.go\<close>) and \<^verbatim>\<open>mailboxstate\<close> (\<^verbatim>\<open>officialspaces_content.go\<close>): the
  bytes of the messages of a reduced source. They are streamed while the repository stands
  still, checked against their identifiers and records, and held by a value that can be
  visited by several callers and closed at any time.
\<close>

section \<open>Streaming blobs\<close>

definition maxRecoveryBlobBytes :: nat where "maxRecoveryBlobBytes = 64 * 2 ^ 20"
definition maxInventoryItems :: nat where "maxInventoryItems = 100000"

definition validRawCID :: "ipld_api \<Rightarrow> bytes \<Rightarrow> bool" where
  "validRawCID ip raw = (case ip_DecodeCid ip raw of None \<Rightarrow> False | Some c \<Rightarrow>
     ip_CidString ip c = raw \<and> c_Version c = 1 \<and> c_Codec c = cid_Raw \<and> c_MhType c = multihash_SHA2_256 \<and> c_MhLength c = 32)"

definition validBlobCID :: "ipld_api \<Rightarrow> bytes \<Rightarrow> bytes \<Rightarrow> bool" where
  "validBlobCID ip raw data = (if \<not> validRawCID ip raw then False else
     (case ip_DecodeCid ip raw of None \<Rightarrow> False | Some c \<Rightarrow> ip_Sum ip c data = Some c))"

text \<open>The body of a response that arrived with the right status and media type.\<close>

definition readMessageBlob :: "ipld_api \<Rightarrow> bytes \<Rightarrow> bytes result \<Rightarrow> bytes result" where
  "readMessageBlob ip blobCID response =
     (case response of Inl e \<Rightarrow> Inl e | Inr body \<Rightarrow>
        let data = take (MaxRawMessageBytes + 1) body in
        if length data = 0 then Inl ErrIntegrity
        else if length data > MaxRawMessageBytes then Inl ErrMessageTooLarge
        else if \<not> validBlobCID ip blobCID data then Inl ErrIntegrity
        else Inr data)"

text \<open>What the transport delivers: the commit before, the body for each index, the commit after.\<close>

record blob_reads =
  bd_before :: "signedRepoCommit result"
  bd_blob :: "nat \<Rightarrow> bytes result"
  bd_after :: "signedRepoCommit result"

fun stream_loop ::
  "ipld_api \<Rightarrow> (nat \<Rightarrow> err option) \<Rightarrow> (nat \<Rightarrow> bytes result) \<Rightarrow> nat \<Rightarrow> (nat \<Rightarrow> bytes \<Rightarrow> bytes \<Rightarrow> 's \<Rightarrow> 's result)
     \<Rightarrow> nat \<Rightarrow> bytes list \<Rightarrow> nat \<Rightarrow> 's \<Rightarrow> 's result" where
  "stream_loop ip ctx blob maxTotalBytes consume index [] totalBytes s = Inr s"
| "stream_loop ip ctx blob maxTotalBytes consume index (blobCID # cids) totalBytes s =
     (case ctx index of Some e \<Rightarrow> Inl e | None \<Rightarrow>
        (case readMessageBlob ip blobCID (blob index) of Inl e \<Rightarrow> Inl e | Inr data \<Rightarrow>
          if length data > maxTotalBytes - totalBytes then Inl ErrMessageTooLarge
          else (case consume index blobCID data s of
              Inl e \<Rightarrow> if errors_Is e ErrCanceled \<or> errors_Is e ErrDeadlineExceeded then Inl e else Inl (ErrOther ''blob consumer'')
            | Inr s' \<Rightarrow> stream_loop ip ctx blob maxTotalBytes consume (index + 1) cids (totalBytes + length data) s')))"

definition at_snapshot :: "syntax_api \<Rightarrow> resolver_api \<Rightarrow> OfficialTarget \<Rightarrow> SourceAuthenticatedRepository \<Rightarrow> signedRepoCommit \<Rightarrow> bool" where
  "at_snapshot sx rs target source commit = (verifyCommitConsistency sx rs commit target = Inr () \<and> matchesCommit source commit)"

definition streamSourceMessageBlobs ::
  "ipld_api \<Rightarrow> syntax_api \<Rightarrow> (nat \<Rightarrow> resolver_api) \<Rightarrow> (nat \<Rightarrow> err option) \<Rightarrow> OfficialTarget \<Rightarrow> SourceAuthenticatedRepository \<Rightarrow> bytes list
     \<Rightarrow> nat \<Rightarrow> (nat \<Rightarrow> bytes \<Rightarrow> bytes \<Rightarrow> 's \<Rightarrow> 's result) \<Rightarrow> blob_reads \<Rightarrow> 's \<Rightarrow> 's result" where
  "streamSourceMessageBlobs ip sx rs ctx target source cids maxTotalBytes consume reads s =
     (case ctx 0 of Some e \<Rightarrow> Inl e | None \<Rightarrow>
      if sa_target source \<noteq> target then Inl ErrTarget
      else if source_ValidateSeal source \<noteq> Inr () then Inl ErrSnapshotVerification
      else if length cids > maxInventoryItems \<or> maxTotalBytes < 1 \<or> maxTotalBytes > maxRecoveryBlobBytes then Inl ErrInvalidRecord
      else if list_ex (\<lambda>c. \<not> validRawCID ip c) cids \<or> \<not> sorted_wrt (<) cids then Inl ErrInvalidRecord
      else (case validateRepoSourceOrigin sx (rs 0) target of Inl e \<Rightarrow> Inl e | Inr _ \<Rightarrow>
        (case bd_before reads of Inl e \<Rightarrow> Inl e | Inr before \<Rightarrow>
          if \<not> at_snapshot sx (rs 1) target source before then Inl ErrSnapshotVerification
          else (case stream_loop ip (\<lambda>k. ctx (k + 1)) (bd_blob reads) maxTotalBytes consume 0 cids 0 s of Inl e \<Rightarrow> Inl e | Inr s' \<Rightarrow>
            (case bd_after reads of Inl e \<Rightarrow> Inl e | Inr after' \<Rightarrow>
              if \<not> at_snapshot sx (rs 2) target source after' then Inl ErrSnapshotVerification
              else if source_ValidateSeal source \<noteq> Inr () then Inl ErrSnapshotVerification
              else Inr s')))))"

definition StreamSourceMessageBlobs ::
  "ipld_api \<Rightarrow> syntax_api \<Rightarrow> (nat \<Rightarrow> resolver_api) \<Rightarrow> (nat \<Rightarrow> err option) \<Rightarrow> OfficialTarget \<Rightarrow> SourceAuthenticatedRepository \<Rightarrow> bytes list
     \<Rightarrow> (nat \<Rightarrow> bytes \<Rightarrow> bytes \<Rightarrow> 's \<Rightarrow> 's result) \<Rightarrow> blob_reads \<Rightarrow> 's \<Rightarrow> 's result" where
  "StreamSourceMessageBlobs ip sx rs ctx target source cids consume reads s =
     streamSourceMessageBlobs ip sx rs ctx target source cids maxRecoveryBlobBytes consume reads s"

section \<open>What has to be read\<close>

definition maxContentVerifiedBytes :: int where "maxContentVerifiedBytes = 64 * 2 ^ 20"

abbreviation mv_link :: "MessageVersion \<Rightarrow> bytes" where
  "mv_link m \<equiv> br_Link (mr_Raw (mv_Record m))"

fun prepare_loop ::
  "MessageVersion list \<Rightarrow> MessageVersion list gomap \<Rightarrow> int gomap \<Rightarrow> int \<Rightarrow> (MessageVersion list gomap \<times> int) result" where
  "prepare_loop [] groups declaredSizes declared = Inr (groups, declared)"
| "prepare_loop (message # messages) groups declaredSizes declared =
     (let blobCID = mv_link message; len = mr_Size (mv_Record message); groups' = append_inner blobCID message groups in
      if blobCID = [] \<or> len < 1 \<or> len > int MaxRawMessageBytes then Inl ErrIntegrity
      else (case map_of declaredSizes blobCID of
          Some prior \<Rightarrow> if prior \<noteq> len then Inl ErrIntegrity else prepare_loop messages groups' declaredSizes declared
        | None \<Rightarrow> if len > maxContentVerifiedBytes - declared then Inl ErrResourceLimit
            else prepare_loop messages groups' (AList.update blobCID len declaredSizes) (declared + len)))"

definition prepareOfficialContent :: "MessageVersion list \<Rightarrow> (bytes list \<times> MessageVersion list gomap \<times> int) result" where
  "prepareOfficialContent messages =
     (case prepare_loop messages [] [] 0 of Inl e \<Rightarrow> Inl e | Inr (groups, declared) \<Rightarrow> Inr (sort (keys groups), groups, declared))"

definition validOfficialContentCID :: "ipld_api \<Rightarrow> bytes \<Rightarrow> bytes \<Rightarrow> bool" where
  "validOfficialContentCID ip blobCID raw =
     (case ip_ParseCid ip blobCID of None \<Rightarrow> False | Some parsed \<Rightarrow>
        if ip_CidString ip parsed \<noteq> blobCID then False else ip_Sum ip parsed raw = Some parsed)"

section \<open>The verified content\<close>

record ContentVerifiedSource =
  cs_state :: "ReducedSourceState option"
  cs_blobs :: "bytes gomap"
  cs_totalBytes :: int
  cs_manifestSHA256 :: bytes
  cs_seal :: bytes
  cs_closed :: bool
  cs_activeVisits :: int
  cs_closePending :: bool

record ContentVerificationSummary =
  su_Target :: OfficialTarget
  su_Revision :: bytes
  su_SnapshotID :: bytes
  su_MessageVersions :: nat
  su_UniqueBlobs :: nat
  su_TotalBytes :: int
  su_ManifestSHA256 :: bytes

record ContentVerifiedMessage =
  cm_target :: OfficialTarget
  cm_snapshotID :: bytes
  cm_version :: MessageVersion
  cm_raw :: bytes
  cm_seal :: bytes

text \<open>\<^verbatim>\<open>writeSourceSealUint64\<close> of a signed number.\<close>

definition cw_int64 :: "int \<Rightarrow> bytes" where
  "cw_int64 i = uvarint (nat (i mod 2 ^ 64))"

definition manifest_entry :: "MessageVersion \<Rightarrow> bytes" where
  "manifest_entry m = cw_string (mv_RKey m) @ cw_string (mv_CID m) @ cw_string (mv_link m) @ cw_string (mr_SHA256 (mv_Record m))
     @ cw_int64 (mr_Size (mv_Record m))"

definition officialContentManifest :: "ReducedSourceState \<Rightarrow> bytes gomap \<Rightarrow> bytes" where
  "officialContentManifest st blobs =
     ''sha256-'' @ hex_encode (sha256 (''comail-official-content-manifest-v1'' @ [CHR 0x00]
       @ cw_string (ot_Origin (rd_target st)) @ cw_string (ot_SpaceURI (rd_target st)) @ cw_string (ot_RepoDID (rd_target st))
       @ cw_string (ot_Epoch (rd_target st)) @ cw_string (rd_revision st) @ cw_string (rd_snapshotID st)
       @ cw_len (length (rd_messages st)) @ concat (map manifest_entry (rd_messages st)) @ cw_len (length blobs)))"

definition content_preimage :: "ContentVerifiedSource \<Rightarrow> bytes" where
  "content_preimage cs =
     ''comail-official-content-source-v1'' @ [CHR 0x00] @ (case cs_state cs of None \<Rightarrow> [] | Some st \<Rightarrow> rd_seal st)
     @ cw_string (cs_manifestSHA256 cs) @ cw_int64 (cs_totalBytes cs) @ cw_len (length (cs_blobs cs))
     @ concat (map (\<lambda>c. cw_string c @ cw_string (the (map_of (cs_blobs cs) c))) (sort (keys (cs_blobs cs))))"

definition content_seal :: "ContentVerifiedSource \<Rightarrow> bytes" where
  "content_seal cs = sha256 (content_preimage cs)"

definition content_valid :: "syntax_api \<Rightarrow> ContentVerifiedSource \<Rightarrow> bool" where
  "content_valid sx cs = (\<not> cs_closed cs \<and> (case cs_state cs of None \<Rightarrow> False | Some st \<Rightarrow> reduction_valid sx st)
     \<and> length (cs_manifestSHA256 cs) > 0 \<and> validSHA256Identifier (cs_manifestSHA256 cs)
     \<and> cs_totalBytes cs \<ge> 0 \<and> cs_totalBytes cs \<le> maxContentVerifiedBytes \<and> cs_seal cs = content_seal cs)"

definition content_ValidateSeal :: "syntax_api \<Rightarrow> ContentVerifiedSource \<Rightarrow> unit result" where
  "content_ValidateSeal sx cs = (if \<not> content_valid sx cs then Inl ErrContentVerification else Inr ())"

definition content_Folders :: "syntax_api \<Rightarrow> ContentVerifiedSource \<Rightarrow> ReducedFolderState list" where
  "content_Folders sx cs = (if \<not> content_valid sx cs then [] else rd_folders (the (cs_state cs)))"

definition content_MessageStates :: "syntax_api \<Rightarrow> ContentVerifiedSource \<Rightarrow> ReducedState list" where
  "content_MessageStates sx cs = (if \<not> content_valid sx cs then [] else rd_messageStates (the (cs_state cs)))"

definition content_Summary :: "syntax_api \<Rightarrow> ContentVerifiedSource \<Rightarrow> ContentVerificationSummary" where
  "content_Summary sx cs =
     (if \<not> content_valid sx cs then \<lparr>su_Target = zero_OfficialTarget, su_Revision = [], su_SnapshotID = [], su_MessageVersions = 0,
        su_UniqueBlobs = 0, su_TotalBytes = 0, su_ManifestSHA256 = []\<rparr>
      else (let st = the (cs_state cs) in
        \<lparr>su_Target = rd_target st, su_Revision = rd_revision st, su_SnapshotID = rd_snapshotID st,
         su_MessageVersions = length (rd_messages st), su_UniqueBlobs = length (cs_blobs cs),
         su_TotalBytes = cs_totalBytes cs, su_ManifestSHA256 = cs_manifestSHA256 cs\<rparr>))"

section \<open>The read\<close>

definition content_consume ::
  "ipld_api \<Rightarrow> bytes \<Rightarrow> bytes list \<Rightarrow> MessageVersion list gomap \<Rightarrow> nat \<Rightarrow> bytes \<Rightarrow> bytes \<Rightarrow> bytes gomap \<times> int \<Rightarrow> (bytes gomap \<times> int) result" where
  "content_consume ip did cids groups index blobCID raw acc =
     (case acc of (blobs, actualTotal) \<Rightarrow>
        if index \<ge> length cids \<or> cids ! index \<noteq> blobCID \<or> \<not> validOfficialContentCID ip blobCID raw then Inl ErrIntegrity
        else if list_ex (\<lambda>v. ValidateStoredMessage did (mv_RKey v) (mv_Record v) raw \<noteq> Inr ()) (inner groups blobCID) then Inl ErrIntegrity
        else if int (length raw) > maxContentVerifiedBytes - actualTotal then Inl ErrResourceLimit
        else Inr (AList.update blobCID raw blobs, actualTotal + int (length raw)))"

definition sealed_content :: "ReducedSourceState \<Rightarrow> bytes gomap \<Rightarrow> int \<Rightarrow> ContentVerifiedSource" where
  "sealed_content st blobs actualTotal =
     (let cs = \<lparr>cs_state = Some st, cs_blobs = blobs, cs_totalBytes = actualTotal, cs_manifestSHA256 = officialContentManifest st blobs,
         cs_seal = [], cs_closed = False, cs_activeVisits = 0, cs_closePending = False\<rparr>
      in cs\<lparr>cs_seal := content_seal cs\<rparr>)"

text \<open>
  The phases look at the context and ask the resolver on their own: \<open>ctx p k\<close> is the \<open>k\<close>-th look
  of phase \<open>p\<close> and \<open>rs p k\<close> its \<open>k\<close>-th question.
\<close>

definition readOfficialSpacesRecoverySource ::
  "ipld_api \<Rightarrow> syntax_api \<Rightarrow> (nat \<Rightarrow> nat) \<Rightarrow> (nat \<Rightarrow> nat \<Rightarrow> resolver_api) \<Rightarrow> (nat \<Rightarrow> nat \<Rightarrow> err option) \<Rightarrow> OfficialTarget
     \<Rightarrow> source_reads \<Rightarrow> blob_reads \<Rightarrow> ContentVerifiedSource result option" where
  "readOfficialSpacesRecoverySource ip sx sf rs ctx target reads blob_rs =
     (case ctx 0 0 of Some e \<Rightarrow> Some (Inl e) | None \<Rightarrow>
     (case ReadSourceAuthenticatedRepository ip sx (rs 1) (ctx 1) target reads of Inl e \<Rightarrow> Some (Inl e) | Inr source \<Rightarrow>
     (case ReduceOfficialSpacesSource ip sx sf (ctx 2) (Some source) of None \<Rightarrow> None | Some (Inl e) \<Rightarrow> Some (Inl e) | Some (Inr reduced) \<Rightarrow>
     (case prepareOfficialContent (rd_messages reduced) of Inl e \<Rightarrow> Some (Inl e) | Inr (cids, groups, declaredTotal) \<Rightarrow>
     (case StreamSourceMessageBlobs ip sx (rs 3) (ctx 3) target source cids
         (content_consume ip (ot_RepoDID (rd_target reduced)) cids groups) blob_rs ([], 0) of Inl e \<Rightarrow> Some (Inl e) | Inr (blobs, actualTotal) \<Rightarrow>
        if actualTotal \<noteq> declaredTotal \<or> source_ValidateSeal source \<noteq> Inr () \<or> reduction_ValidateSeal sx reduced \<noteq> Inr ()
          then Some (Inl ErrContentVerification)
        else Some (Inr (sealed_content reduced blobs actualTotal)))))))"

definition normalizeContentVerificationError :: "err \<Rightarrow> err" where
  "normalizeContentVerificationError e =
     (case find (errors_Is e) [ErrCanceled, ErrDeadlineExceeded, ErrReauthorizationRequired, ErrUnauthorized, ErrRevoked, ErrNotFound, ErrTarget]
      of Some sentinel \<Rightarrow> sentinel | None \<Rightarrow> ErrContentVerification)"

definition ReadOfficialSpacesRecoverySource ::
  "ipld_api \<Rightarrow> syntax_api \<Rightarrow> (nat \<Rightarrow> nat) \<Rightarrow> (nat \<Rightarrow> nat \<Rightarrow> resolver_api) \<Rightarrow> (nat \<Rightarrow> nat \<Rightarrow> err option) \<Rightarrow> OfficialTarget
     \<Rightarrow> source_reads \<Rightarrow> blob_reads \<Rightarrow> ContentVerifiedSource result option" where
  "ReadOfficialSpacesRecoverySource ip sx sf rs ctx target reads blob_rs =
     map_option (\<lambda>r. case r of Inl e \<Rightarrow> Inl (normalizeContentVerificationError e) | Inr cs \<Rightarrow> Inr cs)
       (readOfficialSpacesRecoverySource ip sx sf rs ctx target reads blob_rs)"

section \<open>Messages on a visit\<close>

definition message_seal :: "ContentVerifiedMessage \<Rightarrow> bytes" where
  "message_seal m = sha256 (''comail-official-content-message-v1'' @ [CHR 0x00] @ cw_string (ot_Origin (cm_target m))
     @ cw_string (ot_SpaceURI (cm_target m)) @ cw_string (ot_RepoDID (cm_target m)) @ cw_string (ot_Epoch (cm_target m))
     @ cw_string (cm_snapshotID m) @ cw_string (mv_RKey (cm_version m)) @ cw_string (mv_CID (cm_version m))
     @ writeSourceSealJSON (message_json (mv_Record (cm_version m))) @ cw_string (cm_raw m))"

definition message_valid :: "ipld_api \<Rightarrow> ContentVerifiedMessage \<Rightarrow> bool" where
  "message_valid ip m = (ot_Epoch (cm_target m) = PinnedEpoch \<and> validSHA256Identifier (cm_snapshotID m)
     \<and> ValidateStoredMessage (ot_RepoDID (cm_target m)) (mv_RKey (cm_version m)) (mv_Record (cm_version m)) (cm_raw m) = Inr ()
     \<and> validOfficialContentCID ip (mv_link (cm_version m)) (cm_raw m) \<and> cm_seal m = message_seal m)"

definition message_Open :: "ipld_api \<Rightarrow> ContentVerifiedMessage \<Rightarrow> (MessageVersion \<times> bytes) result" where
  "message_Open ip m = (if \<not> message_valid ip m then Inl ErrContentVerification else Inr (cm_version m, cm_raw m))"

text \<open>The message made for a callback; a missing blob reads as nil.\<close>

definition visit_message :: "ReducedSourceState \<Rightarrow> bytes gomap \<Rightarrow> MessageVersion \<Rightarrow> ContentVerifiedMessage" where
  "visit_message st blobs stored =
     (let m = \<lparr>cm_target = rd_target st, cm_snapshotID = rd_snapshotID st, cm_version = stored,
         cm_raw = (case map_of blobs (mv_link stored) of None \<Rightarrow> [] | Some raw \<Rightarrow> raw), cm_seal = []\<rparr>
      in m\<lparr>cm_seal := message_seal m\<rparr>)"

section \<open>The life of a verified source\<close>

definition clearLocked :: "ContentVerifiedSource \<Rightarrow> ContentVerifiedSource" where
  "clearLocked cs = cs\<lparr>cs_blobs := [], cs_state := None, cs_totalBytes := 0, cs_manifestSHA256 := [],
     cs_seal := replicate 32 (CHR 0x00), cs_closePending := False\<rparr>"

definition content_Close :: "ContentVerifiedSource \<Rightarrow> ContentVerifiedSource" where
  "content_Close cs =
     (if cs_closed cs then cs
      else (let cs' = cs\<lparr>cs_closed := True\<rparr> in
        if cs_activeVisits cs' > 0 then cs'\<lparr>cs_closePending := True\<rparr> else clearLocked cs'))"

definition finishVisit :: "ContentVerifiedSource \<Rightarrow> ContentVerifiedSource" where
  "finishVisit cs =
     (let cs' = cs\<lparr>cs_activeVisits := cs_activeVisits cs - 1\<rparr> in
      if cs_activeVisits cs' = 0 \<and> cs_closePending cs' then clearLocked cs' else cs')"

definition startVisit :: "syntax_api \<Rightarrow> ContentVerifiedSource \<Rightarrow> (ContentVerifiedSource \<times> ReducedSourceState) result" where
  "startVisit sx cs =
     (if \<not> content_valid sx cs then Inl ErrContentVerification
      else Inr (cs\<lparr>cs_activeVisits := cs_activeVisits cs + 1\<rparr>, the (cs_state cs)))"

text \<open>The loop of one visit that nobody interrupts; \<open>visit\<close> is the callback over a state of its own.\<close>

fun visit_loop ::
  "(nat \<Rightarrow> err option) \<Rightarrow> ReducedSourceState \<Rightarrow> bytes gomap \<Rightarrow> (ContentVerifiedMessage \<Rightarrow> 's \<Rightarrow> err option \<times> 's) \<Rightarrow> nat
     \<Rightarrow> MessageVersion list \<Rightarrow> 's \<Rightarrow> err option \<times> 's" where
  "visit_loop ctx st blobs visit k [] s = (None, s)"
| "visit_loop ctx st blobs visit k (stored # rest) s =
     (case ctx k of Some e \<Rightarrow> (Some e, s) | None \<Rightarrow>
        (case visit (visit_message st blobs stored) s of
            (None, s') \<Rightarrow> visit_loop ctx st blobs visit (k + 1) rest s'
          | (Some e, s') \<Rightarrow>
              (if errors_Is e ErrCanceled then Some ErrCanceled
               else if errors_Is e ErrDeadlineExceeded then Some ErrDeadlineExceeded else Some ErrContentVerification, s')))"

definition VisitMessages ::
  "syntax_api \<Rightarrow> (nat \<Rightarrow> err option) \<Rightarrow> (ContentVerifiedMessage \<Rightarrow> 's \<Rightarrow> err option \<times> 's) \<Rightarrow> ContentVerifiedSource \<Rightarrow> 's
     \<Rightarrow> err option \<times> ContentVerifiedSource \<times> 's" where
  "VisitMessages sx ctx visit cs s =
     (case ctx 0 of Some e \<Rightarrow> (Some e, cs, s) | None \<Rightarrow>
        (case startVisit sx cs of Inl e \<Rightarrow> (Some e, cs, s) | Inr (cs', st) \<Rightarrow>
          (case visit_loop (\<lambda>k. ctx (k + 1)) st (cs_blobs cs') visit 0 (rd_messages st) s of (e, s') \<Rightarrow> (e, finishVisit cs', s'))))"

text \<open>
  Several visits and closing calls at once. Between the locked sections anything may happen, so
  a step is one locked section, or one message handed to a callback. The map of blobs is
  shared: a visit reads it as it is at that moment. A visit in progress is the reduced state
  it took along and the messages it has still to hand out; it may end at any time.
\<close>

record visits =
  vi_source :: ContentVerifiedSource
  vi_active :: "(ReducedSourceState \<times> MessageVersion list) list"

inductive content_step :: "syntax_api \<Rightarrow> visits \<Rightarrow> ContentVerifiedMessage option \<Rightarrow> visits \<Rightarrow> bool" for sx where
  start: "content_step sx v None \<lparr>vi_source = cs', vi_active = (st, rd_messages st) # vi_active v\<rparr>"
    if "startVisit sx (vi_source v) = Inr (cs', st)"
| deliver: "content_step sx v (Some (visit_message st (cs_blobs (vi_source v)) m)) (v\<lparr>vi_active := xs @ (st, ms) # ys\<rparr>)"
    if "vi_active v = xs @ (st, m # ms) # ys"
| finish: "content_step sx v None \<lparr>vi_source = finishVisit (vi_source v), vi_active = xs @ ys\<rparr>"
    if "vi_active v = xs @ w # ys"
| close: "content_step sx v None (v\<lparr>vi_source := content_Close (vi_source v)\<rparr>)"

inductive content_reach :: "syntax_api \<Rightarrow> ContentVerifiedSource \<Rightarrow> visits \<Rightarrow> bool" for sx cs where
  fresh: "content_reach sx cs \<lparr>vi_source = cs, vi_active = []\<rparr>"
| next_step: "content_reach sx cs v \<Longrightarrow> content_step sx v d v' \<Longrightarrow> content_reach sx cs v'"

section \<open>Visits never see a closed map\<close>

text \<open>What a freshly read source promises.\<close>

definition blob_good :: "ipld_api \<Rightarrow> bytes \<Rightarrow> bytes gomap \<Rightarrow> MessageVersion \<Rightarrow> bool" where
  "blob_good ip did blobs m \<longleftrightarrow> (\<exists>raw. map_of blobs (mv_link m) = Some raw
     \<and> ValidateStoredMessage did (mv_RKey m) (mv_Record m) raw = Inr () \<and> validOfficialContentCID ip (mv_link m) raw)"

definition content_ok :: "ipld_api \<Rightarrow> syntax_api \<Rightarrow> ContentVerifiedSource \<Rightarrow> bool" where
  "content_ok ip sx cs \<longleftrightarrow> content_valid sx cs \<and> cs_activeVisits cs = 0 \<and> \<not> cs_closePending cs
     \<and> (\<forall>m \<in> set (rd_messages (the (cs_state cs))). blob_good ip (ot_RepoDID (rd_target (the (cs_state cs)))) (cs_blobs cs) m)"

lemma content_validD:
  assumes "content_valid sx cs"
  shows "\<not> cs_closed cs" "\<exists>st. cs_state cs = Some st \<and> reduction_valid sx st"
  using assms by (auto simp: content_valid_def split: option.splits)

text \<open>
  The invariant: visits are counted; as long as one is running or nobody has closed the source,
  state and blobs are the original ones; after that they are gone.
\<close>

definition lifecycle :: "ContentVerifiedSource \<Rightarrow> visits \<Rightarrow> bool" where
  "lifecycle cs0 v \<longleftrightarrow>
     cs_activeVisits (vi_source v) = int (length (vi_active v))
     \<and> (if cs_closed (vi_source v) \<and> vi_active v = []
        then cs_state (vi_source v) = None \<and> cs_blobs (vi_source v) = [] \<and> \<not> cs_closePending (vi_source v)
        else cs_state (vi_source v) = cs_state cs0 \<and> cs_blobs (vi_source v) = cs_blobs cs0
          \<and> cs_closePending (vi_source v) = cs_closed (vi_source v))
     \<and> list_all (\<lambda>w. cs_state cs0 = Some (fst w) \<and> set (snd w) \<subseteq> set (rd_messages (fst w))) (vi_active v)"

lemma lifecycle_fresh: "content_ok ip sx cs \<Longrightarrow> lifecycle cs \<lparr>vi_source = cs, vi_active = []\<rparr>"
  using content_validD(1)[of sx cs] by (simp add: lifecycle_def content_ok_def)

inductive_cases content_stepE: "content_step sx v d v'"

lemma lifecycle_step:
  assumes "content_step sx v d v'" and "lifecycle cs0 v"
  shows "lifecycle cs0 v'"
  using assms(1)
proof cases
  case (start cs' st)
  then have "content_valid sx (vi_source v)" and cs': "cs' = (vi_source v)\<lparr>cs_activeVisits := cs_activeVisits (vi_source v) + 1\<rparr>"
    and st: "st = the (cs_state (vi_source v))" by (auto simp: startVisit_def split: if_splits)
  note open_ = content_validD[OF this(1)]
  have same: "cs_state (vi_source v) = cs_state cs0" "cs_blobs (vi_source v) = cs_blobs cs0" "\<not> cs_closePending (vi_source v)"
    "cs_activeVisits (vi_source v) = int (length (vi_active v))"
    using assms(2) open_(1) by (simp_all add: lifecycle_def)
  have "list_all (\<lambda>w. cs_state cs0 = Some (fst w) \<and> set (snd w) \<subseteq> set (rd_messages (fst w))) (vi_active v)"
    using assms(2) unfolding lifecycle_def by blast
  moreover have "cs_state cs0 = Some st" using open_(2) same(1) st by auto
  ultimately show ?thesis using same open_(1) by (simp add: lifecycle_def start cs')
next
  case (deliver xs st m ms ys)
  with assms(2) show ?thesis by (auto simp: lifecycle_def)
next
  case (finish xs w ys)
  have n: "cs_activeVisits (vi_source v) - 1 = int (length (xs @ ys))" using assms(2) finish by (simp add: lifecycle_def)
  have z: "int (length xs) + int (length ys) = 0 \<longleftrightarrow> xs = [] \<and> ys = []" by (cases xs; cases ys) auto
  show ?thesis
  proof (cases "cs_closed (vi_source v)")
    case True
    with assms(2) finish n show ?thesis by (cases "xs @ ys = []") (auto simp: lifecycle_def finishVisit_def clearLocked_def Let_def z)
  next
    case False
    with assms(2) finish n show ?thesis by (auto simp: lifecycle_def finishVisit_def Let_def)
  qed
next
  case close
  with assms(2) show ?thesis by (auto simp: lifecycle_def content_Close_def clearLocked_def Let_def)
qed

lemma lifecycle_reach:
  assumes "content_reach sx cs v" and "content_ok ip sx cs"
  shows "lifecycle cs v"
  using assms(1) by (induction rule: content_reach.induct) (use lifecycle_fresh[OF assms(2)] lifecycle_step in auto)

lemma visit_message_opens:
  assumes "blob_good ip (ot_RepoDID (rd_target st)) blobs m" and "reduction_valid sx st"
  shows "\<exists>raw. message_Open ip (visit_message st blobs m) = Inr (m, raw)
    \<and> ValidateStoredMessage (ot_RepoDID (rd_target st)) (mv_RKey m) (mv_Record m) raw = Inr ()"
  using assms
  by (auto simp: blob_good_def reduction_valid_def visit_message_def message_Open_def message_valid_def message_seal_def Let_def)

lemma deliver_opens:
  assumes "content_step sx v (Some msg) v'" and "lifecycle cs v" and ok: "content_ok ip sx cs"
  shows "\<exists>m raw. message_Open ip msg = Inr (m, raw) \<and> m \<in> set (rd_messages (the (cs_state cs)))
    \<and> ValidateStoredMessage (ot_RepoDID (rd_target (the (cs_state cs)))) (mv_RKey m) (mv_Record m) raw = Inr ()"
  using assms(1)
proof cases
  case (deliver xs st m ms ys)
  with assms(2) have st: "cs_state cs = Some st" "m \<in> set (rd_messages st)" and blobs: "cs_blobs (vi_source v) = cs_blobs cs"
    by (auto simp: lifecycle_def)
  have "reduction_valid sx st" using ok st(1) by (auto simp: content_ok_def content_valid_def)
  moreover have "blob_good ip (ot_RepoDID (rd_target st)) (cs_blobs cs) m" using ok st by (simp add: content_ok_def)
  ultimately show ?thesis using visit_message_opens[of ip st "cs_blobs cs" m sx] deliver(1) st blobs by auto
qed

section \<open>The read is complete\<close>

lemma prepare_loop_sound:
  "prepare_loop ms groups sizes declared = Inr (groups', declared') \<Longrightarrow>
     (\<forall>m \<in> set ms. m \<in> set (inner groups' (mv_link m)) \<and> mv_link m \<in> set (keys groups'))
     \<and> (\<forall>k. set (inner groups k) \<subseteq> set (inner groups' k)) \<and> set (keys groups) \<subseteq> set (keys groups')"
proof (induction ms arbitrary: groups sizes declared)
  case (Cons m ms)
  let ?g = "append_inner (mv_link m) m groups"
  from Cons.prems obtain sizes' declared1 where "prepare_loop ms ?g sizes' declared1 = Inr (groups', declared')"
    by (auto simp: Let_def split: if_splits option.splits)
  from Cons.IH[OF this] have IH: "\<forall>m \<in> set ms. m \<in> set (inner groups' (mv_link m)) \<and> mv_link m \<in> set (keys groups')"
    "\<And>k. set (inner ?g k) \<subseteq> set (inner groups' k)" "set (keys ?g) \<subseteq> set (keys groups')" by auto
  have "m \<in> set (inner ?g (mv_link m))" "\<And>k. set (inner groups k) \<subseteq> set (inner ?g k)" "set (keys ?g) = insert (mv_link m) (set (keys groups))"
    by (auto simp: append_inner_def)
  with IH show ?case by (auto; blast)
qed simp

definition all_good :: "ipld_api \<Rightarrow> bytes \<Rightarrow> MessageVersion list gomap \<Rightarrow> bytes gomap \<Rightarrow> bytes \<Rightarrow> bool" where
  "all_good ip did groups blobs c \<longleftrightarrow> (\<exists>raw. map_of blobs c = Some raw \<and> validOfficialContentCID ip c raw
     \<and> (\<forall>v \<in> set (inner groups c). ValidateStoredMessage did (mv_RKey v) (mv_Record v) raw = Inr ()))"

lemma content_consume_Inr:
  assumes "content_consume ip did cids groups index c data (blobs, declared) = Inr acc"
  shows "acc = (AList.update c data blobs, declared + int (length data))" "declared + int (length data) \<le> maxContentVerifiedBytes"
    "all_good ip did groups (AList.update c data blobs) c"
  using assms by (auto simp: content_consume_def all_good_def list_ex_iff split: if_splits)

lemma stream_loop_sound:
  "stream_loop ip ctx blob maxTotal (content_consume ip did cids groups) index rest n (blobs, declared) = Inr (blobs', declared') \<Longrightarrow>
     0 \<le> declared \<Longrightarrow> declared \<le> maxContentVerifiedBytes \<Longrightarrow> (\<forall>c \<in> done. all_good ip did groups blobs c) \<Longrightarrow>
     (\<forall>c \<in> done \<union> set rest. all_good ip did groups blobs' c) \<and> 0 \<le> declared' \<and> declared' \<le> maxContentVerifiedBytes"
proof (induction rest arbitrary: index n blobs declared "done")
  case (Cons c rest)
  from Cons.prems(1) obtain data acc where d: "content_consume ip did cids groups index c data (blobs, declared) = Inr acc"
    "stream_loop ip ctx blob maxTotal (content_consume ip did cids groups) (index + 1) rest (n + length data) acc = Inr (blobs', declared')"
    by (auto split: option.splits sum.splits if_splits)
  note c = content_consume_Inr[OF d(1)]
  have "\<forall>k \<in> insert c done. all_good ip did groups (AList.update c data blobs) k"
    using Cons.prems(4) c(3) by (auto simp: all_good_def)
  from Cons.IH[OF d(2)[unfolded c(1)] _ c(2) this] Cons.prems(2) show ?case by auto
qed auto

lemma sealed_content_ok:
  assumes "reduction_valid sx st" and "0 \<le> n" and "n \<le> maxContentVerifiedBytes"
    and "\<forall>m \<in> set (rd_messages st). blob_good ip (ot_RepoDID (rd_target st)) blobs m"
  shows "content_ok ip sx (sealed_content st blobs n)"
proof -
  have "validSHA256Identifier (officialContentManifest st blobs)"
    unfolding officialContentManifest_def by (fold digestBytes_def) (rule digestBytes_valid)
  then show ?thesis
    using assms by (simp add: content_ok_def content_valid_def sealed_content_def Let_def content_seal_def content_preimage_def
        officialContentManifest_def)
qed

lemma read_content_sound:
  assumes "readOfficialSpacesRecoverySource ip sx sf rs ctx target reads blob_rs = Some (Inr cs)"
  obtains source reduced n where "ReadSourceAuthenticatedRepository ip sx (rs 1) (ctx 1) target reads = Inr source"
    "ReduceOfficialSpacesSource ip sx sf (ctx 2) (Some source) = Some (Inr reduced)"
    "cs_state cs = Some reduced" "content_ok ip sx cs"
    "\<exists>before after'. bd_before blob_rs = Inr before \<and> bd_after blob_rs = Inr after' \<and> matchesCommit source before \<and> matchesCommit source after'"
proof -
  from assms obtain source reduced cids groups declared blobs where
    1: "ReadSourceAuthenticatedRepository ip sx (rs 1) (ctx 1) target reads = Inr source"
    "ReduceOfficialSpacesSource ip sx sf (ctx 2) (Some source) = Some (Inr reduced)"
    and 2: "prepareOfficialContent (rd_messages reduced) = Inr (cids, groups, declared)"
    and 3: "StreamSourceMessageBlobs ip sx (rs 3) (ctx 3) target source cids
         (content_consume ip (ot_RepoDID (rd_target reduced)) cids groups) blob_rs ([], 0) = Inr (blobs, declared)"
    and 4: "reduction_ValidateSeal sx reduced = Inr ()" "cs = sealed_content reduced blobs declared"
    by (auto simp: readOfficialSpacesRecoverySource_def split: option.splits sum.splits if_splits)
  from 3 obtain before after' ctx' where
    5: "stream_loop ip ctx' (bd_blob blob_rs) maxRecoveryBlobBytes (content_consume ip (ot_RepoDID (rd_target reduced)) cids groups) 0 cids 0 ([], 0)
        = Inr (blobs, declared)"
    and 6: "bd_before blob_rs = Inr before" "bd_after blob_rs = Inr after'" "matchesCommit source before" "matchesCommit source after'"
    by (auto simp: StreamSourceMessageBlobs_def streamSourceMessageBlobs_def at_snapshot_def split: option.splits sum.splits if_splits)
  from 2 have g: "\<forall>m \<in> set (rd_messages reduced). m \<in> set (inner groups (mv_link m)) \<and> mv_link m \<in> set cids"
    using prepare_loop_sound[of "rd_messages reduced" "[]" "[]" 0 groups declared]
    by (auto simp: prepareOfficialContent_def split: sum.splits)
  from stream_loop_sound[OF 5, of "{}"]
  have b: "\<forall>c \<in> set cids. all_good ip (ot_RepoDID (rd_target reduced)) groups blobs c" "0 \<le> declared" "declared \<le> maxContentVerifiedBytes"
    by (auto simp: maxContentVerifiedBytes_def)
  have "\<forall>m \<in> set (rd_messages reduced). blob_good ip (ot_RepoDID (rd_target reduced)) blobs m"
    using g b(1) by (fastforce simp: all_good_def blob_good_def)
  moreover have "reduction_valid sx reduced" using 4(1) by (auto simp: reduction_ValidateSeal_def split: if_splits)
  ultimately have "content_ok ip sx cs" unfolding 4(2) using b by (intro sealed_content_ok)
  moreover have "cs_state cs = Some reduced" by (simp add: 4(2) sealed_content_def Let_def)
  ultimately show thesis using that 1 6 by blast
qed

lemma read_content_returns:
  assumes "simple_fold_laws sf cls" and "\<not> sx_ParseTID sx []" and "ip_ParseCid ip [] = None"
  shows "readOfficialSpacesRecoverySource ip sx sf rs ctx target reads blob_rs \<noteq> None"
proof -
  have red: "ReduceOfficialSpacesSource ip sx sf (ctx 2) (Some s) \<noteq> None" for s
    by (auto simp: ReduceOfficialSpacesSource_def split: option.splits sum.splits
        elim!: notE[OF reduceOfficialSpacesInventory_returns[OF assms(1)]])
  show ?thesis
    by (auto simp: readOfficialSpacesRecoverySource_def split: option.splits sum.splits elim!: notE[OF red])
qed

section \<open>A source with one message\<close>

definition held_ipld :: ipld_api where
  "held_ipld = demo_ipld\<lparr>ip_ParseCid := (\<lambda>s. if s = [] then None else Some (demo_cid (CHR 0x04))), ip_CidString := (\<lambda>c. ''bafk''), ip_Sum := (\<lambda>c d. Some c)\<rparr>"

definition held_message :: MessageVersion where
  "held_message = (case NewMessagePair (demo_import ''k'' ''hello'') (demo_blob ''hello'') of Inr p \<Rightarrow>
     \<lparr>mv_RKey = mp_RKey p, mv_CID = ''c'', mv_Record = mp_Message p\<rparr>)"

definition held_state :: ReducedSourceState where
  "held_state = (let st = \<lparr>rd_target = demo_target, rd_revision = ''r'', rd_snapshotID = digestBytes [], rd_commitCID = ''c'',
      rd_indexCID = ''i'', rd_messages = [held_message], rd_messageStates = [], rd_folders = [start_folder [] [] 0], rd_seal = []\<rparr>
    in st\<lparr>rd_seal := reduction_seal st\<rparr>)"

definition held_source :: ContentVerifiedSource where
  "held_source = sealed_content held_state [(''bafk'', ''hello'')] 5"

lemma held_ok: "content_ok held_ipld plain_syntax held_source"
proof -
  obtain p where p: "NewMessagePair (demo_import ''k'' ''hello'') (demo_blob ''hello'') = Inr p"
    using demo_import_accepted[of "''hello''" "''k''"] by auto
  have m: "held_message = \<lparr>mv_RKey = mp_RKey p, mv_CID = ''c'', mv_Record = mp_Message p\<rparr>" by (simp add: held_message_def p)
  have link: "mv_link held_message = ''bafk''" using NewMessagePair_fields(2)[OF p] by (simp add: m new_message_record_def demo_blob_def)
  have "ValidateStoredMessage ''did:a'' (mv_RKey held_message) (mv_Record held_message) ''hello'' = Inr ()"
    using stored_message_accepted[OF p] by (simp add: m demo_import_def)
  then have good: "blob_good held_ipld ''did:a'' [(''bafk'', ''hello'')] held_message"
    using link by (simp add: blob_good_def validOfficialContentCID_def held_ipld_def)
  have "reduction_valid plain_syntax held_state"
    by (simp add: reduction_valid_def held_state_def Let_def demo_target_def validCanonicalDID_def plain_syntax_def plain_ident_def
        has_prefix_def reduction_seal_def reduction_preimage_def)
  with good show ?thesis
    unfolding held_source_def by (intro sealed_content_ok) (simp_all add: maxContentVerifiedBytes_def held_state_def Let_def demo_target_def)
qed

lemma held_delivery:
  "\<exists>v msg v'. content_reach plain_syntax held_source v \<and> cs_closed (vi_source v) \<and> content_step plain_syntax v (Some msg) v'"
proof -
  let ?v0 = "\<lparr>vi_source = held_source, vi_active = []\<rparr>"
  let ?cs = "held_source\<lparr>cs_activeVisits := cs_activeVisits held_source + 1\<rparr>"
  let ?v1 = "\<lparr>vi_source = ?cs, vi_active = [(held_state, rd_messages held_state)]\<rparr>"
  let ?v2 = "?v1\<lparr>vi_source := content_Close (vi_source ?v1)\<rparr>"
  have "startVisit plain_syntax held_source = Inr (?cs, held_state)"
    using held_ok by (simp add: startVisit_def content_ok_def held_source_def sealed_content_def Let_def)
  then have "content_step plain_syntax ?v0 None ?v1" using start[of plain_syntax ?v0] by simp
  then have "content_reach plain_syntax held_source ?v1" by (rule next_step[OF fresh])
  then have "content_reach plain_syntax held_source ?v2" using close[of plain_syntax ?v1] by (rule next_step)
  moreover have "vi_active ?v2 = [] @ (held_state, held_message # []) # []" by (simp add: held_state_def Let_def)
  note deliver[of ?v2 "[]" held_state held_message "[]" "[]" plain_syntax, OF this]
  moreover have "cs_closed (vi_source ?v2)" by (simp add: content_Close_def clearLocked_def Let_def)
  ultimately show ?thesis by blast
qed

section \<open>Properties\<close>

text \<open>C39. The read of messages returns, and it is all or nothing. A failure is one of the sentinel errors. A
  result holds, for every message of the reduced source, bytes that pass the check of stored messages and
  hash to the identifier of the blob; it stays below its size limit; and the commits served before and after
  the blobs are those of the snapshot.\<close>

theorem content_read_complete:
  assumes "simple_fold_laws sf cls" and "\<not> sx_ParseTID sx []" and "ip_ParseCid ip [] = None"
  shows "\<exists>r. ReadOfficialSpacesRecoverySource ip sx sf rs ctx target reads blob_rs = Some r \<and>
    (case r of
       Inl e \<Rightarrow> e \<in> {ErrCanceled, ErrDeadlineExceeded, ErrReauthorizationRequired, ErrUnauthorized, ErrRevoked, ErrNotFound, ErrTarget, ErrContentVerification}
     | Inr cs \<Rightarrow> content_ok ip sx cs \<and> (\<exists>source before after'. ReadSourceAuthenticatedRepository ip sx (rs 1) (ctx 1) target reads = Inr source
         \<and> bd_before blob_rs = Inr before \<and> bd_after blob_rs = Inr after' \<and> matchesCommit source before \<and> matchesCommit source after'
         \<and> ReduceOfficialSpacesSource ip sx sf (ctx 2) (Some source) = Some (Inr (the (cs_state cs)))))"
proof -
  obtain r where r: "readOfficialSpacesRecoverySource ip sx sf rs ctx target reads blob_rs = Some r"
    using read_content_returns[OF assms] by blast
  show ?thesis
  proof (cases r)
    case (Inl e)
    then show ?thesis
      using r by (auto simp: ReadOfficialSpacesRecoverySource_def normalizeContentVerificationError_def)
  next
    case (Inr cs)
    with r have "readOfficialSpacesRecoverySource ip sx sf rs ctx target reads blob_rs = Some (Inr cs)" by simp
    from read_content_sound[OF this] r Inr show ?thesis
      by (auto simp: ReadOfficialSpacesRecoverySource_def; metis option.sel)
  qed
qed

theorem content_read_complete_witness:
  "\<exists>r. ReadOfficialSpacesRecoverySource demo_ipld plain_syntax latin_fold (\<lambda>p k. demo_resolver) (\<lambda>p k. None) demo_target demo_reads
        \<lparr>bd_before = Inr demo_commit, bd_blob = (\<lambda>i. Inl ErrNotFound), bd_after = Inr demo_commit\<rparr> = Some r
    \<and> (case r of Inl e \<Rightarrow> e \<noteq> ErrSnapshotVerification | Inr cs \<Rightarrow> content_ok demo_ipld plain_syntax cs)"
proof -
  have "\<not> sx_ParseTID plain_syntax []" "ip_ParseCid demo_ipld [] = None"
    by (simp_all add: plain_syntax_def plain_ident_def demo_ipld_def)
  from content_read_complete[OF latin_fold_laws this, of "\<lambda>p k. demo_resolver" "\<lambda>p k. None" demo_target demo_reads
      "\<lparr>bd_before = Inr demo_commit, bd_blob = (\<lambda>i. Inl ErrNotFound), bd_after = Inr demo_commit\<rparr>"]
  show ?thesis by (auto split: sum.splits)
qed

text \<open>C38. Closing never pulls the bytes from under a visit. Whatever visits, closing calls and ends of visits
  came before, every message that is handed to a callback opens, with bytes that pass the check of stored
  messages, even after the source was closed; a closed source starts no further visit; and once it is closed
  and the last visit has ended, it holds neither state nor bytes.\<close>

theorem content_lifecycle:
  assumes "content_reach sx cs v" and "content_ok ip sx cs"
  shows "(\<forall>msg v'. content_step sx v (Some msg) v' \<longrightarrow>
      (\<exists>m raw. message_Open ip msg = Inr (m, raw) \<and> m \<in> set (rd_messages (the (cs_state cs)))
        \<and> ValidateStoredMessage (ot_RepoDID (rd_target (the (cs_state cs)))) (mv_RKey m) (mv_Record m) raw = Inr ()))
    \<and> (cs_closed (vi_source v) \<longrightarrow> startVisit sx (vi_source v) = Inl ErrContentVerification)
    \<and> (cs_closed (vi_source v) \<and> vi_active v = [] \<longrightarrow> cs_state (vi_source v) = None \<and> cs_blobs (vi_source v) = [])"
proof -
  have inv: "lifecycle cs v" by (rule lifecycle_reach[OF assms])
  have "startVisit sx (vi_source v) = Inl ErrContentVerification" if "cs_closed (vi_source v)"
    using that by (simp add: startVisit_def content_valid_def)
  moreover have "cs_closed (vi_source v) \<and> vi_active v = [] \<Longrightarrow> cs_state (vi_source v) = None \<and> cs_blobs (vi_source v) = []"
    using inv by (simp add: lifecycle_def)
  ultimately show ?thesis using deliver_opens[OF _ inv assms(2)] by blast
qed

theorem content_lifecycle_witness:
  "\<exists>v msg v' m raw. content_reach plain_syntax held_source v \<and> cs_closed (vi_source v) \<and> content_step plain_syntax v (Some msg) v'
    \<and> message_Open held_ipld msg = Inr (m, raw)"
proof -
  obtain v msg v' where *: "content_reach plain_syntax held_source v" "cs_closed (vi_source v)" "content_step plain_syntax v (Some msg) v'"
    using held_delivery by blast
  from content_lifecycle[OF *(1) held_ok] * show ?thesis by blast
qed

end
