(* ===== verification/Official_Client.thy ===== *)
theory Official_Client
  imports Content
begin

text \<open>
  Package \<^verbatim>\<open>officialspaces\<close>, file \<^verbatim>\<open>client.go\<close>: the client of an official Spaces provider. It borrows a writer or a
  read credential for one operation, sends requests with it, checks that an answer belongs to the request and
  to the target, decodes it strictly within bounds, and gives everything back.

  The state is that of the world the client talks to. A capability and the body of a response carry
  their own \<^verbatim>\<open>Close\<close> as a function on that state, so what is opened and what is closed is part of the model.
  A body is the bytes that arrive, whether reading then fails, and the JSON values its text consists
  of. The text of a document is \<open>json_text\<close> (see \<open>Go_JSON\<close>). \<^verbatim>\<open>url.Parse\<close> and the address classes of \<^verbatim>\<open>net\<close> are the
  parameter \<open>url_api\<close>; that the address of a clean origin and a constant endpoint parses is left out.
\<close>

section \<open>Constants\<close>

definition uploadBlobEndpoint :: bytes where "uploadBlobEndpoint = ''com.atproto.repo.uploadBlob''"
definition applyWritesEndpoint :: bytes where "applyWritesEndpoint = ''com.atproto.space.applyWrites''"
definition getRecordEndpoint :: bytes where "getRecordEndpoint = ''com.atproto.space.getRecord''"
definition listRecordsEndpoint :: bytes where "listRecordsEndpoint = ''com.atproto.space.listRecords''"
definition listBlobsEndpoint :: bytes where "listBlobsEndpoint = ''com.atproto.space.listBlobs''"
definition getBlobEndpoint :: bytes where "getBlobEndpoint = ''com.atproto.space.getBlob''"
definition getRepoEndpoint :: bytes where "getRepoEndpoint = ''com.atproto.space.getRepo''"
definition getLatestCommitEndpoint :: bytes where "getLatestCommitEndpoint = ''com.atproto.space.getLatestCommit''"

definition createType :: bytes where "createType = applyWritesEndpoint @ ''#create''"
definition createResultType :: bytes where "createResultType = applyWritesEndpoint @ ''#createResult''"

definition maxWrites :: nat where "maxWrites = 200"
definition maxWriteRequest :: nat where "maxWriteRequest = 1000000"
definition maxJSONResponse :: nat where "maxJSONResponse = 2 * 1024 * 1024"
definition maxErrorResponse :: nat where "maxErrorResponse = 64 * 1024"
definition maxCursorBytes :: nat where "maxCursorBytes = 2048"
definition maxInventoryBytes :: nat where "maxInventoryBytes = 64 * 1024 * 1024"
definition maxInventoryPages :: nat where "maxInventoryPages = 1000"
definition maxCommitBytes :: nat where "maxCommitBytes = 64 * 1024"

definition knownProviderErrorCodes :: "bytes list" where
  "knownProviderErrorCodes = [''BlobNotFound'', ''RecordAlreadyExists'', ''RecordNotFound'', ''RepoDeactivated'', ''RepoNotFound'',
     ''RepoSuspended'', ''RepoTakendown'', ''SpaceNotFound'']"

section \<open>Requests, responses and capabilities\<close>

record client_request =
  rq_Method :: bytes
  rq_URL :: bytes
  rq_Body :: "bytes option"
  rq_ContentType :: bytes
  rq_Accept :: bytes
  rq_Endpoint :: bytes

text \<open>The request a response says it answers: its address, its host and the host in the address.\<close>

record answered =
  ans_URL :: bytes
  ans_Host :: bytes
  ans_URLHost :: bytes

record body =
  bo_Bytes :: bytes
  bo_Failed :: bool
  bo_Docs :: "json list"

text \<open>\<open>re_Close = None\<close> is a response without a body; \<open>re_MediaType = None\<close> a content type that does not parse.\<close>

record 's client_response =
  re_Status :: nat
  re_Request :: "answered option"
  re_MediaType :: "bytes option"
  re_Body :: body
  re_Close :: "('s \<Rightarrow> 's) option"

record 's ScopedDoer =
  sd_Do :: "client_request \<Rightarrow> 's \<Rightarrow> ('s client_response option \<times> err option) \<times> 's"
  sd_Close :: "'s \<Rightarrow> 's"

type_synonym 's acquire = "OfficialTarget \<Rightarrow> 's \<Rightarrow> ('s ScopedDoer option \<times> err option) \<times> 's"

record 's Client =
  cn_origin :: bytes
  cn_target :: OfficialTarget
  cn_writer :: "'s acquire"
  cn_reader :: "'s acquire"

record Config =
  cf_Origin :: bytes
  cf_SpaceAuthorityDID :: bytes
  cf_RepoDID :: bytes
  cf_SpaceKey :: bytes
  cf_Epoch :: bytes
  cf_AllowHTTP :: bool

record Create =
  cre_Collection :: bytes
  cre_RKey :: bytes
  cre_Value :: json

record CreateResult =
  crr_URI :: bytes
  crr_CID :: bytes

text \<open>A raw JSON value: the length of its text and the values it consists of; nil is \<open>(0, [])\<close>.\<close>

type_synonym RawMessage = "nat \<times> json list"

definition raw_of :: "json \<Rightarrow> RawMessage" where
  "raw_of j = (length (json_text j), [j])"

record UnverifiedRecord =
  ur_URI :: bytes
  ur_Collection :: bytes
  ur_RKey :: bytes
  ur_CID :: bytes
  ur_Value :: RawMessage

section \<open>The constructor\<close>

record parsed_url =
  pu_Scheme :: bytes
  pu_Hostname :: bytes
  pu_Port :: bytes
  pu_User :: bool
  pu_Path :: bytes
  pu_ForceQuery :: bool
  pu_RawQuery :: bytes
  pu_Fragment :: bytes

text \<open>\<open>ua_Loopback\<close> is \<^verbatim>\<open>net.ParseIP\<close> with \<^verbatim>\<open>IsLoopback\<close>; \<open>ua_EscapeHost\<close> is what \<^verbatim>\<open>URL.String\<close> does with a host.\<close>

record url_api =
  ua_Parse :: "bytes \<Rightarrow> parsed_url option"
  ua_Loopback :: "bytes \<Rightarrow> bool"
  ua_EscapeHost :: "bytes \<Rightarrow> bytes"
  ua_Lower :: "bytes \<Rightarrow> bytes"

text \<open>\<^verbatim>\<open>strings.EqualFold\<close> where one side is ASCII (see \<open>fold_name\<close>).\<close>

definition equal_fold :: "bytes \<Rightarrow> bytes \<Rightarrow> bool" where
  "equal_fold a b = (fold_name a = fold_name b)"

definition isLoopbackHost :: "url_api \<Rightarrow> bytes \<Rightarrow> bool" where
  "isLoopbackHost ua host = (if equal_fold host ''localhost'' then True else ua_Loopback ua host)"

definition url_String :: "url_api \<Rightarrow> parsed_url \<Rightarrow> bytes \<Rightarrow> bytes" where
  "url_String ua u host = pu_Scheme u @ ''://'' @ ua_EscapeHost ua host
     @ (if pu_ForceQuery u \<or> pu_RawQuery u \<noteq> [] then ''?'' @ pu_RawQuery u else [])"

definition trim_suffix :: "bytes \<Rightarrow> bytes \<Rightarrow> bytes" where
  "trim_suffix s x = (if length x \<le> length s \<and> drop (length s - length x) s = x then take (length s - length x) s else s)"

definition cleanOrigin :: "url_api \<Rightarrow> bytes \<Rightarrow> bool \<Rightarrow> bytes result" where
  "cleanOrigin ua raw allowHTTP =
     (case ua_Parse ua raw of None \<Rightarrow> Inl (ErrOther ''officialspaces: provider must be a clean origin'') | Some u \<Rightarrow>
        if pu_Hostname u = [] \<or> pu_User u \<or> pu_RawQuery u \<noteq> [] \<or> pu_Fragment u \<noteq> [] \<or> (pu_Path u \<noteq> [] \<and> pu_Path u \<noteq> ''/'')
        then Inl (ErrOther ''officialspaces: provider must be a clean origin'')
        else if pu_Scheme u \<noteq> ''https'' \<and> (\<not> allowHTTP \<or> pu_Scheme u \<noteq> ''http'' \<or> \<not> isLoopbackHost ua (pu_Hostname u))
        then Inl (ErrOther ''officialspaces: provider must use HTTPS (HTTP is loopback-test-only)'')
        else
          let hostname = ua_Lower ua (pu_Hostname u);
              port = (if pu_Scheme u = ''https'' \<and> pu_Port u = ''443'' \<or> pu_Scheme u = ''http'' \<and> pu_Port u = ''80'' then [] else pu_Port u);
              bracketed = (if CHR '':'' \<in> set hostname then ''['' @ hostname @ '']'' else hostname);
              host = (if port \<noteq> [] then bracketed @ '':'' @ port else bracketed)
          in Inr (trim_suffix (url_String ua u host) ''/''))"

definition repositoryTarget :: "OfficialTarget \<Rightarrow> Target" where
  "repositoryTarget t = \<lparr>tg_ProviderOrigin = ot_Origin t, tg_SpaceURI = ot_SpaceURI t, tg_RepoDID = ot_RepoDID t, tg_Epoch = ot_Epoch t\<rparr>"

definition newClient :: "url_api \<Rightarrow> syntax_api \<Rightarrow> Config \<Rightarrow> 's acquire option \<Rightarrow> 's acquire option \<Rightarrow> 's Client result" where
  "newClient ua sx config writer reader =
     (case writer of None \<Rightarrow> Inl (ErrOther ''officialspaces: member OAuth doer is required'') | Some w \<Rightarrow>
      (case reader of None \<Rightarrow> Inl (ErrOther ''officialspaces: read credential source is required'') | Some r \<Rightarrow>
        if cf_Epoch config \<noteq> PinnedEpoch then Inl ErrUnsupported
        else (case sx_ParseDID sx (cf_SpaceAuthorityDID config) of
            None \<Rightarrow> Inl (ErrOther ''officialspaces: exact space authority DID is required'')
          | Some spaceDID \<Rightarrow> (case sx_ParseDID sx (cf_RepoDID config) of
              None \<Rightarrow> Inl (ErrOther ''officialspaces: exact member repo DID is required'')
            | Some repoDID \<Rightarrow>
                if \<not> sx_ParseRecordKey sx (cf_SpaceKey config) \<or> cf_SpaceKey config = ''*''
                then Inl (ErrOther ''officialspaces: exact mailbox space key is required'')
                else (case cleanOrigin ua (cf_Origin config) (cf_AllowHTTP config) of Inl e \<Rightarrow> Inl e | Inr origin \<Rightarrow>
                  let target = \<lparr>ot_Origin = origin,
                        ot_SpaceURI = ''at://'' @ spaceDID @ ''/space/'' @ MailboxSpaceType @ ''/'' @ cf_SpaceKey config,
                        ot_RepoDID = repoDID, ot_Epoch = PinnedEpoch\<rparr>
                  in if ValidateFor sx (repositoryTarget target) repoDID \<noteq> Inr () then Inl ErrTarget
                     else Inr \<lparr>cn_origin = origin, cn_target = target, cn_writer = w, cn_reader = r\<rparr>)))))"

definition client_TransportID :: bytes where
  "client_TransportID = ''official-spaces-transport@'' @ PinnedEpoch"

section \<open>Borrowing a capability\<close>

definition redactAuthError :: "bytes \<Rightarrow> err option \<Rightarrow> err" where
  "redactAuthError operation e =
     (case find (\<lambda>sentinel. case e of None \<Rightarrow> False | Some x \<Rightarrow> errors_Is x sentinel)
         [ErrCanceled, ErrDeadlineExceeded, ErrReauthorizationRequired, ErrUnauthorized, ErrRevoked, ErrTarget] of
        Some sentinel \<Rightarrow> sentinel
      | None \<Rightarrow> ErrOther (''officialspaces: '' @ operation @ '' failed''))"

text \<open>The common body of \<^verbatim>\<open>withWriter\<close> and \<^verbatim>\<open>withReader\<close>; the deferred \<^verbatim>\<open>Close\<close> runs last on every path.\<close>

definition with_source :: "'s acquire \<Rightarrow> bytes \<Rightarrow> OfficialTarget \<Rightarrow> ('s ScopedDoer \<Rightarrow> ('s, 'a) op) \<Rightarrow> ('s, 'a) op" where
  "with_source source label target operation s =
     (case source target s of ((doer, e), s1) \<Rightarrow>
        (case doer of
           None \<Rightarrow> (Inl (redactAuthError label e), s1)
         | Some d \<Rightarrow>
             (case (case e of Some _ \<Rightarrow> (Inl (redactAuthError label e), s1) | None \<Rightarrow> operation d s1) of
                (r, s2) \<Rightarrow> (r, sd_Close d s2))))"

definition withWriter :: "'s Client \<Rightarrow> ('s ScopedDoer \<Rightarrow> ('s, 'a) op) \<Rightarrow> ('s, 'a) op" where
  "withWriter c = with_source (cn_writer c) ''acquire member writer'' (cn_target c)"

definition withReader :: "'s Client \<Rightarrow> ('s ScopedDoer \<Rightarrow> ('s, 'a) op) \<Rightarrow> ('s, 'a) op" where
  "withReader c = with_source (cn_reader c) ''acquire read credential'' (cn_target c)"

section \<open>Requests\<close>

text \<open>\<^verbatim>\<open>url.Values\<close> with one value per key, \<^verbatim>\<open>Encode\<close> and \<^verbatim>\<open>QueryEscape\<close>.\<close>

type_synonym query = "bytes gomap"

definition hex_upper :: "nat \<Rightarrow> char" where
  "hex_upper n = (if n < 10 then char_of (48 + n) else char_of (55 + n))"

definition query_escape_byte :: "char \<Rightarrow> bytes" where
  "query_escape_byte c = (let n = byte c in
     if 97 \<le> n \<and> n \<le> 122 \<or> 65 \<le> n \<and> n \<le> 90 \<or> 48 \<le> n \<and> n \<le> 57 \<or> c \<in> set ''-_.~'' then [c]
     else if n = 32 then ''+'' else [CHR ''%'', hex_upper (n div 16), hex_upper (n mod 16)])"

definition query_escape :: "bytes \<Rightarrow> bytes" where
  "query_escape s = concat (map query_escape_byte s)"

definition query_encode :: "query \<Rightarrow> bytes" where
  "query_encode q = intercalate ''&'' (map (\<lambda>k. query_escape k @ ''='' @ query_escape (the (map_of q k))) (sort (keys q)))"

definition targetQuery :: "OfficialTarget \<Rightarrow> query" where
  "targetQuery t = [(''space'', ot_SpaceURI t), (''repo'', ot_RepoDID t)]"

definition request_url :: "bytes \<Rightarrow> bytes \<Rightarrow> query option \<Rightarrow> bytes" where
  "request_url origin endpoint query =
     origin @ ''/xrpc/'' @ endpoint @ (case query of None \<Rightarrow> [] | Some q \<Rightarrow> if query_encode q = [] then [] else ''?'' @ query_encode q)"

definition close_body :: "'s client_response option \<Rightarrow> 's \<Rightarrow> 's" where
  "close_body response s = (case response of None \<Rightarrow> s | Some r \<Rightarrow> (case re_Close r of None \<Rightarrow> s | Some close \<Rightarrow> close s))"

definition answers_request :: "client_request \<Rightarrow> 's client_response \<Rightarrow> bool" where
  "answers_request rq r = (re_Close r \<noteq> None \<and> (case re_Request r of None \<Rightarrow> False | Some a \<Rightarrow>
     ans_URL a = rq_URL rq \<and> (ans_Host a = [] \<or> equal_fold (ans_Host a) (ans_URLHost a))))"

definition request ::
  "'s Client \<Rightarrow> 's ScopedDoer \<Rightarrow> bytes \<Rightarrow> bytes \<Rightarrow> query option \<Rightarrow> bytes option \<Rightarrow> bytes \<Rightarrow> bytes \<Rightarrow> ('s, 's client_response) op" where
  "request c doer verb endpoint query body contentType accept s =
     (let rq = \<lparr>rq_Method = verb, rq_URL = request_url (cn_origin c) endpoint query, rq_Body = body, rq_ContentType = contentType,
            rq_Accept = accept, rq_Endpoint = endpoint\<rparr> in
      case sd_Do doer rq s of ((response, e), s1) \<Rightarrow>
        (case e of
           Some x \<Rightarrow> (Inl (redactAuthError ''authenticated request'' (Some x)), close_body response s1)
         | None \<Rightarrow> (case response of
             None \<Rightarrow> (Inl ErrTarget, s1)
           | Some r \<Rightarrow> if \<not> answers_request rq r then (Inl ErrTarget, close_body response s1) else (Inr r, s1))))"

text \<open>What is done with a response before its body is closed.\<close>

definition consuming :: "('s, 's client_response) op \<Rightarrow> ('s client_response \<Rightarrow> 'a result) \<Rightarrow> ('s, 'a) op" where
  "consuming rq f = after rq (\<lambda>r s. (f r, close_body (Some r) s))"

section \<open>Responses\<close>

definition safeErrorCode :: "bytes \<Rightarrow> bool" where
  "safeErrorCode code = (code \<in> set knownProviderErrorCodes)"

text \<open>
  \<^verbatim>\<open>json.Unmarshal\<close> goes on after a member of the wrong type; its error is ignored, as is text that is no
  single document. A body longer than the limit is cut off, which is taken to leave no document.
\<close>

definition error_member :: "bytes \<Rightarrow> bytes \<times> json \<Rightarrow> bytes" where
  "error_member code m = (case match_field [''error''] (fst m) of None \<Rightarrow> code | Some _ \<Rightarrow>
     (case decode_string (snd m) code of None \<Rightarrow> code | Some x \<Rightarrow> x))"

definition error_code :: "body \<Rightarrow> bytes" where
  "error_code b = (if length (bo_Bytes b) > maxErrorResponse + 1 then []
     else (case bo_Docs b of [JObj ms] \<Rightarrow> foldl error_member [] ms | _ \<Rightarrow> []))"

text \<open>The text of a \<^verbatim>\<open>ProviderError\<close>, which wraps nothing.\<close>

definition ProviderError :: "nat \<Rightarrow> bytes \<Rightarrow> err" where
  "ProviderError status code = ErrOther (''officialspaces: HTTP '' @ nat_dec status @ (if code = [] then [] else '' ('' @ code @ '')''))"

definition decodeProviderError :: "'s client_response \<Rightarrow> err" where
  "decodeProviderError r =
     (let found = error_code (re_Body r); code = (if \<not> safeErrorCode found then [] else found) in
      if re_Status r = 401 \<or> re_Status r = 403 then ErrUnauthorized
      else if code = ''RecordAlreadyExists'' then ErrExists
      else if code = ''RecordNotFound'' \<or> code = ''BlobNotFound'' \<or> code = ''SpaceNotFound'' \<or> code = ''RepoNotFound'' then ErrNotFound
      else ProviderError (re_Status r) code)"

text \<open>\<open>decode\<close> is the strict decoder of the output struct.\<close>

definition decodeStrictBoundedCount :: "body \<Rightarrow> nat \<Rightarrow> (json \<Rightarrow> 'a option) \<Rightarrow> ('a \<times> nat) result" where
  "decodeStrictBoundedCount b limit decode =
     (if bo_Failed b \<or> length (bo_Bytes b) > limit then Inl (ErrOther ''officialspaces: response exceeded safety bound'')
      else (case bo_Docs b of
          [] \<Rightarrow> Inl (ErrOther ''officialspaces: invalid JSON response'')
        | d # rest \<Rightarrow> (case decode d of
            None \<Rightarrow> Inl (ErrOther ''officialspaces: invalid JSON response'')
          | Some x \<Rightarrow> if rest \<noteq> [] then Inl (ErrOther ''officialspaces: JSON response contained trailing data'')
              else Inr (x, length (bo_Bytes b)))))"

definition decodeStrictBounded :: "body \<Rightarrow> nat \<Rightarrow> (json \<Rightarrow> 'a option) \<Rightarrow> 'a result" where
  "decodeStrictBounded b limit decode = (case decodeStrictBoundedCount b limit decode of Inl e \<Rightarrow> Inl e | Inr (x, n) \<Rightarrow> Inr x)"

text \<open>An answer that has to be 200, decoded.\<close>

definition answer :: "'s client_response \<Rightarrow> nat \<Rightarrow> (json \<Rightarrow> 'a option) \<Rightarrow> ('a \<times> nat) result" where
  "answer r limit decode = (if re_Status r \<noteq> 200 then Inl (decodeProviderError r) else decodeStrictBoundedCount (re_Body r) limit decode)"

section \<open>Checks of values\<close>

definition validRecordKey :: "syntax_api \<Rightarrow> bytes \<Rightarrow> bool" where
  "validRecordKey sx rkey = (sx_ParseRecordKey sx rkey \<and> rkey \<noteq> ''*'')"

definition validRecordCID :: "ipld_api \<Rightarrow> bytes \<Rightarrow> bool" where
  "validRecordCID ip raw = (case ip_DecodeCid ip raw of None \<Rightarrow> False | Some c \<Rightarrow>
     c_Version c = 1 \<and> c_Codec c = cid_DagCBOR \<and> c_MhType c = multihash_SHA2_256 \<and> c_MhLength c = 32)"

definition put_type :: "bytes \<Rightarrow> json \<Rightarrow> bytes \<Rightarrow> bytes option" where
  "put_type f v t = decode_string v t"

definition recordTypeMatches :: "RawMessage \<Rightarrow> bytes \<Rightarrow> bool" where
  "recordTypeMatches v collection =
     (if fst v = 0 \<or> fst v > maxWriteRequest then False
      else (case snd v of
          [] \<Rightarrow> False
        | d # rest \<Rightarrow> (case decode_struct False [''$type''] put_type d [] of
            None \<Rightarrow> False
          | Some t \<Rightarrow> if t \<noteq> collection then False else rest = [])))"

definition validateCreate :: "syntax_api \<Rightarrow> Create \<Rightarrow> unit result" where
  "validateCreate sx create =
     (if \<not> allowedCollection (cre_Collection create) \<or> \<not> validRecordKey sx (cre_RKey create)
        \<or> \<not> recordTypeMatches (raw_of (cre_Value create)) (cre_Collection create) then Inl ErrInvalidRecord else Inr ())"

section \<open>Writing\<close>

definition put_upload :: "bytes \<Rightarrow> json \<Rightarrow> BlobRef \<Rightarrow> BlobRef option" where
  "put_upload f v b = decode_struct True blob_fields (put_blob True) v b"

definition check_upload :: "ipld_api \<Rightarrow> bytes \<Rightarrow> 's client_response \<Rightarrow> BlobRef result" where
  "check_upload ip raw r =
     (case answer r maxJSONResponse (\<lambda>j. decode_struct True [''blob''] put_upload j zero_BlobRef) of Inl e \<Rightarrow> Inl e | Inr (blob, _) \<Rightarrow>
        if br_Type blob \<noteq> ''blob'' \<or> br_MIMEType blob \<noteq> MessageMIMEType \<or> br_Size blob \<noteq> int (length raw) then Inl ErrIntegrity
        else if \<not> validBlobCID ip (br_Link blob) raw then Inl ErrIntegrity
        else Inr blob)"

definition UploadMessageBlob :: "ipld_api \<Rightarrow> 's Client \<Rightarrow> bytes \<Rightarrow> ('s, BlobRef) op" where
  "UploadMessageBlob ip c raw =
     (if length raw = 0 then raise ErrInvalidRecord
      else if length raw > MaxRawMessageBytes then raise ErrMessageTooLarge
      else withWriter c (\<lambda>writer. consuming
        (request c writer ''POST'' uploadBlobEndpoint None (Some raw) MessageMIMEType ''application/json'') (check_upload ip raw)))"

text \<open>The identity of a record in a batch, the checks of the batch, and its text.\<close>

definition create_identity :: "Create \<Rightarrow> bytes" where
  "create_identity create = cre_Collection create @ [CHR 0x00] @ cre_RKey create"

fun check_creates :: "syntax_api \<Rightarrow> Create list \<Rightarrow> bytes list \<Rightarrow> unit result" where
  "check_creates sx [] seen = Inr ()"
| "check_creates sx (create # creates) seen =
     (case validateCreate sx create of Inl e \<Rightarrow> Inl e | Inr _ \<Rightarrow>
        if create_identity create \<in> set seen then Inl ErrInvalidRecord
        else check_creates sx creates (create_identity create # seen))"

definition wire_create_json :: "Create \<Rightarrow> json" where
  "wire_create_json create = JObj (jfield ''$type'' (jstr createType) @ jfield ''collection'' (jstr (cre_Collection create))
     @ jfield ''rkey'' (jstr (cre_RKey create)) @ jfield ''value'' (cre_Value create))"

definition batch_json :: "OfficialTarget \<Rightarrow> Create list \<Rightarrow> json" where
  "batch_json target creates = JObj (jfield ''space'' (jstr (ot_SpaceURI target)) @ jfield ''repo'' (jstr (ot_RepoDID target))
     @ jfield ''validate'' (JBool True) @ jfield ''writes'' (JArr (map wire_create_json creates)))"

record wireCreateResult =
  wcr_Type :: bytes
  wcr_URI :: bytes
  wcr_CID :: bytes
  wcr_ValidationStatus :: bytes

definition put_create_result :: "bytes \<Rightarrow> json \<Rightarrow> wireCreateResult \<Rightarrow> wireCreateResult option" where
  "put_create_result f v r =
     (if f = ''$type'' then map_option (\<lambda>x. r\<lparr>wcr_Type := x\<rparr>) (decode_string v (wcr_Type r))
      else if f = ''uri'' then map_option (\<lambda>x. r\<lparr>wcr_URI := x\<rparr>) (decode_string v (wcr_URI r))
      else if f = ''cid'' then map_option (\<lambda>x. r\<lparr>wcr_CID := x\<rparr>) (decode_string v (wcr_CID r))
      else map_option (\<lambda>x. r\<lparr>wcr_ValidationStatus := x\<rparr>) (decode_string v (wcr_ValidationStatus r)))"

definition create_result_of_json :: "json \<Rightarrow> wireCreateResult option" where
  "create_result_of_json j = decode_struct True [''$type'', ''uri'', ''cid'', ''validationStatus''] put_create_result j
     \<lparr>wcr_Type = [], wcr_URI = [], wcr_CID = [], wcr_ValidationStatus = []\<rparr>"

definition put_results :: "bytes \<Rightarrow> json \<Rightarrow> wireCreateResult slice \<Rightarrow> wireCreateResult slice option" where
  "put_results f v rs = decode_slice create_result_of_json v"

fun check_receipts :: "syntax_api \<Rightarrow> ipld_api \<Rightarrow> OfficialTarget \<Rightarrow> (Create \<times> wireCreateResult) list \<Rightarrow> CreateResult list \<Rightarrow> CreateResult list result" where
  "check_receipts sx ip target [] results = Inr results"
| "check_receipts sx ip target ((create, result) # rest) results =
     (if RecordURI sx (repositoryTarget target) (cre_Collection create) (cre_RKey create) \<noteq> Inr (wcr_URI result)
        \<or> wcr_Type result \<noteq> createResultType \<or> wcr_ValidationStatus result \<noteq> ''valid'' then Inl ErrIntegrity
      else if \<not> validRecordCID ip (wcr_CID result) then Inl ErrIntegrity
      else check_receipts sx ip target rest (results @ [\<lparr>crr_URI = wcr_URI result, crr_CID = wcr_CID result\<rparr>]))"

definition check_batch :: "syntax_api \<Rightarrow> ipld_api \<Rightarrow> OfficialTarget \<Rightarrow> Create list \<Rightarrow> 's client_response \<Rightarrow> CreateResult list result" where
  "check_batch sx ip target creates r =
     (case answer r maxJSONResponse (\<lambda>j. decode_struct True [''results''] put_results j None) of Inl e \<Rightarrow> Inl e | Inr (output, _) \<Rightarrow>
        (case output of
           None \<Rightarrow> Inl ErrIntegrity
         | Some results \<Rightarrow> if length results \<noteq> length creates then Inl ErrIntegrity
             else check_receipts sx ip target (zip creates results) []))"

definition CreateBatch :: "syntax_api \<Rightarrow> ipld_api \<Rightarrow> 's Client \<Rightarrow> Create list \<Rightarrow> ('s, CreateResult list) op" where
  "CreateBatch sx ip c creates =
     (if length creates = 0 \<or> length creates > maxWrites then raise ErrInvalidRecord
      else (case check_creates sx creates [] of Inl e \<Rightarrow> raise e | Inr _ \<Rightarrow>
        let body = json_text (batch_json (cn_target c) creates) in
        if length body > maxWriteRequest then raise ErrInvalidRecord
        else withWriter c (\<lambda>writer. consuming
          (request c writer ''POST'' applyWritesEndpoint None (Some body) ''application/json'' ''application/json'')
          (check_batch sx ip (cn_target c) creates))))"

section \<open>Reading one record, a blob, the commit, the export\<close>

record wireRecord =
  wrc_Collection :: bytes
  wrc_URI :: bytes
  wrc_RKey :: bytes
  wrc_CID :: bytes
  wrc_Value :: "json option"

definition zero_wireRecord :: wireRecord where
  "zero_wireRecord = \<lparr>wrc_Collection = [], wrc_URI = [], wrc_RKey = [], wrc_CID = [], wrc_Value = None\<rparr>"

text \<open>The members of both output structs; which of them exist is decided by the names. A raw value takes anything, also \<^verbatim>\<open>null\<close>.\<close>

definition put_wire_record :: "bytes \<Rightarrow> json \<Rightarrow> wireRecord \<Rightarrow> wireRecord option" where
  "put_wire_record f v r =
     (if f = ''collection'' then map_option (\<lambda>x. r\<lparr>wrc_Collection := x\<rparr>) (decode_string v (wrc_Collection r))
      else if f = ''uri'' then map_option (\<lambda>x. r\<lparr>wrc_URI := x\<rparr>) (decode_string v (wrc_URI r))
      else if f = ''rkey'' then map_option (\<lambda>x. r\<lparr>wrc_RKey := x\<rparr>) (decode_string v (wrc_RKey r))
      else if f = ''cid'' then map_option (\<lambda>x. r\<lparr>wrc_CID := x\<rparr>) (decode_string v (wrc_CID r))
      else Some (r\<lparr>wrc_Value := Some v\<rparr>))"

definition raw_value :: "wireRecord \<Rightarrow> RawMessage" where
  "raw_value r = (case wrc_Value r of None \<Rightarrow> (0, []) | Some v \<Rightarrow> raw_of v)"

text \<open>\<^verbatim>\<open>RecordURI\<close> with its error ignored.\<close>

definition record_uri :: "syntax_api \<Rightarrow> OfficialTarget \<Rightarrow> bytes \<Rightarrow> bytes \<Rightarrow> bytes" where
  "record_uri sx target collection rkey = (case RecordURI sx (repositoryTarget target) collection rkey of Inl _ \<Rightarrow> [] | Inr uri \<Rightarrow> uri)"

definition check_record :: "syntax_api \<Rightarrow> ipld_api \<Rightarrow> OfficialTarget \<Rightarrow> bytes \<Rightarrow> bytes \<Rightarrow> 's client_response \<Rightarrow> UnverifiedRecord result" where
  "check_record sx ip target collection rkey r =
     (case answer r maxJSONResponse (\<lambda>j. decode_struct True [''uri'', ''cid'', ''value''] put_wire_record j zero_wireRecord) of
        Inl e \<Rightarrow> Inl e
      | Inr (output, _) \<Rightarrow>
          if wrc_URI output \<noteq> record_uri sx target collection rkey then Inl ErrTarget
          else if \<not> validRecordCID ip (wrc_CID output) \<or> \<not> recordTypeMatches (raw_value output) collection then Inl ErrIntegrity
          else Inr \<lparr>ur_URI = wrc_URI output, ur_Collection = collection, ur_RKey = rkey, ur_CID = wrc_CID output, ur_Value = raw_value output\<rparr>)"

definition InspectRecord :: "syntax_api \<Rightarrow> ipld_api \<Rightarrow> 's Client \<Rightarrow> bytes \<Rightarrow> bytes \<Rightarrow> ('s, UnverifiedRecord) op" where
  "InspectRecord sx ip c collection rkey =
     (if \<not> allowedCollection collection \<or> \<not> validRecordKey sx rkey then raise ErrInvalidRecord
      else withReader c (\<lambda>credential.
        let query = AList.update ''rkey'' rkey (AList.update ''collection'' collection (targetQuery (cn_target c))) in
        consuming (request c credential ''GET'' getRecordEndpoint (Some query) None [] ''application/json'')
          (check_record sx ip (cn_target c) collection rkey)))"

text \<open>The response to a blob request up to its body, which \<open>readMessageBlob\<close> checks.\<close>

definition blob_body :: "'s client_response \<Rightarrow> bytes result" where
  "blob_body r =
     (if re_Status r \<noteq> 200 then Inl (decodeProviderError r)
      else if (case re_MediaType r of None \<Rightarrow> True | Some m \<Rightarrow> \<not> equal_fold m MessageMIMEType) then Inl ErrIntegrity
      else if bo_Failed (re_Body r) \<and> length (bo_Bytes (re_Body r)) \<le> MaxRawMessageBytes then Inl (ErrOther ''officialspaces: read blob'')
      else Inr (bo_Bytes (re_Body r)))"

definition client_readMessageBlob :: "ipld_api \<Rightarrow> 's Client \<Rightarrow> 's ScopedDoer \<Rightarrow> bytes \<Rightarrow> ('s, bytes) op" where
  "client_readMessageBlob ip c credential blobCID =
     consuming (request c credential ''GET'' getBlobEndpoint (Some (AList.update ''cid'' blobCID (targetQuery (cn_target c)))) None [] MessageMIMEType)
       (\<lambda>r. readMessageBlob ip blobCID (blob_body r))"

definition client_GetBlob :: "ipld_api \<Rightarrow> 's Client \<Rightarrow> bytes \<Rightarrow> ('s, bytes) op" where
  "client_GetBlob ip c cid =
     (if \<not> validRawCID ip cid then raise ErrInvalidRecord
      else withReader c (\<lambda>credential. client_readMessageBlob ip c credential cid))"

definition put_commit :: "bytes \<Rightarrow> json \<Rightarrow> json option \<Rightarrow> json option option" where
  "put_commit f v commit = Some (Some v)"

text \<open>The commit has to be an object: its text is not empty, not \<^verbatim>\<open>null\<close>, and starts with a brace.\<close>

definition check_commit :: "'s client_response \<Rightarrow> RawMessage result" where
  "check_commit r =
     (case answer r maxCommitBytes (\<lambda>j. decode_struct True [''commit''] put_commit j None) of Inl e \<Rightarrow> Inl e | Inr (output, _) \<Rightarrow>
        (case output of Some (JObj ms) \<Rightarrow> Inr (raw_of (JObj ms)) | _ \<Rightarrow> Inl ErrIntegrity))"

definition GetLatestCommit :: "'s Client \<Rightarrow> ('s, RawMessage) op" where
  "GetLatestCommit c = withReader c (\<lambda>credential. consuming
     (request c credential ''GET'' getLatestCommitEndpoint (Some (targetQuery (cn_target c))) None [] ''application/json'') check_commit)"

definition bool_text :: "bool \<Rightarrow> bytes" where
  "bool_text b = (if b then ''true'' else ''false'')"

text \<open>
  A consumer is given the limited stream and whether reading it fails at its end; it returns how many
  bytes it has read.
\<close>

definition stream_body :: "(bytes \<Rightarrow> bool \<Rightarrow> ('s, nat) op) \<Rightarrow> 's client_response \<Rightarrow> ('s, unit) op" where
  "stream_body consume r =
     (if re_Status r \<noteq> 200 then raise (decodeProviderError r)
      else if (case re_MediaType r of None \<Rightarrow> True | Some m \<Rightarrow> \<not> equal_fold m ''application/vnd.ipld.car'') then raise ErrIntegrity
      else let b = re_Body r; limited = take (maxRepoStreamBytes + 1) (bo_Bytes b);
               fails = (bo_Failed b \<and> length (bo_Bytes b) \<le> maxRepoStreamBytes) in
        after (consume limited fails) (\<lambda>n.
          if n > maxRepoStreamBytes then raise ErrInvalidRecord
          else if drop n limited \<noteq> [] \<or> fails then raise ErrIntegrity
          else give ()))"

definition StreamRepo :: "'s Client \<Rightarrow> bool \<Rightarrow> (bytes \<Rightarrow> bool \<Rightarrow> ('s, nat) op) option \<Rightarrow> ('s, unit) op" where
  "StreamRepo c excludeValues consume =
     (case consume of None \<Rightarrow> raise ErrInvalidRecord | Some f \<Rightarrow>
        withReader c (\<lambda>credential s.
          case request c credential ''GET'' getRepoEndpoint
              (Some (AList.update ''excludeValues'' (bool_text excludeValues) (targetQuery (cn_target c)))) None [] ''application/vnd.ipld.car'' s of
            (Inl e, s1) \<Rightarrow> (Inl e, s1)
          | (Inr r, s1) \<Rightarrow> (case stream_body f r s1 of (x, s2) \<Rightarrow> (x, close_body (Some r) s2))))"

section \<open>Listings\<close>

record record_page =
  rpg_Cursor :: bytes
  rpg_Records :: "wireRecord slice"

definition put_record_page :: "bytes \<Rightarrow> json \<Rightarrow> record_page \<Rightarrow> record_page option" where
  "put_record_page f v p =
     (if f = ''cursor'' then map_option (\<lambda>x. p\<lparr>rpg_Cursor := x\<rparr>) (decode_string v (rpg_Cursor p))
      else map_option (\<lambda>x. p\<lparr>rpg_Records := x\<rparr>)
        (decode_slice (\<lambda>j. decode_struct True [''collection'', ''rkey'', ''cid'', ''value''] put_wire_record j zero_wireRecord) v))"

definition fetch_records :: "'s Client \<Rightarrow> 's ScopedDoer \<Rightarrow> query \<Rightarrow> ('s, record_page \<times> nat) op" where
  "fetch_records c credential query =
     consuming (request c credential ''GET'' listRecordsEndpoint (Some query) None [] ''application/json'')
       (\<lambda>r. answer r maxJSONResponse (\<lambda>j. decode_struct True [''cursor'', ''records''] put_record_page j \<lparr>rpg_Cursor = [], rpg_Records = None\<rparr>))"

text \<open>The items of a page: \<open>seen\<close> are the addresses so far, \<open>records\<close> the records so far.\<close>

fun list_items ::
  "syntax_api \<Rightarrow> ipld_api \<Rightarrow> OfficialTarget \<Rightarrow> bytes \<Rightarrow> bool \<Rightarrow> wireRecord list \<Rightarrow> bytes list \<Rightarrow> UnverifiedRecord list
     \<Rightarrow> (bytes list \<times> UnverifiedRecord list) result" where
  "list_items sx ip target collection excludeValues [] seen records = Inr (seen, records)"
| "list_items sx ip target collection excludeValues (item # items) seen records =
     (if \<not> allowedCollection (wrc_Collection item) \<or> collection \<noteq> [] \<and> wrc_Collection item \<noteq> collection
        \<or> \<not> validRecordKey sx (wrc_RKey item) \<or> \<not> validRecordCID ip (wrc_CID item) then Inl ErrIntegrity
      else if excludeValues \<and> wrc_Value item \<noteq> None then Inl ErrIntegrity
      else if \<not> excludeValues \<and> \<not> recordTypeMatches (raw_value item) (wrc_Collection item) then Inl ErrIntegrity
      else
        let uri = record_uri sx target (wrc_Collection item) (wrc_RKey item);
            records' = records @ [\<lparr>ur_URI = uri, ur_Collection = wrc_Collection item, ur_RKey = wrc_RKey item, ur_CID = wrc_CID item,
              ur_Value = raw_value item\<rparr>]
        in if uri \<in> set seen then Inl ErrIntegrity
           else if length records' > maxInventoryItems then Inl ErrInvalidRecord
           else list_items sx ip target collection excludeValues items (uri # seen) records')"

record record_listing =
  rl_cursors :: "bytes list"
  rl_seen :: "bytes list"
  rl_bytes :: nat
  rl_records :: "UnverifiedRecord list"

text \<open>What a page does to the listing, up to and including the checks of its cursor.\<close>

definition list_page ::
  "syntax_api \<Rightarrow> ipld_api \<Rightarrow> OfficialTarget \<Rightarrow> bytes \<Rightarrow> bool \<Rightarrow> record_page \<times> nat \<Rightarrow> record_listing \<Rightarrow> record_listing result" where
  "list_page sx ip target collection excludeValues page l =
     (let inventoryBytes = rl_bytes l + snd page; cursor = rpg_Cursor (fst page) in
      if inventoryBytes > maxInventoryBytes then Inl ErrInvalidRecord
      else (case rpg_Records (fst page) of None \<Rightarrow> Inl ErrIntegrity | Some items \<Rightarrow>
        (case list_items sx ip target collection excludeValues items (rl_seen l) (rl_records l) of Inl e \<Rightarrow> Inl e | Inr (seen, records) \<Rightarrow>
          let l' = l\<lparr>rl_seen := seen, rl_bytes := inventoryBytes, rl_records := records\<rparr> in
          if cursor = [] then Inr l'
          else if length cursor > maxCursorBytes \<or> contains_any cursor [CHR 0x0D, CHR 0x0A] \<or> length items = 0 then Inl ErrIntegrity
          else if cursor \<noteq> ur_URI (last records) then Inl ErrTarget
          else if cursor \<in> set (rl_cursors l) then Inl ErrIntegrity
          else Inr (l'\<lparr>rl_cursors := cursor # rl_cursors l\<rparr>))))"

text \<open>The loop; the first argument is the number of pages that may still be asked for.\<close>

fun list_records ::
  "syntax_api \<Rightarrow> ipld_api \<Rightarrow> 's Client \<Rightarrow> 's ScopedDoer \<Rightarrow> bytes \<Rightarrow> bool \<Rightarrow> nat \<Rightarrow> query \<Rightarrow> record_listing \<Rightarrow> ('s, record_listing) op" where
  "list_records sx ip c credential collection excludeValues 0 query l = raise ErrInvalidRecord"
| "list_records sx ip c credential collection excludeValues (Suc n) query l =
     after (fetch_records c credential query) (\<lambda>page.
     after (returning (list_page sx ip (cn_target c) collection excludeValues page l)) (\<lambda>l'.
       if rpg_Cursor (fst page) = [] then give l'
       else list_records sx ip c credential collection excludeValues n (AList.update ''cursor'' (rpg_Cursor (fst page)) query) l'))"

definition records_query :: "OfficialTarget \<Rightarrow> bytes \<Rightarrow> bool \<Rightarrow> query" where
  "records_query target collection excludeValues =
     (let query = AList.update ''excludeValues'' (bool_text excludeValues) (AList.update ''limit'' ''1000'' (targetQuery target)) in
      if collection \<noteq> [] then AList.update ''collection'' collection query else query)"

definition InspectRecords :: "syntax_api \<Rightarrow> ipld_api \<Rightarrow> 's Client \<Rightarrow> bytes \<Rightarrow> bool \<Rightarrow> ('s, UnverifiedRecord list) op" where
  "InspectRecords sx ip c collection excludeValues =
     (if collection \<noteq> [] \<and> \<not> allowedCollection collection then raise ErrInvalidRecord
      else withReader c (\<lambda>credential.
        after (list_records sx ip c credential collection excludeValues maxInventoryPages
          (records_query (cn_target c) collection excludeValues) \<lparr>rl_cursors = [], rl_seen = [], rl_bytes = 0, rl_records = []\<rparr>)
        (\<lambda>l. give (rl_records l))))"

record blob_page =
  bpg_Cursor :: bytes
  bpg_CIDs :: "bytes slice"

definition put_blob_page :: "bytes \<Rightarrow> json \<Rightarrow> blob_page \<Rightarrow> blob_page option" where
  "put_blob_page f v p =
     (if f = ''cursor'' then map_option (\<lambda>x. p\<lparr>bpg_Cursor := x\<rparr>) (decode_string v (bpg_Cursor p))
      else map_option (\<lambda>x. p\<lparr>bpg_CIDs := x\<rparr>) (decode_strings v))"

definition fetch_blobs :: "'s Client \<Rightarrow> 's ScopedDoer \<Rightarrow> query \<Rightarrow> ('s, blob_page \<times> nat) op" where
  "fetch_blobs c credential query =
     consuming (request c credential ''GET'' listBlobsEndpoint (Some query) None [] ''application/json'')
       (\<lambda>r. answer r maxJSONResponse (\<lambda>j. decode_struct True [''cursor'', ''cids''] put_blob_page j \<lparr>bpg_Cursor = [], bpg_CIDs = None\<rparr>))"

fun list_cids :: "ipld_api \<Rightarrow> bytes list \<Rightarrow> bytes list \<Rightarrow> bytes list \<Rightarrow> (bytes list \<times> bytes list) result" where
  "list_cids ip [] seen cids = Inr (seen, cids)"
| "list_cids ip (cid # rest) seen cids =
     (if \<not> validRawCID ip cid then Inl ErrIntegrity
      else if cid \<in> set seen then Inl ErrIntegrity
      else if length (cids @ [cid]) > maxInventoryItems then Inl ErrInvalidRecord
      else list_cids ip rest (cid # seen) (cids @ [cid]))"

record blob_listing =
  bl_cursors :: "bytes list"
  bl_seen :: "bytes list"
  bl_bytes :: nat
  bl_cids :: "bytes list"

definition blob_list_page :: "ipld_api \<Rightarrow> blob_page \<times> nat \<Rightarrow> blob_listing \<Rightarrow> blob_listing result" where
  "blob_list_page ip page l =
     (let inventoryBytes = bl_bytes l + snd page; cursor = bpg_Cursor (fst page) in
      if inventoryBytes > maxInventoryBytes then Inl ErrInvalidRecord
      else (case bpg_CIDs (fst page) of None \<Rightarrow> Inl ErrIntegrity | Some items \<Rightarrow>
        (case list_cids ip items (bl_seen l) (bl_cids l) of Inl e \<Rightarrow> Inl e | Inr (seen, cids) \<Rightarrow>
          let l' = l\<lparr>bl_seen := seen, bl_bytes := inventoryBytes, bl_cids := cids\<rparr> in
          if cursor = [] then Inr l'
          else if length cursor > maxCursorBytes \<or> contains_any cursor [CHR 0x0D, CHR 0x0A] \<or> length items = 0
            \<or> cursor \<noteq> last items then Inl ErrIntegrity
          else if cursor \<in> set (bl_cursors l) then Inl ErrIntegrity
          else Inr (l'\<lparr>bl_cursors := cursor # bl_cursors l\<rparr>))))"

fun list_blobs :: "ipld_api \<Rightarrow> 's Client \<Rightarrow> 's ScopedDoer \<Rightarrow> nat \<Rightarrow> query \<Rightarrow> blob_listing \<Rightarrow> ('s, blob_listing) op" where
  "list_blobs ip c credential 0 query l = raise ErrInvalidRecord"
| "list_blobs ip c credential (Suc n) query l =
     after (fetch_blobs c credential query) (\<lambda>page.
     after (returning (blob_list_page ip page l)) (\<lambda>l'.
       if bpg_Cursor (fst page) = [] then give l'
       else list_blobs ip c credential n (AList.update ''cursor'' (bpg_Cursor (fst page)) query) l'))"

definition ListBlobs :: "syntax_api \<Rightarrow> ipld_api \<Rightarrow> 's Client \<Rightarrow> bytes \<Rightarrow> ('s, bytes list) op" where
  "ListBlobs sx ip c since =
     (if since \<noteq> [] \<and> \<not> sx_ParseTID sx since then raise ErrInvalidRecord
      else withReader c (\<lambda>credential.
        let query = AList.update ''limit'' ''1000'' (targetQuery (cn_target c));
            query = (if since \<noteq> [] then AList.update ''since'' since query else query) in
        after (list_blobs ip c credential maxInventoryPages query \<lparr>bl_cursors = [], bl_seen = [], bl_bytes = 0, bl_cids = []\<rparr>)
          (\<lambda>l. give (bl_cids l))))"

end
