(* ===== verification/Authority.thy ===== *)
theory Authority
  imports Recovery
begin

text \<open>
  Package \<^verbatim>\<open>authorityv3\<close>, files \<^verbatim>\<open>contract.go\<close> and \<^verbatim>\<open>handler.go\<close>: the contract between the relay and
  the append-only authority of a mailbox, the checks of requests and of what the engine answers,
  the bounded encoding of a snapshot, and the handler that routes an authenticated request to
  the engine. The handler recomputes every digest with code of its own; the lemmas at the end
  show that it agrees with package \<^verbatim>\<open>mailboxstate\<close>. The engine behind the contract is a record of
  operations here and is modelled in \<open>Authority_Engine\<close>.
\<close>

section \<open>The contract\<close>

definition ProtocolVersion :: int where "ProtocolVersion = 3"
definition AuthorityGeneration :: bytes where "AuthorityGeneration = ''official-v3''"

text \<open>The sentinel of this package; it is not the conflict error of package \<^verbatim>\<open>repository\<close>.\<close>

definition ErrAppendConflict :: err where
  "ErrAppendConflict = ErrOther ''authorityv3: concurrent append conflict''"

record AuthorityTarget =
  at_ProviderID :: bytes
  at_Origin :: bytes
  at_SpaceURI :: bytes
  at_RepoDID :: bytes
  at_Epoch :: bytes
  at_CertificateSHA256 :: bytes
  at_CertificateGeneration :: bytes

record AuthorityCapabilities =
  ac_PrivateRecords :: bool
  ac_ReferencedBlobs :: bool
  ac_AtomicCreateBatch :: bool
  ac_IdempotentOperationClaims :: bool
  ac_AuthenticatedStableRead :: bool
  ac_CompleteInventory :: bool
  ac_ConcurrentHeads :: bool
  ac_Tombstones :: bool
  ac_SourceVersioning :: bool
  ac_CertificateSHA256 :: bytes
  ac_Generation :: bytes

record FolderState =
  fst_FolderID :: bytes
  fst_SnapshotID :: bytes
  fst_Name :: bytes
  fst_Role :: bytes
  fst_Tombstone :: bool
  fst_Heads :: "bytes list"
  fst_HeadsDigest :: bytes
  fst_StateDigest :: bytes
  fst_Height :: u64
  fst_RevisionCount :: int

record AuthorityMessage =
  am_URI :: bytes
  am_RKey :: bytes
  am_Fingerprint :: bytes
  am_LogicalMessageID :: bytes
  am_SourceKey :: bytes
  am_SHA256 :: bytes
  am_Size :: int
  am_Raw :: bytes

record MessageState =
  mst_LogicalMessageID :: bytes
  mst_SnapshotID :: bytes
  mst_Version :: bytes
  mst_MailboxIDs :: "bytes slice"
  mst_Keywords :: "bytes slice"
  mst_DeletePending :: bool
  mst_Tombstone :: bool
  mst_Heads :: "bytes list"
  mst_HeadsDigest :: bytes
  mst_StateDigest :: bytes
  mst_Height :: u64
  mst_RevisionCount :: int

record AuthoritySnapshot =
  asn_Version :: int
  asn_Target :: AuthorityTarget
  asn_Revision :: bytes
  asn_SnapshotID :: bytes
  asn_ManifestSHA256 :: bytes
  asn_Folders :: "FolderState slice"
  asn_Messages :: "AuthorityMessage slice"
  asn_States :: "MessageState slice"

record FolderSelection =
  fsl_SourceKey :: bytes
  fsl_Name :: bytes
  fsl_Role :: bytes

record Placement =
  pl_SourceKey :: bytes
  pl_Folders :: "FolderSelection list"
  pl_Keywords :: "bytes list"

record StateMutation =
  smu_SnapshotID :: bytes
  smu_LogicalMessageID :: bytes
  smu_OperationID :: bytes
  smu_ExpectedHeads :: "bytes list"
  smu_ExpectedHeadsDigest :: bytes
  smu_ExpectedStateDigest :: bytes
  smu_ExpectedHeight :: u64
  smu_ExpectedRevisionCount :: int
  smu_Version :: bytes
  smu_MailboxIDs :: "bytes list"
  smu_Keywords :: "bytes list"
  smu_DeletePending :: bool
  smu_Tombstone :: bool

record Receipt =
  rct_Target :: AuthorityTarget
  rct_Fingerprint :: bytes
  rct_SHA256 :: bytes
  rct_Size :: int
  rct_Verified :: bool

record StoreInput =
  sin_RecipientDID :: bytes
  sin_Placement :: Placement
  sin_Raw :: bytes

text \<open>The \<^verbatim>\<open>Engine\<close> interface: operations on the state \<open>'s\<close> of whatever implements it.\<close>

record 's Engine =
  en_Capabilities :: "('s, AuthorityCapabilities) op"
  en_Store :: "StoreInput \<Rightarrow> ('s, Receipt) op"
  en_Snapshot :: "('s, AuthoritySnapshot) op"
  en_AppendState :: "StateMutation \<Rightarrow> ('s, MessageState) op"

record capabilityRequest =
  cq_Version :: int
  cq_Target :: AuthorityTarget

record storeRequest =
  stq_Version :: int
  stq_Target :: AuthorityTarget
  stq_RecipientDID :: bytes
  stq_Placement :: Placement
  stq_MessageRaw :: bytes

record snapshotRequest =
  snq_Version :: int
  snq_Target :: AuthorityTarget

record stateRequest =
  saq_Version :: int
  saq_Target :: AuthorityTarget
  saq_Mutation :: StateMutation

record capabilityResponse =
  cqr_Version :: int
  cqr_ProviderID :: bytes
  cqr_Target :: AuthorityTarget
  cqr_Capabilities :: AuthorityCapabilities

record storeResponse =
  stqr_Version :: int
  stqr_ProviderID :: bytes
  stqr_Target :: AuthorityTarget
  stqr_Receipt :: Receipt

record snapshotResponse =
  snr_Version :: int
  snr_ProviderID :: bytes
  snr_Target :: AuthorityTarget
  snr_Snapshot :: AuthoritySnapshot

record stateResponse =
  sar_Version :: int
  sar_ProviderID :: bytes
  sar_Target :: AuthorityTarget
  sar_OperationID :: bytes
  sar_State :: MessageState

section \<open>Digests of the handler\<close>

text \<open>The handler's own canonical writer.\<close>

definition aw_boolean :: "bool \<Rightarrow> bytes" where
  "aw_boolean v = (if v then [CHR 0x01] else [CHR 0x00])"

definition aw_uint64 :: "u64 \<Rightarrow> bytes" where
  "aw_uint64 w = uvarint (unat w)"

text \<open>The length of a string or slice fits in 64 bits in Go.\<close>

definition aw_string :: "bytes \<Rightarrow> bytes" where
  "aw_string s = uvarint (length s) @ s"

definition aw_strings :: "bytes list \<Rightarrow> bytes" where
  "aw_strings ss = uvarint (length ss) @ concat (map aw_string ss)"

definition prefixedDigest :: "bytes \<Rightarrow> bytes" where
  "prefixedDigest encoded = ''sha256-'' @ hex_encode (sha256 encoded)"

definition headsDigest :: "bytes \<Rightarrow> bytes list \<Rightarrow> bytes" where
  "headsDigest domain heads = prefixedDigest (domain @ aw_strings heads)"

definition messageStateDigest :: "MessageState \<Rightarrow> bytes" where
  "messageStateDigest st = prefixedDigest
     (''comail-message-state-reduced-v1'' @ [CHR 0x00] @ aw_string (mst_LogicalMessageID st) @ aw_string (mst_Version st)
      @ aw_strings (elems (mst_MailboxIDs st)) @ aw_strings (elems (mst_Keywords st)) @ aw_boolean (mst_DeletePending st)
      @ aw_boolean (mst_Tombstone st) @ aw_strings (mst_Heads st) @ aw_string (mst_HeadsDigest st)
      @ aw_uint64 (mst_Height st) @ aw_uint64 (word_of_int (mst_RevisionCount st)))"

definition folderStateDigest :: "FolderState \<Rightarrow> bytes" where
  "folderStateDigest st = prefixedDigest
     (''comail-folder-state-reduced-v1'' @ [CHR 0x00] @ aw_string (fst_FolderID st) @ aw_string (fst_Name st)
      @ aw_string (fst_Role st) @ aw_boolean (fst_Tombstone st) @ aw_strings (fst_Heads st) @ aw_string (fst_HeadsDigest st)
      @ aw_uint64 (fst_Height st) @ aw_uint64 (word_of_int (fst_RevisionCount st)))"

definition standardFolderID :: "bytes \<Rightarrow> bytes \<Rightarrow> bytes" where
  "standardFolderID repoDID role = ''folder-'' @ trim_prefix (prefixedDigest
     (''comail-standard-folder-v1'' @ [CHR 0x00] @ aw_string repoDID @ aw_string role)) ''sha256-''"

definition sourceFingerprint :: "bytes \<Rightarrow> bytes \<Rightarrow> bytes \<Rightarrow> bytes" where
  "sourceFingerprint recipient sourceKey raw = ''sha256-'' @ hex_encode (sha256
     (''comail-habitat-delivery-v2'' @ [CHR 0x00] @ recipient @ [CHR 0x00] @ sourceKey @ [CHR 0x00] @ raw))"

definition logicalMessageID :: "bytes \<Rightarrow> bytes \<Rightarrow> bytes \<Rightarrow> bytes" where
  "logicalMessageID recipient sourceKey fingerprint =
     (if sourceKey = [] then fingerprint
      else ''sha256-'' @ hex_encode (sha256 (''comail-logical-message-v1'' @ [CHR 0x00] @ recipient @ [CHR 0x00] @ sourceKey)))"

definition rawSHA256 :: "bytes \<Rightarrow> bytes" where
  "rawSHA256 raw = hex_encode (sha256 raw)"

section \<open>Validators\<close>

definition maxSnapshotBytes :: int where "maxSnapshotBytes = 64 * 1024 * 1024"
definition maxSnapshotResponseBytes :: nat where "maxSnapshotResponseBytes = 128 * 2 ^ 20"
definition maxFolders :: nat where "maxFolders = 4096"
definition maxMessages :: nat where "maxMessages = 100000"
definition maxStateMailboxIDs :: nat where "maxStateMailboxIDs = 32"
definition maxStateKeywords :: nat where "maxStateKeywords = 128"
definition maxStateRevisions :: int where "maxStateRevisions = 4096"

definition validRole :: "bytes \<Rightarrow> bool" where
  "validRole role = (role = [] \<or> role \<in> {''archive'', ''drafts'', ''important'', ''inbox'', ''junk'', ''sent'', ''trash''})"

definition authority_validText :: "bytes \<Rightarrow> nat \<Rightarrow> bool" where
  "authority_validText v limit = (v \<noteq> [] \<and> length v \<le> limit \<and> utf8_valid v
     \<and> \<not> contains_any v [CHR 0x0D, CHR 0x0A, CHR 0x00])"

definition authority_validOptionalText :: "bytes \<Rightarrow> nat \<Rightarrow> bool" where
  "authority_validOptionalText v limit = (v = [] \<or> authority_validText v limit)"

definition standardFolderName :: "bytes \<Rightarrow> bytes" where
  "standardFolderName role =
     (if role = ''archive'' then ''Archive'' else if role = ''drafts'' then ''Drafts'' else if role = ''important'' then ''Important''
      else if role = ''inbox'' then ''Inbox'' else if role = ''junk'' then ''Junk'' else if role = ''sent'' then ''Sent''
      else if role = ''trash'' then ''Trash'' else [])"

definition validSortedUnique :: "bytes list \<Rightarrow> (bytes \<Rightarrow> bool) \<Rightarrow> bool" where
  "validSortedUnique values ok = sorted_from ok None values"

definition validRawSHA256 :: "bytes \<Rightarrow> bool" where
  "validRawSHA256 v = (case hex_decode v of None \<Rightarrow> False | Some decoded \<Rightarrow> length decoded = 32 \<and> v = to_lower v)"

definition validPrefixedSHA256 :: "bytes \<Rightarrow> bytes \<Rightarrow> bool" where
  "validPrefixedSHA256 v p = (if \<not> has_prefix v p then False else validRawSHA256 (trim_prefix v p))"

definition validHeadSet :: "bytes list \<Rightarrow> bytes \<Rightarrow> bool" where
  "validHeadSet values p = (length values > 0 \<and> length values \<le> 64 \<and> validSortedUnique values (\<lambda>v. validPrefixedSHA256 v p))"

definition supports :: "AuthorityCapabilities \<Rightarrow> AuthorityTarget \<Rightarrow> bool" where
  "supports c t = (ac_PrivateRecords c \<and> ac_ReferencedBlobs c \<and> ac_AtomicCreateBatch c \<and> ac_IdempotentOperationClaims c
     \<and> ac_AuthenticatedStableRead c \<and> ac_CompleteInventory c \<and> ac_ConcurrentHeads c \<and> ac_Tombstones c \<and> ac_SourceVersioning c
     \<and> ac_Generation c = AuthorityGeneration \<and> ac_CertificateSHA256 c = at_CertificateSHA256 t)"

fun check_selections :: "bytes list \<Rightarrow> FolderSelection list \<Rightarrow> bool" where
  "check_selections seen [] = True"
| "check_selections seen (f # fs) =
     (if \<not> authority_validText (fsl_SourceKey f) 512 \<or> \<not> authority_validText (fsl_Name f) 255 \<or> \<not> validRole (fsl_Role f)
        \<or> (fsl_Role f \<noteq> [] \<and> fsl_Name f \<noteq> standardFolderName (fsl_Role f)) then False
      else if fsl_SourceKey f \<in> set seen then False else check_selections (fsl_SourceKey f # seen) fs)"

definition validPlacement :: "Placement \<Rightarrow> bool" where
  "validPlacement p =
     (if length (pl_SourceKey p) > 512 \<or> contains_any (pl_SourceKey p) [CHR 0x0D, CHR 0x0A, CHR 0x00]
        \<or> length (pl_Folders p) = 0 \<or> length (pl_Folders p) > maxStateMailboxIDs \<or> length (pl_Keywords p) > maxStateKeywords
        \<or> \<not> validSortedUnique (pl_Keywords p) (\<lambda>v. authority_validText v 255) then False
      else check_selections [] (pl_Folders p))"

definition heads_domain :: bytes where
  "heads_domain = ''comail-message-state-heads-v1'' @ [CHR 0x00]"

definition folder_heads_domain :: bytes where
  "folder_heads_domain = ''comail-folder-state-heads-v1'' @ [CHR 0x00]"

definition authority_validMutation :: "StateMutation \<Rightarrow> bool" where
  "authority_validMutation m = (validPrefixedSHA256 (smu_SnapshotID m) ''sha256-'' \<and> validPrefixedSHA256 (smu_LogicalMessageID m) ''sha256-''
     \<and> authority_validText (smu_OperationID m) 128 \<and> validHeadSet (smu_ExpectedHeads m) ''state-''
     \<and> smu_ExpectedHeadsDigest m = headsDigest heads_domain (smu_ExpectedHeads m)
     \<and> validPrefixedSHA256 (smu_ExpectedStateDigest m) ''sha256-'' \<and> smu_ExpectedHeight m > 0
     \<and> smu_ExpectedRevisionCount m \<ge> int (length (smu_ExpectedHeads m)) \<and> smu_ExpectedRevisionCount m < maxStateRevisions
     \<and> (word_of_int (smu_ExpectedRevisionCount m) :: u64) \<ge> smu_ExpectedHeight m
     \<and> validPrefixedSHA256 (smu_Version m) ''sha256-'' \<and> length (smu_MailboxIDs m) \<le> maxStateMailboxIDs
     \<and> validSortedUnique (smu_MailboxIDs m) (\<lambda>v. validPrefixedSHA256 v ''folder-'')
     \<and> length (smu_Keywords m) \<le> maxStateKeywords \<and> validSortedUnique (smu_Keywords m) (\<lambda>v. authority_validText v 255)
     \<and> (smu_Tombstone m \<or> length (smu_MailboxIDs m) > 0))"

definition validMutationResult :: "StateMutation \<Rightarrow> MessageState \<Rightarrow> bool" where
  "validMutationResult m st = (mst_SnapshotID st \<noteq> smu_SnapshotID m \<and> validPrefixedSHA256 (mst_SnapshotID st) ''sha256-''
     \<and> mst_LogicalMessageID st = smu_LogicalMessageID m \<and> mst_Version st = smu_Version m
     \<and> elems (mst_MailboxIDs st) = smu_MailboxIDs m \<and> elems (mst_Keywords st) = smu_Keywords m
     \<and> mst_DeletePending st = smu_DeletePending m \<and> mst_Tombstone st = smu_Tombstone m
     \<and> mst_Height st = smu_ExpectedHeight m + 1 \<and> mst_RevisionCount st = smu_ExpectedRevisionCount m + 1
     \<and> mst_RevisionCount st \<le> maxStateRevisions
     \<and> length (mst_Heads st) = 1 \<and> validPrefixedSHA256 (mst_Heads st ! 0) ''state-''
     \<and> mst_HeadsDigest st = headsDigest heads_domain (mst_Heads st) \<and> mst_StateDigest st = messageStateDigest st)"

section \<open>The check of a snapshot\<close>

definition folder_entry_ok :: "bytes \<Rightarrow> FolderState \<Rightarrow> bool" where
  "folder_entry_ok snapshotID f = (\<not> (fst_SnapshotID f \<noteq> snapshotID \<or> \<not> validPrefixedSHA256 (fst_FolderID f) ''folder-''
     \<or> \<not> authority_validText (fst_Name f) 255 \<or> \<not> validRole (fst_Role f) \<or> \<not> validHeadSet (fst_Heads f) ''folder-state-''
     \<or> fst_HeadsDigest f \<noteq> headsDigest folder_heads_domain (fst_Heads f) \<or> fst_StateDigest f \<noteq> folderStateDigest f
     \<or> fst_Height f = 0 \<or> fst_RevisionCount f < int (length (fst_Heads f)) \<or> fst_RevisionCount f > maxStateRevisions
     \<or> (word_of_int (fst_RevisionCount f) :: u64) < fst_Height f))"

text \<open>The loops return the maps they built, or \<open>None\<close> where the code returns false.\<close>

fun check_snapshot_folders ::
  "AuthorityTarget \<Rightarrow> bytes \<Rightarrow> FolderState list \<Rightarrow> FolderState gomap \<Rightarrow> bytes list \<Rightarrow> (FolderState gomap \<times> bytes list) option" where
  "check_snapshot_folders target snapshotID [] folders roles = Some (folders, roles)"
| "check_snapshot_folders target snapshotID (f # fs) folders roles =
     (if \<not> folder_entry_ok snapshotID f then None
      else if map_of folders (fst_FolderID f) \<noteq> None then None
      else (let folders' = AList.update (fst_FolderID f) f folders in
        if fst_Role f = [] then check_snapshot_folders target snapshotID fs folders' roles
        else if fst_FolderID f \<noteq> standardFolderID (at_RepoDID target) (fst_Role f) \<or> fst_Name f \<noteq> standardFolderName (fst_Role f) then None
        else if fst_Role f \<in> set roles then None
        else check_snapshot_folders target snapshotID fs folders' (fst_Role f # roles)))"

definition message_entry_ok :: "AuthorityTarget \<Rightarrow> int \<Rightarrow> AuthorityMessage \<Rightarrow> bool" where
  "message_entry_ok target used m = (\<not> (\<not> validPrefixedSHA256 (am_RKey m) ''sha256-'' \<or> am_Fingerprint m \<noteq> am_RKey m
     \<or> am_URI m \<noteq> at_SpaceURI target @ ''/'' @ at_RepoDID target @ ''/email.atmos.message/'' @ am_RKey m
     \<or> \<not> validPrefixedSHA256 (am_LogicalMessageID m) ''sha256-'' \<or> \<not> authority_validOptionalText (am_SourceKey m) 512
     \<or> length (am_Raw m) = 0 \<or> length (am_Raw m) > MaxRawMessageBytes \<or> am_Size m \<noteq> int (length (am_Raw m))
     \<or> am_SHA256 m \<noteq> rawSHA256 (am_Raw m)
     \<or> am_Fingerprint m \<noteq> sourceFingerprint (at_RepoDID target) (am_SourceKey m) (am_Raw m)
     \<or> am_LogicalMessageID m \<noteq> logicalMessageID (at_RepoDID target) (am_SourceKey m) (am_Fingerprint m)
     \<or> int (length (am_Raw m)) > maxSnapshotBytes - used))"

fun check_snapshot_messages ::
  "AuthorityTarget \<Rightarrow> AuthorityMessage list \<Rightarrow> int \<Rightarrow> AuthorityMessage gomap \<Rightarrow> int gomap \<Rightarrow> (AuthorityMessage gomap \<times> int gomap) option" where
  "check_snapshot_messages target [] used versions logical = Some (versions, logical)"
| "check_snapshot_messages target (m # ms) used versions logical =
     (if \<not> message_entry_ok target used m then None
      else if map_of versions (am_RKey m) \<noteq> None then None
      else check_snapshot_messages target ms (used + int (length (am_Raw m))) (AList.update (am_RKey m) m versions)
        (AList.update (am_LogicalMessageID m)
          ((case map_of logical (am_LogicalMessageID m) of None \<Rightarrow> 0 | Some n \<Rightarrow> n) + 1) logical))"

definition state_entry_ok :: "bytes \<Rightarrow> AuthorityMessage gomap \<Rightarrow> MessageState \<Rightarrow> bool" where
  "state_entry_ok snapshotID versions st =
     (\<not> (mst_SnapshotID st \<noteq> snapshotID \<or> \<not> validPrefixedSHA256 (mst_LogicalMessageID st) ''sha256-''
     \<or> (case map_of versions (mst_Version st) of None \<Rightarrow> True | Some selected \<Rightarrow> am_LogicalMessageID selected \<noteq> mst_LogicalMessageID st)
     \<or> length (elems (mst_MailboxIDs st)) > maxStateMailboxIDs
     \<or> \<not> validSortedUnique (elems (mst_MailboxIDs st)) (\<lambda>v. validPrefixedSHA256 v ''folder-'')
     \<or> length (elems (mst_Keywords st)) > maxStateKeywords
     \<or> \<not> validSortedUnique (elems (mst_Keywords st)) (\<lambda>v. authority_validText v 255)
     \<or> \<not> validHeadSet (mst_Heads st) ''state-'' \<or> mst_HeadsDigest st \<noteq> headsDigest heads_domain (mst_Heads st)
     \<or> mst_StateDigest st \<noteq> messageStateDigest st \<or> mst_Height st = 0
     \<or> mst_RevisionCount st < int (length (mst_Heads st)) \<or> mst_RevisionCount st > maxStateRevisions
     \<or> (word_of_int (mst_RevisionCount st) :: u64) < mst_Height st
     \<or> (\<not> mst_Tombstone st \<and> length (elems (mst_MailboxIDs st)) = 0)))"

fun check_snapshot_states ::
  "bytes \<Rightarrow> FolderState gomap \<Rightarrow> AuthorityMessage gomap \<Rightarrow> MessageState list \<Rightarrow> bytes list \<Rightarrow> bytes list option" where
  "check_snapshot_states snapshotID folders versions [] states = Some states"
| "check_snapshot_states snapshotID folders versions (st # sts) states =
     (if \<not> state_entry_ok snapshotID versions st then None
      else if mst_LogicalMessageID st \<in> set states then None
      else if \<not> mst_Tombstone st \<and> list_ex (\<lambda>f. case map_of folders f of None \<Rightarrow> True | Some folder \<Rightarrow> fst_Tombstone folder)
          (elems (mst_MailboxIDs st)) then None
      else check_snapshot_states snapshotID folders versions sts (mst_LogicalMessageID st # states))"

definition validSnapshot :: "AuthoritySnapshot \<Rightarrow> AuthorityTarget \<Rightarrow> bool" where
  "validSnapshot sn target =
     (if asn_Version sn \<noteq> ProtocolVersion \<or> asn_Target sn \<noteq> target \<or> \<not> authority_validText (asn_Revision sn) 512
        \<or> \<not> validPrefixedSHA256 (asn_SnapshotID sn) ''sha256-'' \<or> \<not> validPrefixedSHA256 (asn_ManifestSHA256 sn) ''sha256-''
        \<or> length (elems (asn_Folders sn)) > maxFolders \<or> length (elems (asn_Messages sn)) > maxMessages
        \<or> length (elems (asn_States sn)) > maxMessages then False
      else (case check_snapshot_folders target (asn_SnapshotID sn) (elems (asn_Folders sn)) [] [] of None \<Rightarrow> False | Some (folders, roles) \<Rightarrow>
        if length roles \<noteq> 7 then False
        else (case check_snapshot_messages target (elems (asn_Messages sn)) 0 [] [] of None \<Rightarrow> False | Some (versions, logical) \<Rightarrow>
          (case check_snapshot_states (asn_SnapshotID sn) folders versions (elems (asn_States sn)) [] of None \<Rightarrow> False | Some states \<Rightarrow>
            if length states \<noteq> length logical then False
            else list_all (\<lambda>l. l \<in> set states) (keys logical)))))"

section \<open>JSON of a snapshot\<close>

text \<open>Standard base64: three bytes become four characters; \<^verbatim>\<open>encoding/json\<close> writes byte slices so.\<close>

definition base64_char :: "nat \<Rightarrow> char" where
  "base64_char n = ((''ABCDEFGHIJKLMNOPQRSTUVWXYZabcdefghijklmnopqrstuvwxyz0123456789+/'' :: bytes) ! (n mod 64))"

fun base64 :: "bytes \<Rightarrow> bytes" where
  "base64 [] = []"
| "base64 [a] = [base64_char (byte a div 4), base64_char (byte a mod 4 * 16), CHR ''='', CHR ''='']"
| "base64 [a, b] = [base64_char (byte a div 4), base64_char (byte a mod 4 * 16 + byte b div 16),
     base64_char (byte b mod 16 * 4), CHR ''='']"
| "base64 (a # b # c # s) = base64_char (byte a div 4) # base64_char (byte a mod 4 * 16 + byte b div 16)
     # base64_char (byte b mod 16 * 4 + byte c div 64) # base64_char (byte c mod 64) # base64 s"

definition target_json :: "AuthorityTarget \<Rightarrow> json" where
  "target_json t = JObj
     (jfield ''providerId'' (jstr (at_ProviderID t)) @ jfield ''origin'' (jstr (at_Origin t)) @ jfield ''spaceUri'' (jstr (at_SpaceURI t))
      @ jfield ''repoDid'' (jstr (at_RepoDID t)) @ jfield ''epoch'' (jstr (at_Epoch t))
      @ jomit (at_CertificateSHA256 t = []) ''authorityCertificateSha256'' (jstr (at_CertificateSHA256 t))
      @ jomit (at_CertificateGeneration t = []) ''authorityCertificateGeneration'' (jstr (at_CertificateGeneration t)))"

definition folder_state_json :: "FolderState \<Rightarrow> json" where
  "folder_state_json f = JObj
     (jfield ''folderId'' (jstr (fst_FolderID f)) @ jfield ''snapshotId'' (jstr (fst_SnapshotID f)) @ jfield ''name'' (jstr (fst_Name f))
      @ jomit (fst_Role f = []) ''role'' (jstr (fst_Role f)) @ jfield ''tombstone'' (JBool (fst_Tombstone f))
      @ jfield ''heads'' (JArr (map jstr (fst_Heads f))) @ jfield ''headsDigest'' (jstr (fst_HeadsDigest f))
      @ jfield ''stateDigest'' (jstr (fst_StateDigest f)) @ jfield ''height'' (JNum (uint (fst_Height f)))
      @ jfield ''revisionCount'' (JNum (fst_RevisionCount f)))"

definition authority_message_json :: "AuthorityMessage \<Rightarrow> json" where
  "authority_message_json m = JObj
     (jfield ''uri'' (jstr (am_URI m)) @ jfield ''rkey'' (jstr (am_RKey m)) @ jfield ''fingerprint'' (jstr (am_Fingerprint m))
      @ jfield ''logicalMessageId'' (jstr (am_LogicalMessageID m)) @ jomit (am_SourceKey m = []) ''sourceKey'' (jstr (am_SourceKey m))
      @ jfield ''sha256'' (jstr (am_SHA256 m)) @ jfield ''size'' (JNum (am_Size m)) @ jfield ''raw'' (jstr (base64 (am_Raw m))))"

definition message_state_json :: "MessageState \<Rightarrow> json" where
  "message_state_json st = JObj
     (jfield ''logicalMessageId'' (jstr (mst_LogicalMessageID st)) @ jfield ''snapshotId'' (jstr (mst_SnapshotID st))
      @ jfield ''version'' (jstr (mst_Version st)) @ jfield ''mailboxIds'' (jstrs (mst_MailboxIDs st))
      @ jfield ''keywords'' (jstrs (mst_Keywords st)) @ jfield ''deletePending'' (JBool (mst_DeletePending st))
      @ jfield ''tombstone'' (JBool (mst_Tombstone st)) @ jfield ''heads'' (JArr (map jstr (mst_Heads st)))
      @ jfield ''headsDigest'' (jstr (mst_HeadsDigest st)) @ jfield ''stateDigest'' (jstr (mst_StateDigest st))
      @ jfield ''height'' (JNum (uint (mst_Height st))) @ jfield ''revisionCount'' (JNum (mst_RevisionCount st)))"

text \<open>The members of the two objects before their last members, and the whole response as one document.\<close>

definition outer_header :: "snapshotResponse \<Rightarrow> (bytes \<times> json) list" where
  "outer_header v = jfield ''version'' (JNum (snr_Version v)) @ jfield ''providerId'' (jstr (snr_ProviderID v))
     @ jfield ''target'' (target_json (snr_Target v))"

definition snapshot_header :: "AuthoritySnapshot \<Rightarrow> (bytes \<times> json) list" where
  "snapshot_header sn = jfield ''version'' (JNum (asn_Version sn)) @ jfield ''target'' (target_json (asn_Target sn))
     @ jfield ''revision'' (jstr (asn_Revision sn)) @ jfield ''snapshotId'' (jstr (asn_SnapshotID sn))
     @ jfield ''manifestSha256'' (jstr (asn_ManifestSHA256 sn))"

definition slice_json :: "('a \<Rightarrow> json) \<Rightarrow> 'a slice \<Rightarrow> json" where
  "slice_json f xs = (case xs of None \<Rightarrow> JNull | Some l \<Rightarrow> JArr (map f l))"

definition snapshot_response_json :: "snapshotResponse \<Rightarrow> json" where
  "snapshot_response_json v = (let sn = snr_Snapshot v in JObj (outer_header v @ jfield ''snapshot'' (JObj (snapshot_header sn
     @ jfield ''folders'' (slice_json folder_state_json (asn_Folders sn))
     @ jfield ''messages'' (slice_json authority_message_json (asn_Messages sn))
     @ jfield ''states'' (slice_json message_state_json (asn_States sn))))))"

section \<open>The bounded encoder\<close>

record boundedSnapshotJSON =
  bj_chunks :: "bytes list"
  bj_size :: nat
  bj_limit :: nat

text \<open>\<open>None\<close> is \<^verbatim>\<open>errSnapshotResponseTooLarge\<close>; marshalling these structs does not fail.\<close>

definition appendChunk :: "bytes \<Rightarrow> boundedSnapshotJSON \<Rightarrow> boundedSnapshotJSON option" where
  "appendChunk chunk e =
     (if int (length chunk) > int (bj_limit e) - int (bj_size e) then None
      else Some (e\<lparr>bj_chunks := bj_chunks e @ [chunk], bj_size := bj_size e + length chunk\<rparr>))"

definition appendLiteral :: "bytes \<Rightarrow> boundedSnapshotJSON \<Rightarrow> boundedSnapshotJSON option" where
  "appendLiteral v = appendChunk v"

text \<open>A marshalled struct is an object, so the test of its first and last byte passes.\<close>

definition appendObjectPrefix :: "(bytes \<times> json) list \<Rightarrow> boundedSnapshotJSON \<Rightarrow> boundedSnapshotJSON option" where
  "appendObjectPrefix members = appendChunk (butlast (json_text (JObj members)))"

definition andThen :: "('a \<Rightarrow> 'a option) \<Rightarrow> ('a \<Rightarrow> 'a option) \<Rightarrow> 'a \<Rightarrow> 'a option" where
  "andThen f g e = (case f e of None \<Rightarrow> None | Some e' \<Rightarrow> g e')"

fun append_items :: "('a \<Rightarrow> json) \<Rightarrow> bool \<Rightarrow> 'a list \<Rightarrow> boundedSnapshotJSON \<Rightarrow> boundedSnapshotJSON option" where
  "append_items f first [] = Some"
| "append_items f first (x # xs) =
     andThen (if \<not> first then appendLiteral '','' else Some)
       (andThen (appendChunk (json_text (f x))) (append_items f False xs))"

definition appendSnapshotArray :: "('a \<Rightarrow> json) \<Rightarrow> 'a slice \<Rightarrow> boundedSnapshotJSON \<Rightarrow> boundedSnapshotJSON option" where
  "appendSnapshotArray f xs =
     (case xs of None \<Rightarrow> appendLiteral ''null''
      | Some l \<Rightarrow> andThen (appendLiteral ''['') (andThen (append_items f True l) (appendLiteral '']'')))"

definition encode_steps :: "snapshotResponse \<Rightarrow> boundedSnapshotJSON \<Rightarrow> boundedSnapshotJSON option" where
  "encode_steps v = (let sn = snr_Snapshot v in
     andThen (appendObjectPrefix (outer_header v))
     (andThen (appendLiteral ('',''  @ [CHR 0x22] @ ''snapshot'' @ [CHR 0x22] @ '':''))
     (andThen (appendObjectPrefix (snapshot_header sn))
     (andThen (appendLiteral ('','' @ [CHR 0x22] @ ''folders'' @ [CHR 0x22] @ '':''))
     (andThen (appendSnapshotArray folder_state_json (asn_Folders sn))
     (andThen (appendLiteral ('','' @ [CHR 0x22] @ ''messages'' @ [CHR 0x22] @ '':''))
     (andThen (appendSnapshotArray authority_message_json (asn_Messages sn))
     (andThen (appendLiteral ('','' @ [CHR 0x22] @ ''states'' @ [CHR 0x22] @ '':''))
     (andThen (appendSnapshotArray message_state_json (asn_States sn))
     (appendLiteral [CHR 0x7D, CHR 0x7D, CHR 0x0A]))))))))))"

definition encodeBoundedSnapshotJSON :: "snapshotResponse \<Rightarrow> nat \<Rightarrow> boundedSnapshotJSON option" where
  "encodeBoundedSnapshotJSON v limit =
     (if limit = 0 then None else encode_steps v \<lparr>bj_chunks = [], bj_size = 0, bj_limit = limit\<rparr>)"

text \<open>What \<^verbatim>\<open>writeTo\<close> sends: the chunks in order.\<close>

definition writeTo :: "boundedSnapshotJSON \<Rightarrow> bytes" where
  "writeTo e = concat (bj_chunks e)"

section \<open>The handler\<close>

record Handler =
  hn_tokenHash :: bytes
  hn_target :: AuthorityTarget

text \<open>
  A request as \<^verbatim>\<open>net/http\<close> delivers it. \<open>hq_MediaType\<close> is what \<^verbatim>\<open>mime.ParseMediaType\<close> makes of the content
  type; the body is given by what \<^verbatim>\<open>decodeStrict\<close> makes of it for each of the request structs, \<open>None\<close>
  where it fails (not one JSON value, an unknown field, or more than the limit of bytes).
\<close>

record http_request =
  hq_Method :: bytes
  hq_Authorization :: bytes
  hq_RawQuery :: bytes
  hq_MediaType :: "bytes option"
  hq_Path :: bytes
  hq_capability :: "capabilityRequest option"
  hq_store :: "storeRequest option"
  hq_snapshot :: "snapshotRequest option"
  hq_state :: "stateRequest option"

datatype authority_body =
    ErrorBody bytes
  | CapabilityBody capabilityResponse
  | StoreBody storeResponse
  | SnapshotBody bytes
  | StateBody stateResponse

record http_response =
  hr_Status :: nat
  hr_Body :: authority_body

definition writeError :: "nat \<Rightarrow> bytes \<Rightarrow> http_response" where
  "writeError status code = \<lparr>hr_Status = status, hr_Body = ErrorBody code\<rparr>"

definition writeJSON :: "authority_body \<Rightarrow> http_response" where
  "writeJSON b = \<lparr>hr_Status = 200, hr_Body = b\<rparr>"

definition authorized :: "Handler \<Rightarrow> bytes \<Rightarrow> bool" where
  "authorized h header =
     (if \<not> has_prefix header ''Bearer '' \<or> length header \<le> length ''Bearer '' \<or> length header > length ''Bearer '' + 16 * 1024 then False
      else sha256 (trim_prefix header ''Bearer '') = hn_tokenHash h)"

definition isJSONContentType :: "http_request \<Rightarrow> bool" where
  "isJSONContentType q = (hq_MediaType q = Some ''application/json'')"

definition handle_capabilities :: "Handler \<Rightarrow> 's Engine \<Rightarrow> http_request \<Rightarrow> 's \<Rightarrow> http_response \<times> 's" where
  "handle_capabilities h engine q s =
     (case hq_capability q of
        None \<Rightarrow> (writeError 400 ''InvalidTarget'', s)
      | Some input \<Rightarrow>
          if cq_Version input \<noteq> ProtocolVersion \<or> cq_Target input \<noteq> hn_target h then (writeError 400 ''InvalidTarget'', s)
          else (case en_Capabilities engine s of
              (Inr c, s') \<Rightarrow>
                if \<not> supports c (hn_target h) then (writeError 502 ''ProviderUnavailable'', s')
                else (writeJSON (CapabilityBody \<lparr>cqr_Version = ProtocolVersion, cqr_ProviderID = at_ProviderID (hn_target h),
                  cqr_Target = hn_target h, cqr_Capabilities = c\<rparr>), s')
            | (Inl e, s') \<Rightarrow> (writeError 502 ''ProviderUnavailable'', s')))"

definition receipt_ok :: "AuthorityTarget \<Rightarrow> storeRequest \<Rightarrow> Receipt \<Rightarrow> bool" where
  "receipt_ok target input r = (rct_Target r = target \<and> rct_Verified r
     \<and> rct_Fingerprint r = sourceFingerprint (stq_RecipientDID input) (pl_SourceKey (stq_Placement input)) (stq_MessageRaw input)
     \<and> rct_SHA256 r = rawSHA256 (stq_MessageRaw input) \<and> rct_Size r = int (length (stq_MessageRaw input)))"

definition handle_store :: "Handler \<Rightarrow> 's Engine \<Rightarrow> http_request \<Rightarrow> 's \<Rightarrow> http_response \<times> 's" where
  "handle_store h engine q s =
     (case hq_store q of
        None \<Rightarrow> (writeError 400 ''InvalidRequest'', s)
      | Some input \<Rightarrow>
          if stq_Version input \<noteq> ProtocolVersion \<or> stq_Target input \<noteq> hn_target h
            \<or> stq_RecipientDID input \<noteq> at_RepoDID (hn_target h) \<or> length (stq_MessageRaw input) = 0
            \<or> length (stq_MessageRaw input) > MaxRawMessageBytes \<or> \<not> validPlacement (stq_Placement input)
          then (writeError 400 ''InvalidRequest'', s)
          else (case en_Store engine \<lparr>sin_RecipientDID = stq_RecipientDID input, sin_Placement = stq_Placement input,
                sin_Raw = stq_MessageRaw input\<rparr> s of
              (Inr r, s') \<Rightarrow>
                if \<not> receipt_ok (hn_target h) input r then (writeError 502 ''StoreFailed'', s')
                else (writeJSON (StoreBody \<lparr>stqr_Version = ProtocolVersion, stqr_ProviderID = at_ProviderID (hn_target h),
                  stqr_Target = hn_target h, stqr_Receipt = r\<rparr>), s')
            | (Inl e, s') \<Rightarrow> (writeError 502 ''StoreFailed'', s')))"

definition handle_snapshot :: "Handler \<Rightarrow> 's Engine \<Rightarrow> http_request \<Rightarrow> 's \<Rightarrow> http_response \<times> 's" where
  "handle_snapshot h engine q s =
     (case hq_snapshot q of
        None \<Rightarrow> (writeError 400 ''InvalidTarget'', s)
      | Some input \<Rightarrow>
          if snq_Version input \<noteq> ProtocolVersion \<or> snq_Target input \<noteq> hn_target h then (writeError 400 ''InvalidTarget'', s)
          else (case en_Snapshot engine s of
              (Inl e, s') \<Rightarrow> (writeError 502 ''SnapshotFailed'', s')
            | (Inr sn, s') \<Rightarrow>
                if \<not> validSnapshot sn (hn_target h) then (writeError 502 ''SnapshotFailed'', s')
                else (case encodeBoundedSnapshotJSON \<lparr>snr_Version = ProtocolVersion, snr_ProviderID = at_ProviderID (hn_target h),
                    snr_Target = hn_target h, snr_Snapshot = sn\<rparr> maxSnapshotResponseBytes of
                    None \<Rightarrow> (writeError 502 ''SnapshotTooLarge'', s')
                  | Some encoded \<Rightarrow> (writeJSON (SnapshotBody (writeTo encoded)), s'))))"

definition handle_appendState :: "Handler \<Rightarrow> 's Engine \<Rightarrow> http_request \<Rightarrow> 's \<Rightarrow> http_response \<times> 's" where
  "handle_appendState h engine q s =
     (case hq_state q of
        None \<Rightarrow> (writeError 400 ''InvalidRequest'', s)
      | Some input \<Rightarrow>
          if saq_Version input \<noteq> ProtocolVersion \<or> saq_Target input \<noteq> hn_target h \<or> \<not> authority_validMutation (saq_Mutation input)
          then (writeError 400 ''InvalidRequest'', s)
          else (case en_AppendState engine (saq_Mutation input) s of
              (Inl e, s') \<Rightarrow> (if errors_Is e ErrAppendConflict then writeError 409 ''Conflict'' else writeError 502 ''AppendFailed'', s')
            | (Inr st, s') \<Rightarrow>
                if \<not> validMutationResult (saq_Mutation input) st then (writeError 502 ''AppendFailed'', s')
                else (writeJSON (StateBody \<lparr>sar_Version = ProtocolVersion, sar_ProviderID = at_ProviderID (hn_target h),
                  sar_Target = hn_target h, sar_OperationID = smu_OperationID (saq_Mutation input), sar_State = st\<rparr>), s')))"

definition ServeHTTP :: "Handler \<Rightarrow> 's Engine \<Rightarrow> http_request \<Rightarrow> 's \<Rightarrow> http_response \<times> 's" where
  "ServeHTTP h engine q s =
     (if hq_Method q \<noteq> ''POST'' then (writeError 405 ''MethodNotAllowed'', s)
      else if \<not> authorized h (hq_Authorization q) then (writeError 401 ''Unauthorized'', s)
      else if hq_RawQuery q \<noteq> [] \<or> \<not> isJSONContentType q then (writeError 400 ''InvalidRequest'', s)
      else if hq_Path q = ''/v3/capabilities'' then handle_capabilities h engine q s
      else if hq_Path q = ''/v3/messages/store'' then handle_store h engine q s
      else if hq_Path q = ''/v3/snapshot'' then handle_snapshot h engine q s
      else if hq_Path q = ''/v3/state/append'' then handle_appendState h engine q s
      else (writeError 404 ''NotFound'', s))"

section \<open>The bounded encoder writes the document\<close>

text \<open>
  A step of the encoder appends exactly a given text, or fails because the text does not fit.
  Steps compose; the document is the composition of its steps.
\<close>

definition emits :: "(boundedSnapshotJSON \<Rightarrow> boundedSnapshotJSON option) \<Rightarrow> bytes \<Rightarrow> bool" where
  "emits f t \<longleftrightarrow> (\<forall>e. bj_size e \<le> bj_limit e \<longrightarrow>
     (case f e of
        None \<Rightarrow> bj_limit e < bj_size e + length t
      | Some e' \<Rightarrow> bj_size e' = bj_size e + length t \<and> bj_limit e' = bj_limit e \<and> bj_size e' \<le> bj_limit e'
          \<and> writeTo e' = writeTo e @ t))"

named_theorems emits_intros \<open>the text that a step of the encoder appends\<close>

lemma emits_appendChunk [emits_intros]: "emits (appendChunk t) t"
  by (auto simp: emits_def appendChunk_def writeTo_def)

lemma emits_appendLiteral [emits_intros]: "emits (appendLiteral t) t"
  by (simp add: appendLiteral_def emits_appendChunk)

lemma emits_Some [emits_intros]: "emits Some []"
  by (simp add: emits_def)

lemma emits_andThen [emits_intros]:
  assumes "emits f t" and "emits g u"
  shows "emits (andThen f g) (t @ u)"
  unfolding emits_def
proof (intro allI impI)
  fix e :: boundedSnapshotJSON
  assume "bj_size e \<le> bj_limit e"
  then have f: "case f e of None \<Rightarrow> bj_limit e < bj_size e + length t
      | Some e' \<Rightarrow> bj_size e' = bj_size e + length t \<and> bj_limit e' = bj_limit e \<and> bj_size e' \<le> bj_limit e'
          \<and> writeTo e' = writeTo e @ t"
    using assms(1) by (simp add: emits_def)
  show "case andThen f g e of None \<Rightarrow> bj_limit e < bj_size e + length (t @ u)
      | Some e' \<Rightarrow> bj_size e' = bj_size e + length (t @ u) \<and> bj_limit e' = bj_limit e \<and> bj_size e' \<le> bj_limit e'
          \<and> writeTo e' = writeTo e @ (t @ u)"
  proof (cases "f e")
    case (Some e1)
    then have "case g e1 of None \<Rightarrow> bj_limit e1 < bj_size e1 + length u
      | Some e' \<Rightarrow> bj_size e' = bj_size e1 + length u \<and> bj_limit e' = bj_limit e1 \<and> bj_size e' \<le> bj_limit e'
          \<and> writeTo e' = writeTo e1 @ u"
      using f assms(2) by (simp add: emits_def)
    then show ?thesis using Some f by (auto simp: andThen_def split: option.splits)
  qed (use f in \<open>simp add: andThen_def\<close>)
qed

lemma intercalate_Cons: "intercalate sep (x # xs) = x @ (if xs = [] then [] else sep @ intercalate sep xs)"
  by (cases xs) simp_all

lemma emits_append_items:
  "emits (append_items f first xs)
     ((if first \<or> xs = [] then [] else '','') @ intercalate '','' (map (\<lambda>x. json_text (f x)) xs))"
proof (induction xs arbitrary: first)
  case (Cons x xs)
  have "emits (if \<not> first then appendLiteral '','' else Some) (if first then [] else '','')"
    by (simp add: emits_intros)
  from emits_andThen [OF this emits_andThen [OF emits_appendChunk [of "json_text (f x)"] Cons.IH [of False]]]
  show ?case by (cases first; cases "xs = []") (simp_all add: intercalate_Cons)
qed (simp add: emits_Some)

lemma emits_appendSnapshotArray [emits_intros]: "emits (appendSnapshotArray f xs) (json_text (slice_json f xs))"
proof (cases xs)
  case (Some l)
  have "emits (append_items f True l) (intercalate '','' (map (\<lambda>x. json_text (f x)) l))"
    using emits_append_items [of f True l] by simp
  from emits_andThen [OF emits_appendLiteral [of "''[''"] emits_andThen [OF this emits_appendLiteral [of "'']''"]]]
  show ?thesis using Some by (simp add: appendSnapshotArray_def slice_json_def comp_def)
qed (simp add: appendSnapshotArray_def slice_json_def emits_appendLiteral)

lemma emits_appendObjectPrefix [emits_intros]:
  "emits (appendObjectPrefix ms) (butlast (json_text (JObj ms)))"
  by (simp add: appendObjectPrefix_def emits_appendChunk)

lemma intercalate_snoc: "xs \<noteq> [] \<Longrightarrow> intercalate sep (xs @ [x]) = intercalate sep xs @ sep @ x"
  by (induction xs rule: list_nonempty_induct) (auto simp: intercalate_Cons)

lemma json_text_snoc:
  assumes "ms \<noteq> []"
  shows "json_text (JObj (ms @ [(k, v)])) =
    butlast (json_text (JObj ms)) @ '','' @ json_quote k @ '':'' @ json_text v @ [CHR 0x7D]"
  using assms by (simp add: intercalate_snoc butlast_append)

lemma quoted_keys:
  "json_quote ''snapshot'' = CHR 0x22 # ''snapshot'' @ [CHR 0x22]" "json_quote ''folders'' = CHR 0x22 # ''folders'' @ [CHR 0x22]"
  "json_quote ''messages'' = CHR 0x22 # ''messages'' @ [CHR 0x22]" "json_quote ''states'' = CHR 0x22 # ''states'' @ [CHR 0x22]"
  by code_simp+

lemma snapshot_document:
  defines "k \<equiv> \<lambda>n. '','' @ [CHR 0x22] @ n @ [CHR 0x22] @ '':''"
  shows "butlast (json_text (JObj (outer_header v))) @ k ''snapshot'' @ butlast (json_text (JObj (snapshot_header (snr_Snapshot v))))
      @ k ''folders'' @ json_text (slice_json folder_state_json (asn_Folders (snr_Snapshot v))) @ k ''messages''
      @ json_text (slice_json authority_message_json (asn_Messages (snr_Snapshot v))) @ k ''states''
      @ json_text (slice_json message_state_json (asn_States (snr_Snapshot v))) @ [CHR 0x7D, CHR 0x7D, CHR 0x0A]
    = json_text (snapshot_response_json v) @ [CHR 0x0A]"
proof -
  define sn where "sn = snr_Snapshot v"
  let ?f = "(''folders'', slice_json folder_state_json (asn_Folders sn))"
  let ?m = "(''messages'', slice_json authority_message_json (asn_Messages sn))"
  let ?s = "(''states'', slice_json message_state_json (asn_States sn))"
  have outer: "outer_header v \<noteq> []" and inner: "snapshot_header sn \<noteq> []"
    by (simp_all add: outer_header_def snapshot_header_def jfield_def)
  have doc: "snapshot_response_json v = JObj (outer_header v @ [(''snapshot'', JObj (((snapshot_header sn @ [?f]) @ [?m]) @ [?s]))])"
    by (simp add: snapshot_response_json_def Let_def sn_def jfield_def)
  have parts: "json_text (JObj (((snapshot_header sn @ [?f]) @ [?m]) @ [?s])) =
      butlast (json_text (JObj (snapshot_header sn))) @ k ''folders'' @ json_text (snd ?f) @ k ''messages'' @ json_text (snd ?m)
        @ k ''states'' @ json_text (snd ?s) @ [CHR 0x7D]"
    using inner by (simp only: json_text_snoc append_is_Nil_conv not_Cons_self2 simp_thms quoted_keys butlast_append k_def) simp
  show ?thesis unfolding doc json_text_snoc [OF outer] parts quoted_keys sn_def [symmetric] by (simp add: k_def)
qed

lemma emits_encode_steps: "emits (encode_steps v) (json_text (snapshot_response_json v) @ [CHR 0x0A])"
  unfolding encode_steps_def Let_def snapshot_document [symmetric] by (intro emits_intros)

lemma snapshot_written:
  "case encodeBoundedSnapshotJSON v limit of
     None \<Rightarrow> limit < length (json_text (snapshot_response_json v) @ [CHR 0x0A])
   | Some e \<Rightarrow> writeTo e = json_text (snapshot_response_json v) @ [CHR 0x0A] \<and> length (writeTo e) \<le> limit"
proof (cases "limit = 0")
  case False
  from emits_encode_steps [of v, unfolded emits_def, rule_format, of "\<lparr>bj_chunks = [], bj_size = 0, bj_limit = limit\<rparr>"]
  show ?thesis using False by (auto simp: encodeBoundedSnapshotJSON_def writeTo_def split: option.splits)
qed (simp add: encodeBoundedSnapshotJSON_def)

text \<open>C25. A snapshot that is encoded item by item is written exactly as if its whole document had been
  marshalled at once and ended with a newline, and the encoder refuses exactly the snapshots whose
  document would exceed the limit.\<close>

theorem encodeBoundedSnapshotJSON_exact:
  "case encodeBoundedSnapshotJSON v limit of
     None \<Rightarrow> limit < length (json_text (snapshot_response_json v) @ [CHR 0x0A])
   | Some e \<Rightarrow> writeTo e = json_text (snapshot_response_json v) @ [CHR 0x0A] \<and> length (writeTo e) \<le> limit"
  by (rule snapshot_written)

section \<open>What a valid snapshot is\<close>

definition authority_roles :: "bytes set" where
  "authority_roles = {''archive'', ''drafts'', ''important'', ''inbox'', ''junk'', ''sent'', ''trash''}"

definition folder_role_ok :: "AuthorityTarget \<Rightarrow> FolderState \<Rightarrow> bool" where
  "folder_role_ok target f \<longleftrightarrow> (fst_Role f \<noteq> [] \<longrightarrow>
     fst_FolderID f = standardFolderID (at_RepoDID target) (fst_Role f) \<and> fst_Name f = standardFolderName (fst_Role f))"

text \<open>
  The specification: a snapshot of the target whose folders, messages and states are each well formed
  and carry the digests of their contents, in which no two entries share an identity, every standard role
  has its folder, all message bytes fit the limit, every logical message that has a version has exactly
  one state and every state selects a version of its own message, and live states name live folders.
\<close>

definition snapshot_consistent :: "AuthoritySnapshot \<Rightarrow> AuthorityTarget \<Rightarrow> bool" where
  "snapshot_consistent sn target \<longleftrightarrow>
     (let fs = elems (asn_Folders sn); ms = elems (asn_Messages sn); sts = elems (asn_States sn) in
       asn_Version sn = ProtocolVersion \<and> asn_Target sn = target \<and> authority_validText (asn_Revision sn) 512
     \<and> validPrefixedSHA256 (asn_SnapshotID sn) ''sha256-'' \<and> validPrefixedSHA256 (asn_ManifestSHA256 sn) ''sha256-''
     \<and> length fs \<le> maxFolders \<and> length ms \<le> maxMessages \<and> length sts \<le> maxMessages
     \<and> (\<forall>f \<in> set fs. folder_entry_ok (asn_SnapshotID sn) f \<and> folder_role_ok target f)
     \<and> distinct (map fst_FolderID fs) \<and> (\<forall>r \<in> authority_roles. \<exists>f \<in> set fs. fst_Role f = r)
     \<and> (\<forall>m \<in> set ms. message_entry_ok target 0 m) \<and> distinct (map am_RKey ms)
     \<and> int (sum_list (map (\<lambda>m. length (am_Raw m)) ms)) \<le> maxSnapshotBytes
     \<and> (\<forall>st \<in> set sts. state_entry_ok (asn_SnapshotID sn) (map (\<lambda>m. (am_RKey m, m)) ms) st)
     \<and> distinct (map mst_LogicalMessageID sts) \<and> mst_LogicalMessageID ` set sts = am_LogicalMessageID ` set ms
     \<and> (\<forall>st \<in> set sts. \<not> mst_Tombstone st \<longrightarrow>
          (\<forall>i \<in> set (elems (mst_MailboxIDs st)). \<exists>f \<in> set fs. fst_FolderID f = i \<and> \<not> fst_Tombstone f)))"

lemma update_fresh: "map_of xs k = None \<Longrightarrow> AList.update k v xs = xs @ [(k, v)]"
  by (induction xs) (auto split: if_splits)

lemma not_in_image: "k \<notin> g ` A \<longleftrightarrow> (\<forall>x \<in> A. g x \<noteq> k)"
  by auto

lemma check_snapshot_folders_iff:
  "check_snapshot_folders target sid fs folders roles = Some r \<longleftrightarrow>
     (\<forall>f \<in> set fs. folder_entry_ok sid f \<and> folder_role_ok target f)
     \<and> distinct (map fst_FolderID fs) \<and> (\<forall>f \<in> set fs. fst_FolderID f \<notin> fst ` set folders)
     \<and> distinct (filter (\<lambda>x. x \<noteq> []) (map fst_Role fs)) \<and> (\<forall>f \<in> set fs. fst_Role f \<noteq> [] \<longrightarrow> fst_Role f \<notin> set roles)
     \<and> r = (folders @ map (\<lambda>f. (fst_FolderID f, f)) fs, rev (filter (\<lambda>x. x \<noteq> []) (map fst_Role fs)) @ roles)"
proof (induction fs arbitrary: folders roles)
  case (Cons f fs)
  consider "\<not> folder_entry_ok sid f \<or> \<not> folder_role_ok target f \<or> map_of folders (fst_FolderID f) \<noteq> None
      \<or> (fst_Role f \<noteq> [] \<and> fst_Role f \<in> set roles)"
    | "folder_entry_ok sid f" "folder_role_ok target f" "map_of folders (fst_FolderID f) = None" "fst_Role f = []"
    | "folder_entry_ok sid f" "folder_role_ok target f" "map_of folders (fst_FolderID f) = None" "fst_Role f \<noteq> []" "fst_Role f \<notin> set roles"
    by blast
  then show ?case
  proof cases
    case 1
    then have "check_snapshot_folders target sid (f # fs) folders roles = None"
      by (elim disjE conjE) (simp_all add: Let_def folder_role_ok_def)
    then show ?thesis using 1 unfolding map_of_eq_None_iff by (simp del: check_snapshot_folders.simps) blast
  next
    case 2
    then have "check_snapshot_folders target sid (f # fs) folders roles =
        check_snapshot_folders target sid fs (folders @ [(fst_FolderID f, f)]) roles"
      by (simp add: update_fresh)
    then show ?thesis using 2 by (simp add: Cons.IH map_of_eq_None_iff not_in_image ball_conj_distrib del: check_snapshot_folders.simps) blast?
  next
    case 3
    then have "check_snapshot_folders target sid (f # fs) folders roles =
        check_snapshot_folders target sid fs (folders @ [(fst_FolderID f, f)]) (fst_Role f # roles)"
      by (simp add: update_fresh folder_role_ok_def)
    moreover have "(\<forall>x \<in> set fs. fst_Role x \<noteq> [] \<longrightarrow> fst_Role x \<noteq> fst_Role f \<and> P x) \<longleftrightarrow>
        (\<forall>x \<in> set fs. fst_Role x \<noteq> fst_Role f) \<and> (\<forall>x \<in> set fs. fst_Role x \<noteq> [] \<longrightarrow> P x)" for P
      using 3(4) by auto
    ultimately show ?thesis using 3 by (simp add: Cons.IH map_of_eq_None_iff not_in_image ball_conj_distrib del: check_snapshot_folders.simps) blast?
  qed
qed auto

lemma message_entry_used:
  "message_entry_ok target used m \<longleftrightarrow> message_entry_ok target 0 m \<and> used + int (length (am_Raw m)) \<le> maxSnapshotBytes" if "0 \<le> used"
  using that by (auto simp: message_entry_ok_def)

definition count_logical :: "int gomap \<Rightarrow> AuthorityMessage \<Rightarrow> int gomap" where
  "count_logical l m = AList.update (am_LogicalMessageID m)
     ((case map_of l (am_LogicalMessageID m) of None \<Rightarrow> 0 | Some n \<Rightarrow> n) + 1) l"

lemma keys_count_logical:
  "set (map fst (foldl count_logical l ms)) = set (map fst l) \<union> am_LogicalMessageID ` set ms"
  "distinct (map fst l) \<Longrightarrow> distinct (map fst (foldl count_logical l ms))"
  by (induction ms arbitrary: l) (auto simp: count_logical_def update_keys dom_update distinct_update)

lemma check_snapshot_messages_iff:
  "0 \<le> used \<Longrightarrow> used \<le> maxSnapshotBytes \<Longrightarrow> check_snapshot_messages target ms used versions logical = Some r \<longleftrightarrow>
     (\<forall>m \<in> set ms. message_entry_ok target 0 m) \<and> distinct (map am_RKey ms) \<and> (\<forall>m \<in> set ms. am_RKey m \<notin> fst ` set versions)
     \<and> used + int (sum_list (map (\<lambda>m. length (am_Raw m)) ms)) \<le> maxSnapshotBytes
     \<and> r = (versions @ map (\<lambda>m. (am_RKey m, m)) ms, foldl count_logical logical ms)"
proof (induction ms arbitrary: used versions logical)
  case (Cons m ms)
  note used = message_entry_used [OF Cons.prems(1)]
  consider "\<not> message_entry_ok target used m" | "map_of versions (am_RKey m) \<noteq> None"
    | "message_entry_ok target used m" "map_of versions (am_RKey m) = None" by blast
  then show ?case
  proof cases
    case 1
    then show ?thesis by (simp add: used) linarith?
  next
    case 2
    then have "check_snapshot_messages target (m # ms) used versions logical = None" by simp
    then show ?thesis using 2 unfolding map_of_eq_None_iff by (simp del: check_snapshot_messages.simps)
  next
    case 3
    then have "check_snapshot_messages target (m # ms) used versions logical =
        check_snapshot_messages target ms (used + int (length (am_Raw m))) (versions @ [(am_RKey m, m)]) (count_logical logical m)"
      by (simp add: update_fresh count_logical_def)
    moreover have "used + int (length (am_Raw m)) \<le> maxSnapshotBytes" "message_entry_ok target 0 m" using 3 used by simp_all
    ultimately show ?thesis using 3 Cons.prems
      by (simp add: Cons.IH map_of_eq_None_iff not_in_image ball_conj_distrib add.assoc del: check_snapshot_messages.simps) blast?
  qed
qed auto

lemma check_snapshot_states_iff:
  "check_snapshot_states sid folders versions sts states = Some r \<longleftrightarrow>
     (\<forall>st \<in> set sts. state_entry_ok sid versions st \<and> (\<not> mst_Tombstone st \<longrightarrow>
        (\<forall>i \<in> set (elems (mst_MailboxIDs st)). \<exists>f. map_of folders i = Some f \<and> \<not> fst_Tombstone f)))
     \<and> distinct (map mst_LogicalMessageID sts) \<and> set (map mst_LogicalMessageID sts) \<inter> set states = {}
     \<and> r = rev (map mst_LogicalMessageID sts) @ states"
proof (induction sts arbitrary: states)
  case (Cons st sts)
  have "list_ex (\<lambda>f. case map_of folders f of None \<Rightarrow> True | Some folder \<Rightarrow> fst_Tombstone folder) (elems (mst_MailboxIDs st)) \<longleftrightarrow>
      \<not> (\<forall>i \<in> set (elems (mst_MailboxIDs st)). \<exists>f. map_of folders i = Some f \<and> \<not> fst_Tombstone f)"
    by (auto simp: list_ex_iff split: option.splits)
  then show ?case by (simp add: Cons.IH) auto
qed auto

lemma map_of_keyed:
  "distinct (map f xs) \<Longrightarrow> map_of (map (\<lambda>x. (f x, x)) xs) k = Some x \<longleftrightarrow> x \<in> set xs \<and> f x = k"
  by (subst map_of_eq_Some_iff) (auto simp: comp_def)

lemma filled_roles:
  assumes "\<forall>f \<in> set fs. validRole (fst_Role f)" and "distinct (filter (\<lambda>x. x \<noteq> []) (map fst_Role fs))"
  shows "length (filter (\<lambda>x. x \<noteq> []) (map fst_Role fs)) = 7 \<longleftrightarrow> (\<forall>r \<in> authority_roles. \<exists>f \<in> set fs. fst_Role f = r)"
proof -
  let ?rs = "set (filter (\<lambda>x. x \<noteq> []) (map fst_Role fs))"
  have sub: "?rs \<subseteq> authority_roles" using assms(1) by (auto simp: validRole_def authority_roles_def)
  have seven: "card authority_roles = 7" "finite authority_roles" "[] \<notin> authority_roles" by (simp_all add: authority_roles_def)
  have "length (filter (\<lambda>x. x \<noteq> []) (map fst_Role fs)) = card ?rs" using distinct_card [OF assms(2)] by simp
  also have "\<dots> = 7 \<longleftrightarrow> ?rs = authority_roles"
    using sub seven card_subset_eq by metis
  also have "\<dots> \<longleftrightarrow> authority_roles \<subseteq> ?rs" using sub by blast
  also have "\<dots> \<longleftrightarrow> (\<forall>r \<in> authority_roles. \<exists>f \<in> set fs. fst_Role f = r)" using seven(3) by auto
  finally show ?thesis .
qed

lemma roles_distinct:
  assumes "distinct (map fst_FolderID fs)" and "\<forall>f \<in> set fs. folder_role_ok target f"
  shows "distinct (filter (\<lambda>x. x \<noteq> []) (map fst_Role fs))"
  using assms
proof (induction fs)
  case (Cons f fs)
  have "fst_Role f \<noteq> [] \<Longrightarrow> fst_Role f \<notin> fst_Role ` set fs"
    using Cons.prems by (auto simp: folder_role_ok_def) (metis image_eqI)
  then show ?case using Cons by (auto)
qed simp

lemma states_cover:
  assumes "distinct states" and "distinct (map fst logical)"
  shows "(length states = length logical \<and> list_all (\<lambda>l. l \<in> set states) (map fst logical)) \<longleftrightarrow> set states = fst ` set logical"
proof -
  have "length states = card (set states)" "length logical = card (fst ` set logical)"
    using distinct_card [OF assms(1)] distinct_card [OF assms(2)] by simp_all
  moreover have "list_all (\<lambda>l. l \<in> set states) (map fst logical) \<longleftrightarrow> fst ` set logical \<subseteq> set states"
    by (auto simp: list_all_iff)
  ultimately show ?thesis using card_subset_eq [of "set states" "fst ` set logical"] by auto
qed

lemma validSnapshot_parts:
  "validSnapshot sn target \<longleftrightarrow>
     (asn_Version sn = ProtocolVersion \<and> asn_Target sn = target \<and> authority_validText (asn_Revision sn) 512
      \<and> validPrefixedSHA256 (asn_SnapshotID sn) ''sha256-'' \<and> validPrefixedSHA256 (asn_ManifestSHA256 sn) ''sha256-''
      \<and> length (elems (asn_Folders sn)) \<le> maxFolders \<and> length (elems (asn_Messages sn)) \<le> maxMessages
      \<and> length (elems (asn_States sn)) \<le> maxMessages)
     \<and> (\<exists>folders roles. check_snapshot_folders target (asn_SnapshotID sn) (elems (asn_Folders sn)) [] [] = Some (folders, roles)
         \<and> length roles = 7
     \<and> (\<exists>versions logical. check_snapshot_messages target (elems (asn_Messages sn)) 0 [] [] = Some (versions, logical)
     \<and> (\<exists>states. check_snapshot_states (asn_SnapshotID sn) folders versions (elems (asn_States sn)) [] = Some states
         \<and> length states = length logical \<and> list_all (\<lambda>l. l \<in> set states) (keys logical))))"
  unfolding validSnapshot_def by (auto split: option.splits)

lemma folder_entry_role: "folder_entry_ok sid f \<Longrightarrow> validRole (fst_Role f)"
  by (simp add: folder_entry_ok_def)

lemma validSnapshot_iff: "validSnapshot sn target \<longleftrightarrow> snapshot_consistent sn target"
proof -
  define fs ms sts where "fs = elems (asn_Folders sn)" and "ms = elems (asn_Messages sn)" and "sts = elems (asn_States sn)"
  define folders_ok where "folders_ok \<longleftrightarrow> (\<forall>f \<in> set fs. folder_entry_ok (asn_SnapshotID sn) f \<and> folder_role_ok target f)
    \<and> distinct (map fst_FolderID fs)"
  have max: "0 \<le> maxSnapshotBytes" by (simp add: maxSnapshotBytes_def)
  have roles: "distinct (filter (\<lambda>x. x \<noteq> []) (map fst_Role fs))"
      "length (filter (\<lambda>x. x \<noteq> []) (map fst_Role fs)) = 7 \<longleftrightarrow> (\<forall>r \<in> authority_roles. \<exists>f \<in> set fs. fst_Role f = r)"
    if "folders_ok"
    using that roles_distinct [of fs target] filled_roles [of fs] folder_entry_role unfolding folders_ok_def by blast+
  have cover: "(length (map mst_LogicalMessageID sts) = length (foldl count_logical [] ms)
      \<and> list_all (\<lambda>l. l \<in> set (map mst_LogicalMessageID sts)) (keys (foldl count_logical [] ms)))
      \<longleftrightarrow> mst_LogicalMessageID ` set sts = am_LogicalMessageID ` set ms"
    if "distinct (map mst_LogicalMessageID sts)"
    using states_cover [OF that keys_count_logical(2) [of "[]" ms]] keys_count_logical(1) [of "[]" ms] by simp
  have live: "(\<exists>f. map_of (map (\<lambda>f. (fst_FolderID f, f)) fs) i = Some f \<and> \<not> fst_Tombstone f) \<longleftrightarrow>
      (\<exists>f \<in> set fs. fst_FolderID f = i \<and> \<not> fst_Tombstone f)" if "distinct (map fst_FolderID fs)" for i
    using map_of_keyed [OF that] by blast
  show ?thesis
    unfolding validSnapshot_parts snapshot_consistent_def Let_def fs_def [symmetric] ms_def [symmetric] sts_def [symmetric]
      check_snapshot_folders_iff check_snapshot_messages_iff [OF order.refl max] check_snapshot_states_iff
    using roles cover live unfolding folders_ok_def by auto
qed

text \<open>C24. The handler's check of a snapshot, with its loops and the maps they build, accepts exactly the
  snapshots that satisfy the specification of a consistent mailbox.\<close>

theorem validSnapshot_exact: "validSnapshot sn target \<longleftrightarrow> snapshot_consistent sn target"
  by (rule validSnapshot_iff)

section \<open>The handler recomputes the digests of package mailboxstate\<close>

text \<open>The conversions \<^verbatim>\<open>MessageState(state)\<close> and \<^verbatim>\<open>FolderState(folder)\<close> between structs with the same fields.\<close>

definition state_of_reduced :: "ReducedState \<Rightarrow> MessageState" where
  "state_of_reduced st = \<lparr>mst_LogicalMessageID = rs_LogicalMessageID st, mst_SnapshotID = rs_SnapshotID st,
     mst_Version = rs_Version st, mst_MailboxIDs = rs_MailboxIDs st, mst_Keywords = rs_Keywords st,
     mst_DeletePending = rs_DeletePending st, mst_Tombstone = rs_Tombstone st, mst_Heads = rs_Heads st,
     mst_HeadsDigest = rs_HeadsDigest st, mst_StateDigest = rs_StateDigest st, mst_Height = rs_Height st,
     mst_RevisionCount = int (rs_RevisionCount st)\<rparr>"

definition folder_of_reduced :: "ReducedFolderState \<Rightarrow> FolderState" where
  "folder_of_reduced f = \<lparr>fst_FolderID = rf_FolderID f, fst_SnapshotID = rf_SnapshotID f, fst_Name = rf_Name f,
     fst_Role = rf_Role f, fst_Tombstone = rf_Tombstone f, fst_Heads = rf_Heads f, fst_HeadsDigest = rf_HeadsDigest f,
     fst_StateDigest = rf_StateDigest f, fst_Height = rf_Height f, fst_RevisionCount = int (rf_RevisionCount f)\<rparr>"

lemma aw_simps:
  "aw_boolean v = cw_boolean v" "aw_uint64 w = cw_uint64 w" "aw_string s = cw_string s" "aw_strings ss = cw_strings ss"
  "prefixedDigest s = digestBytes s"
proof -
  have string: "aw_string = cw_string" by (simp add: fun_eq_iff aw_string_def cw_string_def cw_len_def)
  then show "aw_string s = cw_string s" "aw_strings ss = cw_strings ss"
    by (simp_all add: aw_strings_def cw_strings_def cw_len_def)
  have "(char_of (Suc 0) :: char) = CHR 0x01" "(char_of (0 :: nat) :: char) = CHR 0x00" by code_simp+
  then show "aw_boolean v = cw_boolean v" by (simp add: aw_boolean_def cw_boolean_def cw_byte_def)
qed (simp_all add: aw_uint64_def cw_uint64_def prefixedDigest_def digestBytes_def)

lemma cw_uint64_count: "n < 2 ^ 64 \<Longrightarrow> cw_uint64 (word_of_nat n) = cw_len n"
  by (simp add: cw_uint64_def cw_len_def unat_of_nat)

lemma headsDigest_eq: "headsDigest domain heads = digestStringList domain heads"
  by (simp add: headsDigest_def digestStringList_def aw_simps)

lemma messageStateDigest_eq:
  "rs_RevisionCount st < 2 ^ 64 \<Longrightarrow> messageStateDigest (state_of_reduced st) = digestReducedState st"
  by (simp add: messageStateDigest_def digestReducedState_def reduced_preimage_def state_of_reduced_def aw_simps cw_uint64_count)

lemma folderStateDigest_eq:
  "rf_RevisionCount f < 2 ^ 64 \<Longrightarrow> folderStateDigest (folder_of_reduced f) = digestReducedFolderState f"
  by (simp add: folderStateDigest_def digestReducedFolderState_def reduced_folder_preimage_def folder_of_reduced_def aw_simps
      cw_uint64_count)

lemma standardFolderID_eq:
  "StandardFolderID sx did role = Inr fid \<Longrightarrow> standardFolderID did role = fid"
  by (auto simp: StandardFolderID_def standardFolderID_def standard_preimage_def aw_simps split: if_splits)

lemma sourceFingerprint_eq: "sourceFingerprint did key raw = deliveryFingerprint did key raw"
  by (simp add: sourceFingerprint_def deliveryFingerprint_def delivery_preimage_def fingerprintPrefix_def)

lemma logicalMessageID_eq: "logicalMessageID did key fp = LogicalMessageID did key fp"
  by (simp add: logicalMessageID_def LogicalMessageID_def fingerprintPrefix_def)

lemma rawSHA256_eq: "rawSHA256 raw = RawSHA256 raw"
  by (simp add: rawSHA256_def RawSHA256_def)

lemma authority_validText_eq: "authority_validText v n = validText v n"
  by (simp add: authority_validText_def validText_def)

lemmas handler_digests = headsDigest_eq messageStateDigest_eq folderStateDigest_eq sourceFingerprint_eq logicalMessageID_eq
  rawSHA256_eq authority_validText_eq

lemma validRawSHA256_hex: "validRawSHA256 v \<longleftrightarrow> (\<exists>d. length d = 32 \<and> v = hex_encode d)"
  using hex_decode_lower_hex lower_hex_to_lower [OF lower_hex_encode]
  by (fastforce simp: validRawSHA256_def split: option.splits)

lemma validPrefixedSHA256_hex: "validPrefixedSHA256 v p \<longleftrightarrow> (\<exists>d. length d = 32 \<and> v = p @ hex_encode d)"
proof
  assume v: "validPrefixedSHA256 v p"
  then obtain r where r: "v = p @ r" by (auto simp: validPrefixedSHA256_def elim: has_prefixE split: if_splits)
  with v show "\<exists>d. length d = 32 \<and> v = p @ hex_encode d" by (auto simp: validPrefixedSHA256_def validRawSHA256_hex)
qed (auto simp: validPrefixedSHA256_def validRawSHA256_hex)

lemma validPrefixedSHA256_digest [simp]: "validPrefixedSHA256 (p @ hex_encode (sha256 s)) p"
  unfolding validPrefixedSHA256_hex by (intro exI [of _ "sha256 s"]) simp

lemma validPrefixedSHA256_checks:
  "length v = length p + 64 \<and> has_prefix v p \<and> hex_decode (trim_prefix v p) \<noteq> None \<and> trim_prefix v p = to_lower (trim_prefix v p)
     \<longleftrightarrow> validPrefixedSHA256 v p"
proof (cases "has_prefix v p")
  case True
  then obtain r where "v = p @ r" by (rule has_prefixE)
  then show ?thesis using hex_decode_length [of r] by (auto simp: validPrefixedSHA256_def validRawSHA256_def split: option.splits)
qed (simp add: validPrefixedSHA256_def)

lemma validSHA256Identifier_eq: "validSHA256Identifier v \<longleftrightarrow> validPrefixedSHA256 v ''sha256-''"
  unfolding validPrefixedSHA256_checks [symmetric] validSHA256Identifier_def by (auto simp: Let_def)

lemma validFolderID_eq: "validFolderID v \<longleftrightarrow> validPrefixedSHA256 v ''folder-''"
  unfolding validPrefixedSHA256_checks [symmetric] validFolderID_def by (auto simp: Let_def)

section \<open>What an answer of the handler means\<close>

text \<open>
  The promise behind each body of a successful answer. A receipt names the target and the fingerprint,
  hash and size of the very bytes that were sent; a snapshot is the document of a consistent
  mailbox; a new state is the one the mutation asked for, one revision after the state it expected.
\<close>

fun answers :: "AuthorityTarget \<Rightarrow> http_request \<Rightarrow> authority_body \<Rightarrow> bool" where
  "answers t q (ErrorBody code) = False"
| "answers t q (CapabilityBody b) = (hq_Path q = ''/v3/capabilities'' \<and> cqr_Target b = t
     \<and> hq_capability q = Some \<lparr>cq_Version = 3, cq_Target = t\<rparr> \<and> supports (cqr_Capabilities b) t)"
| "answers t q (StoreBody b) = (hq_Path q = ''/v3/messages/store'' \<and> stqr_Target b = t
     \<and> (\<exists>input. hq_store q = Some input \<and> stq_Target input = t \<and> stq_RecipientDID input = at_RepoDID t
          \<and> stq_MessageRaw input \<noteq> [] \<and> length (stq_MessageRaw input) \<le> MaxRawMessageBytes \<and> validPlacement (stq_Placement input)
          \<and> stqr_Receipt b = \<lparr>rct_Target = t,
              rct_Fingerprint = deliveryFingerprint (at_RepoDID t) (pl_SourceKey (stq_Placement input)) (stq_MessageRaw input),
              rct_SHA256 = RawSHA256 (stq_MessageRaw input), rct_Size = int (length (stq_MessageRaw input)), rct_Verified = True\<rparr>))"
| "answers t q (SnapshotBody doc) = (hq_Path q = ''/v3/snapshot'' \<and> hq_snapshot q = Some \<lparr>snq_Version = 3, snq_Target = t\<rparr>
     \<and> length doc \<le> 134217728
     \<and> (\<exists>sn. snapshot_consistent sn t \<and> doc = json_text (snapshot_response_json
          \<lparr>snr_Version = 3, snr_ProviderID = at_ProviderID t, snr_Target = t, snr_Snapshot = sn\<rparr>) @ [CHR 0x0A]))"
| "answers t q (StateBody b) = (hq_Path q = ''/v3/state/append'' \<and> sar_Target b = t
     \<and> (\<exists>input m. hq_state q = Some input \<and> saq_Target input = t \<and> saq_Mutation input = m \<and> authority_validMutation m
          \<and> sar_OperationID b = smu_OperationID m
          \<and> mst_SnapshotID (sar_State b) \<noteq> smu_SnapshotID m \<and> mst_LogicalMessageID (sar_State b) = smu_LogicalMessageID m
          \<and> mst_Version (sar_State b) = smu_Version m \<and> elems (mst_MailboxIDs (sar_State b)) = smu_MailboxIDs m
          \<and> elems (mst_Keywords (sar_State b)) = smu_Keywords m \<and> mst_DeletePending (sar_State b) = smu_DeletePending m
          \<and> mst_Tombstone (sar_State b) = smu_Tombstone m \<and> mst_RevisionCount (sar_State b) = smu_ExpectedRevisionCount m + 1
          \<and> unat (mst_Height (sar_State b)) = unat (smu_ExpectedHeight m) + 1
          \<and> (\<exists>head. mst_Heads (sar_State b) = [head] \<and> mst_HeadsDigest (sar_State b) = digestStringList heads_domain [head])))"

definition admitted_request :: "Handler \<Rightarrow> http_request \<Rightarrow> bool" where
  "admitted_request h q \<longleftrightarrow> hq_Method q = ''POST'' \<and> hq_RawQuery q = [] \<and> hq_MediaType q = Some ''application/json''
     \<and> (\<exists>token. hq_Authorization q = ''Bearer '' @ token \<and> token \<noteq> [] \<and> length token \<le> 16384 \<and> sha256 token = hn_tokenHash h)"

lemma authorized_iff:
  "authorized h header \<longleftrightarrow>
     (\<exists>token. header = ''Bearer '' @ token \<and> token \<noteq> [] \<and> length token \<le> 16384 \<and> sha256 token = hn_tokenHash h)"
proof -
  define p where "p = (''Bearer '' :: bytes)"
  have "authorized h header \<longleftrightarrow> (\<exists>token. header = p @ token \<and> token \<noteq> [] \<and> length token \<le> 16384 \<and> sha256 token = hn_tokenHash h)"
  proof (cases "has_prefix header p")
    case True
    then obtain token where t: "header = p @ token" by (rule has_prefixE)
    show ?thesis unfolding authorized_def p_def [symmetric] t by auto
  next
    case False
    then have "header \<noteq> p @ token" for token by auto
    then show ?thesis using False unfolding authorized_def p_def [symmetric] by auto
  qed
  then show ?thesis by (simp only: p_def)
qed

lemma mutation_height:
  assumes "authority_validMutation m"
  shows "unat (smu_ExpectedHeight m + 1) = unat (smu_ExpectedHeight m) + 1"
proof -
  have le: "smu_ExpectedHeight m \<le> word_of_int (smu_ExpectedRevisionCount m)"
    and pos: "0 \<le> smu_ExpectedRevisionCount m" and less: "smu_ExpectedRevisionCount m < 4096"
    using assms by (simp_all add: authority_validMutation_def maxStateRevisions_def)
  from pos obtain n where n: "smu_ExpectedRevisionCount m = int n" by (rule nonneg_int_cases)
  have "unat (word_of_nat n :: u64) < 4096" using less n by (simp add: unat_of_nat)
  with le n have "unat (smu_ExpectedHeight m) < 4096" by (simp add: word_le_nat_alt)
  then show ?thesis by (simp add: unat_word_ariths)
qed

lemma receipt_exact:
  "receipt_ok t input r \<longleftrightarrow> r = \<lparr>rct_Target = t,
     rct_Fingerprint = deliveryFingerprint (stq_RecipientDID input) (pl_SourceKey (stq_Placement input)) (stq_MessageRaw input),
     rct_SHA256 = RawSHA256 (stq_MessageRaw input), rct_Size = int (length (stq_MessageRaw input)), rct_Verified = True\<rparr>"
  by (cases r) (auto simp: receipt_ok_def handler_digests)

lemma singleton_iff: "length xs = Suc 0 \<longleftrightarrow> (\<exists>x. xs = [x])"
  by (auto simp: length_Suc_conv)

lemma handle_store_answers:
  assumes "handle_store h engine q s = (r, s')" and "hq_Path q = ''/v3/messages/store''" and "hr_Status r = 200"
  shows "answers (hn_target h) q (hr_Body r)"
  using assms by (auto simp: handle_store_def writeError_def writeJSON_def receipt_exact ProtocolVersion_def
      split: option.splits if_splits prod.splits sum.splits)

lemma handle_capabilities_answers:
  assumes "handle_capabilities h engine q s = (r, s')" and "hq_Path q = ''/v3/capabilities''" and "hr_Status r = 200"
  shows "answers (hn_target h) q (hr_Body r)"
  using assms by (auto simp: handle_capabilities_def writeError_def writeJSON_def ProtocolVersion_def
      split: option.splits if_splits prod.splits sum.splits)

lemma handle_appendState_answers:
  assumes "handle_appendState h engine q s = (r, s')" and "hq_Path q = ''/v3/state/append''" and "hr_Status r = 200"
  shows "answers (hn_target h) q (hr_Body r)"
  using assms by (auto simp: handle_appendState_def writeError_def writeJSON_def validMutationResult_def ProtocolVersion_def
      handler_digests mutation_height singleton_iff split: option.splits if_splits prod.splits sum.splits)

lemma handle_snapshot_answers:
  assumes "handle_snapshot h engine q s = (r, s')" and "hq_Path q = ''/v3/snapshot''" and "hr_Status r = 200"
  shows "answers (hn_target h) q (hr_Body r)"
proof -
  let ?v = "\<lambda>sn. \<lparr>snr_Version = 3, snr_ProviderID = at_ProviderID (hn_target h), snr_Target = hn_target h, snr_Snapshot = sn\<rparr>"
  obtain sn encoded where "hq_snapshot q = Some \<lparr>snq_Version = 3, snq_Target = hn_target h\<rparr>" and sn: "validSnapshot sn (hn_target h)"
    and enc: "encodeBoundedSnapshotJSON (?v sn) maxSnapshotResponseBytes = Some encoded" and "r = writeJSON (SnapshotBody (writeTo encoded))"
    using assms(1,3) by (auto simp: handle_snapshot_def writeError_def ProtocolVersion_def split: option.splits if_splits prod.splits sum.splits)
  moreover have "writeTo encoded = json_text (snapshot_response_json (?v sn)) @ [CHR 0x0A] \<and> length (writeTo encoded) \<le> maxSnapshotResponseBytes"
    using snapshot_written [where v = "?v sn" and limit = maxSnapshotResponseBytes] unfolding enc option.case .
  moreover have "snapshot_consistent sn (hn_target h)" using sn by (simp add: validSnapshot_iff)
  ultimately show ?thesis using assms(2) by (auto simp: writeJSON_def maxSnapshotResponseBytes_def)
qed

lemma handlers_status:
  assumes "f \<in> {handle_capabilities, handle_store, handle_snapshot, handle_appendState}" and "f h engine q s = (r, s')"
  shows "hr_Status r \<in> {200, 400, 409, 502} \<and> (hr_Status r = 400 \<longrightarrow> s' = s)"
  using assms
  by (auto simp: handle_capabilities_def handle_store_def handle_snapshot_def handle_appendState_def writeError_def writeJSON_def
      split: option.splits if_splits prod.splits sum.splits)

lemma route_cases:
  "x = (if a then p else if b then q else if c then r else if d then t else u) \<Longrightarrow>
     (a \<and> p = x) \<or> (b \<and> q = x) \<or> (c \<and> r = x) \<or> (d \<and> t = x) \<or> u = x"
  by (auto split: if_splits)

lemma admitted_request_iff:
  "admitted_request h q \<longleftrightarrow> hq_Method q = ''POST'' \<and> authorized h (hq_Authorization q) \<and> hq_RawQuery q = [] \<and> isJSONContentType q"
  by (auto simp: admitted_request_def authorized_iff isJSONContentType_def)

text \<open>C23. The handler leaves the engine alone unless the request is a POST of JSON that presents the token, and
  whenever it refuses a request itself; every successful answer keeps the promise of its kind.\<close>

theorem ServeHTTP_answers:
  assumes "ServeHTTP h engine q s = (r, s')"
  shows "(\<not> admitted_request h q \<longrightarrow> s' = s \<and> hr_Status r \<in> {400, 401, 405})
    \<and> (hr_Status r \<notin> {200, 409, 502} \<longrightarrow> s' = s) \<and> (hr_Status r = 200 \<longrightarrow> answers (hn_target h) q (hr_Body r))"
proof (cases "admitted_request h q")
  case False
  then show ?thesis using assms by (auto simp: admitted_request_iff ServeHTTP_def writeError_def split: if_splits)
next
  case True
  then have "(r, s') = (if hq_Path q = ''/v3/capabilities'' then handle_capabilities h engine q s
      else if hq_Path q = ''/v3/messages/store'' then handle_store h engine q s
      else if hq_Path q = ''/v3/snapshot'' then handle_snapshot h engine q s
      else if hq_Path q = ''/v3/state/append'' then handle_appendState h engine q s
      else (writeError 404 ''NotFound'', s))"
    using assms by (simp add: admitted_request_iff ServeHTTP_def)
  from route_cases [OF this] show ?thesis
  proof (elim disjE conjE)
    assume "hq_Path q = ''/v3/capabilities''" "handle_capabilities h engine q s = (r, s')"
    then show ?thesis using True handlers_status [of handle_capabilities h engine q s r s'] handle_capabilities_answers [of h engine q s r s'] by auto
  next
    assume "hq_Path q = ''/v3/messages/store''" "handle_store h engine q s = (r, s')"
    then show ?thesis using True handlers_status [of handle_store h engine q s r s'] handle_store_answers [of h engine q s r s'] by auto
  next
    assume "hq_Path q = ''/v3/snapshot''" "handle_snapshot h engine q s = (r, s')"
    then show ?thesis using True handlers_status [of handle_snapshot h engine q s r s'] handle_snapshot_answers [of h engine q s r s'] by auto
  next
    assume "hq_Path q = ''/v3/state/append''" "handle_appendState h engine q s = (r, s')"
    then show ?thesis using True handlers_status [of handle_appendState h engine q s r s'] handle_appendState_answers [of h engine q s r s'] by auto
  next
    assume "(writeError 404 ''NotFound'', s) = (r, s')"
    then show ?thesis using True by (auto simp: writeError_def)
  qed
qed

definition relay_target :: AuthorityTarget where
  "relay_target = \<lparr>at_ProviderID = ''official'', at_Origin = ''https://pds.example'', at_SpaceURI = ''at://did:plc:a/space/email.atmos.mailbox/m'',
     at_RepoDID = ''did:plc:a'', at_Epoch = ''epoch'', at_CertificateSHA256 = ''00'', at_CertificateGeneration = ''official-v3''\<rparr>"

definition relay_engine :: "nat Engine" where
  "relay_engine = \<lparr>en_Capabilities = (\<lambda>s. (Inr \<lparr>ac_PrivateRecords = True, ac_ReferencedBlobs = True, ac_AtomicCreateBatch = True,
       ac_IdempotentOperationClaims = True, ac_AuthenticatedStableRead = True, ac_CompleteInventory = True, ac_ConcurrentHeads = True,
       ac_Tombstones = True, ac_SourceVersioning = True, ac_CertificateSHA256 = ''00'', ac_Generation = ''official-v3''\<rparr>, s + 1)),
     en_Store = (\<lambda>i s. (Inl ErrInvalid, s + 1)), en_Snapshot = (\<lambda>s. (Inl ErrInvalid, s + 1)), en_AppendState = (\<lambda>m s. (Inl ErrInvalid, s + 1))\<rparr>"

definition relay_request :: http_request where
  "relay_request = \<lparr>hq_Method = ''POST'', hq_Authorization = ''Bearer '' @ ''token'', hq_RawQuery = [],
     hq_MediaType = Some ''application/json'', hq_Path = ''/v3/capabilities'',
     hq_capability = Some \<lparr>cq_Version = 3, cq_Target = relay_target\<rparr>, hq_store = None, hq_snapshot = None, hq_state = None\<rparr>"

definition relay_handler :: Handler where
  "relay_handler = \<lparr>hn_tokenHash = sha256 ''token'', hn_target = relay_target\<rparr>"

lemma relay_admitted: "admitted_request relay_handler relay_request"
  unfolding admitted_request_def
proof (intro conjI exI [of _ "''token''"])
  show "hq_Authorization relay_request = ''Bearer '' @ ''token''" by (simp add: relay_request_def)
qed (simp_all add: relay_request_def relay_handler_def)

theorem ServeHTTP_answers_witness:
  "\<exists>r s'. ServeHTTP relay_handler relay_engine relay_request 0 = (r, s') \<and> hr_Status r = 200 \<and> s' = 1
     \<and> answers relay_target relay_request (hr_Body r)"
proof -
  obtain r s' where eq: "ServeHTTP relay_handler relay_engine relay_request 0 = (r, s')" by fastforce
  have path: "hq_Path relay_request = ''/v3/capabilities''" by (simp add: relay_request_def)
  have "handle_capabilities relay_handler relay_engine relay_request 0 = (r, s')"
    using eq relay_admitted unfolding admitted_request_iff ServeHTTP_def by (simp add: path)
  then have "hr_Status r = 200 \<and> s' = 1"
    by (auto simp: handle_capabilities_def relay_request_def relay_handler_def relay_engine_def ProtocolVersion_def
      supports_def AuthorityGeneration_def relay_target_def writeJSON_def)
  moreover have "answers relay_target relay_request (hr_Body r)"
    using ServeHTTP_answers [OF eq] calculation by (simp add: relay_handler_def)
  ultimately show ?thesis using eq by blast
qed

end
