(* ===== verification/Authority_Engine.thy ===== *)
theory Authority_Engine
  imports Official_Client Authority
begin

text \<open>
  Package \<^verbatim>\<open>authorityv3\<close>, file \<^verbatim>\<open>official_engine.go\<close>: the engine behind the relay contract. It reads the
  mailbox through the verified reads of package \<^verbatim>\<open>mailboxstate\<close> and appends immutable records through
  a client. The client is a record of operations on a state that other writers share; the clock
  is part of that state.
\<close>

section \<open>The client and the engine\<close>

definition standardFolders :: "(bytes \<times> bytes) list" where
  "standardFolders = [(''archive'', ''Archive''), (''drafts'', ''Drafts''), (''important'', ''Important''), (''inbox'', ''Inbox''),
     (''junk'', ''Junk''), (''sent'', ''Sent''), (''trash'', ''Trash'')]"

record 's officialWriter =
  ow_TransportID :: bytes
  ow_Target :: OfficialTarget
  ow_UploadMessageBlob :: "bytes \<Rightarrow> ('s, BlobRef) op"
  ow_CreateBatch :: "Create list \<Rightarrow> ('s, CreateResult list) op"
  ow_InspectRecord :: "bytes \<Rightarrow> bytes \<Rightarrow> ('s, UnverifiedRecord) op"

text \<open>The client of package \<^verbatim>\<open>officialspaces\<close> as the writer of an engine.\<close>

definition client_writer :: "syntax_api \<Rightarrow> ipld_api \<Rightarrow> 's Client \<Rightarrow> 's officialWriter" where
  "client_writer sx ip c = \<lparr>ow_TransportID = client_TransportID, ow_Target = cn_target c, ow_UploadMessageBlob = UploadMessageBlob ip c,
     ow_CreateBatch = CreateBatch sx ip c, ow_InspectRecord = InspectRecord sx ip c\<rparr>"

record 's OfficialEngine =
  oe_target :: AuthorityTarget
  oe_client :: "'s officialWriter"
  oe_readSnapshot :: "('s, AuthoritySnapshot) op option"
  oe_now :: "'s \<Rightarrow> gtime \<times> 's"

definition engine_now :: "'s OfficialEngine \<Rightarrow> ('s, gtime) op" where
  "engine_now engine s = (case oe_now engine s of (t, s') \<Rightarrow> (Inr t, s'))"

definition validLowerSHA256 :: "bytes \<Rightarrow> bool" where
  "validLowerSHA256 v = (case hex_decode v of None \<Rightarrow> False | Some decoded \<Rightarrow> length decoded = 32 \<and> v = to_lower v)"

definition newOfficialEngine ::
  "syntax_api \<Rightarrow> 's officialWriter option \<Rightarrow> AuthorityTarget \<Rightarrow> ('s, AuthoritySnapshot) op option \<Rightarrow> ('s \<Rightarrow> gtime \<times> 's)
     \<Rightarrow> 's OfficialEngine result" where
  "newOfficialEngine sx client target reader now =
     (case client of None \<Rightarrow> Inl (ErrOther ''authorityv3: exact official target and certificate are required'') | Some c \<Rightarrow>
        if at_ProviderID target = [] \<or> contains_any (at_ProviderID target) [CHR 0x20, CHR 0x09, CHR 0x0D, CHR 0x0A]
          \<or> at_CertificateGeneration target \<noteq> AuthorityGeneration \<or> \<not> validLowerSHA256 (at_CertificateSHA256 target)
        then Inl (ErrOther ''authorityv3: exact official target and certificate are required'')
        else if ow_TransportID c \<noteq> at_ProviderID target \<or> ot_Origin (ow_Target c) \<noteq> at_Origin target
          \<or> ot_SpaceURI (ow_Target c) \<noteq> at_SpaceURI target \<or> ot_RepoDID (ow_Target c) \<noteq> at_RepoDID target
          \<or> ot_Epoch (ow_Target c) \<noteq> at_Epoch target \<or> at_Epoch target \<noteq> PinnedEpoch
          \<or> ValidateFor sx \<lparr>tg_ProviderOrigin = at_Origin target, tg_SpaceURI = at_SpaceURI target, tg_RepoDID = at_RepoDID target,
               tg_Epoch = at_Epoch target\<rparr> (at_RepoDID target) \<noteq> Inr ()
        then Inl ErrTarget
        else Inr \<lparr>oe_target = target, oe_client = c, oe_readSnapshot = reader, oe_now = now\<rparr>)"

definition engine_Capabilities :: "'s OfficialEngine \<Rightarrow> ('s, AuthorityCapabilities) op" where
  "engine_Capabilities engine = give \<lparr>ac_PrivateRecords = True, ac_ReferencedBlobs = True, ac_AtomicCreateBatch = True,
     ac_IdempotentOperationClaims = True, ac_AuthenticatedStableRead = True, ac_CompleteInventory = True,
     ac_ConcurrentHeads = True, ac_Tombstones = True, ac_SourceVersioning = True,
     ac_CertificateSHA256 = at_CertificateSHA256 (oe_target engine), ac_Generation = AuthorityGeneration\<rparr>"

definition engine_Snapshot :: "'s OfficialEngine \<Rightarrow> ('s, AuthoritySnapshot) op" where
  "engine_Snapshot engine =
     (case oe_readSnapshot engine of
        None \<Rightarrow> raise (ErrOther ''authorityv3: source-authenticated snapshot reader is unavailable'')
      | Some read \<Rightarrow> after read (\<lambda>snapshot.
          if asn_Target snapshot \<noteq> oe_target engine \<or> asn_Version snapshot \<noteq> ProtocolVersion then raise ErrTarget
          else give snapshot))"

section \<open>Helpers\<close>

definition findVersion :: "AuthoritySnapshot \<Rightarrow> bytes \<Rightarrow> AuthorityMessage option" where
  "findVersion sn rkey = find (\<lambda>v. am_RKey v = rkey) (elems (asn_Messages sn))"

definition findState :: "AuthoritySnapshot \<Rightarrow> bytes \<Rightarrow> MessageState option" where
  "findState sn logicalID = find (\<lambda>st. mst_LogicalMessageID st = logicalID) (elems (asn_States sn))"

definition available_folders :: "FolderState list \<Rightarrow> bool gomap" where
  "available_folders fs = foldl (\<lambda>m f. AList.update (fst_FolderID f) (\<not> fst_Tombstone f) m) [] fs"

definition liveFolderSet :: "FolderState list \<Rightarrow> bytes list \<Rightarrow> bool" where
  "liveFolderSet fs selected =
     (if length selected = 0 then False
      else list_all (\<lambda>f. case map_of (available_folders fs) f of None \<Rightarrow> False | Some live \<Rightarrow> live) selected)"

definition equalStrings :: "bytes list \<Rightarrow> bytes list \<Rightarrow> bool" where
  "equalStrings l r = (if length l \<noteq> length r then False else list_all (\<lambda>i. l ! i = r ! i) [0 ..< length l])"

definition engine_receipt :: "'s OfficialEngine \<Rightarrow> bytes \<Rightarrow> bytes \<Rightarrow> Receipt" where
  "engine_receipt engine fingerprint raw = \<lparr>rct_Target = oe_target engine, rct_Fingerprint = fingerprint,
     rct_SHA256 = RawSHA256 raw, rct_Size = int (length raw), rct_Verified = True\<rparr>"

text \<open>The keys of the map come out in any order; they are sorted, so the order does not matter.\<close>

definition wanted_keywords :: "bytes list \<Rightarrow> bytes list \<Rightarrow> bool gomap" where
  "wanted_keywords current desired =
     foldl (\<lambda>m k. AList.update k True m) (foldl (\<lambda>m k. AList.update k False m) [] current) desired"

definition keywordAssignments :: "bytes list \<Rightarrow> bytes list \<Rightarrow> KeywordAssignment slice" where
  "keywordAssignments current desired =
     (let wanted = wanted_keywords current desired in
      Some (map (\<lambda>k. \<lparr>ka_Name = k, ka_Present = (map_of wanted k = Some True)\<rparr>) (sort (keys wanted))))"

definition portable_preimage :: "bytes \<Rightarrow> bytes \<Rightarrow> bytes" where
  "portable_preimage repoDID sourceKey = ''comail-portable-folder-v1'' @ [CHR 0x00] @ repoDID @ [CHR 0x00] @ sourceKey"

definition folderIDFor :: "syntax_api \<Rightarrow> bytes \<Rightarrow> FolderSelection \<Rightarrow> bytes result" where
  "folderIDFor sx repoDID f =
     (if fsl_SourceKey f = [] \<or> fsl_Name f = [] \<or> length (fsl_SourceKey f) > 512 \<or> length (fsl_Name f) > 255
        \<or> contains_any (fsl_SourceKey f @ fsl_Name f @ fsl_Role f) [CHR 0x0D, CHR 0x0A, CHR 0x00] then Inl ErrInvalidRecord
      else if fsl_Role f \<noteq> [] then
        (if (fsl_Role f, fsl_Name f) \<in> set standardFolders then StandardFolderID sx repoDID (fsl_Role f) else Inl ErrInvalidRecord)
      else Inr (''folder-'' @ hex_encode (sha256 (portable_preimage repoDID (fsl_SourceKey f)))))"

text \<open>JSON of the records that are appended, with the tags of their structs.\<close>

definition claim_json :: "OperationClaimRecord \<Rightarrow> json" where
  "claim_json c = JObj (jfield ''$type'' (jstr (oc_Type c)) @ jfield ''logicalMessageId'' (jstr (oc_LogicalMessageID c))
     @ jfield ''operationId'' (jstr (oc_OperationID c)) @ jfield ''revisionRkey'' (jstr (oc_RevisionRKey c)))"

definition folder_revision_json :: "FolderRevisionRecord \<Rightarrow> json" where
  "folder_revision_json r = JObj (jfield ''$type'' (jstr (fvr_Type r)) @ jfield ''folderId'' (jstr (fvr_FolderID r))
     @ jfield ''operationId'' (jstr (fvr_OperationID r)) @ jfield ''parents'' (jstrs (fvr_Parents r))
     @ jfield ''revision'' (JNum (uint (fvr_Revision r))) @ jomit (fvr_Name r = []) ''name'' (jstr (fvr_Name r))
     @ jomit (fvr_Role r = []) ''role'' (jstr (fvr_Role r)) @ jomit (\<not> fvr_Tombstone r) ''tombstone'' (JBool (fvr_Tombstone r))
     @ jomit (\<not> fvr_Merge r) ''merge'' (JBool (fvr_Merge r)) @ jfield ''createdAt'' (jstr (fvr_CreatedAt r)))"

definition folder_claim_json :: "FolderOperationClaimRecord \<Rightarrow> json" where
  "folder_claim_json c = JObj (jfield ''$type'' (jstr (fo_Type c)) @ jfield ''folderId'' (jstr (fo_FolderID c))
     @ jfield ''operationId'' (jstr (fo_OperationID c)) @ jfield ''revisionRkey'' (jstr (fo_RevisionRKey c)))"

definition buildStateCreates :: "syntax_api \<Rightarrow> bytes \<Rightarrow> RevisionRecord \<Rightarrow> (Create \<times> Create) result" where
  "buildStateCreates sx repoDID r =
     (case StateRevisionRKey sx repoDID r of Inl e \<Rightarrow> Inl e | Inr rkey \<Rightarrow>
        (case NewOperationClaim sx repoDID \<lparr>sv_RKey = rkey, sv_Record = r\<rparr> of Inl e \<Rightarrow> Inl e | Inr claim \<Rightarrow>
          Inr (\<lparr>cre_Collection = MessageStateRevisionCollection, cre_RKey = rkey, cre_Value = revision_json r\<rparr>,
               \<lparr>cre_Collection = MessageStateOperationCollection, cre_RKey = cl_RKey claim, cre_Value = claim_json (cl_Record claim)\<rparr>)))"

section \<open>Recognising what is already there\<close>

definition stateAppendExists :: "syntax_api \<Rightarrow> 's OfficialEngine \<Rightarrow> RevisionRecord \<Rightarrow> ('s, bool) op" where
  "stateAppendExists sx engine expected =
     (let did = at_RepoDID (oe_target engine); client = oe_client engine in
      after (returning (OperationClaimRKey sx did (rv_LogicalMessageID expected) (rv_OperationID expected))) (\<lambda>claimKey.
      after (attempt (ow_InspectRecord client MessageStateOperationCollection claimKey)) (\<lambda>r. case r of
        Inl e \<Rightarrow> if errors_Is e ErrNotFound then give False else raise e
      | Inr storedClaim \<Rightarrow>
          (case DecodeOperationClaimRecord (fst (ur_Value storedClaim)) (snd (ur_Value storedClaim)) of
             Inl e \<Rightarrow> raise ErrIntegrity
           | Inr claim \<Rightarrow>
               if oc_LogicalMessageID claim \<noteq> rv_LogicalMessageID expected \<or> oc_OperationID claim \<noteq> rv_OperationID expected
               then raise ErrIntegrity
               else after (ow_InspectRecord client MessageStateRevisionCollection (oc_RevisionRKey claim)) (\<lambda>storedRevision.
                 case DecodeRevisionRecord (fst (ur_Value storedRevision)) (snd (ur_Value storedRevision)) of
                   Inl e \<Rightarrow> raise ErrIntegrity
                 | Inr r \<Rightarrow> after (returning (StateRevisionRKey sx did expected)) (\<lambda>key.
                     if VerifyRevisionRetry sx did \<lparr>sv_RKey = key, sv_Record = expected\<rparr>
                          \<lparr>sv_RKey = ur_RKey storedRevision, sv_Record = r\<rparr> \<noteq> Inr () then raise ErrAppendConflict
                     else give True))))))"

definition folderInitializationExists :: "syntax_api \<Rightarrow> 's OfficialEngine \<Rightarrow> FolderStateRevision \<Rightarrow> ('s, bool) op" where
  "folderInitializationExists sx engine expected =
     (let did = at_RepoDID (oe_target engine); client = oe_client engine; er = fv_Record expected in
      after (returning (FolderOperationClaimRKey sx did (fvr_FolderID er) (fvr_OperationID er))) (\<lambda>claimKey.
      after (attempt (ow_InspectRecord client FolderOperationCollection claimKey)) (\<lambda>r. case r of
        Inl e \<Rightarrow> if errors_Is e ErrNotFound then give False else raise e
      | Inr storedClaim \<Rightarrow>
          (case DecodeFolderOperationClaimRecord (fst (ur_Value storedClaim)) (snd (ur_Value storedClaim)) of
             Inl e \<Rightarrow> raise ErrIntegrity
           | Inr claim \<Rightarrow>
               if fo_FolderID claim \<noteq> fvr_FolderID er \<or> fo_OperationID claim \<noteq> fvr_OperationID er then raise ErrIntegrity
               else after (ow_InspectRecord client FolderRevisionCollection (fo_RevisionRKey claim)) (\<lambda>storedRevision.
                 case DecodeFolderRevisionRecord (fst (ur_Value storedRevision)) (snd (ur_Value storedRevision)) of
                   Inl e \<Rightarrow> raise ErrIntegrity
                 | Inr r \<Rightarrow>
                     if VerifyFolderRevisionRetry sx did expected \<lparr>fv_RKey = ur_RKey storedRevision, fv_Record = r\<rparr> \<noteq> Inr ()
                     then raise ErrIntegrity else give True)))))"

text \<open>The batch of an append, and what follows when some of its records exist already.\<close>

definition create_or_recognise :: "syntax_api \<Rightarrow> 's OfficialEngine \<Rightarrow> Create list \<Rightarrow> RevisionRecord \<Rightarrow> ('s, unit) op" where
  "create_or_recognise sx engine creates r =
     after (attempt (ow_CreateBatch (oe_client engine) creates)) (\<lambda>x. case x of
       Inr _ \<Rightarrow> give ()
     | Inl e \<Rightarrow> if \<not> errors_Is e ErrExists then raise e
         else after (stateAppendExists sx engine r) (\<lambda>exists. if \<not> exists then raise ErrAppendConflict else give ()))"

section \<open>Folders\<close>

definition initial_folder_record :: "FolderSelection \<Rightarrow> bytes \<Rightarrow> gtime \<Rightarrow> FolderRevisionRecord" where
  "initial_folder_record f folderID now = \<lparr>fvr_Type = FolderRevisionCollection, fvr_FolderID = folderID, fvr_OperationID = ''initial'',
     fvr_Parents = Some [], fvr_Revision = 1, fvr_Name = fsl_Name f, fvr_Role = fsl_Role f, fvr_Tombstone = False, fvr_Merge = False,
     fvr_CreatedAt = format_RFC3339Nano now\<rparr>"

definition initialFolderCreates ::
  "syntax_api \<Rightarrow> 's OfficialEngine \<Rightarrow> FolderSelection \<Rightarrow> bytes \<Rightarrow> ('s, FolderStateRevision \<times> Create \<times> Create) op" where
  "initialFolderCreates sx engine f folderID =
     (let did = at_RepoDID (oe_target engine) in
      after (engine_now engine) (\<lambda>now. let r = initial_folder_record f folderID now in
      after (returning (FolderRevisionRKey sx did r)) (\<lambda>rkey.
      after (returning (NewFolderOperationClaim sx did \<lparr>fv_RKey = rkey, fv_Record = r\<rparr>)) (\<lambda>claim.
      give (\<lparr>fv_RKey = rkey, fv_Record = r\<rparr>,
        \<lparr>cre_Collection = FolderRevisionCollection, cre_RKey = rkey, cre_Value = folder_revision_json r\<rparr>,
        \<lparr>cre_Collection = FolderOperationCollection, cre_RKey = fc_RKey claim, cre_Value = folder_claim_json (fc_Record claim)\<rparr>)))))"

fun missing_folder_creates :: "syntax_api \<Rightarrow> 's OfficialEngine \<Rightarrow> FolderSelection list \<Rightarrow> Create list \<Rightarrow> ('s, Create list) op" where
  "missing_folder_creates sx engine [] creates = give creates"
| "missing_folder_creates sx engine (f # fs) creates =
     after (returning (folderIDFor sx (at_RepoDID (oe_target engine)) f)) (\<lambda>folderID.
     after (initialFolderCreates sx engine f folderID) (\<lambda>(expected, revisionCreate, claimCreate).
     after (folderInitializationExists sx engine expected) (\<lambda>exists.
       missing_folder_creates sx engine fs (if \<not> exists then creates @ [revisionCreate, claimCreate] else creates))))"

text \<open>The call with \<open>retried\<close> set does not call itself again, so the recursion is unfolded.\<close>

definition ensure_folders_once ::
  "syntax_api \<Rightarrow> 's OfficialEngine \<Rightarrow> FolderSelection list \<Rightarrow> (err \<Rightarrow> ('s, unit) op) \<Rightarrow> ('s, unit) op" where
  "ensure_folders_once sx engine selections on_error =
     after (missing_folder_creates sx engine selections []) (\<lambda>creates.
       if length creates = 0 then give ()
       else after (attempt (ow_CreateBatch (oe_client engine) creates)) (\<lambda>x. case x of Inr _ \<Rightarrow> give () | Inl e \<Rightarrow> on_error e))"

definition ensureInitialFolderRecords :: "syntax_api \<Rightarrow> 's OfficialEngine \<Rightarrow> FolderSelection list \<Rightarrow> bool \<Rightarrow> ('s, unit) op" where
  "ensureInitialFolderRecords sx engine selections retried =
     ensure_folders_once sx engine selections (\<lambda>e. if \<not> errors_Is e ErrExists \<or> retried then raise e
       else ensure_folders_once sx engine selections raise)"

definition standard_selections :: "FolderSelection list" where
  "standard_selections = map (\<lambda>(role, name). \<lparr>fsl_SourceKey = ''role:'' @ role, fsl_Name = name, fsl_Role = role\<rparr>) standardFolders"

definition folders_by_id :: "FolderState list \<Rightarrow> FolderState gomap" where
  "folders_by_id fs = foldl (\<lambda>m f. AList.update (fst_FolderID f) f m) [] fs"

fun select_folders ::
  "syntax_api \<Rightarrow> bytes \<Rightarrow> FolderState gomap \<Rightarrow> FolderSelection list \<Rightarrow> bytes list \<Rightarrow> FolderState list \<Rightarrow> FolderState list result" where
  "select_folders sx did byID [] selected result = Inr result"
| "select_folders sx did byID (f # fs) selected result =
     (case folderIDFor sx did f of Inl e \<Rightarrow> Inl e | Inr folderID \<Rightarrow>
        if folderID \<in> set selected then Inl ErrInvalidRecord
        else (case map_of byID folderID of
            None \<Rightarrow> Inl ErrInvalidRecord
          | Some prior \<Rightarrow>
              if fst_Name prior \<noteq> fsl_Name f \<or> fst_Role prior \<noteq> fsl_Role f \<or> fst_Tombstone prior then Inl ErrInvalidRecord
              else select_folders sx did byID fs (folderID # selected) (result @ [prior])))"

definition ensureFolders :: "syntax_api \<Rightarrow> 's OfficialEngine \<Rightarrow> FolderSelection list \<Rightarrow> ('s, FolderState list) op" where
  "ensureFolders sx engine selections =
     after (ensureInitialFolderRecords sx engine standard_selections False) (\<lambda>_.
     after (engine_Snapshot engine) (\<lambda>current.
       returning (select_folders sx (at_RepoDID (oe_target engine)) (folders_by_id (elems (asn_Folders current))) selections [] [])))"

section \<open>Storing a message\<close>

definition store_import :: "StoreInput \<Rightarrow> gtime \<Rightarrow> ImportedMessage" where
  "store_import input now = \<lparr>im_RecipientDID = sin_RecipientDID input, im_SourceKey = pl_SourceKey (sin_Placement input),
     im_Raw = sin_Raw input, im_Mailbox = fsl_Name (hd (pl_Folders (sin_Placement input))), im_Mailboxes = [], im_MessageID = [],
     im_MessageDate = zero_time, im_InReplyTo = [], im_References = [], im_Keywords = pl_Keywords (sin_Placement input),
     im_DeletePending = False, im_UID = 0, im_UIDValidity = 0, im_ModSeq = 0, im_DeliveredAt = now\<rparr>"

definition store_record :: "MessageState option \<Rightarrow> bytes \<Rightarrow> bytes \<Rightarrow> bytes \<Rightarrow> bytes list \<Rightarrow> bytes list \<Rightarrow> gtime \<Rightarrow> RevisionRecord" where
  "store_record prior logicalID fingerprint rkey mailboxIDs keywords now =
     (let r = \<lparr>rv_Type = MessageStateRevisionCollection, rv_LogicalMessageID = logicalID, rv_OperationID = ''initial'',
            rv_Parents = Some [], rv_Revision = 1, rv_Version = rkey, rv_MailboxIDs = Some mailboxIDs,
            rv_Keywords = keywordAssignments [] keywords, rv_DeletePending = None, rv_Tombstone = False, rv_Merge = False,
            rv_CreatedAt = format_RFC3339Nano now\<rparr>
      in case prior of None \<Rightarrow> r
         | Some p \<Rightarrow> r\<lparr>rv_OperationID := ''version-'' @ trim_prefix fingerprint ''sha256-'', rv_Parents := copy_nil (mst_Heads p),
             rv_Revision := mst_Height p + 1, rv_Keywords := keywordAssignments (elems (mst_Keywords p)) keywords\<rparr>)"

text \<open>The check of the snapshot that is read after the append.\<close>

definition store_verified ::
  "'s OfficialEngine \<Rightarrow> AuthoritySnapshot \<Rightarrow> bytes \<Rightarrow> bytes \<Rightarrow> bytes \<Rightarrow> bytes list \<Rightarrow> bytes list \<Rightarrow> Receipt result" where
  "store_verified engine verified fingerprint logicalID raw mailboxIDs keywords =
     (case findVersion verified fingerprint of None \<Rightarrow> Inl ErrIntegrity | Some version \<Rightarrow>
        if am_LogicalMessageID version \<noteq> logicalID \<or> am_Raw version \<noteq> raw then Inl ErrIntegrity
        else (case findState verified logicalID of None \<Rightarrow> Inl ErrAppendConflict | Some st \<Rightarrow>
          if mst_Version st \<noteq> fingerprint \<or> \<not> equalStrings (elems (mst_MailboxIDs st)) mailboxIDs
            \<or> \<not> equalStrings (elems (mst_Keywords st)) keywords then Inl ErrAppendConflict
          else Inr (engine_receipt engine fingerprint raw)))"

definition store_new ::
  "syntax_api \<Rightarrow> 's OfficialEngine \<Rightarrow> StoreInput \<Rightarrow> ImportedMessage \<Rightarrow> MessageState option \<Rightarrow> FolderState list \<Rightarrow> ('s, Receipt) op" where
  "store_new sx engine input imported prior folders =
     (let did = at_RepoDID (oe_target engine); raw = sin_Raw input; fingerprint = ImportedFingerprint imported;
          logicalID = LogicalMessageID (sin_RecipientDID input) (pl_SourceKey (sin_Placement input)) fingerprint;
          mailboxIDs = sort (map fst_FolderID folders); keywords = sort (pl_Keywords (sin_Placement input)) in
      after (ow_UploadMessageBlob (oe_client engine) raw) (\<lambda>blob.
      after (returning (NewMessagePair imported blob)) (\<lambda>pair.
      after (engine_now engine) (\<lambda>now. let r = store_record prior logicalID fingerprint (mp_RKey pair) mailboxIDs keywords now in
      after (returning (buildStateCreates sx did r)) (\<lambda>(revision, claim).
      after (create_or_recognise sx engine
        [\<lparr>cre_Collection = MessageCollection, cre_RKey = mp_RKey pair, cre_Value = message_json (mp_Message pair)\<rparr>, revision, claim] r) (\<lambda>_.
      after (engine_Snapshot engine) (\<lambda>verified.
        returning (store_verified engine verified fingerprint logicalID raw mailboxIDs keywords))))))))"

definition engine_Store :: "syntax_api \<Rightarrow> 's OfficialEngine \<Rightarrow> StoreInput \<Rightarrow> ('s, Receipt) op" where
  "engine_Store sx engine input =
     (if sin_RecipientDID input \<noteq> at_RepoDID (oe_target engine) \<or> length (sin_Raw input) = 0
        \<or> length (sin_Raw input) > MaxRawMessageBytes \<or> length (pl_Folders (sin_Placement input)) = 0 then raise ErrInvalidRecord
      else after (ensureFolders sx engine (pl_Folders (sin_Placement input))) (\<lambda>folders.
        after (engine_Snapshot engine) (\<lambda>current.
        after (engine_now engine) (\<lambda>now.
          let imported = store_import input now; fingerprint = ImportedFingerprint imported;
              logicalID = LogicalMessageID (sin_RecipientDID input) (pl_SourceKey (sin_Placement input)) fingerprint;
              prior = findState current logicalID in
          case findVersion current fingerprint of
            Some version \<Rightarrow>
              if am_LogicalMessageID version \<noteq> logicalID \<or> am_Raw version \<noteq> sin_Raw input then raise ErrIntegrity
              else give (engine_receipt engine fingerprint (sin_Raw input))
          | None \<Rightarrow>
              if (case prior of None \<Rightarrow> False | Some p \<Rightarrow> mst_Tombstone p) then raise ErrAppendConflict
              else store_new sx engine input imported prior folders))))"

section \<open>Appending a state\<close>

text \<open>The guards of \<^verbatim>\<open>AppendState\<close> before it writes.\<close>

definition append_guard :: "AuthoritySnapshot \<Rightarrow> StateMutation \<Rightarrow> MessageState result" where
  "append_guard current m =
     (case findState current (smu_LogicalMessageID m) of None \<Rightarrow> Inl ErrAppendConflict | Some st \<Rightarrow>
        if asn_SnapshotID current \<noteq> smu_SnapshotID m \<or> mst_SnapshotID st \<noteq> smu_SnapshotID m
          \<or> mst_HeadsDigest st \<noteq> smu_ExpectedHeadsDigest m \<or> mst_StateDigest st \<noteq> smu_ExpectedStateDigest m
          \<or> mst_Height st \<noteq> smu_ExpectedHeight m \<or> mst_RevisionCount st \<noteq> smu_ExpectedRevisionCount m
          \<or> \<not> equalStrings (mst_Heads st) (smu_ExpectedHeads m) then Inl ErrAppendConflict
        else if mst_Tombstone st then Inl ErrAppendConflict
        else if smu_Tombstone m \<and> (smu_Version m \<noteq> mst_Version st \<or> \<not> equalStrings (smu_MailboxIDs m) (elems (mst_MailboxIDs st))
          \<or> \<not> equalStrings (smu_Keywords m) (elems (mst_Keywords st)) \<or> smu_DeletePending m) then Inl ErrAppendConflict
        else if \<not> smu_Tombstone m \<and> ((case findVersion current (smu_Version m) of None \<Rightarrow> True
              | Some selected \<Rightarrow> am_LogicalMessageID selected \<noteq> smu_LogicalMessageID m)
            \<or> \<not> liveFolderSet (elems (asn_Folders current)) (smu_MailboxIDs m)) then Inl ErrInvalidRecord
        else Inr st)"

definition append_record :: "MessageState \<Rightarrow> StateMutation \<Rightarrow> gtime \<Rightarrow> RevisionRecord" where
  "append_record st m now =
     (let r = \<lparr>rv_Type = MessageStateRevisionCollection, rv_LogicalMessageID = smu_LogicalMessageID m,
            rv_OperationID = smu_OperationID m, rv_Parents = copy_nil (smu_ExpectedHeads m), rv_Revision = smu_ExpectedHeight m + 1,
            rv_Version = [], rv_MailboxIDs = None, rv_Keywords = None, rv_DeletePending = None, rv_Tombstone = False,
            rv_Merge = False, rv_CreatedAt = format_RFC3339Nano now\<rparr>
      in if smu_Tombstone m then r\<lparr>rv_Tombstone := True\<rparr>
         else r\<lparr>rv_Version := smu_Version m, rv_MailboxIDs := copy_nil (smu_MailboxIDs m),
                rv_Keywords := keywordAssignments (elems (mst_Keywords st)) (smu_Keywords m), rv_DeletePending := Some (smu_DeletePending m)\<rparr>)"

definition append_verified :: "AuthoritySnapshot \<Rightarrow> StateMutation \<Rightarrow> MessageState result" where
  "append_verified verified m =
     (case findState verified (smu_LogicalMessageID m) of None \<Rightarrow> Inl ErrAppendConflict | Some result \<Rightarrow>
        if mst_SnapshotID result = smu_SnapshotID m \<or> mst_Version result \<noteq> smu_Version m
          \<or> \<not> equalStrings (elems (mst_MailboxIDs result)) (smu_MailboxIDs m) \<or> \<not> equalStrings (elems (mst_Keywords result)) (smu_Keywords m)
          \<or> mst_DeletePending result \<noteq> smu_DeletePending m \<or> mst_Tombstone result \<noteq> smu_Tombstone m
          \<or> mst_Height result \<noteq> smu_ExpectedHeight m + 1 \<or> mst_RevisionCount result \<noteq> smu_ExpectedRevisionCount m + 1
        then Inl ErrAppendConflict else Inr result)"

definition engine_AppendState :: "syntax_api \<Rightarrow> 's OfficialEngine \<Rightarrow> StateMutation \<Rightarrow> ('s, MessageState) op" where
  "engine_AppendState sx engine m =
     after (engine_Snapshot engine) (\<lambda>current.
     after (returning (append_guard current m)) (\<lambda>st.
     after (engine_now engine) (\<lambda>now. let r = append_record st m now in
     after (returning (buildStateCreates sx (at_RepoDID (oe_target engine)) r)) (\<lambda>(revision, claim).
     after (create_or_recognise sx engine [revision, claim] r) (\<lambda>_.
     after (engine_Snapshot engine) (\<lambda>verified. returning (append_verified verified m)))))))"

text \<open>The engine as the interface the handler calls.\<close>

definition official_engine :: "syntax_api \<Rightarrow> 's OfficialEngine \<Rightarrow> 's Engine" where
  "official_engine sx engine = \<lparr>en_Capabilities = engine_Capabilities engine, en_Store = engine_Store sx engine,
     en_Snapshot = engine_Snapshot engine, en_AppendState = engine_AppendState sx engine\<rparr>"

section \<open>The verified snapshot\<close>

definition authority_message :: "AuthorityTarget \<Rightarrow> MessageVersion \<Rightarrow> bytes \<Rightarrow> AuthorityMessage" where
  "authority_message target v raw =
     \<lparr>am_URI = at_SpaceURI target @ ''/'' @ at_RepoDID target @ ''/'' @ MessageCollection @ ''/'' @ mv_RKey v, am_RKey = mv_RKey v,
      am_Fingerprint = mv_RKey v, am_LogicalMessageID = mr_LogicalMessageID (mv_Record v), am_SourceKey = mr_SourceKey (mv_Record v),
      am_SHA256 = mr_SHA256 (mv_Record v), am_Size = mr_Size (mv_Record v), am_Raw = raw\<rparr>"

definition snapshot_visit ::
  "ipld_api \<Rightarrow> AuthorityTarget \<Rightarrow> ContentVerifiedMessage \<Rightarrow> AuthorityMessage list \<Rightarrow> err option \<times> AuthorityMessage list" where
  "snapshot_visit ip target m ms =
     (case message_Open ip m of Inl e \<Rightarrow> (Some e, ms) | Inr (version, raw) \<Rightarrow> (None, ms @ [authority_message target version raw]))"

definition snapshot_of_source ::
  "ipld_api \<Rightarrow> syntax_api \<Rightarrow> (nat \<Rightarrow> err option) \<Rightarrow> OfficialTarget \<Rightarrow> AuthorityTarget \<Rightarrow> ContentVerifiedSource \<Rightarrow> AuthoritySnapshot result" where
  "snapshot_of_source ip sx ctx clientTarget target source =
     (let summary = content_Summary sx source; st = su_Target summary in
      if st \<noteq> clientTarget \<or> ot_Origin st \<noteq> at_Origin target \<or> ot_SpaceURI st \<noteq> at_SpaceURI target
        \<or> ot_RepoDID st \<noteq> at_RepoDID target \<or> ot_Epoch st \<noteq> at_Epoch target then Inl ErrTarget
      else (case VisitMessages sx ctx (snapshot_visit ip target) source [] of
          (Some e, source', ms) \<Rightarrow> Inl e
        | (None, source', ms) \<Rightarrow>
            if content_ValidateSeal sx source' \<noteq> Inr () then Inl ErrIntegrity
            else Inr \<lparr>asn_Version = ProtocolVersion, asn_Target = target, asn_Revision = su_Revision summary,
              asn_SnapshotID = su_SnapshotID summary, asn_ManifestSHA256 = su_ManifestSHA256 summary,
              asn_Folders = copy_nil (sort_key fst_FolderID (map folder_of_reduced (content_Folders sx source))),
              asn_Messages = copy_nil (sort_key am_RKey ms),
              asn_States = copy_nil (sort_key mst_LogicalMessageID (map state_of_reduced (content_MessageStates sx source)))\<rparr>))"

text \<open>\<open>None\<close> stands for a read that does not return, as in \<open>ReadOfficialSpacesRecoverySource\<close>.\<close>

definition readOfficialSnapshot ::
  "ipld_api \<Rightarrow> syntax_api \<Rightarrow> (nat \<Rightarrow> nat) \<Rightarrow> (nat \<Rightarrow> nat \<Rightarrow> resolver_api) \<Rightarrow> (nat \<Rightarrow> nat \<Rightarrow> err option) \<Rightarrow> (nat \<Rightarrow> err option)
     \<Rightarrow> OfficialTarget \<Rightarrow> AuthorityTarget \<Rightarrow> source_reads \<Rightarrow> blob_reads \<Rightarrow> AuthoritySnapshot result option" where
  "readOfficialSnapshot ip sx sf rs ctx visit_ctx clientTarget target reads blob_rs =
     map_option (\<lambda>r. case r of Inl e \<Rightarrow> Inl e | Inr source \<Rightarrow> snapshot_of_source ip sx visit_ctx clientTarget target source)
       (ReadOfficialSpacesRecoverySource ip sx sf rs ctx clientTarget reads blob_rs)"

end
