(* ===== verification/Authority_Append.thy ===== *)
theory Authority_Append
  imports Authority_Engine
begin

text \<open>
  What the engine appends is accepted by the reducer. The code comments say that a bad append would
  permanently invalidate the complete source, because records are immutable and one revision
  that does not reduce makes the whole source unreadable. The lemmas here show that a revision
  whose parents are the heads of a live state and that passes the checks of the engine extends
  every reducible history, and what the new state is.
\<close>

section \<open>Heights and counts\<close>

lemma unat_plus_one: "h + 1 \<noteq> 0 \<Longrightarrow> unat (h + 1) = Suc (unat h)" for h :: u64
  using unatSuc [of h] by (simp add: add.commute)

lemma height_chain:
  assumes red: "reducible sx did lm i es"
  shows "e \<in> set es \<Longrightarrow> {1 .. unat (ev_height e)} \<subseteq> (\<lambda>x. unat (ev_height x)) ` set es"
proof (induction "unat (ev_height e)" arbitrary: e)
  case 0
  then show ?case by simp
next
  case (Suc n)
  show ?case
  proof (cases "ev_parents e = []")
    case True
    then have "initial_ok e"
      using red Suc.prems by (auto simp: reducible_def admitted_def event_linked_def)
    then have "unat (ev_height e) = 1" by (simp add: initial_ok_def)
    then show ?thesis using Suc.prems by (auto intro!: image_eqI [of _ _ e])
  next
    case False
    then obtain p where p: "p \<in> set es" "ev_height e = ev_height p + 1"
      using reducible_heights [OF red Suc.prems] by blast
    have "ev_height e \<noteq> 0" using validateRevisionD(5) [OF event_checkedD [OF red Suc.prems]] .
    then have "unat (ev_height p) = n" using p(2) Suc.hyps(2) by (simp add: unat_plus_one)
    then have "{1 .. n} \<subseteq> (\<lambda>x. unat (ev_height x)) ` set es" using Suc.hyps(1) [of p] p(1) by simp
    moreover have "{1 .. unat (ev_height e)} = insert (unat (ev_height e)) {1 .. n}" using Suc.hyps(2) by auto
    ultimately show ?thesis using Suc.prems by simp
  qed
qed

lemma height_le_count:
  assumes "reducible sx did lm i es" and "e \<in> set es"
  shows "unat (ev_height e) \<le> length es"
proof -
  have "card {1 .. unat (ev_height e)} \<le> card ((\<lambda>x. unat (ev_height x)) ` set es)"
    using height_chain [OF assms] by (intro card_mono) auto
  also have "\<dots> \<le> length es" by (meson card_image_le card_length finite_set order_trans)
  finally show ?thesis by simp
qed

lemma foldl_max_ge: "x \<in> insert m (set xs) \<Longrightarrow> x \<le> foldl max m xs" for m :: u64
  by (induction xs rule: rev_induct) (auto simp: le_max_iff_disj)

text \<open>The height of a reduced state is the greatest height, and it is reached by a head.\<close>

lemma reduced_height:
  assumes red: "Reduce sx did lm es i = Inr st"
  shows "e \<in> set es \<Longrightarrow> ev_height e \<le> rs_Height st" "\<exists>h \<in> set es. ev_height h = rs_Height st \<and> sv_RKey h \<in> set (rs_Heads st)"
    "rs_Height st \<noteq> 0" "unat (rs_Height st) \<le> length es"
proof -
  let ?ord = "event_order ev_height ev_operation es"
  have acc: "reducible sx did lm i es" using red by (simp add: Reduce_iff)
  have H: "rs_Height st = foldl max 0 (map ev_height ?ord)" by (rule Reduce_registers(11) [OF red])
  show ge: "e \<in> set es \<Longrightarrow> ev_height e \<le> rs_Height st" for e
    unfolding H by (intro foldl_max_ge) simp
  have pos: "ev_height e \<noteq> 0" if "e \<in> set es" for e using validateRevisionD(5) [OF event_checkedD [OF acc that]] .
  obtain e0 where e0: "e0 \<in> set es" using acc by (cases es) (auto simp: reducible_def)
  show nz: "rs_Height st \<noteq> 0" using ge [OF e0] pos [OF e0] by auto
  then obtain h where h: "h \<in> set es" "ev_height h = rs_Height st"
    using max_member [of "map ev_height ?ord"] unfolding H by auto
  show "unat (rs_Height st) \<le> length es" using height_le_count [OF acc h(1)] h(2) by simp
  have "sv_RKey h \<notin> set (ev_parents c)" if "c \<in> set es" for c
    using log.parent_lower [OF acc, of h c] ge [OF that] h that by (auto simp: parent_in_def)
  then show "\<exists>h \<in> set es. ev_height h = rs_Height st \<and> sv_RKey h \<in> set (rs_Heads st)"
    using h unfolding Reduce_registers(10) [OF red] log.heads_spec by blast
qed

section \<open>One more revision\<close>

text \<open>
  A revision that may follow a reduced state: its parents are the heads, it is one higher, and what it
  assigns is well formed and refers to versions and live folders of the snapshot \<open>i\<close>.
\<close>

definition follows :: "syntax_api \<Rightarrow> bytes \<Rightarrow> ReducedState \<Rightarrow> VerifiedSnapshot \<Rightarrow> StateRevision \<Rightarrow> bool" where
  "follows sx did st i e \<longleftrightarrow> (let r = sv_Record e in
     StateRevisionRKey sx did r = Inr (sv_RKey e) \<and> rv_Type r = MessageStateRevisionCollection
     \<and> rv_LogicalMessageID r = rs_LogicalMessageID st \<and> rv_Parents r = Some (rs_Heads st) \<and> rv_Revision r = rs_Height st + 1
     \<and> parse_RFC3339Nano (rv_CreatedAt r) \<and> \<not> rv_Merge r
     \<and> (rv_Version r \<noteq> [] \<longrightarrow> validSHA256Identifier (rv_Version r) \<and> map_of (vs_versions i) (rv_Version r) = Some (rs_LogicalMessageID st))
     \<and> (\<forall>ids. rv_MailboxIDs r = Some ids \<longrightarrow> ids \<noteq> [] \<and> strictlySortedUnique ids \<and> (\<forall>f \<in> set ids. validFolderID f \<and> live_folder i f))
     \<and> keywords_ok [] (elems (rv_Keywords r))
     \<and> rv_Tombstone r = (\<not> hasLiveAssignments r))"

lemma CanonicalRevisionBytes_limits:
  assumes "CanonicalRevisionBytes r = Inr b"
  shows "length (elems (rv_Parents r)) \<le> maxParents" "length (elems (rv_MailboxIDs r)) \<le> maxMailboxes"
    "length (elems (rv_Keywords r)) \<le> maxKeywords"
  using assms by (auto simp: CanonicalRevisionBytes_def split: if_splits sum.splits)

lemma StateRevisionRKey_encodes:
  assumes "StateRevisionRKey sx did r = Inr k"
  shows "CanonicalRevisionBytes r = Inr (encode_revision r)" "validIdentifier (rv_OperationID r) maxOperationIDBytes"
  using assms by (auto simp: StateRevisionRKey_def dest: CanonicalRevisionBytes_Inr split: if_splits sum.splits)

lemma check_folders_live:
  "(\<forall>f \<in> set fs. validFolderID f \<and> live_folder i f) \<Longrightarrow> check_folders i fs = Inr ()"
  by (induction fs) (auto simp: live_folder_def split: option.splits)

lemma state_rkey_shape: "length d = 32 \<Longrightarrow> validStateRKey (''state-'' @ hex_encode d)"
proof -
  assume d: "length d = 32"
  define p where "p = (''state-'' :: bytes)"
  have "validStateRKey (p @ hex_encode d)" using d unfolding validStateRKey_def p_def [symmetric] by simp
  then show ?thesis by (simp only: p_def)
qed

lemma event_rkey:
  assumes "reducible sx did lm i es" and "e \<in> set es"
  obtains d where "length d = 32" "sv_RKey e = ''state-'' @ hex_encode d"
  using StateRevisionRKey_Inr(1) [OF validateRevisionD(3) [OF event_checkedD [OF assms]]] length_sha256 by blast

lemma follows_valid:
  assumes red: "Reduce sx did lm es i0 = Inr st" and f: "follows sx did st i e" and fresh: "sv_RKey e \<notin> sv_RKey ` set es"
    and count: "length es < maxRevisionCount"
  shows "validateRevision sx did lm e i = Inr ()" "ev_height e = rs_Height st + 1" "unat (ev_height e) = unat (rs_Height st) + 1"
proof -
  have acc: "reducible sx did lm i0 es" using red by (simp add: Reduce_iff)
  let ?r = "sv_Record e"
  have key: "StateRevisionRKey sx did ?r = Inr (sv_RKey e)" and rev': "rv_Revision ?r = rs_Height st + 1"
    and par: "elems (rv_Parents ?r) = rs_Heads st" "rv_Parents ?r \<noteq> None" and lm: "rs_LogicalMessageID st = lm"
    using f Reduce_registers(1) [OF red] by (simp_all add: follows_def Let_def)
  note limits = CanonicalRevisionBytes_limits [OF StateRevisionRKey_encodes(1) [OF key]]
  have small: "unat (rs_Height st) < 4096" using reduced_height(4) [OF red] count by (simp add: maxRevisionCount_def)
  then show h: "unat (ev_height e) = unat (rs_Height st) + 1" unfolding rev' by (simp add: unat_word_ariths)
  have "rv_Revision ?r \<noteq> 0" "rv_Revision ?r \<le> maxPortableRevision"
    using h small by (auto simp: maxPortableRevision_def word_le_nat_alt unat_eq_0 [symmetric] simp del: unat_eq_0)
  moreover have heads: "\<exists>x \<in> set es. sv_RKey x = p" if "p \<in> set (rs_Heads st)" for p
    using that unfolding Reduce_registers(10) [OF red] log.heads_spec by blast
  have "strictlySortedUnique (rs_Heads st)" unfolding strictlySortedUnique_iff
  proof
    show "sorted_wrt (<) (rs_Heads st)" unfolding Reduce_registers(10) [OF red] by (rule log.heads_sorted [OF acc])
    show "list_all (\<lambda>v. validIdentifier v maxIdentifierBytes) (rs_Heads st)" unfolding list_all_iff
    proof
      fix p assume "p \<in> set (rs_Heads st)"
      then obtain x where x: "x \<in> set es" "sv_RKey x = p" using heads by blast
      obtain d where d: "length d = 32" "sv_RKey x = ''state-'' @ hex_encode d" by (rule event_rkey [OF acc x(1)])
      have "printable p" unfolding x(2) [symmetric] d(2) by (simp add: printable_append printable_hex) (simp add: printable_Cons printable_Nil byte_def)
      then show "validIdentifier p maxIdentifierBytes" using d x(2) by (intro printable_identifier) (auto simp: maxIdentifierBytes_def)
    qed
  qed
  moreover have "\<not> list_ex (\<lambda>p. \<not> validStateRKey p \<or> p = sv_RKey e) (rs_Heads st)"
  proof -
    have "validStateRKey p \<and> p \<noteq> sv_RKey e" if p: "p \<in> set (rs_Heads st)" for p
    proof -
      obtain x where x: "x \<in> set es" "sv_RKey x = p" using heads [OF p] by blast
      obtain d where d: "length d = 32" "sv_RKey x = ''state-'' @ hex_encode d" by (rule event_rkey [OF acc x(1)])
      have "validStateRKey p" unfolding x(2) [symmetric] d(2) by (rule state_rkey_shape [OF d(1)])
      moreover have "p \<noteq> sv_RKey e" using imageI [OF x(1), of sv_RKey] x(2) fresh by metis
      ultimately show ?thesis by (rule conjI)
    qed
    then show ?thesis by (simp add: list_ex_iff)
  qed
  moreover have "check_folders i (elems (rv_MailboxIDs ?r)) = Inr ()"
    using f by (intro check_folders_live) (cases "rv_MailboxIDs ?r"; auto simp: follows_def Let_def)
  ultimately show "validateRevision sx did lm e i = Inr ()"
    using f key limits StateRevisionRKey_encodes(2) [OF key] par lm
    by (cases "rv_MailboxIDs ?r") (auto simp: validateRevision_def Let_def follows_def)
  show "ev_height e = rs_Height st + 1" by (rule rev')
qed

text \<open>
  A snapshot \<open>i'\<close> of a history with one more revision: it has the claims of \<open>i\<close> and that of the new
  revision, at least its versions, and the same folders.
\<close>

definition snapshot_extends :: "syntax_api \<Rightarrow> bytes \<Rightarrow> bytes \<Rightarrow> VerifiedSnapshot \<Rightarrow> StateRevision \<Rightarrow> VerifiedSnapshot \<Rightarrow> bool" where
  "snapshot_extends sx did lm i e i' \<longleftrightarrow> validFor i' lm (vs_revisionCount i + 1) \<and> vs_folders i' = vs_folders i
     \<and> (\<forall>k v. map_of (vs_operationClaims i) k = Some v \<longrightarrow> map_of (vs_operationClaims i') k = Some v)
     \<and> (\<exists>c. NewOperationClaim sx did e = Inr c \<and> map_of (vs_operationClaims i') (cl_RKey c) = Some (sv_RKey e))
     \<and> (\<forall>v. map_of (vs_versions i) v = Some lm \<longrightarrow> map_of (vs_versions i') v = Some lm)"

lemma check_folders_cong: "vs_folders i' = vs_folders i \<Longrightarrow> check_folders i' fs = check_folders i fs"
  by (induction fs) (simp_all split: option.splits)

lemma check_claimed_extends:
  assumes "check_claimed sx did lm i x = Inr ()" and ext: "snapshot_extends sx did lm i e i'"
  shows "check_claimed sx did lm i' x = Inr ()"
proof -
  obtain c where val: "validateRevision sx did lm x i = Inr ()" and c: "NewOperationClaim sx did x = Inr c"
      "map_of (vs_operationClaims i) (cl_RKey c) = Some (sv_RKey x)"
    using assms(1) by (auto simp: check_claimed_def split: sum.splits option.splits if_splits)
  have "check_folders i' fs = check_folders i fs" for fs 
    using ext by (intro check_folders_cong) (simp add: snapshot_extends_def)
  moreover have "rv_Version (sv_Record x) \<noteq> [] \<Longrightarrow> map_of (vs_versions i') (rv_Version (sv_Record x)) = Some lm"
    using ext validateRevisionD(10) [OF val] by (simp add: snapshot_extends_def)
  then have "(rv_Version (sv_Record x) \<noteq> [] \<and> map_of (vs_versions i') (rv_Version (sv_Record x)) \<noteq> Some lm) \<longleftrightarrow>
      (rv_Version (sv_Record x) \<noteq> [] \<and> map_of (vs_versions i) (rv_Version (sv_Record x)) \<noteq> Some lm)"
    using validateRevisionD(10) [OF val] by blast
  ultimately have "validateRevision sx did lm x i' = validateRevision sx did lm x i"
    by (simp only: validateRevision_def Let_def)
  with val have "validateRevision sx did lm x i' = Inr ()" by simp
  with c ext show ?thesis by (simp add: check_claimed_def snapshot_extends_def)
qed

lemma lookup_snoc:
  "heights_by_key key height (es @ [e]) k = (if k \<in> key ` set es then heights_by_key key height es k
     else if k = key e then Some (height e) else None)"
  by (auto simp: heights_by_key_def map_add_def map_of_eq_None_iff image_iff split: option.splits dest!: map_of_SomeD)

lemma linked_snoc:
  assumes "event_linked (heights_by_key key height es) parents height ok x" and "key e \<notin> key ` set es"
  shows "event_linked (heights_by_key key height (es @ [e])) parents height ok x"
proof -
  have "heights_by_key key height (es @ [e]) p = heights_by_key key height es p" if "heights_by_key key height es p \<noteq> None" for p
  proof -
    have "p \<in> key ` set es" using that by (auto simp: heights_by_key_def dest!: map_of_SomeD)
    then show ?thesis by (simp add: lookup_snoc)
  qed
  then have "\<forall>p \<in> set (parents x). parents x \<noteq> [] \<longrightarrow> heights_by_key key height (es @ [e]) p = heights_by_key key height es p"
    using assms(1) by (fastforce simp: event_linked_def split: if_splits)
  then show ?thesis using assms(1) by (auto simp: event_linked_def cong: map_cong)
qed

lemma foldl_max_eq:
  fixes m :: u64
  assumes "m \<in> set xs" and "\<And>x. x \<in> set xs \<Longrightarrow> x \<le> m"
  shows "foldl max 0 xs = m"
proof (rule antisym)
  show "foldl max 0 xs \<le> m" using max_member [of xs] assms(2) by auto
  show "m \<le> foldl max 0 xs" using assms(1) by (intro foldl_max_ge) simp
qed

lemma heads_linked:
  assumes red: "Reduce sx did lm es i = Inr st" and h: "ev_height e = rs_Height st + 1" "unat (ev_height e) = unat (rs_Height st) + 1"
    and par: "ev_parents e = rs_Heads st" and fresh: "sv_RKey e \<notin> sv_RKey ` set es"
  shows "event_linked (heights_by_key sv_RKey ev_height (es @ [e])) ev_parents ev_height initial_ok e" and "ev_parents e \<noteq> []"
proof -
  have acc: "reducible sx did lm i es" using red by (simp add: Reduce_iff)
  let ?H = "heights_by_key sv_RKey ev_height (es @ [e])"
  show ne: "ev_parents e \<noteq> []" using reduced_height(2) [OF red] par by auto
  have look: "?H (sv_RKey x) = Some (ev_height x)" if "x \<in> set es" for x
  proof -
    have "map_of (map (\<lambda>e. (sv_RKey e, e)) es) (sv_RKey x) = Some x"
      using lookup_keyed [OF log.keys_distinct [OF acc], of "sv_RKey x" x] that by simp
    then show ?thesis using that by (simp add: lookup_snoc) (simp add: heights_by_key_def)
  qed
  have mem: "\<exists>x \<in> set es. sv_RKey x = p" if "p \<in> set (rs_Heads st)" for p
    using that unfolding Reduce_registers(10) [OF red] log.heads_spec by blast
  have low: "ev_height x < ev_height e" if "x \<in> set es" for x
    using reduced_height(1) [OF red that] h(2) by (simp add: word_le_nat_alt word_less_nat_alt)
  have "foldl max 0 (map (\<lambda>p. the (?H p)) (rs_Heads st)) = rs_Height st"
  proof (rule foldl_max_eq)
    obtain x where "x \<in> set es" "ev_height x = rs_Height st" "sv_RKey x \<in> set (rs_Heads st)" using reduced_height(2) [OF red] by blast
    then show "rs_Height st \<in> set (map (\<lambda>p. the (?H p)) (rs_Heads st))" using look by (force simp: image_iff)
    show "y \<le> rs_Height st" if y: "y \<in> set (map (\<lambda>p. the (?H p)) (rs_Heads st))" for y
    proof -
      obtain p where p: "p \<in> set (rs_Heads st)" "y = the (?H p)" using y by auto
      obtain x where "x \<in> set es" "sv_RKey x = p" using mem [OF p(1)] by blast
      then show ?thesis using p(2) look reduced_height(1) [OF red] by fastforce
    qed
  qed
  moreover have "\<exists>h. ?H p = Some h \<and> h < ev_height e" if "p \<in> set (rs_Heads st)" for p
    using mem [OF that] look low by metis
  ultimately show "event_linked ?H ev_parents ev_height initial_ok e"
    using ne h(1) unfolding event_linked_def par by simp
qed

text \<open>The new revision is the last one of the order, and the only head.\<close>

lemma order_snoc:
  assumes "distinct (map operation (es @ [e]))" and "\<And>x. x \<in> set es \<Longrightarrow> height x < height e"
  shows "event_order height operation (es @ [e]) = event_order height operation es @ [e]"
proof -
  have "mset (es @ [e]) = mset (event_order height operation es @ [e])" by simp
  then have "event_order height operation (es @ [e]) = event_order height operation (event_order height operation es @ [e])"
    by (rule event_order_unique [OF assms(1)])
  also have "\<dots> = event_order height operation es @ [e]"
  proof -
    have "sorted (map (\<lambda>e. (height e, operation e)) (event_order height operation es))"
      unfolding event_order_def by (rule sorted_sort_key)
    moreover have "(height x, operation x) \<le> (height e, operation e)" if "x \<in> set es" for x
      using assms(2) [OF that] by simp
    ultimately show ?thesis
      by (subst event_order_def, intro sort_key_id_if_sorted) (simp add: sorted_append)
  qed
  finally show ?thesis .
qed

lemma append_reducible:
  assumes red: "Reduce sx did lm es i = Inr st" and f: "follows sx did st i' e" and ext: "snapshot_extends sx did lm i e i'"
    and key: "sv_RKey e \<notin> sv_RKey ` set es" and oper: "ev_operation e \<notin> ev_operation ` set es"
    and count: "length es < maxRevisionCount" and bytes: "(\<Sum>x\<leftarrow>es @ [e]. size_of revision_size x) \<le> maxRevisionInventoryBytes"
  shows "reducible sx did lm i' (es @ [e])"
    and "event_order ev_height ev_operation (es @ [e]) = event_order ev_height ev_operation es @ [e]"
    and "heads_of sv_RKey (concat (rev (map ev_parents (es @ [e])))) (event_order ev_height ev_operation (es @ [e])) = [sv_RKey e]"
proof -
  have acc: "reducible sx did lm i es" using red by (simp add: Reduce_iff)
  note val = follows_valid [OF red f key count]
  have par: "ev_parents e = rs_Heads st" using f by (simp add: follows_def Let_def)
  note link = heads_linked [OF red val(2,3) par key]
  have fine: "event_fine revision_size (check_claimed sx did lm i') x" if "x \<in> set (es @ [e])" for x
  proof (cases "x = e")
    case True
    have "StateRevisionRKey sx did (sv_Record e) = Inr (sv_RKey e)" using f by (simp add: follows_def Let_def)
    then have "\<exists>n. revision_size e = Inr n"
      using StateRevisionRKey_encodes(1) CanonicalRevisionBytes_Inr by (fastforce simp: revision_size_def)
    moreover have "check_claimed sx did lm i' e = Inr ()" using val(1) ext by (auto simp: check_claimed_def snapshot_extends_def)
    ultimately show ?thesis using True by (simp add: event_fine_def)
  next
    case False
    then have "event_fine revision_size (check_claimed sx did lm i) x"
      using that acc by (simp add: reducible_def admitted_def)
    then show ?thesis using check_claimed_extends [OF _ ext] by (simp add: event_fine_def)
  qed
  have "event_linked (heights_by_key sv_RKey ev_height (es @ [e])) ev_parents ev_height initial_ok x" if "x \<in> set (es @ [e])" for x
  proof (cases "x = e")
    case False
    then have "event_linked (heights_by_key sv_RKey ev_height es) ev_parents ev_height initial_ok x"
      using that acc by (simp add: reducible_def admitted_def)
    then show ?thesis by (rule linked_snoc [OF _ key])
  qed (use link in simp)
  moreover have dist: "distinct (map ev_operation (es @ [e]))" "distinct (map sv_RKey (es @ [e]))"
    using log.operations_distinct [OF acc] log.keys_distinct [OF acc] key oper by simp_all
  ultimately have "admitted sv_RKey ev_operation ev_parents ev_height revision_size (check_claimed sx did lm i') initial_ok (es @ [e])"
    using fine bytes unfolding admitted_def by blast
  moreover have "validFor i' lm (length (es @ [e]))"
    using ext acc by (auto simp: snapshot_extends_def reducible_def validFor_def split: if_splits)
  ultimately show acc': "reducible sx did lm i' (es @ [e])"
    using acc count link(2) by (auto simp: reducible_def)
  have low: "ev_height x < ev_height e" if "x \<in> set es" for x
    using reduced_height(1) [OF red that] val(3) by (simp add: word_le_nat_alt word_less_nat_alt)
  show ord: "event_order ev_height ev_operation (es @ [e]) = event_order ev_height ev_operation es @ [e]"
    by (rule order_snoc) (use dist(1) low in simp_all)
  let ?heads = "heads_of sv_RKey (concat (rev (map ev_parents (es @ [e])))) (event_order ev_height ev_operation (es @ [e]))"
  have "x = sv_RKey e" if "x \<in> set ?heads" for x
  proof (rule ccontr)
    assume ne: "x \<noteq> sv_RKey e"
    obtain h where h: "x = sv_RKey h" "h \<in> set (es @ [e])" "\<forall>c \<in> set (es @ [e]). sv_RKey h \<notin> set (ev_parents c)"
      using \<open>x \<in> set ?heads\<close> unfolding log.heads_spec by blast
    then have "h \<in> set es" "\<forall>c \<in> set es. sv_RKey h \<notin> set (ev_parents c)" using ne by auto
    then have "sv_RKey h \<in> set (rs_Heads st)" unfolding Reduce_registers(10) [OF red] log.heads_spec by blast
    then show False using h(3) par by auto
  qed
  then have "set ?heads \<subseteq> {sv_RKey e}" by blast
  moreover have "?heads \<noteq> []" by (rule log.heads_nonempty [OF acc'])
  moreover have "sorted_wrt (<) ?heads" by (rule log.heads_sorted [OF acc'])
  moreover have "xs = [k]" if "set xs \<subseteq> {k}" "xs \<noteq> []" "sorted_wrt (<) xs" for xs and k :: bytes
    using that by (cases xs; cases "tl xs") auto
  ultimately show "?heads = [sv_RKey e]" by blast
qed

lemma append_walk:
  assumes acc: "reducible sx did lm i' (es @ [e])" and clean: "\<forall>x \<in> set es. \<not> rv_Tombstone (sv_Record x)"
    and last: "\<And>x. x \<in> set es \<Longrightarrow> ev_height x < ev_height e"
  shows "\<exists>fl. tombstone_walk sv_RKey ev_parents (\<lambda>e. rv_Tombstone (sv_Record e)) (\<lambda>e. hasLiveAssignments (sv_Record e)) []
    (event_order ev_height ev_operation (es @ [e])) = Inr fl"
  unfolding log.walk_accepts [OF acc]
proof (intro ballI impI notI)
  fix x assume x: "x \<in> set (es @ [e])" "\<exists>a. (parent_in sv_RKey ev_parents (es @ [e]))\<^sup>+\<^sup>+ a x \<and> rv_Tombstone (sv_Record a)"
  then obtain a where a: "(parent_in sv_RKey ev_parents (es @ [e]))\<^sup>+\<^sup>+ a x" "rv_Tombstone (sv_Record a)" by blast
  have "a \<in> set (es @ [e])" using log.ancestor_member [OF tranclp_into_rtranclp [OF a(1)] x(1)] .
  then have "a = e" using a(2) clean by auto
  then have "ev_height e < ev_height x" using log.ancestor_lower [OF a(1) acc] by simp
  then show False using x(1) last by (auto dest: order.asym)
qed

text \<open>The state after one more revision, register by register.\<close>

lemma Reduce_append:
  assumes red: "Reduce sx did lm es i = Inr st" and f: "follows sx did st i' e" and ext: "snapshot_extends sx did lm i e i'"
    and live: "\<not> rs_Tombstone st"
    and key: "sv_RKey e \<notin> sv_RKey ` set es" and oper: "ev_operation e \<notin> ev_operation ` set es"
    and count: "length es < maxRevisionCount" and bytes: "(\<Sum>x\<leftarrow>es @ [e]. size_of revision_size x) \<le> maxRevisionInventoryBytes"
  shows "\<exists>st'. Reduce sx did lm (es @ [e]) i' = Inr st' \<and> rs_SnapshotID st' = vs_snapshotID i'
    \<and> rs_Version st' = (if rv_Version (sv_Record e) = [] then rs_Version st else rv_Version (sv_Record e))
    \<and> rs_MailboxIDs st' = (case rv_MailboxIDs (sv_Record e) of None \<Rightarrow> rs_MailboxIDs st | Some ids \<Rightarrow> Some ids)
    \<and> set (elems (rs_Keywords st')) = {k. (case keyword_assigned k e of None \<Rightarrow> k \<in> set (elems (rs_Keywords st)) | Some b \<Rightarrow> b)}
    \<and> rs_DeletePending st' = (\<not> rv_Tombstone (sv_Record e)
        \<and> (case rv_DeletePending (sv_Record e) of None \<Rightarrow> rs_DeletePending st | Some b \<Rightarrow> b))
    \<and> rs_Tombstone st' = rv_Tombstone (sv_Record e) \<and> rs_Heads st' = [sv_RKey e]
    \<and> rs_Height st' = rs_Height st + 1 \<and> unat (rs_Height st') = unat (rs_Height st) + 1 \<and> rs_RevisionCount st' = rs_RevisionCount st + 1"
proof -
  note app = append_reducible [OF red f ext key oper count bytes]
  note val = follows_valid [OF red f key count]
  define ord where "ord = event_order ev_height ev_operation es"
  note regs = Reduce_registers [OF red, folded ord_def]
  have clean: "\<forall>x \<in> set es. \<not> rv_Tombstone (sv_Record x)" using live regs(6) by blast
  have low: "ev_height x < ev_height e" if "x \<in> set es" for x
    using reduced_height(1) [OF red that] val(3) by (simp add: word_le_nat_alt word_less_nat_alt)
  obtain st0 kws where fold: "foldl reduce_event (start_state lm (vs_snapshotID i') (length (ord @ [e])), []) (ord @ [e]) = (st0, kws)"
    by force
  have "rv_MailboxIDs (sv_Record x) \<noteq> Some []" if "x \<in> set (ord @ [e])" for x
    using validateRevisionD(8) [OF event_checkedD [OF app(1)]] that by (simp add: ord_def)
  note fregs = reduce_fold [OF fold this]
  have "list_all (live_folder i') (elems (rs_MailboxIDs st0))"
  proof (cases "rv_MailboxIDs (sv_Record e)")
    case None
    then have "rs_MailboxIDs st0 = rs_MailboxIDs st" using fregs regs(5) by simp
    moreover have "live_folder i' fid = live_folder i fid" for fid using ext by (simp add: live_folder_def snapshot_extends_def)
    ultimately show ?thesis using regs(12) live by (simp add: list_all_iff)
  next
    case (Some ids)
    then have "rs_MailboxIDs st0 = Some ids" using fregs by simp
    then show ?thesis using f Some by (simp add: follows_def Let_def list_all_iff)
  qed
  then obtain st' where fin: "finish_reduce lm i' (concat (rev (map ev_parents (es @ [e])))) (ord @ [e]) = Inr st'"
    using finish_ok [OF fold] by blast
  then have red': "Reduce sx did lm (es @ [e]) i' = Inr st'"
    using app append_walk [OF app(1) clean low] unfolding Reduce_iff ord_def by simp
  note regs' = Reduce_registers [OF red', unfolded app(2), folded ord_def]
  show ?thesis
  proof (intro exI [of _ st'] conjI)
    show "rs_Heads st' = [sv_RKey e]" using regs'(10) app(2,3) by (simp add: ord_def)
    have "rs_Height st' = foldl max 0 (map ev_height (ord @ [e]))" by (rule regs'(11))
    also have "\<dots> = ev_height e"
    proof (rule foldl_max_eq)
      fix h assume "h \<in> set (map ev_height (ord @ [e]))"
      then show "h \<le> ev_height e" using low by (auto simp: ord_def intro: order.strict_implies_order)
    qed simp
    finally show "rs_Height st' = rs_Height st + 1" "unat (rs_Height st') = unat (rs_Height st) + 1" using val by simp_all
    show "rs_DeletePending st' = (\<not> rv_Tombstone (sv_Record e)
        \<and> (case rv_DeletePending (sv_Record e) of None \<Rightarrow> rs_DeletePending st | Some b \<Rightarrow> b))"
      using regs'(6,7) regs(7) clean live by (auto split: option.splits)
    show "set (elems (rs_Keywords st')) = {k. (case keyword_assigned k e of None \<Rightarrow> k \<in> set (elems (rs_Keywords st)) | Some b \<Rightarrow> b)}"
      unfolding regs'(8) regs(8) by (auto split: option.splits)
    show "rs_Version st' = (if rv_Version (sv_Record e) = [] then rs_Version st else rv_Version (sv_Record e))"
      using regs'(4) regs(4) by (simp add: version_assigned_def)
    show "rs_MailboxIDs st' = (case rv_MailboxIDs (sv_Record e) of None \<Rightarrow> rs_MailboxIDs st | Some ids \<Rightarrow> Some ids)"
      using regs'(5) regs(5) by (simp split: option.splits)
    show "rs_Tombstone st' = rv_Tombstone (sv_Record e)" using regs'(6) clean by simp
    show "rs_RevisionCount st' = rs_RevisionCount st + 1" using regs'(3) regs(3) by simp
  qed (use red' regs'(2) in simp_all)
qed

section \<open>New keys\<close>

definition sha256_collision :: bool where
  "sha256_collision \<longleftrightarrow> (\<exists>x y. x \<noteq> y \<and> sha256 x = sha256 y)"

lemma sha256_eqD: "sha256 x = sha256 y \<Longrightarrow> \<not> sha256_collision \<Longrightarrow> x = y"
  by (auto simp: sha256_collision_def)

lemma claim_key:
  assumes "NewOperationClaim sx did e = Inr c"
  shows "cl_RKey c = ''operation-'' @ hex_encode (sha256 (claim_rkey_preimage did (rv_LogicalMessageID (sv_Record e)) (ev_operation e)))"
  using assms by (auto simp: NewOperationClaim_def OperationClaimRKey_def split: sum.splits if_splits)

lemma claim_fresh:
  assumes acc: "reducible sx did lm i es" and dist: "distinct (keys (vs_operationClaims i))"
    and c: "NewOperationClaim sx did e = Inr c" "rv_LogicalMessageID (sv_Record e) = lm"
    and oper: "ev_operation e \<notin> ev_operation ` set es" and nc: "\<not> sha256_collision"
  shows "cl_RKey c \<notin> set (keys (vs_operationClaims i))"
proof
  let ?ck = "\<lambda>x. ''operation-'' @ hex_encode (sha256 (claim_rkey_preimage did lm (ev_operation x)))"
  have claimed: "map_of (vs_operationClaims i) (?ck x) = Some (sv_RKey x)" if "x \<in> set es" for x
  proof -
    have chk: "check_claimed sx did lm i x = Inr ()" using acc that by (simp add: reducible_def admitted_def event_fine_def)
    have "rv_LogicalMessageID (sv_Record x) = lm" using validateRevisionD(2) [OF event_checkedD [OF acc that]] .
    then show ?thesis using chk claim_key [of sx did x] by (auto simp: check_claimed_def split: sum.splits option.splits if_splits)
  qed
  have inj: "inj_on ?ck (set es)"
  proof (rule inj_onI)
    fix x y assume "x \<in> set es" "y \<in> set es" "?ck x = ?ck y"
    then show "x = y" using claimed [of x] claimed [of y] log.key_inj [OF acc, of x y] by simp
  qed
  have "length (vs_operationClaims i) = length es" using acc by (auto simp: reducible_def validFor_def split: if_splits)
  moreover have "distinct es" using log.keys_distinct [OF acc] by (simp add: distinct_map)
  ultimately have "card (?ck ` set es) = card (set (keys (vs_operationClaims i)))"
    unfolding card_image [OF inj] distinct_card [OF dist] by (simp add: distinct_card)
  moreover have "?ck ` set es \<subseteq> set (keys (vs_operationClaims i))"
  proof
    fix k assume "k \<in> ?ck ` set es"
    then obtain x where "x \<in> set es" "k = ?ck x" by blast
    with claimed [of x] have "(k, sv_RKey x) \<in> set (vs_operationClaims i)" by (simp add: map_of_SomeD)
    then show "k \<in> set (keys (vs_operationClaims i))" by force
  qed
  ultimately have all: "?ck ` set es = set (keys (vs_operationClaims i))" by (intro card_subset_eq) auto
  assume "cl_RKey c \<in> set (keys (vs_operationClaims i))"
  then obtain x where x: "x \<in> set es" "cl_RKey c = ?ck x" unfolding all [symmetric] by blast
  then have "sha256 (claim_rkey_preimage did lm (ev_operation e)) = sha256 (claim_rkey_preimage did lm (ev_operation x))"
    unfolding claim_key [OF c(1)] c(2) by (simp add: hex_encode_inj)
  from sha256_eqD [OF this nc] have "ev_operation e = ev_operation x" by (simp add: claim_rkey_preimage_def)
  with oper x(1) show False by blast
qed

lemma key_fresh:
  assumes acc: "reducible sx did lm i es" and k: "StateRevisionRKey sx did (sv_Record e) = Inr (sv_RKey e)"
    and oper: "ev_operation e \<notin> ev_operation ` set es" and nc: "\<not> sha256_collision"
  shows "sv_RKey e \<notin> sv_RKey ` set es"
proof
  assume "sv_RKey e \<in> sv_RKey ` set es"
  then obtain x where x: "x \<in> set es" "sv_RKey e = sv_RKey x" by blast
  have kx: "StateRevisionRKey sx did (sv_Record x) = Inr (sv_RKey x)" using validateRevisionD(3) [OF event_checkedD [OF acc x(1)]] .
  have "sha256 (state_rkey_preimage did (encode_revision (sv_Record e))) = sha256 (state_rkey_preimage did (encode_revision (sv_Record x)))"
    using StateRevisionRKey_Inr(1) [OF k] StateRevisionRKey_Inr(1) [OF kx] x(2) by (simp add: hex_encode_inj)
  from sha256_eqD [OF this nc] have "encode_revision (sv_Record e) = encode_revision (sv_Record x)"
    by (simp add: state_rkey_preimage_def)
  then have same: "same_revision (sv_Record e) (sv_Record x)" by (simp add: encode_revision_inj)
  then have "ev_operation e = ev_operation x"
    by (cases "sv_Record e"; cases "sv_Record x") (simp add: same_revision_def)
  with oper x(1) show False by blast
qed

lemma snapshot_extendsI:
  assumes acc: "reducible sx did lm i es" and dist: "distinct (keys (vs_operationClaims i))"
    and c: "NewOperationClaim sx did e = Inr c" and fresh: "cl_RKey c \<notin> set (keys (vs_operationClaims i))"
    and sid: "validIdentifier sid maxIdentifierBytes"
    and vers: "\<And>v. map_of (vs_versions i) v = Some lm \<Longrightarrow> map_of versions v = Some lm"
  shows "snapshot_extends sx did lm i e
    (message_snapshot sid lm (es @ [e]) (AList.update (cl_RKey c) (sv_RKey e) (vs_operationClaims i)) versions (vs_folders i))"
    (is "snapshot_extends sx did lm i e ?i'")
proof -
  have none: "map_of (vs_operationClaims i) (cl_RKey c) = None" using fresh by (simp add: map_of_eq_None_iff)
  have n: "vs_revisionCount i = length es" "length (vs_operationClaims i) = length es"
    using acc by (auto simp: reducible_def validFor_def split: if_splits)
  have seal: "snapshotSeal ?i' = vs_seal ?i'"
    by (simp add: message_snapshot_def Let_def snapshotSeal_def snapshot_preimage_def)
  have "validFor ?i' lm (vs_revisionCount i + 1)"
    using sid n unfolding validFor_def seal by (simp add: message_snapshot_def Let_def update_fresh [OF none])
  moreover have "vs_folders ?i' = vs_folders i" "vs_versions ?i' = versions"
    "vs_operationClaims ?i' = AList.update (cl_RKey c) (sv_RKey e) (vs_operationClaims i)"
    by (simp_all add: message_snapshot_def Let_def)
  ultimately show ?thesis using c none vers unfolding snapshot_extends_def by (auto simp: update_conv')
qed

section \<open>Keywords\<close>

lemma update_all:
  "map_of (foldl (\<lambda>m k. AList.update k b m) m0 ks) k = (if k \<in> set ks then Some b else map_of m0 k)"
  "distinct (keys m0) \<Longrightarrow> distinct (keys (foldl (\<lambda>m k. AList.update k b m) m0 ks))"
  by (induction ks arbitrary: m0) auto

lemma wanted_keywords_spec:
  "map_of (wanted_keywords cur des) k = (if k \<in> set des then Some True else if k \<in> set cur then Some False else None)"
  "distinct (keys (wanted_keywords cur des))"
  by (simp_all add: wanted_keywords_def update_all)

lemma wanted_keywords_keys: "set (keys (wanted_keywords cur des)) = set cur \<union> set des"
proof -
  have "k \<in> set (keys (wanted_keywords cur des)) \<longleftrightarrow> map_of (wanted_keywords cur des) k \<noteq> None" for k
    by (metis map_of_eq_None_iff set_map)
  then have "k \<in> set (keys (wanted_keywords cur des)) \<longleftrightarrow> k \<in> set cur \<union> set des" for k
    by (simp add: wanted_keywords_spec del: not_None_eq)
  then show ?thesis by blast
qed

lemma keywordAssignments_names:
  "map ka_Name (elems (keywordAssignments cur des)) = sort (keys (wanted_keywords cur des))"
  by (simp add: keywordAssignments_def Let_def comp_def)

lemma keywords_ok_iff:
  "keywords_ok prev ks \<longleftrightarrow> (\<forall>k \<in> set ks. validText (ka_Name k) 255) \<and> sorted_wrt (<) (prev # map ka_Name ks)"
proof (induction ks arbitrary: prev)
  case (Cons k ks)
  then show ?case by (auto simp: not_le dest: order.strict_trans)
qed simp

lemma keywordAssignments_ok:
  assumes "\<forall>k \<in> set cur \<union> set des. validText k 255"
  shows "keywords_ok [] (elems (keywordAssignments cur des))"
proof -
  let ?as = "elems (keywordAssignments cur des)"
  have names: "set (map ka_Name ?as) = set cur \<union> set des"
    unfolding keywordAssignments_names by (simp add: wanted_keywords_keys del: set_map)
  have "sorted_wrt (<) (map ka_Name ?as)" unfolding keywordAssignments_names
    using wanted_keywords_spec(2) [of cur des] by (simp add: strict_sorted_iff)
  moreover have "[] < n" if "n \<in> set (map ka_Name ?as)" for n
    using that assms unfolding names by (cases n) (auto simp: validText_def)
  ultimately show ?thesis using assms names unfolding keywords_ok_iff by (simp add: image_iff) blast
qed

lemma map_of_graph: "map_of (map (\<lambda>k. (k, f k)) ks) k = (if k \<in> set ks then Some (f k) else None)"
  by (induction ks) auto

lemma map_of_rev: "distinct (map fst m) \<Longrightarrow> map_of (rev m) k = map_of m k"
proof (rule option_eqI)
  fix v assume d: "distinct (map fst m)"
  then have "distinct (map fst (rev m))" by (simp add: rev_map [symmetric])
  then show "map_of (rev m) k = Some v \<longleftrightarrow> map_of m k = Some v"
    unfolding map_of_eq_Some_iff [OF d] by (simp only: map_of_eq_Some_iff set_rev)
qed

lemma keywordAssignments_assigned:
  assumes "rv_Keywords (sv_Record e) = keywordAssignments cur des"
  shows "keyword_assigned k e = (if k \<in> set des then Some True else if k \<in> set cur then Some False else None)"
proof -
  let ?m = "map (\<lambda>a. (ka_Name a, ka_Present a)) (elems (keywordAssignments cur des))"
  have "distinct (map fst ?m)"
    using wanted_keywords_spec(2) [of cur des] keywordAssignments_names [of cur des] by (simp add: comp_def)
  then have "map_of (rev ?m) k = map_of ?m k" by (simp only: map_of_rev)
  moreover have "?m = map (\<lambda>k. (k, map_of (wanted_keywords cur des) k = Some True)) (sort (keys (wanted_keywords cur des)))"
    by (simp add: keywordAssignments_def Let_def)
  then have "map_of ?m k = (if k \<in> set (keys (wanted_keywords cur des)) then Some (map_of (wanted_keywords cur des) k = Some True) else None)"
    by (simp only: map_of_graph set_sort)
  ultimately show ?thesis
    unfolding keyword_assigned_def assms rev_map [symmetric] wanted_keywords_keys by (auto simp: wanted_keywords_spec)
qed

lemma reduced_keywords_valid:
  assumes red: "Reduce sx did lm es i = Inr st" and k: "k \<in> set (elems (rs_Keywords st))"
  shows "validText k 255"
proof -
  have acc: "reducible sx did lm i es" using red by (simp add: Reduce_iff)
  have "latest (keyword_assigned k) (event_order ev_height ev_operation es) = Some True"
    using k unfolding Reduce_registers(8) [OF red] by simp
  from latest_member [OF this] obtain e where e: "e \<in> set es" "keyword_assigned k e = Some True" by auto
  then obtain a where a: "a \<in> set (elems (rv_Keywords (sv_Record e)))" "ka_Name a = k"
    by (auto simp: keyword_assigned_def dest!: map_of_SomeD)
  have "keywords_ok [] (elems (rv_Keywords (sv_Record e)))"
    using event_checkedD [OF acc e(1)] by (auto simp: validateRevision_def Let_def split: if_splits sum.splits)
  then show ?thesis using a by (auto simp: keywords_ok_iff)
qed

section \<open>The revision of a mutation\<close>

lemma equalStrings_iff [simp]: "equalStrings l r \<longleftrightarrow> l = r"
  by (cases "length l = length r") (auto simp: equalStrings_def list_all_iff intro: nth_equalityI)

text \<open>
  A snapshot the handler sees describes a message: its state is the reduction of the history, and versions
  and live folders are those the reduction knows.
\<close>

definition describes :: "AuthoritySnapshot \<Rightarrow> bytes \<Rightarrow> VerifiedSnapshot \<Rightarrow> ReducedState \<Rightarrow> bool" where
  "describes sn lm i st \<longleftrightarrow> findState sn lm = Some (state_of_reduced st)
     \<and> (\<forall>v x. findVersion sn v = Some x \<and> am_LogicalMessageID x = lm \<longrightarrow> map_of (vs_versions i) v = Some lm)
     \<and> (\<forall>f \<in> set (elems (asn_Folders sn)). \<not> fst_Tombstone f \<longrightarrow> live_folder i (fst_FolderID f))"

lemma available_live:
  assumes "map_of (available_folders fs) k = Some True"
  shows "\<exists>f \<in> set fs. fst_FolderID f = k \<and> \<not> fst_Tombstone f"
proof -
  have "map_of (foldl (\<lambda>m f. AList.update (fst_FolderID f) (\<not> fst_Tombstone f) m) m0 fs) k = Some True \<Longrightarrow>
      map_of m0 k = Some True \<or> (\<exists>f \<in> set fs. fst_FolderID f = k \<and> \<not> fst_Tombstone f)" for m0
    by (induction fs arbitrary: m0) (fastforce split: if_splits)+
  from this [of "[]"] assms show ?thesis by (simp add: available_folders_def)
qed

lemma liveFolderSet_live:
  assumes "liveFolderSet (elems (asn_Folders sn)) ids" and "describes sn lm i st"
  shows "ids \<noteq> []" "\<forall>f \<in> set ids. live_folder i f"
proof -
  show "ids \<noteq> []" using assms(1) by (auto simp: liveFolderSet_def)
  have "map_of (available_folders (elems (asn_Folders sn))) f = Some True" if "f \<in> set ids" for f
    using assms(1) that by (auto simp: liveFolderSet_def list_all_iff split: if_splits option.splits)
  then show "\<forall>f \<in> set ids. live_folder i f" using available_live assms(2) by (fastforce simp: describes_def)
qed

lemma validSortedUnique_iff: "validSortedUnique vs ok \<longleftrightarrow> (\<forall>v \<in> set vs. ok v) \<and> sorted_wrt (<) vs"
  by (simp add: validSortedUnique_def sorted_from_iff list_all_iff)

lemma folder_id_identifier: "validPrefixedSHA256 v ''folder-'' \<Longrightarrow> validIdentifier v maxIdentifierBytes"
proof -
  assume "validPrefixedSHA256 v ''folder-''"
  then obtain d where d: "length d = 32" "v = ''folder-'' @ hex_encode d" by (auto simp: validPrefixedSHA256_hex)
  have "printable v" unfolding d(2) by (simp add: printable_Cons byte_def)
  then show ?thesis using d by (intro printable_identifier) (auto simp: maxIdentifierBytes_def)
qed

lemma append_guardD:
  assumes "append_guard current m = Inr mst"
  shows "findState current (smu_LogicalMessageID m) = Some mst" "mst_Height mst = smu_ExpectedHeight m"
    "mst_RevisionCount mst = smu_ExpectedRevisionCount m" "mst_Heads mst = smu_ExpectedHeads m" "\<not> mst_Tombstone mst"
    "smu_Tombstone m \<Longrightarrow> smu_Version m = mst_Version mst \<and> smu_MailboxIDs m = elems (mst_MailboxIDs mst)
      \<and> smu_Keywords m = elems (mst_Keywords mst) \<and> \<not> smu_DeletePending m"
    "\<not> smu_Tombstone m \<Longrightarrow> (\<exists>x. findVersion current (smu_Version m) = Some x \<and> am_LogicalMessageID x = smu_LogicalMessageID m)
      \<and> liveFolderSet (elems (asn_Folders current)) (smu_MailboxIDs m)"
  using assms by (auto simp: append_guard_def split: option.splits if_splits)

lemma append_follows:
  assumes m: "authority_validMutation m" and red: "Reduce sx did (smu_LogicalMessageID m) es i = Inr st"
    and desc: "describes current (smu_LogicalMessageID m) i st" and guard: "append_guard current m = Inr mst"
    and key: "StateRevisionRKey sx did (append_record mst m now) = Inr k" and time: "parse_RFC3339Nano (format_RFC3339Nano now)"
    and same: "vs_versions i' = vs_versions i" "vs_folders i' = vs_folders i"
  shows "follows sx did st i' \<lparr>sv_RKey = k, sv_Record = append_record mst m now\<rparr>" and "mst = state_of_reduced st"
proof -
  note g = append_guardD [OF guard]
  show mst: "mst = state_of_reduced st" using g(1) desc by (simp add: describes_def)
  have lm: "rs_LogicalMessageID st = smu_LogicalMessageID m" using Reduce_registers(1) [OF red] .
  have heads: "rs_Heads st = smu_ExpectedHeads m" "rs_Height st = smu_ExpectedHeight m" using g(2,4) mst by (simp_all add: state_of_reduced_def)
  have ne: "smu_ExpectedHeads m \<noteq> []" using m by (auto simp: authority_validMutation_def validHeadSet_def)
  have live: "live_folder i' f = live_folder i f" for f using same by (simp add: live_folder_def)
  show "follows sx did st i' \<lparr>sv_RKey = k, sv_Record = append_record mst m now\<rparr>"
  proof (cases "smu_Tombstone m")
    case True
    then show ?thesis using key time lm heads ne
      by (simp add: follows_def Let_def append_record_def copy_nil_def hasLiveAssignments_def)
  next
    case False
    note nt = g(7) [OF False]
    have version: "map_of (vs_versions i') (smu_Version m) = Some (smu_LogicalMessageID m)" "validSHA256Identifier (smu_Version m)"
      using nt desc m same by (auto simp: describes_def authority_validMutation_def validSHA256Identifier_eq)
    have vne: "smu_Version m \<noteq> []" using version(2) by (auto simp: validSHA256Identifier_def)
    have boxes: "smu_MailboxIDs m \<noteq> []" "\<forall>f \<in> set (smu_MailboxIDs m). validFolderID f \<and> live_folder i' f"
        "strictlySortedUnique (smu_MailboxIDs m)"
      using liveFolderSet_live [OF conjunct2 [OF nt] desc] m live folder_id_identifier
      by (auto simp: authority_validMutation_def validSortedUnique_iff validFolderID_eq strictlySortedUnique_iff list_all_iff)
    have "keywords_ok [] (elems (keywordAssignments (elems (mst_Keywords mst)) (smu_Keywords m)))"
      using reduced_keywords_valid [OF red] m mst
      by (intro keywordAssignments_ok) (auto simp: authority_validMutation_def validSortedUnique_iff authority_validText_eq state_of_reduced_def)
    then show ?thesis using False key time lm heads ne version vne boxes
      by (simp add: follows_def Let_def append_record_def copy_nil_def hasLiveAssignments_def)
  qed
qed

lemma sorted_sets_eq: "sorted_wrt (<) xs \<Longrightarrow> sorted_wrt (<) ys \<Longrightarrow> set xs = set ys \<Longrightarrow> xs = ys" for xs :: "bytes list"
  by (metis sorted_distinct_set_unique strict_sorted_iff)

lemma buildStateCreates_InrD:
  assumes "buildStateCreates sx did r = Inr (revision, claim)"
  shows "StateRevisionRKey sx did r = Inr (cre_RKey revision)"
    "\<exists>c. NewOperationClaim sx did \<lparr>sv_RKey = cre_RKey revision, sv_Record = r\<rparr> = Inr c \<and> cre_RKey claim = cl_RKey c"
  using assms by (auto simp: buildStateCreates_def split: sum.splits)

text \<open>The snapshot a reader makes of the history of one message after the append (see \<open>message_snapshot\<close>).\<close>

definition snapshot_after :: "bytes \<Rightarrow> bytes \<Rightarrow> StateRevision list \<Rightarrow> Create \<Rightarrow> StateRevision \<Rightarrow> bytes gomap \<Rightarrow> VerifiedSnapshot \<Rightarrow> VerifiedSnapshot" where
  "snapshot_after sid lm es claim e versions i =
     message_snapshot sid lm (es @ [e]) (AList.update (cre_RKey claim) (sv_RKey e) (vs_operationClaims i)) versions (vs_folders i)"

lemma append_accepted:
  assumes red: "Reduce sx did lm es i = Inr st" and build: "buildStateCreates sx did r = Inr (revision, claim)"
    and e: "e = \<lparr>sv_RKey = cre_RKey revision, sv_Record = r\<rparr>" and i': "i' = snapshot_after sid lm es claim e versions i"
    and f: "follows sx did st i' e" and live: "\<not> rs_Tombstone st"
    and oper: "rv_OperationID r \<notin> ev_operation ` set es" and count: "length es < maxRevisionCount"
    and bytes: "(\<Sum>x\<leftarrow>es @ [e]. size_of revision_size x) \<le> maxRevisionInventoryBytes"
    and dist: "distinct (keys (vs_operationClaims i))" and sid: "validIdentifier sid maxIdentifierBytes"
    and vers: "\<And>v. map_of (vs_versions i) v = Some lm \<Longrightarrow> map_of versions v = Some lm" and nc: "\<not> sha256_collision"
  shows "snapshot_extends sx did lm i e i'" "sv_RKey e \<notin> sv_RKey ` set es"
proof -
  have acc: "reducible sx did lm i es" using red by (simp add: Reduce_iff)
  obtain c where c: "NewOperationClaim sx did e = Inr c" "cre_RKey claim = cl_RKey c"
    using buildStateCreates_InrD(2) [OF build] e by blast
  have lm: "rv_LogicalMessageID (sv_Record e) = lm" using f Reduce_registers(1) [OF red] by (simp add: follows_def Let_def)
  have "cl_RKey c \<notin> set (keys (vs_operationClaims i))" using claim_fresh [OF acc dist c(1) lm _ nc] oper e by simp
  from snapshot_extendsI [OF acc dist c(1) this sid vers] show "snapshot_extends sx did lm i e i'"
    by (simp add: i' snapshot_after_def c(2))
  show "sv_RKey e \<notin> sv_RKey ` set es"
    using key_fresh [OF acc _ _ nc, of e] buildStateCreates_InrD(1) [OF build] oper e by simp
qed

lemma validMutation_result:
  assumes m: "authority_validMutation m" and red: "Reduce sx did (smu_LogicalMessageID m) es i = Inr st"
    and "rs_SnapshotID st \<noteq> smu_SnapshotID m" "validPrefixedSHA256 (rs_SnapshotID st) ''sha256-''"
      "rs_Version st = smu_Version m" "elems (rs_MailboxIDs st) = smu_MailboxIDs m" "elems (rs_Keywords st) = smu_Keywords m"
      "rs_DeletePending st = smu_DeletePending m" "rs_Tombstone st = smu_Tombstone m" "rs_Heads st = [k]" "validPrefixedSHA256 k ''state-''"
      "rs_Height st = smu_ExpectedHeight m + 1" "int (rs_RevisionCount st) = smu_ExpectedRevisionCount m + 1"
  shows "validMutationResult m (state_of_reduced st)"
    and "findState verified (smu_LogicalMessageID m) = Some (state_of_reduced st) \<Longrightarrow> append_verified verified m = Inr (state_of_reduced st)"
proof -
  have "rs_RevisionCount st < 2 ^ 64" "int (rs_RevisionCount st) \<le> maxStateRevisions"
    using assms(13) m by (simp_all add: authority_validMutation_def maxStateRevisions_def)
  moreover from this have "rs_StateDigest st = messageStateDigest (state_of_reduced st)"
    using Reduce_registers(14) [OF red] by (simp add: messageStateDigest_eq)
  moreover have "rs_HeadsDigest st = headsDigest heads_domain (rs_Heads st)"
    using Reduce_registers(13) [OF red] by (simp add: headsDigest_eq heads_domain_def)
  ultimately show "validMutationResult m (state_of_reduced st)"
    using assms Reduce_registers(1) [OF red] by (simp add: validMutationResult_def state_of_reduced_def)
  show "findState verified (smu_LogicalMessageID m) = Some (state_of_reduced st) \<Longrightarrow> append_verified verified m = Inr (state_of_reduced st)"
    using assms by (simp add: append_verified_def state_of_reduced_def)
qed

lemma sha_identifier: "validPrefixedSHA256 v ''sha256-'' \<Longrightarrow> validIdentifier v maxIdentifierBytes"
proof -
  assume "validPrefixedSHA256 v ''sha256-''"
  then obtain d where d: "length d = 32" "v = ''sha256-'' @ hex_encode d" by (auto simp: validPrefixedSHA256_hex)
  have "printable v" unfolding d(2) by (simp add: printable_Cons byte_def)
  then show ?thesis using d by (intro printable_identifier) (auto simp: maxIdentifierBytes_def)
qed

lemma append_record_simps:
  "rv_OperationID (append_record st m now) = smu_OperationID m"
  "rv_Version (append_record st m now) = (if smu_Tombstone m then [] else smu_Version m)"
  "rv_MailboxIDs (append_record st m now) = (if smu_Tombstone m then None else copy_nil (smu_MailboxIDs m))"
  "rv_Keywords (append_record st m now) = (if smu_Tombstone m then None else keywordAssignments (elems (mst_Keywords st)) (smu_Keywords m))"
  "rv_DeletePending (append_record st m now) = (if smu_Tombstone m then None else Some (smu_DeletePending m))"
  "rv_Tombstone (append_record st m now) = smu_Tombstone m"
  by (simp_all add: append_record_def Let_def)

lemma append_keywords:
  assumes m: "authority_validMutation m" and g: "append_guard current m = Inr mst" and mst: "mst = state_of_reduced st"
    and red: "Reduce sx did lm es i = Inr st" and red': "Reduce sx did lm es' i' = Inr st'" and e: "sv_Record e = append_record mst m now"
    and kw: "set (elems (rs_Keywords st')) = {k. (case keyword_assigned k e of None \<Rightarrow> k \<in> set (elems (rs_Keywords st)) | Some b \<Rightarrow> b)}"
  shows "elems (rs_Keywords st') = smu_Keywords m"
proof (rule sorted_sets_eq)
  show "sorted_wrt (<) (elems (rs_Keywords st'))" by (rule Reduce_registers(9) [OF red'])
  show "sorted_wrt (<) (smu_Keywords m)" using m by (simp add: authority_validMutation_def validSortedUnique_iff)
  show "set (elems (rs_Keywords st')) = set (smu_Keywords m)"
  proof (cases "smu_Tombstone m")
    case True
    then have "keyword_assigned k e = None" for k by (simp add: keyword_assigned_def e append_record_simps)
    moreover have "smu_Keywords m = elems (rs_Keywords st)" using append_guardD(6) [OF g True] mst by (simp add: state_of_reduced_def)
    ultimately show ?thesis unfolding kw by simp
  next
    case False
    then have "rv_Keywords (sv_Record e) = keywordAssignments (elems (rs_Keywords st)) (smu_Keywords m)"
      using mst by (simp add: e append_record_simps state_of_reduced_def)
    from keywordAssignments_assigned [OF this] show ?thesis unfolding kw by auto
  qed
qed

section \<open>A message with one revision\<close>

text \<open>Reducing the same history under another snapshot identity.\<close>

lemma Reduce_resnapshot:
  assumes red: "Reduce sx did lm es i = Inr st" and val: "validFor i' lm (length es)"
    and same: "vs_versions i' = vs_versions i" "vs_folders i' = vs_folders i" "vs_operationClaims i' = vs_operationClaims i"
  shows "\<exists>st'. Reduce sx did lm es i' = Inr st'"
proof -
  have "check_folders i' fs = check_folders i fs" for fs by (rule check_folders_cong [OF same(2)])
  then have "check_claimed sx did lm i' = check_claimed sx did lm i"
    by (intro ext) (simp only: check_claimed_def validateRevision_def Let_def same(1,3))
  then have acc: "reducible sx did lm i' es" using red val by (simp add: Reduce_iff reducible_def)
  obtain st0 kws where fold: "foldl reduce_event (start_state lm (vs_snapshotID i') (length (event_order ev_height ev_operation es)), [])
      (event_order ev_height ev_operation es) = (st0, kws)" by force
  have "rv_MailboxIDs (sv_Record x) \<noteq> Some []" if "x \<in> set (event_order ev_height ev_operation es)" for x
    using validateRevisionD(8) [OF event_checkedD [OF acc]] that by simp
  note regs = reduce_fold [OF fold this]
  have "live_folder i' f = live_folder i f" for f by (simp add: live_folder_def same(2))
  then have "rs_Tombstone st0 \<or> list_all (live_folder i') (elems (rs_MailboxIDs st0))"
    using regs Reduce_registers(5,6,12) [OF red] by (auto simp: list_all_iff)
  from finish_ok [OF fold this] show ?thesis using acc red by (auto simp: Reduce_iff)
qed

definition shown_id :: bytes where "shown_id = ''sha256-0000000000000000000000000000000000000000000000000000000000000000''"
definition next_id :: bytes where "next_id = ''sha256-1111111111111111111111111111111111111111111111111111111111111111''"

lemma shown_ids: "validPrefixedSHA256 shown_id ''sha256-''" "validPrefixedSHA256 next_id ''sha256-''" "next_id \<noteq> shown_id"
  "validIdentifier shown_id maxIdentifierBytes"
  by code_simp+

definition shown_inventory :: VerifiedSnapshot where
  "shown_inventory = message_snapshot shown_id demo_message [demo_event] (vs_operationClaims demo_snapshot) (vs_versions demo_snapshot)
     (vs_folders demo_snapshot)"

lemma shown_inventory_simps:
  "vs_versions shown_inventory = vs_versions demo_snapshot" "vs_folders shown_inventory = vs_folders demo_snapshot"
  "vs_operationClaims shown_inventory = vs_operationClaims demo_snapshot" "vs_snapshotID shown_inventory = shown_id"
  "validFor shown_inventory demo_message (length [demo_event])"
proof -
  have "snapshotSeal shown_inventory = vs_seal shown_inventory"
    by (simp add: shown_inventory_def message_snapshot_def Let_def snapshotSeal_def snapshot_preimage_def)
  then show "validFor shown_inventory demo_message (length [demo_event])"
    using shown_ids(4) by (simp add: validFor_def) (simp add: shown_inventory_def message_snapshot_def Let_def demo_snapshot_def demo_unsealed_def)
qed (simp_all add: shown_inventory_def message_snapshot_def Let_def)

lemma shown_state:
  obtains st where "Reduce plain_syntax ''did:a'' demo_message [demo_event] shown_inventory = Inr st"
    "rs_SnapshotID st = shown_id" "rs_Heads st = [sv_RKey demo_event]" "rs_Height st = 1" "rs_RevisionCount st = 1" "\<not> rs_Tombstone st"
    "elems (rs_Keywords st) = [''$seen'']"
proof -
  obtain st0 where "Reduce plain_syntax ''did:a'' demo_message [demo_event] demo_snapshot = Inr st0" by (rule demo_reduce)
  from Reduce_resnapshot [OF this shown_inventory_simps(5,1,2,3)] obtain st
    where red: "Reduce plain_syntax ''did:a'' demo_message [demo_event] shown_inventory = Inr st" by blast
  have rec: "sv_Record demo_event = demo_revision" by (simp add: demo_event_def)
  have ord: "event_order ev_height ev_operation [demo_event] = [demo_event]" by (simp add: event_order_def)
  note regs = Reduce_registers [OF red, unfolded ord]
  have "keyword_assigned k demo_event = (if k = ''$seen'' then Some True else None)" for k
    by (simp add: keyword_assigned_def rec) (simp add: demo_revision_def)
  then have "set (elems (rs_Keywords st)) = {''$seen''}" unfolding regs(8) by (simp add: latest_def)
  then have "elems (rs_Keywords st) = [''$seen'']" using sorted_sets_eq [OF regs(9), of "[''$seen'']"] by simp
  moreover have "rs_Heads st = [sv_RKey demo_event]" using regs(10) by (simp add: heads_of_def rec sortUTF8_def) (simp add: demo_revision_def)
  moreover have "rs_Height st = 1" using regs(11) by (simp add: rec) (simp add: demo_revision_def)
  moreover have "\<not> rs_Tombstone st" using regs(6) by (simp add: rec) (simp add: demo_revision_def)
  ultimately show thesis using that [of st] red regs(2,3) shown_inventory_simps(4) by simp
qed


definition shown_mutation :: "ReducedState \<Rightarrow> StateMutation" where
  "shown_mutation st = \<lparr>smu_SnapshotID = shown_id, smu_LogicalMessageID = demo_message, smu_OperationID = ''op2'',
     smu_ExpectedHeads = rs_Heads st, smu_ExpectedHeadsDigest = rs_HeadsDigest st, smu_ExpectedStateDigest = rs_StateDigest st,
     smu_ExpectedHeight = rs_Height st, smu_ExpectedRevisionCount = int (rs_RevisionCount st), smu_Version = demo_version,
     smu_MailboxIDs = [demo_box], smu_Keywords = [''$flagged''], smu_DeletePending = True, smu_Tombstone = False\<rparr>"

definition shown_snapshot :: "ReducedState \<Rightarrow> AuthoritySnapshot" where
  "shown_snapshot st = \<lparr>asn_Version = 3, asn_Target = relay_target, asn_Revision = ''r'', asn_SnapshotID = shown_id,
     asn_ManifestSHA256 = shown_id,
     asn_Folders = Some [\<lparr>fst_FolderID = demo_box, fst_SnapshotID = shown_id, fst_Name = ''Inbox'', fst_Role = ''inbox'', fst_Tombstone = False,
       fst_Heads = [], fst_HeadsDigest = [], fst_StateDigest = [], fst_Height = 1, fst_RevisionCount = 1\<rparr>],
     asn_Messages = Some [\<lparr>am_URI = [], am_RKey = demo_version, am_Fingerprint = demo_version, am_LogicalMessageID = demo_message,
       am_SourceKey = [], am_SHA256 = [], am_Size = 1, am_Raw = ''x''\<rparr>],
     asn_States = Some [state_of_reduced st]\<rparr>"

lemma shown_describes:
  assumes "Reduce plain_syntax ''did:a'' demo_message [demo_event] shown_inventory = Inr st"
  shows "describes (shown_snapshot st) demo_message shown_inventory st"
proof -
  have "live_folder shown_inventory demo_box" "map_of (vs_versions shown_inventory) demo_version = Some demo_message"
    by (simp_all add: live_folder_def shown_inventory_simps demo_snapshot_def demo_unsealed_def)
  then show ?thesis
    using Reduce_registers(1) [OF assms]
    by (auto simp: describes_def shown_snapshot_def findState_def findVersion_def state_of_reduced_def split: if_splits)
qed

lemma demo_event_rkey: "validPrefixedSHA256 (sv_RKey demo_event) ''state-''" "length (sv_RKey demo_event) = 70" "utf8_valid (sv_RKey demo_event)"
proof -
  have k: "sv_RKey demo_event = ''state-'' @ hex_encode (sha256 (state_rkey_preimage ''did:a'' (encode_revision demo_revision)))"
    by (simp add: demo_event_def)
  show "validPrefixedSHA256 (sv_RKey demo_event) ''state-''" unfolding k by (rule validPrefixedSHA256_digest)
  show "length (sv_RKey demo_event) = 70" unfolding k by simp
  show "utf8_valid (sv_RKey demo_event)" unfolding k by (intro printable_utf8) (simp add: printable_Cons byte_def)
qed

lemma shown_valid:
  assumes red: "Reduce plain_syntax ''did:a'' demo_message [demo_event] shown_inventory = Inr st"
    and st: "rs_SnapshotID st = shown_id" "rs_Heads st = [sv_RKey demo_event]" "rs_Height st = 1" "rs_RevisionCount st = 1" "\<not> rs_Tombstone st"
  shows "authority_validMutation (shown_mutation st)" "append_guard (shown_snapshot st) (shown_mutation st) = Inr (state_of_reduced st)"
proof -
  have op: "validText ''op2'' 128" "validText ''$flagged'' 255" by code_simp+
  have ids: "validPrefixedSHA256 demo_message ''sha256-''" "validPrefixedSHA256 demo_version ''sha256-''" "validPrefixedSHA256 demo_box ''folder-''"
    using demo_identifiers(1-3) by (simp_all add: validSHA256Identifier_eq validFolderID_eq)
  have "validPrefixedSHA256 (rs_StateDigest st) ''sha256-''"
    unfolding Reduce_registers(14) [OF red] digestReducedState_def digestBytes_def by (rule validPrefixedSHA256_digest)
  then show "authority_validMutation (shown_mutation st)"
    using shown_ids op ids st demo_event_rkey(1) Reduce_registers(13) [OF red]
    by (simp add: authority_validMutation_def shown_mutation_def validHeadSet_def validSortedUnique_iff headsDigest_eq heads_domain_def
        authority_validText_eq maxStateRevisions_def maxStateMailboxIDs_def maxStateKeywords_def)
  show "append_guard (shown_snapshot st) (shown_mutation st) = Inr (state_of_reduced st)"
    using st Reduce_registers(1) [OF red]
    by (simp add: append_guard_def shown_snapshot_def shown_mutation_def findState_def findVersion_def state_of_reduced_def
        liveFolderSet_def available_folders_def)
qed

lemma shown_build:
  assumes st: "rs_Heads st = [sv_RKey demo_event]" "rs_Height st = 1" "elems (rs_Keywords st) = [''$seen'']"
  shows "\<exists>revision claim. buildStateCreates plain_syntax ''did:a'' (append_record (state_of_reduced st) (shown_mutation st) unix_epoch) = Inr (revision, claim)"
proof -
  let ?r = "append_record (state_of_reduced st) (shown_mutation st) unix_epoch"
  have time: "format_RFC3339Nano unix_epoch = ''1970-01-01T00:00:00Z''" by code_simp
  have kws: "keywordAssignments [''$seen''] [''$flagged''] = Some [\<lparr>ka_Name = ''$flagged'', ka_Present = True\<rparr>, \<lparr>ka_Name = ''$seen'', ka_Present = False\<rparr>]"
    by code_simp
  have r: "?r = \<lparr>rv_Type = MessageStateRevisionCollection, rv_LogicalMessageID = demo_message, rv_OperationID = ''op2'',
      rv_Parents = Some [sv_RKey demo_event], rv_Revision = 2, rv_Version = demo_version, rv_MailboxIDs = Some [demo_box],
      rv_Keywords = Some [\<lparr>ka_Name = ''$flagged'', ka_Present = True\<rparr>, \<lparr>ka_Name = ''$seen'', ka_Present = False\<rparr>],
      rv_DeletePending = Some True, rv_Tombstone = False, rv_Merge = False, rv_CreatedAt = ''1970-01-01T00:00:00Z''\<rparr>"
    using st kws time by (simp add: append_record_def shown_mutation_def state_of_reduced_def copy_nil_def)
  have "length (encode_revision ?r) \<le> maxRevisionRecordBytes" unfolding r
    by (simp add: encode_revision_def revision_prefix_def cw_string_def cw_strings_def cw_len_def cw_uint64_def
        encode_mailboxes_def encode_keywords_def encode_keyword_def encode_pending_def cw_byte_def cw_boolean_def
        demo_lengths demo_event_rkey uvarint_small MessageStateRevisionCollection_def maxRevisionRecordBytes_def)
  then have "CanonicalRevisionBytes ?r = Inr (encode_revision ?r)"
    using demo_identifiers(4-6) demo_event_rkey(3) unfolding r
    by (simp add: CanonicalRevisionBytes_def demo_lengths demo_event_rkey maxIdentifierBytes_def
        maxOperationIDBytes_def maxParents_def maxMailboxes_def maxKeywords_def MessageStateRevisionCollection_def byte_def)
  moreover have "validIdentifier ''op2'' maxOperationIDBytes" by code_simp
  moreover have "rv_LogicalMessageID ?r = demo_message" "rv_OperationID ?r = ''op2''" by (simp_all add: r)
  ultimately show ?thesis using demo_identifiers(1,10)
    by (simp add: buildStateCreates_def StateRevisionRKey_def NewOperationClaim_def OperationClaimRKey_def)
qed

lemma event_size_le:
  assumes "StateRevisionRKey sx did (sv_Record e) = Inr k"
  shows "size_of revision_size e \<le> maxRevisionRecordBytes"
  using CanonicalRevisionBytes_Inr [OF StateRevisionRKey_encodes(1) [OF assms]] StateRevisionRKey_encodes(1) [OF assms]
  by (simp add: size_of_def revision_size_def)


end
