(* ===== verification/Official_Inventory.thy ===== *)
theory Official_Inventory
  imports Official_Client
begin

text \<open>
  What the client of the official provider guarantees: nothing it borrows or opens is left open, a listing
  is exactly what the pages of the provider contain, and a batch is sent and acknowledged as asked.
\<close>

section \<open>Everything is given back\<close>

text \<open>\<open>held\<close> counts the capabilities and response bodies that are open.\<close>

definition releases :: "('s \<Rightarrow> int) \<Rightarrow> ('s, 'a) op \<Rightarrow> bool" where
  "releases held f \<longleftrightarrow> (\<forall>s. held (snd (f s)) = held s)"

definition body_counted :: "('s \<Rightarrow> int) \<Rightarrow> 's client_response \<Rightarrow> bool" where
  "body_counted held r \<longleftrightarrow> (\<forall>close s. re_Close r = Some close \<longrightarrow> held (close s) = held s - 1)"

definition opened :: "'s client_response option \<Rightarrow> int" where
  "opened r = (case r of None \<Rightarrow> 0 | Some x \<Rightarrow> if re_Close x = None then 0 else 1)"

definition doer_counted :: "('s \<Rightarrow> int) \<Rightarrow> 's ScopedDoer \<Rightarrow> bool" where
  "doer_counted held d \<longleftrightarrow> (\<forall>s. held (sd_Close d s) = held s - 1)
     \<and> (\<forall>rq s r e s'. sd_Do d rq s = ((r, e), s') \<longrightarrow> held s' = held s + opened r \<and> (\<forall>x. r = Some x \<longrightarrow> body_counted held x))"

definition source_counted :: "('s \<Rightarrow> int) \<Rightarrow> 's acquire \<Rightarrow> bool" where
  "source_counted held source \<longleftrightarrow> (\<forall>t s d e s'. source t s = ((d, e), s') \<longrightarrow>
     held s' = held s + (if d = None then 0 else 1) \<and> (\<forall>x. d = Some x \<longrightarrow> doer_counted held x))"

lemma releases_simple [simp]: "releases held (raise e)" "releases held (give x)" "releases held (returning y)"
  by (simp_all add: releases_def raise_def give_def returning_def)

lemma releasesD: "releases held f \<Longrightarrow> f s = (x, s') \<Longrightarrow> held s' = held s"
  unfolding releases_def by (metis snd_conv)

lemma releases_after:
  assumes "releases held f" and "\<And>x. releases held (g x)"
  shows "releases held (after f g)"
  unfolding releases_def
proof
  fix s
  obtain x s1 where f: "f s = (x, s1)" by (cases "f s")
  then have "held s1 = held s" by (rule releasesD [OF assms(1)])
  then show "held (snd (after f g s)) = held s" using f assms(2) by (cases x) (simp_all add: releases_def)
qed

lemma releases_attempt: "releases held f \<Longrightarrow> releases held (attempt f)"
  by (auto simp: releases_def attempt_def split: prod.splits) (metis snd_conv)

lemma releases_with_source:
  assumes "source_counted held source" and "\<And>d. doer_counted held d \<Longrightarrow> releases held (f d)"
  shows "releases held (with_source source label t f)"
  unfolding releases_def
proof
  fix s
  obtain d e s1 where a: "source t s = ((d, e), s1)" by (metis surj_pair)
  note c = assms(1) [unfolded source_counted_def, rule_format, OF a]
  show "held (snd (with_source source label t f s)) = held s"
  proof (cases d)
    case (Some x)
    then have x: "doer_counted held x" and s1: "held s1 = held s + 1" using c by simp_all
    obtain r s2 where r: "(case e of Some _ \<Rightarrow> (Inl (redactAuthError label e), s1) | None \<Rightarrow> f x s1) = (r, s2)" by (metis surj_pair)
    then have "held s2 = held s1" using releasesD [OF assms(2) [OF x]] by (cases e) auto
    then show ?thesis using a Some r s1 x by (simp add: with_source_def doer_counted_def)
  qed (use a c in \<open>simp add: with_source_def\<close>)
qed

lemma close_body_counted:
  assumes "\<forall>x. r = Some x \<longrightarrow> body_counted held x"
  shows "held (close_body r s) = held s - opened r"
  using assms by (cases r) (auto simp: close_body_def opened_def body_counted_def split: option.splits)

text \<open>A request either leaves nothing open or returns a response with an open body.\<close>

lemma request_counted:
  assumes d: "doer_counted held d" and r: "request c d verb endpoint q b ct ac s = (x, s')"
  shows "case x of Inl e \<Rightarrow> held s' = held s | Inr y \<Rightarrow> held s' = held s + 1 \<and> body_counted held y \<and> re_Close y \<noteq> None"
proof -
  let ?rq = "\<lparr>rq_Method = verb, rq_URL = request_url (cn_origin c) endpoint q, rq_Body = b, rq_ContentType = ct,
            rq_Accept = ac, rq_Endpoint = endpoint\<rparr>"
  obtain w e s1 where a: "sd_Do d ?rq s = ((w, e), s1)" by (metis surj_pair)
  have k: "held s1 = held s + opened w" "\<forall>z. w = Some z \<longrightarrow> body_counted held z" using d a unfolding doer_counted_def by blast+
  note cl = close_body_counted [OF k(2)]
  show ?thesis
  proof (cases e)
    case (Some y)
    then show ?thesis using r a cl k(1) by (auto simp: request_def Let_def)
  next
    case None
    then show ?thesis using r a cl k by (cases w) (auto simp: request_def Let_def opened_def answers_request_def split: if_splits)
  qed
qed

lemma consuming_eq: "rq s = (Inr r, s1) \<Longrightarrow> consuming rq f s = (f r, close_body (Some r) s1)"
  by (simp add: consuming_def)

lemma releases_consuming:
  assumes d: "doer_counted held d"
  shows "releases held (consuming (request c d verb endpoint q b ct ac) f)"
  unfolding releases_def
proof
  fix s
  obtain x s1 where r: "request c d verb endpoint q b ct ac s = (x, s1)" by (metis surj_pair)
  note k = request_counted [OF d r]
  show "held (snd (consuming (request c d verb endpoint q b ct ac) f s)) = held s"
    using r k by (cases x) (auto simp: consuming_def close_body_def body_counted_def split: option.splits)
qed

lemmas releases_intros = releases_after releases_with_source releases_consuming

lemma releases_list_records: "doer_counted held d \<Longrightarrow> releases held (list_records sx ip c d collection ex n q l)"
  by (induction n arbitrary: q l) (auto intro!: releases_after simp: fetch_records_def releases_consuming)

lemma releases_list_blobs: "doer_counted held d \<Longrightarrow> releases held (list_blobs ip c d n q l)"
  by (induction n arbitrary: q l) (auto intro!: releases_after simp: fetch_blobs_def releases_consuming)

lemma releases_stream_body:
  assumes "\<And>b f. releases held (consume b f)"
  shows "releases held (stream_body consume r)"
  using assms by (auto simp: stream_body_def Let_def intro!: releases_after)

lemma releases_StreamRepo:
  assumes "source_counted held (cn_reader c)" and f: "\<And>b fails. releases held (f b fails)"
  shows "releases held (StreamRepo c ex (Some f))"
proof -
  have "releases held (\<lambda>s. case request c d verb endpoint q b ct ac s of (Inl e, s1) \<Rightarrow> (Inl e, s1)
      | (Inr r, s1) \<Rightarrow> (case stream_body f r s1 of (x, s2) \<Rightarrow> (x, close_body (Some r) s2)))" (is "releases held ?op")
    if d: "doer_counted held d" for d verb endpoint q b ct ac
    unfolding releases_def
  proof
    fix s
    obtain x s1 where r: "request c d verb endpoint q b ct ac s = (x, s1)" by (metis surj_pair)
    note k = request_counted [OF d r]
    show "held (snd (?op s)) = held s"
    proof (cases x)
      case (Inr y)
      obtain z s2 where z: "stream_body f y s1 = (z, s2)" by (metis surj_pair)
      have "held s2 = held s1" by (rule releasesD [OF releases_stream_body [OF f] z])
      then show ?thesis using r k Inr z by (auto simp: close_body_def body_counted_def)
    qed (use r k in simp)
  qed
  then show ?thesis using assms(1) by (simp add: StreamRepo_def withReader_def releases_with_source)
qed

text \<open>Whatever the provider answers and however an operation of the client ends, every capability that was
  borrowed and every response body that was opened is closed again, exactly once.\<close>

lemma client_releases:
  assumes "source_counted held (cn_writer c)" and "source_counted held (cn_reader c)" and "\<And>b fails. releases held (f b fails)"
  shows "releases held (UploadMessageBlob ip c raw) \<and> releases held (CreateBatch sx ip c creates)
    \<and> releases held (InspectRecord sx ip c collection rkey) \<and> releases held (InspectRecords sx ip c collection excludeValues)
    \<and> releases held (ListBlobs sx ip c since) \<and> releases held (client_GetBlob ip c cid) \<and> releases held (GetLatestCommit c)
    \<and> releases held (StreamRepo c excludeValues (Some f))"
proof (intro conjI)
  show "releases held (UploadMessageBlob ip c raw)"
    using assms(1) by (simp add: UploadMessageBlob_def withWriter_def releases_with_source releases_consuming)
  show "releases held (CreateBatch sx ip c creates)"
    using assms(1) by (auto simp: CreateBatch_def withWriter_def releases_with_source releases_consuming Let_def split: sum.splits)
  show "releases held (InspectRecord sx ip c collection rkey)"
    using assms(2) by (simp add: InspectRecord_def withReader_def releases_with_source releases_consuming Let_def)
  show "releases held (InspectRecords sx ip c collection excludeValues)"
    using assms(2) by (simp add: InspectRecords_def withReader_def releases_with_source releases_after releases_list_records)
  show "releases held (ListBlobs sx ip c since)"
    using assms(2) by (simp add: ListBlobs_def withReader_def releases_with_source releases_after releases_list_blobs Let_def)
  show "releases held (client_GetBlob ip c cid)"
    using assms(2) by (simp add: client_GetBlob_def client_readMessageBlob_def withReader_def releases_with_source releases_consuming)
  show "releases held (GetLatestCommit c)"
    using assms(2) by (simp add: GetLatestCommit_def withReader_def releases_with_source releases_consuming)
  show "releases held (StreamRepo c excludeValues (Some f))"
    by (rule releases_StreamRepo [OF assms(2,3)])
qed

section \<open>Paging\<close>

text \<open>The pages a provider delivers, from the first query to the first page without a cursor.\<close>

inductive pages_of :: "(query \<Rightarrow> ('s, 'p) op) \<Rightarrow> ('p \<Rightarrow> bytes) \<Rightarrow> query \<Rightarrow> 's \<Rightarrow> 'p list \<Rightarrow> 's \<Rightarrow> bool"
  for fetch cursor where
  last_page: "fetch q s = (Inr p, s') \<Longrightarrow> cursor p = [] \<Longrightarrow> pages_of fetch cursor q s [p] s'"
| next_page: "fetch q s = (Inr p, s') \<Longrightarrow> cursor p \<noteq> [] \<Longrightarrow> pages_of fetch cursor (AList.update ''cursor'' (cursor p) q) s' ps s''
    \<Longrightarrow> pages_of fetch cursor q s (p # ps) s''"

inductive_simps pages_of_Nil [simp]: "pages_of fetch cursor q s [] s'"
inductive_simps pages_of_Cons: "pages_of fetch cursor q s (p # ps) s'"

fun advance_all :: "('p \<Rightarrow> 'l \<Rightarrow> 'l result) \<Rightarrow> 'p list \<Rightarrow> 'l \<Rightarrow> 'l result" where
  "advance_all advance [] l = Inr l"
| "advance_all advance (p # ps) l = (case advance p l of Inl e \<Rightarrow> Inl e | Inr l' \<Rightarrow> advance_all advance ps l')"

text \<open>A loop over pages: what it asks for, how it reads the cursor, and what it does with a page.\<close>

locale paged =
  fixes fetch :: "query \<Rightarrow> ('s, 'p) op" and cursor :: "'p \<Rightarrow> bytes" and advance :: "'p \<Rightarrow> 'l \<Rightarrow> 'l result"
    and loop :: "nat \<Rightarrow> query \<Rightarrow> 'l \<Rightarrow> ('s, 'l) op"
  assumes loop_0: "loop 0 q l = raise ErrInvalidRecord"
    and loop_Suc: "loop (Suc n) q l = after (fetch q) (\<lambda>p. after (returning (advance p l)) (\<lambda>l'.
      if cursor p = [] then give l' else loop n (AList.update ''cursor'' (cursor p) q) l'))"
begin

lemma loop_step: "loop (Suc n) q l s = (Inr l'', s'') \<longleftrightarrow> (\<exists>p s' l'. fetch q s = (Inr p, s') \<and> advance p l = Inr l'
    \<and> (if cursor p = [] then l'' = l' \<and> s'' = s' else loop n (AList.update ''cursor'' (cursor p) q) l' s' = (Inr l'', s'')))"
  unfolding loop_Suc
  by (auto simp: returning_def give_def elim!: after_InrE split: if_splits)

text \<open>The loop succeeds exactly when the pages are within the limit and each of them is accepted.\<close>

lemma loop_iff:
  "loop n q l s = (Inr l', s') \<longleftrightarrow> (\<exists>ps. length ps \<le> n \<and> pages_of fetch cursor q s ps s' \<and> advance_all advance ps l = Inr l')"
proof (induction n arbitrary: q l s)
  case 0
  then show ?case by (simp add: loop_0 raise_def)
next
  case (Suc n)
  show ?case (is "_ \<longleftrightarrow> (\<exists>ps. ?ok ps)")
  proof
    assume "loop (Suc n) q l s = (Inr l', s')"
    then obtain p s1 l1 where p: "fetch q s = (Inr p, s1)" "advance p l = Inr l1"
      and r: "if cursor p = [] then l' = l1 \<and> s' = s1 else loop n (AList.update ''cursor'' (cursor p) q) l1 s1 = (Inr l', s')"
      by (auto simp: loop_step)
    show "\<exists>ps. ?ok ps"
    proof (cases "cursor p = []")
      case True
      then show ?thesis using p r by (intro exI [of _ "[p]"]) (simp add: pages_of_Cons)
    next
      case False
      then obtain ps where "length ps \<le> n" "pages_of fetch cursor (AList.update ''cursor'' (cursor p) q) s1 ps s'"
        "advance_all advance ps l1 = Inr l'" using r Suc.IH by auto
      then show ?thesis using p False by (intro exI [of _ "p # ps"]) (auto simp: pages_of_Cons)
    qed
  next
    assume "\<exists>ps. ?ok ps"
    then obtain p ps where ps: "?ok (p # ps)" by (metis list.exhaust pages_of_Nil)
    then obtain s1 l1 where p: "fetch q s = (Inr p, s1)" "advance p l = Inr l1" "advance_all advance ps l1 = Inr l'"
      and r: "(cursor p = [] \<and> ps = [] \<and> s' = s1) \<or> (cursor p \<noteq> [] \<and> pages_of fetch cursor (AList.update ''cursor'' (cursor p) q) s1 ps s')"
      by (auto simp: pages_of_Cons split: sum.splits)
    show "loop (Suc n) q l s = (Inr l', s')"
      using p r ps Suc.IH by (auto simp: loop_step)
  qed
qed

end

interpretation record_pages: paged "fetch_records c d" "\<lambda>p. rpg_Cursor (fst p)" "list_page sx ip (cn_target c) collection excludeValues"
  "list_records sx ip c d collection excludeValues"
  by unfold_locales simp_all

interpretation blob_pages: paged "fetch_blobs c d" "\<lambda>p. bpg_Cursor (fst p)" "blob_list_page ip" "list_blobs ip c d"
  by unfold_locales simp_all

section \<open>A listing of records\<close>

text \<open>What is asked of an item and of a page, and the record an item stands for.\<close>

definition item_fine :: "syntax_api \<Rightarrow> ipld_api \<Rightarrow> bytes \<Rightarrow> bool \<Rightarrow> wireRecord \<Rightarrow> bool" where
  "item_fine sx ip collection excludeValues item \<longleftrightarrow> allowedCollection (wrc_Collection item)
     \<and> (collection = [] \<or> wrc_Collection item = collection) \<and> validRecordKey sx (wrc_RKey item) \<and> validRecordCID ip (wrc_CID item)
     \<and> (if excludeValues then wrc_Value item = None else recordTypeMatches (raw_value item) (wrc_Collection item))"

definition item_record :: "syntax_api \<Rightarrow> OfficialTarget \<Rightarrow> wireRecord \<Rightarrow> UnverifiedRecord" where
  "item_record sx target item = \<lparr>ur_URI = record_uri sx target (wrc_Collection item) (wrc_RKey item), ur_Collection = wrc_Collection item,
     ur_RKey = wrc_RKey item, ur_CID = wrc_CID item, ur_Value = raw_value item\<rparr>"

definition page_records :: "syntax_api \<Rightarrow> OfficialTarget \<Rightarrow> record_page \<times> nat \<Rightarrow> UnverifiedRecord list" where
  "page_records sx target p = map (item_record sx target) (elems (rpg_Records (fst p)))"

definition cursor_fine :: "bytes \<Rightarrow> bytes list \<Rightarrow> bool" where
  "cursor_fine cursor uris \<longleftrightarrow> cursor = [] \<or> length cursor \<le> maxCursorBytes \<and> \<not> contains_any cursor [CHR 0x0D, CHR 0x0A]
     \<and> uris \<noteq> [] \<and> cursor = last uris"

definition page_fine :: "syntax_api \<Rightarrow> ipld_api \<Rightarrow> OfficialTarget \<Rightarrow> bytes \<Rightarrow> bool \<Rightarrow> record_page \<times> nat \<Rightarrow> bool" where
  "page_fine sx ip target collection excludeValues p \<longleftrightarrow> rpg_Records (fst p) \<noteq> None
     \<and> list_all (item_fine sx ip collection excludeValues) (elems (rpg_Records (fst p)))
     \<and> cursor_fine (rpg_Cursor (fst p)) (map ur_URI (page_records sx target p))"

text \<open>The listing that consists of pages within the limits, no address twice.\<close>

definition listing_fine :: "syntax_api \<Rightarrow> ipld_api \<Rightarrow> OfficialTarget \<Rightarrow> bytes \<Rightarrow> bool \<Rightarrow> (record_page \<times> nat) list \<Rightarrow> UnverifiedRecord list \<Rightarrow> bool" where
  "listing_fine sx ip target collection excludeValues ps records \<longleftrightarrow> list_all (page_fine sx ip target collection excludeValues) ps
     \<and> records = concat (map (page_records sx target) ps) \<and> distinct (map ur_URI records)
     \<and> length records \<le> maxInventoryItems \<and> sum_list (map snd ps) \<le> maxInventoryBytes"

lemma list_items_iff:
  assumes "length records \<le> maxInventoryItems"
  shows "list_items sx ip target collection ex items seen records = Inr (seen', records') \<longleftrightarrow>
    list_all (item_fine sx ip collection ex) items \<and> distinct (map ur_URI (map (item_record sx target) items))
    \<and> set (map ur_URI (map (item_record sx target) items)) \<inter> set seen = {}
    \<and> records' = records @ map (item_record sx target) items \<and> length records' \<le> maxInventoryItems
    \<and> seen' = List.rev (map ur_URI (map (item_record sx target) items)) @ seen"
  using assms
proof (induction items arbitrary: seen records)
  case (Cons item items)
  show ?case
  proof (cases "item_fine sx ip collection ex item \<and> ur_URI (item_record sx target item) \<notin> set seen
      \<and> length records < maxInventoryItems")
    case True
    then have "list_items sx ip target collection ex (item # items) seen records
      = list_items sx ip target collection ex items (ur_URI (item_record sx target item) # seen) (records @ [item_record sx target item])"
      by (auto simp: item_fine_def item_record_def Let_def split: if_splits)
    moreover have "length (records @ [item_record sx target item]) \<le> maxInventoryItems" using True by simp
    ultimately show ?thesis using True by (auto simp: Cons.IH)
  next
    case False
    then have "\<nexists>x. list_items sx ip target collection ex (item # items) seen records = Inr x"
      by (cases ex) (auto simp: item_fine_def item_record_def Let_def)
    then show ?thesis using False by auto
  qed
qed auto

text \<open>What the accumulator holds: the addresses seen are those of the records, and every cursor is one of them.\<close>

definition listing_state :: "record_listing \<Rightarrow> bool" where
  "listing_state l \<longleftrightarrow> rl_seen l = List.rev (map ur_URI (rl_records l)) \<and> set (rl_cursors l) \<subseteq> set (rl_seen l)
     \<and> distinct (map ur_URI (rl_records l)) \<and> length (rl_records l) \<le> maxInventoryItems \<and> rl_bytes l \<le> maxInventoryBytes"

definition page_fits :: "syntax_api \<Rightarrow> ipld_api \<Rightarrow> OfficialTarget \<Rightarrow> bytes \<Rightarrow> bool \<Rightarrow> record_page \<times> nat \<Rightarrow> record_listing \<Rightarrow> bool" where
  "page_fits sx ip target collection ex p l \<longleftrightarrow> page_fine sx ip target collection ex p
     \<and> distinct (map ur_URI (rl_records l @ page_records sx target p))
     \<and> length (rl_records l @ page_records sx target p) \<le> maxInventoryItems \<and> rl_bytes l + snd p \<le> maxInventoryBytes"

lemma list_page_accepts:
  assumes l: "listing_state l" and p: "page_fits sx ip target collection ex p l"
  obtains l' where "list_page sx ip target collection ex p l = Inr l'" "listing_state l'"
    "rl_records l' = rl_records l @ page_records sx target p" "rl_bytes l' = rl_bytes l + snd p"
proof -
  obtain items where items: "rpg_Records (fst p) = Some items" using p by (auto simp: page_fits_def page_fine_def)
  let ?rs = "page_records sx target p"
  have rs: "?rs = map (item_record sx target) items" by (simp add: page_records_def items)
  have "list_items sx ip target collection ex items (rl_seen l) (rl_records l) = Inr (List.rev (map ur_URI ?rs) @ rl_seen l, rl_records l @ ?rs)"
    using l p by (subst list_items_iff) (auto simp: listing_state_def page_fits_def page_fine_def items rs)
  then have pg: "list_page sx ip target collection ex p l = Inr (l\<lparr>rl_seen := List.rev (map ur_URI ?rs) @ rl_seen l, rl_bytes := rl_bytes l + snd p,
      rl_records := rl_records l @ ?rs, rl_cursors := (if rpg_Cursor (fst p) = [] then rl_cursors l else rpg_Cursor (fst p) # rl_cursors l)\<rparr>)"
    (is "_ = Inr ?l")
  proof (cases "rpg_Cursor (fst p) = []")
    case False
    then have c: "?rs \<noteq> []" "rpg_Cursor (fst p) = ur_URI (last ?rs)" "items \<noteq> []"
      using p by (auto simp: page_fits_def page_fine_def cursor_fine_def last_map rs)
    then have "rpg_Cursor (fst p) \<in> set (map ur_URI ?rs)" by simp
    moreover have "set (rl_cursors l) \<subseteq> set (map ur_URI (rl_records l))" using l by (auto simp: listing_state_def)
    moreover have "set (map ur_URI (rl_records l)) \<inter> set (map ur_URI ?rs) = {}" using p by (simp add: page_fits_def)
    ultimately have "rpg_Cursor (fst p) \<notin> set (rl_cursors l)" by blast
    with \<open>list_items _ _ _ _ _ _ _ _ = _\<close> False c p items show ?thesis
      by (auto simp: list_page_def Let_def page_fits_def page_fine_def cursor_fine_def)
  qed (use p items in \<open>simp add: list_page_def page_fits_def\<close>)
  have st: "listing_state ?l"
    using l p by (auto simp: listing_state_def page_fits_def page_fine_def cursor_fine_def last_map)
  show thesis by (rule that [OF pg st]) simp_all
qed

lemma list_page_refuses:
  assumes l: "listing_state l" and p: "list_page sx ip target collection ex p l = Inr l'"
  shows "page_fits sx ip target collection ex p l"
proof -
  obtain items where items: "rpg_Records (fst p) = Some items" and n: "rl_bytes l + snd p \<le> maxInventoryBytes"
    using p by (auto simp: list_page_def Let_def split: if_splits option.splits)
  let ?rs = "page_records sx target p"
  have rs: "?rs = map (item_record sx target) items" by (simp add: page_records_def items)
  obtain seen records where li: "list_items sx ip target collection ex items (rl_seen l) (rl_records l) = Inr (seen, records)"
    using p by (auto simp: list_page_def Let_def items split: if_splits sum.splits)
  have "length (rl_records l) \<le> maxInventoryItems" using l by (simp add: listing_state_def)
  note k = li [unfolded list_items_iff [OF this]]
  then have r: "records = rl_records l @ ?rs" by (simp add: rs)
  have "cursor_fine (rpg_Cursor (fst p)) (map ur_URI ?rs)"
    using p li by (auto simp: list_page_def Let_def items cursor_fine_def r rs last_map split: if_splits)
  then show ?thesis using l k n by (auto simp: page_fits_def page_fine_def items rs listing_state_def)
qed

lemma advance_all_iff:
  assumes "listing_state l"
  shows "(\<exists>l'. advance_all (list_page sx ip target collection ex) ps l = Inr l' \<and> rl_records l' = records)
    \<longleftrightarrow> list_all (page_fine sx ip target collection ex) ps \<and> records = rl_records l @ concat (map (page_records sx target) ps)
      \<and> distinct (map ur_URI records) \<and> length records \<le> maxInventoryItems \<and> rl_bytes l + sum_list (map snd ps) \<le> maxInventoryBytes"
  using assms
proof (induction ps arbitrary: l)
  case Nil
  then show ?case by (auto simp: listing_state_def)
next
  case (Cons p ps)
  show ?case
  proof (cases "page_fits sx ip target collection ex p l")
    case True
    obtain l1 where l1: "list_page sx ip target collection ex p l = Inr l1" "listing_state l1"
      "rl_records l1 = rl_records l @ page_records sx target p" "rl_bytes l1 = rl_bytes l + snd p"
      by (rule list_page_accepts [OF Cons.prems True])
    show ?thesis using True Cons.IH [OF l1(2)] by (auto simp: l1 page_fits_def add.assoc)
  next
    case False
    then have "\<nexists>l'. list_page sx ip target collection ex p l = Inr l'" using list_page_refuses [OF Cons.prems] by blast
    then have "\<nexists>l'. advance_all (list_page sx ip target collection ex) (p # ps) l = Inr l'" by (auto split: sum.splits)
    moreover have "\<not> (list_all (page_fine sx ip target collection ex) (p # ps) \<and> records = rl_records l @ concat (map (page_records sx target) (p # ps))
      \<and> distinct (map ur_URI records) \<and> length records \<le> maxInventoryItems \<and> rl_bytes l + sum_list (map snd (p # ps)) \<le> maxInventoryBytes)"
    proof
      assume *: "list_all (page_fine sx ip target collection ex) (p # ps) \<and> records = rl_records l @ concat (map (page_records sx target) (p # ps))
        \<and> distinct (map ur_URI records) \<and> length records \<le> maxInventoryItems \<and> rl_bytes l + sum_list (map snd (p # ps)) \<le> maxInventoryBytes"
      then have "map ur_URI records = map ur_URI (rl_records l @ page_records sx target p) @ map ur_URI (concat (map (page_records sx target) ps))" by simp
      then have "distinct (map ur_URI (rl_records l @ page_records sx target p))" using * by (metis distinct_append)
      then show False using False * by (auto simp: page_fits_def)
    qed
    ultimately show ?thesis by blast
  qed
qed

lemma with_source_Inr:
  "with_source source label t f s = (Inr x, s') \<longleftrightarrow>
    (\<exists>d s1 s2. source t s = ((Some d, None), s1) \<and> f d s1 = (Inr x, s2) \<and> s' = sd_Close d s2)"
  by (auto simp: with_source_def split: prod.splits option.splits)

lemma after_give_Inr: "after f (\<lambda>l. give (g l)) s = (Inr x, s') \<longleftrightarrow> (\<exists>l. f s = (Inr l, s') \<and> x = g l)"
  by (auto simp: after_def give_def split: prod.splits sum.splits)

text \<open>C10. A listing of records succeeds with a given result exactly when a credential was granted, the provider
  delivered at most a thousand pages up to one without a cursor, every page is well formed, every cursor
  is the address of the last record of its page, no address occurs twice, and the whole stays
  within the limits on records and bytes; the result is then exactly the records of these pages in their
  order. The check for a repeated cursor adds nothing to this.\<close>

theorem InspectRecords_exact:
  "InspectRecords sx ip c collection excludeValues s = (Inr records, s') \<longleftrightarrow>
    (collection = [] \<or> allowedCollection collection)
    \<and> (\<exists>d s1 s2 pages. cn_reader c (cn_target c) s = ((Some d, None), s1) \<and> s' = sd_Close d s2 \<and> length pages \<le> maxInventoryPages
        \<and> pages_of (fetch_records c d) (\<lambda>p. rpg_Cursor (fst p)) (records_query (cn_target c) collection excludeValues) s1 pages s2
        \<and> listing_fine sx ip (cn_target c) collection excludeValues pages records)"
proof -
  let ?l = "\<lparr>rl_cursors = [], rl_seen = [], rl_bytes = 0, rl_records = []\<rparr>"
  have l: "listing_state ?l" by (simp add: listing_state_def)
  have fine: "(\<exists>l'. advance_all (list_page sx ip (cn_target c) collection excludeValues) ps ?l = Inr l' \<and> records = rl_records l')
      \<longleftrightarrow> listing_fine sx ip (cn_target c) collection excludeValues ps records" for ps
    using advance_all_iff [OF l, of sx ip "cn_target c" collection excludeValues ps records] by (auto simp: listing_fine_def)
  show ?thesis
    by (cases "collection = [] \<or> allowedCollection collection")
      (auto simp: InspectRecords_def withReader_def with_source_Inr after_give_Inr record_pages.loop_iff raise_def fine [symmetric], blast+)
qed

text \<open>The same for blobs: what is listed is valid, without repetition, and within the limit.\<close>

lemma list_cids_Inr:
  assumes "list_cids ip items seen cids = Inr (seen', cids')" "seen = List.rev cids" "distinct cids" "list_all (validRawCID ip) cids"
    "length cids \<le> maxInventoryItems"
  shows "cids' = cids @ items \<and> seen' = List.rev cids' \<and> distinct cids' \<and> list_all (validRawCID ip) cids' \<and> length cids' \<le> maxInventoryItems"
  using assms
proof (induction items arbitrary: seen cids)
  case (Cons a items)
  then have a: "validRawCID ip a" "a \<notin> set cids" "Suc (length cids) \<le> maxInventoryItems"
    and r: "list_cids ip items (a # seen) (cids @ [a]) = Inr (seen', cids')" by (auto split: if_splits)
  show ?case using Cons.IH [OF r] Cons.prems a by auto
qed simp

definition blobs_fine :: "ipld_api \<Rightarrow> blob_listing \<Rightarrow> bool" where
  "blobs_fine ip l \<longleftrightarrow> bl_seen l = List.rev (bl_cids l) \<and> distinct (bl_cids l) \<and> list_all (validRawCID ip) (bl_cids l)
     \<and> length (bl_cids l) \<le> maxInventoryItems"

lemma blob_list_page_Inr:
  assumes "blob_list_page ip p l = Inr l'" and "blobs_fine ip l"
  shows "blobs_fine ip l' \<and> bl_cids l' = bl_cids l @ elems (bpg_CIDs (fst p))"
proof -
  obtain items seen cids where items: "bpg_CIDs (fst p) = Some items"
    and li: "list_cids ip items (bl_seen l) (bl_cids l) = Inr (seen, cids)"
    using assms(1) by (auto simp: blob_list_page_def Let_def split: if_splits option.splits sum.splits)
  then have "bl_seen l' = seen \<and> bl_cids l' = cids" using assms(1) by (auto simp: blob_list_page_def Let_def split: if_splits)
  then show ?thesis using list_cids_Inr [OF li] assms(2) by (auto simp: blobs_fine_def items)
qed

lemma ListBlobs_sound:
  assumes "ListBlobs sx ip c since s = (Inr cids, s')"
  shows "distinct cids \<and> list_all (validRawCID ip) cids \<and> length cids \<le> maxInventoryItems
    \<and> (\<exists>pages :: (blob_page \<times> nat) list. length pages \<le> maxInventoryPages \<and> cids = concat (map (\<lambda>p. elems (bpg_CIDs (fst p))) pages))"
proof -
  let ?l = "\<lparr>bl_cursors = [], bl_seen = [], bl_bytes = 0, bl_cids = []\<rparr>"
  have all: "blobs_fine ip l' \<and> bl_cids l' = bl_cids l @ concat (map (\<lambda>p. elems (bpg_CIDs (fst p))) ps)"
    if "advance_all (blob_list_page ip) ps l = Inr l'" "blobs_fine ip l" for ps l l'
    using that by (induction ps arbitrary: l) (auto split: sum.splits dest!: blob_list_page_Inr)
  have "blobs_fine ip ?l" by (simp add: blobs_fine_def)
  moreover obtain ps l' where "length ps \<le> maxInventoryPages" "advance_all (blob_list_page ip) ps ?l = Inr l'" "cids = bl_cids l'"
    using assms by (auto simp: ListBlobs_def withReader_def with_source_Inr after_give_Inr blob_pages.loop_iff Let_def raise_def split: if_splits)
  ultimately have "distinct cids \<and> list_all (validRawCID ip) cids \<and> length cids \<le> maxInventoryItems"
    "length ps \<le> maxInventoryPages \<and> cids = concat (map (\<lambda>p. elems (bpg_CIDs (fst p))) ps)"
    using all [of ps ?l l'] by (auto simp: blobs_fine_def)
  then show ?thesis by blast
qed

section \<open>A batch\<close>

definition batch_fine :: "syntax_api \<Rightarrow> OfficialTarget \<Rightarrow> Create list \<Rightarrow> bool" where
  "batch_fine sx target creates \<longleftrightarrow> creates \<noteq> [] \<and> length creates \<le> maxWrites
     \<and> list_all (\<lambda>x. allowedCollection (cre_Collection x) \<and> validRecordKey sx (cre_RKey x)
         \<and> recordTypeMatches (raw_of (cre_Value x)) (cre_Collection x)) creates
     \<and> distinct (map (\<lambda>x. (cre_Collection x, cre_RKey x)) creates)
     \<and> length (json_text (batch_json target creates)) \<le> maxWriteRequest"

lemma allowed_no_zero: "allowedCollection x \<Longrightarrow> CHR 0x00 \<notin> set x"
  by (auto simp: allowedCollection_def allowedCollections_def MessageCollection_def MessageStateRevisionCollection_def
      MessageStateOperationCollection_def FolderRevisionCollection_def FolderOperationCollection_def)

lemma create_identity_inj:
  assumes "allowedCollection (cre_Collection x)" and "allowedCollection (cre_Collection y)"
  shows "create_identity x = create_identity y \<longleftrightarrow> cre_Collection x = cre_Collection y \<and> cre_RKey x = cre_RKey y"
  unfolding create_identity_def append_Cons append_Nil
  using terminated_inj [OF allowed_no_zero [OF assms(1)] allowed_no_zero [OF assms(2)]] by simp

lemma check_creates_iff:
  "check_creates sx creates seen = Inr () \<longleftrightarrow> list_all (\<lambda>x. validateCreate sx x = Inr ()) creates \<and> distinct (map create_identity creates)
    \<and> set (map create_identity creates) \<inter> set seen = {}"
  by (induction creates arbitrary: seen) (auto split: sum.splits)

lemma check_creates_error: "check_creates sx creates seen = Inl e \<Longrightarrow> e = ErrInvalidRecord"
  by (induction creates arbitrary: seen) (auto simp: validateCreate_def split: sum.splits if_splits)

lemma validateCreate_iff:
  "validateCreate sx x = Inr () \<longleftrightarrow> allowedCollection (cre_Collection x) \<and> validRecordKey sx (cre_RKey x)
     \<and> recordTypeMatches (raw_of (cre_Value x)) (cre_Collection x)"
  by (simp add: validateCreate_def)

lemma check_creates_fine:
  "check_creates sx creates [] = Inr () \<longleftrightarrow> list_all (\<lambda>x. allowedCollection (cre_Collection x) \<and> validRecordKey sx (cre_RKey x)
     \<and> recordTypeMatches (raw_of (cre_Value x)) (cre_Collection x)) creates \<and> distinct (map (\<lambda>x. (cre_Collection x, cre_RKey x)) creates)"
proof -
  have "distinct (map create_identity creates) \<longleftrightarrow> distinct (map (\<lambda>x. (cre_Collection x, cre_RKey x)) creates)"
    if "list_all (\<lambda>x. allowedCollection (cre_Collection x)) creates"
    using that
  proof (induction creates)
    case (Cons x xs)
    then have "create_identity x \<in> set (map create_identity xs) \<longleftrightarrow> (cre_Collection x, cre_RKey x) \<in> set (map (\<lambda>x. (cre_Collection x, cre_RKey x)) xs)"
      by (auto simp: list_all_iff image_iff create_identity_inj)
    then show ?case using Cons by simp
  qed simp
  then show ?thesis by (auto simp: check_creates_iff validateCreate_iff list_all_iff)
qed

lemma check_receipts_Inr:
  assumes "check_receipts sx ip target (zip creates results) acc = Inr out" and "length results = length creates"
  shows "\<exists>rs. out = acc @ rs \<and> list_all2 (\<lambda>x y. RecordURI sx (repositoryTarget target) (cre_Collection x) (cre_RKey x) = Inr (crr_URI y)
    \<and> validRecordCID ip (crr_CID y)) creates rs"
  using assms
proof (induction creates results arbitrary: acc rule: list_induct2')
  case (4 x xs y ys)
  then have ok: "RecordURI sx (repositoryTarget target) (cre_Collection x) (cre_RKey x) = Inr (wcr_URI y)" "validRecordCID ip (wcr_CID y)"
    and r: "check_receipts sx ip target (zip xs ys) (acc @ [\<lparr>crr_URI = wcr_URI y, crr_CID = wcr_CID y\<rparr>]) = Inr out"
    by (auto split: if_splits)
  from 4(1) [OF r] 4(3) obtain rs where "out = (acc @ [\<lparr>crr_URI = wcr_URI y, crr_CID = wcr_CID y\<rparr>]) @ rs"
    "list_all2 (\<lambda>x y. RecordURI sx (repositoryTarget target) (cre_Collection x) (cre_RKey x) = Inr (crr_URI y) \<and> validRecordCID ip (crr_CID y)) xs rs"
    by auto
  then show ?case using ok by (intro exI [of _ "\<lparr>crr_URI = wcr_URI y, crr_CID = wcr_CID y\<rparr> # rs"]) simp
qed auto

lemma CreateBatch_run:
  assumes "batch_fine sx (cn_target c) creates"
  shows "CreateBatch sx ip c creates = withWriter c (\<lambda>d. consuming
    (request c d ''POST'' applyWritesEndpoint None (Some (json_text (batch_json (cn_target c) creates))) ''application/json'' ''application/json'')
    (check_batch sx ip (cn_target c) creates))"
proof -
  have "check_creates sx creates [] = Inr ()" using assms by (subst check_creates_fine) (simp add: batch_fine_def)
  moreover have "\<not> length creates = 0 \<and> \<not> maxWrites < length creates \<and> \<not> maxWriteRequest < length (json_text (batch_json (cn_target c) creates))"
    using assms by (simp add: batch_fine_def not_less)
  ultimately show ?thesis by (simp add: CreateBatch_def Let_def)
qed

text \<open>C11. A batch that is empty, too long, names a record twice, or has a record the mailbox does not admit is refused
  before anything is borrowed or sent. A batch that succeeds was sent whole in one request with a borrowed
  writer, was answered for that request with status 200, and every record is acknowledged in its
  place under the address it has in the target.\<close>

theorem CreateBatch_outcome:
  "(\<not> batch_fine sx (cn_target c) creates \<longrightarrow> CreateBatch sx ip c creates s = (Inl ErrInvalidRecord, s))
   \<and> (CreateBatch sx ip c creates s = (Inr results, s') \<longrightarrow> batch_fine sx (cn_target c) creates
      \<and> list_all2 (\<lambda>x y. RecordURI sx (repositoryTarget (cn_target c)) (cre_Collection x) (cre_RKey x) = Inr (crr_URI y)
          \<and> validRecordCID ip (crr_CID y)) creates results
      \<and> (\<exists>d s1 s2 r. cn_writer c (cn_target c) s = ((Some d, None), s1) \<and> re_Status r = 200 \<and> s' = sd_Close d (close_body (Some r) s2)
          \<and> request c d ''POST'' applyWritesEndpoint None (Some (json_text (batch_json (cn_target c) creates)))
              ''application/json'' ''application/json'' s1 = (Inr r, s2)))"
proof (cases "batch_fine sx (cn_target c) creates")
  case True
  have "list_all2 (\<lambda>x y. RecordURI sx (repositoryTarget (cn_target c)) (cre_Collection x) (cre_RKey x) = Inr (crr_URI y)
      \<and> validRecordCID ip (crr_CID y)) creates results \<and> re_Status r = 200" if "check_batch sx ip (cn_target c) creates r = Inr results" for r
    using that check_receipts_Inr [of sx ip "cn_target c" creates _ "[]" results]
    by (auto simp: check_batch_def answer_def split: if_splits sum.splits option.splits prod.splits)
  then show ?thesis
    using True unfolding CreateBatch_run [OF True] withWriter_def with_source_Inr consuming_def
    by (auto elim!: after_InrE)
next
  case False
  have "CreateBatch sx ip c creates s = (Inl ErrInvalidRecord, s)"
  proof (cases "check_creates sx creates []")
    case (Inl e)
    then show ?thesis using check_creates_error [OF Inl] by (simp add: CreateBatch_def raise_def)
  next
    case (Inr u)
    then have ck: "check_creates sx creates [] = Inr ()" by simp
    then show ?thesis using False ck [unfolded check_creates_fine] by (auto simp: CreateBatch_def raise_def batch_fine_def Let_def not_le)
  qed
  then show ?thesis using False by simp
qed

section \<open>A provider that counts\<close>

text \<open>A world whose state is the number of things that are open, with one record in its mailbox.\<close>

definition counted_target :: OfficialTarget where
  "counted_target = \<lparr>ot_Origin = ''https://p'', ot_SpaceURI = ''at://did:a/space/email.atmos.mailbox/m'', ot_RepoDID = ''did:a'', ot_Epoch = PinnedEpoch\<rparr>"

definition counted_document :: "bytes \<Rightarrow> json" where
  "counted_document endpoint =
     (if endpoint = listRecordsEndpoint then JObj [(''records'', JArr [JObj [(''collection'', JStr MessageCollection), (''rkey'', JStr ''k''), (''cid'', JStr ''c'')]])]
      else JObj [(''results'', JArr [JObj [(''$type'', JStr createResultType),
        (''uri'', JStr ''at://did:a/space/email.atmos.mailbox/m/did:a/email.atmos.message/k''), (''cid'', JStr ''c''), (''validationStatus'', JStr ''valid'')]])])"

definition counted_doer :: "int ScopedDoer" where
  "counted_doer = \<lparr>sd_Do = (\<lambda>rq n. ((Some \<lparr>re_Status = 200, re_Request = Some \<lparr>ans_URL = rq_URL rq, ans_Host = [], ans_URLHost = []\<rparr>,
       re_MediaType = Some ''application/json'', re_Body = \<lparr>bo_Bytes = json_text (counted_document (rq_Endpoint rq)), bo_Failed = False,
       bo_Docs = [counted_document (rq_Endpoint rq)]\<rparr>, re_Close = Some (\<lambda>n. n - 1)\<rparr>, None), n + 1)), sd_Close = (\<lambda>n. n - 1)\<rparr>"

definition counted_client :: "int Client" where
  "counted_client = \<lparr>cn_origin = ''https://p'', cn_target = counted_target, cn_writer = (\<lambda>t n. ((Some counted_doer, None), n + 1)),
     cn_reader = (\<lambda>t n. ((Some counted_doer, None), n + 1))\<rparr>"

definition counted_ipld :: ipld_api where
  "counted_ipld = \<lparr>ip_CidFromBytes = (\<lambda>_. None), ip_ParseCid = (\<lambda>_. None),
     ip_DecodeCid = (\<lambda>_. Some \<lparr>c_Version = 1, c_Codec = cid_DagCBOR, c_MhType = multihash_SHA2_256, c_MhLength = 32, c_Digest = []\<rparr>),
     ip_CidString = (\<lambda>_. ''c''), ip_Sum = (\<lambda>c _. Some c), ip_DecodeCBOR = (\<lambda>_. None), ip_EncodeCBOR = (\<lambda>_. None), ip_Blake3 = (\<lambda>_. [])\<rparr>"

lemma counted_sources: "source_counted id (cn_writer counted_client)" "source_counted id (cn_reader counted_client)"
  by (simp_all add: source_counted_def doer_counted_def counted_client_def counted_doer_def opened_def body_counted_def)

lemma counted_lengths:
  "length (json_text (counted_document listRecordsEndpoint)) < 1000" "length (json_text (counted_document applyWritesEndpoint)) < 1000"
  by code_simp+

lemma counted_uri: "RecordURI plain_syntax (repositoryTarget counted_target) MessageCollection ''k''
    = Inr ''at://did:a/space/email.atmos.mailbox/m/did:a/email.atmos.message/k''"
  by code_simp

text \<open>What the doer answers, and that the client takes it for an answer.\<close>

lemma counted_request:
  "\<exists>r. request counted_client counted_doer verb endpoint q b ct ac n = (Inr r, n + 1) \<and> re_Status r = 200
     \<and> bo_Docs (re_Body r) = [counted_document endpoint] \<and> \<not> bo_Failed (re_Body r)
     \<and> bo_Bytes (re_Body r) = json_text (counted_document endpoint)"
  by (simp add: request_def counted_doer_def answers_request_def Let_def)

text \<open>A page the provider delivers, so the listing is not empty by default.\<close>

lemma counted_listed: "fst (fetch_records counted_client counted_doer q n)
    = Inr (\<lparr>rpg_Cursor = [], rpg_Records = Some [zero_wireRecord\<lparr>wrc_Collection := MessageCollection, wrc_RKey := ''k'', wrc_CID := ''c''\<rparr>]\<rparr>,
        length (json_text (counted_document listRecordsEndpoint)))"
proof -
  have d: "decode_struct True [''cursor'', ''records''] put_record_page (counted_document listRecordsEndpoint) \<lparr>rpg_Cursor = [], rpg_Records = None\<rparr>
    = Some \<lparr>rpg_Cursor = [], rpg_Records = Some [zero_wireRecord\<lparr>wrc_Collection := MessageCollection, wrc_RKey := ''k'', wrc_CID := ''c''\<rparr>]\<rparr>"
    by code_simp
  obtain r where r: "request counted_client counted_doer ''GET'' listRecordsEndpoint (Some q) None [] ''application/json'' n = (Inr r, n + 1)"
    "re_Status r = 200" "bo_Docs (re_Body r) = [counted_document listRecordsEndpoint]" "\<not> bo_Failed (re_Body r)"
    "bo_Bytes (re_Body r) = json_text (counted_document listRecordsEndpoint)" using counted_request by blast
  show ?thesis using counted_lengths(1)
    by (simp add: fetch_records_def consuming_def r answer_def decodeStrictBoundedCount_def maxJSONResponse_def d)
qed

definition counted_create :: Create where
  "counted_create = \<lparr>cre_Collection = MessageCollection, cre_RKey = ''k'', cre_Value = JObj [(''$type'', JStr MessageCollection)]\<rparr>"

lemma counted_batch: "batch_fine plain_syntax counted_target [counted_create]"
proof -
  have len: "length (json_text (batch_json counted_target [counted_create])) < 1000" "length (json_text (JObj [(''$type'', JStr MessageCollection)])) < 1000"
    "0 < length (json_text (JObj [(''$type'', JStr MessageCollection)]))" by code_simp+
  have k: "validRecordKey plain_syntax ''k''" "allowedCollection MessageCollection" "to_valid_utf8 MessageCollection = MessageCollection" by code_simp+
  have "recordTypeMatches (raw_of (cre_Value counted_create)) MessageCollection"
    using len(2,3) k(3) by (simp add: recordTypeMatches_def raw_of_def counted_create_def maxWriteRequest_def put_type_def decode_string_def del: json_text.simps)
  then show ?thesis using len(1) k by (simp add: batch_fine_def maxWrites_def maxWriteRequest_def counted_create_def)
qed

theorem CreateBatch_outcome_witness:
  "(\<exists>results s'. CreateBatch plain_syntax counted_ipld counted_client [counted_create] 0 = (Inr results, s')
      \<and> batch_fine plain_syntax counted_target [counted_create] \<and> length results = 1)
    \<and> CreateBatch plain_syntax counted_ipld counted_client [counted_create, counted_create] 0 = (Inl ErrInvalidRecord, 0)"
proof -
  have t: "cn_target counted_client = counted_target" by (simp add: counted_client_def)
  let ?body = "json_text (batch_json counted_target [counted_create])"
  obtain r where r: "request counted_client counted_doer ''POST'' applyWritesEndpoint None (Some ?body) ''application/json'' ''application/json'' 1 = (Inr r, 1 + 1)"
    "re_Status r = 200" "bo_Docs (re_Body r) = [counted_document applyWritesEndpoint]" "\<not> bo_Failed (re_Body r)"
    "bo_Bytes (re_Body r) = json_text (counted_document applyWritesEndpoint)" using counted_request by blast
  have d: "decode_struct True [''results''] put_results (counted_document applyWritesEndpoint) None
    = Some (Some [\<lparr>wcr_Type = createResultType, wcr_URI = ''at://did:a/space/email.atmos.mailbox/m/did:a/email.atmos.message/k'', wcr_CID = ''c'',
        wcr_ValidationStatus = ''valid''\<rparr>])" by code_simp
  have cid: "validRecordCID counted_ipld ''c''" by (simp add: validRecordCID_def counted_ipld_def)
  have "check_batch plain_syntax counted_ipld counted_target [counted_create] r
      = Inr [\<lparr>crr_URI = ''at://did:a/space/email.atmos.mailbox/m/did:a/email.atmos.message/k'', crr_CID = ''c''\<rparr>]"
    using counted_lengths(2) counted_uri cid
    by (simp add: check_batch_def answer_def decodeStrictBoundedCount_def r maxJSONResponse_def d counted_create_def)
  then have "consuming (request counted_client counted_doer ''POST'' applyWritesEndpoint None (Some ?body) ''application/json'' ''application/json'')
      (check_batch plain_syntax counted_ipld counted_target [counted_create]) 1
    = (Inr [\<lparr>crr_URI = ''at://did:a/space/email.atmos.mailbox/m/did:a/email.atmos.message/k'', crr_CID = ''c''\<rparr>], close_body (Some r) (1 + 1))"
    by (simp only: consuming_eq [of "request counted_client counted_doer ''POST'' applyWritesEndpoint None (Some ?body) ''application/json'' ''application/json''" 1 r "1 + 1", OF r(1)])
  moreover have "cn_writer counted_client counted_target 0 = ((Some counted_doer, None), 1)" by (simp add: counted_client_def)
  ultimately obtain results s' where c: "CreateBatch plain_syntax counted_ipld counted_client [counted_create] 0 = (Inr results, s')"
    using CreateBatch_run [of plain_syntax counted_client "[counted_create]" counted_ipld] counted_batch
    by (simp add: t withWriter_def with_source_def)
  note ok = CreateBatch_outcome [THEN conjunct2, THEN mp, OF c]
  have n: "length results = 1" using list_all2_lengthD [OF ok [THEN conjunct2, THEN conjunct1]] by simp
  have "\<not> batch_fine plain_syntax (cn_target counted_client) [counted_create, counted_create]" by (simp add: batch_fine_def)
  note refused = CreateBatch_outcome [THEN conjunct1, THEN mp, OF this, of counted_ipld 0]
  show ?thesis by (intro conjI exI, rule c, rule counted_batch, rule n, rule refused)
qed

section \<open>A clean origin that is not clean\<close>

text \<open>An origin with a bare question mark passes the check: it has an empty query, and the text of the parsed address
  releases the mark, so the path of every request that is appended to the origin becomes part of the query.\<close>

lemma cleanOrigin_question_mark:
  assumes "ua_Parse ua raw = Some \<lparr>pu_Scheme = ''https'', pu_Hostname = host, pu_Port = [], pu_User = False, pu_Path = [], pu_ForceQuery = True,
      pu_RawQuery = [], pu_Fragment = []\<rparr>" and "host \<noteq> []" and "ua_Lower ua host = host" and "ua_EscapeHost ua host = host" and "CHR '':'' \<notin> set host"
  shows "cleanOrigin ua raw allowHTTP = Inr (''https://'' @ host @ ''?'')"
    and "request_url (''https://'' @ host @ ''?'') endpoint q = ''https://'' @ host @ ''?/xrpc/'' @ endpoint
      @ (case q of None \<Rightarrow> [] | Some q \<Rightarrow> if query_encode q = [] then [] else ''?'' @ query_encode q)"
  using assms by (simp_all add: cleanOrigin_def url_String_def trim_suffix_def request_url_def)

end
