(* ===== verification/Authority_Retry.thy ===== *)
theory Authority_Retry
  imports Authority_Append Official_Inventory
begin

text \<open>
  What becomes of an append whose records are there already: the batch is refused, the records
  are read back and compared with the ones the engine wanted to write (\<^verbatim>\<open>official_engine.go\<close>,
  \<^verbatim>\<open>stateAppendExists\<close>, with the decoders and \<^verbatim>\<open>VerifyRevisionRetry\<close> of \<^verbatim>\<open>revision.go\<close>).
\<close>

section \<open>What is written is read back\<close>

text \<open>A revision as it is read back: an empty list that is omitted becomes the nil slice.\<close>

definition read_back :: "RevisionRecord \<Rightarrow> RevisionRecord" where
  "read_back r = r\<lparr>rv_MailboxIDs := (if elems (rv_MailboxIDs r) = [] then None else rv_MailboxIDs r),
     rv_Keywords := (if elems (rv_Keywords r) = [] then None else rv_Keywords r)\<rparr>"

definition empty_not_nil :: "RevisionRecord \<Rightarrow> bool" where
  "empty_not_nil r \<longleftrightarrow> rv_MailboxIDs r = Some [] \<or> rv_Keywords r = Some []"

lemma read_back_same: "read_back r = r \<longleftrightarrow> \<not> empty_not_nil r"
  by (cases r; cases "rv_MailboxIDs r"; cases "rv_Keywords r") (auto simp: read_back_def empty_not_nil_def)

lemma check_values_utf8: "check_values n vs = Inr () \<Longrightarrow> list_all utf8_valid vs"
  by (induction vs) (auto split: if_splits)

lemma keyword_json_decodes: "utf8_valid (ka_Name k) \<Longrightarrow> keyword_of_json (keyword_json k) = Some k"
  by (simp add: keyword_of_json_def keyword_json_def decode_members_append jfield_def put_keyword_def zero_KeywordAssignment_def)

lemma keyword_list_decodes:
  "list_all utf8_valid (map ka_Name ks) \<Longrightarrow> decode_list keyword_of_json (map keyword_json ks) = Some ks"
  by (induction ks) (simp_all add: keyword_json_decodes)

lemma revision_utf8:
  assumes "StateRevisionRKey sx did r = Inr k"
  shows "utf8_valid (rv_Type r)" "utf8_valid (rv_LogicalMessageID r)" "utf8_valid (rv_OperationID r)" "utf8_valid (rv_Version r)"
    "utf8_valid (rv_CreatedAt r)" "list_all utf8_valid (elems (rv_Parents r))" "list_all utf8_valid (elems (rv_MailboxIDs r))"
    "list_all utf8_valid (map ka_Name (elems (rv_Keywords r)))"
  using assms by (auto simp: StateRevisionRKey_def CanonicalRevisionBytes_def dest: check_values_utf8 split: if_splits sum.splits)

lemma decode_slice_JArr [simp]: "decode_slice f (JArr xs) = map_option Some (decode_list f xs)"
  by (simp add: decode_slice_def split: option.splits)

lemma decode_bool_ptr_JBool [simp]: "decode_bool_ptr (JBool b) = Some (Some b)"
  by (simp add: decode_bool_ptr_def)

lemma revision_json_decodes:
  assumes "StateRevisionRKey sx did r = Inr k" and "0 < n" and "n \<le> maxRevisionRecordBytes"
  shows "DecodeRevisionRecord n [revision_json r] = Inr (read_back r)"
proof -
  have "decode_struct True revision_fields put_revision (revision_json r) zero_RevisionRecord = Some (read_back r)"
    using revision_utf8 [OF assms(1)] keyword_list_decodes [of "elems (rv_Keywords r)"]
    by (cases r; cases "rv_DeletePending r"; cases "rv_Keywords r")
      (simp_all add: revision_json_def decode_members_append jfield_def jomit_def revision_fields_def put_revision_def
        zero_RevisionRecord_def read_back_def)
  then show ?thesis using assms(2,3) by (simp add: DecodeRevisionRecord_def require_single_def)
qed

lemma claim_json_decodes:
  assumes "utf8_valid (oc_Type c)" "utf8_valid (oc_LogicalMessageID c)" "utf8_valid (oc_OperationID c)" "utf8_valid (oc_RevisionRKey c)"
    and "0 < n" and "n \<le> maxRevisionRecordBytes"
  shows "DecodeOperationClaimRecord n [claim_json c] = Inr c"
  using assms by (simp add: DecodeOperationClaimRecord_def require_single_def claim_json_def decode_members_append jfield_def claim_fields_def
      put_claim_def zero_OperationClaimRecord_def)

lemma state_key_utf8: "utf8_valid (''state-'' @ hex_encode s)"
  using utf8_valid_ascii [OF lower_hex_ascii [OF lower_hex_encode [of s]]] by (simp add: byte_def)

text \<open>The records of an append, as they are read back.\<close>

lemma creates_read_back:
  assumes build: "buildStateCreates sx did r = Inr (revision, claim)"
    and n: "0 < n" "n \<le> maxRevisionRecordBytes" and k: "0 < k" "k \<le> maxRevisionRecordBytes"
  shows "OperationClaimRKey sx did (rv_LogicalMessageID r) (rv_OperationID r) = Inr (cre_RKey claim)"
    and "DecodeOperationClaimRecord n [cre_Value claim] = Inr \<lparr>oc_Type = MessageStateOperationCollection,
      oc_LogicalMessageID = rv_LogicalMessageID r, oc_OperationID = rv_OperationID r, oc_RevisionRKey = cre_RKey revision\<rparr>"
    and "DecodeRevisionRecord k [cre_Value revision] = Inr (read_back r)"
proof -
  note key = buildStateCreates_InrD(1) [OF build]
  have rkey: "utf8_valid (cre_RKey revision)" using state_key_utf8 StateRevisionRKey_Inr(1) [OF key] by simp
  have ty: "utf8_valid MessageStateOperationCollection" by (simp add: MessageStateOperationCollection_def byte_def)
  obtain claimKey where ck: "OperationClaimRKey sx did (rv_LogicalMessageID r) (rv_OperationID r) = Inr claimKey"
    and cl: "cre_RKey claim = claimKey" "cre_Value claim = claim_json \<lparr>oc_Type = MessageStateOperationCollection,
      oc_LogicalMessageID = rv_LogicalMessageID r, oc_OperationID = rv_OperationID r, oc_RevisionRKey = cre_RKey revision\<rparr>"
    using build key by (auto simp: buildStateCreates_def NewOperationClaim_def split: sum.splits if_splits)
  have v: "cre_Value revision = revision_json r" using build by (auto simp: buildStateCreates_def split: sum.splits)
  show "OperationClaimRKey sx did (rv_LogicalMessageID r) (rv_OperationID r) = Inr (cre_RKey claim)" using ck cl by simp
  show "DecodeOperationClaimRecord n [cre_Value claim] = Inr \<lparr>oc_Type = MessageStateOperationCollection,
      oc_LogicalMessageID = rv_LogicalMessageID r, oc_OperationID = rv_OperationID r, oc_RevisionRKey = cre_RKey revision\<rparr>"
    unfolding cl using rkey ty revision_utf8 [OF key] n by (intro claim_json_decodes) simp_all
  show "DecodeRevisionRecord k [cre_Value revision] = Inr (read_back r)" unfolding v by (rule revision_json_decodes [OF key k])
qed

lemma retry_accepted:
  assumes "StateRevisionRKey sx did r = Inr key" and "StateRevisionRKey sx did r0 = Inr key0"
    and "r0\<lparr>rv_CreatedAt := []\<rparr> = r\<lparr>rv_CreatedAt := []\<rparr>"
  shows "VerifyRevisionRetry sx did \<lparr>sv_RKey = key, sv_Record = r\<rparr> \<lparr>sv_RKey = key0, sv_Record = read_back r0\<rparr> = Inr ()
    \<longleftrightarrow> \<not> empty_not_nil r"
proof -
  have "empty_not_nil r0 = empty_not_nil r" using assms(3) by (cases r; cases r0) (simp add: empty_not_nil_def)
  moreover have "(read_back r0)\<lparr>rv_CreatedAt := []\<rparr> = r\<lparr>rv_CreatedAt := []\<rparr> \<longleftrightarrow> \<not> empty_not_nil r0"
    unfolding assms(3) [symmetric] read_back_same [symmetric] by (cases r0) (simp add: read_back_def)
  ultimately show ?thesis
    using assms(1,2) read_back_same [of r0] by (auto simp: VerifyRevisionRetry_def)
qed

text \<open>C12. An append that finds its records written already, by an earlier attempt that differs at most in
  the time of creation, is recognised as done when the records are read back as they were written, and
  nothing more is written; with one exception: where the revision assigns an empty list that is not nil,
  as it does when there are no keywords before and after, the list is omitted from the text, comes back
  as nil, and the identical append is reported as a conflict.\<close>

theorem append_retry:
  assumes stored: "buildStateCreates sx (at_RepoDID (oe_target engine)) r0 = Inr (revision, claim)"
    and same: "r0\<lparr>rv_CreatedAt := []\<rparr> = r\<lparr>rv_CreatedAt := []\<rparr>"
    and key: "StateRevisionRKey sx (at_RepoDID (oe_target engine)) r = Inr key"
    and batch: "ow_CreateBatch (oe_client engine) creates s = (Inl e, s1)" "errors_Is e ErrExists"
    and claims: "ow_InspectRecord (oe_client engine) MessageStateOperationCollection (cre_RKey claim) s1
      = (Inr storedClaim, s2)" "ur_Value storedClaim = (n, [cre_Value claim])"
    and revisions: "ow_InspectRecord (oe_client engine) MessageStateRevisionCollection (cre_RKey revision) s2
      = (Inr storedRevision, s3)" "ur_RKey storedRevision = cre_RKey revision" "ur_Value storedRevision = (k, [cre_Value revision])"
    and bounds: "0 < n" "n \<le> maxRevisionRecordBytes" "0 < k" "k \<le> maxRevisionRecordBytes"
  shows "create_or_recognise sx engine creates r s = (if empty_not_nil r then Inl ErrAppendConflict else Inr (), s3)"
proof -
  note b = creates_read_back [OF stored bounds]
  have ids: "rv_LogicalMessageID r0 = rv_LogicalMessageID r" "rv_OperationID r0 = rv_OperationID r"
    using same by (cases r; cases r0; simp)+
  have "stateAppendExists sx engine r s1 = (if empty_not_nil r then Inl ErrAppendConflict else Inr True, s3)"
    using b key claims revisions retry_accepted [OF key buildStateCreates_InrD(1) [OF stored] same]
    by (simp add: stateAppendExists_def Let_def ids attempt_def raise_def give_def)
  then show ?thesis using batch by (simp add: create_or_recognise_def attempt_def raise_def give_def)
qed

section \<open>A race of two identical appends\<close>

text \<open>A client whose writer lost the race: the batch is refused, the records of the winner are there.\<close>

definition read_as :: "Create \<Rightarrow> UnverifiedRecord" where
  "read_as x = \<lparr>ur_URI = [], ur_Collection = cre_Collection x, ur_RKey = cre_RKey x, ur_CID = [], ur_Value = (1, [cre_Value x])\<rparr>"

definition raced_writer :: "Create \<times> Create \<Rightarrow> unit officialWriter" where
  "raced_writer w = \<lparr>ow_TransportID = [], ow_Target = \<lparr>ot_Origin = [], ot_SpaceURI = [], ot_RepoDID = ''did:a'', ot_Epoch = []\<rparr>,
     ow_UploadMessageBlob = (\<lambda>_. raise ErrNotFound), ow_CreateBatch = (\<lambda>_. raise ErrExists),
     ow_InspectRecord = (\<lambda>c k. let v = (if c = MessageStateOperationCollection then snd w else fst w) in
       if k = cre_RKey v then give (read_as v) else raise ErrNotFound)\<rparr>"

definition raced_engine :: "Create \<times> Create \<Rightarrow> unit OfficialEngine" where
  "raced_engine w = \<lparr>oe_target = \<lparr>at_ProviderID = [], at_Origin = [], at_SpaceURI = [], at_RepoDID = ''did:a'', at_Epoch = [],
     at_CertificateSHA256 = [], at_CertificateGeneration = AuthorityGeneration\<rparr>, oe_client = raced_writer w, oe_readSnapshot = None,
     oe_now = (\<lambda>s. (unix_epoch, s))\<rparr>"

definition bare_revision :: RevisionRecord where
  "bare_revision = demo_revision\<lparr>rv_Keywords := keywordAssignments [] []\<rparr>"

lemma bare_key: "\<exists>k. StateRevisionRKey plain_syntax ''did:a'' bare_revision = Inr k"
proof -
  have kws: "keywordAssignments [] [] = Some []" by code_simp
  have "length (encode_revision bare_revision) \<le> maxRevisionRecordBytes"
    by (simp add: encode_revision_def bare_revision_def kws demo_revision_def revision_prefix_def cw_string_def cw_strings_def cw_len_def
        cw_uint64_def encode_mailboxes_def encode_keywords_def encode_pending_def cw_byte_def cw_boolean_def
        demo_lengths uvarint_small MessageStateRevisionCollection_def maxRevisionRecordBytes_def)
  then have "CanonicalRevisionBytes bare_revision = Inr (encode_revision bare_revision)"
    using demo_identifiers(4-6)
    by (simp add: CanonicalRevisionBytes_def) (simp add: bare_revision_def kws demo_revision_def demo_lengths maxIdentifierBytes_def
        maxOperationIDBytes_def maxParents_def maxMailboxes_def maxKeywords_def MessageStateRevisionCollection_def byte_def)
  then show ?thesis using demo_identifiers(1,9,10)
    by (simp add: StateRevisionRKey_def) (simp add: bare_revision_def demo_revision_def)
qed

lemma key_builds:
  assumes "StateRevisionRKey sx did r = Inr k"
  shows "\<exists>revision claim. buildStateCreates sx did r = Inr (revision, claim)"
  using assms by (auto simp: buildStateCreates_def NewOperationClaim_def OperationClaimRKey_def StateRevisionRKey_def split: if_splits sum.splits)

theorem append_retry_witness:
  "(\<exists>w. create_or_recognise plain_syntax (raced_engine w) [fst w, snd w] demo_revision () = (Inr (), ()))
    \<and> (\<exists>w. create_or_recognise plain_syntax (raced_engine w) [fst w, snd w] bare_revision () = (Inl ErrAppendConflict, ()))"
proof -
  have *: "\<exists>w. create_or_recognise plain_syntax (raced_engine w) [fst w, snd w] r ()
      = (if empty_not_nil r then Inl ErrAppendConflict else Inr (), ())"
    if key: "StateRevisionRKey plain_syntax ''did:a'' r = Inr k" for r k
  proof -
    obtain revision claim where w: "buildStateCreates plain_syntax ''did:a'' r = Inr (revision, claim)"
      using key_builds [OF key] by blast
    let ?e = "raced_engine (revision, claim)"
    have did: "at_RepoDID (oe_target ?e) = ''did:a''" by (simp add: raced_engine_def)
    have c: "MessageStateRevisionCollection \<noteq> MessageStateOperationCollection"
      by (simp add: MessageStateRevisionCollection_def MessageStateOperationCollection_def)
    have "create_or_recognise plain_syntax ?e [revision, claim] r () = (if empty_not_nil r then Inl ErrAppendConflict else Inr (), ())"
      by (rule append_retry [where n = 1 and storedClaim = "read_as claim" and storedRevision = "read_as revision" and k = 1 and e = ErrExists and r0 = r and key = k])
        (use w key c in \<open>simp_all add: did\<close>, simp_all add: raced_engine_def raced_writer_def raise_def give_def maxRevisionRecordBytes_def read_as_def)
    then show ?thesis by (intro exI [of _ "(revision, claim)"]) simp
  qed
  obtain k where k: "StateRevisionRKey plain_syntax ''did:a'' bare_revision = Inr k" using bare_key by blast
  have "empty_not_nil bare_revision" "\<not> empty_not_nil demo_revision"
    by (simp_all add: empty_not_nil_def bare_revision_def keywordAssignments_def wanted_keywords_def demo_revision_def)
  then show ?thesis using * [OF demo_key] * [OF k] by simp
qed

section \<open>The engine over the client\<close>

text \<open>With the client of package \<^verbatim>\<open>officialspaces\<close> as its writer, the engine gives back whatever the client borrows.\<close>

lemma releases_clock: "(\<And>s. held (snd (oe_now engine s)) = held s) \<Longrightarrow> releases held (engine_now engine)"
  by (auto simp: releases_def engine_now_def split: prod.splits) (metis snd_conv)

lemma engine_releases:
  assumes c: "oe_client engine = client_writer sx ip c" and "source_counted held (cn_writer c)" and "source_counted held (cn_reader c)"
    and clock: "\<And>s. held (snd (oe_now engine s)) = held s"
    and snap: "\<And>read. oe_readSnapshot engine = Some read \<Longrightarrow> releases held read"
  shows "releases held (engine_Store sx engine input)" "releases held (engine_AppendState sx engine m)" "releases held (engine_Snapshot engine)"
proof -
  note cl = client_releases [OF assms(2,3), of "\<lambda>_ _. give 0"]
  have w: "releases held (ow_UploadMessageBlob (oe_client engine) raw)" "releases held (ow_CreateBatch (oe_client engine) creates)"
    "releases held (ow_InspectRecord (oe_client engine) collection rkey)" for raw creates collection rkey
    using cl by (simp_all add: c client_writer_def)
  have now: "releases held (engine_now engine)" by (rule releases_clock) (rule clock)
  show snapshot: "releases held (engine_Snapshot engine)"
    using snap by (auto simp: engine_Snapshot_def intro!: releases_after split: option.splits)
  have "releases held (stateAppendExists sx engine r)" for r
    by (auto simp: stateAppendExists_def Let_def intro!: releases_after releases_attempt w split: sum.splits)
  then have batch: "releases held (create_or_recognise sx engine creates r)" for creates r
    by (auto simp: create_or_recognise_def intro!: releases_after releases_attempt w split: sum.splits)
  have "releases held (folderInitializationExists sx engine e)" for e
    by (auto simp: folderInitializationExists_def Let_def intro!: releases_after releases_attempt w split: sum.splits)
  moreover have "releases held (initialFolderCreates sx engine f i)" for f i
    by (auto simp: initialFolderCreates_def Let_def intro!: releases_after now)
  ultimately have miss: "releases held (missing_folder_creates sx engine fs creates)" for fs creates
    by (induction fs arbitrary: creates) (auto intro!: releases_after split: prod.splits)
  have once: "releases held (ensure_folders_once sx engine fs g)" if "\<And>e. releases held (g e)" for fs g
    using that by (auto simp: ensure_folders_once_def intro!: releases_after releases_attempt w miss split: sum.splits)
  then have "releases held (ensureInitialFolderRecords sx engine fs retried)" for fs retried
    by (auto simp: ensureInitialFolderRecords_def)
  then have folders: "releases held (ensureFolders sx engine fs)" for fs
    by (auto simp: ensureFolders_def intro!: releases_after snapshot)
  have "releases held (store_new sx engine input i prior fs)" for i prior fs
    by (auto simp: store_new_def Let_def intro!: releases_after w now batch snapshot split: prod.splits)
  then show "releases held (engine_Store sx engine input)"
    by (auto simp: engine_Store_def Let_def intro!: releases_after folders snapshot now split: option.splits)
  show "releases held (engine_AppendState sx engine m)"
    by (auto simp: engine_AppendState_def Let_def intro!: releases_after now batch snapshot split: prod.splits)
qed


definition counted_engine :: "int OfficialEngine" where
  "counted_engine = \<lparr>oe_target = oe_target (raced_engine (counted_create, counted_create)), oe_client = client_writer plain_syntax counted_ipld counted_client,
     oe_readSnapshot = None, oe_now = (\<lambda>s. (unix_epoch, s))\<rparr>"


end
