(* ===== verification/Space_Scope.thy ===== *)
theory Space_Scope
  imports Repository
begin

text \<open>
  The OAuth scopes of a mailbox (\<^verbatim>\<open>internal/oauthclient/spacescope.go\<close>): the two grants the
  client asks for (the steady append-only one and the one-time provisioning one), and the
  validators that compare what the provider granted with them. The identifier grammar is the
  parameter \<open>syntax_api\<close>; \<open>scope_laws\<close> names what the round trip relies on.
\<close>

section \<open>Package net/url: the decoding of a query component\<close>

text \<open>\<^verbatim>\<open>url.QueryUnescape\<close>: a plus is a space, a percent sign needs two hexadecimal digits.\<close>

fun query_unescape :: "bytes \<Rightarrow> bytes option" where
  "query_unescape [] = Some []"
| "query_unescape (c # s) =
     (if c = CHR ''%'' then
        (case s of
           a # b # r \<Rightarrow>
             (case (hex_val a, hex_val b) of
                (Some x, Some y) \<Rightarrow> map_option (Cons (char_of (16 * x + y))) (query_unescape r)
              | _ \<Rightarrow> None)
         | _ \<Rightarrow> None)
      else map_option (Cons (if c = CHR ''+'' then CHR '' '' else c)) (query_unescape s))"

section \<open>Grants\<close>

definition maxSpaceScopeBytes :: nat where
  "maxSpaceScopeBytes = 4096"

definition appendOnlyMailboxCollections :: "bytes list" where
  "appendOnlyMailboxCollections =
     [FolderOperationCollection, FolderRevisionCollection, MessageCollection,
      MessageStateOperationCollection, MessageStateRevisionCollection]"

record spaceGrant =
  sg_spaceType :: bytes
  sg_authority :: bytes
  sg_skey :: bytes
  sg_collection :: "bytes list"
  sg_action :: "bytes list"
  sg_manage :: "bytes list"

fun containsString :: "bytes list \<Rightarrow> bytes \<Rightarrow> bool" where
  "containsString [] target = False"
| "containsString (v # vs) target = (if v = target then True else containsString vs target)"

text \<open>The first loop of \<^verbatim>\<open>sameStringSet\<close>: the values seen, or nothing at a repetition.\<close>

fun collect_distinct :: "bytes list \<Rightarrow> bytes list \<Rightarrow> bytes list option" where
  "collect_distinct seen [] = Some seen"
| "collect_distinct seen (v # vs) = (if v \<in> set seen then None else collect_distinct (v # seen) vs)"

definition sameStringSet :: "bytes list \<Rightarrow> bytes list \<Rightarrow> bool" where
  "sameStringSet actual expected =
     (if length actual \<noteq> length expected then False
      else (case collect_distinct [] actual of
        None \<Rightarrow> False
      | Some seen \<Rightarrow> list_all (\<lambda>v. v \<in> set seen) expected))"

definition formatSpaceGrant :: "spaceGrant \<Rightarrow> bytes" where
  "formatSpaceGrant g =
     ''space:'' @ sg_spaceType g @ ''?authority='' @ sg_authority g @ ''&skey='' @ sg_skey g
     @ concat (map (\<lambda>c. ''&collection='' @ c) (sg_collection g))
     @ concat (map (\<lambda>a. ''&action='' @ a) (sg_action g))
     @ concat (map (\<lambda>m. ''&manage='' @ m) (sg_manage g))"

text \<open>
  One turn of the parameter loop of \<^verbatim>\<open>parseSpaceGrant\<close>: the grant and the names of the scalar
  parameters seen so far.
\<close>

definition parse_parameter ::
  "syntax_api \<Rightarrow> bytes \<Rightarrow> spaceGrant \<times> bytes list \<Rightarrow> (spaceGrant \<times> bytes list) result" where
  "parse_parameter sx field st = (case st of (g, seen) \<Rightarrow>
     (case cut CHR ''='' field of (rawKey, rawValue, found) \<Rightarrow>
       if \<not> found \<or> rawKey = [] \<or> rawValue = [] then Inl (ErrOther ''malformed OAuth space parameter'')
       else (case query_unescape rawKey of
         None \<Rightarrow> Inl (ErrOther ''malformed OAuth space parameter name'')
       | Some key \<Rightarrow> (case query_unescape rawValue of
           None \<Rightarrow> Inl (ErrOther ''malformed OAuth space parameter value'')
         | Some v \<Rightarrow>
             if key = ''authority'' then
               (if key \<in> set seen then Inl (ErrOther ''duplicate OAuth space authority'')
                else if sx_ParseDID sx v = None then Inl (ErrOther ''parse OAuth space authority'')
                else Inr (g\<lparr>sg_authority := v\<rparr>, key # seen))
             else if key = ''skey'' then
               (if key \<in> set seen then Inl (ErrOther ''duplicate OAuth space key'')
                else if v \<noteq> ''*'' \<and> \<not> sx_ParseRecordKey sx v then Inl (ErrOther ''parse OAuth space key'')
                else Inr (g\<lparr>sg_skey := v\<rparr>, key # seen))
             else if key = ''collection'' then
               (if \<not> sx_ParseNSID sx v then Inl (ErrOther ''parse OAuth space collection'')
                else Inr (g\<lparr>sg_collection := sg_collection g @ [v]\<rparr>, seen))
             else if key = ''action'' then
               (if \<not> containsString [''read_self'', ''read'', ''create'', ''update'', ''delete''] v
                then Inl (ErrOther ''unknown OAuth space action'')
                else Inr (g\<lparr>sg_action := sg_action g @ [v]\<rparr>, seen))
             else if key = ''manage'' then
               (if \<not> containsString [''create'', ''update'', ''delete''] v
                then Inl (ErrOther ''unknown OAuth space management operation'')
                else Inr (g\<lparr>sg_manage := sg_manage g @ [v]\<rparr>, seen))
             else Inl (ErrOther ''unknown OAuth space parameter'')))))"

fun parse_parameters ::
  "syntax_api \<Rightarrow> bytes list \<Rightarrow> spaceGrant \<times> bytes list \<Rightarrow> (spaceGrant \<times> bytes list) result" where
  "parse_parameters sx [] st = Inr st"
| "parse_parameters sx (field # rest) st =
     (case parse_parameter sx field st of
        Inl e \<Rightarrow> Inl e
      | Inr st' \<Rightarrow> parse_parameters sx rest st')"

definition parseSpaceGrant :: "syntax_api \<Rightarrow> bytes \<Rightarrow> spaceGrant result" where
  "parseSpaceGrant sx scope =
     (if length scope = 0 \<or> length scope > maxSpaceScopeBytes
         \<or> contains_any scope ('' '' @ [CHR 0x09, CHR 0x0D, CHR 0x0A])
      then Inl (ErrOther ''malformed OAuth space scope'')
      else (case cut CHR ''?'' (trim_prefix scope ''space:'') of (position, query, found) \<Rightarrow>
        if \<not> found \<or> position = [] \<or> query = [] \<or> contains_any query ''?''
        then Inl (ErrOther ''malformed OAuth space scope'')
        else (case query_unescape position of
          None \<Rightarrow> Inl (ErrOther ''malformed OAuth space type'')
        | Some spaceType \<Rightarrow>
            if \<not> sx_ParseNSID sx spaceType then Inl (ErrOther ''parse OAuth space type'')
            else (case parse_parameters sx (split_on CHR ''&'' query)
                    (\<lparr>sg_spaceType = spaceType, sg_authority = [], sg_skey = [], sg_collection = [],
                      sg_action = [], sg_manage = []\<rparr>, []) of
              Inl e \<Rightarrow> Inl e
            | Inr (g, _) \<Rightarrow>
                if sg_authority g = [] \<or> sg_skey g = []
                then Inl (ErrOther ''OAuth space grant omitted an exact target'') else Inr g))))"

section \<open>Requested scopes\<close>

definition parseSteadyTarget :: "syntax_api \<Rightarrow> bytes \<Rightarrow> bytes \<Rightarrow> (bytes \<times> bytes) result" where
  "parseSteadyTarget sx authorityDID spaceKey =
     (case sx_ParseDID sx authorityDID of
        None \<Rightarrow> Inl (ErrOther ''parse exact DID'')
      | Some did \<Rightarrow>
          if \<not> sx_ParseRecordKey sx spaceKey \<or> spaceKey = ''*'' then Inl (ErrOther ''parse exact space key'')
          else Inr (did, spaceKey))"

definition steady_grant :: "bytes \<Rightarrow> bytes \<Rightarrow> spaceGrant" where
  "steady_grant did rkey =
     \<lparr>sg_spaceType = MailboxSpaceType, sg_authority = did, sg_skey = rkey,
      sg_collection = appendOnlyMailboxCollections, sg_action = [''read'', ''create''], sg_manage = []\<rparr>"

definition MailboxScopes :: "syntax_api \<Rightarrow> bytes \<Rightarrow> bytes \<Rightarrow> bytes list result" where
  "MailboxScopes sx authorityDID spaceKey =
     (case parseSteadyTarget sx authorityDID spaceKey of
        Inl e \<Rightarrow> Inl e
      | Inr (did, rkey) \<Rightarrow>
          Inr [''atproto'', ''blob:'' @ MessageMIMEType, formatSpaceGrant (steady_grant did rkey)])"

definition provisioning_grant :: "bytes \<Rightarrow> bytes \<Rightarrow> spaceGrant" where
  "provisioning_grant did rkey =
     \<lparr>sg_spaceType = MailboxSpaceType, sg_authority = did, sg_skey = rkey,
      sg_collection = appendOnlyMailboxCollections, sg_action = [''read_self''], sg_manage = [''create'']\<rparr>"

definition ProvisioningScopes :: "syntax_api \<Rightarrow> bytes \<Rightarrow> bytes \<Rightarrow> bytes list result" where
  "ProvisioningScopes sx authorityDID spaceKey =
     (case parseSteadyTarget sx authorityDID spaceKey of
        Inl e \<Rightarrow> Inl e
      | Inr (did, rkey) \<Rightarrow> Inr [''atproto'', formatSpaceGrant (provisioning_grant did rkey)])"

section \<open>Granted scopes\<close>

text \<open>The checks of the two validators on one parsed space grant.\<close>

definition check_steady :: "bytes \<Rightarrow> bytes \<Rightarrow> spaceGrant \<Rightarrow> unit result" where
  "check_steady did rkey p =
     (if sg_spaceType p \<noteq> MailboxSpaceType \<or> sg_authority p \<noteq> did \<or> sg_skey p \<noteq> rkey
      then Inl (ErrOther ''OAuth space grant target mismatch'')
      else if \<not> sameStringSet (sg_collection p) appendOnlyMailboxCollections
      then Inl (ErrOther ''OAuth space grant collection mismatch'')
      else if \<not> sameStringSet (sg_action p) [''read'', ''create''] \<or> length (sg_manage p) \<noteq> 0
      then Inl (ErrOther ''OAuth space grant is missing or widens append-only actions'')
      else Inr ())"

definition check_provisioning :: "bytes \<Rightarrow> bytes \<Rightarrow> spaceGrant \<Rightarrow> unit result" where
  "check_provisioning did rkey p =
     (if sg_spaceType p \<noteq> MailboxSpaceType \<or> sg_authority p \<noteq> did \<or> sg_skey p \<noteq> rkey
      then Inl (ErrOther ''provisioning space grant target mismatch'')
      else if \<not> sameStringSet (sg_collection p) appendOnlyMailboxCollections
      then Inl (ErrOther ''provisioning grant collection mismatch'')
      else if \<not> sameStringSet (sg_action p) [''read_self''] \<or> \<not> sameStringSet (sg_manage p) [''create'']
      then Inl (ErrOther ''provisioning grant is missing or widens create-only management'')
      else Inr ())"

text \<open>The loops of the validators, with the three (two) counters of the code.\<close>

fun steady_scopes ::
  "syntax_api \<Rightarrow> bytes \<Rightarrow> bytes \<Rightarrow> bytes list \<Rightarrow> nat \<times> nat \<times> nat \<Rightarrow> (nat \<times> nat \<times> nat) result" where
  "steady_scopes sx did rkey [] n = Inr n"
| "steady_scopes sx did rkey (scope # scopes) (a, b, s) =
     (if scope = ''atproto'' then steady_scopes sx did rkey scopes (a + 1, b, s)
      else if scope = ''blob:'' @ MessageMIMEType then steady_scopes sx did rkey scopes (a, b + 1, s)
      else if has_prefix scope ''space:'' then
        (case parseSpaceGrant sx scope of
           Inl e \<Rightarrow> Inl e
         | Inr p \<Rightarrow> (case check_steady did rkey p of
             Inl e \<Rightarrow> Inl e
           | Inr _ \<Rightarrow> steady_scopes sx did rkey scopes (a, b, s + 1)))
      else Inl (ErrOther ''OAuth grant contained an unexpected scope''))"

definition ValidateSteadyGrant :: "syntax_api \<Rightarrow> bytes list \<Rightarrow> bytes \<Rightarrow> bytes \<Rightarrow> unit result" where
  "ValidateSteadyGrant sx granted authorityDID spaceKey =
     (case parseSteadyTarget sx authorityDID spaceKey of
        Inl e \<Rightarrow> Inl e
      | Inr (did, rkey) \<Rightarrow>
          if length granted \<noteq> 3 then Inl (ErrOther ''OAuth grant must contain exactly three scopes'')
          else (case steady_scopes sx did rkey granted (0, 0, 0) of
            Inl e \<Rightarrow> Inl e
          | Inr (a, b, s) \<Rightarrow>
              if a \<noteq> 1 \<or> b \<noteq> 1 \<or> s \<noteq> 1
              then Inl (ErrOther ''OAuth grant omitted or duplicated a required scope'') else Inr ()))"

fun provisioning_scopes ::
  "syntax_api \<Rightarrow> bytes \<Rightarrow> bytes \<Rightarrow> bytes list \<Rightarrow> nat \<times> nat \<Rightarrow> (nat \<times> nat) result" where
  "provisioning_scopes sx did rkey [] n = Inr n"
| "provisioning_scopes sx did rkey (scope # scopes) (a, s) =
     (if scope = ''atproto'' then provisioning_scopes sx did rkey scopes (a + 1, s)
      else if has_prefix scope ''space:'' then
        (case parseSpaceGrant sx scope of
           Inl e \<Rightarrow> Inl e
         | Inr p \<Rightarrow> (case check_provisioning did rkey p of
             Inl e \<Rightarrow> Inl e
           | Inr _ \<Rightarrow> provisioning_scopes sx did rkey scopes (a, s + 1)))
      else Inl (ErrOther ''provisioning grant contained an unexpected scope''))"

definition ValidateProvisioningGrant :: "syntax_api \<Rightarrow> bytes list \<Rightarrow> bytes \<Rightarrow> bytes \<Rightarrow> unit result" where
  "ValidateProvisioningGrant sx granted authorityDID spaceKey =
     (case parseSteadyTarget sx authorityDID spaceKey of
        Inl e \<Rightarrow> Inl e
      | Inr (did, rkey) \<Rightarrow>
          if length granted \<noteq> 2 then Inl (ErrOther ''provisioning grant must contain exactly two scopes'')
          else (case provisioning_scopes sx did rkey granted (0, 0) of
            Inl e \<Rightarrow> Inl e
          | Inr (a, s) \<Rightarrow>
              if a \<noteq> 1 \<or> s \<noteq> 1
              then Inl (ErrOther ''provisioning grant omitted or duplicated a required scope'') else Inr ()))"

section \<open>What the validators accept\<close>

text \<open>The parameters of a scope, decoded: what a provider that reads the scope sees.\<close>

definition decode_parameter :: "bytes \<Rightarrow> (bytes \<times> bytes) option" where
  "decode_parameter field = (case cut CHR ''='' field of (k, v, found) \<Rightarrow>
     if \<not> found \<or> k = [] \<or> v = [] then None
     else (case (query_unescape k, query_unescape v) of (Some k', Some v') \<Rightarrow> Some (k', v') | _ \<Rightarrow> None))"

fun decode_parameters :: "bytes list \<Rightarrow> (bytes \<times> bytes) list option" where
  "decode_parameters [] = Some []"
| "decode_parameters (f # fs) =
     (case (decode_parameter f, decode_parameters fs) of (Some p, Some ps) \<Rightarrow> Some (p # ps) | _ \<Rightarrow> None)"

text \<open>A scope that names the space type and carries exactly the given parameters, in any order.\<close>

definition scope_carries :: "bytes \<Rightarrow> (bytes \<times> bytes) list \<Rightarrow> bool" where
  "scope_carries scope ps \<longleftrightarrow>
     length scope \<le> maxSpaceScopeBytes \<and> \<not> contains_any scope ('' '' @ [CHR 0x09, CHR 0x0D, CHR 0x0A])
     \<and> (\<exists>position query qs. scope = ''space:'' @ position @ ''?'' @ query
          \<and> CHR ''?'' \<notin> set position \<and> CHR ''?'' \<notin> set query
          \<and> query_unescape position = Some MailboxSpaceType
          \<and> decode_parameters (split_on CHR ''&'' query) = Some qs \<and> mset qs = mset ps)"

definition target_parameters :: "bytes \<Rightarrow> bytes \<Rightarrow> (bytes \<times> bytes) list" where
  "target_parameters did rkey =
     [(''authority'', did), (''skey'', rkey)] @ map (\<lambda>c. (''collection'', c)) appendOnlyMailboxCollections"

definition steady_parameters :: "bytes \<Rightarrow> bytes \<Rightarrow> (bytes \<times> bytes) list" where
  "steady_parameters did rkey = target_parameters did rkey @ [(''action'', ''read''), (''action'', ''create'')]"

definition provisioning_parameters :: "bytes \<Rightarrow> bytes \<Rightarrow> (bytes \<times> bytes) list" where
  "provisioning_parameters did rkey = target_parameters did rkey @ [(''action'', ''read_self''), (''manage'', ''create'')]"

text \<open>
  Documented of the identifier grammar: a DID is its own text, of at most 2048 bytes from
  letters, digits and \<^verbatim>\<open>._:%-\<close>; a record key has at most 512 bytes from letters, digits and
  \<^verbatim>\<open>_~.:-\<close>; the names of the mailbox collections are well-formed.
\<close>

definition alnum :: "char \<Rightarrow> bool" where
  "alnum c = (let n = byte c in 97 \<le> n \<and> n \<le> 122 \<or> 65 \<le> n \<and> n \<le> 90 \<or> 48 \<le> n \<and> n \<le> 57)"

definition did_text :: "bytes \<Rightarrow> bool" where
  "did_text s = (s \<noteq> [] \<and> length s \<le> 2048 \<and> list_all (\<lambda>c. alnum c \<or> c \<in> set ''._:%-'') s)"

definition key_text :: "bytes \<Rightarrow> bool" where
  "key_text s = (s \<noteq> [] \<and> length s \<le> 512 \<and> list_all (\<lambda>c. alnum c \<or> c \<in> set ''_~.:-'') s)"

definition scope_laws :: "syntax_api \<Rightarrow> bool" where
  "scope_laws sx \<longleftrightarrow>
     (\<forall>s d. sx_ParseDID sx s = Some d \<longrightarrow> d = s \<and> did_text s)
     \<and> (\<forall>s. sx_ParseRecordKey sx s \<longrightarrow> key_text s)
     \<and> list_all (sx_ParseNSID sx) (MailboxSpaceType # appendOnlyMailboxCollections)"

lemma collect_distinct_eq:
  "collect_distinct seen vs = (if distinct vs \<and> set vs \<inter> set seen = {} then Some (List.rev vs @ seen) else None)"
  by (induction vs arbitrary: seen) auto

lemma sameStringSet_iff: "distinct e \<Longrightarrow> sameStringSet a e \<longleftrightarrow> mset a = mset e"
proof -
  assume e: "distinct e"
  have "sameStringSet a e \<longleftrightarrow> length a = length e \<and> distinct a \<and> set e \<subseteq> set a"
    by (auto simp: sameStringSet_def collect_distinct_eq list_all_iff)
  also have "\<dots> \<longleftrightarrow> mset a = mset e"
  proof
    assume *: "length a = length e \<and> distinct a \<and> set e \<subseteq> set a"
    with e have "card (set e) = card (set a)" by (simp add: distinct_card)
    with * have "set e = set a" by (intro card_subset_eq) auto
    with e * show "mset a = mset e" by (metis set_eq_iff_mset_eq_distinct)
  next
    assume m: "mset a = mset e"
    with e show "length a = length e \<and> distinct a \<and> set e \<subseteq> set a"
      using mset_eq_length mset_eq_setD[OF m] mset_eq_imp_distinct_iff[OF m] by auto
  qed
  finally show ?thesis .
qed

lemma containsString_iff: "containsString vs v \<longleftrightarrow> v \<in> set vs"
  by (induction vs) auto

text \<open>A loop turn is the decoding of the field followed by the check of the parameter.\<close>

definition admits :: "syntax_api \<Rightarrow> bytes \<times> bytes \<Rightarrow> bool" where
  "admits sx p = (case p of (k, v) \<Rightarrow>
     if k = ''authority'' then sx_ParseDID sx v \<noteq> None
     else if k = ''skey'' then v = ''*'' \<or> sx_ParseRecordKey sx v
     else if k = ''collection'' then sx_ParseNSID sx v
     else if k = ''action'' then v \<in> {''read_self'', ''read'', ''create'', ''update'', ''delete''}
     else k = ''manage'' \<and> v \<in> {''create'', ''update'', ''delete''})"

definition scalar :: "bytes \<Rightarrow> bool" where
  "scalar k \<longleftrightarrow> k = ''authority'' \<or> k = ''skey''"

definition add_parameter :: "bytes \<times> bytes \<Rightarrow> spaceGrant \<times> bytes list \<Rightarrow> spaceGrant \<times> bytes list" where
  "add_parameter p st = (case p of (k, v) \<Rightarrow> case st of (g, seen) \<Rightarrow>
     (if k = ''authority'' then g\<lparr>sg_authority := v\<rparr>
      else if k = ''skey'' then g\<lparr>sg_skey := v\<rparr>
      else if k = ''collection'' then g\<lparr>sg_collection := sg_collection g @ [v]\<rparr>
      else if k = ''action'' then g\<lparr>sg_action := sg_action g @ [v]\<rparr>
      else g\<lparr>sg_manage := sg_manage g @ [v]\<rparr>, if scalar k then k # seen else seen))"

lemma parse_parameter_iff:
  "parse_parameter sx f (g, seen) = Inr st' \<longleftrightarrow>
     (\<exists>p. decode_parameter f = Some p \<and> admits sx p \<and> \<not> (scalar (fst p) \<and> fst p \<in> set seen)
        \<and> st' = add_parameter p (g, seen))"
proof -
  obtain rk rv found where c: "cut CHR ''='' f = (rk, rv, found)" by (cases "cut CHR ''='' f")
  consider (bad) "\<not> found \<or> rk = [] \<or> rv = [] \<or> query_unescape rk = None \<or> query_unescape rv = None"
    | (ok) k v where "found" "rk \<noteq> []" "rv \<noteq> []" "query_unescape rk = Some k" "query_unescape rv = Some v"
    by (cases "query_unescape rk"; cases "query_unescape rv") auto
  then show ?thesis
  proof cases
    case bad
    then have "decode_parameter f = None"
      by (auto simp: decode_parameter_def c split: option.splits)
    moreover from bad have "\<exists>e. parse_parameter sx f (g, seen) = Inl e"
      by (cases "\<not> found \<or> rk = [] \<or> rv = []"; cases "query_unescape rk"; cases "query_unescape rv")
        (simp_all add: parse_parameter_def c)
    ultimately show ?thesis by auto
  next
    case ok
    then have "decode_parameter f = Some (k, v)" by (simp add: decode_parameter_def c)
    moreover have "parse_parameter sx f (g, seen) = Inr st' \<longleftrightarrow>
      admits sx (k, v) \<and> \<not> (scalar k \<and> k \<in> set seen) \<and> st' = add_parameter (k, v) (g, seen)"
      using ok
      by (cases "k = ''authority''"; cases "k = ''skey''"; cases "k = ''collection''"; cases "k = ''action''"; cases "k = ''manage''")
        (simp_all add: parse_parameter_def c admits_def add_parameter_def scalar_def containsString_iff eq_commute[of st'])
    ultimately show ?thesis by simp
  qed
qed

text \<open>The parameters a grant stands for.\<close>

definition grant_parameters :: "spaceGrant \<times> bytes list \<Rightarrow> (bytes \<times> bytes) multiset" where
  "grant_parameters st = (case st of (g, seen) \<Rightarrow>
     (if ''authority'' \<in> set seen then {#(''authority'', sg_authority g)#} else {#})
     + (if ''skey'' \<in> set seen then {#(''skey'', sg_skey g)#} else {#})
     + image_mset (Pair ''collection'') (mset (sg_collection g))
     + image_mset (Pair ''action'') (mset (sg_action g))
     + image_mset (Pair ''manage'') (mset (sg_manage g)))"

definition unset_empty :: "spaceGrant \<times> bytes list \<Rightarrow> bool" where
  "unset_empty st = (case st of (g, seen) \<Rightarrow>
     (''authority'' \<notin> set seen \<longrightarrow> sg_authority g = []) \<and> (''skey'' \<notin> set seen \<longrightarrow> sg_skey g = []))"

lemma add_parameter_parameters:
  "admits sx p \<Longrightarrow> \<not> (scalar (fst p) \<and> fst p \<in> set (snd st)) \<Longrightarrow>
     grant_parameters (add_parameter p st) = add_mset p (grant_parameters st)"
  by (cases p; cases st)
    (auto simp: add_parameter_def grant_parameters_def admits_def scalar_def split: if_splits)

lemma add_parameter_unset: "unset_empty st \<Longrightarrow> unset_empty (add_parameter p st)"
  by (cases p; cases st) (auto simp: add_parameter_def unset_empty_def scalar_def)

lemma add_parameter_seen: "snd (add_parameter p st) = (if scalar (fst p) then fst p # snd st else snd st)"
  by (cases p; cases st) (simp add: add_parameter_def)

lemma distinct_middle: "distinct (xs @ y # ys) = distinct (y # xs @ ys)"
  by auto

lemma add_parameter_type [simp]: "sg_spaceType (fst (add_parameter p st)) = sg_spaceType (fst st)"
  by (cases p; cases st) (auto simp: add_parameter_def)

lemma parse_parameters_sound:
  assumes "parse_parameters sx fs st = Inr st'"
  shows "\<exists>ps. decode_parameters fs = Some ps \<and> grant_parameters st' = grant_parameters st + mset ps
     \<and> (unset_empty st \<longrightarrow> unset_empty st') \<and> sg_spaceType (fst st') = sg_spaceType (fst st)"
  using assms
proof (induction fs arbitrary: st)
  case (Cons f fs)
  obtain g seen where st: "st = (g, seen)" by (cases st)
  from Cons.prems obtain st1 where 1: "parse_parameter sx f st = Inr st1"
    and rest: "parse_parameters sx fs st1 = Inr st'" by (auto split: sum.splits)
  from 1 obtain p where p: "decode_parameter f = Some p" "admits sx p"
    "\<not> (scalar (fst p) \<and> fst p \<in> set seen)" "st1 = add_parameter p st"
    unfolding st parse_parameter_iff by blast
  from Cons.IH[OF rest] p show ?case
    using add_parameter_parameters[of sx p st] add_parameter_unset[of st p] st by auto
qed simp

text \<open>The scalar parameters occur at most once and were not seen before.\<close>

lemma parse_parameters_complete:
  assumes "decode_parameters fs = Some ps" and "list_all (admits sx) ps"
    and "distinct (filter scalar (map fst ps) @ filter scalar (snd st))"
  shows "\<exists>st'. parse_parameters sx fs st = Inr st'"
  using assms
proof (induction fs arbitrary: ps st)
  case (Cons f fs)
  obtain g seen where st: "st = (g, seen)" by (cases st)
  from Cons.prems(1) obtain p qs where p: "decode_parameter f = Some p" "decode_parameters fs = Some qs" "ps = p # qs"
    by (auto split: option.splits)
  have ok: "\<not> (scalar (fst p) \<and> fst p \<in> set seen)" using Cons.prems(3) p(3) st by auto
  with p Cons.prems(2) have "parse_parameter sx f st = Inr (add_parameter p st)"
    unfolding st parse_parameter_iff by auto
  moreover have "distinct (filter scalar (map fst qs) @ filter scalar (snd (add_parameter p st)))"
  proof -
    obtain ks where "map fst qs = ks" by simp
    with Cons.prems(3) p(3) show ?thesis
      by (cases "scalar (fst p)") (auto simp: add_parameter_seen)
  qed
  ultimately show ?case using Cons.IH[OF p(2)] Cons.prems(2) p(3) by auto
qed simp

text \<open>Reading a grant back from the parameters it stands for.\<close>

lemma grant_parameters_select:
  "image_mset snd (filter_mset (\<lambda>p. fst p = ''collection'') (grant_parameters (g, seen))) = mset (sg_collection g)"
  "image_mset snd (filter_mset (\<lambda>p. fst p = ''action'') (grant_parameters (g, seen))) = mset (sg_action g)"
  "image_mset snd (filter_mset (\<lambda>p. fst p = ''manage'') (grant_parameters (g, seen))) = mset (sg_manage g)"
  "image_mset snd (filter_mset (\<lambda>p. fst p = ''authority'') (grant_parameters (g, seen)))
     = (if ''authority'' \<in> set seen then {#sg_authority g#} else {#})"
  "image_mset snd (filter_mset (\<lambda>p. fst p = ''skey'') (grant_parameters (g, seen)))
     = (if ''skey'' \<in> set seen then {#sg_skey g#} else {#})"
  by (simp_all add: grant_parameters_def filter_mset_image_mset comp_def multiset.map_comp)

lemma mset_select:
  "image_mset snd (filter_mset (\<lambda>p. fst p = k) (mset ps)) = mset (map snd (filter (\<lambda>p. fst p = k) ps))"
  by simp

definition expected_parameters :: "bytes \<Rightarrow> bytes \<Rightarrow> bytes list \<Rightarrow> bytes list \<Rightarrow> (bytes \<times> bytes) list" where
  "expected_parameters did rkey acts mans =
     target_parameters did rkey @ map (Pair ''action'') acts @ map (Pair ''manage'') mans"

lemma parameters_expected_iff:
  assumes "unset_empty (g, seen)" and "did \<noteq> []" and "rkey \<noteq> []"
  shows "grant_parameters (g, seen) = mset (expected_parameters did rkey acts mans) \<longleftrightarrow>
     sg_authority g = did \<and> sg_skey g = rkey \<and> mset (sg_collection g) = mset appendOnlyMailboxCollections
     \<and> mset (sg_action g) = mset acts \<and> mset (sg_manage g) = mset mans" (is "?L \<longleftrightarrow> ?R")
proof
  let ?e = "expected_parameters did rkey acts mans"
  assume L: ?L
  have sel: "map snd (filter (\<lambda>p. fst p = ''collection'') ?e) = appendOnlyMailboxCollections"
    "map snd (filter (\<lambda>p. fst p = ''action'') ?e) = acts"
    "map snd (filter (\<lambda>p. fst p = ''manage'') ?e) = mans"
    "map snd (filter (\<lambda>p. fst p = ''authority'') ?e) = [did]"
    "map snd (filter (\<lambda>p. fst p = ''skey'') ?e) = [rkey]"
    by (simp_all add: expected_parameters_def target_parameters_def filter_map comp_def)
  have q: "image_mset snd (filter_mset (\<lambda>p. fst p = k) (grant_parameters (g, seen)))
     = mset (map snd (filter (\<lambda>p. fst p = k) ?e))" for k
    unfolding L by (rule mset_select)
  show ?R
    using q[of "''collection''"] q[of "''action''"] q[of "''manage''"] q[of "''authority''"] q[of "''skey''"]
    unfolding grant_parameters_select sel by (auto split: if_splits)
next
  assume R: ?R
  with assms have "''authority'' \<in> set seen" "''skey'' \<in> set seen" by (auto simp: unset_empty_def)
  then show ?L
    using R by (simp add: grant_parameters_def expected_parameters_def target_parameters_def)
qed

lemma append_only_distinct [simp]: "distinct appendOnlyMailboxCollections"
  by (simp add: appendOnlyMailboxCollections_def mailbox_names)

text \<open>The two checks are one comparison with the parameters that were asked for.\<close>

lemma check_steady_iff:
  "check_steady did rkey p = Inr () \<longleftrightarrow> sg_spaceType p = MailboxSpaceType \<and> sg_authority p = did \<and> sg_skey p = rkey
     \<and> mset (sg_collection p) = mset appendOnlyMailboxCollections
     \<and> mset (sg_action p) = mset [''read'', ''create''] \<and> mset (sg_manage p) = mset []"
  using sameStringSet_iff[of appendOnlyMailboxCollections "sg_collection p"]
    sameStringSet_iff[of "[''read'', ''create'']" "sg_action p"]
  by (auto simp: check_steady_def)

lemma check_provisioning_iff:
  "check_provisioning did rkey p = Inr () \<longleftrightarrow> sg_spaceType p = MailboxSpaceType \<and> sg_authority p = did \<and> sg_skey p = rkey
     \<and> mset (sg_collection p) = mset appendOnlyMailboxCollections
     \<and> mset (sg_action p) = mset [''read_self''] \<and> mset (sg_manage p) = mset [''create'']"
  using sameStringSet_iff[of appendOnlyMailboxCollections "sg_collection p"]
    sameStringSet_iff[of "[''read_self'']" "sg_action p"] sameStringSet_iff[of "[''create'']" "sg_manage p"]
  by (auto simp: check_provisioning_def)

lemma cut_iff: "cut c s = (a, b, True) \<longleftrightarrow> s = a @ c # b \<and> c \<notin> set a"
proof (induction s arbitrary: a)
  case (Cons x s)
  show ?case
  proof (cases "x = c")
    case True
    then show ?thesis by (cases a) auto
  next
    case False
    obtain b' a' found where "cut c s = (b', a', found)" by (cases "cut c s")
    with False Cons.IH[of "tl a"] show ?thesis by (cases a; cases found) auto
  qed
qed auto

lemma admits_expected:
  assumes "scope_laws sx" and "sx_ParseDID sx did \<noteq> None" and "sx_ParseRecordKey sx rkey"
    and "set acts \<subseteq> {''read_self'', ''read'', ''create'', ''update'', ''delete''}"
    and "set mans \<subseteq> {''create'', ''update'', ''delete''}"
  shows "list_all (admits sx) (expected_parameters did rkey acts mans)"
  using assms unfolding scope_laws_def
  by (simp add: expected_parameters_def target_parameters_def admits_def list_all_iff subset_iff ball_Un)

lemma scalars_expected: "filter scalar (map fst (expected_parameters did rkey acts mans)) = [''authority'', ''skey'']"
  by (simp add: expected_parameters_def target_parameters_def scalar_def comp_def filter_empty_conv)

text \<open>A space scope parses to a grant with the expected parameters exactly when it carries them.\<close>

lemma parseSpaceGrant_iff:
  assumes laws: "scope_laws sx" and did: "sx_ParseDID sx did \<noteq> None" and key: "sx_ParseRecordKey sx rkey"
    and acts: "set acts \<subseteq> {''read_self'', ''read'', ''create'', ''update'', ''delete''}"
    and mans: "set mans \<subseteq> {''create'', ''update'', ''delete''}"
  shows "(has_prefix scope ''space:'' \<and> (\<exists>g. parseSpaceGrant sx scope = Inr g
       \<and> sg_spaceType g = MailboxSpaceType \<and> sg_authority g = did \<and> sg_skey g = rkey
       \<and> mset (sg_collection g) = mset appendOnlyMailboxCollections
       \<and> mset (sg_action g) = mset acts \<and> mset (sg_manage g) = mset mans))
     \<longleftrightarrow> scope_carries scope (expected_parameters did rkey acts mans)" (is "?L \<longleftrightarrow> ?R")
proof -
  have ne: "did \<noteq> []" "rkey \<noteq> []" using laws did key by (auto simp: scope_laws_def did_text_def key_text_def)
  let ?init = "\<lambda>ty. (\<lparr>sg_spaceType = ty, sg_authority = [], sg_skey = [], sg_collection = [],
                      sg_action = [], sg_manage = []\<rparr>, [])"
  have init: "unset_empty (?init ty)" "grant_parameters (?init ty) = {#}" "snd (?init ty) = []"
    "sg_spaceType (fst (?init ty)) = ty" for ty
    by (simp_all add: unset_empty_def grant_parameters_def)
  show ?thesis
  proof
    assume ?L
    then obtain g r where s: "scope = ''space:'' @ r" and g: "parseSpaceGrant sx scope = Inr g"
      and eqs: "sg_spaceType g = MailboxSpaceType" "sg_authority g = did" "sg_skey g = rkey"
       "mset (sg_collection g) = mset appendOnlyMailboxCollections"
       "mset (sg_action g) = mset acts" "mset (sg_manage g) = mset mans"
      by (auto elim!: has_prefixE)
    from g obtain position query ty seen where len: "length scope \<le> maxSpaceScopeBytes"
        "\<not> contains_any scope ('' '' @ [CHR 0x09, CHR 0x0D, CHR 0x0A])"
      and c: "cut CHR ''?'' r = (position, query, True)" and q: "\<not> contains_any query ''?''"
      and u: "query_unescape position = Some ty"
      and p: "parse_parameters sx (split_on CHR ''&'' query) (?init ty) = Inr (g, seen)"
      unfolding parseSpaceGrant_def s trim_prefix_append
      by (auto split: if_splits prod.splits option.splits sum.splits)
    from parse_parameters_sound[OF p] init obtain qs
      where qs: "decode_parameters (split_on CHR ''&'' query) = Some qs" "grant_parameters (g, seen) = mset qs"
      "unset_empty (g, seen)" "sg_spaceType g = ty" by auto
    with eqs parameters_expected_iff[OF qs(3) ne, of acts mans]
    have "mset qs = mset (expected_parameters did rkey acts mans)" by simp
    with len c q u qs eqs(1) show ?R
      unfolding scope_carries_def s cut_iff by (auto simp: contains_any_iff)
  next
    assume ?R
    then obtain position query qs where len: "length scope \<le> maxSpaceScopeBytes"
        "\<not> contains_any scope ('' '' @ [CHR 0x09, CHR 0x0D, CHR 0x0A])"
      and s: "scope = ''space:'' @ position @ ''?'' @ query"
      and q: "CHR ''?'' \<notin> set position" "CHR ''?'' \<notin> set query"
      and u: "query_unescape position = Some MailboxSpaceType"
      and qs: "decode_parameters (split_on CHR ''&'' query) = Some qs"
        "mset qs = mset (expected_parameters did rkey acts mans)"
      unfolding scope_carries_def by blast
    let ?e = "expected_parameters did rkey acts mans"
    have "set qs = set ?e" using qs(2) by (rule mset_eq_setD)
    with admits_expected[OF assms] have adm: "list_all (admits sx) qs" by (simp add: list_all_iff)
    have "mset (filter scalar (map fst qs)) = mset (filter scalar (map fst ?e))"
      using qs(2) by (metis mset_filter mset_map)
    then have "mset (filter scalar (map fst qs)) = mset [''authority'', ''skey'']"
      unfolding scalars_expected .
    then have "distinct (filter scalar (map fst qs)) = distinct [''authority'', ''skey'']"
      by (rule mset_eq_imp_distinct_iff)
    then have "distinct (filter scalar (map fst qs))" by simp
    then obtain g seen where p: "parse_parameters sx (split_on CHR ''&'' query) (?init MailboxSpaceType) = Inr (g, seen)"
      using parse_parameters_complete[OF qs(1) adm, of "?init MailboxSpaceType"] by auto
    from parse_parameters_sound[OF p] init qs(1)
    have g: "grant_parameters (g, seen) = mset ?e" "unset_empty (g, seen)" "sg_spaceType g = MailboxSpaceType"
      using qs(2) by auto
    from g parameters_expected_iff[OF g(2) ne, of acts mans]
    have eqs: "sg_authority g = did" "sg_skey g = rkey"
       "mset (sg_collection g) = mset appendOnlyMailboxCollections"
       "mset (sg_action g) = mset acts" "mset (sg_manage g) = mset mans" by auto
    have c: "cut CHR ''?'' (trim_prefix scope ''space:'') = (position, query, True)"
      using q(1) unfolding s trim_prefix_append cut_iff by simp
    have "position \<noteq> []" using u by (auto simp: mailbox_names)
    moreover have "query \<noteq> []" using qs(1) by (auto simp: decode_parameter_def)
    moreover have "sx_ParseNSID sx MailboxSpaceType" using laws by (simp add: scope_laws_def)
    ultimately have "parseSpaceGrant sx scope = Inr g"
      using len c q(2) u p eqs ne unfolding parseSpaceGrant_def
      by (simp add: contains_any_iff s)
    with eqs g(3) show ?L by (simp add: s has_prefix_def)
  qed
qed

definition grants_steady :: "syntax_api \<Rightarrow> bytes \<Rightarrow> bytes \<Rightarrow> bytes \<Rightarrow> bool" where
  "grants_steady sx did rkey scope \<longleftrightarrow> has_prefix scope ''space:''
     \<and> (\<exists>p. parseSpaceGrant sx scope = Inr p \<and> check_steady did rkey p = Inr ())"

definition grants_provisioning :: "syntax_api \<Rightarrow> bytes \<Rightarrow> bytes \<Rightarrow> bytes \<Rightarrow> bool" where
  "grants_provisioning sx did rkey scope \<longleftrightarrow> has_prefix scope ''space:''
     \<and> (\<exists>p. parseSpaceGrant sx scope = Inr p \<and> check_provisioning did rkey p = Inr ())"

lemma expected_steady: "expected_parameters did rkey [''read'', ''create''] [] = steady_parameters did rkey"
  by (simp add: expected_parameters_def steady_parameters_def)

lemma expected_provisioning: "expected_parameters did rkey [''read_self''] [''create''] = provisioning_parameters did rkey"
  by (simp add: expected_parameters_def provisioning_parameters_def)

lemma grants_steady_iff:
  assumes "scope_laws sx" and "sx_ParseDID sx did \<noteq> None" and "sx_ParseRecordKey sx rkey"
  shows "grants_steady sx did rkey scope \<longleftrightarrow> scope_carries scope (steady_parameters did rkey)"
  using parseSpaceGrant_iff[OF assms, of "[''read'', ''create'']" "[]" scope]
  unfolding grants_steady_def check_steady_iff expected_steady by simp

lemma grants_provisioning_iff:
  assumes "scope_laws sx" and "sx_ParseDID sx did \<noteq> None" and "sx_ParseRecordKey sx rkey"
  shows "grants_provisioning sx did rkey scope \<longleftrightarrow> scope_carries scope (provisioning_parameters did rkey)"
  using parseSpaceGrant_iff[OF assms, of "[''read_self'']" "[''create'']" scope]
  unfolding grants_provisioning_def check_provisioning_iff expected_provisioning by simp

lemma space_prefix_other:
  "has_prefix x ''space:'' \<Longrightarrow> x \<noteq> ''atproto'' \<and> x \<noteq> ''blob:'' @ MessageMIMEType"
  by (auto simp: has_prefix_def mailbox_names)

lemma steady_scopes_iff:
  "steady_scopes sx did rkey granted (a, b, s) = Inr (a', b', s') \<longleftrightarrow>
     list_all (\<lambda>x. x = ''atproto'' \<or> x = ''blob:'' @ MessageMIMEType \<or> grants_steady sx did rkey x) granted
     \<and> a' = a + length (filter (\<lambda>x. x = ''atproto'') granted)
     \<and> b' = b + length (filter (\<lambda>x. x = ''blob:'' @ MessageMIMEType) granted)
     \<and> s' = s + length (filter (grants_steady sx did rkey) granted)"
proof (induction granted arbitrary: a b s)
  case (Cons x granted)
  consider (at) "x = ''atproto''" | (bl) "x = ''blob:'' @ MessageMIMEType"
    | (sp) "has_prefix x ''space:''" "x \<noteq> ''atproto''" "x \<noteq> ''blob:'' @ MessageMIMEType"
    | (none) "\<not> has_prefix x ''space:''" "x \<noteq> ''atproto''" "x \<noteq> ''blob:'' @ MessageMIMEType" by blast
  then show ?case
  proof cases
    case at
    then have "\<not> grants_steady sx did rkey x" "x \<noteq> ''blob:'' @ MessageMIMEType"
      by (auto simp: grants_steady_def has_prefix_def)
    with at Cons.IH show ?thesis by auto
  next
    case bl
    then have "\<not> grants_steady sx did rkey x" "x \<noteq> ''atproto''"
      by (auto simp: grants_steady_def has_prefix_def)
    with bl Cons.IH show ?thesis by auto
  next
    case sp
    then show ?thesis
      using Cons.IH by (auto simp: grants_steady_def split: sum.splits)
  next
    case none
    then have "\<not> grants_steady sx did rkey x" by (simp add: grants_steady_def)
    with none show ?thesis by simp
  qed
qed auto

lemma provisioning_scopes_iff:
  "provisioning_scopes sx did rkey granted (a, s) = Inr (a', s') \<longleftrightarrow>
     list_all (\<lambda>x. x = ''atproto'' \<or> grants_provisioning sx did rkey x) granted
     \<and> a' = a + length (filter (\<lambda>x. x = ''atproto'') granted)
     \<and> s' = s + length (filter (grants_provisioning sx did rkey) granted)"
proof (induction granted arbitrary: a s)
  case (Cons x granted)
  consider (at) "x = ''atproto''" | (sp) "has_prefix x ''space:''" "x \<noteq> ''atproto''"
    | (none) "\<not> has_prefix x ''space:''" "x \<noteq> ''atproto''" by blast
  then show ?case
  proof cases
    case at
    then have "\<not> grants_provisioning sx did rkey x" by (auto simp: grants_provisioning_def has_prefix_def)
    with at Cons.IH show ?thesis by auto
  next
    case sp
    then show ?thesis
      using Cons.IH by (auto simp: grants_provisioning_def split: sum.splits)
  next
    case none
    then have "\<not> grants_provisioning sx did rkey x" by (simp add: grants_provisioning_def)
    with none show ?thesis by simp
  qed
qed auto

text \<open>A list whose elements are one of three exclusive kinds, once each.\<close>

lemma one_of_each:
  assumes "a \<noteq> b" and "\<not> P a" and "\<not> P b"
  shows "list_all (\<lambda>x. x = a \<or> x = b \<or> P x) xs \<and> length (filter (\<lambda>x. x = a) xs) = 1
      \<and> length (filter (\<lambda>x. x = b) xs) = 1 \<and> length (filter P xs) = 1
    \<longleftrightarrow> (\<exists>s. mset xs = {#a, b, s#} \<and> P s)" (is "?L \<longleftrightarrow> ?R")
proof
  assume L: ?L
  then obtain s where s: "filter P xs = [s]" by (auto simp: length_Suc_conv)
  then have "P s" by (auto dest: filter_eq_ConsD)
  have fa: "filter (\<lambda>x. x = c) xs = replicate (length (filter (\<lambda>x. x = c) xs)) c" for c
    by (induction xs) auto
  have "mset xs = mset (filter (\<lambda>x. x = a) xs) + mset (filter (\<lambda>x. x = b) xs) + mset (filter P xs)"
    using conjunct1[OF L] assms by (induction xs) auto
  also have "\<dots> = {#a, b, s#}"
    using L s fa[of a] fa[of b] by (simp del: mset_filter)
  finally show ?R using \<open>P s\<close> by blast
next
  assume ?R
  then obtain s where s: "mset xs = {#a, b, s#}" "P s" by blast
  have len: "length (filter Q xs) = size (filter_mset Q {#a, b, s#})" for Q
    unfolding s(1)[symmetric] by (simp flip: mset_filter)
  have "set xs = {a, b, s}" using arg_cong[OF s(1), of set_mset] by simp
  with s assms show ?L unfolding len by (auto simp: list_all_iff)
qed

lemma one_of_two:
  assumes "\<not> P a"
  shows "list_all (\<lambda>x. x = a \<or> P x) xs \<and> length (filter (\<lambda>x. x = a) xs) = 1 \<and> length (filter P xs) = 1
    \<longleftrightarrow> (\<exists>s. mset xs = {#a, s#} \<and> P s)" (is "?L \<longleftrightarrow> ?R")
proof
  assume L: ?L
  then obtain s where s: "filter P xs = [s]" by (auto simp: length_Suc_conv)
  then have "P s" by (auto dest: filter_eq_ConsD)
  have fa: "filter (\<lambda>x. x = a) xs = replicate (length (filter (\<lambda>x. x = a) xs)) a"
    by (induction xs) auto
  have "mset xs = mset (filter (\<lambda>x. x = a) xs) + mset (filter P xs)"
    using conjunct1[OF L] assms by (induction xs) auto
  also have "\<dots> = {#a, s#}"
    using L s fa by (simp del: mset_filter)
  finally show ?R using \<open>P s\<close> by blast
next
  assume ?R
  then obtain s where s: "mset xs = {#a, s#}" "P s" by blast
  have len: "length (filter Q xs) = size (filter_mset Q {#a, s#})" for Q
    unfolding s(1)[symmetric] by (simp flip: mset_filter)
  have "set xs = {a, s}" using arg_cong[OF s(1), of set_mset] by simp
  with s assms show ?L unfolding len by (auto simp: list_all_iff)
qed

lemma ValidateSteadyGrant_iff:
  assumes "parseSteadyTarget sx did key = Inr (d, k)"
  shows "ValidateSteadyGrant sx granted did key = Inr () \<longleftrightarrow>
    (\<exists>s. mset granted = {#''atproto'', ''blob:'' @ MessageMIMEType, s#} \<and> grants_steady sx d k s)"
proof -
  have "\<not> grants_steady sx d k ''atproto''" "\<not> grants_steady sx d k (''blob:'' @ MessageMIMEType)"
    by (auto simp: grants_steady_def has_prefix_def)
  note kinds = one_of_each[of "''atproto''" "''blob:'' @ MessageMIMEType" "grants_steady sx d k" granted, OF _ this]
  have "ValidateSteadyGrant sx granted did key = Inr () \<longleftrightarrow>
      length granted = 3 \<and> steady_scopes sx d k granted (0, 0, 0) = Inr (1, 1, 1)"
    using assms by (auto simp: ValidateSteadyGrant_def split: sum.splits)
  also have "\<dots> \<longleftrightarrow> length granted = 3 \<and> (\<exists>s. mset granted = {#''atproto'', ''blob:'' @ MessageMIMEType, s#} \<and> grants_steady sx d k s)"
    unfolding steady_scopes_iff using kinds by auto
  also have "\<dots> \<longleftrightarrow> (\<exists>s. mset granted = {#''atproto'', ''blob:'' @ MessageMIMEType, s#} \<and> grants_steady sx d k s)"
    by (auto simp flip: size_mset)
  finally show ?thesis .
qed

lemma ValidateProvisioningGrant_iff:
  assumes "parseSteadyTarget sx did key = Inr (d, k)"
  shows "ValidateProvisioningGrant sx granted did key = Inr () \<longleftrightarrow>
    (\<exists>s. mset granted = {#''atproto'', s#} \<and> grants_provisioning sx d k s)"
proof -
  have "\<not> grants_provisioning sx d k ''atproto''"
    by (auto simp: grants_provisioning_def has_prefix_def)
  note kinds = one_of_two[of "grants_provisioning sx d k" "''atproto''" granted, OF this]
  have "ValidateProvisioningGrant sx granted did key = Inr () \<longleftrightarrow>
      length granted = 2 \<and> provisioning_scopes sx d k granted (0, 0) = Inr (1, 1)"
    using assms by (auto simp: ValidateProvisioningGrant_def split: sum.splits)
  also have "\<dots> \<longleftrightarrow> length granted = 2 \<and> (\<exists>s. mset granted = {#''atproto'', s#} \<and> grants_provisioning sx d k s)"
    unfolding provisioning_scopes_iff using kinds by auto
  also have "\<dots> \<longleftrightarrow> (\<exists>s. mset granted = {#''atproto'', s#} \<and> grants_provisioning sx d k s)"
    by (auto simp flip: size_mset)
  finally show ?thesis .
qed

lemma parseSteadyTarget_iff:
  assumes "scope_laws sx"
  shows "parseSteadyTarget sx did key = Inr (d, k) \<longleftrightarrow>
    d = did \<and> k = key \<and> sx_ParseDID sx did \<noteq> None \<and> sx_ParseRecordKey sx key \<and> key \<noteq> ''*''"
  using assms by (auto simp: parseSteadyTarget_def scope_laws_def split: option.splits)

text \<open>C21. The validators accept exactly the append-only and the create-only grant of one mailbox.
  A steady grant is accepted for a well-formed DID and a space key other than the wildcard
  when it consists of \<^verbatim>\<open>atproto\<close>, the message blob scope and one space scope, in any order, and the
  space scope carries exactly the parameters of the append-only grant of that DID and key (the
  authority, the key, each collection, read and create), in any order and any escaping: nothing
  is missing, repeated, substituted or added. The same holds for the provisioning grant with its
  own parameters.\<close>

theorem grants_exact:
  assumes "scope_laws sx"
  shows "(ValidateSteadyGrant sx granted did key = Inr () \<longleftrightarrow>
      sx_ParseDID sx did \<noteq> None \<and> sx_ParseRecordKey sx key \<and> key \<noteq> ''*''
      \<and> (\<exists>s. mset granted = {#''atproto'', ''blob:message/rfc822'', s#} \<and> scope_carries s (steady_parameters did key)))
    \<and> (ValidateProvisioningGrant sx granted did key = Inr () \<longleftrightarrow>
      sx_ParseDID sx did \<noteq> None \<and> sx_ParseRecordKey sx key \<and> key \<noteq> ''*''
      \<and> (\<exists>s. mset granted = {#''atproto'', s#} \<and> scope_carries s (provisioning_parameters did key)))"
proof -
  let ?ok = "sx_ParseDID sx did \<noteq> None \<and> sx_ParseRecordKey sx key \<and> key \<noteq> ''*''"
  have ok: "?ok \<longleftrightarrow> parseSteadyTarget sx did key = Inr (did, key)"
    using parseSteadyTarget_iff[OF assms, of did key did key] by simp
  have bad: "\<exists>e. parseSteadyTarget sx did key = Inl e" if "\<not> ?ok"
    using that by (auto simp: parseSteadyTarget_def split: option.splits)
  have blob: "''blob:'' @ MessageMIMEType = ''blob:message/rfc822''" by (simp add: mailbox_names)
  have steady: "ValidateSteadyGrant sx granted did key = Inr () \<longleftrightarrow> sx_ParseDID sx did \<noteq> None \<and> sx_ParseRecordKey sx key \<and> key \<noteq> ''*''
      \<and> (\<exists>s. mset granted = {#''atproto'', ''blob:message/rfc822'', s#} \<and> scope_carries s (steady_parameters did key))"
  proof (cases ?ok)
    case True
    with ok ValidateSteadyGrant_iff[of sx did key did key granted] grants_steady_iff[OF assms, of did key]
    show ?thesis unfolding blob by simp
  next
    case False
    with bad have "\<exists>e. ValidateSteadyGrant sx granted did key = Inl e"
      by (auto simp: ValidateSteadyGrant_def)
    with False show ?thesis by auto
  qed
  have provisioning: "ValidateProvisioningGrant sx granted did key = Inr () \<longleftrightarrow> sx_ParseDID sx did \<noteq> None \<and> sx_ParseRecordKey sx key \<and> key \<noteq> ''*''
      \<and> (\<exists>s. mset granted = {#''atproto'', s#} \<and> scope_carries s (provisioning_parameters did key))"
  proof (cases ?ok)
    case True
    with ok ValidateProvisioningGrant_iff[of sx did key did key granted] grants_provisioning_iff[OF assms, of did key]
    show ?thesis by simp
  next
    case False
    with bad have "\<exists>e. ValidateProvisioningGrant sx granted did key = Inl e"
      by (auto simp: ValidateProvisioningGrant_def)
    with False show ?thesis by auto
  qed
  show ?thesis using steady provisioning by (intro conjI)
qed

section \<open>The requested scopes are accepted back\<close>

lemma query_unescape_plain: "CHR ''%'' \<notin> set s \<Longrightarrow> CHR ''+'' \<notin> set s \<Longrightarrow> query_unescape s = Some s"
  by (induction s) auto

lemma query_unescape_shrinks:
  "query_unescape s = Some t \<Longrightarrow> length t \<le> length s \<and> (CHR ''%'' \<in> set s \<longrightarrow> length t < length s)"
proof (induction s arbitrary: t rule: query_unescape.induct)
  case (2 c s)
  show ?case
  proof (cases "c = CHR ''%''")
    case True
    with 2(3) obtain a b r x y u where r: "s = a # b # r" "hex_val a = Some x" "hex_val b = Some y"
      "query_unescape r = Some u" "t = char_of (16 * x + y) # u"
      by (auto split: list.splits option.splits)
    from 2(1)[OF True r(1) refl _ r(2,3) r(4)] r(2,3) have "length u \<le> length r" by simp
    with r True show ?thesis by simp
  next
    case False
    with 2(3) obtain u where u: "query_unescape s = Some u" "length t = Suc (length u)" by auto
    from 2(2)[OF False u(1)] u(2) False show ?thesis by auto
  qed
qed simp

lemma query_unescape_fixed:
  "CHR ''+'' \<notin> set s \<Longrightarrow> query_unescape s = Some s \<longleftrightarrow> CHR ''%'' \<notin> set s"
  using query_unescape_plain[of s] query_unescape_shrinks[of s s] by auto

lemma split_on_fields:
  "CHR ''&'' \<notin> set f \<Longrightarrow> list_all (\<lambda>g. CHR ''&'' \<notin> set g) fs \<Longrightarrow>
     split_on CHR ''&'' (f @ concat (map (Cons CHR ''&'') fs)) = f # fs"
  by (induction fs arbitrary: f) (auto simp: split_on_no_sep split_on_append_sep)

lemma decode_parameter_assign:
  assumes "CHR ''='' \<notin> set k" and "k \<noteq> []" and "v \<noteq> []" and "query_unescape k = Some k"
  shows "decode_parameter (k @ CHR ''='' # v) = map_option (Pair k) (query_unescape v)"
proof -
  have "cut CHR ''='' (k @ CHR ''='' # v) = (k, v, True)" using assms(1) unfolding cut_iff by simp
  then show ?thesis using assms by (simp add: decode_parameter_def split: option.splits)
qed

text \<open>The bytes a scope is made of besides its separators.\<close>

definition scope_char :: "char \<Rightarrow> bool" where
  "scope_char c = (c \<notin> set (''?&+ '' @ [CHR 0x09, CHR 0x0D, CHR 0x0A]))"

lemma alnum_scope_char: "alnum c \<Longrightarrow> scope_char c \<and> c \<noteq> CHR ''%''"
  by (auto simp: scope_char_def alnum_def byte_def)

lemma did_text_chars: "did_text s \<Longrightarrow> list_all scope_char s"
  by (auto simp: did_text_def list_all_iff scope_char_def dest!: alnum_scope_char bspec)

lemma key_text_chars: "key_text s \<Longrightarrow> list_all (\<lambda>c. scope_char c \<and> c \<noteq> CHR ''%'') s"
  by (auto simp: key_text_def list_all_iff scope_char_def dest!: alnum_scope_char bspec)

definition scope_fields :: "bytes \<Rightarrow> bytes list \<Rightarrow> bytes list \<Rightarrow> bytes list" where
  "scope_fields rkey acts mans = (''skey='' @ rkey) # map (\<lambda>c. ''collection='' @ c) appendOnlyMailboxCollections
     @ map (\<lambda>a. ''action='' @ a) acts @ map (\<lambda>m. ''manage='' @ m) mans"

lemma formatSpaceGrant_fields:
  "formatSpaceGrant \<lparr>sg_spaceType = MailboxSpaceType, sg_authority = did, sg_skey = rkey,
      sg_collection = appendOnlyMailboxCollections, sg_action = acts, sg_manage = mans\<rparr>
    = ''space:'' @ MailboxSpaceType @ ''?'' @ (''authority='' @ did) @ concat (map (Cons CHR ''&'') (scope_fields rkey acts mans))"
  by (simp add: formatSpaceGrant_def scope_fields_def comp_def)

lemma decode_scope_fields:
  assumes "rkey \<noteq> []" and "query_unescape rkey = Some rkey"
    and "list_all (\<lambda>v. v \<noteq> [] \<and> query_unescape v = Some v) (acts @ mans)"
  shows "decode_parameters (scope_fields rkey acts mans)
    = Some ((''skey'', rkey) # map (Pair ''collection'') appendOnlyMailboxCollections @ map (Pair ''action'') acts @ map (Pair ''manage'') mans)"
proof -
  have names: "decode_parameter (''skey='' @ v) = map_option (Pair ''skey'') (query_unescape v)"
    "decode_parameter (''collection='' @ v) = map_option (Pair ''collection'') (query_unescape v)"
    "decode_parameter (''action='' @ v) = map_option (Pair ''action'') (query_unescape v)"
    "decode_parameter (''manage='' @ v) = map_option (Pair ''manage'') (query_unescape v)" if "v \<noteq> []" for v
    using that decode_parameter_assign[of "''skey''" v] decode_parameter_assign[of "''collection''" v]
      decode_parameter_assign[of "''action''" v] decode_parameter_assign[of "''manage''" v] by simp_all
  have app: "decode_parameters (xs @ ys) = (case (decode_parameters xs, decode_parameters ys) of
      (Some a, Some b) \<Rightarrow> Some (a @ b) | _ \<Rightarrow> None)" for xs ys
    by (induction xs) (auto split: option.splits)
  have all: "decode_parameters (map (\<lambda>v. p @ v) vs) = Some (map (Pair k) vs)"
    if "list_all (\<lambda>v. v \<noteq> [] \<and> query_unescape v = Some v) vs"
      and "\<And>v. v \<noteq> [] \<Longrightarrow> decode_parameter (p @ v) = map_option (Pair k) (query_unescape v)" for p k vs
    using that by (induction vs) auto
  have "list_all (\<lambda>v. v \<noteq> [] \<and> query_unescape v = Some v) appendOnlyMailboxCollections"
    by (simp add: appendOnlyMailboxCollections_def mailbox_names)
  with assms all[of appendOnlyMailboxCollections "''collection=''" "''collection''"]
    all[of acts "''action=''" "''action''"] all[of mans "''manage=''" "''manage''"] names
  show ?thesis unfolding scope_fields_def by (simp add: app del: append_Cons)
qed

lemma list_all_separated: "P c \<Longrightarrow> list_all (list_all P) fs \<Longrightarrow> list_all P (concat (map (Cons c) fs))"
  by (induction fs) auto

lemma formatted_scope_carries:
  assumes did: "did_text did" and key: "key_text rkey"
    and vals: "list_all (\<lambda>v. v \<noteq> [] \<and> query_unescape v = Some v \<and> list_all scope_char v) (acts @ mans)"
    and size: "length (concat (map (\<lambda>a. ''&action='' @ a) acts @ map (\<lambda>m. ''&manage='' @ m) mans)) \<le> 100"
  shows "scope_carries (formatSpaceGrant \<lparr>sg_spaceType = MailboxSpaceType, sg_authority = did, sg_skey = rkey,
      sg_collection = appendOnlyMailboxCollections, sg_action = acts, sg_manage = mans\<rparr>)
      (expected_parameters did rkey acts mans) \<longleftrightarrow> CHR ''%'' \<notin> set did" (is "scope_carries ?scope ?e \<longleftrightarrow> _")
proof -
  let ?q = "(''authority='' @ did) @ concat (map (Cons CHR ''&'') (scope_fields rkey acts mans))"
  note chars = did_text_chars[OF did] key_text_chars[OF key]
  have ne: "did \<noteq> []" "rkey \<noteq> []" using did key by (auto simp: did_text_def key_text_def)
  have rk: "query_unescape rkey = Some rkey"
    using chars(2) by (intro query_unescape_plain) (auto simp: list_all_iff scope_char_def)
  have names: "list_all (list_all scope_char) [''authority='', ''skey='', ''collection='', ''action='', ''manage='']"
    "list_all (list_all scope_char) appendOnlyMailboxCollections"
    by (simp_all add: scope_char_def appendOnlyMailboxCollections_def mailbox_names)
  have "list_all (list_all scope_char) (acts @ mans)" "list_all scope_char rkey"
    using vals chars(2) by (simp_all add: list_all_iff)
  with names chars(1) have fields: "list_all (list_all scope_char) (scope_fields rkey acts mans)"
    "list_all scope_char (''authority='' @ did)"
    unfolding scope_fields_def by (simp_all add: list.pred_map comp_def)
  have s: "?scope = ''space:'' @ MailboxSpaceType @ CHR ''?'' # ?q"
    using formatSpaceGrant_fields[of did rkey acts mans] by simp
  have qm: "CHR ''?'' \<notin> set MailboxSpaceType" "CHR ''?'' \<notin> set ?q"
    using fields by (auto simp: list_all_iff scope_char_def mailbox_names)
  have split: "split_on CHR ''&'' ?q = (''authority='' @ did) # scope_fields rkey acts mans"
  proof (rule split_on_fields)
    have amp: "CHR ''&'' \<notin> set f" if "list_all scope_char f" for f
      using that by (auto simp: list_all_iff scope_char_def)
    show "CHR ''&'' \<notin> set (''authority='' @ did)" by (rule amp[OF fields(2)])
    show "list_all (\<lambda>g. CHR ''&'' \<notin> set g) (scope_fields rkey acts mans)"
      using fields(1) by (rule list.pred_mono_strong) (rule amp)
  qed
  have white: "\<not> contains_any ?scope ('' '' @ [CHR 0x09, CHR 0x0D, CHR 0x0A])"
  proof -
    define dark where "dark c \<longleftrightarrow> c \<notin> set ('' '' @ [CHR 0x09, CHR 0x0D, CHR 0x0A])" for c
    have d: "list_all dark f" if "list_all scope_char f" for f
      using that by (rule list.pred_mono_strong) (simp add: dark_def scope_char_def)
    have "list_all (list_all dark) (scope_fields rkey acts mans)"
      using fields(1) by (rule list.pred_mono_strong) (rule d)
    moreover have "list_all dark (''space:'' @ MailboxSpaceType @ ''?&'')" by (simp add: dark_def mailbox_names)
    ultimately have "list_all dark ?scope"
      using d[OF fields(2)] unfolding s by (simp add: list_all_separated)
    then show ?thesis by (auto simp: contains_any_iff list_all_iff dark_def)
  qed
  have len: "length ?scope \<le> maxSpaceScopeBytes"
    using did key size by (simp add: formatSpaceGrant_def did_text_def key_text_def maxSpaceScopeBytes_def
      appendOnlyMailboxCollections_def mailbox_names)
  have "decode_parameter (''authority='' @ did) = map_option (Pair ''authority'') (query_unescape did)"
    using decode_parameter_assign[of "''authority''" did] ne by simp
  with decode_scope_fields[OF ne(2) rk, of acts mans] vals
  have dec: "decode_parameters (split_on CHR ''&'' ?q)
    = map_option (\<lambda>d. (''authority'', d) # tl ?e) (query_unescape did)"
    unfolding split by (cases "query_unescape did") (auto simp: list_all_iff expected_parameters_def target_parameters_def)
  have e: "?e = (''authority'', did) # tl ?e" by (simp add: expected_parameters_def target_parameters_def)
  have "scope_carries ?scope ?e \<longleftrightarrow> (\<exists>qs. decode_parameters (split_on CHR ''&'' ?q) = Some qs \<and> mset qs = mset ?e)"
  proof
    assume "scope_carries ?scope ?e"
    then obtain position query qs where eq: "?scope = ''space:'' @ position @ ''?'' @ query"
      and q: "CHR ''?'' \<notin> set position"
      and qs: "decode_parameters (split_on CHR ''&'' query) = Some qs" "mset qs = mset ?e"
      unfolding scope_carries_def by blast
    from eq s have "MailboxSpaceType @ CHR ''?'' # ?q = position @ CHR ''?'' # query" by simp
    with terminated_inj[OF qm(1) q, of ?q query] have "query = ?q" by simp
    with qs show "\<exists>qs. decode_parameters (split_on CHR ''&'' ?q) = Some qs \<and> mset qs = mset ?e" by blast
  next
    assume "\<exists>qs. decode_parameters (split_on CHR ''&'' ?q) = Some qs \<and> mset qs = mset ?e"
    moreover have "query_unescape MailboxSpaceType = Some MailboxSpaceType" by (simp add: mailbox_names)
    moreover have "?scope = ''space:'' @ MailboxSpaceType @ ''?'' @ ?q" using s by simp
    ultimately show "scope_carries ?scope ?e" unfolding scope_carries_def using qm len white by blast
  qed
  also have "\<dots> \<longleftrightarrow> query_unescape did = Some did"
    unfolding dec by (subst e) (auto simp: add_mset_eq_singleton_iff)
  also have "\<dots> \<longleftrightarrow> CHR ''%'' \<notin> set did"
    using chars(1) by (intro query_unescape_fixed) (auto simp: list_all_iff scope_char_def)
  finally show ?thesis .
qed

text \<open>C22. The scopes the client asks for are the scopes it accepts, unless the DID has an escape.
  For a DID and a space key of the identifier grammar, \<open>MailboxScopes\<close> and \<open>ProvisioningScopes\<close>
  return scopes, and their own validators accept them exactly when the DID contains no percent
  sign: the scope is written unescaped and read unescaping, so a DID such as that of a
  \<^verbatim>\<open>did:web\<close> host with a port is refused after the provider granted what was asked.\<close>

theorem scopes_round_trip:
  assumes laws: "scope_laws sx" and target: "parseSteadyTarget sx did key = Inr (did, key)"
  shows "\<exists>steady provisioning. MailboxScopes sx did key = Inr steady \<and> ProvisioningScopes sx did key = Inr provisioning
     \<and> (ValidateSteadyGrant sx steady did key = Inr () \<longleftrightarrow> CHR ''%'' \<notin> set did)
     \<and> (ValidateProvisioningGrant sx provisioning did key = Inr () \<longleftrightarrow> CHR ''%'' \<notin> set did)"
proof -
  from target parseSteadyTarget_iff[OF laws, of did key did key]
  have ok: "sx_ParseDID sx did \<noteq> None" "sx_ParseRecordKey sx key" by auto
  with laws have texts: "did_text did" "key_text key" by (auto simp: scope_laws_def)
  have vals: "list_all (\<lambda>v. v \<noteq> [] \<and> query_unescape v = Some v \<and> list_all scope_char v)
      [''read'', ''create'', ''read_self'']" by (simp add: scope_char_def)
  let ?s = "formatSpaceGrant (steady_grant did key)" and ?p = "formatSpaceGrant (provisioning_grant did key)"
  have s: "grants_steady sx did key ?s \<longleftrightarrow> CHR ''%'' \<notin> set did"
    using formatted_scope_carries[OF texts, of "[''read'', ''create'']" "[]"] vals
    unfolding grants_steady_iff[OF laws ok] steady_grant_def expected_steady by simp
  have p: "grants_provisioning sx did key ?p \<longleftrightarrow> CHR ''%'' \<notin> set did"
    using formatted_scope_carries[OF texts, of "[''read_self'']" "[''create'']"] vals
    unfolding grants_provisioning_iff[OF laws ok] provisioning_grant_def expected_provisioning by simp
  show ?thesis
    using target ValidateSteadyGrant_iff[OF target] ValidateProvisioningGrant_iff[OF target] s p
    by (auto simp: MailboxScopes_def ProvisioningScopes_def add_mset_commute)
qed

text \<open>A grammar that satisfies the laws, used to show that they can hold.\<close>

definition ascii_syntax :: syntax_api where
  "ascii_syntax = \<lparr>sx_ParseDID = (\<lambda>s. if has_prefix s ''did:'' \<and> did_text s then Some s else None),
     sx_ParseNSID = plain_ident, sx_ParseRecordKey = key_text, sx_ParseTID = plain_ident\<rparr>"

lemma ascii_syntax_laws: "scope_laws ascii_syntax"
  by (simp add: scope_laws_def ascii_syntax_def plain_ident_def appendOnlyMailboxCollections_def mailbox_names)

lemma ascii_syntax_demo:
  "did_text ''did:plc:a''" "did_text ''did:web:h%3A1''" "key_text ''m''"
  "sx_ParseDID ascii_syntax ''did:plc:a'' = Some ''did:plc:a''"
  "sx_ParseDID ascii_syntax ''did:web:h%3A1'' = Some ''did:web:h%3A1''"
  "sx_ParseRecordKey ascii_syntax ''m''"
  by (simp_all add: ascii_syntax_def did_text_def key_text_def alnum_def byte_def has_prefix_def)

lemma demo_scope_carries:
  "scope_carries (formatSpaceGrant (steady_grant ''did:plc:a'' ''m'')) (steady_parameters ''did:plc:a'' ''m'')"
  using formatted_scope_carries[OF ascii_syntax_demo(1,3), of "[''read'', ''create'']" "[]"]
  unfolding steady_grant_def expected_steady by (simp add: scope_char_def)

text \<open>The grant of a mailbox, returned in another order.\<close>

theorem grants_exact_witness:
  "scope_laws ascii_syntax
   \<and> ValidateSteadyGrant ascii_syntax
       [formatSpaceGrant (steady_grant ''did:plc:a'' ''m''), ''blob:message/rfc822'', ''atproto''] ''did:plc:a'' ''m'' = Inr ()"
proof -
  let ?s = "formatSpaceGrant (steady_grant ''did:plc:a'' ''m'')"
  have m: "mset [?s, ''blob:message/rfc822'', ''atproto''] = {#''atproto'', ''blob:message/rfc822'', ?s#}" by simp
  have "\<exists>s. mset [?s, ''blob:message/rfc822'', ''atproto''] = {#''atproto'', ''blob:message/rfc822'', s#}
      \<and> scope_carries s (steady_parameters ''did:plc:a'' ''m'')"
    by (rule exI[of _ ?s], rule conjI[OF m demo_scope_carries])
  moreover have "sx_ParseDID ascii_syntax ''did:plc:a'' \<noteq> None" "sx_ParseRecordKey ascii_syntax ''m''" "''m'' \<noteq> ''*''"
    by (simp_all add: ascii_syntax_demo)
  ultimately have "ValidateSteadyGrant ascii_syntax [?s, ''blob:message/rfc822'', ''atproto''] ''did:plc:a'' ''m'' = Inr ()"
    by (intro iffD2[OF conjunct1[OF grants_exact[OF ascii_syntax_laws]]] conjI)
  with ascii_syntax_laws show ?thesis by (rule conjI)
qed

text \<open>A plain DID is accepted back, the DID of a host with a port is not.\<close>

theorem scopes_round_trip_witness:
  "(\<exists>steady. MailboxScopes ascii_syntax ''did:plc:a'' ''m'' = Inr steady
      \<and> ValidateSteadyGrant ascii_syntax steady ''did:plc:a'' ''m'' = Inr ())
   \<and> (\<exists>steady. MailboxScopes ascii_syntax ''did:web:h%3A1'' ''m'' = Inr steady
      \<and> ValidateSteadyGrant ascii_syntax steady ''did:web:h%3A1'' ''m'' \<noteq> Inr ())"
proof -
  have t: "parseSteadyTarget ascii_syntax ''did:plc:a'' ''m'' = Inr (''did:plc:a'', ''m'')"
    "parseSteadyTarget ascii_syntax ''did:web:h%3A1'' ''m'' = Inr (''did:web:h%3A1'', ''m'')"
    by (simp_all add: parseSteadyTarget_def ascii_syntax_demo)
  from scopes_round_trip[OF ascii_syntax_laws t(1)] scopes_round_trip[OF ascii_syntax_laws t(2)]
  show ?thesis by force
qed

end
