(* ===== verification/Projection.thy ===== *)
theory Projection
  imports Migrate
begin

text \<open>
  Package \<^verbatim>\<open>projection\<close>, the rebuild of a mailbox from a repository
  (\<^verbatim>\<open>internal/projection/projection.go\<close>): the record graph is read and checked, every membership
  gets an IMAP identity, and the rows of a new SQLite file are written. The file system and the
  SQL engine are outside the repository: the files are a map from paths to table contents, the
  constraints are those of the schema the code creates, and \<open>faults\<close> is a parameter that may
  let any statement or system call fail.
\<close>

section \<open>Reports\<close>

record ProjectionMismatch =
  pm_Kind :: bytes
  pm_Key :: bytes

record ProjectionReport =
  pr_Version :: int
  pr_Target :: Target
  pr_Folders :: nat
  pr_Messages :: nat
  pr_States :: nat
  pr_Tombstones :: nat
  pr_TotalBytes :: int
  pr_ManifestSHA256 :: bytes
  pr_Mismatches :: "ProjectionMismatch list"

definition projection_Passed :: "ProjectionReport \<Rightarrow> bool" where
  "projection_Passed r = (length (pr_Mismatches r) = 0 \<and> pr_Messages r = pr_States r \<and> pr_ManifestSHA256 r \<noteq> [])"

definition new_projection_report :: "int \<Rightarrow> Target \<Rightarrow> ProjectionReport" where
  "new_projection_report version target = \<lparr>pr_Version = version, pr_Target = target, pr_Folders = 0, pr_Messages = 0,
     pr_States = 0, pr_Tombstones = 0, pr_TotalBytes = 0, pr_ManifestSHA256 = [], pr_Mismatches = []\<rparr>"

record decodedMessage =
  dm_record :: Record
  dm_value :: MessageRecord
  dm_state :: MessageStateRecord

section \<open>The database file\<close>

record folder_row =
  fw_rkey :: bytes
  fw_name :: bytes
  fw_role :: bytes
  fw_uid_validity :: u32
  fw_revision :: u64
  fw_updated_at :: bytes

record message_row =
  mw_rkey :: bytes
  mw_raw :: bytes
  mw_sha256 :: bytes
  mw_size :: int
  mw_keywords_json :: bytes
  mw_delete_pending :: bool
  mw_source_message_id :: bytes
  mw_message_date :: bytes
  mw_in_reply_to :: bytes
  mw_references_json :: bytes

record membership_row =
  bw_rkey :: bytes
  bw_mailbox :: bytes
  bw_uid :: u32
  bw_uid_validity :: u32
  bw_modseq :: u64

record Tables =
  tb_meta :: "Target list"
  tb_folders :: "folder_row list"
  tb_messages :: "message_row list"
  tb_memberships :: "membership_row list"

definition no_tables :: Tables where
  "no_tables = \<lparr>tb_meta = [], tb_folders = [], tb_messages = [], tb_memberships = []\<rparr>"

text \<open>What can fail outside the repository.\<close>

datatype db_step =
    Lstat bytes | MkdirAll | OpenDatabase | CreateFile | CloseFile | SchemaExec | MetaInsert | BeginTx
  | FolderInsert bytes | MessageInsert bytes | MembershipInsert bytes bytes
  | CommitTx | CloseDatabase | ChmodFile | RemoveFile bytes

type_synonym faults = "db_step \<Rightarrow> err option"

text \<open>The state of a rebuild: the report, the files, the rows of the open transaction and the bytes hashed so far.\<close>

record rebuild =
  rb_report :: ProjectionReport
  rb_files :: "Tables gomap"
  rb_tx :: Tables
  rb_manifest :: bytes

definition db :: "faults \<Rightarrow> db_step \<Rightarrow> (rebuild \<times> 's, unit) op" where
  "db faults step = (case faults step of Some e \<Rightarrow> raise e | None \<Rightarrow> give ())"

definition report :: "(ProjectionReport \<Rightarrow> ProjectionReport) \<Rightarrow> (rebuild \<times> 's, unit) op" where
  "report f = adjust (\<lambda>b. b\<lparr>rb_report := f (rb_report b)\<rparr>)"

definition ErrFileExists :: err where
  "ErrFileExists = ErrOther ''file already exists''"

text \<open>\<^verbatim>\<open>os.Lstat\<close>: whether there is a file, or an error other than its absence.\<close>

definition refuse_existing :: "faults \<Rightarrow> bytes \<Rightarrow> (rebuild \<times> 's, unit) op" where
  "refuse_existing faults path = after (db faults (Lstat path)) (\<lambda>_. \<lambda>(b, s).
     if map_of (rb_files b) path \<noteq> None then (Inl ErrFileExists, (b, s)) else (Inr (), (b, s)))"

definition put_file :: "bytes \<Rightarrow> Tables \<Rightarrow> (rebuild \<times> 's, unit) op" where
  "put_file path tables = adjust (\<lambda>b. b\<lparr>rb_files := AList.update path tables (rb_files b)\<rparr>)"

text \<open>\<^verbatim>\<open>os.Remove\<close>, its error ignored.\<close>

definition remove_file :: "faults \<Rightarrow> bytes \<Rightarrow> (rebuild \<times> 's, unit) op" where
  "remove_file faults path = after (attempt (db faults (RemoveFile path))) (\<lambda>r.
     case r of Inl _ \<Rightarrow> give () | Inr _ \<Rightarrow> adjust (\<lambda>b. b\<lparr>rb_files := AList.delete path (rb_files b)\<rparr>))"

text \<open>
  \<^verbatim>\<open>sql.Open\<close> only fails for a driver that is not registered; the file is opened by the first statement.
\<close>

definition createSchema :: "faults \<Rightarrow> bytes \<Rightarrow> Target \<Rightarrow> (rebuild \<times> 's, unit) op" where
  "createSchema faults path target =
     after (db faults OpenDatabase) (\<lambda>_.
     after (put_file path no_tables) (\<lambda>_.
     after (db faults SchemaExec) (\<lambda>_.
     after (db faults MetaInsert) (\<lambda>_.
       put_file path (no_tables\<lparr>tb_meta := [target]\<rparr>)))))"

text \<open>The rows of a transaction start from the file and are in the file once it commits.\<close>

definition begin_tx :: "faults \<Rightarrow> bytes \<Rightarrow> (rebuild \<times> 's, unit) op" where
  "begin_tx faults path = after (db faults BeginTx) (\<lambda>_.
     adjust (\<lambda>b. b\<lparr>rb_tx := (case map_of (rb_files b) path of Some t \<Rightarrow> t | None \<Rightarrow> no_tables)\<rparr>))"

definition commit_tx :: "faults \<Rightarrow> bytes \<Rightarrow> (rebuild \<times> 's, unit) op" where
  "commit_tx faults path = after (db faults CommitTx) (\<lambda>_.
     adjust (\<lambda>b. b\<lparr>rb_files := AList.update path (rb_tx b) (rb_files b)\<rparr>))"

definition ErrConstraint :: err where
  "ErrConstraint = ErrOther ''constraint failed''"

text \<open>
  The constraints of the schema: the primary keys, the unique folder name, the unique identifier
  in a mailbox and the two references of a membership. A refusal of any kind is one error here.
\<close>

definition insert_row :: "db_step \<Rightarrow> (Tables \<Rightarrow> bool) \<Rightarrow> (Tables \<Rightarrow> Tables) \<Rightarrow> faults \<Rightarrow> (rebuild \<times> 's, unit) op" where
  "insert_row step admissible add faults = after (db faults step) (\<lambda>_. \<lambda>(b, s).
     if admissible (rb_tx b) then (Inr (), (b\<lparr>rb_tx := add (rb_tx b)\<rparr>, s)) else (Inl ErrConstraint, (b, s)))"

text \<open>\<^verbatim>\<open>database/sql\<close> refuses a \<^verbatim>\<open>uint64\<close> argument whose high bit is set.\<close>

definition sql_integer :: "u64 \<Rightarrow> bool" where
  "sql_integer n \<longleftrightarrow> unat n < 2 ^ 63"

definition insert_folder :: "folder_row \<Rightarrow> faults \<Rightarrow> (rebuild \<times> 's, unit) op" where
  "insert_folder row = insert_row (FolderInsert (fw_rkey row))
     (\<lambda>t. sql_integer (fw_revision row) \<and> fw_rkey row \<notin> set (map fw_rkey (tb_folders t)) \<and> fw_name row \<notin> set (map fw_name (tb_folders t)))
     (\<lambda>t. t\<lparr>tb_folders := tb_folders t @ [row]\<rparr>)"

definition insert_message :: "message_row \<Rightarrow> faults \<Rightarrow> (rebuild \<times> 's, unit) op" where
  "insert_message row = insert_row (MessageInsert (mw_rkey row))
     (\<lambda>t. mw_rkey row \<notin> set (map mw_rkey (tb_messages t)))
     (\<lambda>t. t\<lparr>tb_messages := tb_messages t @ [row]\<rparr>)"

definition insert_membership :: "membership_row \<Rightarrow> faults \<Rightarrow> (rebuild \<times> 's, unit) op" where
  "insert_membership row = insert_row (MembershipInsert (bw_rkey row) (bw_mailbox row))
     (\<lambda>t. sql_integer (bw_modseq row) \<and> bw_rkey row \<in> set (map mw_rkey (tb_messages t)) \<and> bw_mailbox row \<in> set (map fw_name (tb_folders t))
        \<and> (bw_rkey row, bw_mailbox row) \<notin> set (map (\<lambda>r. (bw_rkey r, bw_mailbox r)) (tb_memberships t))
        \<and> (bw_mailbox row, bw_uid row) \<notin> set (map (\<lambda>r. (bw_mailbox r, bw_uid r)) (tb_memberships t)))
     (\<lambda>t. t\<lparr>tb_memberships := tb_memberships t @ [row]\<rparr>)"

section \<open>The record graph\<close>

definition mismatch :: "bytes \<Rightarrow> bytes \<Rightarrow> ProjectionMismatch" where
  "mismatch kind key = \<lparr>pm_Kind = kind, pm_Key = key\<rparr>"

definition sortMismatches :: "ProjectionMismatch list \<Rightarrow> ProjectionMismatch list" where
  "sortMismatches = sort_key (\<lambda>m. pm_Kind m @ [CHR 0x00] @ pm_Key m)"

fun read_folders ::
  "Record list \<Rightarrow> FolderRecord gomap \<times> ProjectionMismatch list \<Rightarrow> FolderRecord gomap \<times> ProjectionMismatch list" where
  "read_folders [] acc = acc"
| "read_folders (r # rs) (folders, ms) =
     (case folder_of_json (rc_Value r) of
        None \<Rightarrow> read_folders rs (folders, ms @ [mismatch ''folder-integrity'' (rc_RKey r)])
      | Some folder \<Rightarrow>
          if fr_Type folder \<noteq> FolderCollection \<or> fr_Name folder = [] \<or> rc_RKey r \<noteq> FolderRKey (fr_Name folder)
          then read_folders rs (folders, ms @ [mismatch ''folder-integrity'' (rc_RKey r)])
          else read_folders rs (AList.update (rc_RKey r) folder folders, ms))"

text \<open>The loop over the folders of one state.\<close>

fun valid_folders :: "FolderRecord gomap \<Rightarrow> bytes list \<Rightarrow> bytes list \<Rightarrow> bool" where
  "valid_folders folders seen [] = True"
| "valid_folders folders seen (f # fs) =
     (if f \<in> set seen then False
      else if map_of folders f = None then False
      else valid_folders folders (f # seen) fs)"

text \<open>Why a state is not usable, or the state.\<close>

definition check_state :: "FolderRecord gomap \<Rightarrow> Record \<Rightarrow> bytes + MessageStateRecord" where
  "check_state folders r =
     (case state_of_json (rc_Value r) of
        None \<Rightarrow> Inl ''state-integrity''
      | Some st \<Rightarrow>
          let ids = elems (ms_MailboxIDs st) in
          if ms_Type st \<noteq> MessageStateCollection \<or> ms_Message st \<noteq> rc_RKey r \<or> ms_Revision st = 0
             \<or> length ids = 0 \<or> (ms_Tombstone st \<and> ms_DeletePending st)
          then Inl ''state-integrity''
          else if \<not> valid_folders folders [] ids then Inl ''state-folder''
          else if length ids = 1 \<and> pi_UID (ms_Projection st) > 0
             \<and> pi_UIDValidity (ms_Projection st) \<noteq> fr_UIDValidity (the (map_of folders (ids ! 0)))
          then Inl ''projection-identity''
          else Inr st)"

fun read_states ::
  "FolderRecord gomap \<Rightarrow> Record list \<Rightarrow> MessageStateRecord gomap \<times> ProjectionMismatch list
     \<Rightarrow> MessageStateRecord gomap \<times> ProjectionMismatch list" where
  "read_states folders [] acc = acc"
| "read_states folders (r # rs) (states, ms) =
     (case check_state folders r of
        Inl kind \<Rightarrow> read_states folders rs (states, ms @ [mismatch kind (rc_RKey r)])
      | Inr st \<Rightarrow> read_states folders rs (AList.update (rc_RKey r) st states, ms))"

fun read_messages ::
  "MessageStateRecord gomap \<Rightarrow> Record list \<Rightarrow> decodedMessage list \<times> bytes list \<times> ProjectionMismatch list
     \<Rightarrow> decodedMessage list \<times> bytes list \<times> ProjectionMismatch list" where
  "read_messages states [] acc = acc"
| "read_messages states (r # rs) (items, seen, ms) =
     (case message_of_json False (rc_Value r) of
        None \<Rightarrow> read_messages states rs (items, seen, ms @ [mismatch ''message-record'' (rc_RKey r)])
      | Some message \<Rightarrow> (case map_of states (rc_RKey r) of
          None \<Rightarrow> read_messages states rs (items, seen, ms @ [mismatch ''missing-state'' (rc_RKey r)])
        | Some st \<Rightarrow> read_messages states rs
            (items @ [\<lparr>dm_record = r, dm_value = message, dm_state = st\<rparr>], rc_RKey r # seen, ms)))"

definition orphan_states :: "MessageStateRecord gomap \<Rightarrow> bytes list \<Rightarrow> ProjectionMismatch list" where
  "orphan_states states seen = map (mismatch ''orphan-state'') (filter (\<lambda>k. k \<notin> set seen) (keys states))"

section \<open>Identities\<close>

type_synonym identities = "ProjectionIdentity gomap gomap"

definition dm_rkey :: "decodedMessage \<Rightarrow> bytes" where
  "dm_rkey m = rc_RKey (dm_record m)"

definition dm_ids :: "decodedMessage \<Rightarrow> bytes list" where
  "dm_ids m = elems (ms_MailboxIDs (dm_state m))"

definition dm_projection :: "decodedMessage \<Rightarrow> ProjectionIdentity" where
  "dm_projection m = ms_Projection (dm_state m)"

definition sort_items :: "decodedMessage list \<Rightarrow> decodedMessage list" where
  "sort_items = sort_key dm_rkey"

fun group_items ::
  "decodedMessage list \<Rightarrow> identities \<times> decodedMessage list gomap \<Rightarrow> identities \<times> decodedMessage list gomap" where
  "group_items [] acc = acc"
| "group_items (m # ms) (ids, byFolder) =
     (if ms_Tombstone (dm_state m) then group_items ms (ids, byFolder)
      else group_items ms
        (AList.update (dm_rkey m) [] ids,
         foldl (\<lambda>by f. AList.update f (inner by f @ [m]) by) byFolder (dm_ids m)))"

definition put_identity :: "bytes \<Rightarrow> bytes \<Rightarrow> ProjectionIdentity \<Rightarrow> identities \<Rightarrow> identities" where
  "put_identity rkey f p ids = AList.update rkey (AList.update f p (inner ids rkey)) ids"

definition get_identity :: "identities \<Rightarrow> bytes \<Rightarrow> bytes \<Rightarrow> ProjectionIdentity option" where
  "get_identity ids rkey f = map_of (inner ids rkey) f"

definition preserved :: "decodedMessage \<Rightarrow> bool" where
  "preserved m = (length (dm_ids m) = 1 \<and> pi_UID (dm_projection m) > 0)"

definition preserved_identity :: "decodedMessage \<Rightarrow> ProjectionIdentity" where
  "preserved_identity m = (let p = dm_projection m in if pi_ModSeq p = 0 then p\<lparr>pi_ModSeq := 1\<rparr> else p)"

fun preserve_loop ::
  "bytes \<Rightarrow> decodedMessage list \<Rightarrow> u32 list \<times> identities \<Rightarrow> (u32 list \<times> identities) result" where
  "preserve_loop f [] acc = Inr acc"
| "preserve_loop f (m # ms) (used, ids) =
     (if preserved m then
        (if pi_UID (dm_projection m) \<in> set used then Inl ErrIntegrity
         else preserve_loop f ms
           (pi_UID (dm_projection m) # used, put_identity (dm_rkey m) f (preserved_identity m) ids))
      else preserve_loop f ms (used, ids))"

text \<open>The search for the next free identifier: the counter wraps to zero after the last one.\<close>

function next_free :: "u32 list \<Rightarrow> u32 \<Rightarrow> u32" where
  "next_free used n = (if n \<noteq> 0 \<and> n \<in> set used then next_free used (n + 1) else n)"
  by pat_completeness auto
termination
proof (relation "measure (\<lambda>(used, n). if n = 0 then 0 else 2 ^ 32 - unat n)")
  fix used and n :: u32
  assume "n \<noteq> 0 \<and> n \<in> set used"
  then have n: "n \<noteq> 0" by simp
  have lt: "unat n < 2 ^ 32" using unsigned_less[of n, where 'a = nat] by simp
  have "unat (n + 1) = Suc (unat n)" if "n + 1 \<noteq> 0"
    using that by (metis Suc_eq_plus1 add.commute unatSuc)
  with n lt show "((used, n + 1), (used, n)) \<in> measure (\<lambda>(used, n). if n = 0 then 0 else 2 ^ 32 - unat n)"
    by auto
qed simp

declare next_free.simps [simp del]

fun assign_loop ::
  "FolderRecord gomap \<Rightarrow> bytes \<Rightarrow> decodedMessage list \<Rightarrow> u32 list \<times> u32 \<times> identities \<Rightarrow> identities result" where
  "assign_loop folders f [] (used, n, ids) = Inr ids"
| "assign_loop folders f (m # ms) (used, n, ids) =
     (if get_identity ids (dm_rkey m) f \<noteq> None then assign_loop folders f ms (used, n, ids)
      else (let k = next_free used n in
        if k = 0 then Inl ErrIntegrity
        else assign_loop folders f ms
          (k # used, k + 1,
           put_identity (dm_rkey m) f
             \<lparr>pi_UID = k,
              pi_UIDValidity = (case map_of folders f of Some r \<Rightarrow> fr_UIDValidity r | None \<Rightarrow> 0),
              pi_ModSeq = 1\<rparr> ids)))"

definition allocate_folder ::
  "FolderRecord gomap \<Rightarrow> bytes \<Rightarrow> decodedMessage list \<Rightarrow> identities \<Rightarrow> identities result" where
  "allocate_folder folders f items ids =
     (let sorted_items = sort_items items in
      case preserve_loop f sorted_items ([], ids) of
        Inl e \<Rightarrow> Inl e
      | Inr (used, ids') \<Rightarrow> assign_loop folders f sorted_items (used, 1, ids'))"

fun allocate_folders ::
  "FolderRecord gomap \<Rightarrow> (bytes \<times> decodedMessage list) list \<Rightarrow> identities \<Rightarrow> identities result" where
  "allocate_folders folders [] ids = Inr ids"
| "allocate_folders folders ((f, items) # rest) ids =
     (case allocate_folder folders f items ids of
        Inl e \<Rightarrow> Inl e
      | Inr ids' \<Rightarrow> allocate_folders folders rest ids')"

definition allocateProjectionIdentities ::
  "decodedMessage list \<Rightarrow> FolderRecord gomap \<Rightarrow> identities result" where
  "allocateProjectionIdentities messages folders =
     (case group_items messages ([], []) of (ids, byFolder) \<Rightarrow> allocate_folders folders byFolder ids)"

section \<open>Rebuild\<close>

fun insert_folders :: "faults \<Rightarrow> FolderRecord gomap \<Rightarrow> (rebuild \<times> 's, unit) op" where
  "insert_folders faults [] = give ()"
| "insert_folders faults ((rkey, folder) # rest) =
     after (insert_folder \<lparr>fw_rkey = rkey, fw_name = fr_Name folder, fw_role = fr_Role folder,
       fw_uid_validity = fr_UIDValidity folder, fw_revision = fr_Revision folder, fw_updated_at = fr_UpdatedAt folder\<rparr> faults)
     (\<lambda>_. insert_folders faults rest)"

definition message_row_of :: "decodedMessage \<Rightarrow> bytes \<Rightarrow> message_row" where
  "message_row_of m raw =
     \<lparr>mw_rkey = dm_rkey m, mw_raw = raw, mw_sha256 = mr_SHA256 (dm_value m), mw_size = mr_Size (dm_value m),
      mw_keywords_json = json_text (jstrs (ms_Keywords (dm_state m))), mw_delete_pending = ms_DeletePending (dm_state m),
      mw_source_message_id = mr_SourceMessageID (dm_value m), mw_message_date = mr_MessageDate (dm_value m),
      mw_in_reply_to = mr_InReplyTo (dm_value m), mw_references_json = json_text (jstrs (mr_References (dm_value m)))\<rparr>"

text \<open>Reading an absent entry of the two maps gives their zero values.\<close>

definition membership_row_of :: "FolderRecord gomap \<Rightarrow> identities \<Rightarrow> decodedMessage \<Rightarrow> bytes \<Rightarrow> membership_row" where
  "membership_row_of folders ids m f =
     (let identity = (case get_identity ids (dm_rkey m) f of Some p \<Rightarrow> p | None \<Rightarrow> zero_projection)
      in \<lparr>bw_rkey = dm_rkey m, bw_mailbox = (case map_of folders f of Some r \<Rightarrow> fr_Name r | None \<Rightarrow> []),
          bw_uid = pi_UID identity, bw_uid_validity = pi_UIDValidity identity, bw_modseq = pi_ModSeq identity\<rparr>)"

fun insert_memberships ::
  "faults \<Rightarrow> FolderRecord gomap \<Rightarrow> identities \<Rightarrow> decodedMessage \<Rightarrow> bytes list \<Rightarrow> (rebuild \<times> 's, unit) op" where
  "insert_memberships faults folders ids m [] = give ()"
| "insert_memberships faults folders ids m (f # fs) =
     after (insert_membership (membership_row_of folders ids m f) faults)
       (\<lambda>_. insert_memberships faults folders ids m fs)"

definition manifest_bytes :: "decodedMessage \<Rightarrow> bytes" where
  "manifest_bytes m = dm_rkey m @ [CHR 0x00] @ mr_SHA256 (dm_value m) @ [CHR 0x00]
     @ json_text (state_json (dm_state m)) @ [CHR 0x00]"

definition project_message ::
  "faults \<Rightarrow> 's Repository \<Rightarrow> Target \<Rightarrow> FolderRecord gomap \<Rightarrow> identities \<Rightarrow> decodedMessage \<Rightarrow> (rebuild \<times> 's, unit) op" where
  "project_message faults repo target folders ids m =
     after (on_repo (rp_GetBlob repo target (br_Link (mr_Raw (dm_value m))))) (\<lambda>raw.
     after (returning (ValidateStoredMessage (tg_RepoDID target) (dm_rkey m) (dm_value m) raw)) (\<lambda>_.
     after (adjust (\<lambda>b. b\<lparr>rb_manifest := rb_manifest b @ manifest_bytes m\<rparr>)) (\<lambda>_.
     after (report (\<lambda>r. r\<lparr>pr_TotalBytes := pr_TotalBytes r + int (length raw)\<rparr>)) (\<lambda>_.
       if ms_Tombstone (dm_state m) then report (\<lambda>r. r\<lparr>pr_Tombstones := pr_Tombstones r + 1\<rparr>)
       else after (insert_message (message_row_of m raw) faults) (\<lambda>_.
         insert_memberships faults folders ids m (dm_ids m))))))"

fun project_messages ::
  "faults \<Rightarrow> 's Repository \<Rightarrow> Target \<Rightarrow> FolderRecord gomap \<Rightarrow> identities \<Rightarrow> decodedMessage list \<Rightarrow> (rebuild \<times> 's, unit) op" where
  "project_messages faults repo target folders ids [] = give ()"
| "project_messages faults repo target folders ids (m # ms) =
     after (project_message faults repo target folders ids m) (\<lambda>_. project_messages faults repo target folders ids ms)"

text \<open>What runs between the opening of the database and the deferred clean-up.\<close>

definition fill_database ::
  "faults \<Rightarrow> 's Repository \<Rightarrow> Target \<Rightarrow> bytes \<Rightarrow> FolderRecord gomap \<Rightarrow> decodedMessage list \<Rightarrow> (rebuild \<times> 's, unit) op" where
  "fill_database faults repo target destination folders messages =
     after (createSchema faults destination target) (\<lambda>_.
     after (begin_tx faults destination) (\<lambda>_.
     after (insert_folders faults folders) (\<lambda>_.
     let items = sort_items messages in
     after (returning (allocateProjectionIdentities items folders)) (\<lambda>ids.
     after (project_messages faults repo target folders ids items) (\<lambda>_.
     after (commit_tx faults destination) (\<lambda>_.
     after (db faults CloseDatabase) (\<lambda>_.
     after (db faults ChmodFile) (\<lambda>_. \<lambda>(b, s).
       (Inr (), (b\<lparr>rb_report := (rb_report b)\<lparr>pr_ManifestSHA256 := hex_encode (sha256 (rb_manifest b))\<rparr>\<rparr>, s))))))))))"

definition discard_files :: "faults \<Rightarrow> bytes list \<Rightarrow> (rebuild \<times> 's, unit) op" where
  "discard_files faults paths = foldr (\<lambda>p k. after (remove_file faults p) (\<lambda>_. k)) paths (give ())"

text \<open>The deferred function: what was created is removed unless the rebuild completed.\<close>

definition or_discard :: "faults \<Rightarrow> bytes list \<Rightarrow> (rebuild \<times> 's, unit) op \<Rightarrow> (rebuild \<times> 's, unit) op" where
  "or_discard faults paths m =
     after (attempt m) (\<lambda>r. case r of
       Inr _ \<Rightarrow> give ()
     | Inl e \<Rightarrow> after (discard_files faults paths) (\<lambda>_. raise e))"

definition graph_consistent :: "(rebuild \<times> 's, unit) op" where
  "graph_consistent = after (report (\<lambda>r. r\<lparr>pr_Mismatches := sortMismatches (pr_Mismatches r)\<rparr>)) (\<lambda>_. \<lambda>(b, s).
     if length (pr_Mismatches (rb_report b)) > 0 then (Inl ErrIntegrity, (b, s)) else (Inr (), (b, s)))"

definition add_mismatches :: "ProjectionMismatch list \<Rightarrow> (rebuild \<times> 's, unit) op" where
  "add_mismatches ms = report (\<lambda>r. r\<lparr>pr_Mismatches := pr_Mismatches r @ ms\<rparr>)"

definition read_graph ::
  "'s Repository \<Rightarrow> Target \<Rightarrow> (rebuild \<times> 's, FolderRecord gomap \<times> decodedMessage list) op" where
  "read_graph repo target =
     after (on_repo (rp_ListRecords repo target FolderCollection)) (\<lambda>folderRecords.
     case read_folders folderRecords ([], []) of (folders, fms) \<Rightarrow>
     after (add_mismatches fms) (\<lambda>_.
     after (report (\<lambda>r. r\<lparr>pr_Folders := length folderRecords\<rparr>)) (\<lambda>_.
     after (on_repo (rp_ListRecords repo target MessageStateCollection)) (\<lambda>stateRecords.
     case read_states folders stateRecords ([], []) of (states, sms) \<Rightarrow>
     after (add_mismatches sms) (\<lambda>_.
     after (report (\<lambda>r. r\<lparr>pr_States := length stateRecords\<rparr>)) (\<lambda>_.
     after (on_repo (rp_ListRecords repo target MessageCollection)) (\<lambda>messageRecords.
     case read_messages states messageRecords ([], [], []) of (messages, seen, mms) \<Rightarrow>
     after (add_mismatches (mms @ orphan_states states seen)) (\<lambda>_.
     after (report (\<lambda>r. r\<lparr>pr_Messages := length messageRecords\<rparr>)) (\<lambda>_.
     after graph_consistent (\<lambda>_.
       give (folders, messages))))))))))) "

text \<open>\<open>None\<close> is a nil repository; an absolute path of the platform starts with a slash.\<close>

definition Rebuild ::
  "faults \<Rightarrow> syntax_api \<Rightarrow> 's Repository option \<Rightarrow> Target \<Rightarrow> bytes \<Rightarrow> Tables gomap \<Rightarrow> 's \<Rightarrow> unit result \<times> (rebuild \<times> 's)" where
  "Rebuild faults sx repo target destination files s =
     (let start = (\<lparr>rb_report = new_projection_report 1 target, rb_files = files, rb_tx = no_tables, rb_manifest = []\<rparr>, s) in
      case repo of
        None \<Rightarrow> (Inl (ErrOther ''projection: repository and absolute destination are required''), start)
      | Some rp \<Rightarrow>
          if \<not> has_prefix destination ''/''
          then (Inl (ErrOther ''projection: repository and absolute destination are required''), start)
          else after (returning (ValidateFor sx target (tg_RepoDID target))) (\<lambda>_.
            after (refuse_existing faults destination) (\<lambda>_.
            after (read_graph rp target) (\<lambda>(folders, messages).
            after (db faults MkdirAll) (\<lambda>_.
              or_discard faults [destination, destination @ ''-wal'', destination @ ''-shm'']
                (fill_database faults rp target destination folders messages))))) start)"

section \<open>The allocation of identifiers\<close>

text \<open>All identifiers below the counter are taken; a counter that wrapped stands for all of them.\<close>

definition low_used :: "u32 list \<Rightarrow> u32 \<Rightarrow> bool" where
  "low_used used n \<longleftrightarrow> (\<forall>j. j \<noteq> 0 \<and> (n = 0 \<or> j < n) \<longrightarrow> j \<in> set used)"

lemma low_used_Suc:
  assumes "low_used used n" and "n \<noteq> 0" and "n \<in> set used"
  shows "low_used used (n + 1)"
proof -
  have "j < n \<or> j = n" if "n + 1 = 0 \<or> j < n + 1" for j :: u32
  proof (cases "n + 1 = 0")
    case True
    then have "n = -1" by (simp add: eq_neg_iff_add_eq_0)
    then show ?thesis using word_order.not_eq_extremum[of j] by auto
  next
    case False
    then have "unat (n + 1) = Suc (unat n)" by (metis Suc_eq_plus1 add.commute unatSuc)
    with that False show ?thesis by (simp add: word_less_nat_alt word_unat_eq_iff less_Suc_eq)
  qed
  with assms show ?thesis by (auto simp: low_used_def)
qed

lemma next_free_spec:
  "low_used used n \<Longrightarrow> low_used used (next_free used n) \<and> (next_free used n \<noteq> 0 \<longrightarrow> next_free used n \<notin> set used)"
proof (induction used n rule: next_free.induct)
  case (1 used n)
  then show ?case using low_used_Suc[of used n] by (subst (1 2 3) next_free.simps) auto
qed

lemma low_used_Cons: "low_used used n \<Longrightarrow> low_used (k # used) n"
  by (auto simp: low_used_def)

lemma get_put_identity [simp]:
  "get_identity (put_identity k f p ids) k' f' = (if k' = k \<and> f' = f then Some p else get_identity ids k' f')"
  by (simp add: get_identity_def put_identity_def)

definition item_uid :: "identities \<Rightarrow> bytes \<Rightarrow> decodedMessage \<Rightarrow> u32" where
  "item_uid ids f m = (case get_identity ids (dm_rkey m) f of Some p \<Rightarrow> pi_UID p | None \<Rightarrow> 0)"

text \<open>Only the identities of the given messages in the given folder differ.\<close>

definition touches :: "bytes \<Rightarrow> decodedMessage list \<Rightarrow> identities \<Rightarrow> identities \<Rightarrow> bool" where
  "touches f ms ids ids' \<longleftrightarrow>
     (\<forall>k g. g \<noteq> f \<or> k \<notin> dm_rkey ` set ms \<longrightarrow> get_identity ids' k g = get_identity ids k g)"

lemma touches_step:
  "touches f ms (put_identity (dm_rkey m) f p ids) ids' \<Longrightarrow> touches f (m # ms) ids ids'"
  by (auto simp: touches_def)

lemma touches_skip: "touches f ms ids ids' \<Longrightarrow> touches f (m # ms) ids ids'"
  by (auto simp: touches_def)

lemma preserve_loop_spec:
  assumes "distinct (map dm_rkey ms)"
  shows "case preserve_loop f ms (used, ids) of
      Inl e \<Rightarrow> e = ErrIntegrity \<and> \<not> distinct (map (\<lambda>m. pi_UID (dm_projection m)) (filter preserved ms) @ used)
    | Inr (used', ids') \<Rightarrow>
        (distinct used \<longrightarrow> distinct (map (\<lambda>m. pi_UID (dm_projection m)) (filter preserved ms) @ used))
        \<and> used' = List.rev (map (\<lambda>m. pi_UID (dm_projection m)) (filter preserved ms)) @ used
        \<and> touches f ms ids ids'
        \<and> (\<forall>m \<in> set ms. get_identity ids' (dm_rkey m) f
             = (if preserved m then Some (preserved_identity m) else get_identity ids (dm_rkey m) f))"
  using assms
proof (induction ms arbitrary: used ids)
  case Nil
  then show ?case by (simp add: touches_def)
next
  case (Cons m ms)
  let ?u = "pi_UID (dm_projection m)" and ?ids = "put_identity (dm_rkey m) f (preserved_identity m) ids"
  have fresh: "dm_rkey m \<notin> dm_rkey ` set ms" and dist: "distinct (map dm_rkey ms)" using Cons.prems by auto
  consider (dup) "preserved m" "?u \<in> set used" | (keep) "preserved m" "?u \<notin> set used" | (skip) "\<not> preserved m" by blast
  then show ?case
  proof cases
    case dup
    then show ?thesis by auto
  next
    case keep
    have other: "dm_rkey x \<noteq> dm_rkey m" if "x \<in> set ms" for x using fresh that by (metis imageI)
    show ?thesis
    proof (cases "preserve_loop f ms (?u # used, ?ids)")
      case (Inl e)
      with Cons.IH[OF dist, of "?u # used" ?ids] keep show ?thesis by simp
    next
      case (Inr p)
      then obtain used' ids' where p: "preserve_loop f ms (?u # used, ?ids) = Inr (used', ids')" by (cases p) simp
      from Cons.IH[OF dist, of "?u # used" ?ids] p
      have IH: "distinct (?u # used) \<longrightarrow> distinct (map (\<lambda>m. pi_UID (dm_projection m)) (filter preserved ms) @ ?u # used)"
        "used' = List.rev (map (\<lambda>m. pi_UID (dm_projection m)) (filter preserved ms)) @ ?u # used"
        "touches f ms ?ids ids'"
        "\<forall>x \<in> set ms. get_identity ids' (dm_rkey x) f
             = (if preserved x then Some (preserved_identity x) else get_identity ?ids (dm_rkey x) f)"
        by auto
      have "get_identity ids' (dm_rkey m) f = Some (preserved_identity m)"
        using IH(3) fresh by (auto simp: touches_def)
      with IH keep other p touches_step[OF IH(3)] show ?thesis by auto
    qed
  next
    case skip
    from Cons.IH[OF dist, of used ids] skip fresh show ?thesis
      by (fastforce simp: touches_def split: sum.splits)
  qed
qed

definition folder_validity :: "FolderRecord gomap \<Rightarrow> bytes \<Rightarrow> u32" where
  "folder_validity folders f = (case map_of folders f of Some r \<Rightarrow> fr_UIDValidity r | None \<Rightarrow> 0)"

text \<open>The messages that still need an identity, and what they get.\<close>

definition unassigned :: "identities \<Rightarrow> bytes \<Rightarrow> decodedMessage \<Rightarrow> bool" where
  "unassigned ids f m \<longleftrightarrow> get_identity ids (dm_rkey m) f = None"

definition given :: "u32 \<Rightarrow> identities \<Rightarrow> bytes \<Rightarrow> u32 list \<Rightarrow> decodedMessage \<Rightarrow> bool" where
  "given validity ids f used m \<longleftrightarrow> (\<exists>k. k \<noteq> 0 \<and> k \<notin> set used
     \<and> get_identity ids (dm_rkey m) f = Some \<lparr>pi_UID = k, pi_UIDValidity = validity, pi_ModSeq = 1\<rparr>)"

lemma card_nonzero_u32: "card {k :: u32. k \<noteq> 0} = 2 ^ 32 - 1"
proof -
  have "{k :: u32. k \<noteq> 0} = UNIV - {0}" by auto
  then show ?thesis by (simp add: card_Diff_singleton card_word)
qed

lemma assign_loop_spec:
  assumes "distinct (map dm_rkey ms)" and "low_used used n" and "distinct used" and "0 \<notin> set used"
  shows "case assign_loop folders f ms (used, n, ids) of
      Inl e \<Rightarrow> e = ErrIntegrity \<and> length used + length (filter (unassigned ids f) ms) \<ge> 2 ^ 32
    | Inr ids' \<Rightarrow> touches f ms ids ids'
        \<and> distinct (map (item_uid ids' f) (filter (unassigned ids f) ms))
        \<and> (\<forall>m \<in> set ms. if unassigned ids f m then given (folder_validity folders f) ids' f used m
             else get_identity ids' (dm_rkey m) f = get_identity ids (dm_rkey m) f)"
  using assms
proof (induction ms arbitrary: used n ids)
  case Nil
  then show ?case by (simp add: touches_def)
next
  case (Cons m ms)
  have dist: "distinct (map dm_rkey ms)" and fresh: "dm_rkey m \<notin> dm_rkey ` set ms" using Cons.prems(1) by auto
  have other: "dm_rkey x \<noteq> dm_rkey m" if "x \<in> set ms" for x using fresh that by (metis imageI)
  show ?case
  proof (cases "unassigned ids f m")
    case False
    then have run: "assign_loop folders f (m # ms) (used, n, ids) = assign_loop folders f ms (used, n, ids)"
      by (simp add: unassigned_def)
    show ?thesis
    proof (cases "assign_loop folders f ms (used, n, ids)")
      case (Inl e)
      with Cons.IH[OF dist Cons.prems(2,3,4), of ids] False run show ?thesis by simp
    next
      case (Inr ids')
      with Cons.IH[OF dist Cons.prems(2,3,4), of ids] have IH: "touches f ms ids ids'" by simp
      with fresh have "get_identity ids' (dm_rkey m) f = get_identity ids (dm_rkey m) f" by (simp add: touches_def)
      with Cons.IH[OF dist Cons.prems(2,3,4), of ids] False run Inr touches_skip[OF IH] show ?thesis by simp
    qed
  next
    case True
    let ?k = "next_free used n"
    let ?p = "\<lparr>pi_UID = ?k, pi_UIDValidity = folder_validity folders f, pi_ModSeq = 1\<rparr>"
    let ?ids = "put_identity (dm_rkey m) f ?p ids"
    note free = next_free_spec[OF Cons.prems(2)]
    show ?thesis
    proof (cases "?k = 0")
      case exhausted: True
      with free have "{k :: u32. k \<noteq> 0} \<subseteq> set used" by (auto simp: low_used_def)
      then have "2 ^ 32 - 1 \<le> card (set used)" using card_mono[of "set used"] card_nonzero_u32 by (metis List.finite_set)
      then have "2 ^ 32 - 1 \<le> length used" using card_length[of used] by linarith
      with True exhausted show ?thesis by (simp add: unassigned_def)
    next
      case False
      have run: "assign_loop folders f (m # ms) (used, n, ids) = assign_loop folders f ms (?k # used, ?k + 1, ?ids)"
        using True False by (simp add: unassigned_def Let_def folder_validity_def)
      have low: "low_used (?k # used) (?k + 1)"
        using free False low_used_Suc[OF low_used_Cons] by auto
      have un: "filter (unassigned ?ids f) ms = filter (unassigned ids f) ms"
        by (rule filter_cong) (auto simp: unassigned_def other)
      have IH: "case assign_loop folders f ms (?k # used, ?k + 1, ?ids) of
          Inl e \<Rightarrow> e = ErrIntegrity \<and> length (?k # used) + length (filter (unassigned ids f) ms) \<ge> 2 ^ 32
        | Inr ids' \<Rightarrow> touches f ms ?ids ids' \<and> distinct (map (item_uid ids' f) (filter (unassigned ids f) ms))
            \<and> (\<forall>x \<in> set ms. if unassigned ?ids f x then given (folder_validity folders f) ids' f (?k # used) x
                 else get_identity ids' (dm_rkey x) f = get_identity ?ids (dm_rkey x) f)"
        using Cons.IH[OF dist low, of ?ids] Cons.prems(3,4) free False unfolding un by simp
      show ?thesis
      proof (cases "assign_loop folders f ms (?k # used, ?k + 1, ?ids)")
        case (Inl e)
        with IH run True show ?thesis by simp
      next
        case (Inr ids')
        with IH have t: "touches f ms ?ids ids'" and d: "distinct (map (item_uid ids' f) (filter (unassigned ids f) ms))"
          and each: "\<And>x. x \<in> set ms \<Longrightarrow> if unassigned ?ids f x then given (folder_validity folders f) ids' f (?k # used) x
                 else get_identity ids' (dm_rkey x) f = get_identity ?ids (dm_rkey x) f" by auto
        have me: "get_identity ids' (dm_rkey m) f = Some ?p" using t fresh by (simp add: touches_def)
        have rest: "if unassigned ids f x then given (folder_validity folders f) ids' f (?k # used) x
                 else get_identity ids' (dm_rkey x) f = get_identity ids (dm_rkey x) f" if "x \<in> set ms" for x
          using each[OF that] other[OF that] by (simp add: unassigned_def)
        have differs: "item_uid ids' f x \<noteq> ?k" if "x \<in> set ms" "unassigned ids f x" for x
          using rest[OF that(1)] that(2) by (auto simp: item_uid_def given_def)
        have "?k \<notin> item_uid ids' f ` set (filter (unassigned ids f) ms)"
        proof
          assume "?k \<in> item_uid ids' f ` set (filter (unassigned ids f) ms)"
          then obtain x where "?k = item_uid ids' f x" "x \<in> set (filter (unassigned ids f) ms)" by (rule imageE)
          with differs[of x] show False by simp
        qed
        moreover have "item_uid ids' f m = ?k" using me by (simp add: item_uid_def)
        ultimately have "distinct (map (item_uid ids' f) (filter (unassigned ids f) (m # ms)))"
          using d True by simp
        moreover have "given (folder_validity folders f) ids' f used m"
          using me False free by (simp add: given_def)
        moreover have "if unassigned ids f x then given (folder_validity folders f) ids' f used x
                 else get_identity ids' (dm_rkey x) f = get_identity ids (dm_rkey x) f" if "x \<in> set ms" for x
          using rest[OF that] by (auto simp: given_def split: if_splits)
        ultimately show ?thesis using run Inr True touches_step[OF t] by simp
      qed
    qed
  qed
qed

text \<open>The identities of the messages of one folder are as they should be.\<close>

definition folder_allocated :: "FolderRecord gomap \<Rightarrow> bytes \<Rightarrow> decodedMessage list \<Rightarrow> identities \<Rightarrow> bool" where
  "folder_allocated folders f items ids \<longleftrightarrow>
     distinct (map (item_uid ids f) items)
     \<and> (\<forall>m \<in> set items. \<exists>p. get_identity ids (dm_rkey m) f = Some p \<and> pi_UID p \<noteq> 0
          \<and> (if preserved m then p = preserved_identity m
             else pi_UIDValidity p = folder_validity folders f \<and> pi_ModSeq p = 1))"

definition preserved_uids :: "decodedMessage list \<Rightarrow> u32 list" where
  "preserved_uids items = map (\<lambda>m. pi_UID (dm_projection m)) (filter preserved items)"

lemma preserved_identity_uid: "preserved m \<Longrightarrow> pi_UID (preserved_identity m) = pi_UID (dm_projection m) \<and> pi_UID (dm_projection m) \<noteq> 0"
  by (auto simp: preserved_identity_def preserved_def Let_def)

lemma distinct_map_split:
  "distinct (map f (filter P xs)) \<Longrightarrow> distinct (map f (filter (\<lambda>x. \<not> P x) xs))
     \<Longrightarrow> f ` set (filter P xs) \<inter> f ` set (filter (\<lambda>x. \<not> P x) xs) = {} \<Longrightarrow> distinct (map f xs)"
proof -
  assume d: "distinct (map f (filter P xs))" "distinct (map f (filter (\<lambda>x. \<not> P x) xs))"
    "f ` set (filter P xs) \<inter> f ` set (filter (\<lambda>x. \<not> P x) xs) = {}"
  have "mset xs = mset (filter P xs @ filter (\<lambda>x. \<not> P x) xs)" by (simp flip: multiset_partition)
  then have "mset (map f xs) = mset (map f (filter P xs @ filter (\<lambda>x. \<not> P x) xs))" by (metis mset_map)
  moreover have "distinct (map f (filter P xs @ filter (\<lambda>x. \<not> P x) xs))" using d by simp
  ultimately show "distinct (map f xs)" by (metis mset_eq_imp_distinct_iff)
qed

lemma allocate_sorted_spec:
  assumes dist: "distinct (map dm_rkey ms)" and none: "\<forall>m \<in> set ms. get_identity ids (dm_rkey m) f = None"
  shows "case (case preserve_loop f ms ([], ids) of Inl e \<Rightarrow> Inl e | Inr (used, ids') \<Rightarrow> assign_loop folders f ms (used, 1, ids')) of
      Inl e \<Rightarrow> e = ErrIntegrity \<and> (\<not> distinct (preserved_uids ms) \<or> length ms \<ge> 2 ^ 32)
    | Inr ids' \<Rightarrow> distinct (preserved_uids ms) \<and> length ms < 2 ^ 32 \<and> touches f ms ids ids' \<and> folder_allocated folders f ms ids'"
proof (cases "preserve_loop f ms ([], ids)")
  case (Inl e)
  with preserve_loop_spec[OF dist, where f = f and used = "[]" and ids = ids] show ?thesis by (simp add: preserved_uids_def)
next
  case (Inr p)
  then obtain used ids1 where p: "preserve_loop f ms ([], ids) = Inr (used, ids1)" by (cases p) simp
  with preserve_loop_spec[OF dist, where f = f and used = "[]" and ids = ids]
  have d: "distinct (preserved_uids ms)" and u: "used = List.rev (preserved_uids ms)" and t: "touches f ms ids ids1"
    and g: "\<And>m. m \<in> set ms \<Longrightarrow> get_identity ids1 (dm_rkey m) f = (if preserved m then Some (preserved_identity m) else None)"
    using none by (auto simp: preserved_uids_def)
  have un: "filter (unassigned ids1 f) ms = filter (\<lambda>m. \<not> preserved m) ms"
    by (rule filter_cong) (auto simp: unassigned_def g)
  have low: "low_used used 1" by (auto simp: low_used_def)
  have nz: "0 \<notin> set used" by (auto simp: u preserved_uids_def preserved_def)
  have len: "length used + length (filter (\<lambda>m. \<not> preserved m) ms) = length ms"
    by (simp add: u preserved_uids_def sum_length_filter_compl)
  note A = assign_loop_spec[OF dist low _ nz, where folders = folders and f = f and ids = ids1, unfolded un]
  show ?thesis
  proof (cases "assign_loop folders f ms (used, 1, ids1)")
    case (Inl e)
    with A d u len p show ?thesis by simp
  next
    case (Inr ids2)
    with A d u have t2: "touches f ms ids1 ids2"
      and d2: "distinct (map (item_uid ids2 f) (filter (\<lambda>m. \<not> preserved m) ms))"
      and e2: "\<And>m. m \<in> set ms \<Longrightarrow> if unassigned ids1 f m then given (folder_validity folders f) ids2 f used m
             else get_identity ids2 (dm_rkey m) f = get_identity ids1 (dm_rkey m) f" by auto
    have kept: "get_identity ids2 (dm_rkey m) f = Some (preserved_identity m)" if "m \<in> set ms" "preserved m" for m
      using e2[OF that(1)] g[OF that(1)] that(2) by (simp add: unassigned_def)
    have new: "given (folder_validity folders f) ids2 f used m" if "m \<in> set ms" "\<not> preserved m" for m
      using e2[OF that(1)] g[OF that(1)] that(2) by (simp add: unassigned_def)
    have uids: "map (item_uid ids2 f) (filter preserved ms) = preserved_uids ms"
      unfolding preserved_uids_def by (rule map_cong) (auto simp: item_uid_def kept preserved_identity_uid)
    have apart: "item_uid ids2 f m \<notin> set used" if "m \<in> set ms" "\<not> preserved m" for m
      using new[OF that] by (auto simp: given_def item_uid_def)
    have "item_uid ids2 f ` set (filter preserved ms) \<inter> item_uid ids2 f ` set (filter (\<lambda>m. \<not> preserved m) ms) = {}"
    proof -
      have "item_uid ids2 f ` set (filter preserved ms) = set used"
        using arg_cong[OF uids, of set] by (simp add: u)
      moreover have "item_uid ids2 f ` set (filter (\<lambda>m. \<not> preserved m) ms) \<inter> set used = {}"
        using apart by auto
      ultimately show ?thesis by (simp add: Int_commute)
    qed
    moreover have "distinct (map (item_uid ids2 f) (filter preserved ms))" using d unfolding uids .
    ultimately have duids: "distinct (map (item_uid ids2 f) ms)" using d2 by (metis distinct_map_split)
    have "item_uid ids2 f ` set ms \<subseteq> {k. k \<noteq> 0}"
    proof
      fix k assume "k \<in> item_uid ids2 f ` set ms"
      then obtain m where "m \<in> set ms" "k = item_uid ids2 f m" by blast
      then show "k \<in> {k. k \<noteq> 0}"
        using kept[of m] new[of m] preserved_identity_uid[of m]
        by (cases "preserved m") (auto simp: item_uid_def given_def)
    qed
    with duids have "length ms \<le> 2 ^ 32 - 1"
      using card_mono[of "{k :: u32. k \<noteq> 0}" "item_uid ids2 f ` set ms"] card_nonzero_u32
      by (metis (no_types, lifting) distinct_card finite_code length_map list.set_map)
    moreover have "folder_allocated folders f ms ids2"
      unfolding folder_allocated_def
    proof (intro conjI ballI duids)
      fix m assume m: "m \<in> set ms"
      show "\<exists>p. get_identity ids2 (dm_rkey m) f = Some p \<and> pi_UID p \<noteq> 0
          \<and> (if preserved m then p = preserved_identity m
             else pi_UIDValidity p = folder_validity folders f \<and> pi_ModSeq p = 1)"
        using kept[OF m] new[OF m] preserved_identity_uid[of m] by (cases "preserved m") (auto simp: given_def)
    qed
    moreover have "touches f ms ids ids2" using t t2 by (auto simp: touches_def)
    ultimately show ?thesis using p Inr d by simp
  qed
qed

text \<open>Sorting the messages of a folder changes neither what is required nor what is given.\<close>

lemma sort_items_perm:
  "set (sort_items items) = set items" "length (sort_items items) = length items"
  "distinct (map g (sort_items items)) = distinct (map g items)"
  "distinct (map g (filter P (sort_items items))) = distinct (map g (filter P items))"
proof -
  have m: "mset (sort_items items) = mset items" by (simp add: sort_items_def)
  show "set (sort_items items) = set items" by (simp add: sort_items_def)
  show "length (sort_items items) = length items" by (simp add: sort_items_def)
  from m show "distinct (map g (sort_items items)) = distinct (map g items)"
    by (metis mset_eq_imp_distinct_iff mset_map)
  from m show "distinct (map g (filter P (sort_items items))) = distinct (map g (filter P items))"
    by (metis mset_eq_imp_distinct_iff mset_filter mset_map)
qed

lemma allocate_folder_spec:
  assumes "distinct (map dm_rkey items)" and "\<forall>m \<in> set items. get_identity ids (dm_rkey m) f = None"
  shows "case allocate_folder folders f items ids of
      Inl e \<Rightarrow> e = ErrIntegrity \<and> (\<not> distinct (preserved_uids items) \<or> length items \<ge> 2 ^ 32)
    | Inr ids' \<Rightarrow> distinct (preserved_uids items) \<and> length items < 2 ^ 32 \<and> touches f items ids ids'
        \<and> folder_allocated folders f items ids'"
  using allocate_sorted_spec[of "sort_items items" ids f folders] assms
  unfolding allocate_folder_def Let_def touches_def folder_allocated_def preserved_uids_def sort_items_perm
  by simp

lemma folder_allocated_untouched:
  "folder_allocated folders f items ids \<Longrightarrow>
     (\<And>m. m \<in> set items \<Longrightarrow> get_identity ids' (dm_rkey m) f = get_identity ids (dm_rkey m) f) \<Longrightarrow>
     folder_allocated folders f items ids'"
  unfolding folder_allocated_def item_uid_def by (simp cong: map_cong)

lemma allocate_folders_spec:
  assumes "distinct (map fst by)" and "\<forall>(f, items) \<in> set by. distinct (map dm_rkey items)"
    and "\<forall>(f, items) \<in> set by. \<forall>m \<in> set items. get_identity ids (dm_rkey m) f = None"
  shows "case allocate_folders folders by ids of
      Inl e \<Rightarrow> e = ErrIntegrity \<and> (\<exists>(f, items) \<in> set by. \<not> distinct (preserved_uids items) \<or> length items \<ge> 2 ^ 32)
    | Inr ids' \<Rightarrow> (\<forall>(f, items) \<in> set by. distinct (preserved_uids items) \<and> length items < 2 ^ 32
        \<and> folder_allocated folders f items ids')
        \<and> (\<forall>f k. f \<notin> fst ` set by \<longrightarrow> get_identity ids' k f = get_identity ids k f)"
  using assms
proof (induction "by" arbitrary: ids)
  case (Cons e rest)
  obtain f items where e: "e = (f, items)" by (cases e)
  have one: "distinct (map dm_rkey items)" "\<forall>m \<in> set items. get_identity ids (dm_rkey m) f = None"
    and fresh: "f \<notin> fst ` set rest" using Cons.prems by (auto simp: e)
  note A = allocate_folder_spec[OF one, of folders]
  show ?case
  proof (cases "allocate_folder folders f items ids")
    case (Inl x)
    with A show ?thesis by (simp add: e)
  next
    case (Inr ids1)
    with A have a: "distinct (preserved_uids items)" "length items < 2 ^ 32" "touches f items ids ids1"
      "folder_allocated folders f items ids1" by auto
    have other: "get_identity ids1 k g = get_identity ids k g" if "g \<noteq> f" for k g
      using a(3) that by (simp add: touches_def)
    have "\<forall>(g, items) \<in> set rest. \<forall>m \<in> set items. get_identity ids1 (dm_rkey m) g = None"
    proof clarify
      fix g its m assume g: "(g, its) \<in> set rest" "m \<in> set its"
      with fresh have "g \<noteq> f" by force
      with other Cons.prems(3) g show "get_identity ids1 (dm_rkey m) g = None" by (auto simp: e)
    qed
    then have IH: "case allocate_folders folders rest ids1 of
      Inl e \<Rightarrow> e = ErrIntegrity \<and> (\<exists>(f, items) \<in> set rest. \<not> distinct (preserved_uids items) \<or> length items \<ge> 2 ^ 32)
    | Inr ids' \<Rightarrow> (\<forall>(f, items) \<in> set rest. distinct (preserved_uids items) \<and> length items < 2 ^ 32
        \<and> folder_allocated folders f items ids')
        \<and> (\<forall>f k. f \<notin> fst ` set rest \<longrightarrow> get_identity ids' k f = get_identity ids1 k f)"
      using Cons.prems(1,2) by (intro Cons.IH) (auto simp: e)
    show ?thesis
    proof (cases "allocate_folders folders rest ids1")
      case Inl2: (Inl x)
      with IH Inr show ?thesis by (auto simp: e)
    next
      case Inr2: (Inr ids2)
      with IH have r: "\<forall>(f, items) \<in> set rest. distinct (preserved_uids items) \<and> length items < 2 ^ 32
          \<and> folder_allocated folders f items ids2"
        and u: "\<forall>f k. f \<notin> fst ` set rest \<longrightarrow> get_identity ids2 k f = get_identity ids1 k f" by auto
      have "folder_allocated folders f items ids2"
        using a(4) u fresh by (intro folder_allocated_untouched[OF a(4)]) auto
      with a r u other Inr Inr2 show ?thesis by (simp add: e)
    qed
  qed
qed simp

text \<open>The messages that are in a folder and not deleted.\<close>

definition live_in :: "bytes \<Rightarrow> decodedMessage list \<Rightarrow> decodedMessage list" where
  "live_in f messages = filter (\<lambda>m. \<not> ms_Tombstone (dm_state m) \<and> f \<in> set (dm_ids m)) messages"

lemma fold_file:
  assumes "distinct fs" and "distinct (keys by)"
  shows "inner (foldl (\<lambda>by f. AList.update f (inner by f @ [m]) by) by fs) g = inner by g @ (if g \<in> set fs then [m] else [])
     \<and> distinct (keys (foldl (\<lambda>by f. AList.update f (inner by f @ [m]) by) by fs))"
  using assms by (induction fs arbitrary: "by") auto

lemma group_items_spec:
  assumes "\<forall>m \<in> set messages. distinct (dm_ids m)" and "distinct (keys by)" and "\<forall>k f. get_identity ids k f = None"
  shows "\<exists>ids' by'. group_items messages (ids, by) = (ids', by') \<and> (\<forall>k f. get_identity ids' k f = None)
     \<and> distinct (keys by') \<and> (\<forall>f. inner by' f = inner by f @ live_in f messages)"
  using assms
proof (induction messages arbitrary: ids "by")
  case Nil
  then show ?case by (simp add: live_in_def)
next
  case (Cons m ms)
  show ?case
  proof (cases "ms_Tombstone (dm_state m)")
    case True
    with Cons.IH[of "by" ids] Cons.prems show ?thesis by (simp add: live_in_def)
  next
    case False
    let ?by = "foldl (\<lambda>by f. AList.update f (inner by f @ [m]) by) by (dm_ids m)"
    have d: "distinct (dm_ids m)" using Cons.prems(1) by simp
    have "\<forall>k f. get_identity (AList.update (dm_rkey m) [] ids) k f = None"
      using Cons.prems(3) by (simp add: get_identity_def)
    from Cons.IH[OF _ conjunct2[OF fold_file[OF d Cons.prems(2)]] this] Cons.prems(1) False
    show ?thesis
      by (fastforce simp: live_in_def fold_file[OF d Cons.prems(2)])
  qed
qed

lemma distinct_live_in: "distinct (map dm_rkey messages) \<Longrightarrow> distinct (map dm_rkey (live_in f messages))"
  unfolding live_in_def by (induction messages) auto

lemma inner_member: "distinct (keys m) \<Longrightarrow> (k, v) \<in> set m \<Longrightarrow> inner m k = v"
  by (simp add: inner_def)

lemma allocate_spec:
  assumes "distinct (map dm_rkey messages)" and "\<forall>m \<in> set messages. distinct (dm_ids m)"
  shows "case allocateProjectionIdentities messages folders of
      Inl e \<Rightarrow> e = ErrIntegrity
        \<and> (\<exists>f. \<not> distinct (preserved_uids (live_in f messages)) \<or> length (live_in f messages) \<ge> 2 ^ 32)
    | Inr ids \<Rightarrow> \<forall>f. distinct (preserved_uids (live_in f messages)) \<and> length (live_in f messages) < 2 ^ 32
        \<and> folder_allocated folders f (live_in f messages) ids"
proof -
  obtain ids byFolder where g: "group_items messages ([], []) = (ids, byFolder)"
    and none: "\<forall>k f. get_identity ids k f = None" and dk: "distinct (keys byFolder)"
    and live: "\<forall>f. inner byFolder f = live_in f messages"
    using group_items_spec[OF assms(2), of "[]" "[]"] by (auto simp: get_identity_def)
  have items: "items = live_in f messages" if "(f, items) \<in> set byFolder" for f items
    using inner_member[OF dk that] live by simp
  have S: "case allocate_folders folders byFolder ids of
      Inl e \<Rightarrow> e = ErrIntegrity \<and> (\<exists>(f, items) \<in> set byFolder. \<not> distinct (preserved_uids items) \<or> length items \<ge> 2 ^ 32)
    | Inr ids' \<Rightarrow> (\<forall>(f, items) \<in> set byFolder. distinct (preserved_uids items) \<and> length items < 2 ^ 32
        \<and> folder_allocated folders f items ids')
        \<and> (\<forall>f k. f \<notin> fst ` set byFolder \<longrightarrow> get_identity ids' k f = get_identity ids k f)"
  proof (intro allocate_folders_spec dk)
    show "\<forall>(f, items) \<in> set byFolder. distinct (map dm_rkey items)"
      using distinct_live_in[OF assms(1)] by (auto dest: items)
  qed (use none in auto)
  have empty: "live_in f messages = []" if "f \<notin> fst ` set byFolder" for f
    using live[rule_format, of f] that by (simp add: inner_def flip: map_of_eq_None_iff)
  show ?thesis
  proof (cases "allocate_folders folders byFolder ids")
    case (Inl e)
    with S items g show ?thesis by (auto simp: allocateProjectionIdentities_def)
  next
    case (Inr ids')
    have "distinct (preserved_uids (live_in f messages)) \<and> length (live_in f messages) < 2 ^ 32
        \<and> folder_allocated folders f (live_in f messages) ids'" for f
    proof (cases "f \<in> fst ` set byFolder")
      case True
      then obtain its where "(f, its) \<in> set byFolder" by auto
      with S Inr items show ?thesis by fastforce
    next
      case False
      with empty show ?thesis by (simp add: folder_allocated_def preserved_uids_def)
    qed
    with Inr g show ?thesis by (simp add: allocateProjectionIdentities_def)
  qed
qed

section \<open>The rows of the new file\<close>

definition no_faults :: faults where
  "no_faults step = None"

lemma db_no_faults [simp]: "db no_faults step = give ()"
  by (simp add: db_def no_faults_def)

lemma give_then [simp]: "after (give x) g = g x"
  by (rule ext) simp

lemma insert_row_no_faults [simp]:
  "insert_row step admissible add no_faults (b, s) =
     (if admissible (rb_tx b) then (Inr (), (b\<lparr>rb_tx := add (rb_tx b)\<rparr>, s)) else (Inl ErrConstraint, (b, s)))"
  by (simp add: insert_row_def)

definition folder_row_of :: "bytes \<times> FolderRecord \<Rightarrow> folder_row" where
  "folder_row_of e = (case e of (rkey, folder) \<Rightarrow>
     \<lparr>fw_rkey = rkey, fw_name = fr_Name folder, fw_role = fr_Role folder, fw_uid_validity = fr_UIDValidity folder,
      fw_revision = fr_Revision folder, fw_updated_at = fr_UpdatedAt folder\<rparr>)"

lemma insert_folders_run:
  assumes "distinct (map fw_rkey (tb_folders (rb_tx b)) @ keys fs)"
    and "distinct (map fw_name (tb_folders (rb_tx b)) @ map (\<lambda>e. fr_Name (snd e)) fs)"
    and "\<forall>e \<in> set fs. sql_integer (fr_Revision (snd e))"
  shows "insert_folders no_faults fs (b, s)
    = (Inr (), (b\<lparr>rb_tx := (rb_tx b)\<lparr>tb_folders := tb_folders (rb_tx b) @ map folder_row_of fs\<rparr>\<rparr>, s))"
  using assms
proof (induction fs arbitrary: b)
  case Nil
  then show ?case by (simp add: give_def)
next
  case (Cons e fs)
  obtain k r where e: "e = (k, r)" by (cases e)
  let ?row = "folder_row_of (k, r)"
  let ?b = "b\<lparr>rb_tx := (rb_tx b)\<lparr>tb_folders := tb_folders (rb_tx b) @ [?row]\<rparr>\<rparr>"
  have row: "fw_rkey ?row = k" "fw_name ?row = fr_Name r" "fw_revision ?row = fr_Revision r" by (simp_all add: folder_row_of_def)
  have one: "insert_folder ?row no_faults (b, s) = (Inr (), (?b, s))"
    using Cons.prems row by (auto simp: insert_folder_def e)
  have "insert_folders no_faults fs (?b, s) = (Inr (), (?b\<lparr>rb_tx := (rb_tx ?b)\<lparr>tb_folders := tb_folders (rb_tx ?b) @ map folder_row_of fs\<rparr>\<rparr>, s))"
    using Cons.prems row by (intro Cons.IH) (auto simp: e)
  with one show ?case by (simp add: e folder_row_of_def[of "(k, r)"])
qed

text \<open>Everything the rows of a set of messages rely on.\<close>

definition rows_ready :: "FolderRecord gomap \<Rightarrow> identities \<Rightarrow> decodedMessage list \<Rightarrow> bool" where
  "rows_ready folders ids items \<longleftrightarrow>
     distinct (map dm_rkey items) \<and> (\<forall>m \<in> set items. distinct (dm_ids m) \<and> (\<forall>f \<in> set (dm_ids m). map_of folders f \<noteq> None))
     \<and> (\<forall>f g r r'. map_of folders f = Some r \<longrightarrow> map_of folders g = Some r' \<longrightarrow> fr_Name r = fr_Name r' \<longrightarrow> f = g)
     \<and> (\<forall>f. distinct (map (item_uid ids f) (live_in f items))
          \<and> (\<forall>m \<in> set (live_in f items). sql_integer (bw_modseq (membership_row_of folders ids m f))))"

definition live_items :: "decodedMessage list \<Rightarrow> decodedMessage list" where
  "live_items = filter (\<lambda>m. \<not> ms_Tombstone (dm_state m))"

definition membership_rows :: "FolderRecord gomap \<Rightarrow> identities \<Rightarrow> decodedMessage list \<Rightarrow> membership_row list" where
  "membership_rows folders ids items =
     concat (map (\<lambda>m. map (membership_row_of folders ids m) (dm_ids m)) (live_items items))"

lemma membership_row_of_simps:
  "bw_rkey (membership_row_of folders ids m f) = dm_rkey m"
  "map_of folders f = Some r \<Longrightarrow> bw_mailbox (membership_row_of folders ids m f) = fr_Name r"
  "bw_uid (membership_row_of folders ids m f) = item_uid ids f m"
  by (auto simp: membership_row_of_def item_uid_def Let_def zero_projection_def split: option.splits)

lemma rows_ready_folder:
  "rows_ready folders ids items \<Longrightarrow> m \<in> set items \<Longrightarrow> f \<in> set (dm_ids m) \<Longrightarrow> map_of folders f \<noteq> None"
  unfolding rows_ready_def by blast

text \<open>Two memberships of ready messages clash in no key of the schema.\<close>

lemma memberships_apart:
  assumes ready: "rows_ready folders ids items"
    and m: "m \<in> set items" "m' \<in> set items" "\<not> ms_Tombstone (dm_state m)" "\<not> ms_Tombstone (dm_state m')"
    and f: "f \<in> set (dm_ids m)" "f' \<in> set (dm_ids m')" and differ: "(m, f) \<noteq> (m', f')"
  defines "row \<equiv> membership_row_of folders ids m f" and "row' \<equiv> membership_row_of folders ids m' f'"
  shows "(bw_rkey row, bw_mailbox row) \<noteq> (bw_rkey row', bw_mailbox row')"
    and "(bw_mailbox row, bw_uid row) \<noteq> (bw_mailbox row', bw_uid row')"
proof -
  obtain r r' where r: "map_of folders f = Some r" "map_of folders f' = Some r'"
    using rows_ready_folder[OF ready m(1) f(1)] rows_ready_folder[OF ready m(2) f(2)] by auto
  have same: "f = f'" if "bw_mailbox row = bw_mailbox row'"
    using ready r that by (auto simp: rows_ready_def row_def row'_def membership_row_of_simps)
  have key: "m = m'" if "dm_rkey m = dm_rkey m'"
    using ready m that unfolding rows_ready_def by (auto simp: distinct_map dest: inj_onD)
  have uid: "m = m'" if "f = f'" "item_uid ids f m = item_uid ids f m'"
  proof -
    have "distinct (map (item_uid ids f) (live_in f items))" using ready by (simp add: rows_ready_def)
    moreover have "m \<in> set (live_in f items)" "m' \<in> set (live_in f items)"
      using m f that(1) by (simp_all add: live_in_def)
    ultimately show ?thesis using that(2) by (auto simp: distinct_map dest: inj_onD)
  qed
  show "(bw_rkey row, bw_mailbox row) \<noteq> (bw_rkey row', bw_mailbox row')"
    using same key differ by (auto simp: row_def row'_def membership_row_of_simps)
  show "(bw_mailbox row, bw_uid row) \<noteq> (bw_mailbox row', bw_uid row')"
    using same uid differ by (auto simp: row_def row'_def membership_row_of_simps)
qed

text \<open>The tables when the memberships of the messages before \<open>m\<close>, and of \<open>m\<close> in the folders \<open>fs\<close>, are in.\<close>

definition filled ::
  "FolderRecord gomap \<Rightarrow> identities \<Rightarrow> (decodedMessage \<Rightarrow> bytes) \<Rightarrow> decodedMessage list \<Rightarrow> Tables \<Rightarrow> Tables" where
  "filled folders ids raw items t = t\<lparr>tb_messages := map (\<lambda>m. message_row_of m (raw m)) (live_items items),
     tb_memberships := membership_rows folders ids items\<rparr>"

lemma message_row_key [simp]: "mw_rkey (message_row_of m raw) = dm_rkey m"
  by (simp add: message_row_of_def)

lemma insert_memberships_run:
  assumes ready: "rows_ready folders ids (before @ m # rest)" and live: "\<not> ms_Tombstone (dm_state m)"
    and split: "dm_ids m = gs @ fs"
    and msgs: "dm_rkey m \<in> set (map mw_rkey (tb_messages (rb_tx b)))"
    and names: "set (map fw_name (tb_folders (rb_tx b))) = fr_Name ` ran (map_of folders)"
    and rows: "tb_memberships (rb_tx b) = membership_rows folders ids before @ map (membership_row_of folders ids m) gs"
  shows "insert_memberships no_faults folders ids m fs (b, s)
    = (Inr (), (b\<lparr>rb_tx := (rb_tx b)\<lparr>tb_memberships := membership_rows folders ids before @ map (membership_row_of folders ids m) (dm_ids m)\<rparr>\<rparr>, s))"
  using split msgs names rows
proof (induction fs arbitrary: gs b)
  case Nil
  then show ?case by (simp add: give_def)
next
  case (Cons f fs)
  let ?row = "membership_row_of folders ids m f" and ?items = "before @ m # rest"
  let ?b = "b\<lparr>rb_tx := (rb_tx b)\<lparr>tb_memberships := tb_memberships (rb_tx b) @ [?row]\<rparr>\<rparr>"
  have f: "f \<in> set (dm_ids m)" and gs: "set gs \<subseteq> set (dm_ids m)" "f \<notin> set gs"
    using ready Cons.prems(1) unfolding rows_ready_def by auto
  have me: "m \<in> set ?items" by simp
  obtain r where r: "map_of folders f = Some r" using rows_ready_folder[OF ready me f] by auto
  have notin: "m \<notin> set before" using ready unfolding rows_ready_def by auto
  have apart: "(bw_rkey ?row, bw_mailbox ?row) \<noteq> (bw_rkey x, bw_mailbox x) \<and> (bw_mailbox ?row, bw_uid ?row) \<noteq> (bw_mailbox x, bw_uid x)"
    if "x \<in> set (tb_memberships (rb_tx b))" for x
  proof -
    from that Cons.prems(4) consider
        (old) m' f' where "m' \<in> set before" "\<not> ms_Tombstone (dm_state m')" "f' \<in> set (dm_ids m')" "x = membership_row_of folders ids m' f'"
      | (same) f' where "f' \<in> set gs" "x = membership_row_of folders ids m f'"
      by (auto simp: membership_rows_def live_items_def)
    then show ?thesis
    proof cases
      case old
      with memberships_apart[OF ready me, of m' f f'] live f notin show ?thesis by auto
    next
      case same
      with memberships_apart[OF ready me me live live f, of f'] gs show ?thesis by auto
    qed
  qed
  have one: "insert_membership ?row no_faults (b, s) = (Inr (), (?b, s))"
  proof -
    have "sql_integer (bw_modseq ?row)" using ready live f by (auto simp: rows_ready_def live_in_def)
    moreover have "bw_mailbox ?row \<in> set (map fw_name (tb_folders (rb_tx b)))"
      unfolding Cons.prems(3) using r by (auto simp: membership_row_of_simps ran_def)
    moreover have "(bw_rkey ?row, bw_mailbox ?row) \<notin> set (map (\<lambda>r. (bw_rkey r, bw_mailbox r)) (tb_memberships (rb_tx b)))"
      "(bw_mailbox ?row, bw_uid ?row) \<notin> set (map (\<lambda>r. (bw_mailbox r, bw_uid r)) (tb_memberships (rb_tx b)))"
      using apart by auto
    ultimately show ?thesis using Cons.prems(2) by (simp add: insert_membership_def membership_row_of_simps)
  qed
  have "insert_memberships no_faults folders ids m fs (?b, s)
    = (Inr (), (?b\<lparr>rb_tx := (rb_tx ?b)\<lparr>tb_memberships := membership_rows folders ids before @ map (membership_row_of folders ids m) (dm_ids m)\<rparr>\<rparr>, s))"
    using Cons.prems by (intro Cons.IH[of "gs @ [f]"]) auto
  with one show ?case by simp
qed

text \<open>What one message adds to the report and the manifest.\<close>

definition counted :: "(decodedMessage \<Rightarrow> bytes) \<Rightarrow> decodedMessage \<Rightarrow> ProjectionReport \<Rightarrow> ProjectionReport" where
  "counted raw m r = r\<lparr>pr_TotalBytes := pr_TotalBytes r + int (length (raw m)),
     pr_Tombstones := pr_Tombstones r + (if ms_Tombstone (dm_state m) then 1 else 0)\<rparr>"

definition blob_of :: "'s Repository \<Rightarrow> Target \<Rightarrow> 's \<Rightarrow> decodedMessage \<Rightarrow> bytes result" where
  "blob_of repo target s m = fst (rp_GetBlob repo target (br_Link (mr_Raw (dm_value m))) s)"

definition message_verified :: "'s Repository \<Rightarrow> Target \<Rightarrow> 's \<Rightarrow> decodedMessage \<Rightarrow> bool" where
  "message_verified repo target s m \<longleftrightarrow> (\<exists>raw. blob_of repo target s m = Inr raw
     \<and> ValidateStoredMessage (tg_RepoDID target) (dm_rkey m) (dm_value m) raw = Inr ())"

definition raw_of :: "'s Repository \<Rightarrow> Target \<Rightarrow> 's \<Rightarrow> decodedMessage \<Rightarrow> bytes" where
  "raw_of repo target s m = (case blob_of repo target s m of Inr raw \<Rightarrow> raw | Inl _ \<Rightarrow> [])"

lemma filled_snoc_live:
  "\<not> ms_Tombstone (dm_state m) \<Longrightarrow> filled folders ids raw (items @ [m]) t
     = (filled folders ids raw items t)\<lparr>tb_messages := tb_messages (filled folders ids raw items t) @ [message_row_of m (raw m)],
         tb_memberships := membership_rows folders ids items @ map (membership_row_of folders ids m) (dm_ids m)\<rparr>"
  by (simp add: filled_def live_items_def membership_rows_def)

lemma filled_snoc_dead: "ms_Tombstone (dm_state m) \<Longrightarrow> filled folders ids raw (items @ [m]) t = filled folders ids raw items t"
  by (simp add: filled_def live_items_def membership_rows_def)

lemma project_message_run:
  assumes pure: "\<And>cid. snd (rp_GetBlob repo target cid s) = s"
    and ready: "rows_ready folders ids (before @ m # rest)"
    and names: "set (map fw_name (tb_folders t)) = fr_Name ` ran (map_of folders)"
    and tx: "rb_tx b = filled folders ids (raw_of repo target s) before t"
    and ok: "message_verified repo target s m"
  shows "project_message no_faults repo target folders ids m (b, s)
    = (Inr (), (b\<lparr>rb_tx := filled folders ids (raw_of repo target s) (before @ [m]) t, rb_manifest := rb_manifest b @ manifest_bytes m,
        rb_report := counted (raw_of repo target s) m (rb_report b)\<rparr>, s))"
proof -
  let ?raw = "raw_of repo target s"
  from ok have raw: "blob_of repo target s m = Inr (?raw m)"
    and valid: "ValidateStoredMessage (tg_RepoDID target) (dm_rkey m) (dm_value m) (?raw m) = Inr ()"
    by (auto simp: message_verified_def raw_of_def)
  let ?b1 = "b\<lparr>rb_manifest := rb_manifest b @ manifest_bytes m,
      rb_report := (rb_report b)\<lparr>pr_TotalBytes := pr_TotalBytes (rb_report b) + int (length (?raw m))\<rparr>\<rparr>"
  have blob: "rp_GetBlob repo target (br_Link (mr_Raw (dm_value m))) s = (Inr (?raw m), s)"
    using raw pure[of "br_Link (mr_Raw (dm_value m))"] by (metis blob_of_def prod.collapse)
  have start: "project_message no_faults repo target folders ids m (b, s)
      = (if ms_Tombstone (dm_state m) then report (\<lambda>r. r\<lparr>pr_Tombstones := pr_Tombstones r + 1\<rparr>)
         else after (insert_message (message_row_of m (?raw m)) no_faults) (\<lambda>_.
           insert_memberships no_faults folders ids m (dm_ids m))) (?b1, s)"
    by (simp add: project_message_def after_def on_repo_def blob valid returning_def adjust_def report_def)
  show ?thesis
  proof (cases "ms_Tombstone (dm_state m)")
    case True
    then show ?thesis
      unfolding start by (simp add: report_def adjust_def counted_def filled_snoc_dead tx[symmetric])
  next
    case False
    let ?t = "filled folders ids ?raw before t"
    let ?b2 = "?b1\<lparr>rb_tx := ?t\<lparr>tb_messages := tb_messages ?t @ [message_row_of m (?raw m)]\<rparr>\<rparr>"
    have "dm_rkey m \<notin> dm_rkey ` set before" using ready by (auto simp: rows_ready_def)
    then have "dm_rkey m \<notin> set (map mw_rkey (tb_messages ?t))" by (auto simp: filled_def live_items_def)
    then have ins: "insert_message (message_row_of m (?raw m)) no_faults (?b1, s) = (Inr (), (?b2, s))"
      by (simp add: insert_message_def tx)
    have "insert_memberships no_faults folders ids m (dm_ids m) (?b2, s)
      = (Inr (), (?b2\<lparr>rb_tx := (rb_tx ?b2)\<lparr>tb_memberships := membership_rows folders ids before @ map (membership_row_of folders ids m) (dm_ids m)\<rparr>\<rparr>, s))"
      using False names by (intro insert_memberships_run[OF ready, of "[]"]) (simp_all add: filled_def)
    with ins False show ?thesis
      unfolding start by (simp add: counted_def filled_snoc_live)
  qed
qed

lemma project_message_refused:
  assumes "\<not> message_verified repo target s m"
  shows "\<exists>e b' s'. project_message faults repo target folders ids m (b, s) = (Inl e, (b', s'))"
proof (cases "blob_of repo target s m")
  case (Inl e)
  then obtain s' where "rp_GetBlob repo target (br_Link (mr_Raw (dm_value m))) s = (Inl e, s')"
    by (cases "rp_GetBlob repo target (br_Link (mr_Raw (dm_value m))) s") (simp add: blob_of_def)
  then show ?thesis by (simp add: project_message_def after_def on_repo_def)
next
  case (Inr raw)
  then obtain s' where g: "rp_GetBlob repo target (br_Link (mr_Raw (dm_value m))) s = (Inr raw, s')"
    by (cases "rp_GetBlob repo target (br_Link (mr_Raw (dm_value m))) s") (simp add: blob_of_def)
  from Inr assms obtain e where "ValidateStoredMessage (tg_RepoDID target) (dm_rkey m) (dm_value m) raw = Inl e"
    by (cases "ValidateStoredMessage (tg_RepoDID target) (dm_rkey m) (dm_value m) raw") (auto simp: message_verified_def)
  with g show ?thesis by (simp add: project_message_def after_def on_repo_def returning_def)
qed

definition counted_all :: "(decodedMessage \<Rightarrow> bytes) \<Rightarrow> decodedMessage list \<Rightarrow> ProjectionReport \<Rightarrow> ProjectionReport" where
  "counted_all raw items r = foldl (\<lambda>r m. counted raw m r) r items"

lemma project_messages_run:
  assumes pure: "\<And>cid. snd (rp_GetBlob repo target cid s) = s"
    and ready: "rows_ready folders ids (before @ items)"
    and names: "set (map fw_name (tb_folders t)) = fr_Name ` ran (map_of folders)"
    and tx: "rb_tx b = filled folders ids (raw_of repo target s) before t"
  shows "if list_all (message_verified repo target s) items
    then project_messages no_faults repo target folders ids items (b, s)
      = (Inr (), (b\<lparr>rb_tx := filled folders ids (raw_of repo target s) (before @ items) t,
          rb_manifest := rb_manifest b @ concat (map manifest_bytes items),
          rb_report := counted_all (raw_of repo target s) items (rb_report b)\<rparr>, s))
    else \<exists>e b' s'. project_messages no_faults repo target folders ids items (b, s) = (Inl e, (b', s'))"
  using ready tx
proof (induction items arbitrary: before b)
  case Nil
  then show ?case by (simp add: give_def counted_all_def flip: Nil.prems(2))
next
  case (Cons m items)
  show ?case
  proof (cases "message_verified repo target s m")
    case True
    note one = project_message_run[OF pure Cons.prems(1) names Cons.prems(2) True]
    have "rows_ready folders ids ((before @ [m]) @ items)" using Cons.prems(1) by simp
    from Cons.IH[OF this, of "b\<lparr>rb_tx := filled folders ids (raw_of repo target s) (before @ [m]) t, rb_manifest := rb_manifest b @ manifest_bytes m,
        rb_report := counted (raw_of repo target s) m (rb_report b)\<rparr>"]
    show ?thesis using True by (simp add: one counted_all_def)
  next
    case False
    with project_message_refused[OF this, of no_faults folders ids b] show ?thesis by auto
  qed
qed

section \<open>What a rebuild writes\<close>

definition base_tables :: "Target \<Rightarrow> FolderRecord gomap \<Rightarrow> Tables" where
  "base_tables target folders = no_tables\<lparr>tb_meta := [target], tb_folders := map folder_row_of folders\<rparr>"

definition projection_tables ::
  "'s Repository \<Rightarrow> Target \<Rightarrow> 's \<Rightarrow> FolderRecord gomap \<Rightarrow> identities \<Rightarrow> decodedMessage list \<Rightarrow> Tables" where
  "projection_tables repo target s folders ids items =
     filled folders ids (raw_of repo target s) items (base_tables target folders)"

definition folders_named :: "FolderRecord gomap \<Rightarrow> bool" where
  "folders_named folders \<longleftrightarrow> distinct (keys folders) \<and> (\<forall>k r. map_of folders k = Some r \<longrightarrow> k = FolderRKey (fr_Name r))"

lemma folders_named_distinct:
  assumes "folders_named folders"
  shows "distinct (map (\<lambda>e. fr_Name (snd e)) folders)"
proof -
  have k: "fst e = FolderRKey (fr_Name (snd e))" if "e \<in> set folders" for e
    using assms that by (cases e) (auto simp: folders_named_def)
  have "map (FolderRKey \<circ> (\<lambda>e. fr_Name (snd e))) folders = keys folders"
    by (rule map_cong[OF refl]) (metis comp_apply k)
  moreover have "distinct (keys folders)" using assms by (simp add: folders_named_def)
  ultimately have "distinct (map (FolderRKey \<circ> (\<lambda>e. fr_Name (snd e))) folders)" by metis
  then show ?thesis by (simp flip: map_map add: distinct_map)
qed

definition placed :: "FolderRecord gomap \<Rightarrow> decodedMessage list \<Rightarrow> bool" where
  "placed folders items \<longleftrightarrow> distinct (map dm_rkey items)
     \<and> (\<forall>m \<in> set items. distinct (dm_ids m) \<and> (\<forall>f \<in> set (dm_ids m). map_of folders f \<noteq> None))"

lemma placed_sort [simp]: "placed folders (sort_items items) = placed folders items"
  by (simp add: placed_def sort_items_perm)

text \<open>The numbers that \<^verbatim>\<open>database/sql\<close> accepts.\<close>

definition sql_sized :: "FolderRecord gomap \<Rightarrow> decodedMessage list \<Rightarrow> bool" where
  "sql_sized folders items \<longleftrightarrow> (\<forall>e \<in> set folders. sql_integer (fr_Revision (snd e)))
     \<and> (\<forall>m \<in> set items. sql_integer (pi_ModSeq (dm_projection m)))"

lemma sql_integer_one: "sql_integer 1"
  by (simp add: sql_integer_def)

lemma allocated_modseq:
  assumes "folder_allocated folders f items ids" and "m \<in> set items" and "sql_integer (pi_ModSeq (dm_projection m))"
  shows "sql_integer (bw_modseq (membership_row_of folders ids m f))"
proof -
  from assms(1,2) obtain p where "get_identity ids (dm_rkey m) f = Some p" "if preserved m then p = preserved_identity m else pi_ModSeq p = 1"
    unfolding folder_allocated_def by (metis (full_types))
  with assms(3) sql_integer_one show ?thesis by (auto simp: membership_row_of_def preserved_identity_def Let_def split: if_splits)
qed

lemma rows_ready_allocated:
  assumes "folders_named folders" and "placed folders items" and "sql_sized folders items" and "\<forall>f. folder_allocated folders f (live_in f items) ids"
  shows "rows_ready folders ids items"
proof -
  have "f = g" if "map_of folders f = Some r" "map_of folders g = Some r'" "fr_Name r = fr_Name r'" for f g r r'
    using assms(1) that unfolding folders_named_def by metis
  moreover have "distinct (map (item_uid ids f) (live_in f items))
      \<and> (\<forall>m \<in> set (live_in f items). sql_integer (bw_modseq (membership_row_of folders ids m f)))" for f
    using assms(3,4) allocated_modseq[of folders f "live_in f items" ids]
    by (auto simp: folder_allocated_def sql_sized_def live_in_def)
  ultimately show ?thesis using assms(2) unfolding rows_ready_def placed_def by blast
qed

lemma fill_database_run:
  assumes pure: "\<And>cid. snd (rp_GetBlob repo target cid s) = s"
    and named: "folders_named folders" and placed: "placed folders messages" and sized: "sql_sized folders messages"
  defines "items \<equiv> sort_items messages"
  shows "case allocateProjectionIdentities items folders of
      Inl e \<Rightarrow> \<exists>e b' s'. fill_database no_faults repo target dest folders messages (b, s) = (Inl e, (b', s'))
    | Inr ids \<Rightarrow>
        if list_all (message_verified repo target s) items
        then \<exists>b'. fill_database no_faults repo target dest folders messages (b, s) = (Inr (), (b', s))
          \<and> map_of (rb_files b') = (map_of (rb_files b))(dest \<mapsto> projection_tables repo target s folders ids items)
          \<and> rb_report b' = (counted_all (raw_of repo target s) items (rb_report b))
              \<lparr>pr_ManifestSHA256 := hex_encode (sha256 (rb_manifest b @ concat (map manifest_bytes items)))\<rparr>
        else \<exists>e b' s'. fill_database no_faults repo target dest folders messages (b, s) = (Inl e, (b', s'))"
proof -
  let ?b1 = "b\<lparr>rb_files := AList.update dest (no_tables\<lparr>tb_meta := [target]\<rparr>) (rb_files b),
     rb_tx := no_tables\<lparr>tb_meta := [target]\<rparr>\<rparr>"
  let ?b2 = "?b1\<lparr>rb_tx := base_tables target folders\<rparr>"
  have schema: "createSchema no_faults dest target (b, s)
      = (Inr (), (b\<lparr>rb_files := AList.update dest (no_tables\<lparr>tb_meta := [target]\<rparr>) (rb_files b)\<rparr>, s))"
    by (simp add: createSchema_def put_file_def adjust_def after_def give_def)
  have ins: "insert_folders no_faults folders (?b1, s) = (Inr (), (?b2, s))"
    using named folders_named_distinct[OF named] sized
    by (subst insert_folders_run) (simp_all add: base_tables_def no_tables_def folders_named_def sql_sized_def)
  have start: "fill_database no_faults repo target dest folders messages (b, s)
    = after (returning (allocateProjectionIdentities items folders)) (\<lambda>ids.
      after (project_messages no_faults repo target folders ids items) (\<lambda>_.
      after (commit_tx no_faults dest) (\<lambda>_. \<lambda>(b, s).
       (Inr (), (b\<lparr>rb_report := (rb_report b)\<lparr>pr_ManifestSHA256 := hex_encode (sha256 (rb_manifest b))\<rparr>\<rparr>, s))))) (?b2, s)"
    unfolding fill_database_def items_def Let_def
    by (simp add: schema begin_tx_def adjust_def ins)
  show ?thesis
  proof (cases "allocateProjectionIdentities items folders")
    case (Inl e)
    then show ?thesis unfolding start by simp
  next
    case (Inr ids)
    have "distinct (map dm_rkey items)" "\<forall>m \<in> set items. distinct (dm_ids m)"
      using placed unfolding items_def by (auto simp: placed_def sort_items_perm)
    from allocate_spec[OF this, of folders] Inr have "\<forall>f. folder_allocated folders f (live_in f items) ids" by simp
    with named placed sized have ready: "rows_ready folders ids ([] @ items)"
      unfolding items_def by (auto intro: rows_ready_allocated simp: sql_sized_def sort_items_perm)
    have names: "set (map fw_name (tb_folders (base_tables target folders))) = fr_Name ` ran (map_of folders)"
      using named by (auto simp: base_tables_def no_tables_def folder_row_of_def folders_named_def ran_distinct split: prod.splits)
        (force simp: image_iff)+
    have tx: "rb_tx ?b2 = filled folders ids (raw_of repo target s) [] (base_tables target folders)"
      by (simp add: filled_def live_items_def membership_rows_def base_tables_def no_tables_def)
    note run = project_messages_run[OF pure ready names tx, simplified append_Nil]
    show ?thesis
    proof (cases "list_all (message_verified repo target s) items")
      case True
      with run Inr show ?thesis
        unfolding start by (simp add: commit_tx_def adjust_def projection_tables_def fun_eq_iff)
    next
      case False
      with run Inr show ?thesis unfolding start by auto
    qed
  qed
qed

section \<open>The record graph a provider shows\<close>

text \<open>The folder, state and message a record stands for, nothing where it is refused.\<close>

definition folder_entry :: "Record \<Rightarrow> FolderRecord option" where
  "folder_entry r = (case folder_of_json (rc_Value r) of
     None \<Rightarrow> None
   | Some fo \<Rightarrow> if fr_Type fo = FolderCollection \<and> fr_Name fo \<noteq> [] \<and> rc_RKey r = FolderRKey (fr_Name fo) then Some fo else None)"

definition state_entry :: "(bytes \<Rightarrow> FolderRecord option) \<Rightarrow> Record \<Rightarrow> MessageStateRecord option" where
  "state_entry folder r = (case state_of_json (rc_Value r) of
     None \<Rightarrow> None
   | Some st \<Rightarrow> let ids = elems (ms_MailboxIDs st) in
       if ms_Type st = MessageStateCollection \<and> ms_Message st = rc_RKey r \<and> ms_Revision st \<noteq> 0 \<and> ids \<noteq> []
          \<and> \<not> (ms_Tombstone st \<and> ms_DeletePending st) \<and> distinct ids \<and> list_all (\<lambda>f. folder f \<noteq> None) ids
          \<and> (length ids = 1 \<and> pi_UID (ms_Projection st) \<noteq> 0
               \<longrightarrow> pi_UIDValidity (ms_Projection st) = fr_UIDValidity (the (folder (hd ids))))
       then Some st else None)"

lemma valid_folders_iff:
  "valid_folders folders seen fs \<longleftrightarrow> distinct fs \<and> set fs \<inter> set seen = {} \<and> list_all (\<lambda>f. map_of folders f \<noteq> None) fs"
  by (induction fs arbitrary: seen) auto

lemma check_state_iff: "check_state folders r = Inr st \<longleftrightarrow> state_entry (map_of folders) r = Some st"
proof (cases "state_of_json (rc_Value r)")
  case (Some st')
  let ?ids = "elems (ms_MailboxIDs st')"
  have hd: "?ids ! 0 = hd ?ids" if "?ids \<noteq> []" using that by (simp add: hd_conv_nth)
  have "0 < pi_UID (ms_Projection st') \<longleftrightarrow> pi_UID (ms_Projection st') \<noteq> 0" by (simp add: word_gt_0)
  then show ?thesis
    using Some hd unfolding check_state_def state_entry_def Let_def valid_folders_iff by (auto split: if_splits)
qed (simp add: check_state_def state_entry_def)

lemma check_state_refused: "(\<exists>kind. check_state folders r = Inl kind) \<longleftrightarrow> state_entry (map_of folders) r = None"
proof (cases "check_state folders r")
  case (Inl kind)
  have "state_entry (map_of folders) r \<noteq> Some st" for st using Inl check_state_iff[of folders r st] by simp
  with Inl show ?thesis by (cases "state_entry (map_of folders) r") auto
next
  case (Inr st)
  with check_state_iff[of folders r st] show ?thesis by simp
qed

lemma read_folders_spec:
  "read_folders rs (fs, ms) =
     (foldl (\<lambda>m r. AList.update (rc_RKey r) (the (folder_entry r)) m) fs (filter (\<lambda>r. folder_entry r \<noteq> None) rs),
      ms @ map (\<lambda>r. mismatch ''folder-integrity'' (rc_RKey r)) (filter (\<lambda>r. folder_entry r = None) rs))"
proof (induction rs arbitrary: fs ms)
  case (Cons r rs)
  show ?case
  proof (cases "folder_entry r")
    case None
    then have "read_folders (r # rs) (fs, ms) = read_folders rs (fs, ms @ [mismatch ''folder-integrity'' (rc_RKey r)])"
      by (auto simp: folder_entry_def split: option.splits if_splits)
    with None Cons.IH show ?thesis by simp
  next
    case (Some fo)
    then have "read_folders (r # rs) (fs, ms) = read_folders rs (AList.update (rc_RKey r) fo fs, ms)"
      by (auto simp: folder_entry_def split: option.splits if_splits)
    with Some Cons.IH show ?thesis by simp
  qed
qed simp

lemma read_states_spec:
  "\<exists>bad. read_states folders rs (sts, ms) =
     (foldl (\<lambda>m r. AList.update (rc_RKey r) (the (state_entry (map_of folders) r)) m) sts
        (filter (\<lambda>r. state_entry (map_of folders) r \<noteq> None) rs), ms @ bad)
     \<and> (bad = [] \<longleftrightarrow> (\<forall>r \<in> set rs. state_entry (map_of folders) r \<noteq> None))"
proof (induction rs arbitrary: sts ms)
  case (Cons r rs)
  show ?case
  proof (cases "check_state folders r")
    case (Inl kind)
    then have "state_entry (map_of folders) r = None" using check_state_refused by blast
    with Inl Cons.IH[of sts "ms @ [mismatch kind (rc_RKey r)]"] show ?thesis by fastforce
  next
    case (Inr st)
    then have "state_entry (map_of folders) r = Some st" using check_state_iff by blast
    with Inr Cons.IH[of "AList.update (rc_RKey r) st sts" ms] show ?thesis by fastforce
  qed
qed simp

definition message_entry :: "(bytes \<Rightarrow> MessageStateRecord option) \<Rightarrow> Record \<Rightarrow> decodedMessage option" where
  "message_entry state r = (case (message_of_json False (rc_Value r), state (rc_RKey r)) of
     (Some v, Some st) \<Rightarrow> Some \<lparr>dm_record = r, dm_value = v, dm_state = st\<rparr> | _ \<Rightarrow> None)"

lemma read_messages_spec:
  "\<exists>bad. read_messages states rs (items, seen, ms) =
     (items @ map (\<lambda>r. the (message_entry (map_of states) r)) (filter (\<lambda>r. message_entry (map_of states) r \<noteq> None) rs),
      List.rev (map rc_RKey (filter (\<lambda>r. message_entry (map_of states) r \<noteq> None) rs)) @ seen, ms @ bad)
     \<and> (bad = [] \<longleftrightarrow> (\<forall>r \<in> set rs. message_entry (map_of states) r \<noteq> None))"
proof (induction rs arbitrary: items seen ms)
  case (Cons r rs)
  show ?case
  proof (cases "message_entry (map_of states) r")
    case None
    then obtain kind where "read_messages states (r # rs) (items, seen, ms)
        = read_messages states rs (items, seen, ms @ [mismatch kind (rc_RKey r)])"
      by (cases "message_of_json False (rc_Value r)"; cases "map_of states (rc_RKey r)") (auto simp: message_entry_def)
    with None Cons.IH[of items seen "ms @ [mismatch kind (rc_RKey r)]"] show ?thesis by fastforce
  next
    case (Some m)
    then have "read_messages states (r # rs) (items, seen, ms) = read_messages states rs (items @ [m], rc_RKey r # seen, ms)"
      by (auto simp: message_entry_def split: option.splits)
    with Some Cons.IH[of "items @ [m]" "rc_RKey r # seen" ms] show ?thesis by fastforce
  qed
qed simp

text \<open>
  The view of a provider: its folders, its states over them, its messages; it is sound when nothing
  is refused and every state belongs to a message.
\<close>

definition folder_at :: "(bytes \<Rightarrow> bytes \<Rightarrow> Record option) \<Rightarrow> bytes \<Rightarrow> FolderRecord option" where
  "folder_at get k = Option.bind (get FolderCollection k) folder_entry"

definition state_at :: "(bytes \<Rightarrow> bytes \<Rightarrow> Record option) \<Rightarrow> bytes \<Rightarrow> MessageStateRecord option" where
  "state_at get k = Option.bind (get MessageStateCollection k) (state_entry (folder_at get))"

definition message_at :: "(bytes \<Rightarrow> bytes \<Rightarrow> Record option) \<Rightarrow> bytes \<Rightarrow> decodedMessage option" where
  "message_at get k = Option.bind (get MessageCollection k) (message_entry (state_at get))"

definition graph_sound :: "(bytes \<Rightarrow> bytes \<Rightarrow> Record option) \<Rightarrow> bool" where
  "graph_sound get \<longleftrightarrow>
     (\<forall>k. folder_at get k = None \<longleftrightarrow> get FolderCollection k = None)
     \<and> (\<forall>k. state_at get k = None \<longleftrightarrow> get MessageStateCollection k = None)
     \<and> (\<forall>k. message_at get k = None \<longleftrightarrow> get MessageCollection k = None)
     \<and> (\<forall>k. state_at get k \<noteq> None \<longrightarrow> message_at get k \<noteq> None)"

text \<open>The messages of the view, in the order of their keys.\<close>

definition graph_items :: "(bytes \<Rightarrow> bytes \<Rightarrow> Record option) \<Rightarrow> decodedMessage list \<Rightarrow> bool" where
  "graph_items get items \<longleftrightarrow> sorted (map dm_rkey items) \<and> distinct (map dm_rkey items)
     \<and> (\<forall>m. m \<in> set items \<longleftrightarrow> message_at get (dm_rkey m) = Some m)"

lemma graph_items_unique:
  assumes "graph_items get xs" and "graph_items get ys"
  shows "xs = ys"
proof -
  have "set xs = set ys" using assms by (auto simp: graph_items_def)
  moreover from this have "map dm_rkey xs = map dm_rkey ys"
    using assms by (intro sorted_distinct_set_unique) (auto simp: graph_items_def)
  moreover have "inj_on dm_rkey (set xs)" using assms(1) by (simp add: graph_items_def distinct_map)
  ultimately show ?thesis using inj_on_map_eq_map[of dm_rkey xs ys] by simp
qed

lemma lists_rkey: "lists get rs \<Longrightarrow> r \<in> set rs \<Longrightarrow> get (rc_RKey r) = Some r"
  by (simp add: lists_def)

lemma lists_filter_map:
  assumes "lists get rs" and "\<And>k r. get k = Some r \<Longrightarrow> rc_RKey r = k"
  shows "map_of (foldl (\<lambda>m r. AList.update (rc_RKey r) (the (e r)) m) [] (filter (\<lambda>r. e r \<noteq> None) rs)) k = Option.bind (get k) e"
    and "distinct (keys (foldl (\<lambda>m r. AList.update (rc_RKey r) (the (e r)) m) [] (filter (\<lambda>r. e r \<noteq> None) rs)))"
proof -
  let ?good = "filter (\<lambda>r. e r \<noteq> None) rs"
  note fu = foldl_update_map[of "[]" rc_RKey "\<lambda>r. the (e r)" ?good]
  then show "distinct (keys (foldl (\<lambda>m r. AList.update (rc_RKey r) (the (e r)) m) [] ?good))" by simp
  have d: "distinct (map rc_RKey ?good)" using assms(1) by (auto simp: lists_def distinct_map inj_on_def)
  have "map_of (map (\<lambda>r. (rc_RKey r, the (e r))) (List.rev ?good)) k = Option.bind (get k) e"
  proof (cases "Option.bind (get k) e")
    case None
    then have "k \<notin> rc_RKey ` set ?good"
      using assms(1) by (auto simp: lists_def)
    then show ?thesis using None by (auto simp: map_of_eq_None_iff)
  next
    case (Some x)
    then obtain r where r: "get k = Some r" "e r = Some x" by (auto simp: bind_eq_Some_conv)
    with assms have "r \<in> set ?good" "rc_RKey r = k" by (auto simp: lists_def)
    with r(2) have "(k, x) \<in> set (map (\<lambda>r. (rc_RKey r, the (e r))) (List.rev ?good))" by force
    moreover have "distinct (map fst (map (\<lambda>r. (rc_RKey r, the (e r))) (List.rev ?good)))"
      using d by (simp add: comp_def rev_map flip: rev_map)
    ultimately show ?thesis using Some by (simp add: map_of_is_SomeI)
  qed
  with fu show "map_of (foldl (\<lambda>m r. AList.update (rc_RKey r) (the (e r)) m) [] ?good) k = Option.bind (get k) e" by simp
qed

text \<open>
  What the rebuild of a provider state comes to: the graph is sound, every message is backed by a
  blob that verifies, and every folder can be numbered.
\<close>

definition sql_numbers :: "(bytes \<Rightarrow> bytes \<Rightarrow> Record option) \<Rightarrow> bool" where
  "sql_numbers get \<longleftrightarrow> (\<forall>k fo. folder_at get k = Some fo \<longrightarrow> sql_integer (fr_Revision fo))
     \<and> (\<forall>k m. message_at get k = Some m \<longrightarrow> sql_integer (pi_ModSeq (dm_projection m)))"

definition projectable :: "'s Repository \<Rightarrow> Target \<Rightarrow> 's \<Rightarrow> (bytes \<Rightarrow> bytes \<Rightarrow> Record option) \<Rightarrow> decodedMessage list \<Rightarrow> bool" where
  "projectable repo target s get items \<longleftrightarrow> graph_sound get \<and> graph_items get items
     \<and> list_all (message_verified repo target s) items
     \<and> (\<forall>f. distinct (preserved_uids (live_in f items)) \<and> length (live_in f items) < 2 ^ 32)"

definition projection_of ::
  "'s Repository \<Rightarrow> Target \<Rightarrow> 's \<Rightarrow> (bytes \<Rightarrow> bytes \<Rightarrow> Record option) \<Rightarrow> decodedMessage list \<Rightarrow> Tables \<Rightarrow> bool" where
  "projection_of repo target s get items t \<longleftrightarrow>
     (\<exists>folders ids. distinct (keys folders) \<and> map_of folders = folder_at get
        \<and> (\<forall>f. folder_allocated folders f (live_in f items) ids)
        \<and> t = \<lparr>tb_meta = [target], tb_folders = map folder_row_of folders,
               tb_messages = map (\<lambda>m. message_row_of m (raw_of repo target s m)) (live_items items),
               tb_memberships = membership_rows folders ids items\<rparr>)"

lemma mismatches_sorted_Nil [simp]: "sortMismatches ms = [] \<longleftrightarrow> ms = []"
  unfolding sortMismatches_def by (metis length_0_conv length_sort)

lemma counted_all_fields:
  "pr_Mismatches (counted_all raw items r) = pr_Mismatches r \<and> pr_Messages (counted_all raw items r) = pr_Messages r
   \<and> pr_States (counted_all raw items r) = pr_States r \<and> pr_Folders (counted_all raw items r) = pr_Folders r
   \<and> pr_TotalBytes (counted_all raw items r) = pr_TotalBytes r + (\<Sum>m\<leftarrow>items. int (length (raw m)))
   \<and> pr_Tombstones (counted_all raw items r) = pr_Tombstones r + length (filter (\<lambda>m. ms_Tombstone (dm_state m)) items)"
  unfolding counted_all_def by (induction items arbitrary: r) (auto simp: counted_def)


lemma lists_all_entries:
  assumes "lists get rs" and "\<And>k r. get k = Some r \<Longrightarrow> rc_RKey r = k"
  shows "(\<forall>r \<in> set rs. e r \<noteq> None) \<longleftrightarrow> (\<forall>k. Option.bind (get k) e = None \<longleftrightarrow> get k = None)"
proof
  assume all: "\<forall>r \<in> set rs. e r \<noteq> None"
  show "\<forall>k. Option.bind (get k) e = None \<longleftrightarrow> get k = None"
  proof
    fix k
    show "Option.bind (get k) e = None \<longleftrightarrow> get k = None"
    proof (cases "get k")
      case (Some r)
      with assms have "r \<in> set rs" by (auto simp: lists_def)
      with all Some show ?thesis by auto
    qed simp
  qed
next
  assume "\<forall>k. Option.bind (get k) e = None \<longleftrightarrow> get k = None"
  then show "\<forall>r \<in> set rs. e r \<noteq> None"
    using lists_rkey[OF assms(1)] by (metis bind.bind_lunit option.distinct(1))
qed

lemma state_entry_ids:
  "state_entry folder r = Some st \<Longrightarrow> distinct (elems (ms_MailboxIDs st)) \<and> list_all (\<lambda>f. folder f \<noteq> None) (elems (ms_MailboxIDs st))"
  by (auto simp: state_entry_def Let_def split: option.splits if_splits)

lemma message_entry_fields:
  "message_entry state r = Some m \<Longrightarrow> dm_record m = r \<and> dm_rkey m = rc_RKey r \<and> state (rc_RKey r) = Some (dm_state m)"
  by (auto simp: message_entry_def dm_rkey_def split: option.splits)

text \<open>The messages read from a listing are the messages of the view.\<close>

lemma listed_items:
  assumes l: "lists (get MessageCollection) rs" and key: "\<And>k r. get MessageCollection k = Some r \<Longrightarrow> rc_RKey r = k"
  defines "items \<equiv> map (\<lambda>r. the (message_entry (state_at get) r)) (filter (\<lambda>r. message_entry (state_at get) r \<noteq> None) rs)"
  shows "graph_items get (sort_items items)" and "distinct (map dm_rkey items)"
    and "map dm_rkey items = map rc_RKey (filter (\<lambda>r. message_entry (state_at get) r \<noteq> None) rs)"
proof -
  let ?good = "filter (\<lambda>r. message_entry (state_at get) r \<noteq> None) rs"
  show keys: "map dm_rkey items = map rc_RKey ?good"
    unfolding items_def by (auto dest: message_entry_fields)
  have "distinct (map rc_RKey ?good)" using l by (auto simp: lists_def distinct_map inj_on_def)
  then show d: "distinct (map dm_rkey items)" using keys by simp
  have "m \<in> set items \<longleftrightarrow> message_at get (dm_rkey m) = Some m" for m
  proof
    assume "m \<in> set items"
    then obtain r where r: "r \<in> set rs" "message_entry (state_at get) r = Some m" by (auto simp: items_def)
    with lists_rkey[OF l r(1)] message_entry_fields[OF r(2)] show "message_at get (dm_rkey m) = Some m"
      by (simp add: message_at_def)
  next
    assume "message_at get (dm_rkey m) = Some m"
    then obtain r where r: "get MessageCollection (dm_rkey m) = Some r" "message_entry (state_at get) r = Some m"
      by (auto simp: message_at_def bind_eq_Some_conv)
    with key l have "r \<in> set rs" by (auto simp: lists_def)
    with r(2) show "m \<in> set items" by (force simp: items_def)
  qed
  with d show "graph_items get (sort_items items)"
    by (simp add: graph_items_def sort_items_perm) (simp add: sort_items_def)
qed

lemma after_report: "after (report f) g (b, s) = g () (b\<lparr>rb_report := f (rb_report b)\<rparr>, s)"
  by (simp add: report_def adjust_def after_def)

lemma after_list:
  fixes m :: "(rebuild \<times> 's, 'a) op"
  assumes "\<And>b. m (b, s) = (Inr x, (b, s))"
  shows "after m g (b, s) = g x (b, s)"
  using assms by (simp add: after_def)

text \<open>What the three loops make of listings of a view whose records carry their keys.\<close>

definition keyed :: "(bytes \<Rightarrow> bytes \<Rightarrow> Record option) \<Rightarrow> bool" where
  "keyed get \<longleftrightarrow> (\<forall>c k r. get c k = Some r \<longrightarrow> rc_RKey r = k)"

lemma keyedD: "keyed get \<Longrightarrow> get c k = Some r \<Longrightarrow> rc_RKey r = k"
  by (simp add: keyed_def)

lemma read_folders_view:
  assumes k: "keyed get" and l: "lists (get FolderCollection) rs" and rf: "read_folders rs ([], []) = (folders, bad)"
  shows "map_of folders = folder_at get" and "folders_named folders"
    and "bad = [] \<longleftrightarrow> (\<forall>k. folder_at get k = None \<longleftrightarrow> get FolderCollection k = None)"
proof -
  note key = keyedD[OF k, of FolderCollection]
  show m: "map_of folders = folder_at get"
    using rf lists_filter_map(1)[OF l key, where e = folder_entry] unfolding read_folders_spec folder_at_def fun_eq_iff by auto
  have "distinct (keys folders)"
    using rf lists_filter_map(2)[OF l key, where e = folder_entry] unfolding read_folders_spec by auto
  then show "folders_named folders"
    unfolding folders_named_def m using key
    by (auto simp: folder_at_def folder_entry_def bind_eq_Some_conv split: option.splits if_splits)
  have "bad = [] \<longleftrightarrow> (\<forall>r \<in> set rs. folder_entry r \<noteq> None)"
    using rf unfolding read_folders_spec by (auto simp: filter_empty_conv)
  also have "\<dots> \<longleftrightarrow> (\<forall>k. folder_at get k = None \<longleftrightarrow> get FolderCollection k = None)"
    unfolding folder_at_def by (rule lists_all_entries[OF l key])
  finally show "bad = [] \<longleftrightarrow> (\<forall>k. folder_at get k = None \<longleftrightarrow> get FolderCollection k = None)" .
qed

lemma read_states_view:
  assumes k: "keyed get" and l: "lists (get MessageStateCollection) rs" and m: "map_of folders = folder_at get"
    and rs: "read_states folders rs ([], []) = (states, bad)"
  shows "map_of states = state_at get"
    and "bad = [] \<longleftrightarrow> (\<forall>k. state_at get k = None \<longleftrightarrow> get MessageStateCollection k = None)"
proof -
  note key = keyedD[OF k, of MessageStateCollection]
  from read_states_spec[of folders rs "[]" "[]"] rs
  have st: "states = foldl (\<lambda>m r. AList.update (rc_RKey r) (the (state_entry (folder_at get) r)) m) []
        (filter (\<lambda>r. state_entry (folder_at get) r \<noteq> None) rs)"
    and b: "bad = [] \<longleftrightarrow> (\<forall>r \<in> set rs. state_entry (folder_at get) r \<noteq> None)"
    unfolding m by auto
  show "map_of states = state_at get"
    using lists_filter_map(1)[OF l key, where e = "state_entry (folder_at get)"] unfolding st state_at_def fun_eq_iff by auto
  show "bad = [] \<longleftrightarrow> (\<forall>k. state_at get k = None \<longleftrightarrow> get MessageStateCollection k = None)"
    unfolding b state_at_def by (rule lists_all_entries[OF l key])
qed

lemma message_at_keys:
  assumes "keyed get" and "graph_items get items"
  shows "k \<in> dm_rkey ` set items \<longleftrightarrow> message_at get k \<noteq> None"
proof
  assume "k \<in> dm_rkey ` set items"
  then obtain m where "m \<in> set items" "k = dm_rkey m" by blast
  with assms(2) show "message_at get k \<noteq> None" by (simp add: graph_items_def)
next
  assume "message_at get k \<noteq> None"
  then obtain m r where m: "message_at get k = Some m" and r: "get MessageCollection k = Some r"
    "message_entry (state_at get) r = Some m" by (auto simp: message_at_def bind_eq_Some_conv)
  from message_entry_fields[OF r(2)] keyedD[OF assms(1) r(1)] have k: "dm_rkey m = k" by simp
  with m assms(2) have "m \<in> set items" by (simp add: graph_items_def)
  with k show "k \<in> dm_rkey ` set items" by blast
qed

lemma read_messages_view:
  assumes k: "keyed get" and l: "lists (get MessageCollection) rs" and m: "map_of states = state_at get"
    and rm: "read_messages states rs ([], [], []) = (messages, seen, bad)"
  shows "graph_items get (sort_items messages)" and "distinct (map dm_rkey messages)"
    and "bad = [] \<longleftrightarrow> (\<forall>k. message_at get k = None \<longleftrightarrow> get MessageCollection k = None)"
    and "bad = [] \<Longrightarrow> length messages = length rs"
    and "orphan_states states seen = [] \<longleftrightarrow> (\<forall>k. state_at get k \<noteq> None \<longrightarrow> message_at get k \<noteq> None)"
proof -
  note key = keyedD[OF k, of MessageCollection]
  let ?good = "filter (\<lambda>r. message_entry (state_at get) r \<noteq> None) rs"
  from read_messages_spec[of states rs "[]" "[]" "[]"] rm
  have messages: "messages = map (\<lambda>r. the (message_entry (state_at get) r)) ?good"
    and seen: "set seen = rc_RKey ` set ?good"
    and b: "bad = [] \<longleftrightarrow> (\<forall>r \<in> set rs. message_entry (state_at get) r \<noteq> None)"
    unfolding m by auto
  note items = listed_items[where get = get, OF l key, folded messages]
  show "graph_items get (sort_items messages)" "distinct (map dm_rkey messages)" using items(1,2) by simp_all
  show "bad = [] \<longleftrightarrow> (\<forall>k. message_at get k = None \<longleftrightarrow> get MessageCollection k = None)"
    unfolding b message_at_def by (rule lists_all_entries[OF l key])
  show "length messages = length rs" if "bad = []"
    using that b unfolding messages by (simp add: filter_id_conv[THEN iffD2])
  have at: "k \<in> set seen \<longleftrightarrow> message_at get k \<noteq> None" for k
    using message_at_keys[OF k items(1), of k] seen arg_cong[OF items(3), of set] by (simp add: sort_items_perm)
  have "orphan_states states seen = [] \<longleftrightarrow> (\<forall>k. map_of states k \<noteq> None \<longrightarrow> k \<in> set seen)"
    unfolding orphan_states_def map_is_Nil_conv filter_empty_conv using map_of_eq_None_iff[of states] by auto
  then show "orphan_states states seen = [] \<longleftrightarrow> (\<forall>k. state_at get k \<noteq> None \<longrightarrow> message_at get k \<noteq> None)"
    unfolding m at .
qed

text \<open>Messages of a sound graph lie in known folders, and there are as many states as messages.\<close>

lemma graph_items_placed:
  assumes "graph_items get (sort_items messages)" and "distinct (map dm_rkey messages)" and "map_of folders = folder_at get"
  shows "placed folders messages"
  unfolding placed_def
proof (intro conjI ballI assms(2))
  fix m assume "m \<in> set messages"
  then have "message_at get (dm_rkey m) = Some m" using assms(1) by (simp add: graph_items_def sort_items_perm)
  then obtain r where "state_entry (folder_at get) r = Some (dm_state m)"
    by (auto simp: message_at_def state_at_def bind_eq_Some_conv dest!: message_entry_fields)
  from state_entry_ids[OF this] show "distinct (dm_ids m)" "\<And>f. f \<in> set (dm_ids m) \<Longrightarrow> map_of folders f \<noteq> None"
    by (auto simp: dm_ids_def assms(3) list_all_iff)
qed

lemma states_count:
  assumes k: "keyed get" and sound: "graph_sound get" and l: "lists (get MessageStateCollection) srs"
    and items: "graph_items get (sort_items messages)" "distinct (map dm_rkey messages)"
  shows "length srs = length messages"
proof -
  have listed: "k \<in> rc_RKey ` set srs \<longleftrightarrow> get MessageStateCollection k \<noteq> None" for k
  proof
    assume "k \<in> rc_RKey ` set srs"
    then obtain r where "r \<in> set srs" "k = rc_RKey r" by blast
    with l show "get MessageStateCollection k \<noteq> None" by (simp add: lists_def)
  next
    assume "get MessageStateCollection k \<noteq> None"
    then obtain r where r: "get MessageStateCollection k = Some r" by auto
    with keyedD[OF k r] l show "k \<in> rc_RKey ` set srs" by (auto simp: lists_def)
  qed
  have "state_at get k' \<noteq> None" if "message_at get k' = Some m" for k' m
  proof -
    from that obtain r where r: "get MessageCollection k' = Some r" "message_entry (state_at get) r = Some m"
      by (auto simp: message_at_def bind_eq_Some_conv)
    with message_entry_fields[OF r(2)] keyedD[OF k r(1)] show ?thesis by simp
  qed
  with sound have "get MessageStateCollection k' \<noteq> None \<longleftrightarrow> message_at get k' \<noteq> None" for k'
    unfolding graph_sound_def by (metis option.exhaust)
  then have "set (map rc_RKey srs) = set (map dm_rkey messages)"
    using listed message_at_keys[OF k items(1)] by (auto simp: set_eq_iff sort_items_perm)
  then have "card (set (map rc_RKey srs)) = card (set (map dm_rkey messages))" by simp
  with l items(2) show ?thesis unfolding lists_def by (simp only: distinct_card length_map)
qed

context listing_repository
begin

lemma on_list:
  assumes "inv s"
  obtains rs where "\<And>b :: rebuild. on_repo (rp_ListRecords repo target c) (b, s) = (Inr rs, (b, s))" and "lists (view s c) rs"
  using list_records[OF assms, of c] by (auto simp: on_repo_def)

lemma read_graph_run:
  assumes s: "inv s" and clean: "pr_Mismatches (rb_report b) = []"
  shows "\<exists>b'. rb_files b' = rb_files b \<and> rb_manifest b' = rb_manifest b
    \<and> (if graph_sound (view s)
       then \<exists>folders messages n. read_graph repo target (b, s) = (Inr (folders, messages), (b', s))
          \<and> folders_named folders \<and> map_of folders = folder_at (view s) \<and> placed folders messages
          \<and> graph_items (view s) (sort_items messages)
          \<and> rb_report b' = (rb_report b)\<lparr>pr_Folders := n, pr_States := length messages, pr_Messages := length messages\<rparr>
       else \<exists>e. read_graph repo target (b, s) = (Inl e, (b', s)))"
proof -
  obtain frs where frs: "\<And>b :: rebuild. on_repo (rp_ListRecords repo target FolderCollection) (b, s) = (Inr frs, (b, s))"
    "lists (view s FolderCollection) frs" using on_list[OF s] by blast
  obtain srs where srs: "\<And>b :: rebuild. on_repo (rp_ListRecords repo target MessageStateCollection) (b, s) = (Inr srs, (b, s))"
    "lists (view s MessageStateCollection) srs" using on_list[OF s] by blast
  obtain mrs where mrs: "\<And>b :: rebuild. on_repo (rp_ListRecords repo target MessageCollection) (b, s) = (Inr mrs, (b, s))"
    "lists (view s MessageCollection) mrs" using on_list[OF s] by blast
  have k: "keyed (view s)" using view_rkey[OF s] by (simp add: keyed_def)
  obtain folders fb where rf: "read_folders frs ([], []) = (folders, fb)" by (cases "read_folders frs ([], [])")
  note F = read_folders_view[OF k frs(2) rf]
  obtain states sb where rs: "read_states folders srs ([], []) = (states, sb)" by (cases "read_states folders srs ([], [])")
  note S = read_states_view[OF k srs(2) F(1) rs]
  obtain messages seen mb where rm: "read_messages states mrs ([], [], []) = (messages, seen, mb)"
    by (cases "read_messages states mrs ([], [], [])")
  note M = read_messages_view[OF k mrs(2) S(1) rm]
  let ?ms = "fb @ sb @ mb @ orphan_states states seen"
  let ?r = "(rb_report b)\<lparr>pr_Folders := length frs, pr_States := length srs, pr_Messages := length mrs,
      pr_Mismatches := sortMismatches ?ms\<rparr>"
  have gc: "graph_consistent (b, s) = (if pr_Mismatches (rb_report b) = [] then Inr () else Inl ErrIntegrity,
      (b\<lparr>rb_report := (rb_report b)\<lparr>pr_Mismatches := sortMismatches (pr_Mismatches (rb_report b))\<rparr>\<rparr>, s))" for b
    by (simp add: graph_consistent_def after_report)
  have run: "read_graph repo target (b, s) = (if ?ms = [] then Inr (folders, messages) else Inl ErrIntegrity, (b\<lparr>rb_report := ?r\<rparr>, s))"
    unfolding read_graph_def after_list[OF frs(1)] rf prod.case add_mismatches_def after_report after_list[OF srs(1)] rs
      after_list[OF mrs(1)] rm
    by (simp add: after_def gc clean give_def)
  have sound: "?ms = [] \<longleftrightarrow> graph_sound (view s)"
    unfolding graph_sound_def using F(3) S(2) M(3,5) by simp
  show ?thesis
  proof (cases "graph_sound (view s)")
    case False
    with sound run show ?thesis by (intro exI[of _ "b\<lparr>rb_report := ?r\<rparr>"]) auto
  next
    case True
    with sound have "length mrs = length messages" "sortMismatches ?ms = []" using M(4) by auto
    moreover have "read_graph repo target (b, s) = (Inr (folders, messages), (b\<lparr>rb_report := ?r\<rparr>, s))"
      using True sound run by simp
    ultimately show ?thesis
      using True F(1,2) M(1) clean graph_items_placed[OF M(1,2) F(1)] states_count[OF k True srs(2) M(1,2)]
      by (intro exI[of _ "b\<lparr>rb_report := ?r\<rparr>"]) (auto intro!: exI[of _ folders] exI[of _ messages] exI[of _ "length frs"])
  qed
qed

end

lemma remove_file_run:
  "remove_file faults p (b, s) = (Inr (), (if faults (RemoveFile p) = None then b\<lparr>rb_files := AList.delete p (rb_files b)\<rparr> else b, s))"
  by (auto simp: remove_file_def db_def attempt_def raise_def give_def adjust_def after_def split: option.splits)

text \<open>The clean-up removes what it can and never fails.\<close>

lemma discard_files_run:
  "\<exists>b'. discard_files faults ps (b, s) = (Inr (), (b', s))
     \<and> (\<forall>q. map_of (rb_files b') q = (if q \<in> set ps \<and> faults (RemoveFile q) = None then None else map_of (rb_files b) q))"
proof (induction ps arbitrary: b)
  case Nil
  then show ?case by (simp add: discard_files_def give_def)
next
  case (Cons p ps)
  let ?b = "if faults (RemoveFile p) = None then b\<lparr>rb_files := AList.delete p (rb_files b)\<rparr> else b"
  from Cons[of ?b] obtain b' where "discard_files faults ps (?b, s) = (Inr (), (b', s))"
    "\<forall>q. map_of (rb_files b') q = (if q \<in> set ps \<and> faults (RemoveFile q) = None then None else map_of (rb_files ?b) q)" by blast
  moreover have "discard_files faults (p # ps) (b, s) = discard_files faults ps (?b, s)"
    by (simp add: discard_files_def after_def remove_file_run)
  ultimately show ?case by (intro exI[of _ b']) auto
qed

lemma or_discard_run:
  "or_discard faults ps m x =
     (case m x of (Inr _, y) \<Rightarrow> (Inr (), y) | (Inl e, y) \<Rightarrow> (Inl e, snd (discard_files faults ps y)))"
proof -
  obtain r b s where m: "m x = (r, (b, s))" by (metis prod.exhaust)
  obtain b' where "discard_files faults ps (b, s) = (Inr (), (b', s))"
    using discard_files_run[of faults ps b s] by blast
  with m show ?thesis
    by (cases r) (simp_all add: or_discard_def after_def attempt_def give_def raise_def)
qed

context listing_repository
begin

lemma Rebuild_decides:
  assumes s: "inv s" and valid: "ValidateFor sx target (tg_RepoDID target) = Inr ()"
    and absolute: "has_prefix dest ''/''" and fresh: "map_of files dest = None" and numbers: "sql_numbers (view s)"
  shows "case Rebuild no_faults sx (Some repo) target dest files s of
      (Inl e, _) \<Rightarrow> \<forall>items. \<not> projectable repo target s (view s) items
    | (Inr _, (b, s')) \<Rightarrow> s' = s \<and> (\<exists>items t. projectable repo target s (view s) items
        \<and> projection_of repo target s (view s) items t \<and> map_of (rb_files b) = (map_of files)(dest \<mapsto> t)
        \<and> projection_Passed (rb_report b) \<and> pr_Messages (rb_report b) = length items
        \<and> pr_Tombstones (rb_report b) = length (filter (\<lambda>m. ms_Tombstone (dm_state m)) items)
        \<and> pr_TotalBytes (rb_report b) = (\<Sum>m\<leftarrow>items. int (length (raw_of repo target s m))))"
proof -
  let ?b0 = "\<lparr>rb_report = new_projection_report 1 target, rb_files = files, rb_tx = no_tables, rb_manifest = []\<rparr>"
  let ?ps = "[dest, dest @ ''-wal'', dest @ ''-shm'']"
  have start: "Rebuild no_faults sx (Some repo) target dest files s
    = after (read_graph repo target) (\<lambda>(folders, messages).
        or_discard no_faults ?ps (fill_database no_faults repo target dest folders messages)) (?b0, s)"
    using valid absolute fresh by (simp add: Rebuild_def Let_def refuse_existing_def after_def returning_def give_def split_beta)
  have clean: "pr_Mismatches (rb_report ?b0) = []" by (simp add: new_projection_report_def)
  from read_graph_run[OF s clean] obtain b1 where b1: "rb_files b1 = files" "rb_manifest b1 = []"
    and graph: "if graph_sound (view s)
       then \<exists>folders messages n. read_graph repo target (?b0, s) = (Inr (folders, messages), (b1, s))
          \<and> folders_named folders \<and> map_of folders = folder_at (view s) \<and> placed folders messages
          \<and> graph_items (view s) (sort_items messages)
          \<and> rb_report b1 = (new_projection_report 1 target)\<lparr>pr_Folders := n, pr_States := length messages, pr_Messages := length messages\<rparr>
       else \<exists>e. read_graph repo target (?b0, s) = (Inl e, (b1, s))"
    unfolding rebuild.select_convs by blast
  show ?thesis
  proof (cases "graph_sound (view s)")
    case False
    with graph start show ?thesis by (auto simp: projectable_def)
  next
    case True
    with graph obtain folders messages n where g: "read_graph repo target (?b0, s) = (Inr (folders, messages), (b1, s))"
      and named: "folders_named folders" "map_of folders = folder_at (view s)" and placed: "placed folders messages"
      and items: "graph_items (view s) (sort_items messages)"
      and rep: "rb_report b1 = (new_projection_report 1 target)\<lparr>pr_Folders := n, pr_States := length messages, pr_Messages := length messages\<rparr>"
      by auto
    let ?items = "sort_items messages"
    have only: "its = ?items" if "projectable repo target s (view s) its" for its
      using graph_items_unique[OF _ items] that by (simp add: projectable_def)
    have run: "Rebuild no_faults sx (Some repo) target dest files s
      = or_discard no_faults ?ps (fill_database no_faults repo target dest folders messages) (b1, s)"
      unfolding start using g by (simp add: after_def)
    have alloc: "distinct (map dm_rkey ?items)" "\<forall>m \<in> set ?items. distinct (dm_ids m)"
      using placed by (auto simp: placed_def sort_items_perm)
    have pure: "snd (rp_GetBlob repo target cid s) = s" for cid using blob_pure[OF s] .
    have "sql_sized folders messages"
      using numbers named items unfolding sql_sized_def sql_numbers_def folders_named_def graph_items_def sort_items_perm
      by (metis map_of_eq_Some_iff prod.collapse)
    note fill = fill_database_run[OF pure named(1) placed this, of dest b1]
    consider (unnumbered) e where "allocateProjectionIdentities ?items folders = Inl e"
      | (unverified) ids where "allocateProjectionIdentities ?items folders = Inr ids" "\<not> list_all (message_verified repo target s) ?items"
      | (ok) ids where "allocateProjectionIdentities ?items folders = Inr ids" "list_all (message_verified repo target s) ?items"
      by (cases "allocateProjectionIdentities ?items folders") auto
    then show ?thesis
    proof cases
      case unnumbered
      with fill obtain e' y where "fill_database no_faults repo target dest folders messages (b1, s) = (Inl e', y)" by auto
      moreover from unnumbered allocate_spec[OF alloc, of folders] have "\<not> projectable repo target s (view s) ?items"
        by (auto simp: projectable_def not_less)
      ultimately show ?thesis using only run by (auto simp: or_discard_run)
    next
      case unverified
      with fill obtain e' y where "fill_database no_faults repo target dest folders messages (b1, s) = (Inl e', y)" by auto
      with unverified only run show ?thesis by (auto simp: or_discard_run projectable_def)
    next
      case ok
      let ?t = "projection_tables repo target s folders ids ?items"
      from ok fill obtain b where b: "fill_database no_faults repo target dest folders messages (b1, s) = (Inr (), (b, s))"
        "map_of (rb_files b) = (map_of files)(dest \<mapsto> ?t)"
        "rb_report b = (counted_all (raw_of repo target s) ?items (rb_report b1))
              \<lparr>pr_ManifestSHA256 := hex_encode (sha256 (concat (map manifest_bytes ?items)))\<rparr>"
        using b1 by auto
      from ok(1) allocate_spec[OF alloc, of folders] have num: "\<forall>f. distinct (preserved_uids (live_in f ?items))
          \<and> length (live_in f ?items) < 2 ^ 32 \<and> folder_allocated folders f (live_in f ?items) ids" by simp
      then have p: "projectable repo target s (view s) ?items"
        using True items ok(2) by (simp add: projectable_def)
      have "projection_of repo target s (view s) ?items ?t"
        unfolding projection_of_def using named num
        by (intro exI[of _ folders] exI[of _ ids])
          (simp add: folders_named_def projection_tables_def filled_def base_tables_def no_tables_def)
      moreover have "hex_encode (sha256 (concat (map manifest_bytes ?items))) \<noteq> []"
        using length_hex_encode[of "sha256 (concat (map manifest_bytes ?items))"] by (auto simp del: length_hex_encode)
      ultimately show ?thesis
        using p b rep run counted_all_fields[of "raw_of repo target s" ?items "rb_report b1"]
        by (auto simp: or_discard_run projection_Passed_def new_projection_report_def sort_items_perm intro!: exI[of _ ?items] exI[of _ ?t])
    qed
  qed
qed

end

section \<open>What a rebuild does to the files\<close>

text \<open>Only the destination changes, and it does not disappear.\<close>

definition only_dest :: "bytes \<Rightarrow> rebuild \<times> 's \<Rightarrow> rebuild \<times> 's \<Rightarrow> bool" where
  "only_dest dest x y \<longleftrightarrow>
     (\<forall>p. p \<noteq> dest \<longrightarrow> map_of (rb_files (fst y)) p = map_of (rb_files (fst x)) p)
     \<and> (map_of (rb_files (fst x)) dest \<noteq> None \<longrightarrow> map_of (rb_files (fst y)) dest \<noteq> None)"

definition same_files :: "rebuild \<times> 's \<Rightarrow> rebuild \<times> 's \<Rightarrow> bool" where
  "same_files x y \<longleftrightarrow> rb_files (fst y) = rb_files (fst x)"

lemma files_orders [keeps_intros]:
  "reflp (only_dest dest)" "transp (only_dest dest)" "reflp same_files" "transp same_files"
  by (auto simp: only_dest_def same_files_def intro!: reflpI transpI)

lemma keeps_weaken: "keeps same_files m \<Longrightarrow> keeps (only_dest dest) m"
  by (simp add: keeps_def same_files_def only_dest_def)

lemma keeps_db [keeps_intros]: "reflp R \<Longrightarrow> keeps R (db faults step)"
  unfolding db_def by (auto intro: keeps_basic split: option.split)

lemma same_files_steps:
  "keeps same_files (on_repo m)" "keeps same_files (report f)" "keeps same_files (insert_row step adm add faults)"
  "(\<And>b. rb_files (h b) = rb_files b) \<Longrightarrow> keeps same_files (adjust h)" "keeps same_files (refuse_existing faults p)"
  by (auto simp: keeps_def same_files_def on_repo_def report_def adjust_def insert_row_def refuse_existing_def
      after_def db_def raise_def give_def split: prod.splits option.splits)

lemma same_files_inserts:
  "keeps same_files (insert_folders faults fs)" "keeps same_files (project_messages faults repo target fo ids ms)"
proof -
  show "keeps same_files (insert_folders faults fs)"
    by (induction fs rule: insert_folders.induct) (auto intro!: keeps_intros same_files_steps simp: insert_folder_def)
  have "keeps same_files (insert_memberships faults fo ids m fs)" for m fs
    by (induction fs) (auto intro!: keeps_intros same_files_steps simp: insert_membership_def)
  then have "keeps same_files (project_message faults repo target fo ids m)" for m
    unfolding project_message_def by (auto intro!: keeps_intros same_files_steps simp: insert_message_def)
  then show "keeps same_files (project_messages faults repo target fo ids ms)"
    by (induction ms) (auto intro!: keeps_intros)
qed

lemma same_files_graph: "keeps same_files (read_graph repo target)"
proof -
  have "keeps same_files graph_consistent"
    by (auto simp: keeps_def graph_consistent_def same_files_def after_report)
  then show ?thesis
    unfolding read_graph_def add_mismatches_def
    by (auto intro!: keeps_intros same_files_steps split: prod.split)
qed

lemma only_dest_puts: "keeps (only_dest dest) (put_file dest t)" "keeps (only_dest dest) (commit_tx faults dest)"
proof -
  have upd: "keeps (only_dest dest) (adjust (\<lambda>b. b\<lparr>rb_files := AList.update dest (h b) (rb_files b)\<rparr>))" for h :: "rebuild \<Rightarrow> Tables"
    by (auto simp: keeps_def only_dest_def adjust_def)
  show "keeps (only_dest dest) (put_file dest t)" unfolding put_file_def by (rule upd)
  show "keeps (only_dest dest) (commit_tx faults dest)" unfolding commit_tx_def by (intro keeps_intros upd)
qed

text \<open>From the moment the schema is there, filling the database keeps the destination.\<close>

lemma fill_database_files:
  fixes b :: rebuild and s :: 's
  shows "only_dest dest (b, s) (snd (fill_database faults repo target dest fo ms (b, s)))"
    and "fst (fill_database faults repo target dest fo ms (b, s)) = Inr () \<Longrightarrow>
      map_of (rb_files (fst (snd (fill_database faults repo target dest fo ms (b, s))))) dest \<noteq> None"
proof -
  note steps = keeps_intros only_dest_puts same_files_inserts[THEN keeps_weaken] same_files_steps[THEN keeps_weaken]
  let ?rest = "after (begin_tx faults dest) (\<lambda>_. after (insert_folders faults fo) (\<lambda>_. let items = sort_items ms in
     after (returning (allocateProjectionIdentities items fo)) (\<lambda>ids.
     after (project_messages faults repo target fo ids items) (\<lambda>_.
     after (commit_tx faults dest) (\<lambda>_.
     after (db faults CloseDatabase) (\<lambda>_.
     after (db faults ChmodFile) (\<lambda>_. \<lambda>(b, s).
       (Inr (), (b\<lparr>rb_report := (rb_report b)\<lparr>pr_ManifestSHA256 := hex_encode (sha256 (rb_manifest b))\<rparr>\<rparr>, s)))))))))"
  have finish: "keeps (only_dest dest) (\<lambda>(b, s).
       (Inr (), (b\<lparr>rb_report := (rb_report b)\<lparr>pr_ManifestSHA256 := hex_encode (sha256 (rb_manifest b))\<rparr>\<rparr>, s)))"
    by (auto simp: keeps_def only_dest_def)
  have rest: "keeps (only_dest dest) ?rest"
    unfolding begin_tx_def Let_def by (intro steps finish) simp
  have schema: "keeps (only_dest dest) (createSchema faults dest target :: (rebuild \<times> 's, unit) op)"
    unfolding createSchema_def by (intro steps)
  have fill: "fill_database faults repo target dest fo ms = after (createSchema faults dest target) (\<lambda>_. ?rest)"
    by (simp add: fill_database_def)
  have "keeps (only_dest dest) (fill_database faults repo target dest fo ms)"
    unfolding fill by (intro keeps_intros schema rest)
  then show "only_dest dest (b, s) (snd (fill_database faults repo target dest fo ms (b, s)))"
    by (simp add: keeps_def)
  assume "fst (fill_database faults repo target dest fo ms (b, s)) = Inr ()"
  then obtain y where y: "createSchema faults dest target (b, s) = (Inr (), y)"
    unfolding fill by (auto simp: after_def split: prod.splits sum.splits)
  then have "map_of (rb_files (fst y)) dest \<noteq> None"
    by (auto simp: createSchema_def after_def db_def put_file_def adjust_def raise_def give_def split: option.splits)
  moreover have "only_dest dest y (snd (?rest y))" using rest unfolding keeps_def by blast
  moreover have "fill_database faults repo target dest fo ms (b, s) = ?rest y"
    unfolding fill using y by (subst after_def) simp
  ultimately show "map_of (rb_files (fst (snd (fill_database faults repo target dest fo ms (b, s))))) dest \<noteq> None"
    unfolding only_dest_def by metis
qed

lemma Rebuild_files:
  assumes "\<forall>p \<in> {dest, dest @ ''-wal'', dest @ ''-shm''}. faults (RemoveFile p) = None"
    and "Rebuild faults sx repo target dest files s = (r, (b, s'))"
  shows "(case r of
      Inl _ \<Rightarrow> \<forall>p. p \<noteq> dest @ ''-wal'' \<and> p \<noteq> dest @ ''-shm'' \<longrightarrow> map_of (rb_files b) p = map_of files p
    | Inr _ \<Rightarrow> map_of files dest = None \<and> (\<exists>t. map_of (rb_files b) = (map_of files)(dest \<mapsto> t)))"
proof -
  let ?b0 = "\<lparr>rb_report = new_projection_report 1 target, rb_files = files, rb_tx = no_tables, rb_manifest = []\<rparr>"
  let ?ps = "[dest, dest @ ''-wal'', dest @ ''-shm'']"
  show ?thesis
  proof (cases "\<exists>rp. repo = Some rp \<and> has_prefix dest ''/''")
    case False
    with assms(2) have "r \<noteq> Inr () \<and> b = ?b0" by (auto simp: Rebuild_def Let_def split: option.splits if_splits)
    then show ?thesis by (cases r) auto
  next
    case True
    then obtain rp where rp: "repo = Some rp" "has_prefix dest ''/''" by blast
    define pre where "pre = after (returning (ValidateFor sx target (tg_RepoDID target))) (\<lambda>_.
        after (refuse_existing faults dest) (\<lambda>_. after (read_graph rp target) (\<lambda>g. after (db faults MkdirAll) (\<lambda>_. give g))))"
    have run: "Rebuild faults sx repo target dest files s
      = after pre (\<lambda>(fo, ms). or_discard faults ?ps (fill_database faults rp target dest fo ms)) (?b0, s)"
      using rp unfolding Rebuild_def pre_def Let_def
      by (auto simp: after_def give_def split: prod.splits sum.splits)
    have "keeps same_files pre"
      unfolding pre_def by (intro keeps_intros same_files_steps same_files_graph)
    then obtain x b1 s1 where p: "pre (?b0, s) = (x, (b1, s1))" "rb_files b1 = files"
      unfolding keeps_def same_files_def by (metis fst_conv prod.exhaust rebuild.select_convs(2) snd_conv)
    show ?thesis
    proof (cases x)
      case (Inl e)
      with assms(2) p run show ?thesis by (auto simp: after_def)
    next
      case (Inr g)
      obtain fo ms where g: "g = (fo, ms)" by (cases g)
      have none: "map_of files dest = None"
        using p(1) Inr by (auto simp: pre_def after_def refuse_existing_def returning_def db_def raise_def give_def
          split: prod.splits sum.splits option.splits if_splits)
      obtain y b2 s2 where f: "fill_database faults rp target dest fo ms (b1, s1) = (y, (b2, s2))" by (metis prod.exhaust)
      note files = fill_database_files[where dest = dest and b = b1 and s = s1 and faults = faults and repo = rp and target = target and fo = fo and ms = ms, unfolded f fst_conv snd_conv]
      have out: "or_discard faults ?ps (fill_database faults rp target dest fo ms) (b1, s1) = (r, (b, s'))"
        using assms(2) p run Inr g by (simp add: after_def)
      show ?thesis
      proof (cases y)
        case (Inl e)
        from discard_files_run[of faults ?ps b2 s2] obtain b3 where "discard_files faults ?ps (b2, s2) = (Inr (), (b3, s2))"
          "\<forall>q. map_of (rb_files b3) q = (if q \<in> set ?ps \<and> faults (RemoveFile q) = None then None else map_of (rb_files b2) q)" by blast
        with out f Inl files(1) none p(2) assms(1) show ?thesis by (auto simp: or_discard_run only_dest_def)
      next
        case (Inr u)
        with out f have b: "r = Inr ()" "b = b2" by (auto simp: or_discard_run)
        from files Inr obtain t where "map_of (rb_files b2) dest = Some t" by auto
        with files(1) p(2) have "map_of (rb_files b2) = (map_of files)(dest \<mapsto> t)" by (auto simp: only_dest_def fun_eq_iff)
        with b none show ?thesis by auto
      qed
    qed
  qed
qed

section \<open>Properties\<close>

text \<open>C17. Every message of a folder gets its own nonzero identifier, and the allocation fails only
  where that is impossible. For messages with different keys, each in different folders, the
  allocation of IMAP identifiers is refused exactly when two messages of one folder carry the
  same preserved identifier or a folder holds \<open>2\<^sup>3\<^sup>2\<close> messages or more (the 32-bit counter wraps to
  zero); otherwise, in every folder, the live messages have different nonzero identifiers, a
  message that carries an identifier keeps it (with a zero modification sequence set to one), and
  every other message gets the folder's validity and modification sequence one. The loops end.\<close>

theorem allocate_exact:
  assumes "distinct (map dm_rkey messages)" and "\<forall>m \<in> set messages. distinct (dm_ids m)"
  shows "case allocateProjectionIdentities messages folders of
      Inl e \<Rightarrow> e = ErrIntegrity
        \<and> (\<exists>f. \<not> distinct (preserved_uids (live_in f messages)) \<or> length (live_in f messages) \<ge> 2 ^ 32)
    | Inr ids \<Rightarrow> \<forall>f. distinct (preserved_uids (live_in f messages)) \<and> length (live_in f messages) < 2 ^ 32
        \<and> folder_allocated folders f (live_in f messages) ids"
  using assms by (rule allocate_spec)

text \<open>A rebuild is all or nothing. Whatever fails (a read of the provider, a statement, a system
  call), as long as the clean-up can remove the files it created: when a rebuild returns an error, every
  file is as before except possibly the two SQLite side files of the destination, which the clean-up
  removes; when it succeeds, the destination did not exist before, it is there now, and no other
  file has changed.\<close>

theorem Rebuild_all_or_nothing:
  assumes "\<forall>p \<in> {dest, dest @ ''-wal'', dest @ ''-shm''}. faults (RemoveFile p) = None"
    and "Rebuild faults sx repo target dest files s = (r, (b, s'))"
  shows "case r of
      Inl _ \<Rightarrow> \<forall>p. p \<noteq> dest @ ''-wal'' \<and> p \<noteq> dest @ ''-shm'' \<longrightarrow> map_of (rb_files b) p = map_of files p
    | Inr _ \<Rightarrow> map_of files dest = None \<and> (\<exists>t. map_of (rb_files b) = (map_of files)(dest \<mapsto> t))"
  using assms by (rule Rebuild_files)

text \<open>C16. A rebuild writes exactly the mailbox that the provider holds. For an authorised session and a
  destination that does not exist, when nothing outside fails and no folder revision or modification sequence
  needs the top bit of its 64 bits (which the database interface refuses): the rebuild succeeds if and only if
  the record graph is sound (no folder, state or message record is refused, every state belongs
  to a message), every referenced blob is there and verifies against its record, and the folders can
  be numbered; then the provider is unchanged, the report passes and counts the messages, the deletions and the bytes,
  and the new file holds one row per folder, one row per message that is not deleted with its verified
  bytes, and one row per membership, under different identifiers in each folder. No constraint of
  the schema is ever violated.\<close>

theorem Rebuild_exact:
  assumes "mem_session_inv s t b" and "ValidateFor sx t (tg_RepoDID t) = Inr ()"
    and "has_prefix dest ''/''" and "map_of files dest = None" and "sql_numbers (mem_view t b)"
  shows "case Rebuild no_faults sx (Some (memory_repo s)) t dest files b of
      (Inl e, _) \<Rightarrow> \<forall>items. \<not> projectable (memory_repo s) t b (mem_view t b) items
    | (Inr _, (rb, b')) \<Rightarrow> b' = b \<and> (\<exists>items tables. projectable (memory_repo s) t b (mem_view t b) items
        \<and> projection_of (memory_repo s) t b (mem_view t b) items tables
        \<and> map_of (rb_files rb) = (map_of files)(dest \<mapsto> tables)
        \<and> projection_Passed (rb_report rb) \<and> pr_Messages (rb_report rb) = length items
        \<and> pr_Tombstones (rb_report rb) = length (filter (\<lambda>m. ms_Tombstone (dm_state m)) items)
        \<and> pr_TotalBytes (rb_report rb) = (\<Sum>m\<leftarrow>items. int (length (raw_of (memory_repo s) t b m))))"
  using assms by (rule mem.Rebuild_decides)

section \<open>Concrete instances\<close>

definition demo_item :: "bytes \<Rightarrow> u32 \<Rightarrow> decodedMessage" where
  "demo_item k uid = \<lparr>dm_record = \<lparr>rc_URI = [], rc_Collection = [], rc_RKey = k, rc_CID = [], rc_Value = JNull\<rparr>,
     dm_value = zero_MessageRecord,
     dm_state = zero_MessageStateRecord\<lparr>ms_MailboxIDs := Some [''f''],
       ms_Projection := \<lparr>pi_UID = uid, pi_UIDValidity = 9, pi_ModSeq = 4\<rparr>\<rparr>\<rparr>"

text \<open>One message keeps its identifier, the other gets a free one.\<close>

theorem allocate_exact_witness:
  "\<exists>ids. allocateProjectionIdentities [demo_item ''a'' 1, demo_item ''b'' 0] [] = Inr ids
     \<and> folder_allocated [] ''f'' [demo_item ''a'' 1, demo_item ''b'' 0] ids"
proof -
  let ?ms = "[demo_item ''a'' 1, demo_item ''b'' 0]"
  have hyps: "distinct (map dm_rkey ?ms)" "\<forall>m \<in> set ?ms. distinct (dm_ids m)"
    by (simp_all add: demo_item_def dm_rkey_def dm_ids_def)
  have live: "live_in f ?ms = (if f = ''f'' then ?ms else [])" for f
    by (simp add: live_in_def demo_item_def dm_ids_def zero_MessageStateRecord_def)
  have "preserved (demo_item ''a'' 1)" "\<not> preserved (demo_item ''b'' 0)"
    by (simp_all add: preserved_def demo_item_def dm_ids_def dm_projection_def)
  then have ok: "distinct (preserved_uids (live_in f ?ms))" "length (live_in f ?ms) < 2 ^ 32" for f
    by (simp_all add: live preserved_uids_def)
  show ?thesis
  proof (cases "allocateProjectionIdentities ?ms []")
    case (Inl e)
    with allocate_exact[OF hyps, of "[]"]
    obtain f where "\<not> distinct (preserved_uids (live_in f ?ms)) \<or> length (live_in f ?ms) \<ge> 2 ^ 32" by auto
    with ok[of f] show ?thesis by (simp only: not_le[symmetric] simp_thms)
  next
    case (Inr ids)
    with allocate_exact[OF hyps, of "[]"] have "folder_allocated [] ''f'' (live_in ''f'' ?ms) ids" by simp
    with Inr show ?thesis by (simp add: live)
  qed
qed

lemma demo_empty_projectable:
  "projectable (memory_repo owner_a) target_a demo_mailbox (mem_view target_a demo_mailbox) []"
  using demo_migrated_view(2)
  by (simp add: projectable_def graph_sound_def graph_items_def folder_at_def state_at_def message_at_def live_in_def preserved_uids_def)

lemma target_a_valid: "ValidateFor plain_syntax target_a (tg_RepoDID target_a) = Inr ()"
  by code_simp

text \<open>The projection of an empty mailbox.\<close>

theorem Rebuild_exact_witness:
  "\<exists>rb. Rebuild no_faults plain_syntax (Some (memory_repo owner_a)) target_a ''/p'' [] demo_mailbox = (Inr (), (rb, demo_mailbox))
     \<and> projection_Passed (rb_report rb)"
proof -
  have hyps: "has_prefix ''/p'' ''/''" "map_of [] ''/p'' = None" by (simp_all add: has_prefix_def)
  have "sql_numbers (mem_view target_a demo_mailbox)"
    using demo_migrated_view(2) by (simp add: sql_numbers_def folder_at_def message_at_def)
  from Rebuild_exact[OF demo_sessions(1) target_a_valid hyps this] demo_empty_projectable
  show ?thesis by (auto split: prod.splits sum.splits)
qed

theorem Rebuild_all_or_nothing_witness:
  "\<exists>r b s'. Rebuild no_faults plain_syntax (Some (memory_repo owner_a)) target_a ''/p'' [] demo_mailbox = (r, (b, s'))
     \<and> (case r of
          Inl _ \<Rightarrow> \<forall>p. p \<noteq> ''/p-wal'' \<and> p \<noteq> ''/p-shm'' \<longrightarrow> map_of (rb_files b) p = None
        | Inr _ \<Rightarrow> \<exists>t. map_of (rb_files b) = [''/p'' \<mapsto> t])"
proof -
  obtain r b s' where run: "Rebuild no_faults plain_syntax (Some (memory_repo owner_a)) target_a ''/p'' [] demo_mailbox = (r, (b, s'))"
    by (metis prod.exhaust)
  have "\<forall>p \<in> {''/p'', ''/p'' @ ''-wal'', ''/p'' @ ''-shm''}. no_faults (RemoveFile p) = None" by (simp add: no_faults_def)
  from Rebuild_all_or_nothing[OF this run] run show ?thesis by (auto split: sum.splits)
qed

end
