(* ===== verification/Projection_Official.thy ===== *)
theory Projection_Official
  imports Projection Content
begin

text \<open>
  Package \<^verbatim>\<open>projection\<close>, the rebuild of a mailbox from a byte-complete, authenticated official source
  (\<^verbatim>\<open>internal/projection/officialspaces.go\<close>). The reduced folders and message states are checked and
  numbered, the verified messages are visited once, and the rows and the semantic manifest
  of a new SQLite file are written. Files, statements and faults are those of theory
  \<open>Projection\<close>; \<open>lower\<close> stands for \<^verbatim>\<open>strings.ToLower\<close>, whose Unicode tables are data.
\<close>

section \<open>The projected graph\<close>

record officialProjectionFolder =
  opf_state :: ReducedFolderState
  opf_uidValidity :: u32

record officialProjectionState =
  ops_state :: ReducedState
  ops_uids :: "u32 gomap"

record officialProjectionGraph =
  og_folders :: "officialProjectionFolder list"
  og_folderByID :: "officialProjectionFolder gomap"
  og_selected :: "officialProjectionState gomap"
  og_liveStates :: nat
  og_messageDeletes :: nat

definition validOfficialDigest :: "bytes \<Rightarrow> bool" where
  "validOfficialDigest v =
     (if length v \<noteq> length ''sha256-'' + 32 * 2 \<or> \<not> has_prefix v ''sha256-'' then False
      else hex_decode (trim_prefix v ''sha256-'') \<noteq> None)"

definition summary_target :: "ContentVerificationSummary \<Rightarrow> Target" where
  "summary_target su = \<lparr>tg_ProviderOrigin = ot_Origin (su_Target su), tg_SpaceURI = ot_SpaceURI (su_Target su),
     tg_RepoDID = ot_RepoDID (su_Target su), tg_Epoch = ot_Epoch (su_Target su)\<rparr>"

text \<open>The three counters of the summary are never negative: two are lengths and the third is checked.\<close>

definition validateOfficialSummary :: "syntax_api \<Rightarrow> ContentVerificationSummary \<Rightarrow> Target \<Rightarrow> unit result" where
  "validateOfficialSummary sx su target =
     (if tg_Epoch target \<noteq> PinnedEpoch \<or> ValidateFor sx target (tg_RepoDID target) \<noteq> Inr ()
         \<or> su_Revision su = [] \<or> \<not> validOfficialDigest (su_SnapshotID su) \<or> \<not> validOfficialDigest (su_ManifestSHA256 su)
         \<or> su_TotalBytes su < 0
      then Inl (ErrOther ''projection: invalid official source summary'') else Inr ())"

fun graph_folders ::
  "(bytes \<Rightarrow> bytes) \<Rightarrow> ContentVerificationSummary \<Rightarrow> ReducedFolderState list
     \<Rightarrow> officialProjectionFolder gomap \<times> bytes gomap \<times> officialProjectionFolder list
     \<Rightarrow> (officialProjectionFolder gomap \<times> officialProjectionFolder list) result" where
  "graph_folders lower su [] (byID, names, folders) = Inr (byID, folders)"
| "graph_folders lower su (st # sts) (byID, names, folders) =
     (if rf_FolderID st = [] \<or> rf_SnapshotID st \<noteq> su_SnapshotID su \<or> rf_Name st = [] \<or> rf_Height st = 0
         \<or> \<not> validOfficialDigest (rf_StateDigest st) then Inl ErrIntegrity
      else if map_of byID (rf_FolderID st) \<noteq> None then Inl ErrIntegrity
      else (let folder = \<lparr>opf_state = st, opf_uidValidity = StableFolderUIDValidity (ot_RepoDID (su_Target su)) (rf_FolderID st)\<rparr>;
                byID' = AList.update (rf_FolderID st) folder byID; foldedName = lower (rf_Name st) in
        if rf_Tombstone st then graph_folders lower su sts (byID', names, folders)
        else if (case map_of names foldedName of Some prior \<Rightarrow> prior \<noteq> rf_FolderID st | None \<Rightarrow> False) then Inl ErrIntegrity
        else graph_folders lower su sts (byID', AList.update foldedName (rf_FolderID st) names, folders @ [folder])))"

text \<open>The folders of one state: \<open>prev\<close> is the folder before in sorted order.\<close>

fun graph_memberships ::
  "officialProjectionFolder gomap \<Rightarrow> officialProjectionState \<Rightarrow> bytes option \<Rightarrow> bytes list
     \<Rightarrow> officialProjectionState list gomap \<Rightarrow> officialProjectionState list gomap result" where
  "graph_memberships byID p prev [] byFolder = Inr byFolder"
| "graph_memberships byID p prev (f # fs) byFolder =
     (if prev = Some f then Inl ErrIntegrity
      else (case map_of byID f of
        None \<Rightarrow> Inl ErrIntegrity
      | Some folder \<Rightarrow>
          if rf_Tombstone (opf_state folder) then Inl ErrIntegrity
          else graph_memberships byID p (Some f) fs (AList.update f (inner byFolder f @ [p]) byFolder)))"

definition projected_state :: "ReducedState \<Rightarrow> officialProjectionState" where
  "projected_state st = \<lparr>ops_state = st\<lparr>rs_MailboxIDs := copy_nil (sort (elems (rs_MailboxIDs st))),
     rs_Keywords := Some (sort (elems (rs_Keywords st)))\<rparr>, ops_uids = []\<rparr>"

fun graph_states ::
  "ContentVerificationSummary \<Rightarrow> officialProjectionFolder gomap \<Rightarrow> ReducedState list
     \<Rightarrow> bytes list \<times> officialProjectionState list gomap \<times> officialProjectionState gomap \<times> nat \<times> nat
     \<Rightarrow> (officialProjectionState list gomap \<times> officialProjectionState gomap \<times> nat \<times> nat) result" where
  "graph_states su byID [] (seen, byFolder, selected, live, deletes) = Inr (byFolder, selected, live, deletes)"
| "graph_states su byID (st # sts) (seen, byFolder, selected, live, deletes) =
     (if \<not> validOfficialDigest (rs_LogicalMessageID st) \<or> rs_SnapshotID st \<noteq> su_SnapshotID su
         \<or> \<not> validOfficialDigest (rs_StateDigest st) \<or> rs_Height st = 0 then Inl ErrIntegrity
      else if rs_LogicalMessageID st \<in> set seen then Inl ErrIntegrity
      else (let seen' = rs_LogicalMessageID st # seen in
        if rs_Tombstone st then graph_states su byID sts (seen', byFolder, selected, live, deletes + 1)
        else if \<not> validOfficialDigest (rs_Version st) \<or> length (elems (rs_MailboxIDs st)) = 0 then Inl ErrIntegrity
        else (let p = projected_state st in
          case graph_memberships byID p None (elems (rs_MailboxIDs (ops_state p))) byFolder of
            Inl e \<Rightarrow> Inl e
          | Inr byFolder' \<Rightarrow>
              if map_of selected (rs_Version st) \<noteq> None then Inl ErrIntegrity
              else graph_states su byID sts (seen', byFolder', AList.update (rs_Version st) p selected, live + 1, deletes))))"

text \<open>
  The states in a folder are pointers into the selected states, which have different versions: a
  number is written to the selected state of that version.
\<close>

definition ops_key :: "officialProjectionState \<Rightarrow> bytes \<times> bytes" where
  "ops_key p = (rs_LogicalMessageID (ops_state p), rs_Version (ops_state p))"

definition put_uid :: "bytes \<Rightarrow> bytes \<Rightarrow> u32 \<Rightarrow> officialProjectionState gomap \<Rightarrow> officialProjectionState gomap" where
  "put_uid version f uid selected = (case map_of selected version of
     None \<Rightarrow> selected
   | Some p \<Rightarrow> AList.update version (p\<lparr>ops_uids := AList.update f uid (ops_uids p)\<rparr>) selected)"

fun number_states ::
  "bytes \<Rightarrow> nat \<Rightarrow> officialProjectionState list \<Rightarrow> officialProjectionState gomap \<Rightarrow> officialProjectionState gomap" where
  "number_states f index [] selected = selected"
| "number_states f index (p # ps) selected =
     number_states f (index + 1) ps (put_uid (rs_Version (ops_state p)) f (of_nat (index + 1)) selected)"

definition number_folders ::
  "(bytes \<times> officialProjectionState list) list \<Rightarrow> officialProjectionState gomap \<Rightarrow> officialProjectionState gomap" where
  "number_folders byFolder selected = foldl (\<lambda>sel (f, ps). number_states f 0 (sort_key ops_key ps) sel) selected byFolder"

definition buildOfficialProjectionGraph ::
  "(bytes \<Rightarrow> bytes) \<Rightarrow> ContentVerificationSummary \<Rightarrow> ReducedFolderState list \<Rightarrow> ReducedState list \<Rightarrow> officialProjectionGraph result" where
  "buildOfficialProjectionGraph lower su folders states =
     (case graph_folders lower su folders ([], [], []) of
        Inl e \<Rightarrow> Inl e
      | Inr (byID, live_folders) \<Rightarrow>
          (case graph_states su byID states ([], [], [], 0, 0) of
             Inl e \<Rightarrow> Inl e
           | Inr (byFolder, selected, live, deletes) \<Rightarrow>
               Inr \<lparr>og_folders = sort_key (\<lambda>f. rf_FolderID (opf_state f)) live_folders, og_folderByID = byID,
                    og_selected = number_folders byFolder selected, og_liveStates = live, og_messageDeletes = deletes\<rparr>))"

section \<open>The semantic manifest\<close>

record officialManifestMembership =
  omm_FolderID :: bytes
  omm_Mailbox :: bytes
  omm_UID :: u32
  omm_UIDValidity :: u32
  omm_ModSeq :: u64

record officialManifestMessage =
  omg_RKey :: bytes
  omg_SHA256 :: bytes
  omg_Size :: int
  omg_Keywords :: "bytes list"
  omg_DeletePending :: bool
  omg_SourceMessageID :: bytes
  omg_MessageDate :: bytes
  omg_InReplyTo :: bytes
  omg_References :: "bytes list"
  omg_Memberships :: "officialManifestMembership list"

record officialManifestFolder =
  omf_FolderID :: bytes
  omf_Name :: bytes
  omf_Role :: bytes
  omf_UIDValidity :: u32
  omf_Revision :: u64

record officialManifest =
  om_Version :: int
  om_Target :: Target
  om_Folders :: "officialManifestFolder list"
  om_Messages :: "officialManifestMessage list"

definition target_json :: "Target \<Rightarrow> json" where
  "target_json t = JObj
     (jfield ''providerOrigin'' (jstr (tg_ProviderOrigin t)) @ jfield ''spaceUri'' (jstr (tg_SpaceURI t))
      @ jfield ''repoDid'' (jstr (tg_RepoDID t)) @ jfield ''epoch'' (jstr (tg_Epoch t)))"

definition manifest_folder_json :: "officialManifestFolder \<Rightarrow> json" where
  "manifest_folder_json f = JObj
     (jfield ''folderId'' (jstr (omf_FolderID f)) @ jfield ''name'' (jstr (omf_Name f))
      @ jomit (omf_Role f = []) ''role'' (jstr (omf_Role f))
      @ jfield ''uidValidity'' (JNum (uint (omf_UIDValidity f))) @ jfield ''revision'' (JNum (uint (omf_Revision f))))"

definition manifest_membership_json :: "officialManifestMembership \<Rightarrow> json" where
  "manifest_membership_json m = JObj
     (jfield ''folderId'' (jstr (omm_FolderID m)) @ jfield ''mailbox'' (jstr (omm_Mailbox m))
      @ jfield ''uid'' (JNum (uint (omm_UID m))) @ jfield ''uidValidity'' (JNum (uint (omm_UIDValidity m)))
      @ jfield ''modSeq'' (JNum (uint (omm_ModSeq m))))"

text \<open>A slice that was never appended to is nil, and nil is written as \<^verbatim>\<open>null\<close>.\<close>

definition nil_array :: "('a \<Rightarrow> json) \<Rightarrow> 'a list \<Rightarrow> json" where
  "nil_array j xs = (if xs = [] then JNull else JArr (map j xs))"

definition manifest_message_json :: "officialManifestMessage \<Rightarrow> json" where
  "manifest_message_json m = JObj
     (jfield ''rkey'' (jstr (omg_RKey m)) @ jfield ''sha256'' (jstr (omg_SHA256 m)) @ jfield ''size'' (JNum (omg_Size m))
      @ jfield ''keywords'' (jstrs (Some (omg_Keywords m))) @ jfield ''deletePending'' (JBool (omg_DeletePending m))
      @ jomit (omg_SourceMessageID m = []) ''sourceMessageId'' (jstr (omg_SourceMessageID m))
      @ jomit (omg_MessageDate m = []) ''messageDate'' (jstr (omg_MessageDate m))
      @ jomit (omg_InReplyTo m = []) ''inReplyTo'' (jstr (omg_InReplyTo m))
      @ jomit (omg_References m = []) ''references'' (jstrs (Some (omg_References m)))
      @ jfield ''memberships'' (nil_array manifest_membership_json (omg_Memberships m)))"

definition manifest_json :: "officialManifest \<Rightarrow> json" where
  "manifest_json m = JObj
     (jfield ''version'' (JNum (om_Version m)) @ jfield ''target'' (target_json (om_Target m))
      @ jfield ''folders'' (nil_array manifest_folder_json (om_Folders m))
      @ jfield ''messages'' (nil_array manifest_message_json (om_Messages m)))"

definition officialSemanticManifest :: "officialManifest \<Rightarrow> bytes" where
  "officialSemanticManifest m =
     hex_encode (sha256 (''comail-official-sqlite-projection-v1'' @ [CHR 0x00] @ json_text (manifest_json m)))"

section \<open>The rebuild\<close>

text \<open>What a walk over the messages collects besides the rows.\<close>

record walk =
  wk_manifest :: officialManifest
  wk_versions :: "bytes list"
  wk_selected :: "bytes list"

definition on_walk :: "(walk \<Rightarrow> walk) \<Rightarrow> (rebuild \<times> walk, unit) op" where
  "on_walk f = (\<lambda>(b, w). (Inr (), (b, f w)))"

definition official_message_row :: "MessageVersion \<Rightarrow> bytes \<Rightarrow> officialProjectionState \<Rightarrow> message_row" where
  "official_message_row v raw p =
     \<lparr>mw_rkey = mv_RKey v, mw_raw = raw, mw_sha256 = mr_SHA256 (mv_Record v), mw_size = mr_Size (mv_Record v),
      mw_keywords_json = json_text (jstrs (rs_Keywords (ops_state p))), mw_delete_pending = rs_DeletePending (ops_state p),
      mw_source_message_id = mr_SourceMessageID (mv_Record v), mw_message_date = mr_MessageDate (mv_Record v),
      mw_in_reply_to = mr_InReplyTo (mv_Record v),
      mw_references_json = json_text (jstrs (Some (elems (mr_References (mv_Record v)))))\<rparr>"

text \<open>Reading an absent folder or number gives the zero value.\<close>

definition folder_or_zero :: "officialProjectionFolder gomap \<Rightarrow> bytes \<Rightarrow> bytes \<times> u32" where
  "folder_or_zero byID f = (case map_of byID f of Some fo \<Rightarrow> (rf_Name (opf_state fo), opf_uidValidity fo) | None \<Rightarrow> ([], 0))"

definition uid_or_zero :: "officialProjectionState \<Rightarrow> bytes \<Rightarrow> u32" where
  "uid_or_zero p f = (case map_of (ops_uids p) f of Some uid \<Rightarrow> uid | None \<Rightarrow> 0)"

definition official_membership_row ::
  "officialProjectionFolder gomap \<Rightarrow> MessageVersion \<Rightarrow> officialProjectionState \<Rightarrow> bytes \<Rightarrow> membership_row" where
  "official_membership_row byID v p f =
     \<lparr>bw_rkey = mv_RKey v, bw_mailbox = fst (folder_or_zero byID f), bw_uid = uid_or_zero p f,
      bw_uid_validity = snd (folder_or_zero byID f), bw_modseq = rs_Height (ops_state p)\<rparr>"

definition manifest_membership :: "officialProjectionFolder gomap \<Rightarrow> officialProjectionState \<Rightarrow> bytes \<Rightarrow> officialManifestMembership" where
  "manifest_membership byID p f =
     \<lparr>omm_FolderID = f, omm_Mailbox = fst (folder_or_zero byID f), omm_UID = uid_or_zero p f,
      omm_UIDValidity = snd (folder_or_zero byID f), omm_ModSeq = rs_Height (ops_state p)\<rparr>"

definition manifest_message ::
  "officialProjectionFolder gomap \<Rightarrow> MessageVersion \<Rightarrow> officialProjectionState \<Rightarrow> officialManifestMessage" where
  "manifest_message byID v p =
     \<lparr>omg_RKey = mv_RKey v, omg_SHA256 = mr_SHA256 (mv_Record v), omg_Size = mr_Size (mv_Record v),
      omg_Keywords = elems (rs_Keywords (ops_state p)), omg_DeletePending = rs_DeletePending (ops_state p),
      omg_SourceMessageID = mr_SourceMessageID (mv_Record v), omg_MessageDate = mr_MessageDate (mv_Record v),
      omg_InReplyTo = mr_InReplyTo (mv_Record v), omg_References = elems (mr_References (mv_Record v)),
      omg_Memberships = map (manifest_membership byID p) (elems (rs_MailboxIDs (ops_state p)))\<rparr>"

fun insert_official_memberships ::
  "faults \<Rightarrow> officialProjectionFolder gomap \<Rightarrow> MessageVersion \<Rightarrow> officialProjectionState \<Rightarrow> bytes list \<Rightarrow> (rebuild \<times> 's, unit) op" where
  "insert_official_memberships faults byID v p [] = give ()"
| "insert_official_memberships faults byID v p (f # fs) =
     after (insert_membership (official_membership_row byID v p f) faults)
       (\<lambda>_. insert_official_memberships faults byID v p fs)"

definition insertOfficialMessage ::
  "faults \<Rightarrow> officialProjectionFolder gomap \<Rightarrow> MessageVersion \<Rightarrow> bytes \<Rightarrow> officialProjectionState \<Rightarrow> (rebuild \<times> walk, unit) op" where
  "insertOfficialMessage faults byID v raw p =
     after (insert_message (official_message_row v raw p) faults) (\<lambda>_.
     after (insert_official_memberships faults byID v p (elems (rs_MailboxIDs (ops_state p)))) (\<lambda>_.
       on_walk (\<lambda>w. w\<lparr>wk_manifest := (wk_manifest w)\<lparr>om_Messages := om_Messages (wk_manifest w) @ [manifest_message byID v p]\<rparr>\<rparr>)))"

text \<open>The callback of the visit.\<close>

definition visit_version ::
  "faults \<Rightarrow> bytes \<Rightarrow> officialProjectionGraph \<Rightarrow> MessageVersion \<Rightarrow> bytes \<Rightarrow> (rebuild \<times> walk, unit) op" where
  "visit_version faults did g v raw = (\<lambda>(b, w).
     if mv_RKey v \<in> set (wk_versions w) then (Inl ErrIntegrity, (b, w))
     else after (on_walk (\<lambda>w. w\<lparr>wk_versions := mv_RKey v # wk_versions w\<rparr>)) (\<lambda>_.
       after (returning (ValidateStoredMessage did (mv_RKey v) (mv_Record v) raw)) (\<lambda>_.
         case map_of (og_selected g) (mv_RKey v) of
           None \<Rightarrow> give ()
         | Some p \<Rightarrow>
             if mr_LogicalMessageID (mv_Record v) \<noteq> rs_LogicalMessageID (ops_state p) then raise ErrIntegrity
             else after (insertOfficialMessage faults (og_folderByID g) v raw p) (\<lambda>_.
               after (on_walk (\<lambda>w. w\<lparr>wk_selected := List.insert (mv_RKey v) (wk_selected w)\<rparr>)) (\<lambda>_.
                 report (\<lambda>r. r\<lparr>pr_TotalBytes := pr_TotalBytes r + int (length raw)\<rparr>))))) (b, w))"

text \<open>
  The interface of a source, over a source state \<open>'c\<close>. A visit runs the callback over the state
  of the rebuild and returns its own error.
\<close>

record 'c officialProjectionSource =
  src_Summary :: "'c \<Rightarrow> ContentVerificationSummary"
  src_Folders :: "'c \<Rightarrow> ReducedFolderState list"
  src_MessageStates :: "'c \<Rightarrow> ReducedState list"
  src_VisitMessages :: "(MessageVersion \<Rightarrow> bytes \<Rightarrow> (rebuild \<times> walk, unit) op) \<Rightarrow> 'c \<Rightarrow> rebuild \<times> walk \<Rightarrow> unit result \<times> 'c \<times> (rebuild \<times> walk)"
  src_ValidateSeal :: "'c \<Rightarrow> unit result"

definition error_of :: "unit result \<times> 's \<Rightarrow> err option \<times> 's" where
  "error_of r = (case r of (Inl e, s) \<Rightarrow> (Some e, s) | (Inr _, s) \<Rightarrow> (None, s))"

definition open_visit ::
  "ipld_api \<Rightarrow> (MessageVersion \<Rightarrow> bytes \<Rightarrow> ('s, unit) op) \<Rightarrow> ContentVerifiedMessage \<Rightarrow> 's \<Rightarrow> err option \<times> 's" where
  "open_visit ip visit msg s = (case message_Open ip msg of
     Inl e \<Rightarrow> (Some e, s)
   | Inr (v, raw) \<Rightarrow> error_of (visit v raw s))"

definition sealedOfficialProjectionSource ::
  "ipld_api \<Rightarrow> syntax_api \<Rightarrow> (nat \<Rightarrow> err option) \<Rightarrow> ContentVerifiedSource officialProjectionSource" where
  "sealedOfficialProjectionSource ip sx ctx =
     \<lparr>src_Summary = content_Summary sx, src_Folders = content_Folders sx, src_MessageStates = content_MessageStates sx,
      src_VisitMessages = (\<lambda>visit cs s. case VisitMessages sx ctx (open_visit ip visit) cs s of
         (Some e, cs', s') \<Rightarrow> (Inl e, cs', s') | (None, cs', s') \<Rightarrow> (Inr (), cs', s')),
      src_ValidateSeal = content_ValidateSeal sx\<rparr>"

definition artifacts :: "bytes \<Rightarrow> bytes list" where
  "artifacts dest = [dest, dest @ ''-journal'', dest @ ''-wal'', dest @ ''-shm'']"

definition refuseExistingOfficialProjectionArtifacts :: "faults \<Rightarrow> bytes \<Rightarrow> (rebuild \<times> 's, unit) op" where
  "refuseExistingOfficialProjectionArtifacts faults dest =
     foldr (\<lambda>p k. after (refuse_existing faults p) (\<lambda>_. k)) (artifacts dest) (give ())"

definition removeProjectionArtifacts :: "faults \<Rightarrow> bytes \<Rightarrow> (rebuild \<times> 's, unit) op" where
  "removeProjectionArtifacts faults dest = discard_files faults [dest @ ''-journal'', dest @ ''-wal'', dest @ ''-shm'', dest]"

text \<open>\<^verbatim>\<open>os.OpenFile\<close> with \<^verbatim>\<open>O_CREATE|O_EXCL\<close>: a new empty file, or an error.\<close>

definition create_exclusive :: "faults \<Rightarrow> bytes \<Rightarrow> (rebuild \<times> 's, unit) op" where
  "create_exclusive faults dest = after (db faults CreateFile) (\<lambda>_. \<lambda>(b, s).
     if map_of (rb_files b) dest \<noteq> None then (Inl ErrFileExists, (b, s))
     else (Inr (), (b\<lparr>rb_files := AList.update dest no_tables (rb_files b)\<rparr>, s)))"

definition official_folder_row :: "officialProjectionFolder \<Rightarrow> folder_row" where
  "official_folder_row f = \<lparr>fw_rkey = rf_FolderID (opf_state f), fw_name = rf_Name (opf_state f), fw_role = rf_Role (opf_state f),
     fw_uid_validity = opf_uidValidity f, fw_revision = rf_Height (opf_state f), fw_updated_at = []\<rparr>"

definition manifest_folder :: "officialProjectionFolder \<Rightarrow> officialManifestFolder" where
  "manifest_folder f = \<lparr>omf_FolderID = rf_FolderID (opf_state f), omf_Name = rf_Name (opf_state f), omf_Role = rf_Role (opf_state f),
     omf_UIDValidity = opf_uidValidity f, omf_Revision = rf_Height (opf_state f)\<rparr>"

fun insert_official_folders :: "faults \<Rightarrow> officialProjectionFolder list \<Rightarrow> (rebuild \<times> walk, unit) op" where
  "insert_official_folders faults [] = give ()"
| "insert_official_folders faults (f # fs) =
     after (insert_folder (official_folder_row f) faults) (\<lambda>_.
     after (on_walk (\<lambda>w. w\<lparr>wk_manifest := (wk_manifest w)\<lparr>om_Folders := om_Folders (wk_manifest w) @ [manifest_folder f]\<rparr>\<rparr>)) (\<lambda>_.
       insert_official_folders faults fs))"

text \<open>What runs between the creation of the file and the deferred clean-up; the result is the source after the visit.\<close>

definition finish_official ::
  "faults \<Rightarrow> bytes \<Rightarrow> ContentVerificationSummary \<Rightarrow> officialProjectionGraph \<Rightarrow> (rebuild \<times> walk, unit) op" where
  "finish_official faults dest su g = (\<lambda>(b, w).
     after (report (\<lambda>r. r\<lparr>pr_Messages := length (wk_selected w),
        pr_ManifestSHA256 := officialSemanticManifest ((wk_manifest w)\<lparr>om_Messages := sort_key omg_RKey (om_Messages (wk_manifest w))\<rparr>)\<rparr>)) (\<lambda>_.
     after (commit_tx faults dest) (\<lambda>_.
     after (db faults CloseDatabase) (\<lambda>_. db faults ChmodFile))) (b, w))"

definition fill_official ::
  "faults \<Rightarrow> 'c officialProjectionSource \<Rightarrow> bytes \<Rightarrow> ContentVerificationSummary \<Rightarrow> officialProjectionGraph \<Rightarrow> 'c
     \<Rightarrow> rebuild \<times> walk \<Rightarrow> (unit result \<times> (rebuild \<times> walk)) \<times> 'c" where
  "fill_official faults src dest su g c s =
     (case after (db faults CloseFile) (\<lambda>_.
           after (createSchema faults dest (summary_target su)) (\<lambda>_.
           after (begin_tx faults dest) (\<lambda>_. insert_official_folders faults (og_folders g)))) s of
        (Inl e, s') \<Rightarrow> ((Inl e, s'), c)
      | (Inr _, s') \<Rightarrow>
          (case src_VisitMessages src (visit_version faults (ot_RepoDID (su_Target su)) g) c s' of
             (Inl e, c', s'') \<Rightarrow> ((Inl e, s''), c')
           | (Inr _, c', (b, w)) \<Rightarrow>
               if length (wk_versions w) \<noteq> su_MessageVersions su \<or> length (wk_selected w) \<noteq> length (og_selected g)
               then ((Inl ErrIntegrity, (b, w)), c')
               else (case src_ValidateSeal src c' of
                 Inl e \<Rightarrow> ((Inl e, (b, w)), c')
               | Inr _ \<Rightarrow> (finish_official faults dest su g (b, w), c'))))"

definition no_target :: Target where
  "no_target = \<lparr>tg_ProviderOrigin = [], tg_SpaceURI = [], tg_RepoDID = [], tg_Epoch = []\<rparr>"

definition empty_walk :: "Target \<Rightarrow> walk" where
  "empty_walk target = \<lparr>wk_manifest = \<lparr>om_Version = 1, om_Target = target, om_Folders = [], om_Messages = []\<rparr>,
     wk_versions = [], wk_selected = []\<rparr>"

text \<open>
  \<open>cancelled\<close> is what the context reports at the start; the context and the source behind the
  interface are not nil.
\<close>

definition rebuildOfficialSpaces ::
  "faults \<Rightarrow> syntax_api \<Rightarrow> (bytes \<Rightarrow> bytes) \<Rightarrow> err option \<Rightarrow> 'c officialProjectionSource \<Rightarrow> bytes \<Rightarrow> Tables gomap \<Rightarrow> 'c
     \<Rightarrow> (unit result \<times> (rebuild \<times> walk)) \<times> 'c" where
  "rebuildOfficialSpaces faults sx lower cancelled src dest files c =
     (let b0 = \<lparr>rb_report = new_projection_report 3 no_target,
            rb_files = files, rb_tx = no_tables, rb_manifest = []\<rparr>;
          su = src_Summary src c; target = summary_target su; w0 = empty_walk target in
      if \<not> has_prefix dest ''/'' then ((Inl (ErrOther ''projection: source and absolute destination are required''), (b0, w0)), c)
      else (case cancelled of Some e \<Rightarrow> ((Inl e, (b0, w0)), c) | None \<Rightarrow>
        (case after (refuseExistingOfficialProjectionArtifacts faults dest) (\<lambda>_.
              after (returning (src_ValidateSeal src c)) (\<lambda>_.
              after (report (\<lambda>r. r\<lparr>pr_Target := target\<rparr>)) (\<lambda>_.
              after (returning (validateOfficialSummary sx su target)) (\<lambda>_.
              after (returning (buildOfficialProjectionGraph lower su (src_Folders src c) (src_MessageStates src c))) (\<lambda>g.
              after (report (\<lambda>r. r\<lparr>pr_Folders := length (og_folders g), pr_States := og_liveStates g,
                pr_Tombstones := og_messageDeletes g\<rparr>)) (\<lambda>_.
              after (db faults MkdirAll) (\<lambda>_.
              after (refuseExistingOfficialProjectionArtifacts faults dest) (\<lambda>_.
              after (create_exclusive faults dest) (\<lambda>_. give g))))))))) (b0, w0) of
           (Inl e, s) \<Rightarrow> ((Inl e, s), c)
         | (Inr g, s) \<Rightarrow>
             (case fill_official faults src dest su g c s of
                ((Inr u, s'), c') \<Rightarrow> ((Inr u, s'), c')
              | ((Inl e, s'), c') \<Rightarrow> ((Inl e, snd (removeProjectionArtifacts faults dest s')), c')))))"

text \<open>The exported entry refuses a nil source, \<open>None\<close> here.\<close>

definition RebuildOfficial ::
  "faults \<Rightarrow> ipld_api \<Rightarrow> syntax_api \<Rightarrow> (bytes \<Rightarrow> bytes) \<Rightarrow> (nat \<Rightarrow> err option) \<Rightarrow> err option \<Rightarrow> bytes \<Rightarrow> Tables gomap
     \<Rightarrow> ContentVerifiedSource option \<Rightarrow> unit result \<times> ProjectionReport \<times> Tables gomap \<times> ContentVerifiedSource option" where
  "RebuildOfficial faults ip sx lower ctx cancelled dest files source =
     (case source of
        None \<Rightarrow> (Inl (ErrOther ''projection: sealed official source is required''), new_projection_report 3 no_target, files, None)
      | Some cs \<Rightarrow>
          (case rebuildOfficialSpaces faults sx lower cancelled (sealedOfficialProjectionSource ip sx ctx) dest files cs of
             ((r, (b, w)), cs') \<Rightarrow> (r, rb_report b, rb_files b, Some cs')))"

section \<open>Numbers of messages\<close>

definition ops_ids :: "officialProjectionState \<Rightarrow> bytes list" where
  "ops_ids p = elems (rs_MailboxIDs (ops_state p))"

abbreviation ops_version :: "officialProjectionState \<Rightarrow> bytes" where
  "ops_version p \<equiv> rs_Version (ops_state p)"

abbreviation ops_logical :: "officialProjectionState \<Rightarrow> bytes" where
  "ops_logical p \<equiv> rs_LogicalMessageID (ops_state p)"

lemma projected_state_fields [simp]:
  "ops_version (projected_state st) = rs_Version st" "ops_logical (projected_state st) = rs_LogicalMessageID st"
  "ops_ids (projected_state st) = sort (elems (rs_MailboxIDs st))" "ops_uids (projected_state st) = []"
  by (simp_all add: projected_state_def ops_ids_def)

lemma update_appends: "map_of m k = None \<Longrightarrow> AList.update k v m = m @ [(k, v)]"
  by (induction m) (auto split: if_splits)

lemma graph_memberships_spec:
  assumes "graph_memberships byID p prev fs by = Inr by'" and "sorted fs" and "distinct (keys by)"
    and "case prev of Some f \<Rightarrow> list_all (\<lambda>g. f \<le> g) fs | None \<Rightarrow> True"
  shows "distinct fs \<and> (case prev of Some f \<Rightarrow> f \<notin> set fs | None \<Rightarrow> True)
    \<and> distinct (keys by') \<and> (\<forall>g. inner by' g = inner by g @ (if g \<in> set fs then [p] else []))
    \<and> (\<forall>f \<in> set fs. \<exists>fo. map_of byID f = Some fo \<and> \<not> rf_Tombstone (opf_state fo))"
  using assms
proof (induction fs arbitrary: prev "by")
  case Nil
  then show ?case by (auto split: option.splits)
next
  case (Cons f fs)
  from Cons.prems(1) obtain fo where ne: "prev \<noteq> Some f" and fo: "map_of byID f = Some fo" "\<not> rf_Tombstone (opf_state fo)"
    and rest: "graph_memberships byID p (Some f) fs (AList.update f (inner by f @ [p]) by) = Inr by'"
    by (auto split: if_splits option.splits)
  have "sorted fs" "list_all (\<lambda>g. f \<le> g) fs" using Cons.prems(2) by (auto simp: list_all_iff)
  from Cons.IH[OF rest this(1)] this(2) Cons.prems(3)
  have IH: "distinct fs" "f \<notin> set fs" "distinct (keys by')"
    "\<And>g. inner by' g = inner (AList.update f (inner by f @ [p]) by) g @ (if g \<in> set fs then [p] else [])"
    "\<forall>f \<in> set fs. \<exists>fo. map_of byID f = Some fo \<and> \<not> rf_Tombstone (opf_state fo)" by auto
  have "q \<notin> set (f # fs)" if "prev = Some q" for q
    using that ne Cons.prems(2,4) by (auto simp: list_all_iff dest: order.antisym)
  then show ?case using IH fo by (auto split: option.splits)
qed

text \<open>The states that are not deleted, as they are projected.\<close>

definition live_states :: "ReducedState list \<Rightarrow> officialProjectionState list" where
  "live_states sts = map projected_state (filter (\<lambda>st. \<not> rs_Tombstone st) sts)"

definition members :: "bytes \<Rightarrow> officialProjectionState list \<Rightarrow> officialProjectionState list" where
  "members f ps = filter (\<lambda>p. f \<in> set (ops_ids p)) ps"

definition entries :: "officialProjectionState list \<Rightarrow> officialProjectionState gomap" where
  "entries ps = map (\<lambda>p. (ops_version p, p)) ps"

definition in_live_folders :: "officialProjectionFolder gomap \<Rightarrow> officialProjectionState \<Rightarrow> bool" where
  "in_live_folders byID p \<longleftrightarrow> distinct (ops_ids p) \<and> ops_ids p \<noteq> []
     \<and> (\<forall>f \<in> set (ops_ids p). \<exists>fo. map_of byID f = Some fo \<and> \<not> rf_Tombstone (opf_state fo))"

lemma live_states_Cons: "live_states (st # sts) = (if rs_Tombstone st then live_states sts else projected_state st # live_states sts)"
  by (simp add: live_states_def)

lemma graph_states_spec:
  assumes "graph_states su byID sts (seen, by, entries ps, live, deletes) = Inr (by', selected, live', deletes')"
    and "distinct (keys by)" and "\<forall>f. inner by f = members f ps"
    and "distinct (map ops_version ps)" and "distinct seen" and "set (map ops_logical ps) \<subseteq> set seen"
    and "distinct (map ops_logical ps)" and "list_all (in_live_folders byID) ps"
  shows "selected = entries (ps @ live_states sts) \<and> distinct (keys by') \<and> (\<forall>f. inner by' f = members f (ps @ live_states sts))
    \<and> distinct (map ops_version (ps @ live_states sts)) \<and> distinct (map ops_logical (ps @ live_states sts))
    \<and> list_all (in_live_folders byID) (ps @ live_states sts)
    \<and> live' = live + length (live_states sts) \<and> deletes' + length (live_states sts) = deletes + length sts"
  using assms
proof (induction sts arbitrary: seen "by" ps live deletes)
  case Nil
  then show ?case by (auto simp: live_states_def)
next
  case (Cons st sts)
  from Cons.prems(1) have fresh: "rs_LogicalMessageID st \<notin> set seen" by (auto split: if_splits)
  show ?case
  proof (cases "rs_Tombstone st")
    case True
    with Cons.prems(1) have rest: "graph_states su byID sts (rs_LogicalMessageID st # seen, by, entries ps, live, deletes + 1) = Inr (by', selected, live', deletes')"
      by (auto simp: Let_def split: if_splits)
    have "distinct (rs_LogicalMessageID st # seen)" "set (map ops_logical ps) \<subseteq> set (rs_LogicalMessageID st # seen)"
      using Cons.prems(5,6) fresh by auto
    from Cons.IH[OF rest Cons.prems(2,3,4) this Cons.prems(7,8)] True show ?thesis
      by (simp add: live_states_Cons)
  next
    case False
    let ?p = "projected_state st"
    from Cons.prems(1) False obtain by1 where m: "graph_memberships byID ?p None (elems (rs_MailboxIDs (ops_state ?p))) by = Inr by1"
      and nv: "map_of (entries ps) (rs_Version st) = None" and ne: "elems (rs_MailboxIDs st) \<noteq> []"
      and rest0: "graph_states su byID sts (rs_LogicalMessageID st # seen, by1, AList.update (rs_Version st) ?p (entries ps), live + 1, deletes)
        = Inr (by', selected, live', deletes')"
      by (auto simp: Let_def split: if_splits sum.splits)
    have ids: "elems (rs_MailboxIDs (ops_state ?p)) = sort (elems (rs_MailboxIDs st))"
      using projected_state_fields(3)[of st] by (simp only: ops_ids_def)
    note M = graph_memberships_spec[OF m[unfolded ids] _ Cons.prems(2)]
    have rest: "graph_states su byID sts (rs_LogicalMessageID st # seen, by1, entries (ps @ [?p]), live + 1, deletes)
        = Inr (by', selected, live', deletes')"
      using rest0 update_appends[OF nv, of ?p] by (simp add: entries_def)
    have live: "in_live_folders byID ?p"
      using M ne unfolding in_live_folders_def projected_state_fields by (auto simp: distinct_sort dest: arg_cong[of _ _ length])
    have "rs_Version st \<notin> set (map ops_version ps)"
      using nv by (force simp: entries_def map_of_eq_None_iff)
    with Cons.prems(4) have "distinct (map ops_version (ps @ [?p]))" by auto
    moreover have "\<forall>f. inner by1 f = members f (ps @ [?p])" "distinct (keys by1)"
      using M Cons.prems(3) by (auto simp: members_def)
    moreover have "distinct (rs_LogicalMessageID st # seen)" "set (map ops_logical (ps @ [?p])) \<subseteq> set (rs_LogicalMessageID st # seen)"
      "distinct (map ops_logical (ps @ [?p]))" "list_all (in_live_folders byID) (ps @ [?p])"
      using Cons.prems(5-8) fresh live by auto
    ultimately show ?thesis
      using Cons.IH[OF rest, of] False by (simp add: live_states_Cons)
  qed
qed

text \<open>Numbers written so far.\<close>

definition number_of :: "officialProjectionState gomap \<Rightarrow> bytes \<Rightarrow> bytes \<Rightarrow> u32 option" where
  "number_of selected v f = Option.bind (map_of selected v) (\<lambda>p. map_of (ops_uids p) f)"

lemma put_uid_simps:
  "map_option ops_state (map_of (put_uid v f uid sel) u) = map_option ops_state (map_of sel u)"
  "keys (put_uid v f uid sel) = keys sel"
  "number_of (put_uid v f uid sel) u g = (if u = v \<and> g = f \<and> map_of sel v \<noteq> None then Some uid else number_of sel u g)"
proof -
  show "map_option ops_state (map_of (put_uid v f uid sel) u) = map_option ops_state (map_of sel u)"
    by (auto simp: put_uid_def split: option.splits)
  have "keys (AList.update k x m) = keys m" if "map_of m k \<noteq> None" for k x and m :: "officialProjectionState gomap"
    using that by (induction m) auto
  then show "keys (put_uid v f uid sel) = keys sel" by (auto simp: put_uid_def split: option.splits)
  show "number_of (put_uid v f uid sel) u g = (if u = v \<and> g = f \<and> map_of sel v \<noteq> None then Some uid else number_of sel u g)"
    by (auto simp: put_uid_def number_of_def split: option.splits)
qed

lemma number_states_keeps:
  "map_option ops_state (map_of (number_states f k ps sel) u) = map_option ops_state (map_of sel u)"
  "keys (number_states f k ps sel) = keys sel"
  "u \<notin> set (map ops_version ps) \<or> g \<noteq> f \<Longrightarrow> number_of (number_states f k ps sel) u g = number_of sel u g"
proof -
  show "map_option ops_state (map_of (number_states f k ps sel) u) = map_option ops_state (map_of sel u)"
    by (induction ps arbitrary: k sel) (simp_all add: put_uid_simps(1))
  show "keys (number_states f k ps sel) = keys sel"
    by (induction ps arbitrary: k sel) (simp_all add: put_uid_simps(2))
  show "number_of (number_states f k ps sel) u g = number_of sel u g" if "u \<notin> set (map ops_version ps) \<or> g \<noteq> f"
    using that by (induction ps arbitrary: k sel) (auto simp: put_uid_simps(3))
qed

lemma number_states_numbers:
  "distinct (map ops_version ps) \<Longrightarrow> set (map ops_version ps) \<subseteq> set (keys sel) \<Longrightarrow>
    map (\<lambda>p. number_of (number_states f k ps sel) (ops_version p) f) ps = map (\<lambda>i. Some (of_nat i)) [Suc k..<Suc (k + length ps)]"
proof (induction ps arbitrary: k sel)
  case (Cons p ps)
  let ?sel = "put_uid (ops_version p) f (of_nat (k + 1)) sel"
  have "map (\<lambda>q. number_of (number_states f (Suc k) ps ?sel) (ops_version q) f) ps
      = map (\<lambda>i. Some (of_nat i)) [Suc (Suc k)..<Suc (Suc k + length ps)]"
    using Cons.prems by (intro Cons.IH) (auto simp: put_uid_simps(2))
  moreover have "number_of (number_states f (Suc k) ps ?sel) (ops_version p) f = Some (of_nat (k + 1))"
    using Cons.prems by (subst number_states_keeps(3)) (auto simp: put_uid_simps(3) map_of_eq_None_iff)
  moreover have "[Suc k..<Suc (k + length (p # ps))] = Suc k # [Suc (Suc k)..<Suc (Suc k + length ps)]"
    by (simp add: upt_rec)
  ultimately show ?case by simp
qed simp

text \<open>The order in which the messages of a folder are numbered.\<close>

definition in_order :: "bytes \<Rightarrow> officialProjectionState list \<Rightarrow> officialProjectionState list" where
  "in_order f ps = sort_key ops_key (members f ps)"

lemma in_order_facts:
  assumes "distinct (map ops_version ps)" and "distinct (map ops_logical ps)"
  shows "set (in_order f ps) = set (members f ps)" and "length (in_order f ps) = length (members f ps)"
    and "distinct (map ops_version (in_order f ps))" and "sorted_wrt (\<lambda>p q. ops_logical p < ops_logical q) (in_order f ps)"
proof -
  have m: "mset (in_order f ps) = mset (members f ps)" by (simp add: in_order_def)
  show "set (in_order f ps) = set (members f ps)" by (simp add: in_order_def)
  show "length (in_order f ps) = length (members f ps)" by (simp add: in_order_def)
  have "distinct (map ops_version (members f ps))" "distinct (map ops_logical (members f ps))"
    using assms by (auto simp: members_def distinct_map inj_on_def)
  with m show "distinct (map ops_version (in_order f ps))" by (metis mset_eq_imp_distinct_iff mset_map)
  have d: "distinct (map ops_logical (in_order f ps))"
    using m \<open>distinct (map ops_logical (members f ps))\<close> by (metis mset_eq_imp_distinct_iff mset_map)
  have "sorted (map ops_key (in_order f ps))" by (simp add: in_order_def)
  then have "sorted_wrt (\<lambda>p q. ops_logical p \<le> ops_logical q) (in_order f ps)"
    by (auto simp: sorted_map ops_key_def elim!: sorted_wrt_mono_rel[rotated])
  with d show "sorted_wrt (\<lambda>p q. ops_logical p < ops_logical q) (in_order f ps)"
    by (auto simp: sorted_wrt_iff_nth_less distinct_conv_nth order_less_le)
qed

lemma number_folders_spec:
  assumes "distinct (map fst by)" and "list_all (\<lambda>e. distinct (map ops_version (snd e)) \<and> set (map ops_version (snd e)) \<subseteq> set (keys sel)) by"
  shows "(\<forall>u. map_option ops_state (map_of (number_folders by sel) u) = map_option ops_state (map_of sel u))
    \<and> keys (number_folders by sel) = keys sel
    \<and> (\<forall>f u. f \<notin> fst ` set by \<longrightarrow> number_of (number_folders by sel) u f = number_of sel u f)
    \<and> (\<forall>f ps. (f, ps) \<in> set by \<longrightarrow> map (\<lambda>p. number_of (number_folders by sel) (ops_version p) f) (sort_key ops_key ps)
        = map (\<lambda>i. Some (of_nat i)) [1..<Suc (length ps)])"
  using assms
proof (induction "by" arbitrary: sel)
  case Nil
  then show ?case by (simp add: number_folders_def)
next
  case (Cons e rest)
  obtain g qs where e: "e = (g, qs)" by (cases e)
  let ?sel = "number_states g 0 (sort_key ops_key qs) sel"
  have run: "number_folders (e # rest) sel = number_folders rest ?sel" by (simp add: number_folders_def e)
  have fresh: "g \<notin> fst ` set rest" and rest: "distinct (map fst rest)" using Cons.prems(1) by (auto simp: e)
  have qs: "distinct (map ops_version (sort_key ops_key qs))" "set (map ops_version (sort_key ops_key qs)) \<subseteq> set (keys sel)"
    using Cons.prems(2) by (auto simp: e distinct_map)
  have "list_all (\<lambda>e. distinct (map ops_version (snd e)) \<and> set (map ops_version (snd e)) \<subseteq> set (keys ?sel)) rest"
    using Cons.prems(2) by (simp add: number_states_keeps(2))
  note IH = Cons.IH[OF rest this]
  have "number_of (number_folders rest ?sel) u f = number_of sel u f" if "f \<noteq> g" "f \<notin> fst ` set rest" for u f
    using IH that by (simp add: number_states_keeps(3))
  moreover have "map (\<lambda>p. number_of (number_folders rest ?sel) (ops_version p) f) (sort_key ops_key ps)
        = map (\<lambda>i. Some (of_nat i)) [1..<Suc (length ps)]" if "(f, ps) \<in> set (e # rest)" for f ps
  proof (cases "f = g")
    case True
    with that e fresh have ps: "ps = qs" by (metis fst_conv image_eqI prod.inject set_ConsD)
    have "number_of (number_folders rest ?sel) u g = number_of ?sel u g" for u using IH fresh by simp
    with number_states_numbers[OF qs, of g 0] show ?thesis by (simp add: True ps)
  next
    case False
    with that e have "(f, ps) \<in> set rest" by auto
    with IH show ?thesis by blast
  qed
  ultimately show ?case
    using IH unfolding run by (auto simp: e number_states_keeps(1,2))
qed

abbreviation opf_id :: "officialProjectionFolder \<Rightarrow> bytes" where
  "opf_id fo \<equiv> rf_FolderID (opf_state fo)"

lemma graph_folders_spec:
  assumes "graph_folders lower su sts (byID, names, fos) = Inr (byID', fos')"
    and "distinct (keys byID)" and "\<forall>f fo. map_of byID f = Some fo \<longrightarrow> opf_id fo = f"
    and "\<forall>fo. fo \<in> set fos \<longleftrightarrow> map_of byID (opf_id fo) = Some fo \<and> \<not> rf_Tombstone (opf_state fo)"
    and "distinct (map opf_id fos)" and "distinct (map (\<lambda>fo. lower (rf_Name (opf_state fo))) fos)"
    and "\<forall>fo \<in> set fos. map_of names (lower (rf_Name (opf_state fo))) = Some (opf_id fo)"
  shows "distinct (keys byID') \<and> (\<forall>f fo. map_of byID' f = Some fo \<longrightarrow> opf_id fo = f)
    \<and> (\<forall>fo. fo \<in> set fos' \<longleftrightarrow> map_of byID' (opf_id fo) = Some fo \<and> \<not> rf_Tombstone (opf_state fo))
    \<and> distinct (map opf_id fos') \<and> distinct (map (\<lambda>fo. lower (rf_Name (opf_state fo))) fos')"
  using assms
proof (induction sts arbitrary: byID names fos)
  case Nil
  then show ?case by simp
next
  case (Cons st sts)
  let ?fo = "\<lparr>opf_state = st, opf_uidValidity = StableFolderUIDValidity (ot_RepoDID (su_Target su)) (rf_FolderID st)\<rparr>"
  let ?byID = "AList.update (rf_FolderID st) ?fo byID"
  from Cons.prems(1) have new: "map_of byID (rf_FolderID st) = None" by (auto split: if_splits)
  have "distinct (keys ?byID)" "\<forall>f fo. map_of ?byID f = Some fo \<longrightarrow> opf_id fo = f" using Cons.prems(2,3) by auto
  note base = this
  show ?case
  proof (cases "rf_Tombstone st")
    case True
    with Cons.prems(1) have rest: "graph_folders lower su sts (?byID, names, fos) = Inr (byID', fos')"
      by (auto simp: Let_def split: if_splits)
    have "\<forall>fo. fo \<in> set fos \<longleftrightarrow> map_of ?byID (opf_id fo) = Some fo \<and> \<not> rf_Tombstone (opf_state fo)"
      using Cons.prems(4) new True by auto
    from Cons.IH[OF rest base this Cons.prems(5,6,7)] show ?thesis .
  next
    case False
    from Cons.prems(1) False have nn: "case map_of names (lower (rf_Name st)) of Some prior \<Rightarrow> prior = rf_FolderID st | None \<Rightarrow> True"
      and rest: "graph_folders lower su sts (?byID, AList.update (lower (rf_Name st)) (rf_FolderID st) names, fos @ [?fo]) = Inr (byID', fos')"
      by (auto simp: Let_def split: if_splits option.splits)
    have apart: "opf_id fo \<noteq> rf_FolderID st \<and> lower (rf_Name (opf_state fo)) \<noteq> lower (rf_Name st)" if "fo \<in> set fos" for fo
    proof -
      have "opf_id fo \<noteq> rf_FolderID st" using Cons.prems(4) that new by auto
      moreover from this have "lower (rf_Name (opf_state fo)) \<noteq> lower (rf_Name st)"
        using Cons.prems(7) that nn by auto
      ultimately show ?thesis by simp
    qed
    have "\<forall>fo. fo \<in> set (fos @ [?fo]) \<longleftrightarrow> map_of ?byID (opf_id fo) = Some fo \<and> \<not> rf_Tombstone (opf_state fo)"
    proof
      fix fo
      show "fo \<in> set (fos @ [?fo]) \<longleftrightarrow> map_of ?byID (opf_id fo) = Some fo \<and> \<not> rf_Tombstone (opf_state fo)"
      proof (cases "opf_id fo = rf_FolderID st")
        case True
        with Cons.prems(4) new have "fo \<notin> set fos" by auto
        moreover have "fo = ?fo \<Longrightarrow> \<not> rf_Tombstone (opf_state fo)" using False by simp
        ultimately show ?thesis using True by auto
      next
        case other: False
        then have "fo \<noteq> ?fo" by auto
        with other Cons.prems(4) show ?thesis by simp
      qed
    qed
    moreover have "distinct (map opf_id (fos @ [?fo]))" "distinct (map (\<lambda>fo. lower (rf_Name (opf_state fo))) (fos @ [?fo]))"
      "\<forall>fo \<in> set (fos @ [?fo]). map_of (AList.update (lower (rf_Name st)) (rf_FolderID st) names) (lower (rf_Name (opf_state fo))) = Some (opf_id fo)"
    proof -
      have "rf_FolderID st \<notin> opf_id ` set fos" "lower (rf_Name st) \<notin> (\<lambda>fo. lower (rf_Name (opf_state fo))) ` set fos"
        by (rule notI, erule imageE, drule apart, simp)+
      with Cons.prems(5,6) show "distinct (map opf_id (fos @ [?fo]))" "distinct (map (\<lambda>fo. lower (rf_Name (opf_state fo))) (fos @ [?fo]))"
        by simp_all
      show "\<forall>fo \<in> set (fos @ [?fo]). map_of (AList.update (lower (rf_Name st)) (rf_FolderID st) names) (lower (rf_Name (opf_state fo))) = Some (opf_id fo)"
        using Cons.prems(7) apart by simp
    qed
    ultimately show ?thesis by (rule Cons.IH[OF rest base])
  qed
qed

text \<open>
  A well-formed graph over the states that are not deleted: the selected states are those states
  under their versions, each in live folders, and each folder numbers its messages from one in the order of
  their identities.
\<close>

definition graph_wf :: "officialProjectionState list \<Rightarrow> officialProjectionGraph \<Rightarrow> bool" where
  "graph_wf ps g \<longleftrightarrow>
     distinct (map ops_version ps) \<and> keys (og_selected g) = map ops_version ps
     \<and> (\<forall>p \<in> set ps. map_option ops_state (map_of (og_selected g) (ops_version p)) = Some (ops_state p))
     \<and> (\<forall>p \<in> set ps. \<forall>f \<in> set (ops_ids p). \<exists>fo \<in> set (og_folders g). map_of (og_folderByID g) f = Some fo \<and> opf_id fo = f)
     \<and> (\<forall>p \<in> set ps. distinct (ops_ids p) \<and> ops_ids p \<noteq> []) \<and> distinct (map opf_id (og_folders g))
     \<and> (\<forall>f. \<exists>qs. set qs = {p \<in> set ps. f \<in> set (ops_ids p)} \<and> sorted_wrt (\<lambda>p q. ops_logical p < ops_logical q) qs
          \<and> map (\<lambda>q. number_of (og_selected g) (ops_version q) f) qs = map (\<lambda>i. Some (of_nat i)) [1..<Suc (length qs)])"

lemma graph_folders_live:
  "graph_folders lower su sts (byID, names, fos) = Inr (byID', fos') \<Longrightarrow>
     map opf_state fos' = map opf_state fos @ filter (\<lambda>st. \<not> rf_Tombstone st) sts"
  by (induction sts arbitrary: byID names fos) (auto simp: Let_def split: if_splits option.splits)

lemma build_graph_wf:
  assumes "buildOfficialProjectionGraph lower su fos sts = Inr g"
  shows "graph_wf (live_states sts) g \<and> og_liveStates g = length (live_states sts)
    \<and> og_messageDeletes g + length (live_states sts) = length sts
    \<and> distinct (map (\<lambda>fo. lower (rf_Name (opf_state fo))) (og_folders g))
    \<and> opf_state ` set (og_folders g) = {fo \<in> set fos. \<not> rf_Tombstone fo}"
proof -
  let ?ps = "live_states sts"
  from assms obtain byID live by0 selected nlive ndel where
    F: "graph_folders lower su fos ([], [], []) = Inr (byID, live)"
    and S: "graph_states su byID sts ([], [], entries [], 0, 0) = Inr (by0, selected, nlive, ndel)"
    and g: "g = \<lparr>og_folders = sort_key opf_id live, og_folderByID = byID, og_selected = number_folders by0 selected,
      og_liveStates = nlive, og_messageDeletes = ndel\<rparr>"
    by (auto simp: buildOfficialProjectionGraph_def entries_def split: sum.splits prod.splits)
  have fo: "\<forall>fo. fo \<in> set live \<longleftrightarrow> map_of byID (opf_id fo) = Some fo \<and> \<not> rf_Tombstone (opf_state fo)"
    "\<forall>f fo. map_of byID f = Some fo \<longrightarrow> opf_id fo = f"
    "distinct (map opf_id live)" "distinct (map (\<lambda>fo. lower (rf_Name (opf_state fo))) live)"
    using graph_folders_spec[OF F] by auto
  have st: "selected = entries ?ps" "distinct (keys by0)" "\<And>f. inner by0 f = members f ?ps"
    "distinct (map ops_version ?ps)" "distinct (map ops_logical ?ps)" "list_all (in_live_folders byID) ?ps"
    "nlive = length ?ps" "ndel + length ?ps = length sts"
    using graph_states_spec[OF S] by (auto simp: members_def)
  have items: "ps = members f ?ps" if "(f, ps) \<in> set by0" for f ps
    using inner_member[OF st(2) that] st(3) by simp
  have pre: "list_all (\<lambda>e. distinct (map ops_version (snd e)) \<and> set (map ops_version (snd e)) \<subseteq> set (keys (entries ?ps))) by0"
    using st(4) by (auto dest!: items simp: list_all_iff members_def entries_def distinct_map inj_on_def)
  note N = number_folders_spec[OF st(2) pre]
  note order = in_order_facts[OF st(4,5)]
  have numbers: "map (\<lambda>q. number_of (og_selected g) (ops_version q) f) (in_order f ?ps)
      = map (\<lambda>i. Some (of_nat i)) [1..<Suc (length (in_order f ?ps))]" for f
  proof (cases "f \<in> fst ` set by0")
    case True
    then obtain ps where ps: "(f, ps) \<in> set by0" by auto
    with N items[OF ps] show ?thesis by (simp add: g st(1) in_order_def)
  next
    case False
    then have "members f ?ps = []" using st(3)[of f] by (simp add: inner_def flip: map_of_eq_None_iff)
    then show ?thesis by (simp add: in_order_def)
  qed
  have sorted_folders: "set (og_folders g) = set live" "distinct (map opf_id (og_folders g))"
    "distinct (map (\<lambda>fo. lower (rf_Name (opf_state fo))) (og_folders g))"
    using fo(3,4) by (simp_all add: g) (metis mset_eq_imp_distinct_iff mset_map mset_sort)+
  have "map_option ops_state (map_of (og_selected g) (ops_version p)) = Some (ops_state p)" if "p \<in> set ?ps" for p
  proof -
    have "map_of (entries ?ps) (ops_version p) = Some p"
      using that st(4) by (auto simp: entries_def intro!: map_of_is_SomeI simp: comp_def)
    with N show ?thesis by (simp add: g st(1))
  qed
  moreover have "\<exists>fo \<in> set (og_folders g). map_of (og_folderByID g) f = Some fo \<and> opf_id fo = f"
    if "p \<in> set ?ps" "f \<in> set (ops_ids p)" for p f
    using that st(6) fo(1,2) unfolding sorted_folders(1) by (fastforce simp: list_all_iff in_live_folders_def g)
  moreover have "keys (og_selected g) = map ops_version ?ps"
    using N by (simp add: g st(1) entries_def)
  moreover have "\<exists>qs. set qs = {p \<in> set ?ps. f \<in> set (ops_ids p)} \<and> sorted_wrt (\<lambda>p q. ops_logical p < ops_logical q) qs
      \<and> map (\<lambda>q. number_of (og_selected g) (ops_version q) f) qs = map (\<lambda>i. Some (of_nat i)) [1..<Suc (length qs)]" for f
    using numbers[of f] order(1,4)[of f] by (intro exI[of _ "in_order f ?ps"]) (simp add: members_def del: upt_Suc)
  ultimately have "graph_wf ?ps g"
    unfolding graph_wf_def using st(4,6) sorted_folders(2) by (auto simp: list_all_iff in_live_folders_def)
  moreover have "opf_state ` set (og_folders g) = {fo \<in> set fos. \<not> rf_Tombstone fo}"
    using arg_cong[OF graph_folders_live[OF F], of set] unfolding sorted_folders(1) by auto
  ultimately show ?thesis using st(7,8) sorted_folders(3) by (simp add: g)
qed

section \<open>What the visit writes\<close>

abbreviation each_version :: "(MessageVersion \<Rightarrow> bytes \<Rightarrow> ('s, unit) op) \<Rightarrow> (MessageVersion \<times> bytes) list \<Rightarrow> ('s, unit) op" where
  "each_version visit ms \<equiv> visit_all (\<lambda>(v, raw). visit v raw) ms (Inr ())"

lemma insert_row_Inr:
  "insert_row step adm add faults (b, s) = (Inr u, y) \<Longrightarrow> y = (b\<lparr>rb_tx := add (rb_tx b)\<rparr>, s)"
  by (auto simp: insert_row_def after_def db_def raise_def give_def split: option.splits if_splits)

lemma insert_official_memberships_Inr:
  "insert_official_memberships faults byID v p fs (b, s) = (Inr u, y) \<Longrightarrow>
     y = (b\<lparr>rb_tx := (rb_tx b)\<lparr>tb_memberships := tb_memberships (rb_tx b) @ map (official_membership_row byID v p) fs\<rparr>\<rparr>, s)"
proof (induction fs arbitrary: b)
  case Nil
  then show ?case by (simp add: give_def)
next
  case (Cons f fs)
  from Cons.prems obtain z where z: "insert_membership (official_membership_row byID v p f) faults (b, s) = (Inr (), z)"
    and rest: "insert_official_memberships faults byID v p fs z = (Inr u, y)" by (auto elim: after_InrE)
  from insert_row_Inr[OF z[unfolded insert_membership_def]]
  have "z = (b\<lparr>rb_tx := (rb_tx b)\<lparr>tb_memberships := tb_memberships (rb_tx b) @ [official_membership_row byID v p f]\<rparr>\<rparr>, s)" .
  with Cons.IH[of "b\<lparr>rb_tx := (rb_tx b)\<lparr>tb_memberships := tb_memberships (rb_tx b) @ [official_membership_row byID v p f]\<rparr>\<rparr>"] rest
  show ?case by simp
qed

lemma insertOfficialMessage_Inr:
  assumes "insertOfficialMessage faults byID v raw p (b, w) = (Inr u, (b', w'))"
  shows "b' = b\<lparr>rb_tx := (rb_tx b)\<lparr>tb_messages := tb_messages (rb_tx b) @ [official_message_row v raw p],
      tb_memberships := tb_memberships (rb_tx b) @ map (official_membership_row byID v p) (ops_ids p)\<rparr>\<rparr>"
    and "wk_versions w' = wk_versions w" and "wk_selected w' = wk_selected w"
proof -
  from assms obtain y z where y: "insert_message (official_message_row v raw p) faults (b, w) = (Inr (), y)"
    and z: "insert_official_memberships faults byID v p (ops_ids p) y = (Inr (), z)"
    and e: "(b', w') = (case z of (b, w) \<Rightarrow> (b, w\<lparr>wk_manifest := (wk_manifest w)\<lparr>om_Messages := om_Messages (wk_manifest w) @ [manifest_message byID v p]\<rparr>\<rparr>))"
    unfolding insertOfficialMessage_def ops_ids_def by (auto elim!: after_InrE simp: on_walk_def split: prod.splits)
  from insert_row_Inr[OF y[unfolded insert_message_def]]
  have y': "y = (b\<lparr>rb_tx := (rb_tx b)\<lparr>tb_messages := tb_messages (rb_tx b) @ [official_message_row v raw p]\<rparr>\<rparr>, w)" .
  from insert_official_memberships_Inr[OF z[unfolded y']] e
  show "b' = b\<lparr>rb_tx := (rb_tx b)\<lparr>tb_messages := tb_messages (rb_tx b) @ [official_message_row v raw p],
      tb_memberships := tb_memberships (rb_tx b) @ map (official_membership_row byID v p) (ops_ids p)\<rparr>\<rparr>"
    "wk_versions w' = wk_versions w" "wk_selected w' = wk_selected w" by auto
qed

text \<open>The rows that a list of visited versions adds.\<close>

definition chosen :: "officialProjectionGraph \<Rightarrow> (MessageVersion \<times> bytes) list \<Rightarrow> (MessageVersion \<times> bytes \<times> officialProjectionState) list" where
  "chosen g ms = List.map_filter (\<lambda>(v, raw). map_option (\<lambda>p. (v, raw, p)) (map_of (og_selected g) (mv_RKey v))) ms"

definition add_rows :: "officialProjectionGraph \<Rightarrow> (MessageVersion \<times> bytes) list \<Rightarrow> Tables \<Rightarrow> Tables" where
  "add_rows g ms t = t\<lparr>tb_messages := tb_messages t @ map (\<lambda>(v, raw, p). official_message_row v raw p) (chosen g ms),
     tb_memberships := tb_memberships t @ concat (map (\<lambda>(v, raw, p). map (official_membership_row (og_folderByID g) v p) (ops_ids p)) (chosen g ms))\<rparr>"

definition version_verified :: "bytes \<Rightarrow> officialProjectionGraph \<Rightarrow> MessageVersion \<times> bytes \<Rightarrow> bool" where
  "version_verified did g m = (case m of (v, raw) \<Rightarrow>
     ValidateStoredMessage did (mv_RKey v) (mv_Record v) raw = Inr ()
     \<and> (case map_of (og_selected g) (mv_RKey v) of None \<Rightarrow> True | Some p \<Rightarrow> mr_LogicalMessageID (mv_Record v) = ops_logical p))"

lemma visit_version_Inr:
  assumes "visit_version faults did g v raw (b, w) = (Inr u, (b', w'))"
  shows "mv_RKey v \<notin> set (wk_versions w) \<and> version_verified did g (v, raw)
    \<and> rb_tx b' = add_rows g [(v, raw)] (rb_tx b) \<and> rb_files b' = rb_files b
    \<and> wk_versions w' = mv_RKey v # wk_versions w
    \<and> wk_selected w' = (if map_of (og_selected g) (mv_RKey v) = None then wk_selected w else List.insert (mv_RKey v) (wk_selected w))"
proof -
  let ?w = "w\<lparr>wk_versions := mv_RKey v # wk_versions w\<rparr>"
  from assms have new: "mv_RKey v \<notin> set (wk_versions w)"
    and valid: "ValidateStoredMessage did (mv_RKey v) (mv_Record v) raw = Inr ()"
    and run: "(case map_of (og_selected g) (mv_RKey v) of
           None \<Rightarrow> give ()
         | Some p \<Rightarrow>
             if mr_LogicalMessageID (mv_Record v) \<noteq> ops_logical p then raise ErrIntegrity
             else after (insertOfficialMessage faults (og_folderByID g) v raw p) (\<lambda>_.
               after (on_walk (\<lambda>w. w\<lparr>wk_selected := List.insert (mv_RKey v) (wk_selected w)\<rparr>)) (\<lambda>_.
                 report (\<lambda>r. r\<lparr>pr_TotalBytes := pr_TotalBytes r + int (length raw)\<rparr>)))) (b, ?w) = (Inr u, (b', w'))"
    by (auto simp: visit_version_def after_def on_walk_def returning_def split: if_splits sum.splits)
  show ?thesis
  proof (cases "map_of (og_selected g) (mv_RKey v)")
    case None
    with run new valid show ?thesis
      by (auto simp: give_def version_verified_def add_rows_def chosen_def map_filter_simps)
  next
    case (Some p)
    with run have logical: "mr_LogicalMessageID (mv_Record v) = ops_logical p" by (auto simp: raise_def split: if_splits)
    with run Some have "after (insertOfficialMessage faults (og_folderByID g) v raw p) (\<lambda>_.
        after (on_walk (\<lambda>w. w\<lparr>wk_selected := List.insert (mv_RKey v) (wk_selected w)\<rparr>)) (\<lambda>_.
          report (\<lambda>r. r\<lparr>pr_TotalBytes := pr_TotalBytes r + int (length raw)\<rparr>))) (b, ?w) = (Inr u, (b', w'))" by simp
    then obtain b1 w1 where ins: "insertOfficialMessage faults (og_folderByID g) v raw p (b, ?w) = (Inr (), (b1, w1))"
      and rest: "after (on_walk (\<lambda>w. w\<lparr>wk_selected := List.insert (mv_RKey v) (wk_selected w)\<rparr>)) (\<lambda>_.
          report (\<lambda>r. r\<lparr>pr_TotalBytes := pr_TotalBytes r + int (length raw)\<rparr>)) (b1, w1) = (Inr u, (b', w'))"
      by (auto elim: after_InrE)
    then have post: "rb_tx b' = rb_tx b1" "rb_files b' = rb_files b1" "wk_versions w' = wk_versions w1"
        "wk_selected w' = List.insert (mv_RKey v) (wk_selected w1)"
      by (auto simp: on_walk_def report_def adjust_def after_def)
    note I = insertOfficialMessage_Inr[OF ins]
    with post new valid Some logical show ?thesis
      by (simp add: version_verified_def add_rows_def chosen_def map_filter_simps)
  qed
qed

lemma add_rows_append: "add_rows g ms2 (add_rows g ms1 t) = add_rows g (ms1 @ ms2) t"
  by (simp add: add_rows_def chosen_def map_filter_def)

lemma each_version_Inr:
  assumes "each_version (visit_version faults did g) ms (b, w) = (Inr u, (b', w'))" and "distinct (wk_selected w)"
  shows "distinct (map (\<lambda>m. mv_RKey (fst m)) ms) \<and> list_all (version_verified did g) ms
    \<and> rb_tx b' = add_rows g ms (rb_tx b) \<and> rb_files b' = rb_files b
    \<and> length (wk_versions w') = length (wk_versions w) + length ms
    \<and> (\<forall>m \<in> set ms. mv_RKey (fst m) \<notin> set (wk_versions w)) \<and> distinct (wk_selected w')
    \<and> set (wk_selected w') = set (wk_selected w) \<union> {k \<in> (\<lambda>m. mv_RKey (fst m)) ` set ms. map_of (og_selected g) k \<noteq> None}"
  using assms
proof (induction ms arbitrary: b w)
  case Nil
  then show ?case by (auto simp: add_rows_def chosen_def map_filter_simps)
next
  case (Cons m ms)
  obtain v raw where m: "m = (v, raw)" by (cases m)
  from Cons.prems(1) obtain b1 w1 where one: "visit_version faults did g v raw (b, w) = (Inr (), (b1, w1))"
    and rest: "each_version (visit_version faults did g) ms (b1, w1) = (Inr u, (b', w'))"
    by (auto simp: m elim!: after_InrE)
  note V = visit_version_Inr[OF one]
  have "distinct (wk_selected w1)" using V Cons.prems(2) by simp
  note IH = Cons.IH[OF rest this]
  have "rb_tx b' = add_rows g (m # ms) (rb_tx b)" using IH V add_rows_append[of g ms "[m]" "rb_tx b"] by (simp add: m)
  with IH V show ?case by (auto simp: m)
qed

text \<open>The tables of a finished rebuild, and what the walk over the messages must have found.\<close>

definition official_tables :: "Target \<Rightarrow> officialProjectionGraph \<Rightarrow> (MessageVersion \<times> bytes) list \<Rightarrow> Tables" where
  "official_tables target g ms = add_rows g ms (no_tables\<lparr>tb_meta := [target], tb_folders := map official_folder_row (og_folders g)\<rparr>)"

definition complete_walk :: "bytes \<Rightarrow> ContentVerificationSummary \<Rightarrow> officialProjectionGraph \<Rightarrow> (MessageVersion \<times> bytes) list \<Rightarrow> bool" where
  "complete_walk did su g ms \<longleftrightarrow> distinct (map (\<lambda>m. mv_RKey (fst m)) ms) \<and> list_all (version_verified did g) ms
     \<and> length ms = su_MessageVersions su \<and> set (keys (og_selected g)) \<subseteq> (\<lambda>m. mv_RKey (fst m)) ` set ms"

section \<open>No constraint is violated\<close>

text \<open>
  A graph whose rows the schema admits: it is well formed, its folders have different names, and it has
  fewer than \<open>2\<^sup>3\<^sup>2\<close> states, so that the numbers of a folder do not wrap.
\<close>

definition graph_fits :: "officialProjectionState list \<Rightarrow> officialProjectionGraph \<Rightarrow> bool" where
  "graph_fits ps g \<longleftrightarrow> graph_wf ps g \<and> distinct (map (\<lambda>fo. rf_Name (opf_state fo)) (og_folders g)) \<and> length ps < 2 ^ 32"

text \<open>Heights that \<^verbatim>\<open>database/sql\<close> accepts.\<close>

definition graph_sized :: "officialProjectionGraph \<Rightarrow> bool" where
  "graph_sized g \<longleftrightarrow> (\<forall>fo \<in> set (og_folders g). sql_integer (rf_Height (opf_state fo)))
     \<and> (\<forall>k p. map_of (og_selected g) k = Some p \<longrightarrow> sql_integer (rs_Height (ops_state p)))"

lemma selected_state:
  assumes "graph_wf ps g" and "map_of (og_selected g) k = Some p"
  shows "\<exists>p0 \<in> set ps. ops_version p0 = k \<and> ops_state p0 = ops_state p"
proof -
  have "k \<in> set (map ops_version ps)" using assms unfolding graph_wf_def by (metis map_of_eq_None_iff option.distinct(1) set_map)
  then obtain p0 where p0: "p0 \<in> set ps" "k = ops_version p0" by auto
  with assms show ?thesis unfolding graph_wf_def by (metis option.inject option.map(2))
qed

abbreviation folder_name :: "officialProjectionGraph \<Rightarrow> bytes \<Rightarrow> bytes" where
  "folder_name g f \<equiv> fst (folder_or_zero (og_folderByID g) f)"

lemma selected_folder:
  assumes "graph_wf ps g" and "map_of (og_selected g) k = Some p" and "f \<in> set (ops_ids p)"
  shows "\<exists>fo \<in> set (og_folders g). folder_name g f = rf_Name (opf_state fo) \<and> opf_id fo = f"
proof -
  from selected_state[OF assms(1,2)] obtain p0 where p0: "p0 \<in> set ps" "ops_state p0 = ops_state p" by blast
  with assms(3) have "f \<in> set (ops_ids p0)" by (simp add: ops_ids_def)
  with assms(1) p0 obtain fo where "fo \<in> set (og_folders g)" "map_of (og_folderByID g) f = Some fo" "opf_id fo = f"
    unfolding graph_wf_def by blast
  then show ?thesis by (auto simp: folder_or_zero_def)
qed

lemma folder_name_eq:
  assumes "graph_fits ps g" and "map_of (og_selected g) k = Some p" "f \<in> set (ops_ids p)"
    and "map_of (og_selected g) k' = Some p'" "f' \<in> set (ops_ids p')" and "folder_name g f = folder_name g f'"
  shows "f = f'"
proof -
  have wf: "graph_wf ps g" and names: "inj_on (\<lambda>fo. rf_Name (opf_state fo)) (set (og_folders g))"
    using assms(1) by (auto simp: graph_fits_def distinct_map)
  from selected_folder[OF wf assms(2,3)] selected_folder[OF wf assms(4,5)] assms(6) names
  show ?thesis by (metis inj_onD)
qed

lemma uid_number:
  assumes "graph_fits ps g"
  shows "\<exists>qs :: officialProjectionState list. length qs < 2 ^ 32
    \<and> (\<forall>k p. map_of (og_selected g) k = Some p \<and> f \<in> set (ops_ids p) \<longrightarrow>
        (\<exists>i < length qs. ops_version (qs ! i) = k \<and> uid_or_zero p f = of_nat (Suc i)))"
proof -
  have wf: "graph_wf ps g" and few: "length ps < 2 ^ 32" using assms by (auto simp: graph_fits_def)
  then obtain qs where qs: "set qs = {p \<in> set ps. f \<in> set (ops_ids p)}" "sorted_wrt (\<lambda>p q. ops_logical p < ops_logical q) qs"
    and n: "map (\<lambda>q. number_of (og_selected g) (ops_version q) f) qs = map (\<lambda>i. Some (of_nat i)) [1..<Suc (length qs)]"
    unfolding graph_wf_def by blast
  have "distinct qs" using qs(2) by (induction qs) auto
  then have "length qs \<le> length ps"
    using qs(1) card_mono[of "set ps" "set qs"] card_length[of ps] distinct_card[of qs] by auto
  moreover have "\<exists>i < length qs. ops_version (qs ! i) = x \<and> uid_or_zero q f = of_nat (Suc i)"
    if "map_of (og_selected g) x = Some q" "f \<in> set (ops_ids q)" for x q
  proof -
    from selected_state[OF wf that(1)] obtain p0 where "p0 \<in> set ps" "ops_version p0 = x" "ops_state p0 = ops_state q" by blast
    with that(2) qs(1) have "p0 \<in> set qs" by (auto simp: ops_ids_def)
    then obtain i where i: "i < length qs" "qs ! i = p0" by (auto simp: in_set_conv_nth)
    with n have "number_of (og_selected g) x f = Some (of_nat (Suc i))"
      using \<open>ops_version p0 = x\<close> by (auto dest!: arg_cong[where f = "\<lambda>l. l ! i"] simp del: upt_Suc)
    with that(1) have "uid_or_zero q f = of_nat (Suc i)" by (simp add: number_of_def uid_or_zero_def)
    with i \<open>ops_version p0 = x\<close> show ?thesis by auto
  qed
  ultimately show ?thesis using few by (intro exI[of _ qs]) auto
qed

lemma unat_number: "i < n \<Longrightarrow> n < 2 ^ 32 \<Longrightarrow> unat (of_nat (Suc i) :: u32) = Suc i"
  by (simp add: unat_of_nat take_bit_nat_eq_self del: of_nat_Suc)

lemma uid_eq:
  assumes "graph_fits ps g" and "map_of (og_selected g) k = Some p" "f \<in> set (ops_ids p)"
    and "map_of (og_selected g) k' = Some p'" "f \<in> set (ops_ids p')" and "uid_or_zero p f = uid_or_zero p' f"
  shows "k = k'"
  using uid_number[OF assms(1), of f] assms(2-6) unat_number by (metis Suc_inject)

lemma uid_nonzero:
  assumes "graph_fits ps g" and "map_of (og_selected g) k = Some p" "f \<in> set (ops_ids p)"
  shows "uid_or_zero p f \<noteq> 0"
  using uid_number[OF assms(1), of f] assms(2,3) unat_number by (metis unat_0 nat.distinct(1))

lemma memberships_run:
  assumes "sql_integer (rs_Height (ops_state p))" and "distinct (map (\<lambda>f. fst (folder_or_zero byID f)) fs)" and "mv_RKey v \<in> set (map mw_rkey (tb_messages (rb_tx b)))"
    and "\<forall>f \<in> set fs. fst (folder_or_zero byID f) \<in> set (map fw_name (tb_folders (rb_tx b)))
      \<and> (\<forall>r \<in> set (tb_memberships (rb_tx b)). (bw_rkey r, bw_mailbox r) \<noteq> (mv_RKey v, fst (folder_or_zero byID f))
          \<and> (bw_mailbox r, bw_uid r) \<noteq> (fst (folder_or_zero byID f), uid_or_zero p f))"
  shows "fst (insert_official_memberships no_faults byID v p fs (b, s)) = Inr ()"
  using assms
proof (induction fs arbitrary: b)
  case Nil
  then show ?case by (simp add: give_def)
next
  case (Cons f fs)
  let ?row = "official_membership_row byID v p f"
  let ?b = "b\<lparr>rb_tx := (rb_tx b)\<lparr>tb_memberships := tb_memberships (rb_tx b) @ [?row]\<rparr>\<rparr>"
  have row: "bw_rkey ?row = mv_RKey v" "bw_mailbox ?row = fst (folder_or_zero byID f)" "bw_uid ?row = uid_or_zero p f"
    "bw_modseq ?row = rs_Height (ops_state p)"
    by (simp_all add: official_membership_row_def)
  have one: "insert_membership ?row no_faults (b, s) = (Inr (), (?b, s))"
    using Cons.prems by (fastforce simp: insert_membership_def row)
  have "fst (insert_official_memberships no_faults byID v p fs (?b, s)) = Inr ()"
    using Cons.prems by (intro Cons.IH) (auto simp: row)
  with one show ?case by (simp add: after_def)
qed

lemma build_graph_fits:
  assumes "buildOfficialProjectionGraph lower su fos sts = Inr g" and "length sts < 2 ^ 32"
  shows "graph_fits (live_states sts) g"
proof -
  note G = build_graph_wf[OF assms(1)]
  then have "distinct (map lower (map (\<lambda>fo. rf_Name (opf_state fo)) (og_folders g)))" by (simp add: comp_def)
  then have "distinct (map (\<lambda>fo. rf_Name (opf_state fo)) (og_folders g))" by (simp only: distinct_map)
  moreover have "length (live_states sts) < 2 ^ 32"
    using le_less_trans[OF length_filter_le assms(2), of "\<lambda>st. \<not> rs_Tombstone st"] by (simp add: live_states_def)
  ultimately show ?thesis using G by (simp add: graph_fits_def)
qed

definition official_sized :: "ReducedFolderState list \<Rightarrow> ReducedState list \<Rightarrow> bool" where
  "official_sized fos sts \<longleftrightarrow> length sts < 2 ^ 32 \<and> (\<forall>fo \<in> set fos. sql_integer (rf_Height fo)) \<and> (\<forall>st \<in> set sts. sql_integer (rs_Height st))"

lemma build_graph_sized:
  assumes "buildOfficialProjectionGraph lower su fos sts = Inr g" and "official_sized fos sts"
  shows "graph_sized g"
proof -
  note G = build_graph_wf[OF assms(1)]
  then have "opf_state fo \<in> set fos" if "fo \<in> set (og_folders g)" for fo using that by blast
  moreover have "sql_integer (rs_Height (ops_state p))" if "map_of (og_selected g) k = Some p" for k p
  proof -
    from selected_state[OF conjunct1[OF G] that] obtain p0 where p0: "p0 \<in> set (live_states sts)" "ops_state p0 = ops_state p" by blast
    from p0(1) assms(2) have "sql_integer (rs_Height (ops_state p0))" by (auto simp: live_states_def projected_state_def official_sized_def)
    with p0(2) show ?thesis by simp
  qed
  ultimately show ?thesis using assms(2) by (simp add: graph_sized_def official_sized_def)
qed

lemma chosen_member:
  "(v, raw, p) \<in> set (chosen g ms) \<longleftrightarrow> (v, raw) \<in> set ms \<and> map_of (og_selected g) (mv_RKey v) = Some p"
  by (induction ms) (auto simp: chosen_def map_filter_simps split: option.splits)

lemma official_tables_members:
  "r \<in> set (tb_memberships (official_tables target g ms)) \<Longrightarrow>
     (\<exists>v raw p f. (v, raw) \<in> set ms \<and> map_of (og_selected g) (mv_RKey v) = Some p \<and> f \<in> set (ops_ids p)
        \<and> r = official_membership_row (og_folderByID g) v p f)"
  by (auto simp: official_tables_def add_rows_def no_tables_def chosen_member) blast

lemma official_tables_messages:
  "mw_rkey ` set (tb_messages (official_tables target g ms)) \<subseteq> (\<lambda>m. mv_RKey (fst m)) ` set ms"
  by (auto simp: official_tables_def add_rows_def no_tables_def chosen_member official_message_row_def intro: rev_image_eqI)

lemma insert_message_runs:
  assumes fits: "graph_fits ps g" and sized: "graph_sized g" and tx: "rb_tx b = official_tables target g before"
    and new: "mv_RKey v \<notin> (\<lambda>m. mv_RKey (fst m)) ` set before" and p: "map_of (og_selected g) (mv_RKey v) = Some p"
  shows "fst (insertOfficialMessage no_faults (og_folderByID g) v raw p (b, w)) = Inr ()"
proof -
  let ?row = "official_message_row v raw p"
  let ?b = "b\<lparr>rb_tx := (rb_tx b)\<lparr>tb_messages := tb_messages (rb_tx b) @ [?row]\<rparr>\<rparr>"
  have wf: "graph_wf ps g" using fits by (simp add: graph_fits_def)
  have key: "mw_rkey ?row = mv_RKey v" by (simp add: official_message_row_def)
  have "mv_RKey v \<notin> mw_rkey ` set (tb_messages (rb_tx b))" using new official_tables_messages[of target g before] tx by auto
  then have one: "insert_message ?row no_faults (b, w) = (Inr (), (?b, w))" by (simp add: insert_message_def key)
  have "fst (insert_official_memberships no_faults (og_folderByID g) v p (ops_ids p) (?b, w)) = Inr ()"
  proof (rule memberships_run)
    show "sql_integer (rs_Height (ops_state p))" using sized p by (auto simp: graph_sized_def)
    from selected_state[OF wf p] obtain p0 where "p0 \<in> set ps" "ops_state p0 = ops_state p" by blast
    with wf have "distinct (ops_ids p)" by (auto simp: graph_wf_def ops_ids_def)
    then show "distinct (map (\<lambda>f. folder_name g f) (ops_ids p))"
      using folder_name_eq[OF fits p _ p] by (auto simp: distinct_map intro!: inj_onI)
    show "mv_RKey v \<in> set (map mw_rkey (tb_messages (rb_tx ?b)))" by (simp add: key)
    have "folder_name g f \<in> set (map fw_name (tb_folders (rb_tx ?b)))" if "f \<in> set (ops_ids p)" for f
      using selected_folder[OF wf p that] tx by (auto simp: official_tables_def add_rows_def no_tables_def official_folder_row_def image_iff)
    moreover have "(bw_rkey r, bw_mailbox r) \<noteq> (mv_RKey v, folder_name g f) \<and> (bw_mailbox r, bw_uid r) \<noteq> (folder_name g f, uid_or_zero p f)"
      if f: "f \<in> set (ops_ids p)" and r: "r \<in> set (tb_memberships (rb_tx ?b))" for f r
    proof -
      from r tx obtain v' raw' p' f' where r': "(v', raw') \<in> set before" "map_of (og_selected g) (mv_RKey v') = Some p'"
        "f' \<in> set (ops_ids p')" "r = official_membership_row (og_folderByID g) v' p' f'"
        by (auto dest: official_tables_members)
      have ne: "mv_RKey v' \<noteq> mv_RKey v" using new r'(1) by force
      have "f' = f" if "folder_name g f' = folder_name g f" using folder_name_eq[OF fits r'(2,3) p f that] .
      then show ?thesis using ne uid_eq[OF fits r'(2) _ p f] r'(3) by (auto simp: r'(4) official_membership_row_def)
    qed
    ultimately show "\<forall>f \<in> set (ops_ids p). folder_name g f \<in> set (map fw_name (tb_folders (rb_tx ?b)))
      \<and> (\<forall>r \<in> set (tb_memberships (rb_tx ?b)). (bw_rkey r, bw_mailbox r) \<noteq> (mv_RKey v, folder_name g f)
          \<and> (bw_mailbox r, bw_uid r) \<noteq> (folder_name g f, uid_or_zero p f))" by blast
  qed
  with one show ?thesis
    by (auto simp: insertOfficialMessage_def ops_ids_def after_def on_walk_def split: prod.splits sum.splits)
qed

lemma visit_version_runs:
  assumes fits: "graph_fits ps g" and sized: "graph_sized g" and tx: "rb_tx b = official_tables target g before"
    and new: "mv_RKey v \<notin> (\<lambda>m. mv_RKey (fst m)) ` set before" and seen: "mv_RKey v \<notin> set (wk_versions w)"
    and verified: "version_verified did g (v, raw)"
  shows "fst (visit_version no_faults did g v raw (b, w)) = Inr ()"
proof (cases "map_of (og_selected g) (mv_RKey v)")
  case None
  with seen verified show ?thesis
    by (simp add: visit_version_def version_verified_def after_def on_walk_def returning_def give_def)
next
  case (Some p)
  let ?w = "w\<lparr>wk_versions := mv_RKey v # wk_versions w\<rparr>"
  obtain x y where m: "insertOfficialMessage no_faults (og_folderByID g) v raw p (b, ?w) = (x, y)" by (metis prod.exhaust)
  with insert_message_runs[OF fits sized tx new Some, of raw ?w] have "x = Inr ()" by simp
  with m Some seen verified show ?thesis
    by (cases y) (simp add: visit_version_def version_verified_def after_def on_walk_def returning_def give_def report_def adjust_def)
qed

lemma each_version_runs:
  assumes "graph_fits ps g" and "graph_sized g" and "rb_tx b = official_tables target g before"
    and "distinct (map (\<lambda>m. mv_RKey (fst m)) (before @ ms))" and "list_all (version_verified did g) ms"
    and "set (wk_versions w) = (\<lambda>m. mv_RKey (fst m)) ` set before"
  shows "fst (each_version (visit_version no_faults did g) ms (b, w)) = Inr ()"
  using assms
proof (induction ms arbitrary: b w before)
  case Nil
  then show ?case by simp
next
  case (Cons m ms)
  obtain v raw where m: "m = (v, raw)" by (cases m)
  obtain x b1 w1 where one: "visit_version no_faults did g v raw (b, w) = (x, (b1, w1))" by (metis prod.exhaust)
  have "fst (visit_version no_faults did g v raw (b, w)) = Inr ()"
    using Cons.prems by (intro visit_version_runs[of ps g b target before]) (auto simp: m)
  with one have x: "x = Inr ()" by simp
  note V = visit_version_Inr[OF one[unfolded x]]
  have "rb_tx b1 = official_tables target g (before @ [m])"
    using V Cons.prems(3) by (simp add: official_tables_def add_rows_append m)
  then have "fst (each_version (visit_version no_faults did g) ms (b1, w1)) = Inr ()"
    using Cons.prems V by (intro Cons.IH[of b1 "before @ [m]" w1]) (auto simp: m)
  with one x show ?case by (simp add: m after_def)
qed

lemma insert_official_folders_runs:
  assumes "distinct (map opf_id fs)" and "distinct (map (\<lambda>fo. rf_Name (opf_state fo)) fs)" and "tb_folders (rb_tx b) = []"
    and "\<forall>fo \<in> set fs. sql_integer (rf_Height (opf_state fo))"
  shows "fst (insert_official_folders no_faults fs (b, w)) = Inr ()"
proof -
  have "fst (insert_official_folders no_faults fs (b, w)) = Inr ()"
    if "distinct (map opf_id fs)" "distinct (map (\<lambda>fo. rf_Name (opf_state fo)) fs)"
      "\<forall>fo \<in> set fs. opf_id fo \<notin> fw_rkey ` set (tb_folders (rb_tx b)) \<and> rf_Name (opf_state fo) \<notin> fw_name ` set (tb_folders (rb_tx b))
        \<and> sql_integer (rf_Height (opf_state fo))"
    for fs b w
    using that
  proof (induction fs arbitrary: b w)
    case Nil
    then show ?case by (simp add: give_def)
  next
    case (Cons fo fs)
    let ?b = "b\<lparr>rb_tx := (rb_tx b)\<lparr>tb_folders := tb_folders (rb_tx b) @ [official_folder_row fo]\<rparr>\<rparr>"
    have one: "insert_folder (official_folder_row fo) no_faults (b, w) = (Inr (), (?b, w))"
      using Cons.prems by (simp add: insert_folder_def official_folder_row_def)
    have "fst (insert_official_folders no_faults fs (?b, w')) = Inr ()" for w'
      using Cons.prems by (intro Cons.IH) (auto simp: official_folder_row_def image_iff)
    with one show ?case by (simp add: after_def on_walk_def)
  qed
  with assms show ?thesis by simp
qed

section \<open>What a rebuild does to the files\<close>

lemma same_files_walk: "keeps same_files (on_walk f)"
  by (auto simp: keeps_def same_files_def on_walk_def)

lemma same_files_official:
  "keeps same_files (insert_official_folders faults fs)" "keeps same_files (visit_version faults did g v raw)"
  "keeps same_files (refuseExistingOfficialProjectionArtifacts faults dest :: (rebuild \<times> walk, unit) op)"
proof -
  note steps = keeps_intros same_files_steps same_files_walk
  show "keeps same_files (insert_official_folders faults fs)"
    by (induction fs rule: insert_official_folders.induct) (auto intro!: steps simp: insert_folder_def)
  show "keeps same_files (refuseExistingOfficialProjectionArtifacts faults dest :: (rebuild \<times> walk, unit) op)"
    unfolding refuseExistingOfficialProjectionArtifacts_def artifacts_def by (auto intro!: steps)
  have "keeps same_files (insert_official_memberships faults byID v p fs :: (rebuild \<times> walk, unit) op)" for byID p fs
    by (induction fs) (auto intro!: steps simp: insert_membership_def)
  then have "keeps same_files (insertOfficialMessage faults byID v raw p)" for byID p
    unfolding insertOfficialMessage_def by (auto intro!: steps simp: insert_message_def)
  then have "keeps same_files (after (on_walk (\<lambda>w. w\<lparr>wk_versions := mv_RKey v # wk_versions w\<rparr>)) (\<lambda>_.
       after (returning (ValidateStoredMessage did (mv_RKey v) (mv_Record v) raw)) (\<lambda>_.
         case map_of (og_selected g) (mv_RKey v) of
           None \<Rightarrow> give ()
         | Some p \<Rightarrow>
             if mr_LogicalMessageID (mv_Record v) \<noteq> rs_LogicalMessageID (ops_state p) then raise ErrIntegrity
             else after (insertOfficialMessage faults (og_folderByID g) v raw p) (\<lambda>_.
               after (on_walk (\<lambda>w. w\<lparr>wk_selected := List.insert (mv_RKey v) (wk_selected w)\<rparr>)) (\<lambda>_.
                 report (\<lambda>r. r\<lparr>pr_TotalBytes := pr_TotalBytes r + int (length raw)\<rparr>))))))" (is "keeps _ ?m")
    by (auto intro!: steps split: option.split)
  then have "same_files (b, w) (snd (?m (b, w)))" for b w unfolding keeps_def by blast
  then show "keeps same_files (visit_version faults did g v raw)"
    unfolding keeps_def visit_version_def by (auto simp: same_files_def)
qed

lemma all_selected:
  assumes "distinct sel" and "set sel = {k \<in> R. map_of m k \<noteq> None}" and "distinct (keys m)"
  shows "length sel = length m \<longleftrightarrow> set (keys m) \<subseteq> R"
proof -
  have sub: "set sel \<subseteq> set (keys m)" using assms(2) by (auto simp: map_of_eq_None_iff)
  have n: "card (set sel) = length sel" "card (set (keys m)) = length m"
    using assms(1,3) distinct_card[of sel] distinct_card[of "keys m"] by simp_all
  have "length sel = length m \<longleftrightarrow> set sel = set (keys m)"
    using card_subset_eq[OF _ sub] n by auto
  also have "\<dots> \<longleftrightarrow> set (keys m) \<subseteq> R" using assms(2) by (auto simp: map_of_eq_None_iff)
  finally show ?thesis .
qed

lemma db_Inr: "db faults step x = (Inr u, y) \<Longrightarrow> y = x"
  by (auto simp: db_def raise_def give_def split: option.splits)

lemma insert_official_folders_Inr:
  "insert_official_folders faults fs (b, w) = (Inr u, (b', w')) \<Longrightarrow>
     rb_files b' = rb_files b \<and> rb_tx b' = (rb_tx b)\<lparr>tb_folders := tb_folders (rb_tx b) @ map official_folder_row fs\<rparr>
     \<and> wk_versions w' = wk_versions w \<and> wk_selected w' = wk_selected w"
proof (induction fs arbitrary: b w)
  case Nil
  then show ?case by (auto simp: give_def)
next
  case (Cons f fs)
  from Cons.prems obtain z where z: "insert_folder (official_folder_row f) faults (b, w) = (Inr (), z)"
    and rest: "after (on_walk (\<lambda>w. w\<lparr>wk_manifest := (wk_manifest w)\<lparr>om_Folders := om_Folders (wk_manifest w) @ [manifest_folder f]\<rparr>\<rparr>))
        (\<lambda>_. insert_official_folders faults fs) z = (Inr u, (b', w'))" by (auto elim: after_InrE)
  from insert_row_Inr[OF z[unfolded insert_folder_def]]
  have z': "z = (b\<lparr>rb_tx := (rb_tx b)\<lparr>tb_folders := tb_folders (rb_tx b) @ [official_folder_row f]\<rparr>\<rparr>, w)" .
  with rest have "insert_official_folders faults fs (b\<lparr>rb_tx := (rb_tx b)\<lparr>tb_folders := tb_folders (rb_tx b) @ [official_folder_row f]\<rparr>\<rparr>,
      w\<lparr>wk_manifest := (wk_manifest w)\<lparr>om_Folders := om_Folders (wk_manifest w) @ [manifest_folder f]\<rparr>\<rparr>) = (Inr u, (b', w'))"
    by (simp add: after_def on_walk_def)
  from Cons.IH[OF this] show ?case by simp
qed

lemma start_official_Inr:
  assumes "after (db faults CloseFile) (\<lambda>_. after (createSchema faults dest target) (\<lambda>_.
      after (begin_tx faults dest) (\<lambda>_. insert_official_folders faults fs))) (b, w) = (Inr u, (b', w'))"
  shows "rb_tx b' = no_tables\<lparr>tb_meta := [target], tb_folders := map official_folder_row fs\<rparr>
    \<and> (\<forall>p. p \<noteq> dest \<longrightarrow> map_of (rb_files b') p = map_of (rb_files b) p)
    \<and> wk_versions w' = wk_versions w \<and> wk_selected w' = wk_selected w"
proof -
  from assms obtain z where z: "after (createSchema faults dest target) (\<lambda>_. begin_tx faults dest) (b, w) = (Inr (), z)"
    and rest: "insert_official_folders faults fs z = (Inr u, (b', w'))"
    by (auto simp: after_def split: prod.splits sum.splits dest: db_Inr)
  then have "rb_tx (fst z) = no_tables\<lparr>tb_meta := [target]\<rparr>" "\<forall>p. p \<noteq> dest \<longrightarrow> map_of (rb_files (fst z)) p = map_of (rb_files b) p" "snd z = w"
    by (auto simp: createSchema_def begin_tx_def put_file_def adjust_def elim!: after_InrE dest!: db_Inr)
  with insert_official_folders_Inr[of faults fs "fst z" "snd z" u b' w'] rest show ?thesis by (auto simp: no_tables_def)
qed

text \<open>Everything before the destination is created.\<close>

definition prepare_official ::
  "faults \<Rightarrow> syntax_api \<Rightarrow> (bytes \<Rightarrow> bytes) \<Rightarrow> 'c officialProjectionSource \<Rightarrow> bytes \<Rightarrow> 'c \<Rightarrow> (rebuild \<times> walk, officialProjectionGraph) op" where
  "prepare_official faults sx lower src dest c =
     (let su = src_Summary src c; target = summary_target su in
      after (refuseExistingOfficialProjectionArtifacts faults dest) (\<lambda>_.
      after (returning (src_ValidateSeal src c)) (\<lambda>_.
      after (report (\<lambda>r. r\<lparr>pr_Target := target\<rparr>)) (\<lambda>_.
      after (returning (validateOfficialSummary sx su target)) (\<lambda>_.
      after (returning (buildOfficialProjectionGraph lower su (src_Folders src c) (src_MessageStates src c))) (\<lambda>g.
      after (report (\<lambda>r. r\<lparr>pr_Folders := length (og_folders g), pr_States := og_liveStates g,
        pr_Tombstones := og_messageDeletes g\<rparr>)) (\<lambda>_.
      after (db faults MkdirAll) (\<lambda>_.
      after (refuseExistingOfficialProjectionArtifacts faults dest) (\<lambda>_. give g)))))))))"

definition start_rebuild :: "Tables gomap \<Rightarrow> rebuild" where
  "start_rebuild files = \<lparr>rb_report = new_projection_report 3 no_target, rb_files = files, rb_tx = no_tables, rb_manifest = []\<rparr>"

text \<open>The graph a source gives, once its seal and its summary are accepted.\<close>

definition accepted_graph :: "syntax_api \<Rightarrow> (bytes \<Rightarrow> bytes) \<Rightarrow> 'c officialProjectionSource \<Rightarrow> 'c \<Rightarrow> officialProjectionGraph \<Rightarrow> bool" where
  "accepted_graph sx lower src c g \<longleftrightarrow> src_ValidateSeal src c = Inr ()
     \<and> validateOfficialSummary sx (src_Summary src c) (summary_target (src_Summary src c)) = Inr ()
     \<and> buildOfficialProjectionGraph lower (src_Summary src c) (src_Folders src c) (src_MessageStates src c) = Inr g"

lemma rebuildOfficialSpaces_split:
  assumes "has_prefix dest ''/''"
  shows "rebuildOfficialSpaces faults sx lower None src dest files c =
    (case after (prepare_official faults sx lower src dest c) (\<lambda>g. after (create_exclusive faults dest) (\<lambda>_. give g))
        (start_rebuild files, empty_walk (summary_target (src_Summary src c))) of
       (Inl e, s) \<Rightarrow> ((Inl e, s), c)
     | (Inr g, s) \<Rightarrow>
         (case fill_official faults src dest (src_Summary src c) g c s of
            ((Inr u, s'), c') \<Rightarrow> ((Inr u, s'), c')
          | ((Inl e, s'), c') \<Rightarrow> ((Inl e, snd (removeProjectionArtifacts faults dest s')), c')))"
proof -
  have assoc: "after (after m f) h = after m (\<lambda>x. after (f x) h)" for m :: "('s, 'x) op" and f :: "'x \<Rightarrow> ('s, 'y) op" and h :: "'y \<Rightarrow> ('s, 'z) op"
    by (auto simp: after_def fun_eq_iff split: prod.splits sum.splits)
  show ?thesis using assms by (simp add: rebuildOfficialSpaces_def prepare_official_def start_rebuild_def Let_def assoc)
qed

lemma refuse_artifacts_Inr:
  "refuseExistingOfficialProjectionArtifacts faults dest (b, w) = (Inr u, y) \<Longrightarrow>
     y = (b, w) \<and> (\<forall>p \<in> set (artifacts dest). map_of (rb_files b) p = None)"
  unfolding refuseExistingOfficialProjectionArtifacts_def artifacts_def refuse_existing_def
  by (auto elim!: after_InrE dest!: db_Inr simp: give_def split: if_splits)

lemma prepare_official_Inr:
  assumes "prepare_official faults sx lower src dest c (b, w) = (Inr g, (b', w'))"
  shows "rb_files b' = rb_files b \<and> w' = w \<and> (\<forall>p \<in> set (artifacts dest). map_of (rb_files b) p = None) \<and> accepted_graph sx lower src c g"
  using assms unfolding prepare_official_def Let_def
  by (auto elim!: after_InrE dest!: db_Inr refuse_artifacts_Inr simp: returning_def report_def adjust_def give_def accepted_graph_def)

lemma prepare_official_files: "rb_files (fst (snd (prepare_official faults sx lower src dest c x))) = rb_files (fst x)"
proof -
  have "keeps same_files (prepare_official faults sx lower src dest c)"
    unfolding prepare_official_def Let_def by (intro keeps_intros same_files_steps same_files_official)
  then show ?thesis by (cases x) (simp add: keeps_def same_files_def)
qed

lemma create_exclusive_Inr:
  "create_exclusive faults dest (b, w) = (Inr u, y) \<Longrightarrow>
     y = (b\<lparr>rb_files := AList.update dest no_tables (rb_files b)\<rparr>, w) \<and> map_of (rb_files b) dest = None"
  by (auto simp: create_exclusive_def elim!: after_InrE dest!: db_Inr split: if_splits)

lemma create_exclusive_Inl: "create_exclusive faults dest (b, w) = (Inl e, y) \<Longrightarrow> y = (b, w)"
  by (auto simp: create_exclusive_def after_def db_def raise_def give_def split: option.splits if_splits)

text \<open>
  What the rebuild needs of a source: a visit that succeeds has run the callback on the messages
  \<open>delivered\<close>, in that order; a visit that fails has run it on some of them; and a visit leaves
  the source as it was.
\<close>

locale projection_source =
  fixes src :: "'c officialProjectionSource" and source_ok :: "'c \<Rightarrow> bool" and delivered :: "'c \<Rightarrow> (MessageVersion \<times> bytes) list"
  assumes visit_success: "src_VisitMessages src visit c s = (Inr u, c', s') \<Longrightarrow> each_version visit (delivered c) s = (Inr (), s')"
    and visit_keeps: "reflp R \<Longrightarrow> transp R \<Longrightarrow> (\<And>v raw. keeps R (visit v raw)) \<Longrightarrow> R s (snd (snd (src_VisitMessages src visit c s)))"
    and visit_source: "source_ok c \<Longrightarrow> fst (snd (src_VisitMessages src visit c s)) = c"
begin

lemma fill_keeps:
  fixes b :: rebuild and w :: walk
  assumes "source_ok c" and "fill_official faults src dest su g c (b, w) = ((r, y), c')"
  shows "c' = c \<and> only_dest dest (b, w) y"
proof -
  note steps = keeps_intros only_dest_puts same_files_official[THEN keeps_weaken] same_files_steps[THEN keeps_weaken] same_files_walk[THEN keeps_weaken]
  let ?start = "after (db faults CloseFile) (\<lambda>_. after (createSchema faults dest (summary_target su)) (\<lambda>_.
      after (begin_tx faults dest) (\<lambda>_. insert_official_folders faults (og_folders g)))) :: (rebuild \<times> walk, unit) op"
  have "keeps (only_dest dest) ?start"
    unfolding createSchema_def begin_tx_def by (intro steps) simp
  then have one: "only_dest dest (b, w) (snd (?start (b, w)))" unfolding keeps_def by blast
  let ?visit = "src_VisitMessages src (visit_version faults (ot_RepoDID (su_Target su)) g) c"
  have two: "only_dest dest s (snd (snd (?visit s)))" for s
    by (rule visit_keeps) (intro steps)+
  have "keeps (only_dest dest) (after (report f) (\<lambda>_. after (commit_tx faults dest) (\<lambda>_.
      after (db faults CloseDatabase) (\<lambda>_. db faults ChmodFile))) :: (rebuild \<times> walk, unit) op)" for f
    by (intro steps)
  then have three: "only_dest dest s (snd (finish_official faults dest su g s))" for s
    unfolding finish_official_def keeps_def by (cases s) simp
  have trans: "only_dest dest x y \<Longrightarrow> only_dest dest y z \<Longrightarrow> only_dest dest x z" for x y z :: "rebuild \<times> walk"
    using files_orders(2)[of dest] by (rule transpD)
  obtain x s where start: "?start (b, w) = (x, s)" by (metis prod.exhaust)
  show ?thesis
  proof (cases x)
    case (Inl e)
    with assms(2) start one show ?thesis by (auto simp: fill_official_def)
  next
    case (Inr u)
    obtain x2 c2 b2 w2 where v: "?visit s = (x2, c2, (b2, w2))" by (metis prod.exhaust)
    have c2: "c2 = c" using visit_source[OF assms(1), of "visit_version faults (ot_RepoDID (su_Target su)) g" s] v by simp
    have s2: "only_dest dest (b, w) (b2, w2)" using trans[OF one] two[of s] v start by simp
    have s3: "only_dest dest (b, w) (snd (finish_official faults dest su g (b2, w2)))" using trans[OF s2 three] .
    show ?thesis
      using assms(2) start Inr v c2 s2 s3
      by (cases x2) (auto simp: fill_official_def split: if_splits sum.splits)
  qed
qed

text \<open>What a successful run has written.\<close>

lemma fill_Inr:
  assumes "source_ok c" and "fill_official faults src dest su g c (b, w) = ((Inr u, (b', w')), c')"
    and "wk_versions w = []" and "wk_selected w = []" and "distinct (keys (og_selected g))"
  shows "complete_walk (ot_RepoDID (su_Target su)) su g (delivered c)
    \<and> map_of (rb_files b') = (map_of (rb_files b))(dest \<mapsto> official_tables (summary_target su) g (delivered c))"
proof -
  let ?visit = "src_VisitMessages src (visit_version faults (ot_RepoDID (su_Target su)) g) c"
  from assms(2) obtain s where start: "after (db faults CloseFile) (\<lambda>_. after (createSchema faults dest (summary_target su)) (\<lambda>_.
      after (begin_tx faults dest) (\<lambda>_. insert_official_folders faults (og_folders g)))) (b, w) = (Inr (), s)"
    by (auto simp: fill_official_def split: prod.splits sum.splits)
  obtain x2 c2 b2 w2 where v: "?visit s = (x2, c2, (b2, w2))" by (metis prod.exhaust)
  from assms(2) start v have x2: "x2 = Inr ()"
    and counts: "length (wk_versions w2) = su_MessageVersions su" "length (wk_selected w2) = length (og_selected g)"
    and fin: "finish_official faults dest su g (b2, w2) = (Inr (), (b', w'))"
    by (auto simp: fill_official_def split: sum.splits if_splits)
  obtain b1 w1 where s: "s = (b1, w1)" by (cases s)
  note S = start_official_Inr[OF start[unfolded s]]
  note V = each_version_Inr[OF visit_success[OF v[unfolded x2 s]]]
  from fin have "map_of (rb_files b') = (map_of (rb_files b2))(dest \<mapsto> rb_tx b2)"
    by (auto simp: finish_official_def after_report commit_tx_def adjust_def fun_eq_iff elim!: after_InrE dest!: db_Inr)
  moreover have V': "distinct (map (\<lambda>m. mv_RKey (fst m)) (delivered c))" "list_all (version_verified (ot_RepoDID (su_Target su)) g) (delivered c)"
    "rb_tx b2 = add_rows g (delivered c) (rb_tx b1)" "rb_files b2 = rb_files b1"
    "length (wk_versions w2) = length (delivered c)" "distinct (wk_selected w2)"
    "set (wk_selected w2) = {k \<in> (\<lambda>m. mv_RKey (fst m)) ` set (delivered c). map_of (og_selected g) k \<noteq> None}"
    using V S assms(3,4) by auto
  ultimately show ?thesis
    using counts S all_selected[OF V'(6,7) assms(5)] by (auto simp: complete_walk_def official_tables_def fun_eq_iff)
qed

lemma rebuild_outcome:
  assumes "source_ok c" and "\<forall>p \<in> set (artifacts dest). faults (RemoveFile p) = None"
    and "rebuildOfficialSpaces faults sx lower cancelled src dest files c = ((r, (b, w)), c')"
  shows "c' = c \<and> (case r of
      Inl _ \<Rightarrow> map_of (rb_files b) = map_of files
    | Inr _ \<Rightarrow> (\<forall>p \<in> set (artifacts dest). map_of files p = None)
        \<and> (\<exists>g. accepted_graph sx lower src c g
            \<and> complete_walk (ot_RepoDID (su_Target (src_Summary src c))) (src_Summary src c) g (delivered c)
            \<and> map_of (rb_files b) = (map_of files)(dest \<mapsto> official_tables (summary_target (src_Summary src c)) g (delivered c))))"
proof (cases "has_prefix dest ''/'' \<and> cancelled = None")
  case False
  with assms(3) have "c' = c \<and> r \<noteq> Inr () \<and> rb_files b = files"
    by (auto simp: rebuildOfficialSpaces_def Let_def split: option.splits if_splits)
  then show ?thesis by (cases r) auto
next
  case True
  let ?su = "src_Summary src c"
  let ?s0 = "(start_rebuild files, empty_walk (summary_target ?su))"
  note run = assms(3)[unfolded rebuildOfficialSpaces_split[OF conjunct1[OF True], folded conjunct2[OF True]]]
  obtain x b1 w1 where p: "prepare_official faults sx lower src dest c ?s0 = (x, (b1, w1))" by (metis prod.exhaust)
  have f1: "rb_files b1 = files" using prepare_official_files[of faults sx lower src dest c ?s0] p by (simp add: start_rebuild_def)
  obtain y b2 w2 where k: "create_exclusive faults dest (b1, w1) = (y, (b2, w2))" by (metis prod.exhaust)
  show ?thesis
  proof (cases "(\<exists>e. x = Inl e) \<or> (\<exists>e. y = Inl e)")
    case False' : True
    with run p k f1 have "c' = c \<and> r \<noteq> Inr () \<and> rb_files b = files"
      by (cases x; cases y) (auto simp: after_def dest: create_exclusive_Inl)
    then show ?thesis by (cases r) auto
  next
    case False
    then obtain g where xy: "x = Inr g" "y = Inr ()" by (cases x; cases y) auto
    note P = prepare_official_Inr[OF p[unfolded xy(1)]]
    have files2: "rb_files b2 = AList.update dest no_tables files" "w2 = empty_walk (summary_target ?su)"
      using create_exclusive_Inr[OF k[unfolded xy(2)]] f1 P by (auto simp: start_rebuild_def)
    have none: "\<forall>q \<in> set (artifacts dest). map_of files q = None" using P by (simp add: start_rebuild_def)
    obtain z b3 w3 c3 where f: "fill_official faults src dest ?su g c (b2, w2) = ((z, (b3, w3)), c3)" by (metis prod.exhaust)
    have c3: "c3 = c" and only: "only_dest dest (b2, w2) (b3, w3)" using fill_keeps[OF assms(1) f] by auto
    have out: "(case z of Inr u \<Rightarrow> ((Inr u, (b3, w3)), c3) | Inl e \<Rightarrow> ((Inl e, snd (removeProjectionArtifacts faults dest (b3, w3))), c3)) = ((r, (b, w)), c')"
      using run p k xy f by (simp add: after_def give_def split: sum.splits)
    show ?thesis
    proof (cases z)
      case (Inl e)
      let ?ps = "[dest @ ''-journal'', dest @ ''-wal'', dest @ ''-shm'', dest]"
      from discard_files_run[of faults ?ps b3 w3] obtain b4 where "discard_files faults ?ps (b3, w3) = (Inr (), (b4, w3))"
        and q: "\<forall>q. map_of (rb_files b4) q = (if q \<in> set ?ps \<and> faults (RemoveFile q) = None then None else map_of (rb_files b3) q)" by blast
      with out Inl c3 have "c' = c" "r = Inl e" "b = b4" by (auto simp: removeProjectionArtifacts_def)
      moreover have "map_of (rb_files b4) = map_of files"
      proof
        fix p
        show "map_of (rb_files b4) p = map_of files p"
          using q assms(2) none only files2(1) by (cases "p \<in> set (artifacts dest)") (auto simp: only_dest_def artifacts_def)
      qed
      ultimately show ?thesis by simp
    next
      case (Inr u)
      with out c3 have o: "c' = c" "r = Inr ()" "b = b3" by auto
      have "distinct (keys (og_selected g))"
        using P build_graph_wf unfolding accepted_graph_def graph_wf_def by metis
      note fill = fill_Inr[OF assms(1) f[unfolded Inr] _ _ this]
      have walk: "complete_walk (ot_RepoDID (su_Target ?su)) ?su g (delivered c)"
        and "map_of (rb_files b3) = (map_of files)(dest \<mapsto> official_tables (summary_target ?su) g (delivered c))"
        using fill files2 by (auto simp: empty_walk_def AList.update_conv')
      with P none o show ?thesis by auto
    qed
  qed
qed

end

text \<open>A source whose visit fails only where the callback does.\<close>

locale willing_source = projection_source +
  assumes visit_willing: "source_ok c \<Longrightarrow> each_version visit (delivered c) s = (Inr (), s') \<Longrightarrow>
    fst (src_VisitMessages src visit c s) = Inr ()"
begin

lemma fill_runs:
  assumes ok: "source_ok c" and fits: "graph_fits ps g" and sized: "graph_sized g" and seal: "src_ValidateSeal src c = Inr ()"
    and walk: "complete_walk (ot_RepoDID (su_Target su)) su g (delivered c)"
  shows "fst (fst (fill_official no_faults src dest su g c (b, empty_walk target))) = Inr ()"
proof -
  let ?did = "ot_RepoDID (su_Target su)"
  let ?start = "after (db no_faults CloseFile) (\<lambda>_. after (createSchema no_faults dest (summary_target su)) (\<lambda>_.
      after (begin_tx no_faults dest) (\<lambda>_. insert_official_folders no_faults (og_folders g))))"
  have wf: "graph_wf ps g" "distinct (map opf_id (og_folders g))" "distinct (map (\<lambda>fo. rf_Name (opf_state fo)) (og_folders g))"
    "distinct (keys (og_selected g))"
    using fits unfolding graph_fits_def graph_wf_def by auto
  have "fst (?start (b, empty_walk target)) = Inr ()"
    using insert_official_folders_runs[OF wf(2,3)] sized
    by (simp add: graph_sized_def createSchema_def begin_tx_def put_file_def adjust_def after_def give_def no_tables_def)
  then obtain b1 w1 where start: "?start (b, empty_walk target) = (Inr (), (b1, w1))" by (metis prod.exhaust fst_conv)
  note S = start_official_Inr[OF start]
  let ?visit = "visit_version no_faults ?did g"
  have "rb_tx b1 = official_tables (summary_target su) g []" using S by (simp add: official_tables_def add_rows_def chosen_def map_filter_simps no_tables_def)
  from each_version_runs[OF fits sized this, of "delivered c" ?did w1] walk S
  have "fst (each_version ?visit (delivered c) (b1, w1)) = Inr ()" by (simp add: complete_walk_def empty_walk_def)
  then obtain b2 w2 where each: "each_version ?visit (delivered c) (b1, w1) = (Inr (), (b2, w2))" by (metis prod.exhaust fst_conv)
  obtain x c3 b3 w3 where v: "src_VisitMessages src ?visit c (b1, w1) = (x, c3, (b3, w3))" by (metis prod.exhaust)
  have x: "x = Inr ()" using visit_willing[OF ok each] v by simp
  have same: "b3 = b2" "w3 = w2" using visit_success[OF v[unfolded x]] each by auto
  have c3: "c3 = c" using visit_source[OF ok, of ?visit "(b1, w1)"] v by simp
  have V: "length (wk_versions w2) = length (delivered c)" "distinct (wk_selected w2)"
    "set (wk_selected w2) = {k \<in> (\<lambda>m. mv_RKey (fst m)) ` set (delivered c). map_of (og_selected g) k \<noteq> None}"
    using each_version_Inr[OF each] S by (auto simp: empty_walk_def)
  have "length (wk_versions w2) = su_MessageVersions su" "length (wk_selected w2) = length (og_selected g)"
    using V walk all_selected[OF V(2,3) wf(4)] by (auto simp: complete_walk_def)
  moreover have "fst (finish_official no_faults dest su g (b2, w2)) = Inr ()"
    by (simp add: finish_official_def report_def commit_tx_def adjust_def give_def after_def)
  ultimately show ?thesis using start v x same c3 seal by (simp add: fill_official_def)
qed

lemma prepare_runs:
  assumes "accepted_graph sx lower src c g" and "\<forall>p \<in> set (artifacts dest). map_of (rb_files b) p = None"
  shows "\<exists>b'. prepare_official no_faults sx lower src dest c (b, w) = (Inr g, (b', w)) \<and> rb_files b' = rb_files b"
proof -
  have "refuseExistingOfficialProjectionArtifacts no_faults dest (b', w) = (Inr (), (b', w))" if "rb_files b' = rb_files b" for b'
    using assms(2) that by (simp add: refuseExistingOfficialProjectionArtifacts_def refuse_existing_def artifacts_def after_def give_def)
  then show ?thesis
    using assms(1) by (simp add: prepare_official_def accepted_graph_def Let_def after_def returning_def report_def adjust_def give_def)
qed

lemma rebuild_exact:
  assumes ok: "source_ok c" and sized: "official_sized (src_Folders src c) (src_MessageStates src c)" and abs: "has_prefix dest ''/''"
    and none: "\<forall>p \<in> set (artifacts dest). map_of files p = None"
    and run: "rebuildOfficialSpaces no_faults sx lower None src dest files c = ((r, (b, w)), c')"
  shows "r = Inr () \<longleftrightarrow> (\<exists>g. accepted_graph sx lower src c g
    \<and> complete_walk (ot_RepoDID (su_Target (src_Summary src c))) (src_Summary src c) g (delivered c))"
proof
  assume "r = Inr ()"
  with rebuild_outcome[OF ok _ run] show "\<exists>g. accepted_graph sx lower src c g
    \<and> complete_walk (ot_RepoDID (su_Target (src_Summary src c))) (src_Summary src c) g (delivered c)"
    by (auto simp: no_faults_def)
next
  let ?su = "src_Summary src c"
  let ?w0 = "empty_walk (summary_target ?su)"
  assume "\<exists>g. accepted_graph sx lower src c g \<and> complete_walk (ot_RepoDID (su_Target ?su)) ?su g (delivered c)"
  then obtain g where g: "accepted_graph sx lower src c g" "complete_walk (ot_RepoDID (su_Target ?su)) ?su g (delivered c)" by blast
  have fits: "graph_fits (live_states (src_MessageStates src c)) g"
    using g(1) sized build_graph_fits unfolding accepted_graph_def official_sized_def by metis
  have sized': "graph_sized g" using g(1) sized build_graph_sized unfolding accepted_graph_def by metis
  obtain b1 where p: "prepare_official no_faults sx lower src dest c (start_rebuild files, ?w0) = (Inr g, (b1, ?w0))" "rb_files b1 = files"
    using prepare_runs[OF g(1), of dest "start_rebuild files" ?w0] none by (auto simp: start_rebuild_def)
  let ?b = "b1\<lparr>rb_files := AList.update dest no_tables (rb_files b1)\<rparr>"
  have k: "create_exclusive no_faults dest (b1, ?w0) = (Inr (), (?b, ?w0))"
    using none p(2) by (simp add: create_exclusive_def artifacts_def)
  have "fst (fst (fill_official no_faults src dest ?su g c (?b, ?w0))) = Inr ()"
    using g by (intro fill_runs[OF ok fits sized']) (auto simp: accepted_graph_def)
  with run p k show "r = Inr ()"
    unfolding rebuildOfficialSpaces_split[OF abs] by (auto simp: after_def give_def split: prod.splits sum.splits)
qed

end

section \<open>The sealed source\<close>

text \<open>The messages a verified source hands out, opened.\<close>

definition opened :: "ContentVerifiedSource \<Rightarrow> (MessageVersion \<times> bytes) list" where
  "opened cs = map (\<lambda>m. (m, case map_of (cs_blobs cs) (mv_link m) of None \<Rightarrow> [] | Some raw \<Rightarrow> raw)) (rd_messages (the (cs_state cs)))"

lemma message_Open_visit:
  "message_Open ip (visit_message st blobs m) = Inr x \<Longrightarrow> x = (m, case map_of blobs (mv_link m) of None \<Rightarrow> [] | Some raw \<Rightarrow> raw)"
  by (auto simp: message_Open_def visit_message_def Let_def split: if_splits)

lemma visit_loop_each:
  "visit_loop ctx st blobs (open_visit ip visit) k ms s = (None, s') \<Longrightarrow>
     each_version visit (map (\<lambda>m. (m, case map_of blobs (mv_link m) of None \<Rightarrow> [] | Some raw \<Rightarrow> raw)) ms) s = (Inr (), s')"
proof (induction ms arbitrary: k s)
  case Nil
  then show ?case by simp
next
  case (Cons m ms)
  from Cons.prems obtain s1 where one: "open_visit ip visit (visit_message st blobs m) s = (None, s1)"
    and rest: "visit_loop ctx st blobs (open_visit ip visit) (k + 1) ms s1 = (None, s')"
    by (auto split: option.splits prod.splits if_splits)
  from one have "visit m (case map_of blobs (mv_link m) of None \<Rightarrow> [] | Some raw \<Rightarrow> raw) s = (Inr (), s1)"
    by (auto simp: open_visit_def error_of_def split: sum.splits prod.splits dest!: message_Open_visit)
  with Cons.IH[OF rest] show ?case by (simp add: after_def)
qed

lemma visit_loop_keeps:
  assumes "reflp R" and "transp R" and "\<And>v raw. keeps R (visit v raw)"
  shows "R s (snd (visit_loop ctx st blobs (open_visit ip visit) k ms s))"
proof (induction ms arbitrary: k s)
  case Nil
  then show ?case using assms(1) by (simp add: reflpD)
next
  case (Cons m ms)
  have one: "R s (snd (open_visit ip visit (visit_message st blobs m) s))"
    using assms(3) reflpD[OF assms(1)] unfolding keeps_def
    by (auto simp: open_visit_def error_of_def split: sum.splits prod.splits) (metis snd_conv)+
  obtain x s1 where x: "open_visit ip visit (visit_message st blobs m) s = (x, s1)" by (metis prod.exhaust)
  show ?case
    using one x Cons.IH[where k = "k + 1" and s = s1] transpD[OF assms(2), of s s1] reflpD[OF assms(1), of s]
    by (auto split: option.split)
qed

lemma finish_start: "\<not> cs_closePending cs \<Longrightarrow> finishVisit (cs\<lparr>cs_activeVisits := cs_activeVisits cs + 1\<rparr>) = cs"
  by (simp add: finishVisit_def Let_def)

interpretation sealed: projection_source "sealedOfficialProjectionSource ip sx ctx" "\<lambda>cs. \<not> cs_closePending cs" opened for ip sx ctx
proof unfold_locales
  fix visit cs s u cs' s'
  assume "src_VisitMessages (sealedOfficialProjectionSource ip sx ctx) visit cs s = (Inr u, cs', s')"
  then show "each_version visit (opened cs) s = (Inr (), s')"
    by (auto simp: sealedOfficialProjectionSource_def VisitMessages_def startVisit_def opened_def visit_loop_each
        split: option.splits prod.splits if_splits)
next
  fix R :: "rebuild \<times> walk \<Rightarrow> rebuild \<times> walk \<Rightarrow> bool" and visit :: "MessageVersion \<Rightarrow> bytes \<Rightarrow> (rebuild \<times> walk, unit) op" and cs s
  assume "reflp R" "transp R" "\<And>v raw. keeps R (visit v raw)"
  note loop = visit_loop_keeps[where visit = visit, OF this] and refl = reflpD[OF this(1)]
  have "snd (snd (src_VisitMessages (sealedOfficialProjectionSource ip sx ctx) visit cs s))
      = snd (snd (VisitMessages sx ctx (open_visit ip visit) cs s))"
    by (simp add: sealedOfficialProjectionSource_def split: prod.split option.split)
  moreover have "R s (snd (snd (VisitMessages sx ctx (open_visit ip visit) cs s)))"
  proof (cases "ctx 0 = None \<and> content_valid sx cs")
    case True
    with loop show ?thesis by (simp add: VisitMessages_def startVisit_def split_beta)
  next
    case False
    with refl show ?thesis by (auto simp: VisitMessages_def startVisit_def split: option.split)
  qed
  ultimately show "R s (snd (snd (src_VisitMessages (sealedOfficialProjectionSource ip sx ctx) visit cs s)))" by simp
next
  fix cs :: ContentVerifiedSource and visit s
  assume "\<not> cs_closePending cs"
  then show "fst (snd (src_VisitMessages (sealedOfficialProjectionSource ip sx ctx) visit cs s)) = cs"
    by (auto simp: sealedOfficialProjectionSource_def VisitMessages_def startVisit_def finish_start split: option.splits prod.splits if_splits)
qed

lemma visit_loop_willing:
  assumes "\<forall>m \<in> set ms. blob_good ip (ot_RepoDID (rd_target st)) blobs m" and "reduction_valid sx st"
    and "each_version visit (map (\<lambda>m. (m, case map_of blobs (mv_link m) of None \<Rightarrow> [] | Some raw \<Rightarrow> raw)) ms) s = (Inr (), s')"
  shows "visit_loop (\<lambda>k. None) st blobs (open_visit ip visit) k ms s = (None, s')"
  using assms(1,3)
proof (induction ms arbitrary: k s)
  case Nil
  then show ?case by simp
next
  case (Cons m ms)
  let ?raw = "case map_of blobs (mv_link m) of None \<Rightarrow> [] | Some raw \<Rightarrow> raw"
  from Cons.prems obtain s1 where one: "visit m ?raw s = (Inr (), s1)"
    and rest: "each_version visit (map (\<lambda>m. (m, case map_of blobs (mv_link m) of None \<Rightarrow> [] | Some raw \<Rightarrow> raw)) ms) s1 = (Inr (), s')"
    by (auto elim: after_InrE)
  obtain raw where "message_Open ip (visit_message st blobs m) = Inr (m, raw)"
    using visit_message_opens[OF _ assms(2), of ip blobs m] Cons.prems(1) by auto
  with message_Open_visit[OF this] one have "open_visit ip visit (visit_message st blobs m) s = (None, s1)"
    by (simp add: open_visit_def error_of_def)
  with Cons.IH[OF _ rest] Cons.prems(1) show ?case by simp
qed

interpretation open_source: willing_source "sealedOfficialProjectionSource ip sx (\<lambda>k. None)" "content_ok ip sx" opened for ip sx
proof unfold_locales
  fix visit cs s u cs' s'
  assume "src_VisitMessages (sealedOfficialProjectionSource ip sx (\<lambda>k. None)) visit cs s = (Inr u, cs', s')"
  then show "each_version visit (opened cs) s = (Inr (), s')" by (rule sealed.visit_success)
next
  fix R :: "rebuild \<times> walk \<Rightarrow> rebuild \<times> walk \<Rightarrow> bool" and visit :: "MessageVersion \<Rightarrow> bytes \<Rightarrow> (rebuild \<times> walk, unit) op" and cs s
  assume "reflp R" "transp R" "\<And>v raw. keeps R (visit v raw)"
  then show "R s (snd (snd (src_VisitMessages (sealedOfficialProjectionSource ip sx (\<lambda>k. None)) visit cs s)))"
    by (rule sealed.visit_keeps)
next
  fix cs :: ContentVerifiedSource and visit s
  assume "content_ok ip sx cs"
  then show "fst (snd (src_VisitMessages (sealedOfficialProjectionSource ip sx (\<lambda>k. None)) visit cs s)) = cs"
    by (intro sealed.visit_source) (simp add: content_ok_def)
next
  fix cs :: ContentVerifiedSource and visit :: "MessageVersion \<Rightarrow> bytes \<Rightarrow> (rebuild \<times> walk, unit) op" and s s'
  assume ok: "content_ok ip sx cs" and run: "each_version visit (opened cs) s = (Inr (), s')"
  let ?st = "the (cs_state cs)"
  have valid: "content_valid sx cs" "reduction_valid sx ?st" using ok content_validD(2)[of sx cs] by (auto simp: content_ok_def)
  have "visit_loop (\<lambda>k. None) ?st (cs_blobs cs) (open_visit ip visit) 0 (rd_messages ?st) s = (None, s')"
    using ok run by (intro visit_loop_willing[OF _ valid(2)]) (auto simp: content_ok_def opened_def)
  with valid(1) show "fst (src_VisitMessages (sealedOfficialProjectionSource ip sx (\<lambda>k. None)) visit cs s) = Inr ()"
    by (simp add: sealedOfficialProjectionSource_def VisitMessages_def startVisit_def)
qed

section \<open>When a verified source can be projected\<close>

text \<open>When a verified source can be projected.\<close>

definition official_ready :: "syntax_api \<Rightarrow> (bytes \<Rightarrow> bytes) \<Rightarrow> ContentVerifiedSource \<Rightarrow> officialProjectionGraph \<Rightarrow> bool" where
  "official_ready sx lower cs g \<longleftrightarrow>
     validateOfficialSummary sx (content_Summary sx cs) (summary_target (content_Summary sx cs)) = Inr ()
     \<and> buildOfficialProjectionGraph lower (content_Summary sx cs) (rd_folders (the (cs_state cs))) (rd_messageStates (the (cs_state cs))) = Inr g
     \<and> distinct (map mv_RKey (rd_messages (the (cs_state cs))))
     \<and> (\<forall>(k, p) \<in> set (og_selected g). \<exists>m \<in> set (rd_messages (the (cs_state cs))).
          mv_RKey m = k \<and> mr_LogicalMessageID (mv_Record m) = ops_logical p)"

lemma sealed_ready:
  assumes ok: "content_ok ip sx cs"
  shows "accepted_graph sx lower (sealedOfficialProjectionSource ip sx ctx) cs g
      \<and> complete_walk (ot_RepoDID (su_Target (content_Summary sx cs))) (content_Summary sx cs) g (opened cs)
    \<longleftrightarrow> official_ready sx lower cs g"
proof -
  let ?st = "the (cs_state cs)" and ?su = "content_Summary sx cs"
  have valid: "content_valid sx cs" using ok by (simp add: content_ok_def)
  have su: "su_Target ?su = rd_target ?st" "su_MessageVersions ?su = length (rd_messages ?st)"
    using valid by (simp_all add: content_Summary_def Let_def)
  have graph: "accepted_graph sx lower (sealedOfficialProjectionSource ip sx ctx) cs g \<longleftrightarrow>
      validateOfficialSummary sx ?su (summary_target ?su) = Inr ()
      \<and> buildOfficialProjectionGraph lower ?su (rd_folders ?st) (rd_messageStates ?st) = Inr g"
    using valid by (simp add: accepted_graph_def sealedOfficialProjectionSource_def content_ValidateSeal_def content_Folders_def content_MessageStates_def)
  have verified: "list_all (version_verified (ot_RepoDID (rd_target ?st)) g) (opened cs) \<longleftrightarrow>
      (\<forall>m \<in> set (rd_messages ?st). \<forall>p. map_of (og_selected g) (mv_RKey m) = Some p \<longrightarrow> mr_LogicalMessageID (mv_Record m) = ops_logical p)"
    using ok by (fastforce simp: content_ok_def blob_good_def opened_def version_verified_def list_all_iff split: option.splits)
  have keys_opened: "map (\<lambda>m. mv_RKey (fst m)) (opened cs) = map mv_RKey (rd_messages ?st)" "length (opened cs) = length (rd_messages ?st)"
    "(\<lambda>m. mv_RKey (fst m)) ` set (opened cs) = mv_RKey ` set (rd_messages ?st)"
    by (simp_all add: opened_def comp_def image_image)
  show ?thesis
  proof (cases "accepted_graph sx lower (sealedOfficialProjectionSource ip sx ctx) cs g \<and> distinct (map mv_RKey (rd_messages ?st))")
    case True
    then have "distinct (keys (og_selected g))"
      using graph build_graph_wf unfolding graph_wf_def by metis
    then have sel: "map_of (og_selected g) k = Some p \<longleftrightarrow> (k, p) \<in> set (og_selected g)" for k p by simp
    have inj: "inj_on mv_RKey (set (rd_messages ?st))" using True by (simp add: distinct_map)
    have "(\<forall>m \<in> set (rd_messages ?st). \<forall>p. (mv_RKey m, p) \<in> set (og_selected g) \<longrightarrow> mr_LogicalMessageID (mv_Record m) = ops_logical p)
        \<and> set (keys (og_selected g)) \<subseteq> mv_RKey ` set (rd_messages ?st)
      \<longleftrightarrow> (\<forall>(k, p) \<in> set (og_selected g). \<exists>m \<in> set (rd_messages ?st). mv_RKey m = k \<and> mr_LogicalMessageID (mv_Record m) = ops_logical p)"
      (is "?l \<longleftrightarrow> ?r")
    proof
      assume ?l
      show ?r
      proof clarify
        fix k p
        assume kp: "(k, p) \<in> set (og_selected g)"
        then have "k \<in> mv_RKey ` set (rd_messages ?st)" using \<open>?l\<close> by force
        then obtain m where "m \<in> set (rd_messages ?st)" "mv_RKey m = k" by blast
        with kp \<open>?l\<close> show "\<exists>m \<in> set (rd_messages ?st). mv_RKey m = k \<and> mr_LogicalMessageID (mv_Record m) = ops_logical p" by blast
      qed
    next
      assume ?r
      with inj show ?l by (fastforce dest: inj_onD)
    qed
    with True graph verified keys_opened su show ?thesis by (simp add: complete_walk_def official_ready_def sel)
  next
    case False
    with graph keys_opened show ?thesis by (auto simp: complete_walk_def official_ready_def)
  qed
qed

lemma sealed_Summary [simp]: "src_Summary (sealedOfficialProjectionSource ip sx ctx) = content_Summary sx"
  by (simp add: sealedOfficialProjectionSource_def)

section \<open>A source with one message in a folder\<close>

lemma digest_official [simp]: "validOfficialDigest (''sha256-'' @ hex_encode (sha256 x))"
proof -
  have "has_prefix (''sha256-'' @ hex_encode (sha256 x)) ''sha256-''"
    "trim_prefix (''sha256-'' @ hex_encode (sha256 x)) ''sha256-'' = hex_encode (sha256 x)"
    by (simp_all only: has_prefix_append trim_prefix_append)
  moreover have "length (''sha256-'' @ hex_encode (sha256 x)) = length ''sha256-'' + 32 * 2" by simp
  ultimately show ?thesis unfolding validOfficialDigest_def by (simp only: if_False hex_decode_encode simp_thms) simp
qed

definition filed_target :: OfficialTarget where
  "filed_target = \<lparr>ot_Origin = ''o'', ot_SpaceURI = ''at://did:a/space/email.atmos.mailbox/self'', ot_RepoDID = ''did:a'', ot_Epoch = PinnedEpoch\<rparr>"

definition filed_folder :: ReducedFolderState where
  "filed_folder = (start_folder ''f'' (digestBytes []) 1)\<lparr>rf_Name := ''INBOX'', rf_Height := 1, rf_StateDigest := digestBytes []\<rparr>"

definition filed_message_state :: ReducedState where
  "filed_message_state = \<lparr>rs_LogicalMessageID = mr_LogicalMessageID (mv_Record held_message), rs_SnapshotID = digestBytes [],
     rs_Version = mv_RKey held_message, rs_MailboxIDs = Some [''f''], rs_Keywords = Some [], rs_DeletePending = False, rs_Tombstone = False,
     rs_Heads = [], rs_HeadsDigest = [], rs_StateDigest = digestBytes [], rs_Height = 1, rs_RevisionCount = 1\<rparr>"

definition filed_state :: ReducedSourceState where
  "filed_state = (let st = \<lparr>rd_target = filed_target, rd_revision = ''r'', rd_snapshotID = digestBytes [], rd_commitCID = ''c'',
      rd_indexCID = ''i'', rd_messages = [held_message], rd_messageStates = [filed_message_state], rd_folders = [filed_folder], rd_seal = []\<rparr>
    in st\<lparr>rd_seal := reduction_seal st\<rparr>)"

definition filed_source :: ContentVerifiedSource where
  "filed_source = sealed_content filed_state [(''bafk'', ''hello'')] 5"

lemma held_message_facts:
  "blob_good held_ipld ''did:a'' [(''bafk'', ''hello'')] held_message"
  "validOfficialDigest (mv_RKey held_message)" "validOfficialDigest (mr_LogicalMessageID (mv_Record held_message))"
proof -
  show "blob_good held_ipld ''did:a'' [(''bafk'', ''hello'')] held_message"
    using held_ok by (simp add: content_ok_def held_source_def sealed_content_def held_state_def Let_def Source_Read.demo_target_def)
  obtain p where p: "NewMessagePair (demo_import ''k'' ''hello'') (demo_blob ''hello'') = Inr p"
    using demo_import_accepted[of "''hello''" "''k''"] by auto
  have m: "held_message = \<lparr>mv_RKey = mp_RKey p, mv_CID = ''c'', mv_Record = mp_Message p\<rparr>" by (simp add: held_message_def p)
  show "validOfficialDigest (mv_RKey held_message)"
    using digest_official by (simp add: m NewMessagePair_fields(1)[OF p] ImportedFingerprint_def deliveryFingerprint_def fingerprintPrefix_def)
  show "validOfficialDigest (mr_LogicalMessageID (mv_Record held_message))"
    using digest_official by (simp add: m NewMessagePair_fields(2)[OF p] new_message_record_def LogicalMessageID_def fingerprintPrefix_def demo_import_def)
qed

lemma filed_ok: "content_ok held_ipld plain_syntax filed_source"
proof -
  have "reduction_valid plain_syntax filed_state"
    by (simp add: reduction_valid_def filed_state_def Let_def filed_target_def validCanonicalDID_def plain_syntax_def plain_ident_def
        has_prefix_def reduction_seal_def reduction_preimage_def)
  with held_message_facts(1) show ?thesis
    unfolding filed_source_def by (intro sealed_content_ok) (simp_all add: maxContentVerifiedBytes_def filed_state_def Let_def filed_target_def)
qed

lemma filed_ready: "\<exists>g. official_ready plain_syntax id filed_source g"
proof -
  let ?su = "content_Summary plain_syntax filed_source"
  have valid: "content_valid plain_syntax filed_source" using filed_ok by (simp add: content_ok_def)
  have st: "the (cs_state filed_source) = filed_state" by (simp add: filed_source_def sealed_content_def Let_def)
  have su: "su_Target ?su = filed_target" "su_Revision ?su = ''r''" "su_SnapshotID ?su = digestBytes []" "su_TotalBytes ?su = 5"
    "su_ManifestSHA256 ?su = officialContentManifest filed_state [(''bafk'', ''hello'')]"
    using valid by (simp_all add: content_Summary_def st) (simp_all add: filed_state_def filed_source_def sealed_content_def Let_def)
  have manifest: "validOfficialDigest (officialContentManifest filed_state [(''bafk'', ''hello'')])"
    unfolding officialContentManifest_def by (rule digest_official)
  have "ValidateFor plain_syntax (summary_target ?su) (tg_RepoDID (summary_target ?su)) = Inr ()"
    unfolding summary_target_def su(1) by code_simp
  then have "validateOfficialSummary plain_syntax ?su (summary_target ?su) = Inr ()"
    using manifest digest_official[of "[]"] by (simp add: validateOfficialSummary_def su summary_target_def filed_target_def digestBytes_def)
  moreover obtain g where g: "buildOfficialProjectionGraph id ?su [filed_folder] [filed_message_state] = Inr g"
    using held_message_facts(2,3) digest_official[of "[]"]
    by (simp add: buildOfficialProjectionGraph_def su(3) filed_folder_def start_folder_def filed_message_state_def projected_state_def
        digestBytes_def Let_def)
  moreover have "keys (og_selected g) = [mv_RKey held_message]"
    "map_option ops_state (map_of (og_selected g) (mv_RKey held_message)) = Some (ops_state (projected_state filed_message_state))"
    using build_graph_wf[OF g] by (auto simp: graph_wf_def live_states_def filed_message_state_def)
  then obtain p where "og_selected g = [(mv_RKey held_message, p)]" "ops_state p = ops_state (projected_state filed_message_state)"
    by (cases "og_selected g") auto
  ultimately have "official_ready plain_syntax id filed_source g"
    unfolding official_ready_def st by (auto simp: filed_state_def Let_def filed_message_state_def projected_state_def)
  then show ?thesis by blast
qed

section \<open>Properties\<close>

text \<open>C20. The projected mailbox graph is well typed. When the folders and message states of a source
  are accepted: exactly the messages that are not deleted are selected, under their version; each is in
  at least one folder, in none twice, and only in live folders; the folders are the live ones of the source and have different identities and,
  folded, different names; the counts add up; and every folder numbers its messages from one upwards in the
  order of their logical identity. With fewer than \<open>2\<^sup>3\<^sup>2\<close> states the numbers of a folder are nonzero
  and no two messages share one.\<close>

theorem official_graph_numbered:
  assumes "buildOfficialProjectionGraph lower su folders states = Inr g"
  shows "graph_wf (live_states states) g \<and> og_liveStates g = length (live_states states)
    \<and> og_messageDeletes g + og_liveStates g = length states
    \<and> opf_state ` set (og_folders g) = {fo \<in> set folders. \<not> rf_Tombstone fo}
    \<and> distinct (map (\<lambda>fo. lower (rf_Name (opf_state fo))) (og_folders g))
    \<and> (length states < 2 ^ 32 \<longrightarrow> (\<forall>k p f. map_of (og_selected g) k = Some p \<and> f \<in> set (ops_ids p) \<longrightarrow> uid_or_zero p f \<noteq> 0
        \<and> (\<forall>k' p'. map_of (og_selected g) k' = Some p' \<and> f \<in> set (ops_ids p') \<and> uid_or_zero p' f = uid_or_zero p f \<longrightarrow> k' = k)))"
  using build_graph_wf[OF assms] build_graph_fits[OF assms] uid_nonzero uid_eq by auto


text \<open>C19. A rebuild from a verified source succeeds exactly when the source can be projected. For an
  open verified source with fewer than \<open>2\<^sup>3\<^sup>2\<close> message states and heights below \<open>2\<^sup>6\<^sup>3\<close>, an absolute destination with nothing in the way, and no
  outside failure, the rebuild succeeds if and only if the summary and the folders and states are
  accepted, the message versions are distinct, and every selected version is one of them with
  the logical identity of its state: no constraint of the schema is ever violated.\<close>

theorem RebuildOfficial_exact:
  assumes "content_ok ip sx cs" and "official_sized (rd_folders (the (cs_state cs))) (rd_messageStates (the (cs_state cs)))"
    and "has_prefix dest ''/''" and "\<forall>p \<in> set (artifacts dest). map_of files p = None"
  shows "fst (RebuildOfficial no_faults ip sx lower (\<lambda>k. None) None dest files (Some cs)) = Inr ()
    \<longleftrightarrow> (\<exists>g. official_ready sx lower cs g)"
proof -
  let ?src = "sealedOfficialProjectionSource ip sx (\<lambda>k. None)"
  obtain r b w cs' where run: "rebuildOfficialSpaces no_faults sx lower None ?src dest files cs = ((r, (b, w)), cs')"
    by (metis prod.exhaust)
  have sized: "official_sized (src_Folders ?src cs) (src_MessageStates ?src cs)"
    using assms(1,2) by (simp add: sealedOfficialProjectionSource_def content_MessageStates_def content_Folders_def content_ok_def)
  from open_source.rebuild_exact[OF assms(1) sized assms(3,4) run] sealed_ready[OF assms(1), of lower "\<lambda>k. None"]
  show ?thesis by (simp add: RebuildOfficial_def run sealed_Summary)
qed

section \<open>Concrete instances\<close>

theorem official_graph_numbered_witness:
  "\<exists>g. buildOfficialProjectionGraph id (content_Summary plain_syntax filed_source) (rd_folders (the (cs_state filed_source)))
      (rd_messageStates (the (cs_state filed_source))) = Inr g
    \<and> graph_wf (live_states (rd_messageStates (the (cs_state filed_source)))) g
    \<and> (\<forall>k p f. map_of (og_selected g) k = Some p \<and> f \<in> set (ops_ids p) \<longrightarrow> uid_or_zero p f \<noteq> 0)"
proof -
  from filed_ready obtain g where g: "buildOfficialProjectionGraph id (content_Summary plain_syntax filed_source)
      (rd_folders (the (cs_state filed_source))) (rd_messageStates (the (cs_state filed_source))) = Inr g"
    by (auto simp: official_ready_def)
  have "length (rd_messageStates (the (cs_state filed_source))) < 2 ^ 32"
    by (simp add: filed_source_def sealed_content_def filed_state_def Let_def)
  with g official_graph_numbered[OF g] show ?thesis by (intro exI[of _ g]) blast
qed

theorem RebuildOfficial_exact_witness:
  "fst (RebuildOfficial no_faults held_ipld plain_syntax id (\<lambda>k. None) None ''/m.db'' [] (Some filed_source)) = Inr ()"
proof -
  have "official_sized (rd_folders (the (cs_state filed_source))) (rd_messageStates (the (cs_state filed_source)))"
    by (simp add: filed_source_def sealed_content_def filed_state_def Let_def official_sized_def filed_folder_def filed_message_state_def sql_integer_def)
  then show ?thesis
    using RebuildOfficial_exact[of held_ipld plain_syntax filed_source "''/m.db''" "[]" id] filed_ok filed_ready by (simp add: has_prefix_def)
qed


end
