(* ===== verification/Spec2Isabelle.thy ===== *)
theory Spec2Isabelle
  imports Message_State Migrate Authority_Retry Space_Scope Projection_Official
begin

text \<open>
  \<^bold>\<open>A verification library of the mailbox core of the space host.\<close>

  The host keeps a mailbox as records in a permissioned repository. A message is an immutable
  record that refers to a blob with its bytes; what changes (folders, keywords, deletion) is
  kept beside it, either as one mutable state record per message, replaced by compare and
  swap, or, for the official Spaces providers, as an append-only log of revisions that is
  reduced to a state. A mailbox can be recovered from a provider: the whole repository is
  exported and checked, its logs are reduced, the bytes of the messages are read and checked.

  \<^bold>\<open>Parts and theories.\<close> Names of source files are relative to \<^verbatim>\<open>src/internal\<close>.

  \<^item> \<open>Go_Prelude\<close>, \<open>Go_SHA256\<close>, \<open>Go_JSON\<close>, \<open>Go_Time\<close>: what the code uses of the language and its
    standard library. Strings and byte slices are lists of 8-bit characters, \<^verbatim>\<open>uint32\<close> and \<^verbatim>\<open>uint64\<close>
    are words, maps are association lists with distinct keys, errors are values of the type
    \<open>err\<close> and results are \<open>err + 'a\<close>. SHA-256 is defined, not assumed, so statements about digests are
    about the real function; that it has no collisions is never assumed, it appears as the
    alternative in the conclusions.
  \<^item> \<open>Mailbox\<close> (\<^verbatim>\<open>mailbox/model.go\<close>): records, fingerprints and identities, the constructor of a message
    and its state, the check of stored bytes, the JSON forms.
  \<^item> \<open>Repository\<close> (\<^verbatim>\<open>repository/repository.go\<close>): targets, record addresses, and the provider interface
    as a record of state-passing operations. The grammar of identifiers is the parameter \<open>syntax_api\<close>.
  \<^item> \<open>Memory\<close> (\<^verbatim>\<open>memory/repository.go\<close>): the provider kept in memory: spaces, sessions and their authority,
    batches, compare and swap, reference counts of blobs; \<open>mem_step\<close> and \<open>mem_reachable\<close> are its
    reachable states.
  \<^item> \<open>Message_State\<close> (\<^verbatim>\<open>mailboxstate/state.go\<close>): \<open>Apply\<close> and \<open>Replace\<close>, each split at the one point where
    other sessions can run, over any provider. The locale of a state store states what they rely
    on; the memory provider is its instance.
  \<^item> \<open>Canonical\<close>, \<open>Causal_Log\<close>: the canonical byte encoding with the locale \<open>framed\<close> of fields that can be
    told apart, and what the two reducers share: indexing, linking to parents, the order of
    events, the walk over deletions, heads, and the locales of a causal log.
  \<^item> \<open>Revision\<close> (\<^verbatim>\<open>mailboxstate/revision.go\<close>), \<open>Folder_Revision\<close> (\<^verbatim>\<open>mailboxstate/folder_revision.go\<close>): wire
    decoders, keys, claims, sealed snapshots and the reducers of messages and folders, and
    the check of a whole set of folders. Case folding is over a parameter for
    \<^verbatim>\<open>unicode.SimpleFold\<close>; its loop is a \<open>partial_function\<close> and proved to end.
  \<^item> \<open>Source_Snapshot\<close>, \<open>Source_Read\<close> (\<^verbatim>\<open>providers/officialspaces/snapshot.go\<close>): the reader of a repository
    export and what it guarantees. CIDs, DAG-CBOR and BLAKE3 are the parameter \<open>ipld_api\<close>, key
    resolution and signatures \<open>resolver_api\<close>; the locale \<open>stream_reader\<close> is the contract of everything
    that reads from the stream.
  \<^item> \<open>Recovery\<close>, \<open>Recovery_Sound\<close> (\<^verbatim>\<open>mailboxstate/officialspaces_recovery.go\<close>): from the sealed export to the
    sealed state of the mailbox.
  \<^item> \<open>Content\<close> (\<^verbatim>\<open>mailboxstate/officialspaces_content.go\<close>, \<^verbatim>\<open>providers/officialspaces/blob_stream.go\<close>): the bytes
    of the messages, and the life of the value that holds them under concurrent visits and
    closing calls, as the step relation \<open>content_step\<close>.
  \<^item> \<open>Migrate\<close> (\<^verbatim>\<open>migrate/migrate.go\<close>, \<^verbatim>\<open>migrate/verify.go\<close>): the run of a migration from a snapshot into a
    provider and its verification, over the interface of \<open>Repository\<close>.
  \<^item> \<open>Official_Client\<close>, \<open>Official_Inventory\<close> (\<^verbatim>\<open>providers/officialspaces/client.go\<close>): borrowing a capability, requests and
    their answers, uploads, batches, listings; what they guarantee. The transport is a parameter: a
    capability and a response body carry their own closing operation. The locale \<open>paged\<close> is the contract of a
    loop over pages; both listings are instances.
  \<^item> \<open>Authority\<close> (\<^verbatim>\<open>authorityv3/contract.go\<close>, \<^verbatim>\<open>authorityv3/handler.go\<close>): the relay contract, its checks, digests, the
    bounded encoder and the routing of requests over the engine interface.
  \<^item> \<open>Authority_Engine\<close>, \<open>Authority_Append\<close>, \<open>Authority_Retry\<close> (\<^verbatim>\<open>authorityv3/official_engine.go\<close>): the engine over
    the official client and the verified read, what an append does to the log it was read from, and what
    becomes of an append that is already there.
  \<^item> \<open>Projection\<close>, \<open>Projection_Official\<close> (\<^verbatim>\<open>projection/projection.go\<close>, \<^verbatim>\<open>projection/officialspaces.go\<close>): the rebuild of a
    mailbox as rows of a new database file, from a provider or from a verified source: the check of the record
    graph, the allocation of IMAP identifiers, the rows and manifests, faults and clean-up. Files are a
    map from paths to tables with the constraints of the schema; the locale \<open>projection_source\<close> is what a
    rebuild needs of the source it visits.
  \<^item> \<open>Space_Scope\<close> (\<^verbatim>\<open>oauthclient/spacescope.go\<close>): the OAuth scopes that are requested for a mailbox and the
    checks of those that are granted.

  \<^bold>\<open>How code becomes definitions.\<close> Every function is one definition with the guards of the code in
  the order of the code; loops are recursive functions over the list they range over, with
  the accumulators as arguments. A pointer receiver becomes a state that is passed and
  returned. What another system delivers (an HTTP response, the answer of a resolver, the
  state of a context at the \<open>k\<close>-th look) is an argument. \<^verbatim>\<open>fmt.Errorf\<close> with \<^verbatim>\<open>%w\<close> is the sentinel it
  wraps. JSON documents are trees; their text is \<open>json_text\<close>.

  \<^bold>\<open>What is shown.\<close>
  \<^item> Mutations (C1 to C3, C5, C7, C8, C26): refinement of a small specification of one entry, retries,
    lost updates, success, error behaviour.
  \<^item> The memory provider (C4, C6, C27): blobs are served exactly while they are referred to, batches are
    atomic, sessions are confined.
  \<^item> The engine and the client of the official provider (C9 to C13): an append extends the history it was
    read from to one that reduces to what was asked for; listings and batches are exact; a retry is
    recognised, and where it is not; nothing that is borrowed or opened is left open.
  \<^item> Migration (C14, C15): what a run guarantees whatever it returns, and what verification means.
  \<^item> Projection (C16 to C20): a rebuild writes exactly the mailbox or leaves the files as they were, it succeeds
    exactly when the source is consistent, and every folder numbers its messages without repetition.
  \<^item> Scopes (C21, C22): which granted scopes are accepted, and which requested ones are accepted back.
  \<^item> The relay (C23 to C25): answers keep their promise, the check of a snapshot against a specification,
    the bounded encoder against marshalling at once.
  \<^item> Records (C28 to C30): stored messages are accepted and commit to their content; round trips of JSON;
    where the fingerprint is ambiguous.
  \<^item> Logs (C31 to C34): reduction does not depend on the order of the inventory; what the registers of a
    reduced state mean; causality; the folder set check against a specification.
  \<^item> Recovery (C35 to C40): what an accepted export guarantees, stability of the read, the
    structure check against a reference, soundness of the reduction, completeness and
    life cycle of the content.

  \<^bold>\<open>Bounds and fuel.\<close> There is no fuel: every loop is structural or has a measure, except the case
  folding loop, whose return is a theorem. The limits of the code (counts, sizes, depth) are
  definitions with the values of the code.

  \<^bold>\<open>Not modelled.\<close> OAuth and DPoP, the encrypted vault, the onboarding broker, the shadow agent, the other HTTP providers,
  database import, command line programs, the viewer: they are exchanges with
  libraries (SQL, TLS, AES-GCM, JWT, HTML). Of the relay, the constructor of the handler, which parses
  a URL, and the clearing of buffers; of migration, the file output of the report.
\<close>

end
